(* ===== verification/Prelude.thy ===== *)
theory Prelude
  imports Main
begin

text \<open>
  The shared base of the development: the errors the program raises, the shape of its
  stateful operations (a state goes in, a result or an error and the new state come out),
  the rules that carry an invariant or a relation through a composed operation, small
  lemmas on lists used as tables, and the two interfaces that several components share
  (\<open>invariant_steps\<close>: operations that keep an invariant; \<open>once_gate\<close>: an
  insert that succeeds the first time only).
\<close>

named_theorems cmd_simps \<open>evaluation of composed operations\<close>
named_theorems keeps_intro \<open>preservation rules for composed operations\<close>

section \<open>Errors\<close>

text \<open>
  PostgreSQL reports a violated constraint or an unusable parameter as an error of the
  statement; the name of the constraint is kept where the schema names it.
\<close>

datatype pg_error =
    UniqueViolation string
  | ForeignKeyViolation string
  | CheckViolation string
  | NotNullViolation string
  | NumericValueOutOfRange
  | InvalidTextRepresentation
  | StringDataRightTruncation
  | InvalidRowCountInLimit

text \<open>
  \<open>BadRequest\<close> to \<open>Conflict\<close> are the NestJS exceptions the code throws,
  \<open>JsError\<close> is \<open>throw new Error(msg)\<close>, \<open>TypeError\<close> a property read
  of \<open>undefined\<close> or \<open>null\<close>, \<open>Pg\<close> an error of the database driver.
  The two codes of \<open>CheckoutError\<close> are constructors of their own.
\<close>

datatype err =
    BadRequest string
  | Unauthorized string
  | Forbidden string
  | NotFound string
  | Conflict string
  | InsufficientStock
  | InsufficientBalance
  | JsError string
  | TypeError
  | Pg pg_error

text \<open>The HTTP status a thrown error becomes: its own for an HTTP exception, else 500.\<close>

fun status_of :: "err \<Rightarrow> nat" where
  "status_of (BadRequest _) = 400"
| "status_of (Unauthorized _) = 401"
| "status_of (Forbidden _) = 403"
| "status_of (NotFound _) = 404"
| "status_of (Conflict _) = 409"
| "status_of _ = 500"

section \<open>Operations: state in, result and state out\<close>

text \<open>
  The state is returned on an error too: a failed statement may already have advanced a
  sequence, and a caller that catches the error goes on with that state.
\<close>

type_synonym ('s, 'a) cmd = "'s \<Rightarrow> (err + 'a) \<times> 's"

definition cmd_return :: "'a \<Rightarrow> ('s, 'a) cmd" where
  "cmd_return a = (\<lambda>s. (Inr a, s))"

definition cmd_throw :: "err \<Rightarrow> ('s, 'a) cmd" where
  "cmd_throw e = (\<lambda>s. (Inl e, s))"

definition cmd_lift :: "err + 'a \<Rightarrow> ('s, 'a) cmd" where
  "cmd_lift r = (\<lambda>s. (r, s))"

definition cmd_read :: "('s \<Rightarrow> 'a) \<Rightarrow> ('s, 'a) cmd" where
  "cmd_read g = (\<lambda>s. (Inr (g s), s))"

definition cmd_write :: "('s \<Rightarrow> 's) \<Rightarrow> ('s, unit) cmd" where
  "cmd_write g = (\<lambda>s. (Inr (), g s))"

text \<open>A statement that reports a truth value.\<close>

definition cmd_gate :: "('s \<Rightarrow> bool \<times> 's) \<Rightarrow> ('s, bool) cmd" where
  "cmd_gate g = (\<lambda>s. case g s of (b, s') \<Rightarrow> (Inr b, s'))"

definition cmd_bind :: "('s, 'a) cmd \<Rightarrow> ('a \<Rightarrow> ('s, 'b) cmd) \<Rightarrow> ('s, 'b) cmd" where
  "cmd_bind m f = (\<lambda>s. case m s of (Inl e, s') \<Rightarrow> (Inl e, s') | (Inr a, s') \<Rightarrow> f a s')"

definition cmd_assert :: "bool \<Rightarrow> err \<Rightarrow> ('s, unit) cmd" where
  "cmd_assert b e = (if b then cmd_return () else cmd_throw e)"

text \<open>A \<open>for \<dots> of\<close> loop: the body runs for each element, the first error ends it.\<close>

fun cmd_fold :: "('a \<Rightarrow> 'b \<Rightarrow> ('s, 'b) cmd) \<Rightarrow> 'a list \<Rightarrow> 'b \<Rightarrow> ('s, 'b) cmd" where
  "cmd_fold f [] b = cmd_return b"
| "cmd_fold f (x # xs) b = cmd_bind (f x b) (cmd_fold f xs)"

text \<open>
  \<open>try { body; COMMIT } catch { ROLLBACK; throw }\<close>: on an error the state becomes what
  \<open>rb\<close> makes of the state before and the state at the error.
\<close>

definition cmd_transaction :: "('s \<Rightarrow> 's \<Rightarrow> 's) \<Rightarrow> ('s, 'a) cmd \<Rightarrow> ('s, 'a) cmd" where
  "cmd_transaction rb m = (\<lambda>s. case m s of
       (Inl e, s') \<Rightarrow> (Inl e, rb s s')
     | (Inr a, s') \<Rightarrow> (Inr a, s'))"

lemma cmd_return_run [cmd_simps]: "cmd_return a s = (Inr a, s)"
  by (simp add: cmd_return_def)

lemma cmd_throw_run [cmd_simps]: "cmd_throw e s = (Inl e, s)"
  by (simp add: cmd_throw_def)

lemma cmd_lift_run [cmd_simps]: "cmd_lift r s = (r, s)"
  by (simp add: cmd_lift_def)

lemma cmd_read_run [cmd_simps]: "cmd_read g s = (Inr (g s), s)"
  by (simp add: cmd_read_def)

lemma cmd_write_run [cmd_simps]: "cmd_write g s = (Inr (), g s)"
  by (simp add: cmd_write_def)

lemma cmd_gate_run [cmd_simps]: "cmd_gate g s = (Inr (fst (g s)), snd (g s))"
  by (simp add: cmd_gate_def split: prod.split)

lemma cmd_assert_run [cmd_simps]: "cmd_assert b e s = (if b then (Inr (), s) else (Inl e, s))"
  by (simp add: cmd_assert_def cmd_return_def cmd_throw_def)

lemma cmd_bind_run:
  "cmd_bind m f s = (case m s of (Inl e, s') \<Rightarrow> (Inl e, s') | (Inr a, s') \<Rightarrow> f a s')"
  by (simp add: cmd_bind_def)

lemma cmd_bind_return: "cmd_bind (cmd_return a) f = f a"
  by (simp add: fun_eq_iff cmd_bind_run cmd_simps)

lemma cmd_bind_lift_Inr: "cmd_bind (cmd_lift (Inr a)) f = f a"
  by (simp add: fun_eq_iff cmd_bind_run cmd_simps)

text \<open>Inversion of a composed operation, the form in which proofs take one apart.\<close>

lemma cmd_bind_Inr_iff:
  "cmd_bind m f s = (Inr b, s'') \<longleftrightarrow> (\<exists>a s'. m s = (Inr a, s') \<and> f a s' = (Inr b, s''))"
  by (auto simp: cmd_bind_def split: prod.splits sum.splits)

lemma cmd_bind_Inl_iff:
  "cmd_bind m f s = (Inl e, s'') \<longleftrightarrow>
     m s = (Inl e, s'') \<or> (\<exists>a s'. m s = (Inr a, s') \<and> f a s' = (Inl e, s''))"
  by (auto simp: cmd_bind_def split: prod.splits sum.splits)

lemma cmd_transaction_Inr_iff:
  "cmd_transaction rb m s = (Inr a, s') \<longleftrightarrow> m s = (Inr a, s')"
  by (auto simp: cmd_transaction_def split: prod.splits sum.splits)

lemma cmd_transaction_Inl_iff:
  "cmd_transaction rb m s = (Inl e, s') \<longleftrightarrow> (\<exists>t. m s = (Inl e, t) \<and> s' = rb s t)"
  by (auto simp: cmd_transaction_def split: prod.splits sum.splits)

text \<open>An operation on one part of a state of two parts.\<close>

definition on_fst :: "('s, 'a) cmd \<Rightarrow> ('s \<times> 't, 'a) cmd" where
  "on_fst m = (\<lambda>(s, t). case m s of (r, s') \<Rightarrow> (r, (s', t)))"

definition on_snd :: "('t, 'a) cmd \<Rightarrow> ('s \<times> 't, 'a) cmd" where
  "on_snd m = (\<lambda>(s, t). case m t of (r, t') \<Rightarrow> (r, (s, t')))"

lemma on_fst_run [cmd_simps]: "on_fst m (s, t) = (fst (m s), (snd (m s), t))"
  by (simp add: on_fst_def split: prod.split)

lemma on_snd_run [cmd_simps]: "on_snd m (s, t) = (fst (m t), (s, snd (m t)))"
  by (simp add: on_snd_def split: prod.split)

section \<open>Preservation through composed operations\<close>

text \<open>
  \<open>cmd_rel R m\<close>: whatever \<open>m\<close> returns, the new state is \<open>R\<close>-related to the
  old one. An invariant is the special case \<open>cmd_keeps\<close>.
\<close>

definition cmd_rel :: "('s \<Rightarrow> 's \<Rightarrow> bool) \<Rightarrow> ('s, 'a) cmd \<Rightarrow> bool" where
  "cmd_rel R m \<longleftrightarrow> (\<forall>s. R s (snd (m s)))"

definition cmd_keeps :: "('s \<Rightarrow> bool) \<Rightarrow> ('s, 'a) cmd \<Rightarrow> bool" where
  "cmd_keeps P m \<longleftrightarrow> (\<forall>s. P s \<longrightarrow> P (snd (m s)))"

lemma cmd_keepsD: "cmd_keeps P m \<Longrightarrow> P s \<Longrightarrow> P (snd (m s))"
  by (simp add: cmd_keeps_def)

lemma cmd_keeps_return [keeps_intro]: "cmd_keeps P (cmd_return a)"
  by (simp add: cmd_keeps_def cmd_simps)

lemma cmd_keeps_throw [keeps_intro]: "cmd_keeps P (cmd_throw e)"
  by (simp add: cmd_keeps_def cmd_simps)

lemma cmd_keeps_lift [keeps_intro]: "cmd_keeps P (cmd_lift r)"
  by (simp add: cmd_keeps_def cmd_simps)

lemma cmd_keeps_read [keeps_intro]: "cmd_keeps P (cmd_read g)"
  by (simp add: cmd_keeps_def cmd_simps)

lemma cmd_keeps_assert [keeps_intro]: "cmd_keeps P (cmd_assert b e)"
  by (simp add: cmd_keeps_def cmd_simps)

lemma cmd_keeps_bind [keeps_intro]:
  "cmd_keeps P m \<Longrightarrow> (\<And>a. cmd_keeps P (f a)) \<Longrightarrow> cmd_keeps P (cmd_bind m f)"
  by (fastforce simp: cmd_keeps_def cmd_bind_def split: prod.split sum.split)

text \<open>The same with a fact about the result of the first part.\<close>

lemma cmd_keeps_bind_result:
  assumes "cmd_keeps P m" and "\<And>s a s'. P s \<Longrightarrow> m s = (Inr a, s') \<Longrightarrow> Q a"
    and "\<And>a. Q a \<Longrightarrow> cmd_keeps P (f a)"
  shows "cmd_keeps P (cmd_bind m f)"
  using assms by (fastforce simp: cmd_keeps_def cmd_bind_def split: prod.split sum.split)

lemma cmd_keeps_fold [keeps_intro]:
  "(\<And>x b. cmd_keeps P (f x b)) \<Longrightarrow> cmd_keeps P (cmd_fold f xs b)"
  by (induction xs arbitrary: b) (auto intro!: keeps_intro)

lemma cmd_keeps_if [keeps_intro]:
  "(b \<Longrightarrow> cmd_keeps P m) \<Longrightarrow> (\<not> b \<Longrightarrow> cmd_keeps P m') \<Longrightarrow> cmd_keeps P (if b then m else m')"
  by simp

lemma cmd_keeps_option [keeps_intro]:
  "(x = None \<Longrightarrow> cmd_keeps P m) \<Longrightarrow> (\<And>a. x = Some a \<Longrightarrow> cmd_keeps P (f a)) \<Longrightarrow>
     cmd_keeps P (case x of None \<Rightarrow> m | Some a \<Rightarrow> f a)"
  by (cases x) auto

lemma cmd_keeps_prod [keeps_intro]:
  "(\<And>a b. x = (a, b) \<Longrightarrow> cmd_keeps P (f a b)) \<Longrightarrow> cmd_keeps P (case x of (a, b) \<Rightarrow> f a b)"
  by (cases x) auto

lemma cmd_keeps_transaction [keeps_intro]:
  assumes "cmd_keeps P m" and "\<And>s t. P s \<Longrightarrow> P t \<Longrightarrow> P (rb s t)"
  shows "cmd_keeps P (cmd_transaction rb m)"
  unfolding cmd_keeps_def
proof (intro allI impI)
  fix s
  assume "P s"
  then have "P (snd (m s))"
    using assms(1) by (rule cmd_keepsD [rotated])
  then show "P (snd (cmd_transaction rb m s))"
    using \<open>P s\<close> assms(2)
    by (cases "m s") (auto simp: cmd_transaction_def split: sum.splits)
qed

text \<open>
  \<open>cmd_ensures P m Q\<close>: from a state with \<open>P\<close>, a result \<open>a\<close> comes with a state
  that satisfies \<open>Q a\<close>; used where a statement needs what an earlier one established.
\<close>

definition cmd_ensures :: "('s \<Rightarrow> bool) \<Rightarrow> ('s, 'a) cmd \<Rightarrow> ('a \<Rightarrow> 's \<Rightarrow> bool) \<Rightarrow> bool" where
  "cmd_ensures P m Q \<longleftrightarrow> (\<forall>s a s'. P s \<longrightarrow> m s = (Inr a, s') \<longrightarrow> Q a s')"

lemma cmd_ensuresD: "cmd_ensures P m Q \<Longrightarrow> P s \<Longrightarrow> m s = (Inr a, s') \<Longrightarrow> Q a s'"
  by (auto simp: cmd_ensures_def)

lemma cmd_ensures_bind:
  assumes "cmd_ensures P m Q" and "\<And>a. cmd_ensures (Q a) (f a) R"
  shows "cmd_ensures P (cmd_bind m f) R"
  using assms unfolding cmd_ensures_def cmd_bind_Inr_iff by blast

lemma cmd_ensures_keeps: "cmd_keeps P m \<Longrightarrow> cmd_ensures P m (\<lambda>_. P)"
  unfolding cmd_ensures_def cmd_keeps_def by force

lemma cmd_ensures_weaken:
  "cmd_ensures P m Q \<Longrightarrow> (\<And>a s. Q a s \<Longrightarrow> R a s) \<Longrightarrow> cmd_ensures P m R"
  unfolding cmd_ensures_def by blast

lemma cmd_ensures_option:
  "(x = None \<Longrightarrow> cmd_ensures P m Q) \<Longrightarrow> (\<And>a. x = Some a \<Longrightarrow> cmd_ensures P (f a) Q) \<Longrightarrow>
     cmd_ensures P (case x of None \<Rightarrow> m | Some a \<Rightarrow> f a) Q"
  by (cases x) auto

lemma cmd_ensures_throw: "cmd_ensures P (cmd_throw e) Q"
  by (simp add: cmd_ensures_def cmd_simps)

lemma cmd_keeps_conj:
  "cmd_keeps P m \<Longrightarrow> cmd_keeps Q m \<Longrightarrow> cmd_keeps (\<lambda>s. P s \<and> Q s) m"
  by (simp add: cmd_keeps_def)

section \<open>Which errors an operation throws\<close>

named_theorems throws_intro \<open>rules for the errors of composed operations\<close>

definition cmd_throws :: "(err \<Rightarrow> bool) \<Rightarrow> ('s, 'a) cmd \<Rightarrow> bool" where
  "cmd_throws P m \<longleftrightarrow> (\<forall>s e s'. m s = (Inl e, s') \<longrightarrow> P e)"

lemma cmd_throwsD: "cmd_throws P m \<Longrightarrow> m s = (Inl e, s') \<Longrightarrow> P e"
  by (auto simp: cmd_throws_def)

lemma cmd_throws_return [throws_intro]: "cmd_throws P (cmd_return a)"
  by (simp add: cmd_throws_def cmd_simps)

lemma cmd_throws_throw [throws_intro]: "P e \<Longrightarrow> cmd_throws P (cmd_throw e)"
  by (simp add: cmd_throws_def cmd_simps)

lemma cmd_throws_write [throws_intro]: "cmd_throws P (cmd_write g)"
  by (simp add: cmd_throws_def cmd_simps)

lemma cmd_throws_read [throws_intro]: "cmd_throws P (cmd_read g)"
  by (simp add: cmd_throws_def cmd_simps)

lemma cmd_throws_assert [throws_intro]: "P e \<Longrightarrow> cmd_throws P (cmd_assert b e)"
  by (simp add: cmd_throws_def cmd_simps)

lemma cmd_throws_bind [throws_intro]:
  "cmd_throws P m \<Longrightarrow> (\<And>a. cmd_throws P (f a)) \<Longrightarrow> cmd_throws P (cmd_bind m f)"
  by (fastforce simp: cmd_throws_def cmd_bind_Inl_iff)

lemma cmd_throws_fold [throws_intro]:
  "(\<And>x b. cmd_throws P (f x b)) \<Longrightarrow> cmd_throws P (cmd_fold f xs b)"
  by (induction xs arbitrary: b) (auto intro!: throws_intro)

lemma cmd_throws_if [throws_intro]:
  "(b \<Longrightarrow> cmd_throws P m) \<Longrightarrow> (\<not> b \<Longrightarrow> cmd_throws P m') \<Longrightarrow> cmd_throws P (if b then m else m')"
  by simp

lemma cmd_throws_option [throws_intro]:
  "(x = None \<Longrightarrow> cmd_throws P m) \<Longrightarrow> (\<And>a. x = Some a \<Longrightarrow> cmd_throws P (f a)) \<Longrightarrow>
     cmd_throws P (case x of None \<Rightarrow> m | Some a \<Rightarrow> f a)"
  by (cases x) auto

lemma cmd_throws_transaction [throws_intro]:
  "cmd_throws P m \<Longrightarrow> cmd_throws P (cmd_transaction rb m)"
  by (auto simp: cmd_throws_def cmd_transaction_Inl_iff)

section \<open>Lists as tables\<close>

text \<open>
  A table is the list of its rows in the order of insertion. \<open>update_where\<close> is
  \<open>UPDATE \<dots> SET \<dots> WHERE\<close>, \<open>first_where\<close> a \<open>SELECT \<dots> WHERE \<dots> LIMIT 1\<close>.
\<close>

definition update_where :: "('r \<Rightarrow> bool) \<Rightarrow> ('r \<Rightarrow> 'r) \<Rightarrow> 'r list \<Rightarrow> 'r list" where
  "update_where p f rs = map (\<lambda>r. if p r then f r else r) rs"

fun first_where :: "('r \<Rightarrow> bool) \<Rightarrow> 'r list \<Rightarrow> 'r option" where
  "first_where p [] = None"
| "first_where p (r # rs) = (if p r then Some r else first_where p rs)"

lemma first_where_None [simp]: "first_where p rs = None \<longleftrightarrow> (\<forall>r \<in> set rs. \<not> p r)"
  by (induction rs) auto

lemma first_where_SomeD: "first_where p rs = Some r \<Longrightarrow> r \<in> set rs \<and> p r"
  by (induction rs) (auto split: if_splits)

lemma first_where_append:
  "first_where p (rs @ qs) =
     (case first_where p rs of None \<Rightarrow> first_where p qs | Some r \<Rightarrow> Some r)"
  by (induction rs) auto

lemma first_where_cong:
  "(\<And>r. r \<in> set rs \<Longrightarrow> p r = q r) \<Longrightarrow> first_where p rs = first_where q rs"
  by (induction rs) auto

lemma first_where_unique:
  "distinct (map k rs) \<Longrightarrow> r \<in> set rs \<Longrightarrow> first_where (\<lambda>x. k x = k r) rs = Some r"
  by (induction rs) (auto simp: image_iff)

lemma first_where_iff_unique:
  "distinct (map k rs) \<Longrightarrow> first_where (\<lambda>x. k x = v) rs = Some r \<longleftrightarrow> r \<in> set rs \<and> k r = v"
  using first_where_unique [of k rs r] first_where_SomeD [of "\<lambda>x. k x = v" rs r] by auto

lemma update_where_Nil [simp]: "update_where p f [] = []"
  by (simp add: update_where_def)

lemma update_where_Cons [simp]:
  "update_where p f (r # rs) = (if p r then f r else r) # update_where p f rs"
  by (simp add: update_where_def)

lemma update_where_append [simp]:
  "update_where p f (rs @ qs) = update_where p f rs @ update_where p f qs"
  by (simp add: update_where_def)

lemma length_update_where [simp]: "length (update_where p f rs) = length rs"
  by (simp add: update_where_def)

lemma set_update_where:
  "set (update_where p f rs) = f ` {r \<in> set rs. p r} \<union> {r \<in> set rs. \<not> p r}"
  by (auto simp: update_where_def)

lemma map_update_where:
  "(\<And>r. k (f r) = k r) \<Longrightarrow> map k (update_where p f rs) = map k rs"
  by (induction rs) auto

lemma in_update_whereE:
  assumes "r \<in> set (update_where p f rs)"
  obtains r0 where "r0 \<in> set rs" and "r = (if p r0 then f r0 else r0)"
  using assms by (auto simp: update_where_def)

lemma ball_update_where:
  "\<forall>r \<in> set rs. Q r \<Longrightarrow> (\<And>r. Q r \<Longrightarrow> p r \<Longrightarrow> Q (f r)) \<Longrightarrow> \<forall>r \<in> set (update_where p f rs). Q r"
  by (auto simp: update_where_def)

lemma image_update_where:
  "(\<And>r. k (f r) = k r) \<Longrightarrow> k ` set (update_where p f rs) = k ` set rs"
  by (metis map_update_where set_map)

lemma update_where_id: "(\<And>r. r \<in> set rs \<Longrightarrow> \<not> p r) \<Longrightarrow> update_where p f rs = rs"
  by (induction rs) auto

lemma first_where_update:
  assumes "\<And>r. q (f r) = q r"
  shows "first_where q (update_where p f rs) =
           map_option (\<lambda>r. if p r then f r else r) (first_where q rs)"
  using assms by (induction rs) auto

lemma sum_update_key:
  fixes g :: "'r \<Rightarrow> int"
  assumes "distinct (map k rs)" and "r \<in> set rs" and "\<And>x. k (f x) = k x"
  shows "sum_list (map g (filter (\<lambda>x. k x = v) (update_where (\<lambda>x. k x = k r) f rs))) =
           sum_list (map g (filter (\<lambda>x. k x = v) rs)) + (if v = k r then g (f r) - g r else 0)"
  using assms(1,2)
proof (induction rs)
  case (Cons a rs)
  show ?case
  proof (cases "a = r")
    case True
    with Cons.prems have "update_where (\<lambda>x. k x = k r) f rs = rs"
      by (intro update_where_id) (auto simp: image_iff)
    with True show ?thesis by (simp add: assms(3))
  next
    case False
    with Cons.prems have "k a \<noteq> k r" and "r \<in> set rs" by (auto simp: image_iff)
    with Cons show ?thesis by (cases "v = k r") auto
  qed
qed simp

lemma distinct_count_list: "distinct xs \<Longrightarrow> x \<in> set xs \<Longrightarrow> count_list xs x = 1"
  by (induction xs) auto

section \<open>Interfaces shared by several components\<close>

text \<open>Operations that keep an invariant: any sequence of them keeps it.\<close>

locale invariant_steps =
  fixes step :: "'e \<Rightarrow> 's \<Rightarrow> 's"
    and inv :: "'s \<Rightarrow> bool"
  assumes step_inv: "inv s \<Longrightarrow> inv (step e s)"
begin

lemma run_inv: "inv s \<Longrightarrow> inv (fold step es s)"
  by (induction es arbitrary: s) (auto intro: step_inv)

lemma run_prefix_inv: "inv s \<Longrightarrow> inv (fold step (take n es) s)"
  by (rule run_inv)

end

text \<open>
  \<open>INSERT \<dots> ON CONFLICT DO NOTHING RETURNING\<close> used as a gate: it admits a key the
  first time and refuses it from then on. \<open>gate_run\<close> passes a list of keys through a
  gate and keeps the ones it admits.
\<close>

fun gate_run :: "('k \<Rightarrow> 's \<Rightarrow> bool \<times> 's) \<Rightarrow> 'k list \<Rightarrow> 's \<Rightarrow> 'k list \<times> 's" where
  "gate_run enter [] s = ([], s)"
| "gate_run enter (k # ks) s =
     (let (b, s') = enter k s; (adm, s'') = gate_run enter ks s'
      in (if b then k # adm else adm, s''))"

locale once_gate =
  fixes enter :: "'k \<Rightarrow> 's \<Rightarrow> bool \<times> 's"
    and present :: "'s \<Rightarrow> 'k set"
  assumes enter_admits: "fst (enter k s) \<longleftrightarrow> k \<notin> present s"
    and enter_present: "present (snd (enter k s)) = insert k (present s)"
begin

lemma gate_run_present: "present (snd (gate_run enter ks s)) = set ks \<union> present s"
proof (induction ks arbitrary: s)
  case (Cons k ks)
  then show ?case by (auto simp: Let_def case_prod_beta enter_present)
qed simp

lemma gate_run_set: "set (fst (gate_run enter ks s)) = set ks - present s"
proof (induction ks arbitrary: s)
  case (Cons k ks)
  then show ?case by (auto simp: Let_def case_prod_beta enter_present enter_admits)
qed simp

lemma gate_run_distinct: "distinct (fst (gate_run enter ks s))"
proof (induction ks arbitrary: s)
  case (Cons k ks)
  then show ?case
    by (auto simp: Let_def case_prod_beta gate_run_set enter_present)
qed simp

text \<open>Which keys are admitted depends on the keys that are present only.\<close>

lemma gate_run_cong:
  "present s = present t \<Longrightarrow> fst (gate_run enter ks s) = fst (gate_run enter ks t)"
proof (induction ks arbitrary: s t)
  case (Cons k ks)
  have "present (snd (enter k s)) = present (snd (enter k t))"
    using Cons.prems by (simp add: enter_present)
  from Cons.IH [OF this] Cons.prems show ?case
    by (simp add: Let_def case_prod_beta enter_admits)
qed simp

text \<open>Repeating keys, in any order and number, admits each of them exactly once.\<close>

lemma gate_run_count:
  "count_list (fst (gate_run enter ks s)) k = (if k \<in> set ks \<and> k \<notin> present s then 1 else 0)"
proof (cases "k \<in> set (fst (gate_run enter ks s))")
  case True
  then have "count_list (fst (gate_run enter ks s)) k = 1"
    by (rule distinct_count_list [OF gate_run_distinct])
  with True show ?thesis by (simp add: gate_run_set)
next
  case False
  then show ?thesis by (auto simp: gate_run_set)
qed

end

end
