(* ===== verification/Js.thy ===== *)
theory Js
  imports Prelude
begin

text \<open>
  What the source uses of JavaScript: the values \<open>JSON.parse\<close> and request bodies hold,
  truthiness, \<open>Number.isInteger\<close>, \<open>Number(x)\<close>, \<open>String(n)\<close>, property reads and
  the string methods \<open>trim\<close>, \<open>startsWith\<close>, \<open>slice\<close> and \<open>split\<close>.

  A string is the list of its code units, each below 256. A number is an exact value:
  an integer, a finite non-integer \<open>m / 10^k\<close>, NaN or an infinity; the rounding of
  doubles beyond \<open>2^53\<close> is left out, and so is the sign of zero. Every place of the
  source where a larger integer could arise passes it to a PostgreSQL \<open>integer\<close> or
  \<open>bigint\<close> parameter, which refuses it rounded or not.
\<close>

datatype jsnum = IntN int | FracN int nat | NaN | PosInf | NegInf

datatype jsval =
    Undefined
  | Null
  | Bool bool
  | Num jsnum
  | Str string
  | Arr "jsval list"
  | Obj "(string \<times> jsval) list"

section \<open>Decimal numerals\<close>

definition digit_char :: "nat \<Rightarrow> char" where
  "digit_char d = char_of (48 + d)"

definition digit_val :: "char \<Rightarrow> nat option" where
  "digit_val c = (let n = (of_char c :: nat) in if 48 \<le> n \<and> n \<le> 57 then Some (n - 48) else None)"

definition is_digit :: "char \<Rightarrow> bool" where
  "is_digit c \<longleftrightarrow> digit_val c \<noteq> None"

fun show_nat :: "nat \<Rightarrow> string" where
  "show_nat n = (if n < 10 then [digit_char n] else show_nat (n div 10) @ [digit_char (n mod 10)])"

declare show_nat.simps [simp del]

definition show_int :: "int \<Rightarrow> string" where
  "show_int i = (if i < 0 then CHR ''-'' # show_nat (nat (- i)) else show_nat (nat i))"

fun read_digits :: "nat \<Rightarrow> string \<Rightarrow> nat" where
  "read_digits acc [] = acc"
| "read_digits acc (c # cs) =
     read_digits (10 * acc + (case digit_val c of None \<Rightarrow> 0 | Some d \<Rightarrow> d)) cs"

lemma digit_val_char [simp]: "d < 10 \<Longrightarrow> digit_val (digit_char d) = Some d"
  by (simp add: digit_val_def digit_char_def)

lemma is_digit_char [simp]: "d < 10 \<Longrightarrow> is_digit (digit_char d)"
  by (simp add: is_digit_def)

lemma read_digits_append: "read_digits acc (s @ t) = read_digits (read_digits acc s) t"
  by (induction s arbitrary: acc) auto

lemma show_nat_nonempty [simp]: "show_nat n \<noteq> []"
  by (subst show_nat.simps) simp

lemma show_nat_digits: "\<forall>c \<in> set (show_nat n). is_digit c"
proof (induction n rule: show_nat.induct)
  case (1 n)
  then show ?case by (subst show_nat.simps) auto
qed

lemma read_show_nat [simp]: "read_digits 0 (show_nat n) = n"
proof (induction n rule: show_nat.induct)
  case (1 n)
  show ?case
  proof (cases "n < 10")
    case True
    then show ?thesis by (subst show_nat.simps) simp
  next
    case False
    with 1 show ?thesis by (subst show_nat.simps) (simp add: read_digits_append)
  qed
qed

lemma show_nat_inject [simp]: "show_nat m = show_nat n \<longleftrightarrow> m = n"
  by (metis read_show_nat)

section \<open>Number(string)\<close>

definition js_space :: "char \<Rightarrow> bool" where
  "js_space c \<longleftrightarrow> (let n = (of_char c :: nat) in 9 \<le> n \<and> n \<le> 13 \<or> n = 32 \<or> n = 160)"

definition js_trim :: "string \<Rightarrow> string" where
  "js_trim s = rev (dropWhile js_space (rev (dropWhile js_space s)))"

text \<open>The exact value \<open>m * 10^e\<close>.\<close>

definition dec_value :: "int \<Rightarrow> int \<Rightarrow> jsnum" where
  "dec_value m e =
     (if 0 \<le> e then IntN (m * 10 ^ nat e)
      else if m mod 10 ^ nat (- e) = 0 then IntN (m div 10 ^ nat (- e))
      else FracN m (nat (- e)))"

text \<open>An optional sign, and the rest.\<close>

fun split_sign :: "string \<Rightarrow> int \<times> string" where
  "split_sign [] = (1, [])"
| "split_sign (c # cs) =
     (if c = CHR ''-'' then (-1, cs) else if c = CHR ''+'' then (1, cs) else (1, c # cs))"

text \<open>The exponent part: empty is 0, a malformed one \<open>None\<close>.\<close>

fun read_exponent :: "string \<Rightarrow> int option" where
  "read_exponent [] = Some 0"
| "read_exponent (c # cs) =
     (let (sg, ds) = split_sign cs
      in if (c = CHR ''e'' \<or> c = CHR ''E'') \<and> ds \<noteq> [] \<and> list_all is_digit ds
         then Some (sg * int (read_digits 0 ds)) else None)"

definition read_decimal :: "string \<Rightarrow> jsnum" where
  "read_decimal s =
     (let (sg, r) = split_sign s;
          ip = takeWhile is_digit r; r1 = dropWhile is_digit r;
          (fp, r2) = (case r1 of
             [] \<Rightarrow> ([], [])
           | c # cs \<Rightarrow> if c = CHR ''.'' then (takeWhile is_digit cs, dropWhile is_digit cs)
                      else ([], r1))
      in if r = ''Infinity'' then (if sg < 0 then NegInf else PosInf)
         else if ip = [] \<and> fp = [] then NaN
         else (case read_exponent r2 of
             None \<Rightarrow> NaN
           | Some e \<Rightarrow> dec_value (sg * int (read_digits 0 (ip @ fp))) (e - int (length fp))))"

definition radix_digit :: "char \<Rightarrow> nat option" where
  "radix_digit c =
     (let n = (of_char c :: nat)
      in if 48 \<le> n \<and> n \<le> 57 then Some (n - 48)
         else if 97 \<le> n \<and> n \<le> 102 then Some (n - 87)
         else if 65 \<le> n \<and> n \<le> 70 then Some (n - 55) else None)"

fun read_radix :: "nat \<Rightarrow> nat \<Rightarrow> string \<Rightarrow> jsnum" where
  "read_radix b acc [] = IntN (int acc)"
| "read_radix b acc (c # cs) =
     (case radix_digit c of
        None \<Rightarrow> NaN
      | Some d \<Rightarrow> if d < b then read_radix b (b * acc + d) cs else NaN)"

fun radix_prefix :: "string \<Rightarrow> nat option" where
  "radix_prefix (c # x # r # rs) =
     (if c \<noteq> CHR ''0'' then None
      else if x = CHR ''x'' \<or> x = CHR ''X'' then Some 16
      else if x = CHR ''o'' \<or> x = CHR ''O'' then Some 8
      else if x = CHR ''b'' \<or> x = CHR ''B'' then Some 2
      else None)"
| "radix_prefix _ = None"

definition number_of_string :: "string \<Rightarrow> jsnum" where
  "number_of_string s0 =
     (let s = js_trim s0
      in if s = [] then IntN 0
         else (case radix_prefix s of
             Some b \<Rightarrow> read_radix b 0 (drop 2 s)
           | None \<Rightarrow> read_decimal s))"

text \<open>
  \<open>Number(x)\<close>. An array goes through its string: none for \<open>[]\<close>, that of the element
  for one (\<open>null\<close> and \<open>undefined\<close> are empty there), one with a comma otherwise.
\<close>

fun to_number :: "jsval \<Rightarrow> jsnum" where
  "to_number Undefined = NaN"
| "to_number Null = IntN 0"
| "to_number (Bool b) = IntN (if b then 1 else 0)"
| "to_number (Num n) = n"
| "to_number (Str s) = number_of_string s"
| "to_number (Arr xs) =
     (case xs of
        [] \<Rightarrow> IntN 0
      | [x] \<Rightarrow> (case x of Undefined \<Rightarrow> IntN 0 | Null \<Rightarrow> IntN 0 | Bool _ \<Rightarrow> NaN | y \<Rightarrow> to_number y)
      | _ \<Rightarrow> NaN)"
| "to_number (Obj _) = NaN"

section \<open>Truthiness, properties, strings\<close>

fun truthy :: "jsval \<Rightarrow> bool" where
  "truthy Undefined = False"
| "truthy Null = False"
| "truthy (Bool b) = b"
| "truthy (Num n) = (n \<noteq> IntN 0 \<and> n \<noteq> NaN)"
| "truthy (Str s) = (s \<noteq> [])"
| "truthy (Arr _) = True"
| "truthy (Obj _) = True"

text \<open>\<open>Number.isInteger(x)\<close>, with the integer.\<close>

fun integer_of :: "jsval \<Rightarrow> int option" where
  "integer_of (Num (IntN i)) = Some i"
| "integer_of _ = None"

fun obj_field :: "(string \<times> jsval) list \<Rightarrow> string \<Rightarrow> jsval" where
  "obj_field [] k = Undefined"
| "obj_field ((k', v) # kvs) k = (if k = k' then v else obj_field kvs k)"

text \<open>\<open>v.k\<close>, which throws on \<open>undefined\<close> and \<open>null\<close>, and \<open>v?.k\<close>, which does not.\<close>

fun get_prop :: "jsval \<Rightarrow> string \<Rightarrow> err + jsval" where
  "get_prop Undefined k = Inl TypeError"
| "get_prop Null k = Inl TypeError"
| "get_prop (Obj kvs) k = Inr (obj_field kvs k)"
| "get_prop _ k = Inr Undefined"

fun opt_prop :: "jsval \<Rightarrow> string \<Rightarrow> jsval" where
  "opt_prop (Obj kvs) k = obj_field kvs k"
| "opt_prop _ k = Undefined"

definition js_starts_with :: "string \<Rightarrow> string \<Rightarrow> bool" where
  "js_starts_with s p \<longleftrightarrow> take (length p) s = p"

fun js_split :: "char \<Rightarrow> string \<Rightarrow> string list" where
  "js_split d [] = [[]]"
| "js_split d (c # cs) =
     (if c = d then [] # js_split d cs
      else (case js_split d cs of [] \<Rightarrow> [[c]] | p # ps \<Rightarrow> (c # p) # ps))"

fun js_join :: "string \<Rightarrow> string list \<Rightarrow> string" where
  "js_join sep [] = []"
| "js_join sep [s] = s"
| "js_join sep (s # t # ts) = s @ sep @ js_join sep (t # ts)"

lemma js_split_nonempty [simp]: "js_split d s \<noteq> []"
  by (induction s) (auto split: list.split)

lemma js_split_plain: "d \<notin> set s \<Longrightarrow> js_split d s = [s]"
  by (induction s) auto

lemma js_split_append: "d \<notin> set s \<Longrightarrow> js_split d (s @ d # t) = s # js_split d t"
  by (induction s) auto

lemma js_join_head: "ps \<noteq> [] \<Longrightarrow> js_join sep (s # ps) = s @ sep @ js_join sep ps"
  by (cases ps) auto

lemma js_split_two: "js_split d (p @ d # s) = js_split d p @ js_split d s"
  by (induction p) (auto split: list.split)

lemma js_split_join:
  assumes "ps \<noteq> []" and "\<forall>p \<in> set ps. d \<notin> set p"
  shows "js_split d (js_join [d] ps) = ps"
  using assms
proof (induction "[d]" ps rule: js_join.induct)
  case (3 s t ts)
  then show ?case by (simp add: js_split_append)
qed (auto simp: js_split_plain)

section \<open>Number(String(n)) is n\<close>

lemma is_digit_not_space: "is_digit c \<Longrightarrow> \<not> js_space c"
  by (auto simp: is_digit_def digit_val_def js_space_def Let_def split: if_splits)

lemma is_digit_not_sign: "is_digit c \<Longrightarrow> c \<noteq> CHR ''-'' \<and> c \<noteq> CHR ''+'' \<and> c \<noteq> CHR ''I''
    \<and> c \<noteq> CHR ''x'' \<and> c \<noteq> CHR ''X'' \<and> c \<noteq> CHR ''o'' \<and> c \<noteq> CHR ''O'' \<and> c \<noteq> CHR ''b'' \<and> c \<noteq> CHR ''B''"
  by (auto simp: is_digit_def digit_val_def)

lemma dropWhile_ends:
  assumes "s \<noteq> []" and "\<not> p (hd s)" and "\<not> p (last s)"
  shows "rev (dropWhile p (rev (dropWhile p s))) = s"
proof -
  have keep: "dropWhile p t = t" if "t \<noteq> []" "\<not> p (hd t)" for t
    using that by (cases t) auto
  show ?thesis using assms by (simp add: keep hd_rev)
qed

lemma js_trim_show_int [simp]: "js_trim (show_int i) = show_int i"
proof -
  have ends: "\<not> js_space (hd (show_nat n))" "\<not> js_space (last (show_nat n))" for n
    using show_nat_digits [of n] is_digit_not_space hd_in_set [of "show_nat n"]
      last_in_set [of "show_nat n"] by auto
  have minus: "\<not> js_space CHR ''-''" by (simp add: js_space_def)
  show ?thesis
    unfolding js_trim_def
    by (rule dropWhile_ends) (auto simp: show_int_def ends minus)
qed

lemma read_decimal_show_int: "read_decimal (show_int i) = IntN i"
proof -
  have digits: "takeWhile is_digit (show_nat n) = show_nat n" "dropWhile is_digit (show_nat n) = []" for n
    using show_nat_digits by (auto simp: takeWhile_eq_all_conv dropWhile_eq_Nil_conv)
  have sign: "split_sign (show_nat n) = (1, show_nat n)" for n
    using show_nat_digits [of n] is_digit_not_sign
    by (cases "show_nat n") auto
  have inf: "show_nat n \<noteq> ''Infinity''" for n
    using show_nat_digits [of n] is_digit_not_sign [of "CHR ''I''"] by auto
  show ?thesis
    by (simp add: read_decimal_def show_int_def sign digits inf dec_value_def)
qed

lemma radix_prefix_digits:
  assumes "\<forall>c \<in> set s. is_digit c \<or> c = CHR ''-''"
  shows "radix_prefix s = None"
proof (cases s rule: radix_prefix.cases)
  case (1 c x r rs)
  with assms have "is_digit x \<or> x = CHR ''-''" by simp
  then have "x \<notin> {CHR ''x'', CHR ''X'', CHR ''o'', CHR ''O'', CHR ''b'', CHR ''B''}"
    using is_digit_not_sign [of x] by (elim disjE) simp_all
  with 1 show ?thesis by simp
qed simp_all

lemma number_of_show_int: "number_of_string (show_int i) = IntN i"
proof -
  have "radix_prefix (show_int i) = None"
    by (rule radix_prefix_digits) (use show_nat_digits in \<open>auto simp: show_int_def\<close>)
  moreover have "show_int i \<noteq> []"
    by (simp add: show_int_def)
  ultimately show ?thesis
    by (simp add: number_of_string_def read_decimal_show_int)
qed

lemma show_int_inject [simp]: "show_int i = show_int j \<longleftrightarrow> i = j"
  by (metis number_of_show_int jsnum.inject(1))

end
