(* ===== verification/Database.thy ===== *)
theory Database
  imports Js
begin

text \<open>
  The PostgreSQL schema of \<open>src/entities\<close> and \<open>src/migrations\<close> and the statements
  that insert into it: a row type per table, the database as the record of its tables and
  sequences, the constraints of each table as a check on a new row, and the invariant
  \<open>wf_db\<close> that the constraints keep.

  A table is the list of its rows in insertion order. Columns that no statement under
  src/ reads (\<open>created_at\<close> outside the outbox, \<open>processed_at\<close>, \<open>applied_at\<close>,
  the generated \<open>search_vector\<close>) are left out. A timestamp is a number of milliseconds;
  \<open>now()\<close> is an argument of the operations that use it.
\<close>

section \<open>Enumerations\<close>

datatype user_role = Buyer | Seller | Admin
datatype order_status = Created | Paid | Shipped | Completed | Cancelled
datatype task_status = TaskPending | TaskDone
datatype file_status = FilePending | FileCompleted

fun role_name :: "user_role \<Rightarrow> string" where
  "role_name Buyer = ''buyer''"
| "role_name Seller = ''seller''"
| "role_name Admin = ''admin''"

fun status_name :: "order_status \<Rightarrow> string" where
  "status_name Created = ''created''"
| "status_name Paid = ''paid''"
| "status_name Shipped = ''shipped''"
| "status_name Completed = ''completed''"
| "status_name Cancelled = ''cancelled''"

definition ORDER_STATUSES :: "order_status list" where
  "ORDER_STATUSES = [Created, Paid, Shipped, Completed, Cancelled]"

section \<open>Rows\<close>

record user_row =
  u_id :: int
  u_email :: string
  u_full_name :: string
  u_balance :: int
  u_password_hash :: "string option"
  u_role :: user_role

record product_row =
  p_id :: int
  p_owner_id :: int
  p_name :: string
  p_description :: string
  p_price :: int
  p_stock_quantity :: int
  p_is_active :: bool

record order_row =
  o_id :: int
  o_user_id :: int
  o_status :: order_status
  o_total_amount :: int

record order_item_row =
  oi_id :: int
  oi_order_id :: int
  oi_product_id :: int
  oi_quantity :: int
  oi_unit_price :: int

record task_row =
  t_id :: int
  t_order_id :: int
  t_type :: string
  t_status :: task_status
  t_processed :: int
  t_worker_id :: "string option"

record outbox_row =
  ob_id :: int
  ob_event_id :: string
  ob_aggregate_type :: string
  ob_aggregate_id :: string
  ob_type :: string
  ob_payload :: jsval
  ob_created_at :: int
  ob_published_at :: "int option"
  ob_attempts :: int

record inbox_row =
  pm_message_id :: string
  pm_consumer :: string

record effect_row =
  ef_message_id :: string
  ef_order_id :: int
  ef_event_type :: string

record idem_row =
  ik_key :: string
  ik_order_id :: "int option"

record refresh_row =
  rt_id :: int
  rt_token_hash :: string
  rt_family_id :: string
  rt_user_id :: int
  rt_used_at :: "int option"
  rt_revoked_at :: "int option"
  rt_expires_at :: int

record denied_row =
  dn_jti :: string
  dn_expires_at :: int

record file_row =
  f_id :: string
  f_owner_id :: int
  f_object_key :: string
  f_content_type :: string
  f_status :: file_status
  f_expected_size :: "int option"
  f_actual_size :: "int option"
  f_upload_id :: "string option"

section \<open>The database\<close>

text \<open>The last value of each \<open>BIGSERIAL\<close>; a sequence is not rolled back.\<close>

record seqs =
  sq_users :: int
  sq_products :: int
  sq_orders :: int
  sq_items :: int
  sq_tasks :: int
  sq_outbox :: int
  sq_refresh :: int

record db =
  users :: "user_row list"
  products :: "product_row list"
  orders :: "order_row list"
  order_items :: "order_item_row list"
  tasks :: "task_row list"
  outbox :: "outbox_row list"
  processed :: "inbox_row list"
  effects :: "effect_row list"
  idem_keys :: "idem_row list"
  refresh_tokens :: "refresh_row list"
  denylist :: "denied_row list"
  files :: "file_row list"
  seqs :: seqs

definition empty_db :: db where
  "empty_db = \<lparr>users = [], products = [], orders = [], order_items = [], tasks = [], outbox = [],
     processed = [], effects = [], idem_keys = [], refresh_tokens = [], denylist = [], files = [],
     seqs = \<lparr>sq_users = 0, sq_products = 0, sq_orders = 0, sq_items = 0, sq_tasks = 0,
       sq_outbox = 0, sq_refresh = 0\<rparr>\<rparr>"

text \<open>\<open>ROLLBACK\<close>: the tables of the state before, the sequences of the state after.\<close>

definition rollback :: "db \<Rightarrow> db \<Rightarrow> db" where
  "rollback before after = before\<lparr>seqs := seqs after\<rparr>"

definition same_tables :: "db \<Rightarrow> db \<Rightarrow> bool" where
  "same_tables d d' \<longleftrightarrow> d\<lparr>seqs := seqs d'\<rparr> = d'"

abbreviation transaction :: "(db, 'a) cmd \<Rightarrow> (db, 'a) cmd" where
  "transaction m \<equiv> cmd_transaction rollback m"

lemma same_tables_rollback [simp]: "same_tables d (rollback d d')"
  by (simp add: same_tables_def rollback_def)

lemma same_tables_refl [simp]: "same_tables d d"
  by (simp add: same_tables_def)

lemma same_tables_fields:
  assumes "same_tables d d'"
  shows "users d' = users d" "products d' = products d" "orders d' = orders d"
    "order_items d' = order_items d" "tasks d' = tasks d" "outbox d' = outbox d"
    "processed d' = processed d" "effects d' = effects d" "idem_keys d' = idem_keys d"
    "refresh_tokens d' = refresh_tokens d" "denylist d' = denylist d" "files d' = files d"
  using assms unfolding same_tables_def by (auto elim: subst)

section \<open>Statement parameters\<close>

definition int4 :: "int \<Rightarrow> bool" where
  "int4 i \<longleftrightarrow> - 2147483648 \<le> i \<and> i \<le> 2147483647"

definition int8 :: "int \<Rightarrow> bool" where
  "int8 i \<longleftrightarrow> - 9223372036854775808 \<le> i \<and> i \<le> 9223372036854775807"

text \<open>A JavaScript number bound to a parameter of type \<open>integer\<close> or \<open>bigint\<close>.\<close>

definition param_int :: "(int \<Rightarrow> bool) \<Rightarrow> jsnum \<Rightarrow> err + int" where
  "param_int fits n = (case n of
       IntN i \<Rightarrow> (if fits i then Inr i else Inl (Pg NumericValueOutOfRange))
     | _ \<Rightarrow> Inl (Pg InvalidTextRepresentation))"

abbreviation int4_param :: "int \<Rightarrow> (db, int) cmd" where
  "int4_param i \<equiv> cmd_lift (param_int int4 (IntN i))"

abbreviation int8_param :: "int \<Rightarrow> (db, int) cmd" where
  "int8_param i \<equiv> cmd_lift (param_int int8 (IntN i))"

lemma param_int_Inr [simp]: "param_int fits n = Inr i \<longleftrightarrow> n = IntN i \<and> fits i"
  by (auto simp: param_int_def split: jsnum.splits if_splits)

lemma param_int_IntN: "param_int fits (IntN i) = (if fits i then Inr i else Inl (Pg NumericValueOutOfRange))"
  by (simp add: param_int_def)

text \<open>PostgreSQL's \<open>trim\<close> removes blanks only.\<close>

definition pg_trim :: "string \<Rightarrow> string" where
  "pg_trim s = rev (dropWhile (\<lambda>c. c = CHR '' '') (rev (dropWhile (\<lambda>c. c = CHR '' '') s)))"

section \<open>Constraints\<close>

text \<open>
  The first constraint a new or changed row violates, in the order PostgreSQL tests them:
  the checks by name, then the unique indexes, then the foreign keys.
\<close>

definition user_checks :: "user_row \<Rightarrow> pg_error option" where
  "user_checks r =
     (if u_balance r < 0 then Some (CheckViolation ''users_balance_non_negative'')
      else if pg_trim (u_email r) = [] then Some (CheckViolation ''users_email_not_empty'')
      else if pg_trim (u_full_name r) = [] then Some (CheckViolation ''users_full_name_not_empty'')
      else None)"

definition users_constraints :: "db \<Rightarrow> user_row \<Rightarrow> pg_error option" where
  "users_constraints d r = (case user_checks r of
       Some e \<Rightarrow> Some e
     | None \<Rightarrow>
         if u_id r \<in> u_id ` set (users d) then Some (UniqueViolation ''PK_users'')
         else if u_email r \<in> u_email ` set (users d) then Some (UniqueViolation ''UQ_users_email'')
         else None)"

definition product_checks :: "product_row \<Rightarrow> pg_error option" where
  "product_checks r =
     (if pg_trim (p_description r) = [] then Some (CheckViolation ''products_description_not_empty'')
      else if pg_trim (p_name r) = [] then Some (CheckViolation ''products_name_not_empty'')
      else if p_price r \<le> 0 then Some (CheckViolation ''products_price_positive'')
      else if p_stock_quantity r < 0 then Some (CheckViolation ''products_stock_non_negative'')
      else None)"

definition products_constraints :: "db \<Rightarrow> product_row \<Rightarrow> pg_error option" where
  "products_constraints d r = (case product_checks r of
       Some e \<Rightarrow> Some e
     | None \<Rightarrow>
         if p_id r \<in> p_id ` set (products d) then Some (UniqueViolation ''PK_products'')
         else if p_owner_id r \<notin> u_id ` set (users d) then Some (ForeignKeyViolation ''products_owner_fk'')
         else None)"

definition orders_constraints :: "db \<Rightarrow> order_row \<Rightarrow> pg_error option" where
  "orders_constraints d r =
     (if o_total_amount r < 0 then Some (CheckViolation ''orders_total_non_negative'')
      else if o_id r \<in> o_id ` set (orders d) then Some (UniqueViolation ''PK_orders'')
      else if o_user_id r \<notin> u_id ` set (users d) then Some (ForeignKeyViolation ''orders_user_fk'')
      else None)"

definition order_items_constraints :: "db \<Rightarrow> order_item_row \<Rightarrow> pg_error option" where
  "order_items_constraints d r =
     (if oi_unit_price r \<le> 0 then Some (CheckViolation ''order_items_price_positive'')
      else if oi_quantity r \<le> 0 then Some (CheckViolation ''order_items_quantity_positive'')
      else if oi_id r \<in> oi_id ` set (order_items d) then Some (UniqueViolation ''PK_order_items'')
      else if oi_order_id r \<notin> o_id ` set (orders d) then Some (ForeignKeyViolation ''order_items_order_fk'')
      else if oi_product_id r \<notin> p_id ` set (products d) then Some (ForeignKeyViolation ''order_items_product_fk'')
      else None)"

definition tasks_constraints :: "db \<Rightarrow> task_row \<Rightarrow> pg_error option" where
  "tasks_constraints d r =
     (if t_processed r < 0 then Some (CheckViolation ''post_processing_tasks_processed_non_negative'')
      else if t_id r \<in> t_id ` set (tasks d) then Some (UniqueViolation ''PK_post_processing_tasks'')
      else if t_order_id r \<notin> o_id ` set (orders d) then Some (ForeignKeyViolation ''post_processing_tasks_order_fk'')
      else None)"

definition outbox_constraints :: "db \<Rightarrow> outbox_row \<Rightarrow> pg_error option" where
  "outbox_constraints d r =
     (if ob_id r \<in> ob_id ` set (outbox d) then Some (UniqueViolation ''outbox_messages_pkey'')
      else if ob_event_id r \<in> ob_event_id ` set (outbox d)
        then Some (UniqueViolation ''outbox_messages_event_id_key'')
      else None)"

definition refresh_constraints :: "db \<Rightarrow> refresh_row \<Rightarrow> pg_error option" where
  "refresh_constraints d r =
     (if rt_id r \<in> rt_id ` set (refresh_tokens d) then Some (UniqueViolation ''refresh_tokens_pkey'')
      else if rt_token_hash r \<in> rt_token_hash ` set (refresh_tokens d)
        then Some (UniqueViolation ''refresh_tokens_token_hash_key'')
      else if rt_user_id r \<notin> u_id ` set (users d)
        then Some (ForeignKeyViolation ''refresh_tokens_user_id_fkey'')
      else None)"

definition files_constraints :: "db \<Rightarrow> file_row \<Rightarrow> pg_error option" where
  "files_constraints d r =
     (if (\<exists>n. f_actual_size r = Some n \<and> n < 0) then Some (CheckViolation ''files_actual_size_check'')
      else if (\<exists>n. f_expected_size r = Some n \<and> n < 0) then Some (CheckViolation ''files_expected_size_check'')
      else if f_id r \<in> f_id ` set (files d) then Some (UniqueViolation ''files_pkey'')
      else if f_object_key r \<in> f_object_key ` set (files d) then Some (UniqueViolation ''files_object_key_key'')
      else if f_owner_id r \<notin> u_id ` set (users d) then Some (ForeignKeyViolation ''files_owner_fk'')
      else None)"

definition check_row :: "(db \<Rightarrow> 'r \<Rightarrow> pg_error option) \<Rightarrow> 'r \<Rightarrow> (db, unit) cmd" where
  "check_row cs r = (\<lambda>d. case cs d r of None \<Rightarrow> (Inr (), d) | Some e \<Rightarrow> (Inl (Pg e), d))"

lemma check_row_run [cmd_simps]:
  "check_row cs r d = (case cs d r of None \<Rightarrow> (Inr (), d) | Some e \<Rightarrow> (Inl (Pg e), d))"
  by (simp add: check_row_def)

text \<open>\<open>INSERT\<close> of one row with \<open>RETURNING *\<close>.\<close>

definition insert_row ::
  "(db \<Rightarrow> 'r \<Rightarrow> pg_error option) \<Rightarrow> (('r list \<Rightarrow> 'r list) \<Rightarrow> db \<Rightarrow> db) \<Rightarrow> 'r \<Rightarrow> (db, 'r) cmd" where
  "insert_row cs upd r =
     cmd_bind (check_row cs r) (\<lambda>_.
     cmd_bind (cmd_write (upd (\<lambda>rs. rs @ [r]))) (\<lambda>_. cmd_return r))"

lemma insert_row_run [cmd_simps]:
  "insert_row cs upd r d = (case cs d r of
     None \<Rightarrow> (Inr r, upd (\<lambda>rs. rs @ [r]) d) | Some e \<Rightarrow> (Inl (Pg e), d))"
  by (simp add: insert_row_def cmd_bind_run cmd_simps split: option.split)

section \<open>Inserts\<close>

definition nextval ::
  "(seqs \<Rightarrow> int) \<Rightarrow> ((int \<Rightarrow> int) \<Rightarrow> seqs \<Rightarrow> seqs) \<Rightarrow> (db, int) cmd" where
  "nextval get upd =
     (\<lambda>d. let i = get (seqs d) + 1 in (Inr i, d\<lparr>seqs := upd (\<lambda>_. i) (seqs d)\<rparr>))"

lemma nextval_run [cmd_simps]:
  "nextval get upd d = (Inr (get (seqs d) + 1),
     d\<lparr>seqs := upd (\<lambda>_. get (seqs d) + 1) (seqs d)\<rparr>)"
  by (simp add: nextval_def Let_def)

text \<open>
  Each insert reads its parameters, draws the identifier from the sequence, tests the
  constraints and appends the row. The identifier stays drawn when a constraint fails.
\<close>

definition insert_user :: "string \<Rightarrow> string \<Rightarrow> int \<Rightarrow> (db, user_row) cmd" where
  "insert_user email full_name balance =
     cmd_bind (int4_param balance) (\<lambda>_.
     cmd_bind (nextval sq_users sq_users_update) (\<lambda>i.
     let r = \<lparr>u_id = i, u_email = email, u_full_name = full_name, u_balance = balance,
              u_password_hash = None, u_role = Buyer\<rparr>
     in insert_row users_constraints users_update r))"

definition insert_product ::
  "int \<Rightarrow> string \<Rightarrow> string option \<Rightarrow> int \<Rightarrow> int \<Rightarrow> bool \<Rightarrow> (db, product_row) cmd" where
  "insert_product owner name descr price stock active =
     cmd_bind (int8_param owner) (\<lambda>_.
     cmd_bind (int4_param price) (\<lambda>_.
     cmd_bind (int4_param stock) (\<lambda>_.
     cmd_bind (nextval sq_products sq_products_update) (\<lambda>i.
     case descr of
       None \<Rightarrow> cmd_throw (Pg (NotNullViolation ''description''))
     | Some ds \<Rightarrow>
         let r = \<lparr>p_id = i, p_owner_id = owner, p_name = name, p_description = ds,
                  p_price = price, p_stock_quantity = stock, p_is_active = active\<rparr>
         in insert_row products_constraints products_update r))))"

definition insert_order :: "int \<Rightarrow> int \<Rightarrow> (db, order_row) cmd" where
  "insert_order user_id amount =
     cmd_bind (int8_param user_id) (\<lambda>_.
     cmd_bind (int4_param amount) (\<lambda>_.
     cmd_bind (nextval sq_orders sq_orders_update) (\<lambda>i.
     let r = \<lparr>o_id = i, o_user_id = user_id, o_status = Created, o_total_amount = amount\<rparr>
     in insert_row orders_constraints orders_update r)))"

definition insert_order_item :: "int \<Rightarrow> int \<Rightarrow> int \<Rightarrow> int \<Rightarrow> (db, order_item_row) cmd" where
  "insert_order_item order_id product_id quantity unit_price =
     cmd_bind (int8_param product_id) (\<lambda>_.
     cmd_bind (int4_param quantity) (\<lambda>_.
     cmd_bind (int4_param unit_price) (\<lambda>_.
     cmd_bind (nextval sq_items sq_items_update) (\<lambda>i.
     let r = \<lparr>oi_id = i, oi_order_id = order_id, oi_product_id = product_id,
              oi_quantity = quantity, oi_unit_price = unit_price\<rparr>
     in insert_row order_items_constraints order_items_update r))))"

definition insert_task :: "int \<Rightarrow> (db, task_row) cmd" where
  "insert_task order_id =
     cmd_bind (nextval sq_tasks sq_tasks_update) (\<lambda>i.
     let r = \<lparr>t_id = i, t_order_id = order_id, t_type = ''order_confirmation'',
              t_status = TaskPending, t_processed = 0, t_worker_id = None\<rparr>
     in insert_row tasks_constraints tasks_update r)"

text \<open>\<open>varchar(n)\<close> refuses a longer string.\<close>

definition varchar :: "nat \<Rightarrow> string \<Rightarrow> (db, unit) cmd" where
  "varchar n s = cmd_assert (length s \<le> n) (Pg StringDataRightTruncation)"

definition insert_outbox ::
  "string \<Rightarrow> string \<Rightarrow> string \<Rightarrow> string \<Rightarrow> jsval \<Rightarrow> int \<Rightarrow> (db, outbox_row) cmd" where
  "insert_outbox event_id aggregate_type aggregate_id event_type payload now =
     cmd_bind (nextval sq_outbox sq_outbox_update) (\<lambda>i.
     cmd_bind (varchar 150 event_id) (\<lambda>_.
     cmd_bind (varchar 100 aggregate_type) (\<lambda>_.
     cmd_bind (varchar 100 aggregate_id) (\<lambda>_.
     cmd_bind (varchar 150 event_type) (\<lambda>_.
     let r = \<lparr>ob_id = i, ob_event_id = event_id, ob_aggregate_type = aggregate_type,
              ob_aggregate_id = aggregate_id, ob_type = event_type, ob_payload = payload,
              ob_created_at = now, ob_published_at = None, ob_attempts = 0\<rparr>
     in insert_row outbox_constraints outbox_update r)))))"

end
