(* ===== verification/DbInvariant.thy ===== *)
theory DbInvariant
  imports Database
begin

text \<open>
  The integrity invariant of the schema: \<open>wf_db\<close> says of every table what its checks,
  unique indexes and foreign keys enforce, and every statement of the model keeps it. The
  \<open>_Inr\<close> lemmas say when an insert succeeds and what it leaves behind.
\<close>

section \<open>The invariant\<close>

definition user_ok :: "user_row \<Rightarrow> bool" where
  "user_ok r \<longleftrightarrow> user_checks r = None \<and> int4 (u_balance r)"

definition users_ok :: "user_row list \<Rightarrow> bool" where
  "users_ok us \<longleftrightarrow> distinct (map u_id us) \<and> distinct (map u_email us) \<and> (\<forall>r \<in> set us. user_ok r)"

definition product_ok :: "product_row \<Rightarrow> bool" where
  "product_ok r \<longleftrightarrow> product_checks r = None \<and> int4 (p_price r) \<and> int4 (p_stock_quantity r)"

definition products_ok :: "int set \<Rightarrow> product_row list \<Rightarrow> bool" where
  "products_ok uids ps \<longleftrightarrow> distinct (map p_id ps) \<and> (\<forall>r \<in> set ps. product_ok r \<and> p_owner_id r \<in> uids)"

definition orders_ok :: "int set \<Rightarrow> order_row list \<Rightarrow> bool" where
  "orders_ok uids os \<longleftrightarrow> distinct (map o_id os) \<and>
     (\<forall>r \<in> set os. 0 \<le> o_total_amount r \<and> int4 (o_total_amount r) \<and> o_user_id r \<in> uids)"

definition items_ok :: "int set \<Rightarrow> int set \<Rightarrow> order_item_row list \<Rightarrow> bool" where
  "items_ok oids pids is \<longleftrightarrow> distinct (map oi_id is) \<and>
     (\<forall>r \<in> set is. 0 < oi_quantity r \<and> 0 < oi_unit_price r \<and>
        oi_order_id r \<in> oids \<and> oi_product_id r \<in> pids)"

definition tasks_ok :: "int set \<Rightarrow> task_row list \<Rightarrow> bool" where
  "tasks_ok oids ts \<longleftrightarrow> distinct (map t_id ts) \<and>
     (\<forall>r \<in> set ts. 0 \<le> t_processed r \<and> t_order_id r \<in> oids)"

definition outbox_ok :: "outbox_row list \<Rightarrow> bool" where
  "outbox_ok bs \<longleftrightarrow> distinct (map ob_id bs) \<and> distinct (map ob_event_id bs)"

definition processed_ok :: "inbox_row list \<Rightarrow> bool" where
  "processed_ok ms \<longleftrightarrow> distinct ms"

definition effects_ok :: "effect_row list \<Rightarrow> bool" where
  "effects_ok es \<longleftrightarrow> distinct (map ef_message_id es)"

definition idem_ok :: "int set \<Rightarrow> idem_row list \<Rightarrow> bool" where
  "idem_ok oids ks \<longleftrightarrow> distinct (map ik_key ks) \<and>
     (\<forall>r \<in> set ks. \<forall>i. ik_order_id r = Some i \<longrightarrow> i \<in> oids)"

definition refresh_ok :: "int set \<Rightarrow> refresh_row list \<Rightarrow> bool" where
  "refresh_ok uids rs \<longleftrightarrow> distinct (map rt_id rs) \<and> distinct (map rt_token_hash rs) \<and>
     (\<forall>r \<in> set rs. rt_user_id r \<in> uids)"

definition denylist_ok :: "denied_row list \<Rightarrow> bool" where
  "denylist_ok ds \<longleftrightarrow> distinct (map dn_jti ds)"

definition files_ok :: "int set \<Rightarrow> file_row list \<Rightarrow> bool" where
  "files_ok uids fs \<longleftrightarrow> distinct (map f_id fs) \<and> distinct (map f_object_key fs) \<and>
     (\<forall>r \<in> set fs. f_owner_id r \<in> uids \<and>
        (\<forall>n. f_expected_size r = Some n \<longrightarrow> 0 \<le> n) \<and> (\<forall>n. f_actual_size r = Some n \<longrightarrow> 0 \<le> n))"

definition user_ids :: "db \<Rightarrow> int set" where "user_ids d = u_id ` set (users d)"
definition product_ids :: "db \<Rightarrow> int set" where "product_ids d = p_id ` set (products d)"
definition order_ids :: "db \<Rightarrow> int set" where "order_ids d = o_id ` set (orders d)"

definition wf_db :: "db \<Rightarrow> bool" where
  "wf_db d \<longleftrightarrow> users_ok (users d) \<and> products_ok (user_ids d) (products d)
     \<and> orders_ok (user_ids d) (orders d) \<and> items_ok (order_ids d) (product_ids d) (order_items d)
     \<and> tasks_ok (order_ids d) (tasks d) \<and> outbox_ok (outbox d) \<and> processed_ok (processed d)
     \<and> effects_ok (effects d) \<and> idem_ok (order_ids d) (idem_keys d)
     \<and> refresh_ok (user_ids d) (refresh_tokens d) \<and> denylist_ok (denylist d)
     \<and> files_ok (user_ids d) (files d)"

lemmas ids_defs = user_ids_def product_ids_def order_ids_def

lemma wf_db_empty: "wf_db empty_db"
  by (simp add: wf_db_def empty_db_def users_ok_def products_ok_def orders_ok_def items_ok_def
      tasks_ok_def outbox_ok_def processed_ok_def effects_ok_def idem_ok_def refresh_ok_def
      denylist_ok_def files_ok_def)

lemma wf_db_seqs [simp]: "wf_db (d\<lparr>seqs := q\<rparr>) = wf_db d"
  by (simp add: wf_db_def ids_defs)

lemma wf_db_rollback: "wf_db d \<Longrightarrow> wf_db (rollback d d')"
  by (simp add: rollback_def)

text \<open>The invariants that mention identifiers of another table only need them to be there.\<close>

lemma ok_mono:
  "products_ok A ps \<Longrightarrow> A \<subseteq> A' \<Longrightarrow> products_ok A' ps"
  "orders_ok A os \<Longrightarrow> A \<subseteq> A' \<Longrightarrow> orders_ok A' os"
  "items_ok A B is \<Longrightarrow> A \<subseteq> A' \<Longrightarrow> B \<subseteq> B' \<Longrightarrow> items_ok A' B' is"
  "tasks_ok A ts \<Longrightarrow> A \<subseteq> A' \<Longrightarrow> tasks_ok A' ts"
  "idem_ok A ks \<Longrightarrow> A \<subseteq> A' \<Longrightarrow> idem_ok A' ks"
  "refresh_ok A rs \<Longrightarrow> A \<subseteq> A' \<Longrightarrow> refresh_ok A' rs"
  "files_ok A fs \<Longrightarrow> A \<subseteq> A' \<Longrightarrow> files_ok A' fs"
  by (auto simp: products_ok_def orders_ok_def items_ok_def tasks_ok_def idem_ok_def
      refresh_ok_def files_ok_def)

section \<open>Preservation rules for statements\<close>

lemma cmd_keeps_nextval [keeps_intro]:
  "(\<And>d q. P d \<Longrightarrow> P (d\<lparr>seqs := q\<rparr>)) \<Longrightarrow> cmd_keeps P (nextval get upd)"
  by (simp add: cmd_keeps_def cmd_simps)

lemma cmd_keeps_param:
  "(fits i \<Longrightarrow> cmd_keeps P (f i)) \<Longrightarrow> cmd_keeps P (cmd_bind (cmd_lift (param_int fits (IntN i))) f)"
  by (auto simp: cmd_keeps_def cmd_bind_def cmd_simps param_int_IntN)

lemma cmd_keeps_varchar [keeps_intro]: "cmd_keeps P (varchar n s)"
  by (simp add: varchar_def cmd_keeps_assert)

lemma cmd_keeps_check [keeps_intro]: "cmd_keeps P (check_row cs r)"
  by (simp add: cmd_keeps_def cmd_simps split: option.split)

lemma cmd_keeps_insert_row:
  "(\<And>d. P d \<Longrightarrow> cs d r = None \<Longrightarrow> P (upd (\<lambda>rs. rs @ [r]) d)) \<Longrightarrow> cmd_keeps P (insert_row cs upd r)"
  by (simp add: cmd_keeps_def cmd_simps split: option.split)

lemma cmd_keeps_write:
  "(\<And>d. P d \<Longrightarrow> P (g d)) \<Longrightarrow> cmd_keeps P (cmd_write g)"
  by (simp add: cmd_keeps_def cmd_simps)

lemma wf_append_user:
  "wf_db d \<Longrightarrow> users_constraints d r = None \<Longrightarrow> int4 (u_balance r) \<Longrightarrow>
     wf_db (users_update (\<lambda>rs. rs @ [r]) d)"
  unfolding wf_db_def ids_defs
  by (auto simp: users_ok_def user_ok_def users_constraints_def split: option.splits if_splits
      elim!: ok_mono)

lemma wf_append_product:
  "wf_db d \<Longrightarrow> products_constraints d r = None \<Longrightarrow> int4 (p_price r) \<Longrightarrow> int4 (p_stock_quantity r) \<Longrightarrow>
     wf_db (products_update (\<lambda>rs. rs @ [r]) d)"
  unfolding wf_db_def ids_defs
  by (auto simp: products_ok_def product_ok_def products_constraints_def
      split: option.splits if_splits elim!: ok_mono)

lemma wf_append_order:
  "wf_db d \<Longrightarrow> orders_constraints d r = None \<Longrightarrow> int4 (o_total_amount r) \<Longrightarrow>
     wf_db (orders_update (\<lambda>rs. rs @ [r]) d)"
  unfolding wf_db_def ids_defs
  by (auto simp: orders_ok_def orders_constraints_def split: if_splits elim!: ok_mono)

lemma wf_append_item:
  "wf_db d \<Longrightarrow> order_items_constraints d r = None \<Longrightarrow> wf_db (order_items_update (\<lambda>rs. rs @ [r]) d)"
  unfolding wf_db_def ids_defs
  by (auto simp: items_ok_def order_items_constraints_def split: if_splits)

lemma wf_append_task:
  "wf_db d \<Longrightarrow> tasks_constraints d r = None \<Longrightarrow> wf_db (tasks_update (\<lambda>rs. rs @ [r]) d)"
  unfolding wf_db_def ids_defs
  by (auto simp: tasks_ok_def tasks_constraints_def split: if_splits)

lemma wf_append_outbox:
  "wf_db d \<Longrightarrow> outbox_constraints d r = None \<Longrightarrow> wf_db (outbox_update (\<lambda>rs. rs @ [r]) d)"
  unfolding wf_db_def ids_defs
  by (auto simp: outbox_ok_def outbox_constraints_def split: if_splits)

text \<open>An update that leaves keys and foreign keys alone and keeps the row checks.\<close>

lemma wf_update_users:
  assumes "wf_db d" and "\<And>r. u_id (f r) = u_id r" and "\<And>r. u_email (f r) = u_email r"
    and "\<And>r. user_ok r \<Longrightarrow> h r \<Longrightarrow> user_ok (f r)"
  shows "wf_db (users_update (update_where h f) d)"
  using assms(1) ball_update_where [of "users d" user_ok h f] assms(4)
  by (simp add: wf_db_def ids_defs users_ok_def map_update_where image_update_where assms(2,3))

lemma wf_update_products:
  assumes "wf_db d" and "\<And>r. p_id (f r) = p_id r" and "\<And>r. p_owner_id (f r) = p_owner_id r"
    and "\<And>r. product_ok r \<Longrightarrow> h r \<Longrightarrow> product_ok (f r)"
  shows "wf_db (products_update (update_where h f) d)"
  using assms(1) ball_update_where [of "products d" "\<lambda>r. product_ok r \<and> p_owner_id r \<in> u_id ` set (users d)" h f]
    assms(4)
  by (simp add: wf_db_def ids_defs products_ok_def map_update_where image_update_where assms(2,3))

lemma wf_update_orders:
  assumes "wf_db d" and "\<And>r. o_id (f r) = o_id r" and "\<And>r. o_user_id (f r) = o_user_id r"
    and "\<And>r. o_total_amount (f r) = o_total_amount r"
  shows "wf_db (orders_update (update_where h f) d)"
proof -
  have "\<forall>r \<in> set (update_where h f (orders d)).
      0 \<le> o_total_amount r \<and> int4 (o_total_amount r) \<and> o_user_id r \<in> user_ids d"
    by (rule ball_update_where) (use assms in \<open>simp_all add: wf_db_def orders_ok_def\<close>)
  with assms(1) show ?thesis
    by (simp add: wf_db_def ids_defs orders_ok_def map_update_where image_update_where assms(2))
qed

lemma wf_update_tasks:
  assumes "wf_db d" and "\<And>r. t_id (f r) = t_id r" and "\<And>r. t_order_id (f r) = t_order_id r"
    and "\<And>r. 0 \<le> t_processed r \<Longrightarrow> 0 \<le> t_processed (f r)"
  shows "wf_db (tasks_update (update_where h f) d)"
proof -
  have "\<forall>r \<in> set (update_where h f (tasks d)). 0 \<le> t_processed r \<and> t_order_id r \<in> order_ids d"
    by (rule ball_update_where) (use assms in \<open>simp_all add: wf_db_def tasks_ok_def\<close>)
  with assms(1) show ?thesis
    by (simp add: wf_db_def ids_defs tasks_ok_def map_update_where assms(2))
qed

lemma wf_update_outbox:
  assumes "wf_db d" and "\<And>r. ob_id (f r) = ob_id r" and "\<And>r. ob_event_id (f r) = ob_event_id r"
  shows "wf_db (outbox_update (update_where h f) d)"
  using assms(1)
  by (simp add: wf_db_def ids_defs outbox_ok_def map_update_where assms(2,3))

lemma wf_update_idem:
  assumes "wf_db d" and "\<And>r. ik_key (f r) = ik_key r"
    and "\<And>r i. ik_order_id (f r) = Some i \<Longrightarrow> i \<in> order_ids d"
  shows "wf_db (idem_keys_update (update_where h f) d)"
proof -
  have "\<forall>r \<in> set (update_where h f (idem_keys d)). \<forall>i. ik_order_id r = Some i \<longrightarrow> i \<in> order_ids d"
    by (rule ball_update_where) (use assms in \<open>auto simp: wf_db_def idem_ok_def\<close>)
  with assms(1) show ?thesis
    by (simp add: wf_db_def ids_defs idem_ok_def map_update_where assms(2))
qed

lemma wf_update_refresh:
  assumes "wf_db d" and "\<And>r. rt_id (f r) = rt_id r" and "\<And>r. rt_token_hash (f r) = rt_token_hash r"
    and "\<And>r. rt_user_id (f r) = rt_user_id r"
  shows "wf_db (refresh_tokens_update (update_where h f) d)"
proof -
  have "\<forall>r \<in> set (update_where h f (refresh_tokens d)). rt_user_id r \<in> user_ids d"
    by (rule ball_update_where) (use assms in \<open>simp_all add: wf_db_def refresh_ok_def\<close>)
  with assms(1) show ?thesis
    by (simp add: wf_db_def ids_defs refresh_ok_def map_update_where assms(2,3))
qed

section \<open>The inserts keep the invariant\<close>

lemmas insert_rules = cmd_keeps_param cmd_keeps_insert_row keeps_intro

lemma insert_user_wf [keeps_intro]: "cmd_keeps wf_db (insert_user e n b)"
  unfolding insert_user_def Let_def by (intro insert_rules) (simp_all add: wf_append_user)

lemma insert_product_wf [keeps_intro]: "cmd_keeps wf_db (insert_product ow n ds p s act)"
  unfolding insert_product_def Let_def by (intro insert_rules) (simp_all add: wf_append_product)

lemma insert_order_wf [keeps_intro]: "cmd_keeps wf_db (insert_order u a)"
  unfolding insert_order_def Let_def by (intro insert_rules) (simp_all add: wf_append_order)

lemma insert_order_item_wf [keeps_intro]: "cmd_keeps wf_db (insert_order_item oid p q u)"
  unfolding insert_order_item_def Let_def by (intro insert_rules) (simp_all add: wf_append_item)

lemma insert_task_wf [keeps_intro]: "cmd_keeps wf_db (insert_task oid)"
  unfolding insert_task_def Let_def by (intro insert_rules) (simp_all add: wf_append_task)

lemma insert_outbox_wf [keeps_intro]: "cmd_keeps wf_db (insert_outbox e at ai ty pl now)"
  unfolding insert_outbox_def Let_def by (intro insert_rules) (simp_all add: wf_append_outbox)

section \<open>What the inserts throw\<close>

definition is_pg :: "err \<Rightarrow> bool" where
  "is_pg e \<longleftrightarrow> (\<exists>p. e = Pg p)"

lemma is_pg_simps [simp]: "is_pg (Pg p)" "\<not> is_pg InsufficientStock" "\<not> is_pg InsufficientBalance"
  "\<not> is_pg (BadRequest m)" "\<not> is_pg (NotFound m)" "\<not> is_pg (Forbidden m)" "\<not> is_pg (Unauthorized m)"
  "\<not> is_pg (Conflict m)" "\<not> is_pg (JsError m)" "\<not> is_pg TypeError"
  by (simp_all add: is_pg_def)

lemma cmd_throws_param [throws_intro]: "(\<And>p. P (Pg p)) \<Longrightarrow> cmd_throws P (cmd_lift (param_int fits n))"
  by (auto simp: cmd_throws_def cmd_simps param_int_def split: jsnum.splits if_splits)

lemma cmd_throws_nextval [throws_intro]: "cmd_throws P (nextval g u)"
  by (simp add: cmd_throws_def cmd_simps)

lemma cmd_throws_insert_row [throws_intro]: "(\<And>p. P (Pg p)) \<Longrightarrow> cmd_throws P (insert_row cs upd r)"
  by (auto simp: cmd_throws_def cmd_simps split: option.splits)

lemma inserts_throw [throws_intro]:
  "cmd_throws is_pg (insert_user e n b)" "cmd_throws is_pg (insert_product ow n ds p s act)"
  "cmd_throws is_pg (insert_order u a)" "cmd_throws is_pg (insert_order_item oid p q u)"
  "cmd_throws is_pg (insert_task oid)" "cmd_throws is_pg (insert_outbox ev at ai ty pl now)"
  unfolding insert_user_def insert_product_def insert_order_def insert_order_item_def insert_task_def
    insert_outbox_def varchar_def Let_def
  by (intro throws_intro; simp)+

section \<open>When an insert succeeds\<close>

lemma insert_order_Inr:
  "insert_order u a d = (Inr r, d') \<longleftrightarrow>
     int8 u \<and> int4 a \<and> r = \<lparr>o_id = sq_orders (seqs d) + 1, o_user_id = u, o_status = Created,
       o_total_amount = a\<rparr> \<and> orders_constraints d r = None \<and>
     d' = d\<lparr>orders := orders d @ [r], seqs := (seqs d)\<lparr>sq_orders := sq_orders (seqs d) + 1\<rparr>\<rparr>"
  by (auto simp: insert_order_def Let_def cmd_bind_Inr_iff cmd_simps orders_constraints_def
      split: option.splits if_splits)

lemma insert_order_item_Inr:
  "insert_order_item oid p q u d = (Inr r, d') \<longleftrightarrow>
     int8 p \<and> int4 q \<and> int4 u \<and>
     r = \<lparr>oi_id = sq_items (seqs d) + 1, oi_order_id = oid, oi_product_id = p,
        oi_quantity = q, oi_unit_price = u\<rparr> \<and>
     order_items_constraints d r = None \<and>
         d' = d\<lparr>order_items := order_items d @ [r],
                seqs := (seqs d)\<lparr>sq_items := sq_items (seqs d) + 1\<rparr>\<rparr>"
  by (auto simp: insert_order_item_def Let_def cmd_bind_Inr_iff cmd_simps order_items_constraints_def
      split: option.splits if_splits)

lemma insert_task_Inr:
  "insert_task oid d = (Inr r, d') \<longleftrightarrow>
     r = \<lparr>t_id = sq_tasks (seqs d) + 1, t_order_id = oid, t_type = ''order_confirmation'',
        t_status = TaskPending, t_processed = 0, t_worker_id = None\<rparr> \<and>
     tasks_constraints d r = None \<and>
         d' = d\<lparr>tasks := tasks d @ [r], seqs := (seqs d)\<lparr>sq_tasks := sq_tasks (seqs d) + 1\<rparr>\<rparr>"
  by (auto simp: insert_task_def Let_def cmd_bind_Inr_iff cmd_simps tasks_constraints_def
      split: option.splits if_splits)

lemma insert_outbox_Inr:
  "insert_outbox e at ai ty pl now d = (Inr r, d') \<longleftrightarrow>
     length e \<le> 150 \<and> length at \<le> 100 \<and> length ai \<le> 100 \<and> length ty \<le> 150 \<and>
     r = \<lparr>ob_id = sq_outbox (seqs d) + 1, ob_event_id = e, ob_aggregate_type = at,
        ob_aggregate_id = ai, ob_type = ty, ob_payload = pl, ob_created_at = now,
        ob_published_at = None, ob_attempts = 0\<rparr> \<and>
     outbox_constraints d r = None \<and>
         d' = d\<lparr>outbox := outbox d @ [r], seqs := (seqs d)\<lparr>sq_outbox := sq_outbox (seqs d) + 1\<rparr>\<rparr>"
  by (auto simp: insert_outbox_def varchar_def Let_def cmd_bind_Inr_iff cmd_simps
      outbox_constraints_def split: option.splits if_splits)

section \<open>What the invariant says of a row\<close>

lemma wf_product:
  "wf_db d \<Longrightarrow> p \<in> set (products d) \<Longrightarrow> 0 < p_price p \<and> 0 \<le> p_stock_quantity p \<and>
     int4 (p_price p) \<and> p_owner_id p \<in> user_ids d"
  unfolding wf_db_def products_ok_def product_ok_def product_checks_def
  by (drule conjunct2, drule conjunct1, drule conjunct2, drule (1) bspec) (auto split: if_splits)

lemma wf_user:
  "wf_db d \<Longrightarrow> u \<in> set (users d) \<Longrightarrow> 0 \<le> u_balance u \<and> int4 (u_balance u)"
  unfolding wf_db_def users_ok_def user_ok_def user_checks_def
  by (drule conjunct1, drule conjunct2, drule conjunct2, drule (1) bspec) (auto split: if_splits)

lemma wf_keys:
  assumes "wf_db d"
  shows "distinct (map u_id (users d))" "distinct (map u_email (users d))"
    "distinct (map p_id (products d))" "distinct (map o_id (orders d))"
    "distinct (map oi_id (order_items d))" "distinct (map ob_id (outbox d))"
    "distinct (map ob_event_id (outbox d))" "distinct (processed d)"
    "distinct (map ef_message_id (effects d))" "distinct (map ik_key (idem_keys d))"
    "distinct (map rt_id (refresh_tokens d))" "distinct (map rt_token_hash (refresh_tokens d))"
    "distinct (map t_id (tasks d))" "distinct (map dn_jti (denylist d))" "distinct (map f_id (files d))"
  using assms by (simp_all add: wf_db_def users_ok_def products_ok_def orders_ok_def items_ok_def
      outbox_ok_def processed_ok_def effects_ok_def idem_ok_def refresh_ok_def tasks_ok_def
      denylist_ok_def files_ok_def)

section \<open>A small database\<close>

text \<open>
  Two users, two products and the counters that go with them: the database at which the
  witnesses of the development evaluate the operations.
\<close>

definition sample_db :: db where
  "sample_db = empty_db\<lparr>
     users := [
       \<lparr>u_id = 1, u_email = ''anna@example.com'', u_full_name = ''Anna'', u_balance = 1000,
        u_password_hash = None, u_role = Buyer\<rparr>,
       \<lparr>u_id = 2, u_email = ''oleh@example.com'', u_full_name = ''Oleh'', u_balance = 50,
        u_password_hash = None, u_role = Seller\<rparr>],
     products := [
       \<lparr>p_id = 1, p_owner_id = 2, p_name = ''Bag'', p_description = ''City bag'', p_price = 100,
        p_stock_quantity = 3, p_is_active = True\<rparr>,
       \<lparr>p_id = 2, p_owner_id = 2, p_name = ''Hub'', p_description = ''USB hub'', p_price = 30,
        p_stock_quantity = 1, p_is_active = False\<rparr>],
     seqs := (seqs empty_db)\<lparr>sq_users := 2, sq_products := 2\<rparr>\<rparr>"

lemma wf_sample_db: "wf_db sample_db"
  by (simp add: wf_db_def sample_db_def empty_db_def users_ok_def user_ok_def user_checks_def
      products_ok_def product_ok_def product_checks_def orders_ok_def items_ok_def tasks_ok_def
      outbox_ok_def processed_ok_def effects_ok_def idem_ok_def refresh_ok_def denylist_ok_def
      files_ok_def ids_defs int4_def pg_trim_def)

lemma sample_db_tables [simp]:
  "orders sample_db = []" "order_items sample_db = []" "tasks sample_db = []" "outbox sample_db = []"
  "processed sample_db = []" "effects sample_db = []" "idem_keys sample_db = []"
  "refresh_tokens sample_db = []" "denylist sample_db = []" "files sample_db = []"
  by (simp_all add: sample_db_def empty_db_def)

end
