(* ===== verification/Support.thy ===== *)
theory Support
  imports Js "HOL-Library.Word"
begin

text \<open>
  What the authentication and the file components share: hexadecimal text of byte buffers,
  UUIDs as PostgreSQL reads them, runs of guarded operations with their invariants, and a
  self-delimiting encoding of lists of strings used by examples.
\<close>

section \<open>Bytes and hexadecimal text\<close>

type_synonym byte = "8 word"

definition hex_char :: "nat \<Rightarrow> char" where
  "hex_char d = (if d < 10 then char_of (48 + d) else char_of (87 + d))"

fun to_hex :: "byte list \<Rightarrow> string" where
  "to_hex [] = []"
| "to_hex (b # bs) = hex_char (unat b div 16) # hex_char (unat b mod 16) # to_hex bs"

text \<open>\<open>Buffer.from(s, 'hex')\<close> stops at the first pair that is not hexadecimal.\<close>

fun from_hex :: "string \<Rightarrow> byte list" where
  "from_hex (a # b # s) =
     (case (radix_digit a, radix_digit b) of
        (Some x, Some y) \<Rightarrow> word_of_nat (16 * x + y) # from_hex s
      | _ \<Rightarrow> [])"
| "from_hex _ = []"

lemma radix_hex_char: "d < 16 \<Longrightarrow> radix_digit (hex_char d) = Some d"
  by (auto simp: radix_digit_def hex_char_def Let_def)

lemma hex_char_plain: "d < 16 \<Longrightarrow> hex_char d \<noteq> CHR ''$'' \<and> hex_char d \<noteq> CHR ''-''"
proof -
  assume "d < 16"
  moreover have "\<forall>d \<in> set [0..<16]. hex_char d \<noteq> CHR ''$'' \<and> hex_char d \<noteq> CHR ''-''" by code_simp
  ultimately show ?thesis by simp
qed

lemma byte_digits: "unat (b::byte) div 16 < 16" "unat b mod 16 < 16" "16 * (unat b div 16) + unat b mod 16 = unat b"
proof -
  have "unat b < 2 ^ LENGTH(8)" by (rule unsigned_less)
  then show "unat b div 16 < 16" by simp
qed simp_all

lemma from_to_hex [simp]: "from_hex (to_hex bs) = bs"
proof (induction bs)
  case (Cons b bs)
  then show ?case by (simp add: radix_hex_char byte_digits)
qed simp

lemma to_hex_chars: "c \<in> set (to_hex bs) \<Longrightarrow> \<exists>d < 16. c = hex_char d"
proof (induction bs)
  case (Cons b bs)
  then consider "c = hex_char (unat b div 16)" | "c = hex_char (unat b mod 16)" | "c \<in> set (to_hex bs)" by auto
  then show ?case using byte_digits(1,2) [of b] Cons.IH by cases blast+
qed simp

lemma to_hex_empty [simp]: "to_hex bs = [] \<longleftrightarrow> bs = []"
  by (cases bs) auto

section \<open>UUIDs\<close>

text \<open>
  A \<open>uuid\<close> parameter of PostgreSQL: 32 hexadecimal digits, a hyphen allowed after every
  group of four, braces allowed around it. The value reads back in the standard form.
\<close>

definition lower_hex :: "char \<Rightarrow> char" where
  "lower_hex c = (case radix_digit c of None \<Rightarrow> c | Some d \<Rightarrow> hex_char d)"

fun read_uuid :: "nat \<Rightarrow> string \<Rightarrow> string option" where
  "read_uuid 0 s = (if s = [] then Some [] else None)"
| "read_uuid (Suc n) s =
     (case s of
        c # cs \<Rightarrow>
          if radix_digit c = None then None
          else (let rest = (if n mod 4 = 0 \<and> n \<noteq> 0 \<and> cs \<noteq> [] \<and> hd cs = CHR ''-'' then tl cs else cs)
                in map_option ((#) (lower_hex c)) (read_uuid n rest))
      | [] \<Rightarrow> None)"

definition unbrace :: "string \<Rightarrow> string" where
  "unbrace s = (if s \<noteq> [] \<and> hd s = CHR ''{'' \<and> last s = CHR ''}'' then butlast (tl s) else s)"

definition uuid_text :: "string \<Rightarrow> string" where
  "uuid_text h = take 8 h @ ''-'' @ take 4 (drop 8 h) @ ''-'' @ take 4 (drop 12 h) @ ''-'' @
     take 4 (drop 16 h) @ ''-'' @ drop 20 h"

definition pg_uuid :: "string \<Rightarrow> string option" where
  "pg_uuid s = map_option uuid_text (read_uuid 32 (unbrace s))"

definition uuid_param :: "jsval \<Rightarrow> err + string" where
  "uuid_param v = (case v of
       Str s \<Rightarrow> (case pg_uuid s of None \<Rightarrow> Inl (Pg InvalidTextRepresentation) | Some u \<Rightarrow> Inr u)
     | _ \<Rightarrow> Inl (Pg InvalidTextRepresentation))"

lemma uuid_param_Inr: "uuid_param v = Inr u \<longleftrightarrow> (\<exists>s. v = Str s \<and> pg_uuid s = Some u)"
  by (auto simp: uuid_param_def split: jsval.splits option.splits)

lemma uuid_param_Inl: "uuid_param v = Inl e \<Longrightarrow> e = Pg InvalidTextRepresentation"
  by (auto simp: uuid_param_def split: jsval.splits option.splits)

definition uuid_1 :: string where "uuid_1 = ''11111111-1111-4111-8111-111111111111''"
definition uuid_2 :: string where "uuid_2 = ''22222222-2222-4222-8222-222222222222''"

lemma pg_uuid_examples: "pg_uuid uuid_1 = Some uuid_1" "pg_uuid uuid_2 = Some uuid_2"
  by code_simp+

section \<open>Runs of guarded operations\<close>

text \<open>
  \<open>guarded step guard es s\<close>: every operation of the list meets its guard in the state it
  runs in; the guard states what the environment promises about its arguments.
\<close>

fun guarded :: "('e \<Rightarrow> 's \<Rightarrow> 's) \<Rightarrow> ('e \<Rightarrow> 's \<Rightarrow> bool) \<Rightarrow> 'e list \<Rightarrow> 's \<Rightarrow> bool" where
  "guarded step guard [] s \<longleftrightarrow> True"
| "guarded step guard (e # es) s \<longleftrightarrow> guard e s \<and> guarded step guard es (step e s)"

lemma guarded_append:
  "guarded step guard (es @ fs) s \<longleftrightarrow> guarded step guard es s \<and> guarded step guard fs (fold step es s)"
  by (induction es arbitrary: s) auto

lemma guarded_take: "guarded step guard es s \<Longrightarrow> guarded step guard (take n es) s"
  by (metis append_take_drop_id guarded_append)

lemma guarded_drop: "guarded step guard es s \<Longrightarrow> guarded step guard (drop n es) (fold step (take n es) s)"
  by (metis append_take_drop_id guarded_append)

lemma fold_take_split:
  assumes "i < j" and "j \<le> length es"
  shows "fold f (take j es) s = fold f (take (j - Suc i) (drop (Suc i) es)) (f (es ! i) (fold f (take i es) s))"
proof -
  have "take j es = take (Suc i) es @ take (j - Suc i) (drop (Suc i) es)"
    using assms by (metis Suc_leI le_add_diff_inverse take_add)
  then show ?thesis using assms by (simp add: take_Suc_conv_app_nth)
qed

locale guarded_steps =
  fixes step :: "'e \<Rightarrow> 's \<Rightarrow> 's"
    and guard :: "'e \<Rightarrow> 's \<Rightarrow> bool"
    and inv :: "'s \<Rightarrow> bool"
  assumes step_inv: "inv s \<Longrightarrow> guard e s \<Longrightarrow> inv (step e s)"
begin

lemma run_inv: "inv s \<Longrightarrow> guarded step guard es s \<Longrightarrow> inv (fold step es s)"
  by (induction es arbitrary: s) (auto intro: step_inv)

lemma run_take_inv: "inv s \<Longrightarrow> guarded step guard es s \<Longrightarrow> inv (fold step (take n es) s)"
  by (rule run_inv) (simp_all add: guarded_take)

text \<open>A property that a step establishes and every later step keeps.\<close>

lemma run_later:
  assumes "inv s" and "guarded step guard es s" and "i < j" and "j \<le> length es"
    and "Q (step (es ! i) (fold step (take i es) s))"
    and keep: "\<And>s e. inv s \<Longrightarrow> guard e s \<Longrightarrow> Q s \<Longrightarrow> Q (step e s)"
  shows "Q (fold step (take j es) s)"
proof -
  let ?s = "step (es ! i) (fold step (take i es) s)" and ?es = "take (j - Suc i) (drop (Suc i) es)"
  have s: "?s = fold step (take (Suc i) es) s" using assms(3,4) by (simp add: take_Suc_conv_app_nth)
  have "guarded step guard fs t \<Longrightarrow> inv t \<Longrightarrow> Q t \<Longrightarrow> Q (fold step fs t)" for fs t
    by (induction fs arbitrary: t) (auto intro: step_inv keep)
  moreover have "guarded step guard ?es ?s"
    unfolding s by (intro guarded_take guarded_drop assms(2))
  moreover have "inv ?s" unfolding s by (rule run_take_inv [OF assms(1,2)])
  ultimately show ?thesis using assms(5) unfolding fold_take_split [OF assms(3,4)] by blast
qed

end

section \<open>A self-delimiting encoding of strings\<close>

definition encode_part :: "string \<Rightarrow> string" where
  "encode_part s = concat (map (\<lambda>c. [CHR ''x'', c]) s) @ ''.''"

fun decode_part :: "string \<Rightarrow> string \<times> string" where
  "decode_part (a # c # s) =
     (if a = CHR ''x'' then (let (t, r) = decode_part s in (c # t, r)) else ([], c # s))"
| "decode_part s = ([], drop 1 s)"

lemma decode_encode [simp]: "decode_part (encode_part s @ t) = (s, t)"
proof (induction s)
  case Nil
  then show ?case by (cases t) (simp_all add: encode_part_def)
next
  case (Cons c s)
  then show ?case by (simp add: encode_part_def)
qed

end
