(* ===== verification/Auth.thy ===== *)
theory Auth
  imports DbInvariant Support
begin

text \<open>
  \<open>src/auth\<close>: passwords, the configuration, access tokens, refresh tokens that rotate in
  families, logout, and the two guards.

  Cryptography, JSON web tokens and the driver's conversion of a text parameter are code
  outside the repository: functions of the record \<open>crypto\<close>. Values drawn at random (salts,
  refresh tokens, UUIDs) and the time are arguments of the operations; \<open>now\<close> is in
  milliseconds and stands for \<open>Date.now()\<close> and the \<open>now()\<close> of the statements alike.
\<close>

section \<open>Code outside the repository\<close>

record jwt_options =
  jo_algorithm :: string
  jo_keyid :: string
  jo_subject :: string
  jo_jwtid :: string
  jo_expiresIn :: int

record 'k crypto =
  cr_sign :: "int \<Rightarrow> (string \<times> jsval) list \<Rightarrow> 'k \<Rightarrow> jwt_options \<Rightarrow> string"
  cr_verify :: "int \<Rightarrow> string \<Rightarrow> 'k \<Rightarrow> string list \<Rightarrow> jsval option"
  cr_hmac :: "string \<Rightarrow> string \<Rightarrow> string"
  cr_scrypt :: "string \<Rightarrow> string \<Rightarrow> nat \<Rightarrow> byte list"
  cr_bind :: "jsval \<Rightarrow> string option"

section \<open>Configuration\<close>

record 'k auth_config =
  ac_kid :: string
  ac_privateKey :: 'k
  ac_publicKey :: 'k
  ac_refreshTokenPepper :: string
  ac_accessTokenTtlSeconds :: int
  ac_refreshTokenTtlSeconds :: int

definition requireEnv :: "(string \<Rightarrow> string option) \<Rightarrow> string \<Rightarrow> err + string" where
  "requireEnv env name = (case env name of
       None \<Rightarrow> Inl (JsError (name @ '' is required''))
     | Some v \<Rightarrow> if v = [] then Inl (JsError (name @ '' is required'')) else Inr v)"

text \<open>\<open>decode\<close> is \<open>Buffer.from(\<dots>, 'base64').toString('utf8')\<close>, which does not throw.\<close>

definition decodePem :: "(string \<Rightarrow> string) \<Rightarrow> (string \<Rightarrow> string option) \<Rightarrow> string \<Rightarrow> err + string" where
  "decodePem decode env name = (case requireEnv env name of Inl e \<Rightarrow> Inl e | Inr v \<Rightarrow> Inr (decode v))"

definition key_or :: "string \<Rightarrow> 'k option \<Rightarrow> err + 'k" where
  "key_or msg k = (case k of None \<Rightarrow> Inl (JsError msg) | Some x \<Rightarrow> Inr x)"

text \<open>The state is \<open>cachedConfig\<close>; the two key functions fail on a malformed key.\<close>

definition getAuthConfig ::
  "(string \<Rightarrow> string) \<Rightarrow> (string \<Rightarrow> 'k option) \<Rightarrow> (string \<Rightarrow> 'k option) \<Rightarrow> (string \<Rightarrow> string option) \<Rightarrow>
     ('k auth_config option, 'k auth_config) cmd" where
  "getAuthConfig decode createPrivateKey createPublicKey env = (\<lambda>cached. case cached of
       Some cfg \<Rightarrow> (Inr cfg, cached)
     | None \<Rightarrow>
         cmd_bind (cmd_lift (requireEnv env ''JWT_KID'')) (\<lambda>kid.
         cmd_bind (cmd_lift (decodePem decode env ''JWT_PRIVATE_KEY'')) (\<lambda>privateKeyPem.
         cmd_bind (cmd_lift (decodePem decode env ''JWT_PUBLIC_KEY'')) (\<lambda>publicKeyPem.
         cmd_bind (cmd_lift (requireEnv env ''REFRESH_TOKEN_PEPPER'')) (\<lambda>pepper.
         cmd_bind (cmd_lift (key_or ''JWT_PRIVATE_KEY is invalid'' (createPrivateKey privateKeyPem))) (\<lambda>privateKey.
         cmd_bind (cmd_lift (key_or ''JWT_PUBLIC_KEY is invalid'' (createPublicKey publicKeyPem))) (\<lambda>publicKey.
         let cfg = \<lparr>ac_kid = kid, ac_privateKey = privateKey, ac_publicKey = publicKey,
                    ac_refreshTokenPepper = pepper, ac_accessTokenTtlSeconds = 10 * 60,
                    ac_refreshTokenTtlSeconds = 30 * 24 * 60 * 60\<rparr>
         in cmd_bind (cmd_write (\<lambda>_. Some cfg)) (\<lambda>_. cmd_return cfg))))))) cached)"

text \<open>The configuration that \<open>getAuthConfig\<close> returns has these times to live.\<close>

definition config_ok :: "'k auth_config \<Rightarrow> bool" where
  "config_ok cfg \<longleftrightarrow> ac_accessTokenTtlSeconds cfg = 600 \<and> ac_refreshTokenTtlSeconds cfg = 2592000"

section \<open>Passwords\<close>

definition KEY_LENGTH :: nat where "KEY_LENGTH = 64"

definition hashPassword :: "'k crypto \<Rightarrow> byte list \<Rightarrow> string \<Rightarrow> string" where
  "hashPassword cr random password =
     (let salt = to_hex random; derivedKey = cr_scrypt cr password salt KEY_LENGTH
      in js_join ''$'' [''scrypt'', salt, to_hex derivedKey])"

text \<open>A part of the stored hash that is missing is \<open>undefined\<close>, which the test refuses too.\<close>

definition verifyPassword :: "'k crypto \<Rightarrow> jsval \<Rightarrow> string \<Rightarrow> err + bool" where
  "verifyPassword cr password storedHash =
     (let parts = js_split CHR ''$'' storedHash;
          part = (\<lambda>n. if n < length parts then parts ! n else [])
      in if part 0 \<noteq> ''scrypt'' \<or> part 1 = [] \<or> part 2 = [] then Inr False
         else (let expected = from_hex (part 2)
               in case password of
                    Str p \<Rightarrow>
                      (let actual = cr_scrypt cr p (part 1) (length expected)
                       in Inr (length expected = length actual \<and> expected = actual))
                  | _ \<Rightarrow> Inl TypeError))"

section \<open>Tokens\<close>

definition hashRefreshToken :: "'k crypto \<Rightarrow> 'k auth_config \<Rightarrow> jsval \<Rightarrow> err + string" where
  "hashRefreshToken cr cfg refreshToken = (case refreshToken of
       Str t \<Rightarrow> Inr (cr_hmac cr (ac_refreshTokenPepper cfg) t)
     | _ \<Rightarrow> Inl TypeError)"

definition signAccessToken ::
  "'k crypto \<Rightarrow> 'k auth_config \<Rightarrow> int \<Rightarrow> string \<Rightarrow> int \<Rightarrow> user_role \<Rightarrow> string \<Rightarrow> string" where
  "signAccessToken cr cfg now jti userId role familyId =
     cr_sign cr now [(''role'', Str (role_name role)), (''familyId'', Str familyId)] (ac_privateKey cfg)
       \<lparr>jo_algorithm = ''RS256'', jo_keyid = ac_kid cfg, jo_subject = show_int userId, jo_jwtid = jti,
        jo_expiresIn = ac_accessTokenTtlSeconds cfg\<rparr>"

definition is_string :: "jsval \<Rightarrow> bool" where
  "is_string v \<longleftrightarrow> (case v of Str _ \<Rightarrow> True | _ \<Rightarrow> False)"

lemma is_string_simps [simp]: "is_string (Str s)" "\<not> is_string Undefined" "\<not> is_string Null"
  "\<not> is_string (Bool b)" "\<not> is_string (Num n)" "\<not> is_string (Arr vs)" "\<not> is_string (Obj kvs)"
  by (simp_all add: is_string_def)

definition verifyAccessToken :: "'k crypto \<Rightarrow> 'k auth_config \<Rightarrow> int \<Rightarrow> string \<Rightarrow> err + jsval" where
  "verifyAccessToken cr cfg now token =
     (case cr_verify cr now token (ac_publicKey cfg) [''RS256''] of
        None \<Rightarrow> Inl (JsError ''JsonWebTokenError'')
      | Some decoded \<Rightarrow>
          if is_string decoded then Inl (JsError ''Invalid access token payload'')
          else if decoded = Null \<or> decoded = Undefined then Inl TypeError
          else if \<not> truthy (opt_prop decoded ''sub'') \<or> \<not> truthy (opt_prop decoded ''jti'') \<or>
                  \<not> is_string (opt_prop decoded ''role'') \<or> \<not> is_string (opt_prop decoded ''familyId'')
            then Inl (JsError ''Invalid access token claims'')
          else if opt_prop decoded ''role'' \<notin> Str ` {''buyer'', ''seller'', ''admin''}
            then Inl (JsError ''Invalid role'')
          else Inr decoded)"

section \<open>Guards\<close>

definition isAccessTokenDenied :: "int \<Rightarrow> jsval \<Rightarrow> (db, bool) cmd" where
  "isAccessTokenDenied now jti =
     cmd_bind (cmd_lift (uuid_param jti)) (\<lambda>u.
     cmd_read (\<lambda>d. \<exists>r \<in> set (denylist d). dn_jti r = u \<and> now < dn_expires_at r))"

definition bearer :: "string option \<Rightarrow> string option" where
  "bearer header = (case header of
       None \<Rightarrow> None
     | Some h \<Rightarrow> if js_starts_with h ''Bearer '' then Some (drop (length ''Bearer '') h) else None)"

definition canActivate :: "'k crypto \<Rightarrow> 'k auth_config \<Rightarrow> int \<Rightarrow> string option \<Rightarrow> (db, jsval) cmd" where
  "canActivate cr cfg now header = (case bearer header of
       None \<Rightarrow> cmd_throw (Unauthorized ''Access token is required'')
     | Some token \<Rightarrow>
         (case verifyAccessToken cr cfg now token of
            Inl _ \<Rightarrow> cmd_throw (Unauthorized ''Invalid access token'')
          | Inr payload \<Rightarrow>
              cmd_bind (isAccessTokenDenied now (opt_prop payload ''jti'')) (\<lambda>denied.
              if denied then cmd_throw (Unauthorized ''Access token revoked'')
              else cmd_return payload)))"

text \<open>\<open>RolesGuard\<close>: the roles are those the decorator of the handler or its class names.\<close>

definition rolesActivate :: "user_role list option \<Rightarrow> jsval option \<Rightarrow> err + bool" where
  "rolesActivate required user = (case required of
       None \<Rightarrow> Inr True
     | Some roles \<Rightarrow>
         if roles = [] then Inr True
         else (case user of
             None \<Rightarrow> Inr False
           | Some u \<Rightarrow>
               if opt_prop u ''role'' \<in> (Str \<circ> role_name) ` set roles then Inr True
               else Inl (Forbidden ''Insufficient permissions'')))"

section \<open>Login\<close>

record auth_response =
  ar_accessToken :: string
  ar_refreshToken :: string

definition insert_refresh :: "string \<Rightarrow> string \<Rightarrow> int \<Rightarrow> int \<Rightarrow> (db, refresh_row) cmd" where
  "insert_refresh hash family user expires =
     cmd_bind (cmd_lift (uuid_param (Str family))) (\<lambda>fam.
     cmd_bind (int8_param user) (\<lambda>_.
     cmd_bind (nextval sq_refresh sq_refresh_update) (\<lambda>i.
     cmd_bind (varchar 128 hash) (\<lambda>_.
     let r = \<lparr>rt_id = i, rt_token_hash = hash, rt_family_id = fam, rt_user_id = user,
              rt_used_at = None, rt_revoked_at = None, rt_expires_at = expires\<rparr>
     in insert_row refresh_constraints refresh_tokens_update r))))"

text \<open>\<open>fresh\<close> is \<open>createRefreshToken()\<close>, \<open>jti\<close> the UUID that \<open>signAccessToken\<close> draws.\<close>

definition issueTokenPair ::
  "'k crypto \<Rightarrow> 'k auth_config \<Rightarrow> int \<Rightarrow> string \<Rightarrow> string \<Rightarrow> int \<Rightarrow> user_role \<Rightarrow> string \<Rightarrow> (db, auth_response) cmd" where
  "issueTokenPair cr cfg now fresh jti userId role familyId =
     cmd_bind (cmd_lift (hashRefreshToken cr cfg (Str fresh))) (\<lambda>tokenHash.
     let access = signAccessToken cr cfg now jti userId role familyId;
         expiresAt = now + ac_refreshTokenTtlSeconds cfg * 1000
     in cmd_bind (insert_refresh tokenHash familyId userId expiresAt) (\<lambda>_.
        cmd_return \<lparr>ar_accessToken = access, ar_refreshToken = fresh\<rparr>))"

definition user_by_email :: "string option \<Rightarrow> db \<Rightarrow> user_row option" where
  "user_by_email email d = (case email of
       None \<Rightarrow> None
     | Some e \<Rightarrow> first_where (\<lambda>u. u_email u = e) (users d))"

definition login ::
  "'k crypto \<Rightarrow> 'k auth_config \<Rightarrow> int \<Rightarrow> string \<Rightarrow> string \<Rightarrow> string \<Rightarrow> jsval \<Rightarrow> (db, auth_response) cmd" where
  "login cr cfg now familyId fresh jti input =
     cmd_bind (cmd_lift (get_prop input ''email'')) (\<lambda>email.
     cmd_bind (cmd_read (user_by_email (cr_bind cr email))) (\<lambda>row.
     case row of
       None \<Rightarrow> cmd_throw (Unauthorized ''Invalid credentials'')
     | Some user \<Rightarrow>
         (case u_password_hash user of
            None \<Rightarrow> cmd_throw (Unauthorized ''Invalid credentials'')
          | Some stored \<Rightarrow>
              if stored = [] then cmd_throw (Unauthorized ''Invalid credentials'')
              else
                cmd_bind (cmd_lift (verifyPassword cr (opt_prop input ''password'') stored)) (\<lambda>valid.
                if \<not> valid then cmd_throw (Unauthorized ''Invalid credentials'')
                else issueTokenPair cr cfg now fresh jti (u_id user) (u_role user) familyId))))"

section \<open>Refresh\<close>

text \<open>The row of the token joined with its user, locked until the transaction ends.\<close>

definition select_refresh :: "string \<Rightarrow> db \<Rightarrow> (refresh_row \<times> user_role) option" where
  "select_refresh hash d = (case first_where (\<lambda>r. rt_token_hash r = hash) (refresh_tokens d) of
       None \<Rightarrow> None
     | Some r \<Rightarrow> map_option (\<lambda>u. (r, u_role u)) (first_where (\<lambda>u. u_id u = rt_user_id r) (users d)))"

definition revoke_row :: "int \<Rightarrow> refresh_row \<Rightarrow> refresh_row" where
  "revoke_row now r = r\<lparr>rt_revoked_at := (case rt_revoked_at r of None \<Rightarrow> Some now | Some t \<Rightarrow> Some t)\<rparr>"

definition revoke_family :: "int \<Rightarrow> string \<Rightarrow> (db, unit) cmd" where
  "revoke_family now family =
     cmd_write (refresh_tokens_update (update_where (\<lambda>r. rt_family_id r = family) (revoke_row now)))"

definition mark_used :: "int \<Rightarrow> int \<Rightarrow> (db, unit) cmd" where
  "mark_used now i =
     cmd_write (refresh_tokens_update (update_where (\<lambda>r. rt_id r = i) (\<lambda>r. r\<lparr>rt_used_at := Some now\<rparr>)))"

text \<open>
  The transaction returns \<open>None\<close> where the code commits the revocation of the family and
  throws afterwards.
\<close>

definition refresh ::
  "'k crypto \<Rightarrow> 'k auth_config \<Rightarrow> int \<Rightarrow> string \<Rightarrow> string \<Rightarrow> jsval \<Rightarrow> (db, auth_response) cmd" where
  "refresh cr cfg now fresh jti refreshToken =
     cmd_bind (cmd_lift (hashRefreshToken cr cfg refreshToken)) (\<lambda>tokenHash.
     cmd_bind (transaction (
       cmd_bind (cmd_read (select_refresh tokenHash)) (\<lambda>row.
       case row of
         None \<Rightarrow> cmd_throw (Unauthorized ''Invalid refresh token'')
       | Some (current, role) \<Rightarrow>
           if rt_revoked_at current \<noteq> None \<or> rt_expires_at current \<le> now
           then cmd_throw (Unauthorized ''Refresh token is not active'')
           else if rt_used_at current \<noteq> None
           then cmd_bind (revoke_family now (rt_family_id current)) (\<lambda>_. cmd_return None)
           else
             cmd_bind (mark_used now (rt_id current)) (\<lambda>_.
             cmd_bind (cmd_lift (hashRefreshToken cr cfg (Str fresh))) (\<lambda>newTokenHash.
             let access = signAccessToken cr cfg now jti (rt_user_id current) role (rt_family_id current);
                 expiresAt = now + ac_refreshTokenTtlSeconds cfg * 1000
             in cmd_bind (insert_refresh newTokenHash (rt_family_id current) (rt_user_id current) expiresAt) (\<lambda>_.
                cmd_return (Some \<lparr>ar_accessToken = access, ar_refreshToken = fresh\<rparr>))))))) (\<lambda>outcome.
     case outcome of
       None \<Rightarrow> cmd_throw (Unauthorized ''Refresh token reuse detected'')
     | Some pair \<Rightarrow> cmd_return pair))"

section \<open>Logout\<close>

text \<open>\<open>new Date(exp * 1000).getTime()\<close>, \<open>None\<close> where it is \<open>NaN\<close>; a fraction of a millisecond is cut.\<close>

definition date_ms :: "jsnum \<Rightarrow> int option" where
  "date_ms n = (let ms = (case n of
         IntN i \<Rightarrow> Some (1000 * i)
       | FracN m k \<Rightarrow> Some (sgn m * ((1000 * \<bar>m\<bar>) div 10 ^ k))
       | _ \<Rightarrow> None)
     in case ms of Some t \<Rightarrow> if \<bar>t\<bar> \<le> 8640000000000000 then Some t else None | None \<Rightarrow> None)"

definition deny_row :: "string \<Rightarrow> int \<Rightarrow> denied_row list \<Rightarrow> denied_row list" where
  "deny_row jti expires ds =
     (if jti \<in> dn_jti ` set ds then update_where (\<lambda>r. dn_jti r = jti) (\<lambda>r. r\<lparr>dn_expires_at := expires\<rparr>) ds
      else ds @ [\<lparr>dn_jti = jti, dn_expires_at = expires\<rparr>])"

definition deny_access :: "jsval \<Rightarrow> int \<Rightarrow> (db, unit) cmd" where
  "deny_access jti expires =
     cmd_bind (cmd_lift (uuid_param jti)) (\<lambda>u. cmd_write (denylist_update (deny_row u expires)))"

definition payload_exp :: "jsval \<Rightarrow> jsnum" where
  "payload_exp payload = (case opt_prop payload ''exp'' of Undefined \<Rightarrow> IntN 0 | Null \<Rightarrow> IntN 0 | v \<Rightarrow> to_number v)"

definition logout :: "'k crypto \<Rightarrow> 'k auth_config \<Rightarrow> int \<Rightarrow> string \<Rightarrow> jsval \<Rightarrow> (db, unit) cmd" where
  "logout cr cfg now accessToken refreshToken =
     (case verifyAccessToken cr cfg now accessToken of
        Inl _ \<Rightarrow> cmd_throw (Unauthorized ''Invalid access token'')
      | Inr payload \<Rightarrow>
          cmd_bind (cmd_lift (hashRefreshToken cr cfg refreshToken)) (\<lambda>refreshHash.
          transaction (
            cmd_bind (cmd_read (\<lambda>d. first_where (\<lambda>r. rt_token_hash r = refreshHash) (refresh_tokens d))) (\<lambda>row.
            case row of
              None \<Rightarrow> cmd_throw (Unauthorized ''Invalid refresh token'')
            | Some current \<Rightarrow>
                if Str (rt_family_id current) \<noteq> opt_prop payload ''familyId'' \<or>
                   IntN (rt_user_id current) \<noteq> to_number (opt_prop payload ''sub'')
                then cmd_throw (Unauthorized ''Token pair mismatch'')
                else
                  cmd_bind (revoke_family now (rt_family_id current)) (\<lambda>_.
                  case date_ms (payload_exp payload) of
                    None \<Rightarrow> cmd_return ()
                  | Some expiresAt \<Rightarrow>
                      if now < expiresAt then deny_access (opt_prop payload ''jti'') expiresAt
                      else cmd_return ())))))"

section \<open>The controller\<close>

definition loginHandler ::
  "'k crypto \<Rightarrow> 'k auth_config \<Rightarrow> int \<Rightarrow> string \<Rightarrow> string \<Rightarrow> string \<Rightarrow> jsval \<Rightarrow> (db, auth_response) cmd" where
  "loginHandler cr cfg now familyId fresh jti body = login cr cfg now familyId fresh jti body"

definition refreshHandler ::
  "'k crypto \<Rightarrow> 'k auth_config \<Rightarrow> int \<Rightarrow> string \<Rightarrow> string \<Rightarrow> jsval \<Rightarrow> (db, auth_response) cmd" where
  "refreshHandler cr cfg now fresh jti body =
     cmd_bind (cmd_lift (get_prop body ''refreshToken'')) (refresh cr cfg now fresh jti)"

definition logoutHandler ::
  "'k crypto \<Rightarrow> 'k auth_config \<Rightarrow> int \<Rightarrow> string option \<Rightarrow> jsval \<Rightarrow> (db, unit) cmd" where
  "logoutHandler cr cfg now authorization body = (case bearer authorization of
       None \<Rightarrow> cmd_throw (Unauthorized ''Access token is required'')
     | Some accessToken \<Rightarrow>
         cmd_bind (cmd_lift (get_prop body ''refreshToken'')) (logout cr cfg now accessToken))"

end
