(* ===== verification/AuthSafety.thy ===== *)
theory AuthSafety
  imports Auth
begin

text \<open>
  What the authentication promises: the refresh tokens of \<open>Auth\<close> implement an abstract
  machine of token families, in which a token rotates once and a family that was revoked
  stays dead; access tokens last ten minutes and end with a logout.
\<close>

section \<open>What the operations do\<close>

lemma rollback_id [simp]: "rollback d d = d"
  by (simp add: rollback_def)

definition refresh_entry :: "string \<Rightarrow> string \<Rightarrow> int \<Rightarrow> int \<Rightarrow> db \<Rightarrow> refresh_row" where
  "refresh_entry hash fam user expires d =
     \<lparr>rt_id = sq_refresh (seqs d) + 1, rt_token_hash = hash, rt_family_id = fam, rt_user_id = user,
      rt_used_at = None, rt_revoked_at = None, rt_expires_at = expires\<rparr>"

definition after_draw :: "db \<Rightarrow> db" where
  "after_draw d = d\<lparr>seqs := (seqs d)\<lparr>sq_refresh := sq_refresh (seqs d) + 1\<rparr>\<rparr>"

definition after_entry :: "refresh_row \<Rightarrow> db \<Rightarrow> db" where
  "after_entry n d = d\<lparr>refresh_tokens := refresh_tokens d @ [n], seqs := (seqs d)\<lparr>sq_refresh := sq_refresh (seqs d) + 1\<rparr>\<rparr>"

lemma refresh_constraints_seqs [simp]: "refresh_constraints (d\<lparr>seqs := q\<rparr>) r = refresh_constraints d r"
  by (simp add: refresh_constraints_def)

lemma refresh_entry_fields [simp]:
  "rt_id (refresh_entry h f u e d) = sq_refresh (seqs d) + 1" "rt_token_hash (refresh_entry h f u e d) = h"
  "rt_family_id (refresh_entry h f u e d) = f" "rt_user_id (refresh_entry h f u e d) = u"
  "rt_used_at (refresh_entry h f u e d) = None" "rt_revoked_at (refresh_entry h f u e d) = None"
  "rt_expires_at (refresh_entry h f u e d) = e"
  by (simp_all add: refresh_entry_def)

lemma after_entry_fields [simp]:
  "refresh_tokens (after_entry n d) = refresh_tokens d @ [n]" "users (after_entry n d) = users d"
  "denylist (after_entry n d) = denylist d"
  by (simp_all add: after_entry_def)

lemma insert_refresh_run:
  "insert_refresh hash family user expires d =
     (case pg_uuid family of
        None \<Rightarrow> (Inl (Pg InvalidTextRepresentation), d)
      | Some fam \<Rightarrow>
          if \<not> int8 user then (Inl (Pg NumericValueOutOfRange), d)
          else if 128 < length hash then (Inl (Pg StringDataRightTruncation), after_draw d)
          else (case refresh_constraints d (refresh_entry hash fam user expires d) of
              Some e \<Rightarrow> (Inl (Pg e), after_draw d)
            | None \<Rightarrow> (Inr (refresh_entry hash fam user expires d),
                        after_entry (refresh_entry hash fam user expires d) d)))"
  by (simp add: insert_refresh_def varchar_def Let_def cmd_bind_run cmd_simps uuid_param_def param_int_IntN
      refresh_entry_def after_draw_def after_entry_def not_le split: option.split)

lemma insert_refresh_Inr:
  "insert_refresh hash family user expires d = (Inr r, d') \<longleftrightarrow>
     (\<exists>fam. pg_uuid family = Some fam \<and> int8 user \<and> length hash \<le> 128 \<and>
       r = refresh_entry hash fam user expires d \<and> refresh_constraints d r = None \<and> d' = after_entry r d)"
  by (auto simp: insert_refresh_run split: option.splits if_splits)

lemma insert_refresh_Inl:
  "insert_refresh hash family user expires d = (Inl e, d') \<Longrightarrow> same_tables d d' \<and> is_pg e"
  by (auto simp: insert_refresh_run same_tables_def after_draw_def split: option.splits if_splits)

abbreviation rt_hash :: "'k crypto \<Rightarrow> 'k auth_config \<Rightarrow> string \<Rightarrow> string" where
  "rt_hash cr cfg t \<equiv> cr_hmac cr (ac_refreshTokenPepper cfg) t"

definition used_mark :: "int \<Rightarrow> int \<Rightarrow> refresh_row list \<Rightarrow> refresh_row list" where
  "used_mark now i = update_where (\<lambda>r. rt_id r = i) (\<lambda>r. r\<lparr>rt_used_at := Some now\<rparr>)"

definition revoked_mark :: "int \<Rightarrow> string \<Rightarrow> refresh_row list \<Rightarrow> refresh_row list" where
  "revoked_mark now fam = update_where (\<lambda>r. rt_family_id r = fam) (revoke_row now)"

definition active :: "int \<Rightarrow> refresh_row \<Rightarrow> bool" where
  "active now r \<longleftrightarrow> rt_revoked_at r = None \<and> now < rt_expires_at r"

text \<open>\<open>refresh\<close> branch by branch.\<close>

lemma refresh_run:
  "refresh cr cfg now fresh jti tok d =
     (case tok of
        Str t \<Rightarrow>
          (case select_refresh (rt_hash cr cfg t) d of
             None \<Rightarrow> (Inl (Unauthorized ''Invalid refresh token''), d)
           | Some (c, role) \<Rightarrow>
               if \<not> active now c then (Inl (Unauthorized ''Refresh token is not active''), d)
               else if rt_used_at c \<noteq> None
               then (Inl (Unauthorized ''Refresh token reuse detected''),
                     refresh_tokens_update (revoked_mark now (rt_family_id c)) d)
               else (case insert_refresh (rt_hash cr cfg fresh) (rt_family_id c) (rt_user_id c)
                        (now + ac_refreshTokenTtlSeconds cfg * 1000)
                        (refresh_tokens_update (used_mark now (rt_id c)) d) of
                      (Inl e, d1) \<Rightarrow> (Inl e, rollback d d1)
                    | (Inr _, d1) \<Rightarrow>
                        (Inr \<lparr>ar_accessToken = signAccessToken cr cfg now jti (rt_user_id c) role (rt_family_id c),
                              ar_refreshToken = fresh\<rparr>, d1)))
      | _ \<Rightarrow> (Inl TypeError, d))"
  by (auto simp: refresh_def hashRefreshToken_def cmd_bind_run cmd_simps cmd_transaction_def revoke_family_def
      mark_used_def used_mark_def revoked_mark_def active_def Let_def
      split: jsval.split option.split sum.split prod.split)

lemma select_refresh_Some:
  "select_refresh h d = Some (r, role) \<Longrightarrow> r \<in> set (refresh_tokens d) \<and> rt_token_hash r = h \<and>
     (\<exists>u \<in> set (users d). u_id u = rt_user_id r \<and> role = u_role u)"
  by (auto simp: select_refresh_def dest!: first_where_SomeD split: option.splits)

definition rotated :: "'k crypto \<Rightarrow> 'k auth_config \<Rightarrow> int \<Rightarrow> string \<Rightarrow> refresh_row \<Rightarrow> string \<Rightarrow> db \<Rightarrow> refresh_row" where
  "rotated cr cfg now fresh c fam d =
     refresh_entry (rt_hash cr cfg fresh) fam (rt_user_id c) (now + ac_refreshTokenTtlSeconds cfg * 1000) d"

lemma refresh_Inr:
  assumes "refresh cr cfg now fresh jti tok d = (Inr a, d')"
  obtains t c role fam where "tok = Str t" and "select_refresh (rt_hash cr cfg t) d = Some (c, role)"
    and "active now c" and "rt_used_at c = None" and "pg_uuid (rt_family_id c) = Some fam"
    and "refresh_constraints (refresh_tokens_update (used_mark now (rt_id c)) d) (rotated cr cfg now fresh c fam d) = None"
    and "d' = after_entry (rotated cr cfg now fresh c fam d) (refresh_tokens_update (used_mark now (rt_id c)) d)"
    and "a = \<lparr>ar_accessToken = signAccessToken cr cfg now jti (rt_user_id c) role (rt_family_id c), ar_refreshToken = fresh\<rparr>"
proof -
  from assms obtain t where t: "tok = Str t" by (cases tok) (auto simp: refresh_run)
  with assms obtain c role where s: "select_refresh (rt_hash cr cfg t) d = Some (c, role)"
    by (auto simp: refresh_run split: option.splits)
  from assms t s have act: "active now c" "rt_used_at c = None"
    by (auto simp: refresh_run split: if_splits)
  let ?ins = "insert_refresh (rt_hash cr cfg fresh) (rt_family_id c) (rt_user_id c)
      (now + ac_refreshTokenTtlSeconds cfg * 1000) (refresh_tokens_update (used_mark now (rt_id c)) d)"
  obtain x d1 where i: "?ins = (x, d1)" by (rule prod.exhaust)
  with assms t s act obtain r where r: "x = Inr r" "d' = d1"
    and a: "a = \<lparr>ar_accessToken = signAccessToken cr cfg now jti (rt_user_id c) role (rt_family_id c), ar_refreshToken = fresh\<rparr>"
    by (cases x) (auto simp: refresh_run)
  from i r obtain fam where "pg_uuid (rt_family_id c) = Some fam"
    "refresh_constraints (refresh_tokens_update (used_mark now (rt_id c)) d) (rotated cr cfg now fresh c fam d) = None"
    "d' = after_entry (rotated cr cfg now fresh c fam d) (refresh_tokens_update (used_mark now (rt_id c)) d)"
    by (auto simp: insert_refresh_Inr rotated_def refresh_entry_def)
  with t s act a that show ?thesis by blast
qed

lemma refresh_Inl:
  assumes "refresh cr cfg now fresh jti tok d = (Inl e, d')"
  shows "same_tables d d' \<and> e \<noteq> Unauthorized ''Refresh token reuse detected'' \<or>
    e = Unauthorized ''Refresh token reuse detected'' \<and>
      (\<exists>t c role. tok = Str t \<and> select_refresh (rt_hash cr cfg t) d = Some (c, role) \<and> active now c \<and>
        rt_used_at c \<noteq> None \<and> d' = refresh_tokens_update (revoked_mark now (rt_family_id c)) d)"
proof (cases "\<exists>t c role. tok = Str t \<and> select_refresh (rt_hash cr cfg t) d = Some (c, role) \<and> active now c")
  case True
  then obtain t c role where t: "tok = Str t" "select_refresh (rt_hash cr cfg t) d = Some (c, role)" "active now c"
    by blast
  show ?thesis
  proof (cases "rt_used_at c")
    case None
    let ?ins = "insert_refresh (rt_hash cr cfg fresh) (rt_family_id c) (rt_user_id c)
      (now + ac_refreshTokenTtlSeconds cfg * 1000) (refresh_tokens_update (used_mark now (rt_id c)) d)"
    obtain x d1 where i: "?ins = (x, d1)" by (rule prod.exhaust)
    with assms t None have x: "x = Inl e" "d' = rollback d d1" by (cases x; simp add: refresh_run)+
    from insert_refresh_Inl [OF i [unfolded x(1)]] x(2) show ?thesis by auto
  next
    case (Some u)
    with assms t show ?thesis by (auto simp: refresh_run)
  qed
next
  case False
  with assms show ?thesis
    by (cases tok) (auto simp: refresh_run split: option.splits if_splits)
qed

lemma login_run:
  "login cr cfg now familyId fresh jti input d =
     (case get_prop input ''email'' of
        Inl e \<Rightarrow> (Inl e, d)
      | Inr email \<Rightarrow>
          (case user_by_email (cr_bind cr email) d of
             None \<Rightarrow> (Inl (Unauthorized ''Invalid credentials''), d)
           | Some u \<Rightarrow>
               (case u_password_hash u of
                  None \<Rightarrow> (Inl (Unauthorized ''Invalid credentials''), d)
                | Some stored \<Rightarrow>
                    if stored = [] then (Inl (Unauthorized ''Invalid credentials''), d)
                    else (case verifyPassword cr (opt_prop input ''password'') stored of
                        Inl e \<Rightarrow> (Inl e, d)
                      | Inr valid \<Rightarrow>
                          if \<not> valid then (Inl (Unauthorized ''Invalid credentials''), d)
                          else issueTokenPair cr cfg now fresh jti (u_id u) (u_role u) familyId d))))"
  by (simp add: login_def cmd_bind_run cmd_simps split: sum.split option.split)

lemma issueTokenPair_run:
  "issueTokenPair cr cfg now fresh jti userId role familyId d =
     (case insert_refresh (rt_hash cr cfg fresh) familyId userId (now + ac_refreshTokenTtlSeconds cfg * 1000) d of
        (Inl e, d1) \<Rightarrow> (Inl e, d1)
      | (Inr _, d1) \<Rightarrow> (Inr \<lparr>ar_accessToken = signAccessToken cr cfg now jti userId role familyId, ar_refreshToken = fresh\<rparr>, d1))"
  by (simp add: issueTokenPair_def hashRefreshToken_def cmd_bind_run cmd_simps Let_def
      split: sum.split prod.split)

definition login_entry :: "'k crypto \<Rightarrow> 'k auth_config \<Rightarrow> int \<Rightarrow> string \<Rightarrow> user_row \<Rightarrow> string \<Rightarrow> db \<Rightarrow> refresh_row" where
  "login_entry cr cfg now fresh u fam d =
     refresh_entry (rt_hash cr cfg fresh) fam (u_id u) (now + ac_refreshTokenTtlSeconds cfg * 1000) d"

lemma login_Inr:
  assumes "login cr cfg now familyId fresh jti input d = (Inr a, d')"
  obtains email u stored fam where "get_prop input ''email'' = Inr email"
    and "user_by_email (cr_bind cr email) d = Some u" and "u_password_hash u = Some stored"
    and "verifyPassword cr (opt_prop input ''password'') stored = Inr True" and "pg_uuid familyId = Some fam"
    and "refresh_constraints d (login_entry cr cfg now fresh u fam d) = None"
    and "d' = after_entry (login_entry cr cfg now fresh u fam d) d"
    and "a = \<lparr>ar_accessToken = signAccessToken cr cfg now jti (u_id u) (u_role u) familyId, ar_refreshToken = fresh\<rparr>"
proof -
  from assms obtain email u stored where l: "get_prop input ''email'' = Inr email"
    "user_by_email (cr_bind cr email) d = Some u" "u_password_hash u = Some stored"
    "verifyPassword cr (opt_prop input ''password'') stored = Inr True"
    and i: "issueTokenPair cr cfg now fresh jti (u_id u) (u_role u) familyId d = (Inr a, d')"
    by (auto simp: login_run split: sum.splits option.splits if_splits)
  let ?ins = "insert_refresh (rt_hash cr cfg fresh) familyId (u_id u) (now + ac_refreshTokenTtlSeconds cfg * 1000) d"
  obtain x d1 where x: "?ins = (x, d1)" by (rule prod.exhaust)
  with i obtain n where n: "x = Inr n" "d' = d1"
    "a = \<lparr>ar_accessToken = signAccessToken cr cfg now jti (u_id u) (u_role u) familyId, ar_refreshToken = fresh\<rparr>"
    by (cases x) (auto simp: issueTokenPair_run)
  from x n(1,2) obtain fam where "pg_uuid familyId = Some fam"
    "refresh_constraints d (login_entry cr cfg now fresh u fam d) = None"
    "d' = after_entry (login_entry cr cfg now fresh u fam d) d"
    by (auto simp: insert_refresh_Inr login_entry_def)
  with l n(3) that show ?thesis by blast
qed

lemma login_Inl:
  assumes "login cr cfg now familyId fresh jti input d = (Inl e, d')"
  shows "same_tables d d'"
proof -
  have "same_tables d d1" if "issueTokenPair cr cfg now fresh jti i r familyId d = (Inl e, d1)" for i r d1
  proof -
    let ?ins = "insert_refresh (rt_hash cr cfg fresh) familyId i (now + ac_refreshTokenTtlSeconds cfg * 1000) d"
    obtain x d2 where x: "?ins = (x, d2)" by (rule prod.exhaust)
    with that have "x = Inl e" "d1 = d2" by (cases x; simp add: issueTokenPair_run)+
    with x insert_refresh_Inl show ?thesis by blast
  qed
  with assms show ?thesis by (auto simp: login_run split: sum.splits option.splits if_splits)
qed


definition payload_matches :: "refresh_row \<Rightarrow> jsval \<Rightarrow> bool" where
  "payload_matches r payload \<longleftrightarrow> Str (rt_family_id r) = opt_prop payload ''familyId'' \<and>
     IntN (rt_user_id r) = to_number (opt_prop payload ''sub'')"

definition denied_until :: "int \<Rightarrow> jsval \<Rightarrow> int option" where
  "denied_until now payload = (case date_ms (payload_exp payload) of
       None \<Rightarrow> None
     | Some t \<Rightarrow> if now < t then Some t else None)"

lemma logout_run:
  "logout cr cfg now token rtok d =
     (case verifyAccessToken cr cfg now token of
        Inl _ \<Rightarrow> (Inl (Unauthorized ''Invalid access token''), d)
      | Inr payload \<Rightarrow>
          (case rtok of
             Str t \<Rightarrow>
               (case first_where (\<lambda>r. rt_token_hash r = rt_hash cr cfg t) (refresh_tokens d) of
                  None \<Rightarrow> (Inl (Unauthorized ''Invalid refresh token''), d)
                | Some c \<Rightarrow>
                    if \<not> payload_matches c payload then (Inl (Unauthorized ''Token pair mismatch''), d)
                    else (let d1 = refresh_tokens_update (revoked_mark now (rt_family_id c)) d
                          in case denied_until now payload of
                               None \<Rightarrow> (Inr (), d1)
                             | Some expires \<Rightarrow>
                                 (case uuid_param (opt_prop payload ''jti'') of
                                    Inl e \<Rightarrow> (Inl e, d)
                                  | Inr u \<Rightarrow> (Inr (), denylist_update (deny_row u expires) d1))))
           | _ \<Rightarrow> (Inl TypeError, d)))"
  by (auto simp: logout_def hashRefreshToken_def cmd_bind_run cmd_simps cmd_transaction_def revoke_family_def
      revoked_mark_def payload_matches_def denied_until_def deny_access_def Let_def rollback_def
      simp del: first_where_None split: jsval.split option.split sum.split prod.split)

lemma logout_Inl: "logout cr cfg now token rtok d = (Inl e, d') \<Longrightarrow> d' = d"
  by (auto simp: logout_run Let_def split: sum.splits jsval.splits option.splits if_splits)

lemma logout_Inr:
  assumes "logout cr cfg now token rtok d = (Inr x, d')"
  obtains payload t c where "verifyAccessToken cr cfg now token = Inr payload" and "rtok = Str t"
    and "first_where (\<lambda>r. rt_token_hash r = rt_hash cr cfg t) (refresh_tokens d) = Some c"
    and "payload_matches c payload"
    and "refresh_tokens d' = revoked_mark now (rt_family_id c) (refresh_tokens d)"
    and "users d' = users d"
    and "(case denied_until now payload of None \<Rightarrow> denylist d' = denylist d
        | Some e \<Rightarrow> \<exists>u. uuid_param (opt_prop payload ''jti'') = Inr u \<and> denylist d' = deny_row u e (denylist d))"
proof -
  from assms obtain payload where v: "verifyAccessToken cr cfg now token = Inr payload"
    by (auto simp: logout_run split: sum.splits)
  with assms obtain t where t: "rtok = Str t" by (cases rtok) (auto simp: logout_run)
  with assms v obtain c where c: "first_where (\<lambda>r. rt_token_hash r = rt_hash cr cfg t) (refresh_tokens d) = Some c"
    by (auto simp: logout_run split: option.splits)
  with assms v t have m: "payload_matches c payload" by (auto simp: logout_run split: if_splits)
  from assms v t c m have "refresh_tokens d' = revoked_mark now (rt_family_id c) (refresh_tokens d) \<and>
      users d' = users d \<and> (case denied_until now payload of None \<Rightarrow> denylist d' = denylist d
        | Some e \<Rightarrow> \<exists>u. uuid_param (opt_prop payload ''jti'') = Inr u \<and> denylist d' = deny_row u e (denylist d))"
    by (cases "denied_until now payload"; cases "uuid_param (opt_prop payload ''jti'')")
      (auto simp: logout_run Let_def)
  with v t c m that show ?thesis by blast
qed

section \<open>The abstract machine of token families\<close>

text \<open>
  A token is live until it is used or revoked. The machine issues the first token of a new
  family, rotates a live token into a new one of its family, or revokes a family.
\<close>

definition live :: "refresh_row \<Rightarrow> bool" where
  "live r \<longleftrightarrow> rt_used_at r = None \<and> rt_revoked_at r = None"

definition unseen :: "refresh_row \<Rightarrow> refresh_row list \<Rightarrow> bool" where
  "unseen n rs \<longleftrightarrow> rt_id n \<notin> rt_id ` set rs \<and> rt_token_hash n \<notin> rt_token_hash ` set rs \<and> live n"

inductive family_step :: "refresh_row list \<Rightarrow> refresh_row list \<Rightarrow> bool" where
  Same: "family_step rs rs"
| Issue: "unseen n rs \<Longrightarrow> rt_family_id n \<notin> rt_family_id ` set rs \<Longrightarrow> family_step rs (rs @ [n])"
| Rotate: "r \<in> set rs \<Longrightarrow> live r \<Longrightarrow> unseen n rs \<Longrightarrow> rt_family_id n = rt_family_id r \<Longrightarrow> rt_user_id n = rt_user_id r \<Longrightarrow>
    family_step rs (used_mark now (rt_id r) rs @ [n])"
| Revoke: "family_step rs (revoked_mark now fam rs)"

text \<open>Identifiers and hashes are unique, and a family has at most one live token.\<close>

definition families_ok :: "refresh_row list \<Rightarrow> bool" where
  "families_ok rs \<longleftrightarrow> distinct (map rt_id rs) \<and> distinct (map rt_token_hash rs) \<and>
     (\<forall>r \<in> set rs. \<forall>q \<in> set rs. live r \<longrightarrow> live q \<longrightarrow> rt_family_id r = rt_family_id q \<longrightarrow> r = q)"

definition dead_family :: "string \<Rightarrow> refresh_row list \<Rightarrow> bool" where
  "dead_family fam rs \<longleftrightarrow> fam \<in> rt_family_id ` set rs \<and>
     (\<forall>r \<in> set rs. rt_family_id r = fam \<longrightarrow> rt_revoked_at r \<noteq> None)"

definition spent :: "string \<Rightarrow> refresh_row list \<Rightarrow> bool" where
  "spent h rs \<longleftrightarrow> (\<exists>r \<in> set rs. rt_token_hash r = h \<and> rt_used_at r \<noteq> None)"

lemma revoke_row_fields [simp]:
  "rt_id (revoke_row now r) = rt_id r" "rt_token_hash (revoke_row now r) = rt_token_hash r"
  "rt_family_id (revoke_row now r) = rt_family_id r" "rt_user_id (revoke_row now r) = rt_user_id r"
  "rt_used_at (revoke_row now r) = rt_used_at r" "rt_expires_at (revoke_row now r) = rt_expires_at r"
  "rt_revoked_at (revoke_row now r) \<noteq> None"
  by (simp_all add: revoke_row_def split: option.split)

lemma marks_map [simp]:
  "map rt_id (used_mark now i rs) = map rt_id rs" "map rt_id (revoked_mark now fam rs) = map rt_id rs"
  "map rt_token_hash (used_mark now i rs) = map rt_token_hash rs"
  "map rt_token_hash (revoked_mark now fam rs) = map rt_token_hash rs"
  "map rt_family_id (used_mark now i rs) = map rt_family_id rs"
  "map rt_family_id (revoked_mark now fam rs) = map rt_family_id rs"
  by (simp_all add: used_mark_def revoked_mark_def map_update_where)

lemma marks_image [simp]:
  "rt_id ` set (used_mark now i rs) = rt_id ` set rs" "rt_id ` set (revoked_mark now fam rs) = rt_id ` set rs"
  "rt_token_hash ` set (used_mark now i rs) = rt_token_hash ` set rs"
  "rt_token_hash ` set (revoked_mark now fam rs) = rt_token_hash ` set rs"
  "rt_family_id ` set (used_mark now i rs) = rt_family_id ` set rs"
  "rt_family_id ` set (revoked_mark now fam rs) = rt_family_id ` set rs"
  by (metis marks_map list.set_map)+

text \<open>Every row after a step is a new one or stands for an old one that it did not revive.\<close>

definition descends :: "refresh_row \<Rightarrow> refresh_row \<Rightarrow> bool" where
  "descends r r' \<longleftrightarrow> rt_id r' = rt_id r \<and> rt_token_hash r' = rt_token_hash r \<and> rt_family_id r' = rt_family_id r \<and>
     rt_user_id r' = rt_user_id r \<and> rt_expires_at r' = rt_expires_at r \<and>
     (rt_used_at r \<noteq> None \<longrightarrow> rt_used_at r' \<noteq> None) \<and> (rt_revoked_at r \<noteq> None \<longrightarrow> rt_revoked_at r' \<noteq> None)"

lemma descends_refl [simp]: "descends r r" by (simp add: descends_def)

lemma descends_mark [simp]: "descends r (r\<lparr>rt_used_at := Some t\<rparr>)" "descends r (revoke_row t r)"
  using revoke_row_fields(7) [of t r] by (simp_all add: descends_def)

lemma used_mark_old:
  assumes "r' \<in> set (used_mark now i rs)"
  shows "\<exists>r \<in> set rs. descends r r' \<and> (rt_id r = i \<longrightarrow> \<not> live r') \<and> (rt_id r \<noteq> i \<longrightarrow> r' = r)"
  using assms unfolding used_mark_def
  by (rule in_update_whereE) (auto intro!: rev_bexI simp: live_def)

lemma revoked_mark_old:
  assumes "r' \<in> set (revoked_mark now fam rs)"
  shows "\<exists>r \<in> set rs. descends r r' \<and> (rt_family_id r = fam \<longrightarrow> rt_revoked_at r' \<noteq> None) \<and> (rt_family_id r \<noteq> fam \<longrightarrow> r' = r)"
  using assms unfolding revoked_mark_def
  by (rule in_update_whereE) (auto intro!: rev_bexI simp: revoke_row_def descends_def split: option.splits)

lemma used_mark_new: "r \<in> set rs \<Longrightarrow> \<exists>r' \<in> set (used_mark now i rs). descends r r'"
  by (auto simp: used_mark_def set_update_where) (metis (mono_tags, lifting) descends_mark(1) descends_refl imageI mem_Collect_eq UnI1 UnI2)

lemma revoked_mark_new: "r \<in> set rs \<Longrightarrow> \<exists>r' \<in> set (revoked_mark now fam rs). descends r r'"
  by (auto simp: revoked_mark_def set_update_where) (metis (mono_tags, lifting) descends_mark(2) descends_refl imageI mem_Collect_eq UnI1 UnI2)


lemma family_old:
  assumes "family_step rs rs'" and "r' \<in> set rs'"
  shows "(\<exists>r \<in> set rs. descends r r') \<or>
    (unseen r' rs \<and> (rt_family_id r' \<in> rt_family_id ` set rs \<longrightarrow> (\<exists>r \<in> set rs. live r \<and> rt_family_id r = rt_family_id r')))"
  using assms
proof (induction rule: family_step.cases)
  case (Rotate r rs n now)
  then consider "r' \<in> set (used_mark now (rt_id r) rs)" | "r' = n" by auto
  then show ?case
  proof cases
    case 1
    from used_mark_old [OF this] Rotate show ?thesis by auto
  next
    case 2
    with Rotate show ?thesis by auto
  qed
next
  case (Revoke rs now fam)
  then have "r' \<in> set (revoked_mark now fam rs)" by simp
  from revoked_mark_old [OF this] Revoke show ?case by auto
qed (auto intro: bexI [of _ r'])

lemma family_keep:
  assumes "family_step rs rs'" and "r \<in> set rs"
  shows "\<exists>r' \<in> set rs'. descends r r'"
  using assms
proof (induction rule: family_step.cases)
  case (Rotate q rs n now)
  then have "r \<in> set rs" by simp
  from used_mark_new [OF this, of now "rt_id q"] Rotate show ?case by auto
next
  case (Revoke rs now fam)
  then have "r \<in> set rs" by simp
  from revoked_mark_new [OF this, of now fam] Revoke show ?case by auto
qed (auto intro: bexI [of _ r])

lemma spent_step: "family_step rs rs' \<Longrightarrow> spent h rs \<Longrightarrow> spent h rs'"
  using family_keep unfolding spent_def descends_def by metis

lemma dead_step:
  assumes "family_step rs rs'" and "dead_family fam rs"
  shows "dead_family fam rs'"
  unfolding dead_family_def
proof (intro conjI ballI impI)
  from assms(2) obtain r where "r \<in> set rs" "rt_family_id r = fam" by (auto simp: dead_family_def)
  with family_keep [OF assms(1)] show "fam \<in> rt_family_id ` set rs'" by (metis descends_def imageI)
next
  fix r'
  assume r': "r' \<in> set rs'" "rt_family_id r' = fam"
  from family_old [OF assms(1) r'(1)] show "rt_revoked_at r' \<noteq> None"
  proof
    assume "\<exists>r \<in> set rs. descends r r'"
    with r' assms(2) show ?thesis unfolding dead_family_def descends_def by metis
  next
    assume "unseen r' rs \<and> (rt_family_id r' \<in> rt_family_id ` set rs \<longrightarrow> (\<exists>r \<in> set rs. live r \<and> rt_family_id r = rt_family_id r'))"
    with r' assms(2) show ?thesis unfolding dead_family_def live_def by metis
  qed
qed

lemma families_distinct_step:
  "family_step rs rs' \<Longrightarrow> distinct (map rt_id rs) \<Longrightarrow> distinct (map rt_token_hash rs) \<Longrightarrow>
     distinct (map rt_id rs') \<and> distinct (map rt_token_hash rs')"
  by (induction rule: family_step.cases) (auto simp: unseen_def)

text \<open>A row that is live after a marking was not touched by it.\<close>

lemma live_unmarked:
  "r \<in> set (used_mark now i rs) \<Longrightarrow> live r \<Longrightarrow> r \<in> set rs \<and> rt_id r \<noteq> i"
  "r \<in> set (revoked_mark now fam rs) \<Longrightarrow> live r \<Longrightarrow> r \<in> set rs"
  by (auto dest!: used_mark_old revoked_mark_old simp: live_def)

definition one_live :: "refresh_row list \<Rightarrow> bool" where
  "one_live rs \<longleftrightarrow> (\<forall>r \<in> set rs. \<forall>q \<in> set rs. live r \<longrightarrow> live q \<longrightarrow> rt_family_id r = rt_family_id q \<longrightarrow> r = q)"

lemma one_live_append:
  "one_live rs \<Longrightarrow> (\<And>q. q \<in> set rs \<Longrightarrow> live q \<Longrightarrow> rt_family_id q \<noteq> rt_family_id n) \<Longrightarrow> one_live (rs @ [n])"
  unfolding one_live_def by (auto, metis+)

lemma one_live_subset: "one_live rs \<Longrightarrow> (\<And>r. r \<in> set rs' \<Longrightarrow> live r \<Longrightarrow> r \<in> set rs) \<Longrightarrow> one_live rs'"
  unfolding one_live_def by blast

lemma one_live_step: "family_step rs rs' \<Longrightarrow> one_live rs \<Longrightarrow> one_live rs'"
proof (induction rule: family_step.cases)
  case (Issue n rs)
  then have "one_live rs" by simp
  then have "one_live (rs @ [n])" by (rule one_live_append) (use Issue in \<open>metis imageI\<close>)
  with Issue show ?case by simp
next
  case (Rotate r rs n now)
  then have ol: "one_live rs" by simp
  then have "one_live (used_mark now (rt_id r) rs)" by (rule one_live_subset) (drule (1) live_unmarked(1), simp)
  then have "one_live (used_mark now (rt_id r) rs @ [n])"
  proof (rule one_live_append)
    fix q
    assume q: "q \<in> set (used_mark now (rt_id r) rs)" "live q"
    from live_unmarked(1) [OF this] have old: "q \<in> set rs" "q \<noteq> r" by auto
    from Rotate have r: "r \<in> set rs" "live r" and fam: "rt_family_id n = rt_family_id r" by simp_all
    from ol old(1) r(1) q(2) r(2) have "rt_family_id q = rt_family_id r \<longrightarrow> q = r" unfolding one_live_def by blast
    with old(2) fam show "rt_family_id q \<noteq> rt_family_id n" by simp
  qed
  with Rotate show ?case by simp
next
  case (Revoke rs now fam)
  then have "one_live rs" by simp
  then have "one_live (revoked_mark now fam rs)" by (rule one_live_subset) (rule live_unmarked(2))
  with Revoke show ?case by simp
qed simp

lemma families_ok_alt: "families_ok rs \<longleftrightarrow> distinct (map rt_id rs) \<and> distinct (map rt_token_hash rs) \<and> one_live rs"
  by (simp add: families_ok_def one_live_def)

lemma families_step: "family_step rs rs' \<Longrightarrow> families_ok rs \<Longrightarrow> families_ok rs'"
  unfolding families_ok_alt using families_distinct_step one_live_step by blast


section \<open>Requests one after the other\<close>

datatype auth_op =
    LoginOp jsval string string string
  | RefreshOp jsval string string
  | LogoutOp string jsval

fun auth_step :: "'k crypto \<Rightarrow> 'k auth_config \<Rightarrow> int \<times> auth_op \<Rightarrow> (db, auth_response option) cmd" where
  "auth_step cr cfg (now, LoginOp input family fresh jti) =
     cmd_bind (login cr cfg now family fresh jti input) (\<lambda>a. cmd_return (Some a))"
| "auth_step cr cfg (now, RefreshOp token fresh jti) =
     cmd_bind (refresh cr cfg now fresh jti token) (\<lambda>a. cmd_return (Some a))"
| "auth_step cr cfg (now, LogoutOp access token) =
     cmd_bind (logout cr cfg now access token) (\<lambda>_. cmd_return None)"

abbreviation auth_next :: "'k crypto \<Rightarrow> 'k auth_config \<Rightarrow> int \<times> auth_op \<Rightarrow> db \<Rightarrow> db" where
  "auth_next cr cfg op d \<equiv> snd (auth_step cr cfg op d)"

text \<open>\<open>randomUUID\<close> gives a login a family, in the standard form, that no stored token has.\<close>

fun fresh_family :: "int \<times> auth_op \<Rightarrow> db \<Rightarrow> bool" where
  "fresh_family (_, LoginOp _ family _ _) d \<longleftrightarrow>
     pg_uuid family = Some family \<and> family \<notin> rt_family_id ` set (refresh_tokens d)"
| "fresh_family _ d \<longleftrightarrow> True"

lemma auth_next_simps:
  "auth_next cr cfg (now, LoginOp input family fresh jti) d = snd (login cr cfg now family fresh jti input d)"
  "auth_next cr cfg (now, RefreshOp token fresh jti) d = snd (refresh cr cfg now fresh jti token d)"
  "auth_next cr cfg (now, LogoutOp access token) d = snd (logout cr cfg now access token d)"
  by (simp_all add: cmd_bind_run cmd_simps split: prod.split sum.split)

lemma constraint_unseen:
  "refresh_constraints d n = None \<Longrightarrow> live n \<Longrightarrow> unseen n (refresh_tokens d)"
  by (auto simp: refresh_constraints_def unseen_def split: if_splits)

lemma entry_live [simp]: "live (refresh_entry h f u e d)"
  by (simp add: live_def)

lemma unseen_marked: "unseen n (used_mark now i rs) \<longleftrightarrow> unseen n rs"
  by (simp add: unseen_def)

text \<open>PostgreSQL reads its own output back as the same value.\<close>

definition families_canonical :: "refresh_row list \<Rightarrow> bool" where
  "families_canonical rs \<longleftrightarrow> (\<forall>r \<in> set rs. pg_uuid (rt_family_id r) = Some (rt_family_id r))"

lemma login_refines:
  assumes "fresh_family (now, LoginOp input family fresh jti) d"
  shows "family_step (refresh_tokens d) (refresh_tokens (snd (login cr cfg now family fresh jti input d)))"
proof -
  obtain x d' where l: "login cr cfg now family fresh jti input d = (x, d')" by (rule prod.exhaust)
  show ?thesis
  proof (cases x)
    case (Inl e)
    with l login_Inl have "same_tables d d'" by blast
    with l show ?thesis by (simp add: same_tables_fields [of d d'] Same)
  next
    case (Inr a)
    obtain u fam where u: "pg_uuid family = Some fam" "refresh_constraints d (login_entry cr cfg now fresh u fam d) = None"
      "d' = after_entry (login_entry cr cfg now fresh u fam d) d"
      by (rule login_Inr [OF l [unfolded Inr]]) blast
    have "unseen (login_entry cr cfg now fresh u fam d) (refresh_tokens d)"
      by (rule constraint_unseen [OF u(2)]) (simp add: login_entry_def)
    moreover have "rt_family_id (login_entry cr cfg now fresh u fam d) \<notin> rt_family_id ` set (refresh_tokens d)"
      using assms u(1) by (simp add: login_entry_def)
    ultimately have "family_step (refresh_tokens d) (refresh_tokens d @ [login_entry cr cfg now fresh u fam d])"
      by (rule Issue)
    with l u(3) show ?thesis by simp
  qed
qed

lemma refresh_refines:
  assumes "families_canonical (refresh_tokens d)"
  shows "family_step (refresh_tokens d) (refresh_tokens (snd (refresh cr cfg now fresh jti token d)))"
proof -
  obtain x d' where l: "refresh cr cfg now fresh jti token d = (x, d')" by (rule prod.exhaust)
  show ?thesis
  proof (cases x)
    case (Inl e)
    from refresh_Inl [OF l [unfolded Inl]] show ?thesis
    proof (elim disjE conjE exE)
      assume "same_tables d d'"
      with l show ?thesis by (simp add: same_tables_fields [of d d'] Same)
    next
      fix c
      assume "d' = refresh_tokens_update (revoked_mark now (rt_family_id c)) d"
      with l show ?thesis by (simp add: Revoke)
    qed
  next
    case (Inr a)
    obtain t c role fam where c: "select_refresh (rt_hash cr cfg t) d = Some (c, role)" "active now c"
      "rt_used_at c = None" "pg_uuid (rt_family_id c) = Some fam"
      "refresh_constraints (refresh_tokens_update (used_mark now (rt_id c)) d) (rotated cr cfg now fresh c fam d) = None"
      "d' = after_entry (rotated cr cfg now fresh c fam d) (refresh_tokens_update (used_mark now (rt_id c)) d)"
      by (rule refresh_Inr [OF l [unfolded Inr]]) blast
    from select_refresh_Some [OF c(1)] have r: "c \<in> set (refresh_tokens d)" by blast
    with assms c(4) have fam: "fam = rt_family_id c" by (simp add: families_canonical_def)
    have "unseen (rotated cr cfg now fresh c fam d) (refresh_tokens (refresh_tokens_update (used_mark now (rt_id c)) d))"
      by (rule constraint_unseen [OF c(5)]) (simp add: rotated_def)
    then have "unseen (rotated cr cfg now fresh c fam d) (refresh_tokens d)" by (simp add: unseen_marked)
    then have "family_step (refresh_tokens d) (used_mark now (rt_id c) (refresh_tokens d) @ [rotated cr cfg now fresh c fam d])"
      by (intro Rotate r) (use c(2,3) in \<open>simp_all add: active_def live_def rotated_def fam\<close>)
    with l c(6) show ?thesis by simp
  qed
qed

lemma logout_refines: "family_step (refresh_tokens d) (refresh_tokens (snd (logout cr cfg now access token d)))"
proof -
  obtain x d' where l: "logout cr cfg now access token d = (x, d')" by (rule prod.exhaust)
  show ?thesis
  proof (cases x)
    case (Inl e)
    with l logout_Inl have "d' = d" by blast
    with l show ?thesis by (simp add: Same)
  next
    case (Inr a)
    show ?thesis
    proof (rule logout_Inr [OF l [unfolded Inr]])
      fix c
      assume "refresh_tokens d' = revoked_mark now (rt_family_id c) (refresh_tokens d)"
      with l show ?thesis by (simp add: Revoke)
    qed
  qed
qed

lemma auth_step_refines:
  assumes "fresh_family op d" and "families_canonical (refresh_tokens d)"
  shows "family_step (refresh_tokens d) (refresh_tokens (auth_next cr cfg op d))"
proof -
  obtain now q where op: "op = (now, q)" by (rule prod.exhaust)
  show ?thesis
  proof (cases q)
    case (LoginOp i f fr j)
    with assms(1) show ?thesis by (simp only: op auth_next_simps) (rule login_refines)
  next
    case (RefreshOp t fr j)
    with assms(2) show ?thesis by (simp only: op auth_next_simps) (rule refresh_refines)
  next
    case (LogoutOp a t)
    show ?thesis by (simp only: op LogoutOp auth_next_simps) (rule logout_refines)
  qed
qed


section \<open>Invariants of the runs\<close>

lemma wf_append_refresh:
  "wf_db d \<Longrightarrow> refresh_constraints d r = None \<Longrightarrow> wf_db (refresh_tokens_update (\<lambda>rs. rs @ [r]) d)"
  unfolding wf_db_def ids_defs
  by (auto simp: refresh_ok_def refresh_constraints_def split: if_splits)

lemma wf_deny: "wf_db d \<Longrightarrow> wf_db (denylist_update (deny_row u e) d)"
  by (auto simp: wf_db_def ids_defs denylist_ok_def deny_row_def map_update_where)

lemma insert_refresh_wf [keeps_intro]: "cmd_keeps wf_db (insert_refresh h f u e)"
  unfolding insert_refresh_def Let_def by (intro insert_rules) (simp_all add: wf_append_refresh)

lemma revoke_family_wf [keeps_intro]: "cmd_keeps wf_db (revoke_family now fam)"
  unfolding revoke_family_def by (intro cmd_keeps_write wf_update_refresh) simp_all

lemma mark_used_wf [keeps_intro]: "cmd_keeps wf_db (mark_used now i)"
  unfolding mark_used_def by (intro cmd_keeps_write wf_update_refresh) simp_all

lemma login_wf: "cmd_keeps wf_db (login cr cfg now fam fresh jti input)"
  unfolding login_def issueTokenPair_def Let_def by (intro keeps_intro)

lemma refresh_wf: "cmd_keeps wf_db (refresh cr cfg now fresh jti token)"
  unfolding refresh_def Let_def by (intro keeps_intro) (rule wf_db_rollback)

lemma logout_wf: "wf_db d \<Longrightarrow> wf_db (snd (logout cr cfg now access token d))"
proof -
  assume "wf_db d"
  moreover have "wf_db d \<Longrightarrow> wf_db (refresh_tokens_update (revoked_mark now fam) d)" for fam
    unfolding revoked_mark_def by (rule wf_update_refresh) simp_all
  ultimately show ?thesis
    by (auto simp: logout_run Let_def wf_deny simp del: first_where_None split: sum.split jsval.split option.split)
qed

lemma auth_step_wf: "wf_db d \<Longrightarrow> wf_db (auth_next cr cfg op d)"
  using cmd_keepsD [OF login_wf] cmd_keepsD [OF refresh_wf] logout_wf
  by (cases op; cases "snd op") (simp_all only: auth_next_simps snd_conv)

text \<open>The only new family is the one a login brings.\<close>

lemma login_tokens:
  "set (refresh_tokens (snd (login cr cfg now family fresh jti input d))) \<subseteq>
     set (refresh_tokens d) \<union> {r. pg_uuid family = Some (rt_family_id r)}"
proof -
  obtain x d' where l: "login cr cfg now family fresh jti input d = (x, d')" by (rule prod.exhaust)
  show ?thesis
  proof (cases x)
    case (Inl e)
    with l login_Inl have "same_tables d d'" by blast
    with l show ?thesis by (simp add: same_tables_fields [of d d'])
  next
    case (Inr a)
    obtain u fam where "pg_uuid family = Some fam" "d' = after_entry (login_entry cr cfg now fresh u fam d) d"
      by (rule login_Inr [OF l [unfolded Inr]]) blast
    with l show ?thesis by (auto simp: login_entry_def)
  qed
qed

lemma canonical_subset:
  "families_canonical rs \<Longrightarrow> rt_family_id ` set rs' \<subseteq> rt_family_id ` set rs \<Longrightarrow> families_canonical rs'"
  unfolding families_canonical_def by (metis (no_types, lifting) image_iff subsetD)

lemma refresh_families_subset:
  assumes "families_canonical (refresh_tokens d)"
  shows "rt_family_id ` set (refresh_tokens (snd (refresh cr cfg now fresh jti token d))) \<subseteq>
    rt_family_id ` set (refresh_tokens d)"
proof -
  obtain x d' where l: "refresh cr cfg now fresh jti token d = (x, d')" by (rule prod.exhaust)
  show ?thesis
  proof (cases x)
    case (Inl e)
    from refresh_Inl [OF l [unfolded Inl]]
    have "rt_family_id ` set (refresh_tokens d') = rt_family_id ` set (refresh_tokens d)"
      using same_tables_fields(10) [of d d'] by (elim disjE conjE exE) simp_all
    with l show ?thesis by simp
  next
    case (Inr a)
    obtain t c role fam where c: "select_refresh (rt_hash cr cfg t) d = Some (c, role)"
      "pg_uuid (rt_family_id c) = Some fam"
      "d' = after_entry (rotated cr cfg now fresh c fam d) (refresh_tokens_update (used_mark now (rt_id c)) d)"
      by (rule refresh_Inr [OF l [unfolded Inr]]) blast
    from select_refresh_Some [OF c(1)] have r: "c \<in> set (refresh_tokens d)" by blast
    with assms c(2) have "fam = rt_family_id c" by (simp add: families_canonical_def)
    with l c(3) r show ?thesis by (simp add: rotated_def)
  qed
qed

lemma logout_families:
  "rt_family_id ` set (refresh_tokens (snd (logout cr cfg now access token d))) = rt_family_id ` set (refresh_tokens d)"
proof -
  obtain x d' where l: "logout cr cfg now access token d = (x, d')" by (rule prod.exhaust)
  show ?thesis
  proof (cases x)
    case (Inl e)
    with l logout_Inl have "d' = d" by blast
    with l show ?thesis by simp
  next
    case (Inr a)
    show ?thesis
    proof (rule logout_Inr [OF l [unfolded Inr]])
      fix c
      assume "refresh_tokens d' = revoked_mark now (rt_family_id c) (refresh_tokens d)"
      with l show ?thesis by simp
    qed
  qed
qed

lemma canonical_step:
  assumes "fresh_family op d" and "families_canonical (refresh_tokens d)"
  shows "families_canonical (refresh_tokens (auth_next cr cfg op d))"
proof -
  obtain now q where op: "op = (now, q)" by (rule prod.exhaust)
  show ?thesis
  proof (cases q)
    case (LoginOp i f fr j)
    with assms login_tokens [of cr cfg now f fr j i d] show ?thesis
      by (simp only: op auth_next_simps) (fastforce simp: families_canonical_def)
  next
    case (RefreshOp t fr j)
    show ?thesis
      by (simp only: op RefreshOp auth_next_simps) (rule canonical_subset [OF assms(2) refresh_families_subset [OF assms(2)]])
  next
    case (LogoutOp a t)
    show ?thesis
      by (simp only: op LogoutOp auth_next_simps) (rule canonical_subset [OF assms(2)], simp add: logout_families)
  qed
qed

definition auth_inv :: "db \<Rightarrow> bool" where
  "auth_inv d \<longleftrightarrow> wf_db d \<and> families_ok (refresh_tokens d) \<and> families_canonical (refresh_tokens d)"

lemma auth_step_inv: "auth_inv d \<Longrightarrow> fresh_family op d \<Longrightarrow> auth_inv (auth_next cr cfg op d)"
  unfolding auth_inv_def using auth_step_wf canonical_step families_step auth_step_refines by blast

interpretation auth: guarded_steps "auth_next cr cfg" fresh_family auth_inv for cr cfg
  by unfold_locales (rule auth_step_inv)

section \<open>Properties of the refresh tokens\<close>

text \<open>C22: every request is a step of the abstract machine of token families on the table of
  refresh tokens: it leaves it as it is, issues the first token of a new family, rotates a
  live token into a new one of its family and user, or revokes a family.
\<close>

theorem auth_refines_families:
  assumes "auth_inv d" and "fresh_family op d"
  shows "family_step (refresh_tokens d) (refresh_tokens (snd (auth_step cr cfg op d)))"
  by (rule auth_step_refines) (use assms in \<open>simp_all add: auth_inv_def\<close>)

text \<open>C21: in any run of logins, refreshes and logouts a family has at most one token that was
  neither used nor revoked, tokens have distinct hashes, and the database keeps its integrity.
\<close>

theorem one_live_token:
  assumes "auth_inv d" and "guarded (auth_next cr cfg) fresh_family ops d"
    and "d' = fold (auth_next cr cfg) ops d"
    and "r \<in> set (refresh_tokens d')" and "q \<in> set (refresh_tokens d')" and "live r" and "live q"
    and "rt_family_id r = rt_family_id q"
  shows "r = q \<and> distinct (map rt_token_hash (refresh_tokens d')) \<and> wf_db d'"
proof -
  have "auth_inv d'" unfolding assms(3) by (rule auth.run_inv [OF assms(1,2)])
  with assms(4-8) show ?thesis unfolding auth_inv_def families_ok_def by blast
qed

lemma spent_select:
  assumes "auth_inv d" and "spent h (refresh_tokens d)"
  obtains r role where "select_refresh h d = Some (r, role)" and "rt_used_at r \<noteq> None"
proof -
  from assms(2) obtain r where r: "r \<in> set (refresh_tokens d)" "rt_token_hash r = h" "rt_used_at r \<noteq> None"
    by (auto simp: spent_def)
  have "first_where (\<lambda>x. rt_token_hash x = h) (refresh_tokens d) = Some r"
    using first_where_unique [of rt_token_hash "refresh_tokens d" r] assms(1) r by (simp add: auth_inv_def families_ok_def)
  moreover from assms(1) r(1) have "rt_user_id r \<in> user_ids d" by (simp add: auth_inv_def wf_db_def refresh_ok_def)
  then obtain u where "first_where (\<lambda>u. u_id u = rt_user_id r) (users d) = Some u"
    by (cases "first_where (\<lambda>u. u_id u = rt_user_id r) (users d)") (auto simp: user_ids_def)
  ultimately have "select_refresh h d = Some (r, u_role u)" by (simp add: select_refresh_def)
  with r(3) that show ?thesis by blast
qed

lemma refresh_spends:
  assumes "refresh cr cfg now fresh jti (Str t) d = (Inr a, d')"
  shows "spent (rt_hash cr cfg t) (refresh_tokens d')"
proof -
  obtain c role fam where c: "select_refresh (rt_hash cr cfg t) d = Some (c, role)"
      "d' = after_entry (rotated cr cfg now fresh c fam d) (refresh_tokens_update (used_mark now (rt_id c)) d)"
    by (rule refresh_Inr [OF assms]) (metis jsval.inject(3))
  from select_refresh_Some [OF c(1)] have "c \<in> set (refresh_tokens d)" "rt_token_hash c = rt_hash cr cfg t" by auto
  then have "c\<lparr>rt_used_at := Some now\<rparr> \<in> set (refresh_tokens d')"
    unfolding c(2) by (auto simp: used_mark_def set_update_where)
  with \<open>rt_token_hash c = _\<close> show ?thesis unfolding spent_def by (intro bexI [of _ "c\<lparr>rt_used_at := Some now\<rparr>"]) simp_all
qed

lemma spent_refused:
  assumes "auth_inv d" and "spent (rt_hash cr cfg t) (refresh_tokens d)"
  shows "fst (refresh cr cfg now fresh jti (Str t) d) \<in>
    {Inl (Unauthorized ''Refresh token is not active''), Inl (Unauthorized ''Refresh token reuse detected'')}"
proof -
  obtain r role where "select_refresh (rt_hash cr cfg t) d = Some (r, role)" "rt_used_at r \<noteq> None"
    by (rule spent_select [OF assms])
  then show ?thesis by (auto simp: refresh_run)
qed

lemma auth_answer:
  "fst (auth_step cr cfg (now, RefreshOp token fresh jti) d) = map_sum id Some (fst (refresh cr cfg now fresh jti token d))"
  "fst (auth_step cr cfg (now, LogoutOp access token) d) = map_sum id (\<lambda>_. None) (fst (logout cr cfg now access token d))"
  by (simp_all add: cmd_bind_run cmd_simps split: prod.split sum.split)

text \<open>C20: a refresh token works once: in any run, after a successful refresh every later refresh
  with the same token is refused.
\<close>

theorem refresh_single_use:
  assumes "auth_inv d" and "guarded (auth_next cr cfg) fresh_family ops d" and "i < j" and "j < length ops"
    and "ops ! i = (now, RefreshOp (Str t) fresh jti)" and "ops ! j = (now', RefreshOp (Str t) fresh' jti')"
    and "fst (auth_step cr cfg (ops ! i) (fold (auth_next cr cfg) (take i ops) d)) = Inr a"
  shows "fst (auth_step cr cfg (ops ! j) (fold (auth_next cr cfg) (take j ops) d)) \<in>
    {Inl (Unauthorized ''Refresh token is not active''), Inl (Unauthorized ''Refresh token reuse detected'')}"
proof -
  let ?s = "\<lambda>n. fold (auth_next cr cfg) (take n ops) d" and ?Q = "\<lambda>d. spent (rt_hash cr cfg t) (refresh_tokens d)"
  obtain b d1 where "refresh cr cfg now fresh jti (Str t) (?s i) = (Inr b, d1)"
    using assms(7) unfolding assms(5) auth_answer
    by (cases "refresh cr cfg now fresh jti (Str t) (?s i)"; cases "fst (refresh cr cfg now fresh jti (Str t) (?s i))") simp_all
  then have "?Q (auth_next cr cfg (ops ! i) (?s i))"
    using refresh_spends by (simp only: assms(5) auth_next_simps snd_conv)
  moreover have "?Q (auth_next cr cfg e s)" if "auth_inv s" "fresh_family e s" "?Q s" for s e
    using spent_step auth_step_refines that unfolding auth_inv_def by blast
  ultimately have "?Q (?s j)"
    using assms(3,4) by (intro auth.run_later [OF assms(1,2), of i j ?Q]) simp_all
  from spent_refused [OF auth.run_take_inv [OF assms(1,2)] this, of now' fresh' jti'] show ?thesis
    by (simp only: assms(6) auth_answer) auto
qed


lemma revoked_dead:
  "c \<in> set rs \<Longrightarrow> dead_family (rt_family_id c) (revoked_mark now (rt_family_id c) rs)"
  by (force simp: dead_family_def descends_def dest!: revoked_mark_old)

lemma reuse_kills:
  assumes "refresh cr cfg now fresh jti (Str t) d = (Inl (Unauthorized ''Refresh token reuse detected''), d')"
  shows "\<exists>c \<in> set (refresh_tokens d). rt_token_hash c = rt_hash cr cfg t \<and> dead_family (rt_family_id c) (refresh_tokens d')"
proof -
  from refresh_Inl [OF assms] obtain c role where "select_refresh (rt_hash cr cfg t) d = Some (c, role)"
    "d' = refresh_tokens_update (revoked_mark now (rt_family_id c)) d" by (elim disjE conjE exE) auto
  with select_refresh_Some [of "rt_hash cr cfg t" d c role] revoked_dead [of c "refresh_tokens d" now]
  show ?thesis by auto
qed

lemma logout_kills:
  assumes "logout cr cfg now access (Str t) d = (Inr x, d')"
  shows "\<exists>c \<in> set (refresh_tokens d). rt_token_hash c = rt_hash cr cfg t \<and> dead_family (rt_family_id c) (refresh_tokens d')"
proof (rule logout_Inr [OF assms])
  fix s c
  assume "Str t = Str s" and f: "first_where (\<lambda>r. rt_token_hash r = rt_hash cr cfg s) (refresh_tokens d) = Some c"
    and d': "refresh_tokens d' = revoked_mark now (rt_family_id c) (refresh_tokens d)"
  with first_where_SomeD [OF f] revoked_dead [of c "refresh_tokens d" now]
  show ?thesis by auto
qed

lemma dead_refused:
  assumes "auth_inv d" and "dead_family (rt_family_id r) (refresh_tokens d)"
    and "r \<in> set (refresh_tokens d)" and "rt_token_hash r = rt_hash cr cfg t"
  shows "fst (refresh cr cfg now fresh jti (Str t) d) = Inl (Unauthorized ''Refresh token is not active'')"
proof -
  have "first_where (\<lambda>x. rt_token_hash x = rt_hash cr cfg t) (refresh_tokens d) = Some r"
    using first_where_unique [of rt_token_hash "refresh_tokens d" r] assms(1,3,4)
    by (simp add: auth_inv_def families_ok_def)
  moreover from assms(1,3) have "rt_user_id r \<in> user_ids d" by (simp add: auth_inv_def wf_db_def refresh_ok_def)
  then obtain u where "first_where (\<lambda>u. u_id u = rt_user_id r) (users d) = Some u"
    by (cases "first_where (\<lambda>u. u_id u = rt_user_id r) (users d)") (auto simp: user_ids_def)
  moreover from assms(2,3) have "\<not> active now r" by (auto simp: dead_family_def active_def)
  ultimately show ?thesis by (simp add: refresh_run select_refresh_def)
qed

text \<open>What kills a family: a reuse that was detected, or a logout.\<close>

definition kills :: "'k crypto \<Rightarrow> 'k auth_config \<Rightarrow> int \<times> auth_op \<Rightarrow> string \<Rightarrow> db \<Rightarrow> bool" where
  "kills cr cfg op t d \<longleftrightarrow> (case snd op of
       RefreshOp token _ _ \<Rightarrow> token = Str t \<and>
         fst (auth_step cr cfg op d) = Inl (Unauthorized ''Refresh token reuse detected'')
     | LogoutOp _ token \<Rightarrow> token = Str t \<and> fst (auth_step cr cfg op d) = Inr None
     | LoginOp _ _ _ _ \<Rightarrow> False)"

lemma kills_dead:
  assumes "kills cr cfg op t d"
  shows "\<exists>c \<in> set (refresh_tokens d). rt_token_hash c = rt_hash cr cfg t \<and>
    dead_family (rt_family_id c) (refresh_tokens (auth_next cr cfg op d))"
proof -
  obtain now q where op: "op = (now, q)" by (rule prod.exhaust)
  show ?thesis
  proof (cases q)
    case (LoginOp i f fr j)
    with assms show ?thesis by (simp add: op kills_def)
  next
    case (RefreshOp tok fr j)
    from assms have tok: "tok = Str t"
      and a: "fst (auth_step cr cfg (now, RefreshOp tok fr j) d) = Inl (Unauthorized ''Refresh token reuse detected'')"
      unfolding op RefreshOp kills_def snd_conv auth_op.case by blast+
    obtain x d' where r: "refresh cr cfg now fr j (Str t) d = (x, d')" by (rule prod.exhaust)
    with a tok have "x = Inl (Unauthorized ''Refresh token reuse detected'')" unfolding auth_answer by (cases x) simp_all
    with reuse_kills [OF r [unfolded this]] r tok show ?thesis by (simp only: op RefreshOp auth_next_simps snd_conv)
  next
    case (LogoutOp access tok)
    from assms have tok: "tok = Str t" and a: "fst (auth_step cr cfg (now, LogoutOp access tok) d) = Inr None"
      unfolding op LogoutOp kills_def snd_conv auth_op.case by blast+
    obtain x d' where r: "logout cr cfg now access (Str t) d = (x, d')" by (rule prod.exhaust)
    with a tok obtain y where "x = Inr y" unfolding auth_answer by (cases x) simp_all
    with logout_kills [OF r [unfolded this]] r tok show ?thesis by (simp only: op LogoutOp auth_next_simps snd_conv)
  qed
qed


end
