(* ===== verification/Access.thy ===== *)
theory Access
  imports AuthSafety
begin

text \<open>
  Access tokens, passwords and login: what the guard admits and for how long, what a logout
  ends, the round trip of password hashes, and which logins succeed. The hypotheses on the
  code outside the repository are stated here, with concrete functions that meet them, and
  the examples that apply the theorems.
\<close>

section \<open>What the code relies on\<close>

definition access_claims :: "int \<Rightarrow> int \<Rightarrow> string \<Rightarrow> string \<Rightarrow> string \<Rightarrow> string \<Rightarrow> jsval" where
  "access_claims iat expires role fam sub jti =
     Obj [(''role'', Str role), (''familyId'', Str fam), (''iat'', Num (IntN iat)), (''exp'', Num (IntN expires)),
          (''sub'', Str sub), (''jti'', Str jti)]"

text \<open>
  \<open>jsonwebtoken\<close>: a token that was signed verifies under the matching key, until it
  expires, as the payload it was made of with the claims of its options.
\<close>

definition jwt_library :: "'k crypto \<Rightarrow> 'k auth_config \<Rightarrow> bool" where
  "jwt_library cr cfg \<longleftrightarrow> (\<forall>t t' role fam opts. jo_algorithm opts = ''RS256'' \<longrightarrow>
     cr_verify cr t' (cr_sign cr t [(''role'', Str role), (''familyId'', Str fam)] (ac_privateKey cfg) opts)
         (ac_publicKey cfg) [''RS256''] =
       (if t' div 1000 < t div 1000 + jo_expiresIn opts
        then Some (access_claims (t div 1000) (t div 1000 + jo_expiresIn opts) role fam (jo_subject opts) (jo_jwtid opts))
        else None))"

text \<open>\<open>scrypt\<close> derives a key of the length it is asked for.\<close>

definition scrypt_library :: "'k crypto \<Rightarrow> bool" where
  "scrypt_library cr \<longleftrightarrow> (\<forall>p s n. length (cr_scrypt cr p s n) = n)"

subsection \<open>Functions that meet it\<close>

definition sample_sign :: "int \<Rightarrow> (string \<times> jsval) list \<Rightarrow> unit \<Rightarrow> jwt_options \<Rightarrow> string" where
  "sample_sign now payload k opts =
     (let text = (\<lambda>v. case v of Str s \<Rightarrow> s | _ \<Rightarrow> [])
      in encode_part (text (obj_field payload ''role'')) @ encode_part (text (obj_field payload ''familyId'')) @
         encode_part (show_int (now div 1000)) @ encode_part (show_int (now div 1000 + jo_expiresIn opts)) @
         encode_part (jo_subject opts) @ encode_part (jo_jwtid opts))"

definition read_int :: "string \<Rightarrow> int" where
  "read_int s = (case number_of_string s of IntN i \<Rightarrow> i | _ \<Rightarrow> 0)"

definition sample_verify :: "int \<Rightarrow> string \<Rightarrow> unit \<Rightarrow> string list \<Rightarrow> jsval option" where
  "sample_verify now token k algorithms =
     (let (role, r1) = decode_part token; (fam, r2) = decode_part r1; (iat, r3) = decode_part r2;
          (expires, r4) = decode_part r3; (sub, r5) = decode_part r4; (jti, r6) = decode_part r5
      in if now div 1000 < read_int expires
         then Some (access_claims (read_int iat) (read_int expires) role fam sub jti) else None)"

definition sample_crypto :: "unit crypto" where
  "sample_crypto = \<lparr>cr_sign = sample_sign, cr_verify = sample_verify, cr_hmac = (\<lambda>_ t. t),
     cr_scrypt = (\<lambda>p s n. replicate n (of_nat (length p))),
     cr_bind = (\<lambda>v. case v of Str s \<Rightarrow> Some s | _ \<Rightarrow> None)\<rparr>"

definition sample_config :: "unit auth_config" where
  "sample_config = \<lparr>ac_kid = ''kid'', ac_privateKey = (), ac_publicKey = (), ac_refreshTokenPepper = ''pepper'',
     ac_accessTokenTtlSeconds = 600, ac_refreshTokenTtlSeconds = 2592000\<rparr>"

lemma decode_encode_last [simp]: "decode_part (encode_part s) = (s, [])"
  using decode_encode [of s "[]"] by simp

lemma sample_jwt: "jwt_library sample_crypto sample_config"
  by (simp add: jwt_library_def sample_crypto_def sample_config_def sample_sign_def sample_verify_def Let_def
      read_int_def number_of_show_int)

lemma sample_scrypt: "scrypt_library sample_crypto"
  by (simp add: scrypt_library_def sample_crypto_def)

lemma sample_config_ok: "config_ok sample_config"
  by (simp add: config_ok_def sample_config_def)

section \<open>Passwords\<close>

lemma no_dollar_hex: "CHR ''$'' \<notin> set (to_hex bs)"
  by (metis to_hex_chars hex_char_plain)

lemma verify_hash:
  assumes "scrypt_library cr" and "random \<noteq> []"
  shows "verifyPassword cr (Str q) (hashPassword cr random p) =
    Inr (cr_scrypt cr q (to_hex random) KEY_LENGTH = cr_scrypt cr p (to_hex random) KEY_LENGTH)"
proof -
  let ?salt = "to_hex random" and ?key = "to_hex (cr_scrypt cr p (to_hex random) KEY_LENGTH)"
  have "js_split CHR ''$'' (js_join [CHR ''$''] [''scrypt'', ?salt, ?key]) = [''scrypt'', ?salt, ?key]"
    by (rule js_split_join) (simp_all add: no_dollar_hex)
  moreover have len: "length (cr_scrypt cr q s n) = n" for q s n using assms(1) by (simp add: scrypt_library_def)
  moreover have "?key \<noteq> []" using len [of p ?salt KEY_LENGTH] by (auto simp: KEY_LENGTH_def)
  moreover have "?salt \<noteq> []" using assms(2) by simp
  ultimately show ?thesis
    by (auto simp: verifyPassword_def hashPassword_def Let_def)
qed

text \<open>C25: the hash of a password verifies for that password, and for another one exactly if
  \<open>scrypt\<close> derives the same key from it; the random salt makes hashes of one password differ.
\<close>

theorem password_roundtrip:
  assumes "scrypt_library cr" and "random \<noteq> []"
  shows "verifyPassword cr (Str p) (hashPassword cr random p) = Inr True \<and>
    (verifyPassword cr (Str q) (hashPassword cr random p) = Inr True \<longleftrightarrow>
      cr_scrypt cr q (to_hex random) KEY_LENGTH = cr_scrypt cr p (to_hex random) KEY_LENGTH) \<and>
    (hashPassword cr random p = hashPassword cr random' p \<longrightarrow> random = random')"
proof -
  have "random = random'" if h: "hashPassword cr random p = hashPassword cr random' p"
  proof -
    let ?parts = "\<lambda>r. [''scrypt'', to_hex r, to_hex (cr_scrypt cr p (to_hex r) KEY_LENGTH)]"
    have "js_split CHR ''$'' (js_join [CHR ''$''] (?parts r)) = ?parts r" for r
      by (rule js_split_join) (simp_all add: no_dollar_hex)
    moreover have "js_join [CHR ''$''] (?parts random) = js_join [CHR ''$''] (?parts random')"
      using h by (simp add: hashPassword_def Let_def)
    ultimately have "?parts random = ?parts random'" by metis
    then have "from_hex (to_hex random) = from_hex (to_hex random')" by simp
    then show ?thesis by simp
  qed
  with verify_hash [OF assms] show ?thesis by simp
qed

lemma password_roundtrip_witness:
  "verifyPassword sample_crypto (Str ''pw'') (hashPassword sample_crypto [7, 9] ''pw'') = Inr True \<and>
   verifyPassword sample_crypto (Str ''longer'') (hashPassword sample_crypto [7, 9] ''pw'') \<noteq> Inr True"
proof -
  have "(of_nat 2 :: byte) \<noteq> of_nat 6" by simp
  then have "cr_scrypt sample_crypto ''longer'' s KEY_LENGTH \<noteq> cr_scrypt sample_crypto ''pw'' s KEY_LENGTH" for s
    by (simp add: sample_crypto_def KEY_LENGTH_def)
  then show ?thesis
    using password_roundtrip [OF sample_scrypt, of "[7, 9]" "''pw''" "''longer''" "[7, 9]"] by simp
qed

text \<open>
  A stored hash whose key part is not hexadecimal at all decodes to an empty buffer, and then
  every password verifies.
\<close>

lemma malformed_hash_accepts:
  assumes "scrypt_library cr"
  shows "verifyPassword cr (Str p) ''scrypt$salt$zz'' = Inr True"
proof -
  have "length (cr_scrypt cr p ''salt'' 0) = 0" using assms unfolding scrypt_library_def by blast
  then show ?thesis by (simp add: verifyPassword_def Let_def radix_digit_def)
qed

section \<open>Access tokens\<close>

abbreviation issued_claims :: "int \<Rightarrow> string \<Rightarrow> int \<Rightarrow> user_role \<Rightarrow> string \<Rightarrow> jsval" where
  "issued_claims t jti userId role fam \<equiv>
     access_claims (t div 1000) (t div 1000 + 600) (role_name role) fam (show_int userId) jti"

lemma claims_fields [simp]:
  "opt_prop (access_claims i e r f s j) ''role'' = Str r" "opt_prop (access_claims i e r f s j) ''familyId'' = Str f"
  "opt_prop (access_claims i e r f s j) ''exp'' = Num (IntN e)" "opt_prop (access_claims i e r f s j) ''sub'' = Str s"
  "opt_prop (access_claims i e r f s j) ''jti'' = Str j" "\<not> is_string (access_claims i e r f s j)"
  "access_claims i e r f s j \<noteq> Null" "access_claims i e r f s j \<noteq> Undefined"
  by (simp_all add: access_claims_def)

lemma show_int_nonempty [simp]: "show_int i \<noteq> []"
  by (simp add: show_int_def)

lemma role_name_known: "role_name r \<in> {''buyer'', ''seller'', ''admin''}"
  by (cases r) simp_all

lemma verify_issued:
  assumes "jwt_library cr cfg" and "config_ok cfg" and "jti \<noteq> []"
  shows "verifyAccessToken cr cfg t' (signAccessToken cr cfg t jti u role fam) =
    (if t' div 1000 < t div 1000 + 600 then Inr (issued_claims t jti u role fam)
     else Inl (JsError ''JsonWebTokenError''))"
proof -
  have "cr_verify cr t' (signAccessToken cr cfg t jti u role fam) (ac_publicKey cfg) [''RS256''] =
      (if t' div 1000 < t div 1000 + 600 then Some (issued_claims t jti u role fam) else None)"
    using assms(1,2) unfolding jwt_library_def signAccessToken_def config_ok_def by simp
  moreover have "Str (role_name role) \<in> Str ` {''buyer'', ''seller'', ''admin''}"
    using role_name_known by (rule imageI)
  ultimately show ?thesis using assms(3) by (simp add: verifyAccessToken_def)
qed

lemma bearer_token: "bearer (Some (''Bearer '' @ t)) = Some t"
  by (simp add: bearer_def js_starts_with_def)

lemma uuid_nonempty: "pg_uuid jti = Some u \<Longrightarrow> jti \<noteq> []"
  by (auto simp: pg_uuid_def unbrace_def numeral_eq_Suc)

text \<open>A token is denied while the list has its identifier with an expiry still to come.\<close>

definition denied :: "db \<Rightarrow> string \<Rightarrow> int \<Rightarrow> bool" where
  "denied d jti now \<longleftrightarrow> (\<exists>r \<in> set (denylist d). dn_jti r = jti \<and> now < dn_expires_at r)"

lemma guard_issued:
  assumes "jwt_library cr cfg" and "config_ok cfg" and "pg_uuid jti = Some jti"
  shows "canActivate cr cfg t' (Some (''Bearer '' @ signAccessToken cr cfg t jti u role fam)) d =
    (if \<not> t' div 1000 < t div 1000 + 600 then Inl (Unauthorized ''Invalid access token'')
     else if denied d jti t' then Inl (Unauthorized ''Access token revoked'')
     else Inr (issued_claims t jti u role fam), d)"
  unfolding canActivate_def bearer_token option.case
  using assms(3)
  by (simp add: verify_issued [OF assms(1,2) uuid_nonempty [OF assms(3)]] isAccessTokenDenied_def
      cmd_bind_run cmd_simps uuid_param_def flip: denied_def)

text \<open>C25: the guard admits a token that login or refresh issued for ten minutes, as the user it
  was issued to, unless its identifier is on the denylist; the role guard then admits it for
  the roles of that user. Neither changes the database.
\<close>

theorem access_token_lifetime:
  assumes "jwt_library cr cfg" and "config_ok cfg" and "pg_uuid jti = Some jti"
  shows "canActivate cr cfg t' (Some (''Bearer '' @ signAccessToken cr cfg t jti u role fam)) d =
    (if \<not> t' div 1000 < t div 1000 + 600 then Inl (Unauthorized ''Invalid access token'')
     else if denied d jti t' then Inl (Unauthorized ''Access token revoked'')
     else Inr (issued_claims t jti u role fam), d) \<and>
    opt_prop (issued_claims t jti u role fam) ''sub'' = Str (show_int u) \<and>
    rolesActivate (Some roles) (Some (issued_claims t jti u role fam)) =
      (if roles = [] \<or> role \<in> set roles then Inr True else Inl (Forbidden ''Insufficient permissions''))"
proof -
  have "role_name r = role_name s \<Longrightarrow> r = s" for r s by (cases r; cases s) simp_all
  then have "Str (role_name role) \<in> (Str \<circ> role_name) ` set roles \<longleftrightarrow> role \<in> set roles" by auto
  then show ?thesis using guard_issued [OF assms] by (simp add: rolesActivate_def)
qed

lemma access_token_lifetime_witness:
  "fst (canActivate sample_crypto sample_config 599999
      (Some (''Bearer '' @ signAccessToken sample_crypto sample_config 0 uuid_1 5 Seller uuid_2)) empty_db) =
    Inr (issued_claims 0 uuid_1 5 Seller uuid_2) \<and>
   fst (canActivate sample_crypto sample_config 600000
      (Some (''Bearer '' @ signAccessToken sample_crypto sample_config 0 uuid_1 5 Seller uuid_2)) empty_db) =
    Inl (Unauthorized ''Invalid access token'')"
  using access_token_lifetime [OF sample_jwt sample_config_ok pg_uuid_examples(1), of 599999 0 5 Seller uuid_2 empty_db "[]"]
    access_token_lifetime [OF sample_jwt sample_config_ok pg_uuid_examples(1), of 600000 0 5 Seller uuid_2 empty_db "[]"]
  by (simp_all add: denied_def empty_db_def)


section \<open>Logout\<close>

text \<open>
  A logout, at any time, that presents another access token does not carry the same
  identifier: \<open>randomUUID\<close> does not repeat.
\<close>

definition sole_bearer :: "'k crypto \<Rightarrow> 'k auth_config \<Rightarrow> string \<Rightarrow> string \<Rightarrow> int \<times> auth_op \<Rightarrow> bool" where
  "sole_bearer cr cfg a jti op \<longleftrightarrow> (case op of
       (t, LogoutOp b k) \<Rightarrow> b = a \<or>
         (\<forall>p. verifyAccessToken cr cfg t b = Inr p \<longrightarrow> uuid_param (opt_prop p ''jti'') \<noteq> Inr jti)
     | _ \<Rightarrow> True)"

definition listed :: "string \<Rightarrow> int \<Rightarrow> db \<Rightarrow> bool" where
  "listed jti e d \<longleftrightarrow> \<lparr>dn_jti = jti, dn_expires_at = e\<rparr> \<in> set (denylist d)"

lemma deny_same: "\<lparr>dn_jti = jti, dn_expires_at = e\<rparr> \<in> set (deny_row jti e ds)"
proof (cases "jti \<in> dn_jti ` set ds")
  case True
  then obtain r where r: "r \<in> set ds" "dn_jti r = jti" by auto
  have "\<lparr>dn_jti = jti, dn_expires_at = e\<rparr> = r\<lparr>dn_expires_at := e\<rparr>"
    by (rule denied_row.equality) (simp_all add: r)
  moreover from r have "r\<lparr>dn_expires_at := e\<rparr> \<in> dn_expires_at_update (\<lambda>_. e) ` {r \<in> set ds. dn_jti r = jti}" by blast
  ultimately show ?thesis using True by (simp add: deny_row_def set_update_where)
qed (simp add: deny_row_def)

lemma deny_other: "x \<in> set ds \<Longrightarrow> dn_jti x \<noteq> jti \<Longrightarrow> x \<in> set (deny_row jti e ds)"
  by (simp add: deny_row_def set_update_where)

lemma login_denylist [simp]: "denylist (snd (login cr cfg now fam fresh jti input d)) = denylist d"
proof -
  obtain x d' where l: "login cr cfg now fam fresh jti input d = (x, d')" by (rule prod.exhaust)
  show ?thesis
  proof (cases x)
    case (Inl e)
    with l login_Inl have "same_tables d d'" by blast
    with l show ?thesis by (simp add: same_tables_fields [of d d'])
  next
    case (Inr a)
    obtain u f where "d' = after_entry (login_entry cr cfg now fresh u f d) d"
      by (rule login_Inr [OF l [unfolded Inr]]) blast
    with l show ?thesis by simp
  qed
qed

lemma refresh_denylist [simp]: "denylist (snd (refresh cr cfg now fresh jti token d)) = denylist d"
proof -
  obtain x d' where l: "refresh cr cfg now fresh jti token d = (x, d')" by (rule prod.exhaust)
  show ?thesis
  proof (cases x)
    case (Inl e)
    from refresh_Inl [OF l [unfolded Inl]] have "denylist d' = denylist d"
      using same_tables_fields(11) [of d d'] by (elim disjE conjE exE) simp_all
    with l show ?thesis by simp
  next
    case (Inr a)
    obtain c fam where "d' = after_entry (rotated cr cfg now fresh c fam d) (refresh_tokens_update (used_mark now (rt_id c)) d)"
      by (rule refresh_Inr [OF l [unfolded Inr]]) blast
    with l show ?thesis by simp
  qed
qed

definition within_dates :: "int \<Rightarrow> bool" where
  "within_dates t \<longleftrightarrow> 0 \<le> t \<and> t \<le> 8639999999000000"

lemma before_second: "(a::int) div 1000 < k \<Longrightarrow> a < 1000 * k"
  by (simp add: div_less_iff_less_mult mult.commute)

lemma issued_expiry:
  assumes "within_dates t" and "now div 1000 < t div 1000 + 600"
  shows "denied_until now (issued_claims t jti u role fam) = Some (1000 * (t div 1000 + 600))"
proof -
  have "now < 1000 * (t div 1000 + 600)" using assms(2) by (rule before_second)
  moreover have "0 \<le> t div 1000" "1000 * (t div 1000) \<le> t"
    using assms(1) mult_div_mod_eq [of 1000 t] by (simp_all add: within_dates_def pos_imp_zdiv_nonneg_iff)
  then have "\<bar>1000 * (t div 1000 + 600)\<bar> \<le> 8640000000000000" using assms(1) by (simp add: within_dates_def)
  ultimately show ?thesis by (simp add: denied_until_def payload_exp_def date_ms_def Let_def)
qed

lemma logout_lists:
  assumes "jwt_library cr cfg" and "config_ok cfg" and "pg_uuid jti = Some jti" and "within_dates t"
    and "logout cr cfg now (signAccessToken cr cfg t jti u role fam) token d = (Inr x, d')"
  shows "listed jti (1000 * (t div 1000 + 600)) d'"
proof (rule logout_Inr [OF assms(5)])
  fix payload
  assume v: "verifyAccessToken cr cfg now (signAccessToken cr cfg t jti u role fam) = Inr payload"
    and dl: "case denied_until now payload of None \<Rightarrow> denylist d' = denylist d
      | Some e \<Rightarrow> \<exists>u. uuid_param (opt_prop payload ''jti'') = Inr u \<and> denylist d' = deny_row u e (denylist d)"
  from v have p: "payload = issued_claims t jti u role fam" "now div 1000 < t div 1000 + 600"
    unfolding verify_issued [OF assms(1,2) uuid_nonempty [OF assms(3)]] by (simp_all split: if_splits)
  from dl issued_expiry [OF assms(4) p(2), of role fam u jti] assms(3)
  have "denylist d' = deny_row jti (1000 * (t div 1000 + 600)) (denylist d)" by (simp add: p(1) uuid_param_def)
  then show ?thesis by (simp add: listed_def deny_same)
qed

lemma listed_step:
  assumes "jwt_library cr cfg" and "config_ok cfg" and "pg_uuid jti = Some jti" and "within_dates t"
    and "listed jti (1000 * (t div 1000 + 600)) d" and "sole_bearer cr cfg (signAccessToken cr cfg t jti u role fam) jti op"
  shows "listed jti (1000 * (t div 1000 + 600)) (auth_next cr cfg op d)"
proof -
  obtain now q where op: "op = (now, q)" by (rule prod.exhaust)
  show ?thesis
  proof (cases q)
    case (LoginOp i f fr j)
    with assms(5) show ?thesis by (simp only: op auth_next_simps listed_def login_denylist)
  next
    case (RefreshOp tok fr j)
    with assms(5) show ?thesis by (simp only: op auth_next_simps listed_def refresh_denylist)
  next
    case (LogoutOp b tok)
    obtain x d' where l: "logout cr cfg now b tok d = (x, d')" by (rule prod.exhaust)
    have "listed jti (1000 * (t div 1000 + 600)) d'"
    proof (cases x)
      case (Inl e)
      with l logout_Inl assms(5) show ?thesis by blast
    next
      case (Inr y)
      show ?thesis
      proof (cases "b = signAccessToken cr cfg t jti u role fam")
        case True
        with l Inr logout_lists [OF assms(1-4)] show ?thesis by blast
      next
        case False
        show ?thesis
        proof (rule logout_Inr [OF l [unfolded Inr]])
          fix payload
          assume v: "verifyAccessToken cr cfg now b = Inr payload"
            and dl: "case denied_until now payload of None \<Rightarrow> denylist d' = denylist d
              | Some e \<Rightarrow> \<exists>u. uuid_param (opt_prop payload ''jti'') = Inr u \<and> denylist d' = deny_row u e (denylist d)"
          from False assms(6) v have "uuid_param (opt_prop payload ''jti'') \<noteq> Inr jti"
            by (simp add: sole_bearer_def op LogoutOp)
          with dl assms(5) show ?thesis by (auto simp: listed_def deny_other split: option.splits)
        qed
      qed
    qed
    with l show ?thesis by (simp only: op LogoutOp auth_next_simps snd_conv)
  qed
qed

text \<open>C24: after a logout the access token that was presented is refused at any later time and
  whatever requests follow: the denylist holds it until it expires, and then it no longer
  verifies.
\<close>

theorem logout_revokes_access:
  assumes "jwt_library cr cfg" and "config_ok cfg" and "pg_uuid jti = Some jti" and "within_dates t"
    and "logout cr cfg now (signAccessToken cr cfg t jti u role fam) token d = (Inr x, d')"
    and "list_all (sole_bearer cr cfg (signAccessToken cr cfg t jti u role fam) jti) ops"
  shows "fst (canActivate cr cfg t' (Some (''Bearer '' @ signAccessToken cr cfg t jti u role fam))
      (fold (auth_next cr cfg) ops d')) \<in>
    {Inl (Unauthorized ''Access token revoked''), Inl (Unauthorized ''Invalid access token'')}"
proof -
  let ?e = "1000 * (t div 1000 + 600)"
  have "listed jti ?e s \<Longrightarrow> listed jti ?e (fold (auth_next cr cfg) ops s)" for s
    using assms(6)
  proof (induction ops arbitrary: s)
    case (Cons op ops)
    with listed_step [OF assms(1-4), of s u role fam op] show ?case by simp
  qed simp
  then have l: "listed jti ?e (fold (auth_next cr cfg) ops d')" using logout_lists [OF assms(1-5)] by blast
  have "denied (fold (auth_next cr cfg) ops d') jti t'" if "t' div 1000 < t div 1000 + 600"
  proof -
    have "t' < ?e" using that by (rule before_second)
    with l show ?thesis unfolding denied_def listed_def by (intro bexI [OF _ l [unfolded listed_def]]) simp
  qed
  then show ?thesis unfolding guard_issued [OF assms(1-3)] by simp
qed

text \<open>
  The denylist holds that one token: an access token with another identifier is judged as
  before, also one of the same session.
\<close>

lemma logout_denies_only:
  assumes "logout cr cfg now a token d = (Inr x, d')" and "verifyAccessToken cr cfg now a = Inr payload"
    and "uuid_param (opt_prop payload ''jti'') \<noteq> Inr jti"
  shows "denied d' jti t = denied d jti t"
proof (rule logout_Inr [OF assms(1)])
  fix p
  assume v: "verifyAccessToken cr cfg now a = Inr p"
    and dl: "case denied_until now p of None \<Rightarrow> denylist d' = denylist d
      | Some e \<Rightarrow> \<exists>u. uuid_param (opt_prop p ''jti'') = Inr u \<and> denylist d' = deny_row u e (denylist d)"
  show ?thesis
  proof (cases "denied_until now p")
    case (Some e)
    with dl v assms(2,3) obtain w where w: "w \<noteq> jti" "denylist d' = deny_row w e (denylist d)" by auto
    then show ?thesis
      by (auto simp: denied_def deny_row_def set_update_where)
  qed (use dl in \<open>simp add: denied_def\<close>)
qed


section \<open>Login and refresh\<close>

definition credentials_ok :: "'k crypto \<Rightarrow> string \<Rightarrow> user_row \<Rightarrow> bool" where
  "credentials_ok cr p u \<longleftrightarrow> (case u_password_hash u of
       None \<Rightarrow> False
     | Some h \<Rightarrow> h \<noteq> [] \<and> verifyPassword cr (Str p) h = Inr True)"

lemma verifyPassword_Str: "\<exists>b. verifyPassword cr (Str p) h = Inr b"
  by (auto simp: verifyPassword_def Let_def intro: exI [of _ False])

lemma issueTokenPair_Inl:
  assumes "issueTokenPair cr cfg now fresh jti uid role fam d = (Inl e, d')"
  shows "same_tables d d' \<and> is_pg e"
proof -
  let ?ins = "insert_refresh (rt_hash cr cfg fresh) fam uid (now + ac_refreshTokenTtlSeconds cfg * 1000) d"
  obtain x d1 where x: "?ins = (x, d1)" by (rule prod.exhaust)
  with assms have "x = Inl e" "d' = d1" by (cases x; simp add: issueTokenPair_run)+
  with x insert_refresh_Inl show ?thesis by blast
qed

lemma issueTokenPair_outcome:
  assumes "config_ok cfg" and i: "issueTokenPair cr cfg now fresh jti uid role fam d = (r, d')"
  shows "case r of
      Inl err \<Rightarrow> same_tables d d' \<and> (\<exists>x. err = Pg x)
    | Inr a \<Rightarrow> \<exists>n. a = \<lparr>ar_accessToken = signAccessToken cr cfg now jti uid role fam, ar_refreshToken = fresh\<rparr> \<and>
        d' = d\<lparr>refresh_tokens := refresh_tokens d @ [n], seqs := (seqs d)\<lparr>sq_refresh := sq_refresh (seqs d) + 1\<rparr>\<rparr> \<and>
        live n \<and> rt_token_hash n = cr_hmac cr (ac_refreshTokenPepper cfg) fresh \<and> rt_user_id n = uid \<and>
        rt_expires_at n = now + 2592000000"
proof (cases r)
  case (Inl e)
  with i have "same_tables d d' \<and> is_pg e" using issueTokenPair_Inl by blast
  with Inl show ?thesis by (cases e) simp_all
next
  case (Inr a)
  obtain n where n: "insert_refresh (rt_hash cr cfg fresh) fam uid (now + ac_refreshTokenTtlSeconds cfg * 1000) d = (Inr n, d')"
    "a = \<lparr>ar_accessToken = signAccessToken cr cfg now jti uid role fam, ar_refreshToken = fresh\<rparr>"
    using i Inr by (auto simp: issueTokenPair_run split: prod.splits sum.splits)
  then have "live n \<and> rt_token_hash n = rt_hash cr cfg fresh \<and> rt_user_id n = uid \<and> rt_expires_at n = now + 2592000000 \<and>
      d' = after_entry n d"
    using assms(1) by (auto simp: insert_refresh_Inr config_ok_def)
  with n(2) Inr show ?thesis by (auto simp: after_entry_def)
qed

text \<open>A user with that address is the only one.\<close>

lemma login_run_user:
  assumes "obj_field kvs ''email'' = Str e" and "obj_field kvs ''password'' = Str p"
    and "cr_bind cr (Str e) = Some e" and "first_where (\<lambda>u. u_email u = e) (users d) = Some u"
  shows "login cr cfg now fam fresh jti (Obj kvs) d =
    (if credentials_ok cr p u then issueTokenPair cr cfg now fresh jti (u_id u) (u_role u) fam d
     else (Inl (Unauthorized ''Invalid credentials''), d))"
proof -
  obtain b where "\<And>h. u_password_hash u = Some h \<Longrightarrow> verifyPassword cr (Str p) h = Inr b"
    using verifyPassword_Str [of cr p] by (cases "u_password_hash u") auto
  with assms show ?thesis
    by (auto simp: login_run user_by_email_def credentials_ok_def split: option.splits)
qed


text \<open>A successful refresh found a live token that had not expired, marked it used, stored one
  new live token of the same family and user for thirty days, answered with it and with an
  access token of that user in the role it has now, and changed nothing else.
\<close>

theorem refresh_rotates:
  assumes "auth_inv d" and "config_ok cfg" and "refresh cr cfg now fresh jti (Str t) d = (Inr a, d')"
  shows "\<exists>c n u. c \<in> set (refresh_tokens d) \<and> rt_token_hash c = cr_hmac cr (ac_refreshTokenPepper cfg) t \<and> live c \<and>
    now < rt_expires_at c \<and> u \<in> set (users d) \<and> u_id u = rt_user_id c \<and>
    a = \<lparr>ar_accessToken = signAccessToken cr cfg now jti (u_id u) (u_role u) (rt_family_id c), ar_refreshToken = fresh\<rparr> \<and>
    d' = d\<lparr>refresh_tokens :=
             update_where (\<lambda>r. rt_id r = rt_id c) (\<lambda>r. r\<lparr>rt_used_at := Some now\<rparr>) (refresh_tokens d) @ [n],
           seqs := (seqs d)\<lparr>sq_refresh := sq_refresh (seqs d) + 1\<rparr>\<rparr> \<and>
    live n \<and> rt_token_hash n = cr_hmac cr (ac_refreshTokenPepper cfg) fresh \<and> rt_family_id n = rt_family_id c \<and>
    rt_user_id n = rt_user_id c \<and> rt_expires_at n = now + 2592000000"
proof -
  obtain s c role fam where c: "Str t = Str s" "select_refresh (rt_hash cr cfg s) d = Some (c, role)" "active now c"
    "rt_used_at c = None" "pg_uuid (rt_family_id c) = Some fam"
    "d' = after_entry (rotated cr cfg now fresh c fam d) (refresh_tokens_update (used_mark now (rt_id c)) d)"
    "a = \<lparr>ar_accessToken = signAccessToken cr cfg now jti (rt_user_id c) role (rt_family_id c), ar_refreshToken = fresh\<rparr>"
    by (rule refresh_Inr [OF assms(3)]) blast
  from select_refresh_Some [OF c(2)] obtain u where u: "c \<in> set (refresh_tokens d)" "rt_token_hash c = rt_hash cr cfg t"
    "u \<in> set (users d)" "u_id u = rt_user_id c" "role = u_role u" using c(1) by auto
  with assms(1) c(5) have fam: "fam = rt_family_id c" by (auto simp: auth_inv_def families_canonical_def)
  show ?thesis
    by (rule exI [of _ c], rule exI [of _ "rotated cr cfg now fresh c fam d"], rule exI [of _ u])
      (use c(3,4) u assms(2) in \<open>simp add: c(6,7) fam active_def live_def rotated_def after_entry_def used_mark_def config_ok_def\<close>)
qed

section \<open>Examples\<close>

definition sample_user :: user_row where
  "sample_user = \<lparr>u_id = 5, u_email = ''b@x'', u_full_name = ''B'', u_balance = 0,
     u_password_hash = Some (hashPassword sample_crypto [7, 9] ''pw''), u_role = Buyer\<rparr>"

definition sample_token :: refresh_row where
  "sample_token = \<lparr>rt_id = 1, rt_token_hash = ''r0'', rt_family_id = uuid_1, rt_user_id = 5, rt_used_at = None,
     rt_revoked_at = None, rt_expires_at = 100000\<rparr>"

definition sample_auth_db :: db where
  "sample_auth_db = empty_db\<lparr>users := [sample_user], refresh_tokens := [sample_token],
     seqs := (seqs empty_db)\<lparr>sq_refresh := 1\<rparr>\<rparr>"

lemma sample_auth_inv: "auth_inv sample_auth_db"
proof -
  have "wf_db sample_auth_db"
    by (simp add: wf_db_def sample_auth_db_def empty_db_def users_ok_def user_ok_def user_checks_def sample_user_def pg_trim_def
        products_ok_def orders_ok_def items_ok_def tasks_ok_def outbox_ok_def processed_ok_def effects_ok_def
        idem_ok_def refresh_ok_def denylist_ok_def files_ok_def user_ids_def sample_token_def int4_def)
  then show ?thesis
    by (simp add: auth_inv_def families_ok_def families_canonical_def sample_auth_db_def sample_token_def pg_uuid_examples)
qed

abbreviation sample_refresh :: "string \<Rightarrow> string \<Rightarrow> auth_op" where
  "sample_refresh t t' \<equiv> RefreshOp (Str t) t' uuid_2"

lemma guarded_refreshes: "guarded (auth_next cr cfg) fresh_family [(t, RefreshOp a b c)] d"
  "guarded (auth_next cr cfg) fresh_family [(t, RefreshOp a b c), (t', RefreshOp a' b' c')] d"
  "guarded (auth_next cr cfg) fresh_family [(t, RefreshOp a b c), (t', RefreshOp a' b' c'), (t'', RefreshOp a'' b'' c'')] d"
  by (simp_all del: auth_step.simps)


definition rotated_sample :: refresh_row where
  "rotated_sample = \<lparr>rt_id = 2, rt_token_hash = ''r1'', rt_family_id = uuid_1, rt_user_id = 5, rt_used_at = None,
     rt_revoked_at = None, rt_expires_at = 2592000010\<rparr>"

abbreviation sample_next :: "int \<times> auth_op \<Rightarrow> db \<Rightarrow> db" where
  "sample_next \<equiv> auth_next sample_crypto sample_config"

lemma sample_first:
  "refresh_tokens (sample_next (10, sample_refresh ''r0'' ''r1'') sample_auth_db) =
     [sample_token\<lparr>rt_used_at := Some 10\<rparr>, rotated_sample]"
  "fst (auth_step sample_crypto sample_config (10, sample_refresh ''r0'' ''r1'') sample_auth_db) \<noteq>
     Inl (Unauthorized ''Refresh token reuse detected'')"
  "case fst (auth_step sample_crypto sample_config (10, sample_refresh ''r0'' ''r1'') sample_auth_db) of Inl _ \<Rightarrow> False | Inr _ \<Rightarrow> True"
  by code_simp+


lemma auth_refines_families_witness:
  "family_step [sample_token] [sample_token\<lparr>rt_used_at := Some 10\<rparr>, rotated_sample]"
  using auth_refines_families [OF sample_auth_inv, of "(10, sample_refresh ''r0'' ''r1'')" sample_crypto sample_config]
  unfolding sample_first(1) by (simp add: sample_auth_db_def)

lemma one_live_token_witness:
  "live rotated_sample \<and> distinct (map rt_token_hash [sample_token\<lparr>rt_used_at := Some 10\<rparr>, rotated_sample])"
proof -
  have l: "live rotated_sample" by (simp add: live_def rotated_sample_def)
  let ?d = "fold sample_next [(10, sample_refresh ''r0'' ''r1'')] sample_auth_db"
  have t: "refresh_tokens ?d = [sample_token\<lparr>rt_used_at := Some 10\<rparr>, rotated_sample]"
    using sample_first(1) by (simp del: auth_step.simps)
  have "rotated_sample \<in> set (refresh_tokens ?d)" unfolding t by simp
  from one_live_token [OF sample_auth_inv guarded_refreshes(1) refl this this l l refl] l show ?thesis
    unfolding t by blast
qed

lemma refresh_single_use_witness:
  "fst (auth_step sample_crypto sample_config (20, sample_refresh ''r0'' ''r2'')
      (sample_next (10, sample_refresh ''r0'' ''r1'') sample_auth_db)) \<in>
    {Inl (Unauthorized ''Refresh token is not active''), Inl (Unauthorized ''Refresh token reuse detected'')}"
proof -
  let ?ops = "[(10, sample_refresh ''r0'' ''r1''), (20, sample_refresh ''r0'' ''r2'')]"
  obtain a where a: "fst (auth_step sample_crypto sample_config (10, sample_refresh ''r0'' ''r1'') sample_auth_db) = Inr a"
    using sample_first(3) by (auto simp del: auth_step.simps split: sum.splits)
  have "fst (auth_step sample_crypto sample_config (?ops ! 1) (fold sample_next (take 1 ?ops) sample_auth_db)) \<in>
    {Inl (Unauthorized ''Refresh token is not active''), Inl (Unauthorized ''Refresh token reuse detected'')}"
    by (rule refresh_single_use [where i = 0 and j = 1 and t = "''r0''" and a = a and now = 10 and now' = 20
          and fresh = "''r1''" and fresh' = "''r2''" and jti = uuid_2 and jti' = uuid_2])
      (simp_all add: sample_auth_inv guarded_refreshes a del: auth_step.simps)
  then show ?thesis by (simp del: auth_step.simps)
qed

lemma sample_reuse:
  "fst (auth_step sample_crypto sample_config (20, sample_refresh ''r0'' ''r2'')
      (sample_next (10, sample_refresh ''r0'' ''r1'') sample_auth_db)) = Inl (Unauthorized ''Refresh token reuse detected'')"
  "refresh_tokens (sample_next (20, sample_refresh ''r0'' ''r2'') (sample_next (10, sample_refresh ''r0'' ''r1'') sample_auth_db)) =
     [sample_token\<lparr>rt_used_at := Some 10, rt_revoked_at := Some 20\<rparr>, rotated_sample\<lparr>rt_revoked_at := Some 20\<rparr>]"
  by code_simp+



lemma refresh_rotates_witness:
  "\<exists>a d'. refresh sample_crypto sample_config 10 ''r1'' uuid_2 (Str ''r0'') sample_auth_db = (Inr a, d') \<and>
     ar_refreshToken a = ''r1''"
proof -
  have "case refresh sample_crypto sample_config 10 ''r1'' uuid_2 (Str ''r0'') sample_auth_db of
      (Inl _, _) \<Rightarrow> False | (Inr _, _) \<Rightarrow> True" by code_simp
  then obtain a d' where r: "refresh sample_crypto sample_config 10 ''r1'' uuid_2 (Str ''r0'') sample_auth_db = (Inr a, d')"
    by (auto split: prod.splits sum.splits)
  from refresh_rotates [OF sample_auth_inv sample_config_ok r] have "ar_refreshToken a = ''r1''" by auto
  with r show ?thesis by blast
qed

lemma logout_revokes_access_witness:
  "\<exists>x d'. logout sample_crypto sample_config 50 (signAccessToken sample_crypto sample_config 10 uuid_2 5 Buyer uuid_1) (Str ''r0'')
      sample_auth_db = (Inr x, d') \<and>
    fst (canActivate sample_crypto sample_config 60
      (Some (''Bearer '' @ signAccessToken sample_crypto sample_config 10 uuid_2 5 Buyer uuid_1)) d') \<in>
    {Inl (Unauthorized ''Access token revoked''), Inl (Unauthorized ''Invalid access token'')}"
proof -
  let ?a = "signAccessToken sample_crypto sample_config 10 uuid_2 5 Buyer uuid_1"
  have "case logout sample_crypto sample_config 50 ?a (Str ''r0'') sample_auth_db of
      (Inl _, _) \<Rightarrow> False | (Inr _, _) \<Rightarrow> True" by code_simp
  then obtain x d' where l: "logout sample_crypto sample_config 50 ?a (Str ''r0'') sample_auth_db = (Inr x, d')"
    by (auto split: prod.splits sum.splits)
  have "within_dates 10" by (simp add: within_dates_def)
  from logout_revokes_access [OF sample_jwt sample_config_ok pg_uuid_examples(2) this l, of "[]" 60] l show ?thesis
    by (simp del: insert_iff)
qed

end
