(* ===== verification/Broker.thy ===== *)
theory Broker
  imports DbInvariant
begin

text \<open>
  The messaging side of the program: the topology \<open>src/rabbitmq/topology.ts\<close> declares,
  the order.placed events of \<open>src/outbox/order-placed-event.ts\<close> and
  \<open>src/checkout.ts\<close>, and the publisher of \<open>src/rabbitmq/order-placed.publisher.ts\<close>.
  RabbitMQ itself is a parameter: what a confirm channel does with a message is a function
  \<open>('b, unit) cmd\<close> on a broker state \<open>'b\<close> of its own.
\<close>

section \<open>Topology\<close>

definition SHOP_EVENTS_EXCHANGE :: string where "SHOP_EVENTS_EXCHANGE = ''shop.events''"
definition ORDER_PLACED_ROUTING_KEY :: string where "ORDER_PLACED_ROUTING_KEY = ''order.placed''"
definition ORDER_PLACED_QUEUE :: string where "ORDER_PLACED_QUEUE = ''shop.order.placed''"
definition SHOP_EVENTS_DLX :: string where "SHOP_EVENTS_DLX = ''shop.events.dlx''"
definition ORDER_PLACED_DLQ_ROUTING_KEY :: string where
  "ORDER_PLACED_DLQ_ROUTING_KEY = ''order.placed.dead''"
definition ORDER_PLACED_DLQ :: string where "ORDER_PLACED_DLQ = ''shop.order.placed.dlq''"
definition ORDER_PLACED_PREFETCH :: nat where "ORDER_PLACED_PREFETCH = 10"

lemmas topology_names = SHOP_EVENTS_EXCHANGE_def ORDER_PLACED_ROUTING_KEY_def ORDER_PLACED_QUEUE_def
  SHOP_EVENTS_DLX_def ORDER_PLACED_DLQ_ROUTING_KEY_def ORDER_PLACED_DLQ_def

record queue_decl =
  q_name :: string
  q_durable :: bool
  q_type :: string
  q_dead_letter :: "(string \<times> string) option"

record topology =
  tp_exchanges :: "(string \<times> string \<times> bool) list"
  tp_queues :: "queue_decl list"
  tp_bindings :: "(string \<times> string \<times> string) list"
  tp_prefetch :: nat

text \<open>Declaring again what is there already changes nothing, as the broker promises.\<close>

definition add_once :: "'a \<Rightarrow> 'a list \<Rightarrow> 'a list" where
  "add_once x xs = (if x \<in> set xs then xs else xs @ [x])"

definition assert_exchange :: "string \<Rightarrow> string \<Rightarrow> topology \<Rightarrow> topology" where
  "assert_exchange ex kind t = t\<lparr>tp_exchanges := add_once (ex, kind, True) (tp_exchanges t)\<rparr>"

definition assert_queue :: "string \<Rightarrow> (string \<times> string) option \<Rightarrow> topology \<Rightarrow> topology" where
  "assert_queue q dl t = t\<lparr>tp_queues := add_once
     \<lparr>q_name = q, q_durable = True, q_type = ''quorum'', q_dead_letter = dl\<rparr> (tp_queues t)\<rparr>"

definition bind_queue :: "string \<Rightarrow> string \<Rightarrow> string \<Rightarrow> topology \<Rightarrow> topology" where
  "bind_queue q ex key t = t\<lparr>tp_bindings := add_once (q, ex, key) (tp_bindings t)\<rparr>"

definition assertOrderPlacedTopology :: "topology \<Rightarrow> topology" where
  "assertOrderPlacedTopology t0 =
     (let t1 = assert_exchange SHOP_EVENTS_EXCHANGE ''topic'' t0;
          t2 = assert_exchange SHOP_EVENTS_DLX ''topic'' t1;
          t3 = assert_queue ORDER_PLACED_DLQ None t2;
          t4 = bind_queue ORDER_PLACED_DLQ SHOP_EVENTS_DLX ORDER_PLACED_DLQ_ROUTING_KEY t3;
          t5 = assert_queue ORDER_PLACED_QUEUE
                 (Some (SHOP_EVENTS_DLX, ORDER_PLACED_DLQ_ROUTING_KEY)) t4;
          t6 = bind_queue ORDER_PLACED_QUEUE SHOP_EVENTS_EXCHANGE ORDER_PLACED_ROUTING_KEY t5
      in t6\<lparr>tp_prefetch := ORDER_PLACED_PREFETCH\<rparr>)"

definition empty_topology :: topology where
  "empty_topology = \<lparr>tp_exchanges = [], tp_queues = [], tp_bindings = [], tp_prefetch = 0\<rparr>"

text \<open>
  Topic routing: a binding key is compared word by word, \<open>*\<close> standing for one word and
  \<open>#\<close> for any number.
\<close>

fun topic_match :: "string list \<Rightarrow> string list \<Rightarrow> bool" where
  "topic_match [] ws = (ws = [])"
| "topic_match (p # ps) [] = (p = ''#'' \<and> topic_match ps [])"
| "topic_match (p # ps) (w # ws) =
     (if p = ''#'' then topic_match ps (w # ws) \<or> topic_match (p # ps) ws
      else (p = ''*'' \<or> p = w) \<and> topic_match ps ws)"

definition route :: "topology \<Rightarrow> string \<Rightarrow> string \<Rightarrow> string list" where
  "route t ex key =
     map fst (filter (\<lambda>(q, e, k). e = ex \<and> topic_match (js_split CHR ''.'' k) (js_split CHR ''.'' key))
       (tp_bindings t))"

text \<open>Where a message rejected from a queue without requeueing goes.\<close>

definition dead_letter :: "topology \<Rightarrow> string \<Rightarrow> string list" where
  "dead_letter t q = (case first_where (\<lambda>d. q_name d = q) (tp_queues t) of
       None \<Rightarrow> []
     | Some d \<Rightarrow> (case q_dead_letter d of None \<Rightarrow> [] | Some (ex, key) \<Rightarrow> route t ex key))"

section \<open>The order.placed event\<close>

definition ORDER_PLACED_TYPE :: string where "ORDER_PLACED_TYPE = ''order.placed''"

definition order_event_id :: "int \<Rightarrow> string" where
  "order_event_id order_id = ''order.placed:'' @ show_int order_id"

lemma order_event_id_inject [simp]: "order_event_id i = order_event_id j \<longleftrightarrow> i = j"
  by (simp add: order_event_id_def)

text \<open>
  \<open>toOrderPlacedEvent\<close>, as the JSON object it is stored and sent as. The time stamp
  string is an argument; an item is a product identifier and a quantity.
\<close>

definition toOrderPlacedEvent ::
  "string \<Rightarrow> int \<Rightarrow> int \<Rightarrow> (int \<times> int) list \<Rightarrow> int \<Rightarrow> string \<Rightarrow> jsval" where
  "toOrderPlacedEvent event_id order_id user_id items amount occurred_at = Obj
     [(''eventId'', Str event_id),
      (''type'', Str ORDER_PLACED_TYPE),
      (''occurredAt'', Str occurred_at),
      (''data'', Obj
        [(''orderId'', Num (IntN order_id)),
         (''userId'', Num (IntN user_id)),
         (''items'', Arr (map (\<lambda>(p, q). Obj [(''productId'', Num (IntN p)), (''quantity'', Num (IntN q))]) items)),
         (''totalAmount'', Num (IntN amount))])]"

section \<open>The publisher\<close>

record broker_message =
  bm_exchange :: string
  bm_routing_key :: string
  bm_content :: jsval
  bm_content_type :: string
  bm_persistent :: bool
  bm_message_id :: jsval
  bm_type :: jsval

definition order_placed_message :: "jsval \<Rightarrow> broker_message" where
  "order_placed_message event =
     \<lparr>bm_exchange = SHOP_EVENTS_EXCHANGE, bm_routing_key = ORDER_PLACED_ROUTING_KEY,
      bm_content = event, bm_content_type = ''application/json'', bm_persistent = True,
      bm_message_id = opt_prop event ''eventId'', bm_type = opt_prop event ''type''\<rparr>"

text \<open>
  \<open>publishOrderPlaced\<close>: the broker URL must be set; the message is published on a
  confirm channel and the call returns when the broker confirms it and throws when it does
  not. \<open>confirm\<close> is that exchange with the broker.
\<close>

definition publishOrderPlaced ::
  "string option \<Rightarrow> (broker_message \<Rightarrow> ('b, unit) cmd) \<Rightarrow> jsval \<Rightarrow> ('b, unit) cmd" where
  "publishOrderPlaced broker_url confirm event =
     (if broker_url = None \<or> broker_url = Some [] then cmd_throw (JsError ''BROKER_URL is required'')
      else confirm (order_placed_message event))"

section \<open>Routing of order.placed\<close>

lemma topic_match_refl_plain:
  "\<forall>w \<in> set ws. w \<noteq> ''#'' \<Longrightarrow> topic_match ws ws' \<longleftrightarrow>
     length ws = length ws' \<and> (\<forall>(p, w) \<in> set (zip ws ws'). p = ''*'' \<or> p = w)"
  by (induction ws ws' rule: topic_match.induct) auto

text \<open>
  Routing in the declared topology: an order.placed event goes to the work queue and
  nowhere else, a message rejected there goes to the dead letter queue and nowhere else,
  and a message rejected from that queue is dropped.
\<close>

lemma topology_value:
  "assertOrderPlacedTopology empty_topology =
     \<lparr>tp_exchanges = [(''shop.events'', ''topic'', True), (''shop.events.dlx'', ''topic'', True)],
      tp_queues = [
        \<lparr>q_name = ''shop.order.placed.dlq'', q_durable = True, q_type = ''quorum'', q_dead_letter = None\<rparr>,
        \<lparr>q_name = ''shop.order.placed'', q_durable = True, q_type = ''quorum'',
         q_dead_letter = Some (''shop.events.dlx'', ''order.placed.dead'')\<rparr>],
      tp_bindings = [(''shop.order.placed.dlq'', ''shop.events.dlx'', ''order.placed.dead''),
                     (''shop.order.placed'', ''shop.events'', ''order.placed'')],
      tp_prefetch = 10\<rparr>"
  by (simp add: assertOrderPlacedTopology_def empty_topology_def assert_exchange_def assert_queue_def
      bind_queue_def add_once_def topology_names ORDER_PLACED_PREFETCH_def)

lemma route_value:
  "route (assertOrderPlacedTopology empty_topology) ''shop.events'' ''order.placed'' = [''shop.order.placed'']"
  "route (assertOrderPlacedTopology empty_topology) ''shop.events.dlx'' ''order.placed.dead''
     = [''shop.order.placed.dlq'']"
  by (simp_all add: route_def topology_value)

lemma dead_letter_value:
  "dead_letter (assertOrderPlacedTopology empty_topology) ''shop.order.placed'' = [''shop.order.placed.dlq'']"
  "dead_letter (assertOrderPlacedTopology empty_topology) ''shop.order.placed.dlq'' = []"
  by (simp_all add: dead_letter_def route_value, simp_all add: topology_value route_def)

lemma add_once_idem: "add_once x (add_once x xs) = add_once x xs"
  by (simp add: add_once_def)

end
