(* ===== verification/Checkout.thy ===== *)
theory Checkout
  imports Broker
begin

text \<open>
  \<open>src/checkout.ts\<close>: buying a product in one transaction (stock, balance, order, order
  item, post-processing task) and publishing the order.placed event after the commit. The
  guarded updates are single statements, so concurrent checkouts of a product queue on its
  row lock and the model runs them one after the other.
\<close>

section \<open>The operations\<close>

text \<open>A \<open>bigint\<close> identifier travels as its decimal string; the model keeps the integer.\<close>

record checkout_input =
  ci_user_id :: int
  ci_product_id :: int
  ci_quantity :: jsval

record checkout_result =
  cr_order_id :: int
  cr_total_amount :: int
  cr_remaining_stock :: int

text \<open>\<open>UPDATE \<dots> SET \<dots> WHERE \<dots> RETURNING *\<close> on a row selected by its key.\<close>

definition take_stock :: "int \<Rightarrow> int \<Rightarrow> (db, product_row option) cmd" where
  "take_stock quantity product_id =
     cmd_bind (int4_param quantity) (\<lambda>_.
     cmd_bind (int8_param product_id) (\<lambda>_.
     let hit = (\<lambda>r. p_id r = product_id \<and> quantity \<le> p_stock_quantity r);
         upd = (\<lambda>r. r\<lparr>p_stock_quantity := p_stock_quantity r - quantity\<rparr>)
     in (\<lambda>d. (Inr (map_option upd (first_where hit (products d))),
              products_update (update_where hit upd) d))))"

definition take_balance :: "int \<Rightarrow> int \<Rightarrow> (db, user_row option) cmd" where
  "take_balance amount user_id =
     cmd_bind (int4_param amount) (\<lambda>_.
     cmd_bind (int8_param user_id) (\<lambda>_.
     let hit = (\<lambda>r. u_id r = user_id \<and> amount \<le> u_balance r);
         upd = (\<lambda>r. r\<lparr>u_balance := u_balance r - amount\<rparr>)
     in (\<lambda>d. (Inr (map_option upd (first_where hit (users d))),
              users_update (update_where hit upd) d))))"

definition executeCheckout :: "int \<Rightarrow> int \<Rightarrow> int \<Rightarrow> (db, checkout_result) cmd" where
  "executeCheckout user_id product_id quantity =
     cmd_bind (take_stock quantity product_id) (\<lambda>product_opt.
     case product_opt of
       None \<Rightarrow> cmd_throw InsufficientStock
     | Some product \<Rightarrow>
         let totalAmount = p_price product * quantity
         in cmd_bind (take_balance totalAmount user_id) (\<lambda>user_opt.
            case user_opt of
              None \<Rightarrow> cmd_throw InsufficientBalance
            | Some user \<Rightarrow>
                cmd_bind (insert_order user_id totalAmount) (\<lambda>order.
                cmd_bind (insert_order_item (o_id order) product_id quantity (p_price product)) (\<lambda>_.
                cmd_bind (insert_task (o_id order)) (\<lambda>_.
                cmd_return \<lparr>cr_order_id = o_id order, cr_total_amount = totalAmount,
                            cr_remaining_stock = p_stock_quantity product\<rparr>)))))"

definition createOrderPlacedEvent :: "string \<Rightarrow> int \<Rightarrow> int \<Rightarrow> int \<Rightarrow> checkout_result \<Rightarrow> jsval" where
  "createOrderPlacedEvent occurred_at user_id product_id quantity res = Obj
     [(''eventId'', Str (order_event_id (cr_order_id res))),
      (''type'', Str ORDER_PLACED_TYPE),
      (''occurredAt'', Str occurred_at),
      (''data'', Obj
        [(''orderId'', Str (show_int (cr_order_id res))),
         (''userId'', Str (show_int user_id)),
         (''productId'', Str (show_int product_id)),
         (''quantity'', Num (IntN quantity)),
         (''totalAmount'', Num (IntN (cr_total_amount res)))])]"

definition checkout ::
  "(jsval \<Rightarrow> ('b, unit) cmd) \<Rightarrow> string \<Rightarrow> checkout_input \<Rightarrow> (db \<times> 'b, checkout_result) cmd" where
  "checkout publish occurred_at inp =
     (case integer_of (ci_quantity inp) of
        None \<Rightarrow> cmd_throw (JsError ''Quantity must be a positive integer'')
      | Some quantity \<Rightarrow>
          if quantity \<le> 0 then cmd_throw (JsError ''Quantity must be a positive integer'')
          else
            cmd_bind (on_fst (transaction
              (executeCheckout (ci_user_id inp) (ci_product_id inp) quantity))) (\<lambda>res.
            cmd_bind (on_snd (publish (createOrderPlacedEvent occurred_at (ci_user_id inp)
              (ci_product_id inp) quantity res))) (\<lambda>_.
            cmd_return res)))"

section \<open>The guarded updates\<close>

lemma take_stock_Inr:
  "take_stock q pid d = (Inr x, d') \<longleftrightarrow> int4 q \<and> int8 pid \<and>
     x = map_option (\<lambda>r. r\<lparr>p_stock_quantity := p_stock_quantity r - q\<rparr>)
           (first_where (\<lambda>r. p_id r = pid \<and> q \<le> p_stock_quantity r) (products d)) \<and>
     d' = d\<lparr>products := update_where (\<lambda>r. p_id r = pid \<and> q \<le> p_stock_quantity r)
           (\<lambda>r. r\<lparr>p_stock_quantity := p_stock_quantity r - q\<rparr>) (products d)\<rparr>"
  by (cases d) (auto simp: take_stock_def Let_def cmd_bind_Inr_iff cmd_simps)

lemma take_balance_Inr:
  "take_balance a uid d = (Inr x, d') \<longleftrightarrow> int4 a \<and> int8 uid \<and>
     x = map_option (\<lambda>r. r\<lparr>u_balance := u_balance r - a\<rparr>)
           (first_where (\<lambda>r. u_id r = uid \<and> a \<le> u_balance r) (users d)) \<and>
     d' = d\<lparr>users := update_where (\<lambda>r. u_id r = uid \<and> a \<le> u_balance r)
           (\<lambda>r. r\<lparr>u_balance := u_balance r - a\<rparr>) (users d)\<rparr>"
  by (cases d) (auto simp: take_balance_def Let_def cmd_bind_Inr_iff cmd_simps)

text \<open>A guarded update on a key is the update of that one row, if the row passes the guard.\<close>

lemma guarded_update:
  assumes "distinct (map k rs)" and "first_where (\<lambda>r. k r = v \<and> g r) rs = Some r"
  shows "r \<in> set rs \<and> k r = v \<and> g r \<and>
         update_where (\<lambda>r. k r = v \<and> g r) f rs = update_where (\<lambda>x. k x = k r) f rs"
proof -
  have r: "r \<in> set rs \<and> k r = v \<and> g r" using first_where_SomeD [OF assms(2)] .
  have "x = r" if "x \<in> set rs" "k x = v" for x
    using that r assms(1) by (auto simp: distinct_map inj_on_def)
  then have "update_where (\<lambda>r. k r = v \<and> g r) f rs = update_where (\<lambda>x. k x = k r) f rs"
    using r by (auto simp: update_where_def)
  with r show ?thesis by blast
qed

lemma take_stock_wf:
  assumes "0 < q" shows "cmd_keeps wf_db (take_stock q pid)"
  unfolding take_stock_def Let_def
proof (intro cmd_keeps_param, unfold cmd_keeps_def, intro allI impI)
  fix d
  assume "wf_db d"
  then show "wf_db (snd (Inr (map_option (\<lambda>r. r\<lparr>p_stock_quantity := p_stock_quantity r - q\<rparr>)
      (first_where (\<lambda>r. p_id r = pid \<and> q \<le> p_stock_quantity r) (products d))),
      products_update (update_where (\<lambda>r. p_id r = pid \<and> q \<le> p_stock_quantity r)
        (\<lambda>r. r\<lparr>p_stock_quantity := p_stock_quantity r - q\<rparr>)) d))"
    using assms
    by (simp, elim wf_update_products)
      (auto simp: product_ok_def product_checks_def int4_def split: if_splits)
qed

lemma take_balance_wf:
  assumes "0 \<le> a" shows "cmd_keeps wf_db (take_balance a uid)"
  unfolding take_balance_def Let_def
proof (intro cmd_keeps_param, unfold cmd_keeps_def, intro allI impI)
  fix d
  assume "wf_db d"
  then show "wf_db (snd (Inr (map_option (\<lambda>r. r\<lparr>u_balance := u_balance r - a\<rparr>)
      (first_where (\<lambda>r. u_id r = uid \<and> a \<le> u_balance r) (users d))),
      users_update (update_where (\<lambda>r. u_id r = uid \<and> a \<le> u_balance r)
        (\<lambda>r. r\<lparr>u_balance := u_balance r - a\<rparr>)) d))"
    using assms
    by (simp, elim wf_update_users)
      (auto simp: user_ok_def user_checks_def int4_def split: if_splits)
qed

lemma take_stock_result:
  assumes "wf_db d" and "take_stock q pid d = (Inr (Some p), d')"
  shows "0 < p_price p"
proof -
  from assms(2) obtain r where r: "r \<in> set (products d)" and p: "p = r\<lparr>p_stock_quantity := p_stock_quantity r - q\<rparr>"
    by (auto simp: take_stock_Inr dest!: first_where_SomeD sym [of "Some p"])
  from r assms(1) have "product_ok r" by (simp add: wf_db_def products_ok_def)
  with p show ?thesis by (auto simp: product_ok_def product_checks_def split: if_splits)
qed

lemma executeCheckout_wf:
  assumes "0 < q" shows "cmd_keeps wf_db (executeCheckout uid pid q)"
  unfolding executeCheckout_def Let_def
proof (rule cmd_keeps_bind_result)
  show "cmd_keeps wf_db (take_stock q pid)" using assms by (rule take_stock_wf)
next
  fix d x d'
  assume "wf_db d" and "take_stock q pid d = (Inr x, d')"
  then show "\<forall>p. x = Some p \<longrightarrow> 0 < p_price p" using take_stock_result by blast
next
  fix x :: "product_row option"
  assume x: "\<forall>p. x = Some p \<longrightarrow> 0 < p_price p"
  have pay: "cmd_keeps wf_db (take_balance (p_price p * q) uid)" if "x = Some p" for p
    using that x assms by (intro take_balance_wf) simp
  show "cmd_keeps wf_db (case x of None \<Rightarrow> cmd_throw InsufficientStock
     | Some product \<Rightarrow> cmd_bind (take_balance (p_price product * q) uid) (\<lambda>user_opt.
         case user_opt of None \<Rightarrow> cmd_throw InsufficientBalance
         | Some user \<Rightarrow> cmd_bind (insert_order uid (p_price product * q)) (\<lambda>order.
             cmd_bind (insert_order_item (o_id order) pid q (p_price product)) (\<lambda>_.
             cmd_bind (insert_task (o_id order)) (\<lambda>_.
             cmd_return \<lparr>cr_order_id = o_id order, cr_total_amount = p_price product * q,
                         cr_remaining_stock = p_stock_quantity product\<rparr>)))))"
    by (intro keeps_intro pay)
qed

section \<open>What a checkout does\<close>

text \<open>The state after a successful checkout of \<open>q\<close> units of \<open>p\<close> by \<open>u\<close>.\<close>

definition after_checkout :: "product_row \<Rightarrow> user_row \<Rightarrow> int \<Rightarrow> db \<Rightarrow> db" where
  "after_checkout p u q d =
     d\<lparr>products := update_where (\<lambda>r. p_id r = p_id p) (\<lambda>r. r\<lparr>p_stock_quantity := p_stock_quantity r - q\<rparr>) (products d),
       users := update_where (\<lambda>r. u_id r = u_id u) (\<lambda>r. r\<lparr>u_balance := u_balance r - p_price p * q\<rparr>) (users d),
       orders := orders d @ [\<lparr>o_id = sq_orders (seqs d) + 1, o_user_id = u_id u, o_status = Created,
                               o_total_amount = p_price p * q\<rparr>],
       order_items := order_items d @ [\<lparr>oi_id = sq_items (seqs d) + 1, oi_order_id = sq_orders (seqs d) + 1,
                               oi_product_id = p_id p, oi_quantity = q, oi_unit_price = p_price p\<rparr>],
       tasks := tasks d @ [\<lparr>t_id = sq_tasks (seqs d) + 1, t_order_id = sq_orders (seqs d) + 1,
                            t_type = ''order_confirmation'', t_status = TaskPending, t_processed = 0,
                            t_worker_id = None\<rparr>],
       seqs := (seqs d)\<lparr>sq_orders := sq_orders (seqs d) + 1, sq_items := sq_items (seqs d) + 1,
                        sq_tasks := sq_tasks (seqs d) + 1\<rparr>\<rparr>"

lemma executeCheckout_Inr:
  assumes "wf_db d" and "executeCheckout uid pid q d = (Inr res, d')"
  obtains p u where "p \<in> set (products d)" and "p_id p = pid" and "q \<le> p_stock_quantity p"
    and "u \<in> set (users d)" and "u_id u = uid" and "p_price p * q \<le> u_balance u"
    and "d' = after_checkout p u q d"
    and "res = \<lparr>cr_order_id = sq_orders (seqs d) + 1, cr_total_amount = p_price p * q,
                cr_remaining_stock = p_stock_quantity p - q\<rparr>"
proof -
  let ?h = "\<lambda>r. p_id r = pid \<and> q \<le> p_stock_quantity r"
  from assms(2) obtain x d1 where s1: "take_stock q pid d = (Inr (Some x), d1)" and
    k1: "cmd_bind (take_balance (p_price x * q) uid) (\<lambda>user_opt.
         case user_opt of None \<Rightarrow> cmd_throw InsufficientBalance
         | Some user \<Rightarrow> cmd_bind (insert_order uid (p_price x * q)) (\<lambda>order.
             cmd_bind (insert_order_item (o_id order) pid q (p_price x)) (\<lambda>_.
             cmd_bind (insert_task (o_id order)) (\<lambda>_.
             cmd_return \<lparr>cr_order_id = o_id order, cr_total_amount = p_price x * q,
                         cr_remaining_stock = p_stock_quantity x\<rparr>)))) d1 = (Inr res, d')"
    by (auto simp: executeCheckout_def Let_def cmd_bind_Inr_iff [of "take_stock q pid"] cmd_simps
        split: option.splits)
  from s1 obtain p where p: "first_where ?h (products d) = Some p" and
    x: "x = p\<lparr>p_stock_quantity := p_stock_quantity p - q\<rparr>" and
    d1: "d1 = d\<lparr>products := update_where ?h (\<lambda>r. r\<lparr>p_stock_quantity := p_stock_quantity r - q\<rparr>) (products d)\<rparr>"
    by (auto simp: take_stock_Inr dest!: sym [of "Some x"])
  from k1 obtain u where
    u: "first_where (\<lambda>r. u_id r = uid \<and> p_price p * q \<le> u_balance r) (users d) = Some u" and
    d': "d' = d\<lparr>products := update_where ?h (\<lambda>r. r\<lparr>p_stock_quantity := p_stock_quantity r - q\<rparr>) (products d),
       users := update_where (\<lambda>r. u_id r = uid \<and> p_price p * q \<le> u_balance r)
         (\<lambda>r. r\<lparr>u_balance := u_balance r - p_price p * q\<rparr>) (users d),
       orders := orders d @ [\<lparr>o_id = sq_orders (seqs d) + 1, o_user_id = uid, o_status = Created,
                               o_total_amount = p_price p * q\<rparr>],
       order_items := order_items d @ [\<lparr>oi_id = sq_items (seqs d) + 1, oi_order_id = sq_orders (seqs d) + 1,
                               oi_product_id = pid, oi_quantity = q, oi_unit_price = p_price p\<rparr>],
       tasks := tasks d @ [\<lparr>t_id = sq_tasks (seqs d) + 1, t_order_id = sq_orders (seqs d) + 1,
                            t_type = ''order_confirmation'', t_status = TaskPending, t_processed = 0,
                            t_worker_id = None\<rparr>],
       seqs := (seqs d)\<lparr>sq_orders := sq_orders (seqs d) + 1, sq_items := sq_items (seqs d) + 1,
                        sq_tasks := sq_tasks (seqs d) + 1\<rparr>\<rparr>" and
    res: "res = \<lparr>cr_order_id = sq_orders (seqs d) + 1, cr_total_amount = p_price p * q,
                cr_remaining_stock = p_stock_quantity p - q\<rparr>"
    by (auto simp: x d1 cmd_bind_Inr_iff cmd_simps take_balance_Inr
        insert_order_Inr insert_order_item_Inr insert_task_Inr split: option.splits)
  have pk: "distinct (map p_id (products d))" "distinct (map u_id (users d))"
    using assms(1) by (auto simp: wf_db_def products_ok_def users_ok_def)
  note gp = guarded_update [OF pk(1) p] and gu = guarded_update [OF pk(2) u]
  have "d' = after_checkout p u q d"
    using d' gp gu by (simp add: after_checkout_def)
  with gp gu res show ?thesis using that by blast
qed

section \<open>Checkouts one after the other\<close>

fun run_checkouts ::
  "(jsval \<Rightarrow> ('b, unit) cmd) \<Rightarrow> string \<Rightarrow> checkout_input list \<Rightarrow> db \<times> 'b \<Rightarrow>
     (err + checkout_result) list \<times> (db \<times> 'b)" where
  "run_checkouts publish at [] s = ([], s)"
| "run_checkouts publish at (inp # inps) s =
     (let (r, s') = checkout publish at inp s; (rs, s'') = run_checkouts publish at inps s'
      in (r # rs, s''))"

definition stock_of :: "db \<Rightarrow> int \<Rightarrow> int" where
  "stock_of d pid = sum_list (map p_stock_quantity (filter (\<lambda>r. p_id r = pid) (products d)))"

definition balance_of :: "db \<Rightarrow> int \<Rightarrow> int" where
  "balance_of d uid = sum_list (map u_balance (filter (\<lambda>r. u_id r = uid) (users d)))"

definition units_sold :: "db \<Rightarrow> int \<Rightarrow> int" where
  "units_sold d pid = sum_list (map oi_quantity (filter (\<lambda>r. oi_product_id r = pid) (order_items d)))"

definition spent :: "db \<Rightarrow> int \<Rightarrow> int" where
  "spent d uid = sum_list (map o_total_amount (filter (\<lambda>r. o_user_id r = uid) (orders d)))"

definition is_ok :: "'e + 'a \<Rightarrow> bool" where
  "is_ok r \<longleftrightarrow> (case r of Inl _ \<Rightarrow> False | Inr _ \<Rightarrow> True)"

lemma is_ok_simps [simp]: "is_ok (Inr a)" "\<not> is_ok (Inl e)"
  by (simp_all add: is_ok_def)

lemma after_checkout_sums:
  assumes "wf_db d" and "p \<in> set (products d)" and "u \<in> set (users d)"
  shows "stock_of (after_checkout p u q d) pid = stock_of d pid - (if pid = p_id p then q else 0)"
    and "units_sold (after_checkout p u q d) pid = units_sold d pid + (if pid = p_id p then q else 0)"
    and "balance_of (after_checkout p u q d) uid = balance_of d uid - (if uid = u_id u then p_price p * q else 0)"
    and "spent (after_checkout p u q d) uid = spent d uid + (if uid = u_id u then p_price p * q else 0)"
proof -
  have pk: "distinct (map p_id (products d))" "distinct (map u_id (users d))"
    using assms(1) by (auto simp: wf_db_def products_ok_def users_ok_def)
  show "stock_of (after_checkout p u q d) pid = stock_of d pid - (if pid = p_id p then q else 0)"
    by (simp add: stock_of_def after_checkout_def sum_update_key [OF pk(1) assms(2)])
  show "balance_of (after_checkout p u q d) uid = balance_of d uid - (if uid = u_id u then p_price p * q else 0)"
    by (simp add: balance_of_def after_checkout_def sum_update_key [OF pk(2) assms(3)])
qed (simp_all add: units_sold_def spent_def after_checkout_def)

lemma same_tables_sums:
  assumes "same_tables d d'"
  shows "stock_of d' = stock_of d" "units_sold d' = units_sold d" "balance_of d' = balance_of d"
    "spent d' = spent d" "wf_db d' = wf_db d"
proof -
  have d': "d' = d\<lparr>seqs := seqs d'\<rparr>" using assms by (simp add: same_tables_def)
  have "stock_of (d\<lparr>seqs := q\<rparr>) = stock_of d \<and> units_sold (d\<lparr>seqs := q\<rparr>) = units_sold d \<and>
      balance_of (d\<lparr>seqs := q\<rparr>) = balance_of d \<and> spent (d\<lparr>seqs := q\<rparr>) = spent d" for q
    by (simp add: fun_eq_iff stock_of_def units_sold_def balance_of_def spent_def)
  then show "stock_of d' = stock_of d" "units_sold d' = units_sold d" "balance_of d' = balance_of d"
    "spent d' = spent d" by (metis d')+
  show "wf_db d' = wf_db d" by (metis d' wf_db_seqs)
qed

lemma checkout_wf:
  assumes "wf_db d" shows "wf_db (fst (snd (checkout publish at inp (d, b))))"
proof (cases "integer_of (ci_quantity inp)")
  case None
  with assms show ?thesis by (simp add: checkout_def cmd_simps)
next
  case (Some q)
  show ?thesis
  proof (cases "q \<le> 0")
    case True
    with assms Some show ?thesis by (simp add: checkout_def cmd_simps)
  next
    case False
    then have "cmd_keeps wf_db (transaction (executeCheckout (ci_user_id inp) (ci_product_id inp) q))"
      by (intro cmd_keeps_transaction executeCheckout_wf) (simp_all add: wf_db_rollback)
    from cmd_keepsD [OF this assms] Some False show ?thesis
      by (auto simp: checkout_def cmd_bind_run cmd_simps split: sum.split prod.split)
  qed
qed

text \<open>
  The two ways a checkout can go: nothing happened, or the order is placed and what the
  caller sees depends on the broker.
\<close>

lemma checkout_cases:
  assumes "wf_db d" and "checkout publish at inp (d, b) = (r, (d', b'))"
  obtains (rejected) e where "r = Inl e" and "same_tables d d'" and "b' = b"
  | (placed) p u q res where "integer_of (ci_quantity inp) = Some q" and "0 < q"
      and "p \<in> set (products d)" and "p_id p = ci_product_id inp" and "q \<le> p_stock_quantity p"
      and "u \<in> set (users d)" and "u_id u = ci_user_id inp" and "p_price p * q \<le> u_balance u"
      and "d' = after_checkout p u q d"
      and "res = \<lparr>cr_order_id = sq_orders (seqs d) + 1, cr_total_amount = p_price p * q,
                  cr_remaining_stock = p_stock_quantity p - q\<rparr>"
      and "publish (createOrderPlacedEvent at (ci_user_id inp) (ci_product_id inp) q res) b =
             (case r of Inl e \<Rightarrow> (Inl e, b') | Inr _ \<Rightarrow> (Inr (), b'))"
      and "is_ok r \<longrightarrow> r = Inr res"
proof (cases "\<exists>q. integer_of (ci_quantity inp) = Some q \<and> 0 < q")
  case False
  with assms(2) have "\<exists>e. r = Inl e" "d' = d" "b' = b"
    by (auto simp: checkout_def cmd_simps split: option.splits if_splits)
  then show ?thesis using rejected by auto
next
  case True
  then obtain q where q: "integer_of (ci_quantity inp) = Some q" "0 < q" by blast
  let ?m = "executeCheckout (ci_user_id inp) (ci_product_id inp) q"
  show ?thesis
  proof (cases "?m d")
    case (Pair x d1)
    show ?thesis
    proof (cases x)
      case (Inl e)
      with Pair q assms(2) have "r = Inl e" "d' = rollback d d1" "b' = b"
        by (auto simp: checkout_def cmd_bind_run cmd_simps cmd_transaction_def)
      then show ?thesis using rejected by simp
    next
      case (Inr res)
      with Pair have "?m d = (Inr res, d1)" by simp
      with assms(1) obtain p u where pu: "p \<in> set (products d)" "p_id p = ci_product_id inp"
        "q \<le> p_stock_quantity p" "u \<in> set (users d)" "u_id u = ci_user_id inp"
        "p_price p * q \<le> u_balance u" "d1 = after_checkout p u q d"
        "res = \<lparr>cr_order_id = sq_orders (seqs d) + 1, cr_total_amount = p_price p * q,
                cr_remaining_stock = p_stock_quantity p - q\<rparr>"
        by (rule executeCheckout_Inr)
      from Inr Pair q assms(2) have
        "(case publish (createOrderPlacedEvent at (ci_user_id inp) (ci_product_id inp) q res) b of
            (Inl e, b1) \<Rightarrow> (Inl e, (d1, b1)) | (Inr _, b1) \<Rightarrow> (Inr res, (d1, b1))) = (r, (d', b'))"
        by (auto simp: checkout_def cmd_bind_run cmd_simps cmd_transaction_def
            split: prod.splits sum.splits)
      then show ?thesis
        by (intro placed [OF q pu(1-6) _ pu(8)])
          (auto simp: pu(7) split: prod.splits sum.splits)
    qed
  qed
qed

text \<open>One checkout conserves goods and money, whatever it returns.\<close>

lemma checkout_sums:
  assumes "wf_db d" and "checkout publish at inp (d, b) = (r, (d', b'))"
  shows "stock_of d' pid + units_sold d' pid = stock_of d pid + units_sold d pid"
    and "balance_of d' uid + spent d' uid = balance_of d uid + spent d uid"
    and "wf_db d'"
proof -
  have "stock_of d' pid + units_sold d' pid = stock_of d pid + units_sold d pid \<and>
      balance_of d' uid + spent d' uid = balance_of d uid + spent d uid"
    using assms
  proof (cases rule: checkout_cases)
    case (rejected e)
    then show ?thesis by (simp add: same_tables_sums)
  next
    case (placed p u q res)
    show ?thesis
      unfolding placed(9) by (simp add: after_checkout_sums [OF assms(1) placed(3,6)])
  qed
  then show "stock_of d' pid + units_sold d' pid = stock_of d pid + units_sold d pid"
    and "balance_of d' uid + spent d' uid = balance_of d uid + spent d uid" by simp_all
  show "wf_db d'" using checkout_wf [OF assms(1), of publish at inp b] assms(2) by simp
qed

lemma wf_stock_nonneg: "wf_db d \<Longrightarrow> 0 \<le> stock_of d pid"
  using wf_product by (auto simp: stock_of_def intro!: sum_list_nonneg)

lemma wf_balance_nonneg: "wf_db d \<Longrightarrow> 0 \<le> balance_of d uid"
  using wf_user by (auto simp: balance_of_def intro!: sum_list_nonneg)

lemma wf_stock_of:
  assumes "wf_db d" and "p \<in> set (products d)"
  shows "stock_of d (p_id p) = p_stock_quantity p"
proof -
  have "sum_list (map p_stock_quantity (filter (\<lambda>r. p_id r = p_id p) rs)) = p_stock_quantity p"
    if "distinct (map p_id rs)" "p \<in> set rs" for rs
    using that
  proof (induction rs)
    case (Cons a rs)
    show ?case
    proof (cases "a = p")
      case True
      with Cons.prems have "filter (\<lambda>r. p_id r = p_id p) rs = []"
        by (auto simp: filter_empty_conv image_iff)
      with True show ?thesis by simp
    next
      case False
      with Cons show ?thesis by (auto simp: image_iff)
    qed
  qed simp
  then show ?thesis using assms by (simp add: stock_of_def wf_db_def products_ok_def)
qed

lemma no_stock:
  assumes "wf_db d" and "0 < q"
    and "first_where (\<lambda>r. p_id r = pid \<and> q \<le> p_stock_quantity r) (products d) = None"
  shows "stock_of d pid < q"
proof (cases "\<exists>p \<in> set (products d). p_id p = pid")
  case True
  then obtain p where "p \<in> set (products d)" "p_id p = pid" by blast
  with assms(1,3) wf_stock_of show ?thesis by fastforce
next
  case False
  then have "filter (\<lambda>r. p_id r = pid) (products d) = []" by (auto simp: filter_empty_conv)
  with assms(2) show ?thesis by (simp add: stock_of_def)
qed

text \<open>\<open>INSUFFICIENT_STOCK\<close> is thrown for one reason only.\<close>

lemma executeCheckout_no_stock:
  assumes "executeCheckout uid pid q d = (Inl InsufficientStock, t)"
  shows "first_where (\<lambda>r. p_id r = pid \<and> q \<le> p_stock_quantity r) (products d) = None"
proof -
  have other: "cmd_throws (\<lambda>e. e \<noteq> InsufficientStock) (cmd_bind (take_balance a uid) (\<lambda>user_opt.
         case user_opt of None \<Rightarrow> cmd_throw InsufficientBalance
         | Some user \<Rightarrow> cmd_bind (insert_order uid a) (\<lambda>order.
             cmd_bind (insert_order_item (o_id order) pid q c) (\<lambda>_.
             cmd_bind (insert_task (o_id order)) (\<lambda>_. cmd_return (k order))))))" for a c k
    unfolding take_balance_def insert_order_def insert_order_item_def insert_task_def Let_def
    by (intro throws_intro) (simp_all add: cmd_throws_def)
  have "take_stock q pid d \<noteq> (Inl InsufficientStock, t)"
    by (auto simp: take_stock_def Let_def cmd_bind_Inl_iff cmd_simps param_int_IntN split: if_splits)
  then obtain x d1 where t: "take_stock q pid d = (Inr x, d1)" and
    k: "(case x of None \<Rightarrow> cmd_throw InsufficientStock
     | Some product \<Rightarrow> cmd_bind (take_balance (p_price product * q) uid) (\<lambda>user_opt.
         case user_opt of None \<Rightarrow> cmd_throw InsufficientBalance
         | Some user \<Rightarrow> cmd_bind (insert_order uid (p_price product * q)) (\<lambda>order.
             cmd_bind (insert_order_item (o_id order) pid q (p_price product)) (\<lambda>_.
             cmd_bind (insert_task (o_id order)) (\<lambda>_.
             cmd_return \<lparr>cr_order_id = o_id order, cr_total_amount = p_price product * q,
                         cr_remaining_stock = p_stock_quantity product\<rparr>))))) d1 = (Inl InsufficientStock, t)"
    using assms unfolding executeCheckout_def Let_def cmd_bind_Inl_iff [of "take_stock q pid"] by blast
  have "x = None"
  proof (cases x)
    case (Some y)
    show ?thesis using cmd_throwsD [OF other k [unfolded Some option.case]] by simp
  qed simp
  with t have "map_option (\<lambda>r. r\<lparr>p_stock_quantity := p_stock_quantity r - q\<rparr>)
      (first_where (\<lambda>r. p_id r = pid \<and> q \<le> p_stock_quantity r) (products d)) = None"
    unfolding take_stock_Inr by simp
  then show ?thesis by (simp only: option.map_disc_iff)
qed

lemma checkout_no_stock:
  assumes "wf_db d" and "checkout publish at inp (d, b) = (Inl InsufficientStock, s')"
    and "\<And>m b. \<exists>b'. publish m b = (Inr (), b')" and "ci_quantity inp = Num (IntN q)"
  shows "stock_of d (ci_product_id inp) < q"
proof (cases "q \<le> 0")
  case True
  with assms(2,4) show ?thesis by (simp add: checkout_def cmd_simps)
next
  case False
  let ?m = "executeCheckout (ci_user_id inp) (ci_product_id inp) q"
  obtain x t where m: "?m d = (x, t)" by fastforce
  have "x = Inl InsufficientStock"
  proof (cases x)
    case (Inl e)
    with m False assms(2,4) show ?thesis
      by (simp add: checkout_def cmd_bind_run cmd_simps cmd_transaction_def)
  next
    case (Inr res)
    obtain b1 where "publish (createOrderPlacedEvent at (ci_user_id inp) (ci_product_id inp) q res) b = (Inr (), b1)"
      using assms(3) by blast
    with Inr m False assms(2,4) show ?thesis
      by (simp add: checkout_def cmd_bind_run cmd_simps cmd_transaction_def)
  qed
  with m have "?m d = (Inl InsufficientStock, t)" by simp
  from executeCheckout_no_stock [OF this] False show ?thesis
    by (intro no_stock [OF assms(1)]) auto
qed

lemmas checkout_eval = checkout_def executeCheckout_def take_stock_def take_balance_def insert_order_def
  insert_order_item_def insert_task_def Let_def cmd_bind_run cmd_simps cmd_transaction_def rollback_def
  param_int_IntN int4_def int8_def sample_db_def empty_db_def orders_constraints_def
  order_items_constraints_def tasks_constraints_def

section \<open>Properties\<close>

text \<open>C1: A checkout that returns has found the product with enough stock and the buyer with
  enough balance, has taken exactly the quantity from the one and price times quantity from
  the other, has recorded one order, one order item and one pending task, has touched nothing
  else, and its event was confirmed by the broker after the commit.\<close>

theorem checkout_success:
  assumes "wf_db d" and "checkout publish at inp (d, b) = (Inr res, (d', b'))"
  shows "\<exists>p u q. integer_of (ci_quantity inp) = Some q \<and> 0 < q \<and>
    p \<in> set (products d) \<and> p_id p = ci_product_id inp \<and> q \<le> p_stock_quantity p \<and>
    u \<in> set (users d) \<and> u_id u = ci_user_id inp \<and> p_price p * q \<le> u_balance u \<and>
    d' = after_checkout p u q d \<and>
    res = \<lparr>cr_order_id = sq_orders (seqs d) + 1, cr_total_amount = p_price p * q,
           cr_remaining_stock = p_stock_quantity p - q\<rparr> \<and>
    publish (createOrderPlacedEvent at (ci_user_id inp) (ci_product_id inp) q res) b = (Inr (), b')"
  using assms
proof (cases rule: checkout_cases)
  case (placed p u q res')
  then show ?thesis by auto
qed auto

lemma checkout_success_witness:
  "\<exists>res d' b'. checkout (\<lambda>m b. (Inr (), m # b)) ''now'' \<lparr>ci_user_id = 1, ci_product_id = 1, ci_quantity = Num (IntN 2)\<rparr>
       (sample_db, [] :: jsval list) = (Inr res, (d', b')) \<and> cr_total_amount res = 200"
proof -
  let ?c = "checkout (\<lambda>m b. (Inr (), m # b)) ''now'' \<lparr>ci_user_id = 1, ci_product_id = 1, ci_quantity = Num (IntN 2)\<rparr>
       (sample_db, [] :: jsval list)"
  have "is_ok (fst ?c)"
    by (simp add: checkout_eval)
  then obtain res d' b' where c: "?c = (Inr res, (d', b'))"
    by (cases ?c) (auto simp: is_ok_def split: sum.splits)
  from checkout_success [OF wf_sample_db c] have "cr_total_amount res = 200"
    by (auto simp: sample_db_def empty_db_def)
  with c show ?thesis by blast
qed

text \<open>C2: A checkout that throws either left every table and the broker as they were, or it
  committed the complete order and then failed to publish its event: the order is never
  half written, and the only thing that can be missing is the event.\<close>

theorem checkout_error:
  assumes "wf_db d" and "checkout publish at inp (d, b) = (Inl e, (d', b'))"
  shows "same_tables d d' \<and> b' = b \<or>
    (\<exists>p u q res. p \<in> set (products d) \<and> p_id p = ci_product_id inp \<and> 0 < q \<and> q \<le> p_stock_quantity p \<and>
       u \<in> set (users d) \<and> u_id u = ci_user_id inp \<and> p_price p * q \<le> u_balance u \<and>
       d' = after_checkout p u q d \<and>
       publish (createOrderPlacedEvent at (ci_user_id inp) (ci_product_id inp) q res) b = (Inl e, b'))"
  using assms
proof (cases rule: checkout_cases)
  case (placed p u q res')
  then show ?thesis by auto
qed auto

lemma checkout_error_witness:
  "\<exists>d' b'. checkout (\<lambda>m b. (Inl (JsError ''nack''), b)) ''now'' \<lparr>ci_user_id = 1, ci_product_id = 1, ci_quantity = Num (IntN 2)\<rparr>
       (sample_db, [] :: jsval list) = (Inl (JsError ''nack''), (d', b')) \<and> length (orders d') \<le> 1"
proof -
  let ?c = "checkout (\<lambda>m b. (Inl (JsError ''nack''), b)) ''now'' \<lparr>ci_user_id = 1, ci_product_id = 1, ci_quantity = Num (IntN 2)\<rparr>
       (sample_db, [] :: jsval list)"
  have "fst ?c = Inl (JsError ''nack'')"
    by (simp add: checkout_eval)
  then obtain d' b' where c: "?c = (Inl (JsError ''nack''), (d', b'))"
    by (metis prod.collapse)
  from checkout_error [OF wf_sample_db c] have "length (orders d') \<le> 1"
    by (elim disjE exE conjE) (auto simp: same_tables_def after_checkout_def dest!: arg_cong [of _ _ orders])
  with c show ?thesis by blast
qed

text \<open>C3: However many checkouts run, and whichever of them fail, stock plus units sold of every
  product and balance plus money spent of every user stay what they were, and neither stock
  nor balance ever goes below zero.\<close>

theorem checkouts_conserve:
  assumes "wf_db d" and "run_checkouts publish at inps (d, b) = (rs, (d', b'))"
  shows "stock_of d' pid + units_sold d' pid = stock_of d pid + units_sold d pid \<and>
         balance_of d' uid + spent d' uid = balance_of d uid + spent d uid \<and>
         0 \<le> stock_of d' pid \<and> 0 \<le> balance_of d' uid \<and> wf_db d'"
  using assms
proof (induction inps arbitrary: d b rs)
  case Nil
  then show ?case by (simp add: wf_stock_nonneg wf_balance_nonneg)
next
  case (Cons inp inps)
  obtain r d1 b1 where c: "checkout publish at inp (d, b) = (r, (d1, b1))"
    by (metis prod.collapse)
  obtain rs1 where "run_checkouts publish at inps (d1, b1) = (rs1, (d', b'))"
    using Cons.prems(2) c by (auto split: prod.splits)
  from Cons.IH [OF checkout_sums(3) [OF Cons.prems(1) c] this]
  show ?case using checkout_sums [OF Cons.prems(1) c] by simp
qed

lemma checkouts_conserve_witness:
  "let (rs, (d', b')) = run_checkouts (\<lambda>m b. (Inr (), m # b)) ''now''
       [\<lparr>ci_user_id = 1, ci_product_id = 1, ci_quantity = Num (IntN 2)\<rparr>,
        \<lparr>ci_user_id = 2, ci_product_id = 1, ci_quantity = Num (IntN 1)\<rparr>] (sample_db, [] :: jsval list)
   in stock_of d' 1 + units_sold d' 1 = 3"
proof -
  let ?c = "run_checkouts (\<lambda>m b. (Inr (), m # b)) ''now''
       [\<lparr>ci_user_id = 1, ci_product_id = 1, ci_quantity = Num (IntN 2)\<rparr>,
        \<lparr>ci_user_id = 2, ci_product_id = 1, ci_quantity = Num (IntN 1)\<rparr>] (sample_db, [] :: jsval list)"
  obtain rs d' b' where c: "?c = (rs, (d', b'))" by (metis prod.collapse)
  have "stock_of sample_db 1 + units_sold sample_db 1 = 3"
    by (simp add: stock_of_def units_sold_def sample_db_def empty_db_def)
  with checkouts_conserve [OF wf_sample_db c, of 1] c show ?thesis by simp
qed

text \<open>When any number of buyers try to take one unit each of a product
  and the only failures are for lack of stock, exactly as many succeed as there were units
  (or all of them, if there were enough), and the stock that is left is the difference.\<close>

lemma checkout_race:
  assumes "wf_db d" and "\<And>m b. \<exists>b'. publish m b = (Inr (), b')"
    and "\<forall>inp \<in> set inps. ci_product_id inp = pid \<and> ci_quantity inp = Num (IntN 1)"
    and "run_checkouts publish at inps (d, b) = (rs, (d', b'))"
    and "\<forall>e. Inl e \<in> set rs \<longrightarrow> e = InsufficientStock"
  shows "length (filter is_ok rs) = min (length inps) (nat (stock_of d pid)) \<and>
         stock_of d' pid = stock_of d pid - int (length (filter is_ok rs))"
  using assms(1,3-5)
proof (induction inps arbitrary: d b rs)
  case Nil
  then show ?case by simp
next
  case (Cons inp inps)
  from Cons.prems(2) have inp: "ci_product_id inp = pid" "ci_quantity inp = Num (IntN 1)" by simp_all
  obtain r d1 b1 where c: "checkout publish at inp (d, b) = (r, (d1, b1))"
    by (metis prod.collapse)
  obtain rs1 where run: "run_checkouts publish at inps (d1, b1) = (rs1, (d', b'))" and rs: "rs = r # rs1"
    using Cons.prems(3) c by (auto split: prod.splits)
  have IH: "length (filter is_ok rs1) = min (length inps) (nat (stock_of d1 pid)) \<and>
         stock_of d' pid = stock_of d1 pid - int (length (filter is_ok rs1))"
    using Cons.IH [OF checkout_sums(3) [OF Cons.prems(1) c] _ run] Cons.prems(2,4) rs by simp
  show ?case
    using Cons.prems(1) c
  proof (cases rule: checkout_cases)
    case (rejected e)
    with rs Cons.prems(4) c have "checkout publish at inp (d, b) = (Inl InsufficientStock, (d1, b1))" by auto
    from checkout_no_stock [OF Cons.prems(1) this assms(2) inp(2)] wf_stock_nonneg [OF Cons.prems(1)]
    have "stock_of d pid = 0" by (simp add: inp(1) order_antisym)
    with IH rs rejected show ?thesis by (simp add: same_tables_sums)
  next
    case (placed p u q res)
    from placed(1) inp have q: "q = 1" by simp
    have "is_ok r" using placed(11) assms(2) by (cases r) (auto, metis Pair_inject sum.distinct(1))
    moreover have "stock_of d1 pid = stock_of d pid - 1"
      using placed(4,9) inp(1) q after_checkout_sums(1) [OF Cons.prems(1) placed(3,6)] by simp
    moreover have "1 \<le> stock_of d pid"
      using placed(4,5) inp(1) q wf_stock_of [OF Cons.prems(1) placed(3)] by simp
    ultimately show ?thesis using IH rs by auto
  qed
qed

end
