(* ===== verification/Seed.thy ===== *)
theory Seed
  imports Access Checkout
begin

text \<open>
  \<open>src/seed.ts\<close>: the demonstration data. The rows come with their identifiers and go in with
  \<open>ON CONFLICT (id) DO UPDATE\<close> (users, products) or \<open>DO NOTHING\<close> (orders, items); the
  sequences are set to the largest identifier. The locale \<open>keyed_table\<close> and its extension
  \<open>upsert_table\<close> hold what the two kinds of statement do to a table whatever its rows are.
\<close>

section \<open>The rows\<close>

text \<open>Cyrillic text is the list of its code points, stored as their UTF-8 bytes.\<close>

definition utf8_char :: "nat \<Rightarrow> string" where
  "utf8_char c = (if c < 128 then [char_of c] else [char_of (192 + c div 64), char_of (128 + c mod 64)])"

definition utf8 :: "nat list \<Rightarrow> string" where
  "utf8 cs = concat (map utf8_char cs)"

definition seed_user :: "int \<Rightarrow> string \<Rightarrow> string \<Rightarrow> user_row" where
  "seed_user i email full_name = \<lparr>u_id = i, u_email = email, u_full_name = full_name,
     u_balance = 10000000, u_password_hash = None, u_role = Buyer\<rparr>"

definition seed_product :: "int \<Rightarrow> int \<Rightarrow> string \<Rightarrow> string \<Rightarrow> int \<Rightarrow> int \<Rightarrow> product_row" where
  "seed_product i owner name description price stock = \<lparr>p_id = i, p_owner_id = owner, p_name = name,
     p_description = description, p_price = price, p_stock_quantity = stock, p_is_active = True\<rparr>"

definition seed_order :: "int \<Rightarrow> int \<Rightarrow> order_status \<Rightarrow> int \<Rightarrow> order_row" where
  "seed_order i user status amount = \<lparr>o_id = i, o_user_id = user, o_status = status, o_total_amount = amount\<rparr>"

definition seed_item :: "int \<Rightarrow> int \<Rightarrow> int \<Rightarrow> int \<Rightarrow> int \<Rightarrow> order_item_row" where
  "seed_item i order_id product quantity price = \<lparr>oi_id = i, oi_order_id = order_id,
     oi_product_id = product, oi_quantity = quantity, oi_unit_price = price\<rparr>"

definition SEED_USERS :: "user_row list" where
  "SEED_USERS = [
     seed_user 1 ''anna@example.com'' (utf8 [1040, 1085, 1085, 1072, 32, 1050, 1086, 1074, 1072, 1083,
       1100]),
     seed_user 2 ''oleh@example.com'' (utf8 [1054, 1083, 1077, 1075, 32, 1041, 1086, 1085, 1076, 1072,
       1088]),
     seed_user 3 ''maria@example.com'' (utf8 [1052, 1072, 1088, 1110, 1103, 32, 1064, 1077, 1074, 1095,
       1077, 1085, 1082, 1086]),
     seed_user 4 ''ivan@example.com'' (utf8 [1030, 1074, 1072, 1085, 32, 1052, 1077, 1083, 1100, 1085,
       1080, 1082]),
     seed_user 5 ''olena@example.com'' (utf8 [1054, 1083, 1077, 1085, 1072, 32, 1058, 1082, 1072, 1095,
       1077, 1085, 1082, 1086]),
     seed_user 6 ''taras@example.com'' (utf8 [1058, 1072, 1088, 1072, 1089, 32, 1050, 1088, 1072, 1074,
       1095, 1077, 1085, 1082, 1086]),
     seed_user 7 ''sofia@example.com'' (utf8 [1057, 1086, 1092, 1110, 1103, 32, 1051, 1077, 1074, 1095,
       1077, 1085, 1082, 1086]),
     seed_user 8 ''andrii@example.com'' (utf8 [1040, 1085, 1076, 1088, 1110, 1081, 32, 1057, 1072, 1074,
       1095, 1091, 1082]),
     seed_user 9 ''natalia@example.com'' (utf8 [1053, 1072, 1090, 1072, 1083, 1110, 1103, 32, 1052, 1086,
       1088, 1086, 1079]),
     seed_user 10 ''maksym@example.com'' (utf8 [1052, 1072, 1082, 1089, 1080, 1084, 32, 1050, 1086, 1074,
       1072, 1083, 1100, 1095, 1091, 1082])]"

definition SEED_PRODUCTS :: "product_row list" where
  "SEED_PRODUCTS = [
     seed_product 1 1 (utf8 [1064, 1082, 1110, 1088, 1103, 1085, 1110, 32, 1082, 1088, 1086, 1089, 1110,
       1074, 1082, 1080]) (utf8 [1047, 1088, 1091, 1095, 1085, 1110, 32, 1096, 1082, 1110, 1088, 1103,
       1085, 1110, 32, 1082, 1088, 1086, 1089, 1110, 1074, 1082, 1080, 32, 1076, 1083, 1103, 32, 1097,
       1086, 1076, 1077, 1085, 1085, 1080, 1093, 32, 1087, 1088, 1086, 1075, 1091, 1083, 1103, 1085, 1086,
       1082, 32, 1084, 1110, 1089, 1090, 1086, 1084]) 249900 10,
     seed_product 2 2 (utf8 [1052, 1110, 1089, 1100, 1082, 1072, 32, 1089, 1091, 1084, 1082,
       1072]) (utf8 [1055, 1088, 1072, 1082, 1090, 1080, 1095, 1085, 1072, 32, 1084, 1110, 1089, 1100,
       1082, 1072, 32, 1089, 1091, 1084, 1082, 1072, 32, 1076, 1083, 1103, 32, 1088, 1086, 1073, 1086,
       1090, 1080, 32, 1090, 1072, 32, 1087, 1086, 1076, 1086, 1088, 1086, 1078, 1077, 1081]) 129900 20,
     seed_product 3 3 (utf8 [1030, 1075, 1088, 1086, 1074, 1080, 1081, 32, 1085, 1086, 1091, 1090, 1073,
       1091, 1082]) (utf8 [1055, 1086, 1090, 1091, 1078, 1085, 1080, 1081, 32, 1085, 1086, 1091, 1090,
       1073, 1091, 1082, 32, 1076, 1083, 1103, 32, 1088, 1086, 1073, 1086, 1090, 1080, 32, 1090, 1072, 32,
       1089, 1091, 1095, 1072, 1089, 1085, 1080, 1093, 32, 1110, 1075, 1086, 1088]) 4599900 5,
     seed_product 4 4 (utf8 [1041, 1077, 1079, 1076, 1088, 1086, 1090, 1086, 1074, 1110, 32, 1085, 1072,
       1074, 1091, 1096, 1085, 1080, 1082, 1080]) (utf8 [1050, 1086, 1084, 1087, 1072, 1082, 1090, 1085,
       1110, 32, 1085, 1072, 1074, 1091, 1096, 1085, 1080, 1082, 1080, 32, 1079, 32, 1103, 1082, 1110,
       1089, 1085, 1080, 1084, 32, 1079, 1074, 1091, 1082, 1086, 1084]) 349900 30,
     seed_product 5 5 (utf8 [1052, 1077, 1093, 1072, 1085, 1110, 1095, 1085, 1072, 32, 1082, 1083, 1072,
       1074, 1110, 1072, 1090, 1091, 1088, 1072]) (utf8 [1052, 1077, 1093, 1072, 1085, 1110, 1095, 1085,
       1072, 32, 1082, 1083, 1072, 1074, 1110, 1072, 1090, 1091, 1088, 1072, 32, 1076, 1083, 1103, 32,
       1087, 1088, 1086, 1075, 1088, 1072, 1084, 1091, 1074, 1072, 1085, 1085, 1103, 32, 1090, 1072, 32,
       1110, 1075, 1086, 1088]) 289900 12,
     seed_product 6 6 (utf8 [1050, 1086, 1084, 1087, 700, 1102, 1090, 1077, 1088, 1085, 1072, 32, 1084,
       1080, 1096, 1072]) (utf8 [1045, 1088, 1075, 1086, 1085, 1086, 1084, 1110, 1095, 1085, 1072, 32,
       1073, 1077, 1079, 1076, 1088, 1086, 1090, 1086, 1074, 1072, 32, 1084, 1080, 1096, 1072]) 159900 25,
     seed_product 7 7 (utf8 [1052, 1086, 1085, 1110, 1090, 1086, 1088, 32, 50, 55, 32, 1076, 1102, 1081,
       1084, 1110, 1074]) (utf8 [1052, 1086, 1085, 1110, 1090, 1086, 1088, 32, 1074, 1080, 1089, 1086,
       1082, 1086, 1111, 32, 1088, 1086, 1079, 1076, 1110, 1083, 1100, 1085, 1086, 1111, 32, 1079, 1076,
       1072, 1090, 1085, 1086, 1089, 1090, 1110, 32, 1076, 1083, 1103, 32, 1088, 1086, 1073, 1086, 1090,
       1080]) 899900 8,
     seed_product 8 8 (utf8 [1056, 1102, 1082, 1079, 1072, 1082, 32, 1076, 1083, 1103, 32, 1085, 1086,
       1091, 1090, 1073, 1091, 1082, 1072]) (utf8 [1052, 1110, 1089, 1100, 1082, 1080, 1081, 32, 1088,
       1102, 1082, 1079, 1072, 1082, 32, 1110, 1079, 32, 1074, 1110, 1076, 1076, 1110, 1083, 1077, 1085,
       1085, 1103, 1084, 32, 1076, 1083, 1103, 32, 1085, 1086, 1091, 1090, 1073, 1091, 1082,
       1072]) 199900 18,
     seed_product 9 9 (utf8 [85, 83, 66, 45, 67, 32, 1093, 1072, 1073]) (utf8 [1041, 1072, 1075, 1072,
       1090, 1086, 1092, 1091, 1085, 1082, 1094, 1110, 1086, 1085, 1072, 1083, 1100, 1085, 1080, 1081, 32,
       1072, 1076, 1072, 1087, 1090, 1077, 1088, 32, 1076, 1083, 1103, 32, 1085, 1086, 1091, 1090, 1073,
       1091, 1082, 1072]) 179900 35,
     seed_product 10 10 (utf8 [1042, 1077, 1073, 1082, 1072, 1084, 1077, 1088, 1072]) (utf8 [1042, 1077,
       1073, 1082, 1072, 1084, 1077, 1088, 1072, 32, 1076, 1083, 1103, 32, 1074, 1110, 1076, 1077, 1086,
       1076, 1079, 1074, 1110, 1085, 1082, 1110, 1074, 32, 1090, 1072, 32, 1082, 1086, 1085, 1092, 1077,
       1088, 1077, 1085, 1094, 1110, 1081]) 219900 14]"

definition SEED_ORDERS :: "order_row list" where
  "SEED_ORDERS = [
     seed_order 1 1 Completed 379800,
     seed_order 2 2 Paid 4599900,
     seed_order 3 3 Shipped 639800,
     seed_order 4 4 Created 899900,
     seed_order 5 5 Completed 489800,
     seed_order 6 6 Paid 179900,
     seed_order 7 7 Completed 349900,
     seed_order 8 8 Cancelled 219900,
     seed_order 9 9 Shipped 289900,
     seed_order 10 10 Created 329800]"

definition SEED_ITEMS :: "order_item_row list" where
  "SEED_ITEMS = [
     seed_item 1 1 1 1 249900,
     seed_item 2 1 2 1 129900,
     seed_item 3 2 3 1 4599900,
     seed_item 4 3 4 1 349900,
     seed_item 5 3 5 1 289900,
     seed_item 6 4 7 1 899900,
     seed_item 7 5 5 1 289900,
     seed_item 8 5 8 1 199900,
     seed_item 9 6 9 1 179900,
     seed_item 10 7 4 1 349900,
     seed_item 11 8 10 1 219900,
     seed_item 12 9 5 1 289900,
     seed_item 13 10 6 1 159900,
     seed_item 14 10 9 1 169900]"

section \<open>The statements\<close>

text \<open>
  \<open>INSERT \<dots> ON CONFLICT (key) DO UPDATE SET \<dots> = EXCLUDED.\<dots>\<close>: \<open>change r\<close> takes the columns
  over from the proposed row, and the changed row has to meet the constraints beside the others.
\<close>

type_synonym 'r table_update = "('r list \<Rightarrow> 'r list) \<Rightarrow> db \<Rightarrow> db"

definition replace_row :: "('r \<Rightarrow> int) \<Rightarrow> 'r \<Rightarrow> 'r list \<Rightarrow> 'r list" where
  "replace_row key r = update_where (\<lambda>y. key y = key r) (\<lambda>_. r)"

definition other_rows :: "('r \<Rightarrow> int) \<Rightarrow> 'r \<Rightarrow> 'r list \<Rightarrow> 'r list" where
  "other_rows key r = filter (\<lambda>y. key y \<noteq> key r)"

definition upsert_row :: "(db \<Rightarrow> 'r \<Rightarrow> pg_error option) \<Rightarrow> (db \<Rightarrow> 'r list) \<Rightarrow> 'r table_update \<Rightarrow>
    ('r \<Rightarrow> int) \<Rightarrow> ('r \<Rightarrow> 'r \<Rightarrow> 'r) \<Rightarrow> 'r \<Rightarrow> (db, unit) cmd" where
  "upsert_row cs get upd key change r = (\<lambda>d.
     case first_where (\<lambda>x. key x = key r) (get d) of
       None \<Rightarrow> (case cs d r of Some e \<Rightarrow> (Inl (Pg e), d) | None \<Rightarrow> (Inr (), upd (\<lambda>rs. rs @ [r]) d))
     | Some x \<Rightarrow> (case cs (upd (other_rows key x) d) (change r x) of
           Some e \<Rightarrow> (Inl (Pg e), d)
         | None \<Rightarrow> (Inr (), upd (replace_row key (change r x)) d)))"

text \<open>\<open>ON CONFLICT (key) DO NOTHING\<close>.\<close>

definition insert_missing :: "(db \<Rightarrow> 'r \<Rightarrow> pg_error option) \<Rightarrow> (db \<Rightarrow> 'r list) \<Rightarrow> 'r table_update \<Rightarrow>
    ('r \<Rightarrow> int) \<Rightarrow> 'r \<Rightarrow> (db, unit) cmd" where
  "insert_missing cs get upd key r = (\<lambda>d.
     if key r \<in> key ` set (get d) then (Inr (), d)
     else (case cs d r of Some e \<Rightarrow> (Inl (Pg e), d) | None \<Rightarrow> (Inr (), upd (\<lambda>rs. rs @ [r]) d)))"

text \<open>A statement with several rows of values takes them in order; the first error fails it.\<close>

definition each_row :: "('r \<Rightarrow> (db, unit) cmd) \<Rightarrow> 'r list \<Rightarrow> (db, unit) cmd" where
  "each_row f rs = cmd_fold (\<lambda>r _. f r) rs ()"

definition user_change :: "user_row \<Rightarrow> user_row \<Rightarrow> user_row" where
  "user_change r x = x\<lparr>u_email := u_email r, u_full_name := u_full_name r, u_balance := u_balance r\<rparr>"

definition product_change :: "product_row \<Rightarrow> product_row \<Rightarrow> product_row" where
  "product_change r x = x\<lparr>p_owner_id := p_owner_id r, p_name := p_name r, p_description := p_description r,
     p_price := p_price r, p_stock_quantity := p_stock_quantity r, p_is_active := p_is_active r\<rparr>"

abbreviation upsert_user :: "user_row \<Rightarrow> (db, unit) cmd" where
  "upsert_user \<equiv> upsert_row users_constraints users users_update u_id user_change"

abbreviation upsert_product :: "product_row \<Rightarrow> (db, unit) cmd" where
  "upsert_product \<equiv> upsert_row products_constraints products products_update p_id product_change"

abbreviation missing_order :: "order_row \<Rightarrow> (db, unit) cmd" where
  "missing_order \<equiv> insert_missing orders_constraints orders orders_update o_id"

abbreviation missing_item :: "order_item_row \<Rightarrow> (db, unit) cmd" where
  "missing_item \<equiv> insert_missing order_items_constraints order_items order_items_update oi_id"

text \<open>The \<open>UPDATE\<close> that gives the three demonstration accounts their password and role.\<close>

definition DEMO_PASSWORD :: string where
  "DEMO_PASSWORD = ''Password123!''"

definition demo_role :: "string \<Rightarrow> user_role" where
  "demo_role email =
     (if email = ''oleh@example.com'' then Seller
      else if email = ''maria@example.com'' then Admin
      else Buyer)"

definition demo_account :: "user_row \<Rightarrow> bool" where
  "demo_account r \<longleftrightarrow> u_email r \<in> {''anna@example.com'', ''oleh@example.com'', ''maria@example.com''}"

definition set_credentials :: "string \<Rightarrow> db \<Rightarrow> db" where
  "set_credentials hash = users_update (update_where demo_account
     (\<lambda>r. r\<lparr>u_password_hash := Some hash, u_role := demo_role (u_email r)\<rparr>))"

text \<open>\<open>setval(\<dots>, COALESCE(MAX(id), 1), true)\<close>; a sequence starts at 1 and refuses less.\<close>

definition max_id :: "int list \<Rightarrow> int" where
  "max_id is = (if is = [] then 1 else Max (set is))"

definition setval_max :: "((int \<Rightarrow> int) \<Rightarrow> seqs \<Rightarrow> seqs) \<Rightarrow> (db \<Rightarrow> int list) \<Rightarrow> (db, unit) cmd" where
  "setval_max upd ids = (\<lambda>d.
     let m = max_id (ids d)
     in if m < 1 then (Inl (Pg NumericValueOutOfRange), d) else (Inr (), d\<lparr>seqs := upd (\<lambda>_. m) (seqs d)\<rparr>))"

definition seed_tables :: "string \<Rightarrow> (db, unit) cmd" where
  "seed_tables demoPasswordHash =
     cmd_bind (each_row upsert_user SEED_USERS) (\<lambda>_.
     cmd_bind (cmd_write (set_credentials demoPasswordHash)) (\<lambda>_.
     cmd_bind (each_row upsert_product SEED_PRODUCTS) (\<lambda>_.
     cmd_bind (each_row missing_order SEED_ORDERS) (\<lambda>_.
     each_row missing_item SEED_ITEMS))))"

definition seed_sequences :: "(db, unit) cmd" where
  "seed_sequences =
     cmd_bind (setval_max sq_users_update (\<lambda>d. map u_id (users d))) (\<lambda>_.
     cmd_bind (setval_max sq_products_update (\<lambda>d. map p_id (products d))) (\<lambda>_.
     cmd_bind (setval_max sq_orders_update (\<lambda>d. map o_id (orders d))) (\<lambda>_.
     cmd_bind (setval_max sq_items_update (\<lambda>d. map oi_id (order_items d))) (\<lambda>_.
     setval_max sq_tasks_update (\<lambda>d. map t_id (tasks d))))))"

definition seed :: "'k crypto \<Rightarrow> byte list \<Rightarrow> (db, unit) cmd" where
  "seed cr random = transaction (
     cmd_bind (seed_tables (hashPassword cr random DEMO_PASSWORD)) (\<lambda>_. seed_sequences))"

section \<open>Statements that insert rows under their identifiers\<close>

lemma cmd_fold_append: "cmd_fold f (xs @ ys) b = cmd_bind (cmd_fold f xs b) (cmd_fold f ys)"
proof (induction xs arbitrary: b)
  case Nil
  then show ?case by (simp add: fun_eq_iff cmd_bind_run cmd_simps)
next
  case (Cons x xs)
  then show ?case by (simp add: fun_eq_iff cmd_bind_def split: prod.split sum.split)
qed

text \<open>A row is present when its key is, and settled when it has the columns of the statement.\<close>

definition key_present :: "(db \<Rightarrow> 'r list) \<Rightarrow> ('r \<Rightarrow> int) \<Rightarrow> 'r \<Rightarrow> db \<Rightarrow> bool" where
  "key_present get key r d \<longleftrightarrow> key r \<in> key ` set (get d)"

definition row_settled ::
  "(db \<Rightarrow> 'r list) \<Rightarrow> ('r \<Rightarrow> int) \<Rightarrow> ('r \<Rightarrow> 'r \<Rightarrow> 'r) \<Rightarrow> 'r \<Rightarrow> db \<Rightarrow> bool" where
  "row_settled get key change r d \<longleftrightarrow> (\<exists>x \<in> set (get d). key x = key r \<and> change r x = x)"

text \<open>
  What the statements need of a table: how it is read and written, that its key is unique, and
  that a row which meets the constraints may be appended. \<open>fits\<close> is the type of the columns.
\<close>

locale keyed_table =
  fixes cs :: "db \<Rightarrow> 'r \<Rightarrow> pg_error option"
    and get :: "db \<Rightarrow> 'r list"
    and upd :: "('r list \<Rightarrow> 'r list) \<Rightarrow> db \<Rightarrow> db"
    and key :: "'r \<Rightarrow> int"
    and fits :: "'r \<Rightarrow> bool"
  assumes get_upd: "get (upd f d) = f (get d)"
    and upd_same: "f (get d) = get d \<Longrightarrow> upd f d = d"
    and upd_upd: "upd f (upd h d) = upd (\<lambda>rs. f (h rs)) d"
    and keys_distinct: "wf_db d \<Longrightarrow> distinct (map key (get d))"
    and wf_append: "wf_db d \<Longrightarrow> cs d r = None \<Longrightarrow> fits r \<Longrightarrow> wf_db (upd (\<lambda>rs. rs @ [r]) d)"
begin

abbreviation present :: "'r \<Rightarrow> db \<Rightarrow> bool" where
  "present \<equiv> key_present get key"

lemma missing_wf:
  "wf_db d \<Longrightarrow> fits r \<Longrightarrow> insert_missing cs get upd key r d = (Inr u, d') \<Longrightarrow> wf_db d'"
  by (auto simp: insert_missing_def wf_append split: if_splits option.splits)

lemma missing_present:
  assumes "insert_missing cs get upd key r d = (Inr u, d')"
  shows "present r d'" and "present q d \<Longrightarrow> present q d'"
  using assms by (auto simp: insert_missing_def key_present_def get_upd split: if_splits option.splits)

lemma missing_skips: "present r d \<Longrightarrow> insert_missing cs get upd key r d = (Inr (), d)"
  by (simp add: insert_missing_def key_present_def)

lemma each_missing:
  assumes "wf_db d" and "\<forall>r \<in> set rs. fits r" and "each_row (insert_missing cs get upd key) rs d = (Inr u, d')"
  shows "wf_db d' \<and> (\<forall>r \<in> set rs. present r d') \<and> (\<forall>q. present q d \<longrightarrow> present q d')"
  using assms
proof (induction rs arbitrary: d)
  case Nil
  then show ?case by (simp add: each_row_def cmd_simps)
next
  case (Cons r rs)
  from Cons.prems(3) obtain d1 where 1: "insert_missing cs get upd key r d = (Inr (), d1)"
    and 2: "each_row (insert_missing cs get upd key) rs d1 = (Inr u, d')"
    by (auto simp: each_row_def cmd_bind_Inr_iff)
  have "fits r" and "\<forall>r \<in> set rs. fits r" using Cons.prems(2) by simp_all
  from Cons.IH [OF missing_wf [OF Cons.prems(1) this(1) 1] this(2) 2] missing_present [OF 1]
  show ?case by auto
qed

lemma each_missing_skips:
  "\<forall>r \<in> set rs. present r d \<Longrightarrow> each_row (insert_missing cs get upd key) rs d = (Inr (), d)"
  by (induction rs) (simp_all add: each_row_def cmd_bind_run cmd_simps missing_skips)

text \<open>Rows that are new and meet the constraints are appended.\<close>

lemma each_row_fresh:
  assumes "\<And>r d. key r \<notin> key ` set (get d) \<Longrightarrow> cs d r = None \<Longrightarrow> f r d = (Inr (), upd (\<lambda>rs. rs @ [r]) d)"
    and "get d = []" and "distinct (map key rs)"
    and "\<And>n. n < length rs \<Longrightarrow> cs (upd (\<lambda>_. take n rs) d) (rs ! n) = None"
  shows "each_row f rs d = (Inr (), upd (\<lambda>_. rs) d)"
  using assms(3,4)
proof (induction rs rule: rev_induct)
  case Nil
  then show ?case using assms(2) by (simp add: each_row_def cmd_simps upd_same)
next
  case (snoc r rs)
  have "cs (upd (\<lambda>_. take n rs) d) (rs ! n) = None" if "n < length rs" for n
    using snoc.prems(2) [of n] that by (simp add: nth_append)
  with snoc have "each_row f rs d = (Inr (), upd (\<lambda>_. rs) d)" by simp
  moreover have "cs (upd (\<lambda>_. rs) d) r = None" using snoc.prems(2) [of "length rs"] by simp
  then have "f r (upd (\<lambda>_. rs) d) = (Inr (), upd (\<lambda>_. rs @ [r]) d)"
    using assms(1) [of r "upd (\<lambda>_. rs) d"] snoc.prems(1) by (auto simp: get_upd upd_upd)
  ultimately show ?case
    by (simp add: each_row_def cmd_fold_append cmd_bind_run cmd_simps)
qed

lemma each_missing_fresh:
  assumes "get d = []" and "distinct (map key rs)"
    and "\<And>n. n < length rs \<Longrightarrow> cs (upd (\<lambda>_. take n rs) d) (rs ! n) = None"
  shows "each_row (insert_missing cs get upd key) rs d = (Inr (), upd (\<lambda>_. rs) d)"
  by (rule each_row_fresh [OF _ assms]) (simp_all add: insert_missing_def)

end

locale upsert_table = keyed_table cs get upd key fits
  for cs :: "db \<Rightarrow> 'r \<Rightarrow> pg_error option"
    and get :: "db \<Rightarrow> 'r list"
    and upd :: "('r list \<Rightarrow> 'r list) \<Rightarrow> db \<Rightarrow> db"
    and key :: "'r \<Rightarrow> int"
    and fits :: "'r \<Rightarrow> bool" +
  fixes change :: "'r \<Rightarrow> 'r \<Rightarrow> 'r"
  assumes key_change: "key (change r x) = key x"
    and change_change: "change r (change r x) = change r x"
    and change_self: "change r r = r"
    and fits_change: "fits r \<Longrightarrow> fits (change r x)"
    and wf_replace: "wf_db d \<Longrightarrow> cs (upd (other_rows key x) d) x = None \<Longrightarrow> fits x \<Longrightarrow>
      wf_db (upd (replace_row key x) d)"
    and wf_row: "wf_db d \<Longrightarrow> x \<in> set (get d) \<Longrightarrow> cs (upd (other_rows key x) d) x = None"
begin

abbreviation settled :: "'r \<Rightarrow> db \<Rightarrow> bool" where
  "settled \<equiv> row_settled get key change"

lemma upsert_cases:
  assumes "upsert_row cs get upd key change r d = (Inr u, d')"
  obtains (insert) "\<forall>x \<in> set (get d). key x \<noteq> key r" "cs d r = None" "d' = upd (\<lambda>rs. rs @ [r]) d"
  | (change) x where "x \<in> set (get d)" "key x = key r" "cs (upd (other_rows key x) d) (change r x) = None"
      "d' = upd (replace_row key (change r x)) d"
  using assms
  by (auto simp: upsert_row_def dest!: first_where_SomeD split: option.splits)

lemma upsert_wf:
  assumes "wf_db d" and "fits r" and "upsert_row cs get upd key change r d = (Inr u, d')"
  shows "wf_db d'"
  using assms(3)
proof (cases rule: upsert_cases)
  case insert
  with assms show ?thesis by (simp add: wf_append)
next
  case (change x)
  then have "other_rows key x = other_rows key (change r x)"
    by (simp add: other_rows_def key_change)
  with change assms show ?thesis by (simp add: wf_replace fits_change)
qed

lemma upsert_settles:
  assumes "upsert_row cs get upd key change r d = (Inr u, d')"
  shows "settled r d'" and "key q \<noteq> key r \<Longrightarrow> settled q d \<Longrightarrow> settled q d'"
proof -
  show "settled r d'" using assms
  proof (cases rule: upsert_cases)
    case insert
    then show ?thesis by (simp add: row_settled_def get_upd change_self)
  next
    case (change x)
    then have "change r x \<in> set (get d')"
      by (force simp: get_upd replace_row_def set_update_where key_change)
    with change(2) show ?thesis unfolding row_settled_def by (metis key_change change_change)
  qed
  assume q: "key q \<noteq> key r" "settled q d"
  from assms show "settled q d'"
  proof (cases rule: upsert_cases)
    case insert
    with q(2) show ?thesis by (auto simp: row_settled_def get_upd)
  next
    case (change x)
    with q show ?thesis
      by (fastforce simp: row_settled_def get_upd replace_row_def set_update_where key_change)
  qed
qed

lemma upsert_settled:
  assumes "wf_db d" and "settled r d"
  shows "upsert_row cs get upd key change r d = (Inr (), d)"
proof -
  obtain x where x: "x \<in> set (get d)" "key x = key r" "change r x = x"
    using assms(2) by (auto simp: row_settled_def)
  have "first_where (\<lambda>y. key y = key r) (get d) = Some x"
    using first_where_unique [OF keys_distinct [OF assms(1)] x(1)] x(2) by simp
  moreover have "y = x" if "y \<in> set (get d)" "key y = key x" for y
    using that x(1) keys_distinct [OF assms(1)] by (auto simp: distinct_map inj_on_def)
  then have "replace_row key x (get d) = get d"
    unfolding replace_row_def update_where_def by (intro map_idI) auto
  ultimately show ?thesis
    by (simp add: upsert_row_def x(3) wf_row [OF assms(1) x(1)] upd_same)
qed

lemma each_upsert:
  assumes "wf_db d" and "\<forall>r \<in> set rs. fits r" and "distinct (map key rs)"
    and "each_row (upsert_row cs get upd key change) rs d = (Inr u, d')"
  shows "wf_db d' \<and> (\<forall>r \<in> set rs. settled r d') \<and> (\<forall>q. key q \<notin> key ` set rs \<longrightarrow> settled q d \<longrightarrow> settled q d')"
  using assms
proof (induction rs arbitrary: d)
  case Nil
  then show ?case by (simp add: each_row_def cmd_simps)
next
  case (Cons r rs)
  from Cons.prems(4) obtain d1 where 1: "upsert_row cs get upd key change r d = (Inr (), d1)"
    and 2: "each_row (upsert_row cs get upd key change) rs d1 = (Inr u, d')"
    by (auto simp: each_row_def cmd_bind_Inr_iff)
  have fits: "fits r" "\<forall>r \<in> set rs. fits r" using Cons.prems(2) by simp_all
  have keys: "key r \<notin> key ` set rs" "distinct (map key rs)" using Cons.prems(3) by simp_all
  from Cons.IH [OF upsert_wf [OF Cons.prems(1) fits(1) 1] fits(2) keys(2) 2] upsert_settles [OF 1] keys(1)
  show ?case by auto
qed

lemma each_upsert_settled:
  "wf_db d \<Longrightarrow> \<forall>r \<in> set rs. settled r d \<Longrightarrow>
     each_row (upsert_row cs get upd key change) rs d = (Inr (), d)"
  by (induction rs) (simp_all add: each_row_def cmd_bind_run cmd_simps upsert_settled)

lemma each_upsert_fresh:
  assumes "get d = []" and "distinct (map key rs)"
    and "\<And>n. n < length rs \<Longrightarrow> cs (upd (\<lambda>_. take n rs) d) (rs ! n) = None"
  shows "each_row (upsert_row cs get upd key change) rs d = (Inr (), upd (\<lambda>_. rs) d)"
proof (rule each_row_fresh [OF _ assms])
  fix r d
  assume "key r \<notin> key ` set (get d)" and cs: "cs d r = None"
  then have "first_where (\<lambda>x. key x = key r) (get d) = None" unfolding first_where_None by (metis image_eqI)
  with cs show "upsert_row cs get upd key change r d = (Inr (), upd (\<lambda>rs. rs @ [r]) d)"
    by (simp add: upsert_row_def del: first_where_None)
qed

end

section \<open>The four tables\<close>

lemma replace_row_absent: "key x \<notin> key ` set rs \<Longrightarrow> replace_row key x rs = rs"
  unfolding replace_row_def by (rule update_where_id) (metis image_eqI)

lemma map_key_replace: "map key (replace_row key x rs) = map key rs"
  by (induction rs) (auto simp: replace_row_def)

lemma set_replace_row: "set (replace_row key x rs) \<subseteq> insert x (set (other_rows key x rs))"
  by (auto simp: replace_row_def other_rows_def set_update_where)

lemma distinct_replace:
  assumes "distinct (map key rs)" and "distinct (map k rs)" and "k x \<notin> k ` set (other_rows key x rs)"
  shows "distinct (map k (replace_row key x rs))"
  using assms
proof (induction rs)
  case (Cons a rs)
  show ?case
  proof (cases "key a = key x")
    case True
    with Cons.prems(1) have new: "key x \<notin> key ` set rs" by auto
    then have "other_rows key x rs = rs"
      unfolding other_rows_def by (intro filter_True ballI) (metis image_eqI)
    with True have "other_rows key x (a # rs) = rs" by (simp add: other_rows_def)
    with Cons.prems(3) have "k x \<notin> k ` set rs" by simp
    with True Cons.prems(2) replace_row_absent [OF new] show ?thesis
      by (simp add: replace_row_def)
  next
    case False
    then have "k a \<noteq> k x" using Cons.prems(3) by (auto simp: other_rows_def)
    moreover have "k a \<notin> k ` set (other_rows key x rs)"
      using Cons.prems(2) by (auto simp: other_rows_def)
    moreover have "distinct (map k (replace_row key x rs))"
      using Cons.IH Cons.prems False by (simp add: other_rows_def)
    ultimately show ?thesis
      using False set_replace_row [of key x rs] by (auto simp: replace_row_def)
  qed
qed (simp add: replace_row_def)

lemma ball_replace_row: "\<forall>r \<in> set rs. Q r \<Longrightarrow> Q x \<Longrightarrow> \<forall>r \<in> set (replace_row key x rs). Q r"
  by (auto simp: replace_row_def set_update_where)

lemma wf_replace_user:
  assumes "wf_db d" and "users_constraints (users_update (other_rows u_id x) d) x = None" and "int4 (u_balance x)"
  shows "wf_db (users_update (replace_row u_id x) d)"
proof -
  have x: "user_ok x" "u_email x \<notin> u_email ` set (other_rows u_id x (users d))"
    using assms(2,3) by (auto simp: users_constraints_def user_ok_def split: option.splits if_splits)
  have u: "distinct (map u_id (users d))" "distinct (map u_email (users d))" "\<forall>r \<in> set (users d). user_ok r"
    using assms(1) by (auto simp: wf_db_def users_ok_def)
  have "users_ok (replace_row u_id x (users d))"
    using distinct_replace [OF u(1,2) x(2)] ball_replace_row [OF u(3) x(1)] u(1)
    by (simp add: users_ok_def map_key_replace)
  moreover have "u_id ` set (replace_row u_id x (users d)) = u_id ` set (users d)"
    by (metis map_key_replace set_map)
  ultimately show ?thesis using assms(1) by (simp add: wf_db_def ids_defs)
qed

lemma wf_replace_product:
  assumes "wf_db d" and "products_constraints (products_update (other_rows p_id x) d) x = None"
    and "int4 (p_price x)" and "int4 (p_stock_quantity x)"
  shows "wf_db (products_update (replace_row p_id x) d)"
proof -
  have x: "product_ok x \<and> p_owner_id x \<in> user_ids d"
    using assms(2-4) by (auto simp: products_constraints_def product_ok_def ids_defs split: option.splits if_splits)
  have p: "distinct (map p_id (products d))" "\<forall>r \<in> set (products d). product_ok r \<and> p_owner_id r \<in> user_ids d"
    using assms(1) by (auto simp: wf_db_def products_ok_def)
  have "products_ok (user_ids d) (replace_row p_id x (products d))"
    using ball_replace_row [where Q = "\<lambda>r. product_ok r \<and> p_owner_id r \<in> user_ids d", OF p(2) x] p(1)
    by (simp add: products_ok_def map_key_replace)
  moreover have "p_id ` set (replace_row p_id x (products d)) = p_id ` set (products d)"
    by (metis map_key_replace set_map)
  ultimately show ?thesis using assms(1) by (simp add: wf_db_def ids_defs)
qed

interpretation seed_users: upsert_table users_constraints users users_update u_id "\<lambda>r. int4 (u_balance r)" user_change
proof
  fix d x
  assume "wf_db d" and x: "x \<in> set (users d)"
  then have "distinct (map u_email (users d))" "user_ok x" by (auto simp: wf_db_def users_ok_def)
  with x show "users_constraints (users_update (other_rows u_id x) d) x = None"
    by (fastforce simp: users_constraints_def user_ok_def other_rows_def distinct_map inj_on_def)
qed (auto simp: wf_keys wf_append_user wf_replace_user user_change_def comp_def intro: wf_keys)

interpretation seed_products: upsert_table products_constraints products products_update p_id
  "\<lambda>r. int4 (p_price r) \<and> int4 (p_stock_quantity r)" product_change
proof
  fix d x
  assume "wf_db d" and x: "x \<in> set (products d)"
  then have "product_ok x" "p_owner_id x \<in> user_ids d" by (auto simp: wf_db_def products_ok_def)
  with x show "products_constraints (products_update (other_rows p_id x) d) x = None"
    by (auto simp: products_constraints_def product_ok_def other_rows_def ids_defs)
qed (auto simp: wf_keys wf_append_product wf_replace_product product_change_def)

interpretation seed_orders: keyed_table orders_constraints orders orders_update o_id "\<lambda>r. int4 (o_total_amount r)"
  by unfold_locales (auto simp: wf_keys wf_append_order)

interpretation seed_items: keyed_table order_items_constraints order_items order_items_update oi_id "\<lambda>_. True"
  by unfold_locales (auto simp: wf_keys wf_append_item)

section \<open>What the seed leaves behind\<close>

text \<open>What \<open>COALESCE(MAX(id), 1)\<close> is to be, said of the identifiers themselves.\<close>

definition greatest_or_one :: "int \<Rightarrow> int list \<Rightarrow> bool" where
  "greatest_or_one m is \<longleftrightarrow> (if is = [] then m = 1 else m \<in> set is \<and> (\<forall>i \<in> set is. i \<le> m))"

lemma max_id_greatest [simp]: "greatest_or_one (max_id is) is"
  by (simp add: greatest_or_one_def max_id_def)

definition sequences_at_max :: "db \<Rightarrow> bool" where
  "sequences_at_max d \<longleftrightarrow> greatest_or_one (sq_users (seqs d)) (map u_id (users d)) \<and>
     greatest_or_one (sq_products (seqs d)) (map p_id (products d)) \<and>
     greatest_or_one (sq_orders (seqs d)) (map o_id (orders d)) \<and>
     greatest_or_one (sq_items (seqs d)) (map oi_id (order_items d)) \<and>
     greatest_or_one (sq_tasks (seqs d)) (map t_id (tasks d))"

lemma greatest_or_one_upper: "greatest_or_one m is \<Longrightarrow> i \<in> set is \<Longrightarrow> i \<le> m"
  by (auto simp: greatest_or_one_def split: if_splits)

definition seeded :: "db \<Rightarrow> bool" where
  "seeded d \<longleftrightarrow> (\<forall>r \<in> set SEED_USERS. row_settled users u_id user_change r d) \<and>
     (\<forall>r \<in> set SEED_PRODUCTS. r \<in> set (products d)) \<and>
     o_id ` set SEED_ORDERS \<subseteq> o_id ` set (orders d) \<and> oi_id ` set SEED_ITEMS \<subseteq> oi_id ` set (order_items d)"

definition credentials_set :: "string \<Rightarrow> db \<Rightarrow> bool" where
  "credentials_set hash d \<longleftrightarrow> (\<forall>u \<in> set (users d). demo_account u \<longrightarrow>
     u_password_hash u = Some hash \<and> u_role u = demo_role (u_email u))"

lemma seed_rows_fit:
  "\<forall>r \<in> set SEED_USERS. int4 (u_balance r)"
  "\<forall>r \<in> set SEED_PRODUCTS. int4 (p_price r) \<and> int4 (p_stock_quantity r)"
  "\<forall>r \<in> set SEED_ORDERS. int4 (o_total_amount r)" "\<forall>r \<in> set SEED_ITEMS. True"
  "distinct (map u_id SEED_USERS)" "distinct (map p_id SEED_PRODUCTS)"
  by (simp_all add: SEED_USERS_def SEED_PRODUCTS_def SEED_ORDERS_def seed_user_def seed_product_def
      seed_order_def int4_def)

lemma each_row_frame:
  assumes "\<And>r d u d'. f r d = (u, d') \<Longrightarrow> g d' = g d"
  shows "each_row f rs d = (u, d') \<Longrightarrow> g d' = g d"
proof (induction rs arbitrary: d)
  case (Cons r rs)
  then show ?case
    using assms [of r d] by (auto simp: each_row_def cmd_bind_def split: prod.splits sum.splits)
qed (simp add: each_row_def cmd_simps)

lemma each_upsert_frame:
  assumes "\<And>f d. g (upd f d) = g d" and "each_row (upsert_row cs get upd key change) rs d = (u, d')"
  shows "g d' = g d"
  using assms(2)
  by (rule each_row_frame [rotated]) (auto simp: assms(1) upsert_row_def split: option.splits)

lemma each_missing_frame:
  assumes "\<And>f d. g (upd f d) = g d" and "each_row (insert_missing cs get upd key) rs d = (u, d')"
  shows "g d' = g d"
  using assms(2)
  by (rule each_row_frame [rotated]) (auto simp: assms(1) insert_missing_def split: option.splits if_splits)

lemma settled_product: "row_settled products p_id product_change r d \<longleftrightarrow> r \<in> set (products d)"
proof -
  have eq: "product_change r x = x \<longleftrightarrow> x = r" if "p_id x = p_id r" for x
    using that by (cases r; cases x) (auto simp: product_change_def)
  then show ?thesis by (auto simp: row_settled_def)
qed

lemma set_credentials_wf: "wf_db d \<Longrightarrow> wf_db (set_credentials hash d)"
  unfolding set_credentials_def
  by (rule wf_update_users) (auto simp: user_ok_def user_checks_def split: if_splits)

lemma user_change_same:
  "user_change r x = x \<longleftrightarrow> u_email x = u_email r \<and> u_full_name x = u_full_name r \<and> u_balance x = u_balance r"
  by (cases x) (auto simp: user_change_def)

lemma set_credentials_settled:
  assumes "row_settled users u_id user_change r d"
  shows "row_settled users u_id user_change r (set_credentials hash d)"
proof -
  obtain x where x: "x \<in> set (users d)" "u_id x = u_id r" "user_change r x = x"
    using assms by (auto simp: row_settled_def)
  let ?x = "if demo_account x then x\<lparr>u_password_hash := Some hash, u_role := demo_role (u_email x)\<rparr> else x"
  have "?x \<in> set (users (set_credentials hash d))"
    using x(1) by (auto simp: set_credentials_def set_update_where)
  moreover have "u_id ?x = u_id r" "user_change r ?x = ?x"
    using x(2,3) unfolding user_change_same by simp_all
  ultimately show ?thesis unfolding row_settled_def by blast
qed

lemma set_credentials_tables [simp]:
  "products (set_credentials h d) = products d" "orders (set_credentials h d) = orders d"
  "order_items (set_credentials h d) = order_items d" "tasks (set_credentials h d) = tasks d"
  "seqs (set_credentials h d) = seqs d" "map u_id (users (set_credentials h d)) = map u_id (users d)"
  by (simp_all add: set_credentials_def map_update_where)

lemma credentials_set_credentials: "credentials_set hash (set_credentials hash d)"
  by (auto simp: credentials_set_def set_credentials_def set_update_where demo_account_def)

lemma seed_tables_outcome:
  assumes "wf_db d" and "seed_tables hash d = (Inr u, d')"
  shows "wf_db d' \<and> seeded d' \<and> credentials_set hash d' \<and> seqs d' = seqs d"
proof -
  obtain d1 d3 d4 where 1: "each_row upsert_user SEED_USERS d = (Inr (), d1)"
    and 3: "each_row upsert_product SEED_PRODUCTS (set_credentials hash d1) = (Inr (), d3)"
    and 4: "each_row missing_order SEED_ORDERS d3 = (Inr (), d4)"
    and 5: "each_row missing_item SEED_ITEMS d4 = (Inr u, d')"
    using assms(2) by (auto simp: seed_tables_def cmd_bind_Inr_iff cmd_simps)
  note p1 = seed_users.each_upsert [OF assms(1) seed_rows_fit(1,5) 1]
  then have "wf_db (set_credentials hash d1)" by (simp add: set_credentials_wf)
  note p3 = seed_products.each_upsert [OF this seed_rows_fit(2,6) 3]
  note p4 = seed_orders.each_missing [OF p3 [THEN conjunct1] seed_rows_fit(3) 4]
  note p5 = seed_items.each_missing [OF p4 [THEN conjunct1] seed_rows_fit(4) 5]
  have u: "users d' = users (set_credentials hash d1)"
    using each_upsert_frame [where g = users, OF _ 3]
      each_missing_frame [where g = users, OF _ 4]
      each_missing_frame [where g = users, OF _ 5] by simp
  have p: "products d' = products d3"
    using each_missing_frame [where g = products, OF _ 4]
      each_missing_frame [where g = products, OF _ 5] by simp
  have o: "orders d' = orders d4"
    using each_missing_frame [where g = orders, OF _ 5] by simp
  have s: "seqs d' = seqs d"
    using each_upsert_frame [where g = seqs, OF _ 1]
      each_upsert_frame [where g = seqs, OF _ 3]
      each_missing_frame [where g = seqs, OF _ 4]
      each_missing_frame [where g = seqs, OF _ 5] by simp
  have "\<forall>r \<in> set SEED_USERS. row_settled users u_id user_change r d'"
    using p1 set_credentials_settled u by (simp add: row_settled_def)
  moreover have "credentials_set hash d'"
    using credentials_set_credentials [of hash d1] u by (simp add: credentials_set_def)
  ultimately show ?thesis
    using p3 p4 p5 p o s by (auto simp: seeded_def settled_product key_present_def)
qed

lemma setval_max_Inr:
  "setval_max upd ids d = (Inr u, d') \<longleftrightarrow>
     1 \<le> max_id (ids d) \<and> d' = d\<lparr>seqs := upd (\<lambda>_. max_id (ids d)) (seqs d)\<rparr>"
  by (auto simp: setval_max_def Let_def)

lemma seed_sequences_Inr:
  "seed_sequences d = (Inr u, d') \<longleftrightarrow>
     1 \<le> max_id (map u_id (users d)) \<and> 1 \<le> max_id (map p_id (products d)) \<and>
     1 \<le> max_id (map o_id (orders d)) \<and> 1 \<le> max_id (map oi_id (order_items d)) \<and>
     1 \<le> max_id (map t_id (tasks d)) \<and>
     d' = d\<lparr>seqs := (seqs d)\<lparr>sq_users := max_id (map u_id (users d)),
       sq_products := max_id (map p_id (products d)), sq_orders := max_id (map o_id (orders d)),
       sq_items := max_id (map oi_id (order_items d)), sq_tasks := max_id (map t_id (tasks d))\<rparr>\<rparr>"
  by (auto simp: seed_sequences_def cmd_bind_Inr_iff setval_max_Inr)

lemma seed_Inr:
  assumes "seed cr random d = (Inr u, d')"
  obtains d1 where "seed_tables (hashPassword cr random DEMO_PASSWORD) d = (Inr (), d1)"
    and "seed_sequences d1 = (Inr u, d')"
  using assms by (auto simp: seed_def cmd_transaction_Inr_iff cmd_bind_Inr_iff)

lemma seeded_seqs [simp]: "seeded (d\<lparr>seqs := q\<rparr>) \<longleftrightarrow> seeded d"
  by (simp add: seeded_def row_settled_def)

lemma credentials_set_seqs [simp]: "credentials_set h (d\<lparr>seqs := q\<rparr>) \<longleftrightarrow> credentials_set h d"
  by (simp add: credentials_set_def)

lemma seed_run:
  assumes "wf_db d" and "seed cr random d = (Inr u, d')"
  shows "wf_db d' \<and> seeded d' \<and> credentials_set (hashPassword cr random DEMO_PASSWORD) d' \<and>
    sequences_at_max d' \<and> seed_sequences d' = (Inr (), d')"
  using assms(2)
proof (rule seed_Inr)
  fix d1
  assume t: "seed_tables (hashPassword cr random DEMO_PASSWORD) d = (Inr (), d1)"
    and s: "seed_sequences d1 = (Inr u, d')"
  obtain q where d': "d' = d1\<lparr>seqs := q\<rparr>" and "sequences_at_max d'"
    using s by (auto simp: seed_sequences_Inr sequences_at_max_def)
  moreover have "seed_sequences d' = (Inr (), d')"
    using s by (simp add: seed_sequences_Inr)
  ultimately show ?thesis using seed_tables_outcome [OF assms(1) t] by (simp add: wf_db_seqs)
qed


lemma seed_again:
  assumes "wf_db d" and "seeded d" and "seed_sequences (set_credentials h d) = (Inr (), set_credentials h d)"
    and "h = hashPassword cr random DEMO_PASSWORD"
  shows "seed cr random d = (Inr (), set_credentials h d)"
proof -
  let ?d = "set_credentials h d"
  have wf: "wf_db ?d" by (rule set_credentials_wf [OF assms(1)])
  have "each_row upsert_user SEED_USERS d = (Inr (), d)"
    using assms(2) by (intro seed_users.each_upsert_settled [OF assms(1)]) (simp add: seeded_def)
  moreover have "each_row upsert_product SEED_PRODUCTS ?d = (Inr (), ?d)"
    using assms(2) by (intro seed_products.each_upsert_settled [OF wf]) (simp add: seeded_def settled_product)
  moreover have "each_row missing_order SEED_ORDERS ?d = (Inr (), ?d)"
    using assms(2) by (intro seed_orders.each_missing_skips) (auto simp: seeded_def key_present_def)
  moreover have "each_row missing_item SEED_ITEMS ?d = (Inr (), ?d)"
    using assms(2) by (intro seed_items.each_missing_skips) (auto simp: seeded_def key_present_def)
  ultimately show ?thesis
    using assms(3,4) by (simp add: seed_def seed_tables_def cmd_transaction_def cmd_bind_run cmd_simps)
qed

text \<open>C38: seeding a seeded database again succeeds and changes nothing but the password hashes of the
  demonstration accounts, which get the new salt.\<close>
theorem seed_twice:
  assumes "wf_db d" and "seed cr random d = (Inr u, d')"
  shows "seed cr random' d' = (Inr (), set_credentials (hashPassword cr random' DEMO_PASSWORD) d')"
proof (rule seed_again)
  note run = seed_run [OF assms]
  show "wf_db d'" "seeded d'" using run by simp_all
  let ?d = "set_credentials (hashPassword cr random' DEMO_PASSWORD) d'"
  have "set_credentials h (d\<lparr>seqs := q\<rparr>) = (set_credentials h d)\<lparr>seqs := q\<rparr>" for h d q
    by (simp add: set_credentials_def)
  with run show "seed_sequences ?d = (Inr (), ?d)"
    unfolding seed_sequences_Inr by simp (metis set_credentials_tables(5))
qed simp

section \<open>A fresh database\<close>

text \<open>Into empty tables the rows go as they stand.\<close>

lemma nth_not_earlier:
  assumes "distinct (map k rs)" and "n < length rs"
  shows "k (rs ! n) \<notin> k ` set (take n rs)"
proof
  assume "k (rs ! n) \<in> k ` set (take n rs)"
  then obtain m where "m < n" "k (rs ! m) = k (rs ! n)"
    using assms(2) by (auto simp: in_set_conv_nth)
  with assms show False by (auto simp: distinct_conv_nth)
qed

lemma pg_trim_utf8: "c \<noteq> 32 \<Longrightarrow> c < 2048 \<Longrightarrow> pg_trim (utf8 (c # cs)) \<noteq> []"
proof -
  assume c: "c \<noteq> 32" "c < 2048"
  have "of_char x \<noteq> (32 :: nat)" if "utf8_char c = x # xs" for x xs
    using c that by (auto simp: utf8_char_def split: if_splits)
  then have "x \<noteq> CHR '' ''" if "utf8_char c = x # xs" for x xs
    using that by force
  then show ?thesis
    by (cases "utf8_char c") (auto simp: pg_trim_def utf8_def utf8_char_def dropWhile_eq_Nil_conv split: if_splits)
qed

lemma seed_rows_checked:
  "\<forall>r \<in> set SEED_USERS. user_checks r = None" "\<forall>r \<in> set SEED_PRODUCTS. product_checks r = None"
  "\<forall>r \<in> set SEED_PRODUCTS. p_owner_id r \<in> u_id ` set SEED_USERS"
  "\<forall>r \<in> set SEED_ORDERS. 0 \<le> o_total_amount r \<and> o_user_id r \<in> u_id ` set SEED_USERS"
  "\<forall>r \<in> set SEED_ITEMS. 0 < oi_quantity r \<and> 0 < oi_unit_price r \<and>
     oi_order_id r \<in> o_id ` set SEED_ORDERS \<and> oi_product_id r \<in> p_id ` set SEED_PRODUCTS"
  "distinct (map u_email SEED_USERS)" "distinct (map o_id SEED_ORDERS)" "distinct (map oi_id SEED_ITEMS)"
  by (simp_all add: SEED_USERS_def SEED_PRODUCTS_def SEED_ORDERS_def SEED_ITEMS_def seed_user_def seed_product_def
      seed_order_def seed_item_def user_checks_def product_checks_def pg_trim_utf8)
     (simp add: pg_trim_def)?

text \<open>The total of every seeded order is the sum of its items.\<close>

lemma seed_totals:
  "\<forall>r \<in> set SEED_ORDERS. o_total_amount r =
     sum_list (map (\<lambda>i. oi_quantity i * oi_unit_price i) (filter (\<lambda>i. oi_order_id i = o_id r) SEED_ITEMS))"
  by (simp add: SEED_ORDERS_def SEED_ITEMS_def seed_order_def seed_item_def)


definition seeded_tables :: "string \<Rightarrow> db" where
  "seeded_tables hash = (set_credentials hash (empty_db\<lparr>users := SEED_USERS\<rparr>))
     \<lparr>products := SEED_PRODUCTS, orders := SEED_ORDERS, order_items := SEED_ITEMS\<rparr>"

lemma seed_fresh:
  "n < length SEED_USERS \<Longrightarrow>
     users_constraints (users_update (\<lambda>_. take n SEED_USERS) d) (SEED_USERS ! n) = None"
  "u_id ` set (users d) = u_id ` set SEED_USERS \<Longrightarrow> n < length SEED_PRODUCTS \<Longrightarrow>
     products_constraints (products_update (\<lambda>_. take n SEED_PRODUCTS) d) (SEED_PRODUCTS ! n) = None"
  "u_id ` set (users d) = u_id ` set SEED_USERS \<Longrightarrow> n < length SEED_ORDERS \<Longrightarrow>
     orders_constraints (orders_update (\<lambda>_. take n SEED_ORDERS) d) (SEED_ORDERS ! n) = None"
  "orders d = SEED_ORDERS \<Longrightarrow> products d = SEED_PRODUCTS \<Longrightarrow> n < length SEED_ITEMS \<Longrightarrow>
     order_items_constraints (order_items_update (\<lambda>_. take n SEED_ITEMS) d) (SEED_ITEMS ! n) = None"
     apply (use bspec [OF seed_rows_checked(1) nth_mem] nth_not_earlier [OF seed_rows_fit(5)]
       nth_not_earlier [OF seed_rows_checked(6)] in \<open>simp add: users_constraints_def\<close>)
    apply (use bspec [OF seed_rows_checked(2) nth_mem] bspec [OF seed_rows_checked(3) nth_mem]
      nth_not_earlier [OF seed_rows_fit(6)] in \<open>simp add: products_constraints_def\<close>)
   apply (use bspec [OF seed_rows_checked(4) nth_mem] nth_not_earlier [OF seed_rows_checked(7)]
     in \<open>simp add: orders_constraints_def not_less\<close>)
  apply (use bspec [OF seed_rows_checked(5) nth_mem] nth_not_earlier [OF seed_rows_checked(8)]
    in \<open>simp add: order_items_constraints_def not_le\<close>)
  done

lemma seed_tables_empty: "seed_tables hash empty_db = (Inr (), seeded_tables hash)"
proof -
  let ?d = "set_credentials hash (empty_db\<lparr>users := SEED_USERS\<rparr>)"
  have "map u_id (users ?d) = map u_id SEED_USERS" unfolding set_credentials_tables by simp
  then have ids: "u_id ` set (users ?d) = u_id ` set SEED_USERS" by (metis set_map)
  have empty: "users empty_db = []" "products ?d = []" "orders (?d\<lparr>products := SEED_PRODUCTS\<rparr>) = []"
    "order_items (?d\<lparr>products := SEED_PRODUCTS, orders := SEED_ORDERS\<rparr>) = []"
    by (simp_all add: empty_db_def)
  have "each_row upsert_user SEED_USERS empty_db = (Inr (), empty_db\<lparr>users := SEED_USERS\<rparr>)"
    using seed_users.each_upsert_fresh [OF empty(1) seed_rows_fit(5) seed_fresh(1)] by simp
  moreover have "each_row upsert_product SEED_PRODUCTS ?d = (Inr (), ?d\<lparr>products := SEED_PRODUCTS\<rparr>)"
    using seed_products.each_upsert_fresh [OF empty(2) seed_rows_fit(6) seed_fresh(2) [OF ids]] by simp
  moreover have "each_row missing_order SEED_ORDERS (?d\<lparr>products := SEED_PRODUCTS\<rparr>) =
      (Inr (), ?d\<lparr>products := SEED_PRODUCTS, orders := SEED_ORDERS\<rparr>)"
    using seed_orders.each_missing_fresh [OF empty(3) seed_rows_checked(7) seed_fresh(3)] ids by simp
  moreover have "each_row missing_item SEED_ITEMS (?d\<lparr>products := SEED_PRODUCTS, orders := SEED_ORDERS\<rparr>) =
      (Inr (), seeded_tables hash)"
    using seed_items.each_missing_fresh [OF empty(4) seed_rows_checked(8) seed_fresh(4)]
    by (simp add: seeded_tables_def)
  ultimately show ?thesis by (simp add: seed_tables_def cmd_bind_run cmd_simps)
qed


text \<open>Seeding a freshly migrated database succeeds.\<close>

lemma seed_empty:
  "seed cr random empty_db = (Inr (), (seeded_tables (hashPassword cr random DEMO_PASSWORD))
     \<lparr>seqs := (seqs empty_db)\<lparr>sq_users := 10, sq_products := 10, sq_orders := 10, sq_items := 14, sq_tasks := 1\<rparr>\<rparr>)"
proof -
  let ?d = "seeded_tables (hashPassword cr random DEMO_PASSWORD)"
  have "map u_id (users ?d) = map u_id SEED_USERS"
    using set_credentials_tables(6) [of "hashPassword cr random DEMO_PASSWORD" "empty_db\<lparr>users := SEED_USERS\<rparr>"]
    by (simp add: seeded_tables_def)
  then have "map u_id (users ?d) = [1, 2, 3, 4, 5, 6, 7, 8, 9, 10]"
    by (simp add: SEED_USERS_def seed_user_def)
  moreover have "map p_id (products ?d) = [1, 2, 3, 4, 5, 6, 7, 8, 9, 10]"
    by (simp add: seeded_tables_def SEED_PRODUCTS_def seed_product_def)
  moreover have "map o_id (orders ?d) = [1, 2, 3, 4, 5, 6, 7, 8, 9, 10]"
    by (simp add: seeded_tables_def SEED_ORDERS_def seed_order_def)
  moreover have "map oi_id (order_items ?d) = [1, 2, 3, 4, 5, 6, 7, 8, 9, 10, 11, 12, 13, 14]"
    by (simp add: seeded_tables_def SEED_ITEMS_def seed_item_def)
  moreover have "map t_id (tasks ?d) = []" "seqs ?d = seqs empty_db"
    by (simp_all add: seeded_tables_def empty_db_def)
  ultimately have "seed_sequences ?d = (Inr (), ?d\<lparr>seqs := (seqs empty_db)\<lparr>sq_users := 10, sq_products := 10,
      sq_orders := 10, sq_items := 14, sq_tasks := 1\<rparr>\<rparr>)"
    unfolding seed_sequences_Inr by (simp add: max_id_def)
  then show ?thesis
    by (simp add: seed_def cmd_transaction_def cmd_bind_run seed_tables_empty)
qed

lemma wf_empty_db: "wf_db empty_db"
  by (simp add: wf_db_def empty_db_def users_ok_def products_ok_def orders_ok_def items_ok_def tasks_ok_def
      outbox_ok_def processed_ok_def effects_ok_def idem_ok_def refresh_ok_def denylist_ok_def files_ok_def
      ids_defs)


theorem seed_twice_witness:
  "\<exists>d d'. seed sample_crypto [1, 2] empty_db = (Inr (), d) \<and> seed sample_crypto [3] d = (Inr (), d') \<and>
     orders d' = orders d"
  using seed_twice [OF wf_empty_db seed_empty, of sample_crypto "[3]" "[1, 2]"] seed_empty [of sample_crypto "[1, 2]"]
  by (metis set_credentials_tables(2))

end
