(* ===== verification/OrderEvents.thy ===== *)
theory OrderEvents
  imports Database
begin

text \<open>
  \<open>src/orders/order-events.service.ts\<close> and the server-sent-event stream of
  \<open>src/orders/orders.controller.ts\<close>: numbered status events, a bounded replay buffer per
  order, and the open connections the events are written to. Event handlers run to
  completion, so opening a stream (replay, then subscribe) and emitting an event are atomic
  steps; a sequence of them is a \<open>hub_op list\<close>.
\<close>

section \<open>The events service\<close>

record status_event =
  ev_id :: int
  ev_order_id :: int
  ev_status :: order_status
  ev_occurred_at :: string

record events_state =
  es_buffers :: "int \<Rightarrow> status_event list option"
  es_next_event_id :: int

definition MAX_BUFFERED_EVENTS_PER_ORDER :: nat where
  "MAX_BUFFERED_EVENTS_PER_ORDER = 100"

definition init_events :: events_state where
  "init_events = \<lparr>es_buffers = (\<lambda>_. None), es_next_event_id = 1\<rparr>"

definition buffer_of :: "events_state \<Rightarrow> int \<Rightarrow> status_event list" where
  "buffer_of st order_id = (case es_buffers st order_id of None \<Rightarrow> [] | Some b \<Rightarrow> b)"

definition emitStatusChanged ::
  "int \<Rightarrow> order_status \<Rightarrow> string \<Rightarrow> events_state \<Rightarrow> status_event \<times> events_state" where
  "emitStatusChanged order_id status now st =
     (let event = \<lparr>ev_id = es_next_event_id st, ev_order_id = order_id, ev_status = status,
                   ev_occurred_at = now\<rparr>;
          buffer = buffer_of st order_id @ [event];
          buffer' = (if MAX_BUFFERED_EVENTS_PER_ORDER < length buffer
                     then drop (length buffer - MAX_BUFFERED_EVENTS_PER_ORDER) buffer else buffer)
      in (event, \<lparr>es_buffers = (es_buffers st)(order_id := Some buffer'),
                  es_next_event_id = es_next_event_id st + 1\<rparr>))"

definition getEventsAfter :: "events_state \<Rightarrow> int \<Rightarrow> int \<Rightarrow> status_event list" where
  "getEventsAfter st order_id last_event_id =
     filter (\<lambda>event. last_event_id < ev_id event) (buffer_of st order_id)"

section \<open>Streams\<close>

text \<open>\<open>parseLastEventId\<close>: anything that is not a non-negative integer means 0.\<close>

definition parseLastEventId :: "string option \<Rightarrow> int" where
  "parseLastEventId value = (case value of
       None \<Rightarrow> 0
     | Some s \<Rightarrow>
         if s = [] then 0
         else (case number_of_string s of
             IntN i \<Rightarrow> (if i < 0 then 0 else i)
           | _ \<Rightarrow> 0))"

definition newline :: char where "newline = CHR 0x0A"
definition quote :: char where "quote = CHR 0x22"

text \<open>The three writes of \<open>writeSseEvent\<close>.\<close>

definition writeSseEvent :: "status_event \<Rightarrow> string list" where
  "writeSseEvent event =
     [''id: '' @ show_int (ev_id event) @ [newline],
      ''event: order.status'' @ [newline],
      ''data: {'' @ [quote] @ ''orderId'' @ [quote] @ '':'' @ show_int (ev_order_id event) @ '',''
        @ [quote] @ ''status'' @ [quote] @ '':'' @ [quote] @ status_name (ev_status event) @ [quote] @ '',''
        @ [quote] @ ''occurredAt'' @ [quote] @ '':'' @ [quote] @ ev_occurred_at event @ [quote] @ ''}''
        @ [newline, newline]]"

record sse_conn =
  sc_order_id :: int
  sc_written :: "string list"

record hub =
  hb_events :: events_state
  hb_conns :: "nat \<Rightarrow> sse_conn option"

definition init_hub :: hub where
  "init_hub = \<lparr>hb_events = init_events, hb_conns = (\<lambda>_. None)\<rparr>"

definition conn_receive :: "status_event \<Rightarrow> sse_conn \<Rightarrow> sse_conn" where
  "conn_receive event c =
     (if ev_order_id event \<noteq> sc_order_id c then c
      else c\<lparr>sc_written := sc_written c @ writeSseEvent event\<rparr>)"

text \<open>The stream part of \<open>streamOrderEvents\<close>: header, replay, subscription.\<close>

definition openStream :: "nat \<Rightarrow> int \<Rightarrow> string option \<Rightarrow> hub \<Rightarrow> hub" where
  "openStream c order_id last_event_id_header h =
     (let missed = getEventsAfter (hb_events h) order_id (parseLastEventId last_event_id_header)
      in h\<lparr>hb_conns := (hb_conns h)(c := Some
           \<lparr>sc_order_id = order_id,
            sc_written = (''retry: 1000'' @ [newline, newline]) # concat (map writeSseEvent missed)\<rparr>)\<rparr>)"

definition hubEmit :: "int \<Rightarrow> order_status \<Rightarrow> string \<Rightarrow> hub \<Rightarrow> status_event \<times> hub" where
  "hubEmit order_id status now h =
     (let (event, st) = emitStatusChanged order_id status now (hb_events h)
      in (event, \<lparr>hb_events = st, hb_conns = (\<lambda>c. map_option (conn_receive event) (hb_conns h c))\<rparr>))"

definition closeStream :: "nat \<Rightarrow> hub \<Rightarrow> hub" where
  "closeStream c h = h\<lparr>hb_conns := (hb_conns h)(c := None)\<rparr>"

datatype hub_op =
    Emit int order_status string
  | Open nat int "string option"
  | Close nat

fun hub_step :: "hub_op \<Rightarrow> hub \<Rightarrow> status_event list \<times> hub" where
  "hub_step (Emit i s t) h = (let (e, h') = hubEmit i s t h in ([e], h'))"
| "hub_step (Open c i l) h = ([], openStream c i l h)"
| "hub_step (Close c) h = ([], closeStream c h)"

text \<open>A run also returns the log of all events emitted in it.\<close>

fun hub_run :: "hub_op list \<Rightarrow> hub \<Rightarrow> status_event list \<times> hub" where
  "hub_run [] h = ([], h)"
| "hub_run (x # xs) h =
     (let (es, h') = hub_step x h; (es', h'') = hub_run xs h' in (es @ es', h''))"

text \<open>The log of a run depends on the next number only.\<close>

fun log_of :: "hub_op list \<Rightarrow> int \<Rightarrow> status_event list" where
  "log_of [] n = []"
| "log_of (Emit i s t # xs) n =
     \<lparr>ev_id = n, ev_order_id = i, ev_status = s, ev_occurred_at = t\<rparr> # log_of xs (n + 1)"
| "log_of (_ # xs) n = log_of xs n"

lemma fst_hub_run: "fst (hub_run xs h) = log_of xs (es_next_event_id (hb_events h))"
  by (induction xs "es_next_event_id (hb_events h)" arbitrary: h rule: log_of.induct)
    (simp_all add: hubEmit_def emitStatusChanged_def openStream_def closeStream_def Let_def split_beta)

lemma hub_run_log: "hub_run xs h = (es, h') \<Longrightarrow> es = log_of xs (es_next_event_id (hb_events h))"
  using fst_hub_run [of xs h] by simp

section \<open>The buffer is the tail of the log\<close>

definition last_n :: "nat \<Rightarrow> 'a list \<Rightarrow> 'a list" where
  "last_n n xs = drop (length xs - n) xs"

lemma last_n_short: "length xs \<le> n \<Longrightarrow> last_n n xs = xs"
  by (simp add: last_n_def)

lemma length_last_n [simp]: "length (last_n n xs) = min n (length xs)"
  by (simp add: last_n_def)

lemma last_n_snoc: "last_n n (last_n n xs @ [x]) = last_n n (xs @ [x])"
  by (cases "length xs \<le> n") (auto simp: last_n_def Suc_diff_le)

lemma sorted_wrt_last_n: "sorted_wrt P xs \<Longrightarrow> sorted_wrt P (last_n n xs)"
  by (simp add: last_n_def sorted_wrt_drop)

text \<open>
  The state of the service after \<open>log\<close> was emitted: the events of the log are numbered
  from 1 on, and each buffer holds the last events of its order.
\<close>

definition events_for :: "int \<Rightarrow> status_event list \<Rightarrow> status_event list" where
  "events_for order_id log = filter (\<lambda>e. ev_order_id e = order_id) log"

definition events_inv :: "status_event list \<Rightarrow> events_state \<Rightarrow> bool" where
  "events_inv log st \<longleftrightarrow>
     map ev_id log = [1 .. es_next_event_id st - 1] \<and> 1 \<le> es_next_event_id st \<and>
     (\<forall>i. buffer_of st i = last_n MAX_BUFFERED_EVENTS_PER_ORDER (events_for i log))"

lemma events_for_append [simp]: "events_for i (xs @ ys) = events_for i xs @ events_for i ys"
  by (simp add: events_for_def)

lemma events_inv_init: "events_inv [] init_events"
  by (simp add: events_inv_def init_events_def buffer_of_def events_for_def last_n_def)

lemma events_inv_emit:
  assumes "events_inv log st" and "emitStatusChanged i s t st = (e, st')"
  shows "events_inv (log @ [e]) st'"
proof -
  have e: "ev_id e = es_next_event_id st" "ev_order_id e = i"
    and nxt: "es_next_event_id st' = es_next_event_id st + 1"
    and buf: "buffer_of st' = (buffer_of st)(i := last_n MAX_BUFFERED_EVENTS_PER_ORDER (buffer_of st i @ [e]))"
    using assms(2)
    by (auto simp: emitStatusChanged_def Let_def buffer_of_def last_n_def)
  have "map ev_id (log @ [e]) = [1 .. es_next_event_id st' - 1]"
    using assms(1) e nxt by (simp add: events_inv_def upto_rec2 [of 1 "es_next_event_id st"])
  moreover have "buffer_of st' j = last_n MAX_BUFFERED_EVENTS_PER_ORDER (events_for j (log @ [e]))" for j
    using assms(1) e buf by (auto simp: events_inv_def last_n_snoc) (auto simp: events_for_def)
  ultimately show ?thesis using assms(1) nxt by (simp add: events_inv_def)
qed

lemma hub_run_inv:
  "events_inv log (hb_events h) \<Longrightarrow> hub_run xs h = (es, h') \<Longrightarrow> events_inv (log @ es) (hb_events h')"
proof (induction xs arbitrary: log h es)
  case (Cons x xs)
  obtain es1 h1 where s: "hub_step x h = (es1, h1)" by fastforce
  obtain es2 where r: "hub_run xs h1 = (es2, h')" and es: "es = es1 @ es2"
    using Cons.prems(2) s by (auto split: prod.splits)
  have "events_inv (log @ es1) (hb_events h1)"
    using s Cons.prems(1)
    by (cases x) (auto simp: hubEmit_def openStream_def closeStream_def Let_def
        intro: events_inv_emit split: prod.splits)
  from Cons.IH [OF this r] es show ?case by simp
qed simp

lemma upto_sorted: "sorted_wrt (<) [a .. b :: int]"
  by (induction a b rule: upto.induct) (subst upto.simps, auto)

lemma events_inv_increasing: "events_inv log st \<Longrightarrow> sorted_wrt (\<lambda>a b. ev_id a < ev_id b) log"
  using upto_sorted by (metis events_inv_def sorted_wrt_map)

text \<open>The replay is complete as long as no more than a buffer's worth is missing.\<close>

lemma getEventsAfter_complete:
  assumes "events_inv log st"
    and "length (filter (\<lambda>e. L < ev_id e) (events_for i log)) \<le> MAX_BUFFERED_EVENTS_PER_ORDER"
  shows "getEventsAfter st i L = filter (\<lambda>e. L < ev_id e) (events_for i log)"
proof -
  let ?xs = "events_for i log" and ?n = "MAX_BUFFERED_EVENTS_PER_ORDER"
  have incr: "sorted_wrt (\<lambda>a b. ev_id a < ev_id b) ?xs"
    unfolding events_for_def by (rule sorted_wrt_filter) (rule events_inv_increasing [OF assms(1)])
  have "filter (\<lambda>e. L < ev_id e) (last_n n xs) = filter (\<lambda>e. L < ev_id e) xs"
    if "sorted_wrt (\<lambda>a b. ev_id a < ev_id b) xs" "length (filter (\<lambda>e. L < ev_id e) xs) \<le> n"
    for xs :: "status_event list" and n
    using that
  proof (induction xs)
    case (Cons x xs)
    show ?case
    proof (cases "L < ev_id x")
      case True
      with Cons.prems(1) have "filter (\<lambda>e. L < ev_id e) xs = xs"
        by (auto intro!: filter_True)
      with True Cons.prems(2) show ?thesis by (simp add: last_n_short)
    next
      case False
      then have "filter (\<lambda>e. L < ev_id e) (last_n n (x # xs)) = filter (\<lambda>e. L < ev_id e) (last_n n xs)"
        by (cases "length xs < n") (auto simp: last_n_def Suc_diff_le not_less)
      with False Cons show ?thesis by simp
    qed
  qed (simp add: last_n_def)
  then show ?thesis
    using assms incr by (simp add: getEventsAfter_def events_inv_def)
qed

text \<open>After it was opened, a stream that stays open receives every event of its order.\<close>

definition leaves_open :: "nat \<Rightarrow> hub_op \<Rightarrow> bool" where
  "leaves_open c x \<longleftrightarrow> (\<forall>i l. x \<noteq> Open c i l) \<and> x \<noteq> Close c"

lemma hub_run_open:
  "hub_run xs h = (es, h') \<Longrightarrow> hb_conns h c = Some k \<Longrightarrow> list_all (leaves_open c) xs \<Longrightarrow>
     hb_conns h' c = Some (k\<lparr>sc_written := sc_written k @
        concat (map writeSseEvent (events_for (sc_order_id k) es))\<rparr>)"
proof (induction xs arbitrary: h es k)
  case Nil
  then show ?case by (simp add: events_for_def)
next
  case (Cons x xs)
  obtain es1 h1 where s: "hub_step x h = (es1, h1)" by fastforce
  obtain es2 where r: "hub_run xs h1 = (es2, h')" and es: "es = es1 @ es2"
    using Cons.prems(1) s by (auto split: prod.splits)
  have "hb_conns h1 c = Some (k\<lparr>sc_written := sc_written k @
      concat (map writeSseEvent (events_for (sc_order_id k) es1))\<rparr>)"
    using s Cons.prems(2,3)
    by (cases x) (auto simp: hubEmit_def openStream_def closeStream_def Let_def leaves_open_def
        conn_receive_def events_for_def split: prod.splits)
  from Cons.IH [OF r this] Cons.prems(3) es show ?case by simp
qed

section \<open>Properties\<close>

text \<open>C18: Whatever is emitted, opened and closed, events are numbered 1, 2, 3, ... without gaps,
  and the replay buffer of each order holds exactly its last events, never more than a hundred.\<close>

theorem events_buffered:
  assumes "hub_run ops init_hub = (log, h)"
  shows "map ev_id log = [1 .. int (length log)] \<and>
    buffer_of (hb_events h) i = last_n 100 (events_for i log) \<and>
    length (buffer_of (hb_events h) i) \<le> 100"
proof -
  have "events_inv ([] @ log) (hb_events h)"
    by (rule hub_run_inv [OF _ assms]) (simp add: init_hub_def events_inv_init)
  then have inv: "events_inv log (hb_events h)" by simp
  from inv have "length log = length [1 .. es_next_event_id (hb_events h) - 1]"
    unfolding events_inv_def by (metis length_map)
  with inv have "es_next_event_id (hb_events h) - 1 = int (length log)"
    by (simp add: events_inv_def)
  with inv show ?thesis by (simp add: events_inv_def MAX_BUFFERED_EVENTS_PER_ORDER_def)
qed

lemma events_buffered_witness:
  "length (buffer_of (hb_events (snd (hub_run (replicate 3 (Emit 7 Paid ''t'')) init_hub))) 7) \<le> 100"
  using events_buffered [of "replicate 3 (Emit 7 Paid ''t'')" _ _ 7] by (metis prod.collapse)

lemma last_id_1: "parseLastEventId (Some ''1'') = 1"
  by (simp add: parseLastEventId_def number_of_string_def js_trim_def js_space_def read_decimal_def
      is_digit_def digit_val_def dec_value_def)

lemma length_written: "length (concat (map writeSseEvent es)) = 3 * length es"
  by (induction es) (simp_all add: writeSseEvent_def)

text \<open>A stream opened with a Last-Event-ID replays, in order, every event of its order with a
  larger number (when at most a hundred of them exist) and then writes every later event of
  that order as it is emitted: nothing is lost between the replay and the subscription, and
  events of other orders never appear.\<close>

theorem stream_complete:
  assumes "hub_run ops1 init_hub = (log1, h1)"
    and "hub_run ops2 (openStream c i header h1) = (log2, h2)"
    and "list_all (leaves_open c) ops2"
    and "length (filter (\<lambda>e. parseLastEventId header < ev_id e) (events_for i log1)) \<le> 100"
  shows "\<exists>k. hb_conns h2 c = Some k \<and> sc_written k = (''retry: 1000'' @ [newline, newline]) #
    concat (map writeSseEvent (filter (\<lambda>e. parseLastEventId header < ev_id e) (events_for i log1) @ events_for i log2))"
proof -
  have "events_inv ([] @ log1) (hb_events h1)"
    by (rule hub_run_inv [OF _ assms(1)]) (simp add: init_hub_def events_inv_init)
  then have missed: "getEventsAfter (hb_events h1) i (parseLastEventId header) =
      filter (\<lambda>e. parseLastEventId header < ev_id e) (events_for i log1)"
    using assms(4) by (intro getEventsAfter_complete) (simp_all add: MAX_BUFFERED_EVENTS_PER_ORDER_def)
  have "hb_conns (openStream c i header h1) c = Some \<lparr>sc_order_id = i,
      sc_written = (''retry: 1000'' @ [newline, newline]) # concat (map writeSseEvent
        (getEventsAfter (hb_events h1) i (parseLastEventId header)))\<rparr>"
    by (simp add: openStream_def Let_def)
  from hub_run_open [OF assms(2) this assms(3)] missed show ?thesis by simp
qed

lemma stream_complete_witness:
  "\<exists>k. hb_conns (snd (hub_run [Emit 7 Shipped ''t3''] (openStream 0 7 (Some ''1'')
       (snd (hub_run [Emit 7 Paid ''t1'', Emit 8 Paid ''t2'', Emit 7 Cancelled ''t2''] init_hub))))) 0 = Some k
     \<and> length (sc_written k) = 7"
proof -
  let ?ops1 = "[Emit 7 Paid ''t1'', Emit 8 Paid ''t2'', Emit 7 Cancelled ''t2'']"
  obtain log1 h1 where r1: "hub_run ?ops1 init_hub = (log1, h1)"
    by (rule prod.exhaust)
  obtain log2 h2 where r2: "hub_run [Emit 7 Shipped ''t3''] (openStream 0 7 (Some ''1'') h1) = (log2, h2)"
    by (rule prod.exhaust)
  have log1: "log1 = [\<lparr>ev_id = 1, ev_order_id = 7, ev_status = Paid, ev_occurred_at = ''t1''\<rparr>,
      \<lparr>ev_id = 2, ev_order_id = 8, ev_status = Paid, ev_occurred_at = ''t2''\<rparr>,
      \<lparr>ev_id = 3, ev_order_id = 7, ev_status = Cancelled, ev_occurred_at = ''t2''\<rparr>]"
    using hub_run_log [OF r1] by (simp add: init_hub_def init_events_def)
  have log2: "length (events_for 7 log2) = 1"
    using hub_run_log [OF r2] by (simp add: events_for_def)
  have missed: "length (filter (\<lambda>e. parseLastEventId (Some ''1'') < ev_id e) (events_for 7 log1)) = 1"
    by (simp add: last_id_1 log1 events_for_def)
  then have le: "length (filter (\<lambda>e. parseLastEventId (Some ''1'') < ev_id e) (events_for 7 log1)) \<le> 100"
    by simp
  have op: "list_all (leaves_open 0) [Emit 7 Shipped ''t3'']" by (simp add: leaves_open_def)
  from stream_complete [OF r1 r2 op le]
  obtain k where k: "hb_conns h2 0 = Some k"
    and w: "sc_written k = (''retry: 1000'' @ [newline, newline]) # concat (map writeSseEvent
      (filter (\<lambda>e. parseLastEventId (Some ''1'') < ev_id e) (events_for 7 log1) @ events_for 7 log2))"
    by blast
  have "length (sc_written k) = 7"
    unfolding w by (simp add: length_written missed log2)
  with k show ?thesis by (simp only: r1 r2 snd_conv) blast
qed

text \<open>A client that reconnects with the number of the last event it received gets exactly
  the events of its order emitted while it was away, followed by the new ones: none is
  repeated and none is missing, as long as it missed at most a hundred.\<close>

theorem stream_resume:
  assumes "hub_run ops0 init_hub = (log0, h0)" and "hub_run ops1 h0 = (log1, h1)"
    and "hub_run ops2 (openStream c i header h1) = (log2, h2)" and "list_all (leaves_open c) ops2"
    and "events_for i log0 \<noteq> []" and "parseLastEventId header = ev_id (last (events_for i log0))"
    and "length (events_for i log1) \<le> 100"
  shows "\<exists>k. hb_conns h2 c = Some k \<and> sc_written k = (''retry: 1000'' @ [newline, newline]) #
    concat (map writeSseEvent (events_for i (log1 @ log2)))"
proof -
  have run: "hub_run (ops0 @ ops1) init_hub = (log0 @ log1, h1)"
  proof -
    have "hub_run (xs @ ys) h = (let (es, h') = hub_run xs h; (es', h'') = hub_run ys h' in (es @ es', h''))"
      for xs ys h by (induction xs arbitrary: h) (auto simp: Let_def split: prod.splits)
    with assms(1,2) show ?thesis by simp
  qed
  have "events_inv ([] @ log0 @ log1) (hb_events h1)"
    by (rule hub_run_inv [OF _ run]) (simp add: init_hub_def events_inv_init)
  then have "sorted_wrt (\<lambda>a b. ev_id a < ev_id b) (events_for i (log0 @ log1))"
    unfolding events_for_def by (simp only: append_Nil) (rule sorted_wrt_filter [OF events_inv_increasing])
  then have s: "sorted_wrt (\<lambda>a b. ev_id a < ev_id b) (events_for i log0)"
    "\<forall>a \<in> set (events_for i log0). \<forall>b \<in> set (events_for i log1). ev_id a < ev_id b"
    by (simp_all add: sorted_wrt_append)
  let ?L = "ev_id (last (events_for i log0))"
  have "\<forall>b \<in> set (events_for i log1). ?L < ev_id b"
    using s(2) assms(5) by simp
  moreover have "\<forall>a \<in> set (events_for i log0). \<not> ?L < ev_id a"
  proof -
    have "a = last xs \<or> ev_id a < ev_id (last xs)"
      if "sorted_wrt (\<lambda>a b. ev_id a < ev_id b) xs" "a \<in> set xs" for a xs
      using that by (induction xs) (auto split: if_splits)
    with s(1) show ?thesis by force
  qed
  ultimately have "filter (\<lambda>e. parseLastEventId header < ev_id e) (events_for i (log0 @ log1)) = events_for i log1"
    by (simp add: assms(6) filter_empty_conv)
  with assms(7) have "length (filter (\<lambda>e. parseLastEventId header < ev_id e) (events_for i (log0 @ log1))) \<le> 100"
    and f: "filter (\<lambda>e. parseLastEventId header < ev_id e) (events_for i (log0 @ log1)) = events_for i log1"
    by simp_all
  note replayed = stream_complete [OF run assms(3,4) this(1)]
  show ?thesis
    by (subst events_for_append) (rule replayed [unfolded f])
qed

lemma stream_resume_witness:
  "\<exists>k. hb_conns (snd (hub_run [] (openStream 0 7 (Some ''1'')
       (snd (hub_run [Emit 8 Paid ''t2'', Emit 7 Cancelled ''t2''] (snd (hub_run [Emit 7 Paid ''t1''] init_hub))))))) 0
     = Some k \<and> length (sc_written k) = 4"
proof -
  obtain log0 h0 where r0: "hub_run [Emit 7 Paid ''t1''] init_hub = (log0, h0)"
    by (rule prod.exhaust)
  obtain log1 h1 where r1: "hub_run [Emit 8 Paid ''t2'', Emit 7 Cancelled ''t2''] h0 = (log1, h1)"
    by (rule prod.exhaust)
  have r2: "hub_run [] (openStream 0 7 (Some ''1'') h1) = ([], openStream 0 7 (Some ''1'') h1)" by simp
  have log0: "log0 = [\<lparr>ev_id = 1, ev_order_id = 7, ev_status = Paid, ev_occurred_at = ''t1''\<rparr>]"
    using hub_run_log [OF r0] by (simp add: init_hub_def init_events_def)
  have e0: "events_for 7 log0 \<noteq> []" "parseLastEventId (Some ''1'') = ev_id (last (events_for 7 log0))"
    by (simp_all add: last_id_1 log0 events_for_def)
  have log1: "length (events_for 7 log1) = 1"
    using hub_run_log [OF r1] by (simp add: events_for_def)
  have l: "list_all (leaves_open 0) []" "length (events_for 7 log1) \<le> 100" by (simp_all add: log1)
  obtain k where k: "hb_conns (openStream 0 7 (Some ''1'') h1) 0 = Some k"
    and w: "sc_written k = (''retry: 1000'' @ [newline, newline]) #
      concat (map writeSseEvent (events_for 7 (log1 @ [])))"
    using stream_resume [OF r0 r1 r2 l(1) e0 l(2)] by (elim exE conjE)
  have len: "length (sc_written k) = 4"
    unfolding w by (simp add: length_written log1)
  show ?thesis
    unfolding r0 r1 r2 snd_conv using k len by (intro exI [of _ k] conjI)
qed

end
