(* ===== verification/Orders.thy ===== *)
theory Orders
  imports Checkout OrderEvents
begin

text \<open>
  \<open>src/orders\<close>: the orders service (create with an idempotency key, findById,
  updateStatus, belongsToUser), the controller in front of it and the WebSocket gateway that
  forwards status events to rooms.

  A request body is any JSON value: the TypeScript types of the source are not checked at run
  time. A transaction is one atomic step: the insert of the reservation makes a concurrent
  request with the same key wait for the commit or rollback of the first one.
\<close>

section \<open>Creating an order\<close>

record order_response =
  rp_id :: int
  rp_items :: jsval
  rp_total_cents :: int
  rp_status :: order_status

text \<open>\<open>INSERT \<dots> ON CONFLICT DO NOTHING RETURNING\<close> on the key: was it reserved now?\<close>

definition key_gate :: "string \<Rightarrow> db \<Rightarrow> bool \<times> db" where
  "key_gate key d =
     (if key \<in> ik_key ` set (idem_keys d) then (False, d)
      else (True, idem_keys_update (\<lambda>ks. ks @ [\<lparr>ik_key = key, ik_order_id = None\<rparr>]) d))"

definition reserve_key :: "string \<Rightarrow> (db, bool) cmd" where
  "reserve_key key = cmd_bind (varchar 200 key) (\<lambda>_. cmd_gate (key_gate key))"

definition bind_key :: "string \<Rightarrow> int \<Rightarrow> (db, unit) cmd" where
  "bind_key key order_id =
     cmd_write (idem_keys_update (update_where (\<lambda>r. ik_key r = key) (\<lambda>r. r\<lparr>ik_order_id := Some order_id\<rparr>)))"

text \<open>\<open>SELECT id FROM users ORDER BY id LIMIT 1\<close>\<close>

definition first_user :: "db \<Rightarrow> user_row option" where
  "first_user d = (case sort_key u_id (users d) of [] \<Rightarrow> None | u # _ \<Rightarrow> Some u)"

definition product_missing :: "int \<Rightarrow> err" where
  "product_missing p = BadRequest (''Product '' @ show_int p @ '' does not exist'')"

text \<open>The two fields of an item, as the integers they are once the item was validated.\<close>

definition item_int :: "string \<Rightarrow> jsval \<Rightarrow> int" where
  "item_int k item = (case integer_of (opt_prop item k) of None \<Rightarrow> 0 | Some i \<Rightarrow> i)"

abbreviation item_product :: "jsval \<Rightarrow> int" where "item_product \<equiv> item_int ''product_id''"
abbreviation item_quantity :: "jsval \<Rightarrow> int" where "item_quantity \<equiv> item_int ''quantity''"

text \<open>
  One round of the first loop. The condition reads \<open>item.product_id\<close> first, which throws
  on a \<open>null\<close> item.
\<close>

definition price_item :: "jsval \<Rightarrow> int \<Rightarrow> (db, int) cmd" where
  "price_item item totalAmount =
     cmd_bind (cmd_lift (get_prop item ''product_id'')) (\<lambda>_.
     if integer_of (opt_prop item ''product_id'') = None \<or> integer_of (opt_prop item ''quantity'') = None
        \<or> item_product item \<le> 0 \<or> item_quantity item \<le> 0
     then cmd_throw (BadRequest ''Invalid order item'')
     else
       cmd_bind (int8_param (item_product item)) (\<lambda>_.
       cmd_bind (cmd_read (\<lambda>d. first_where (\<lambda>r. p_id r = item_product item \<and> p_is_active r) (products d)))
         (\<lambda>product_opt. case product_opt of
            None \<Rightarrow> cmd_throw (product_missing (item_product item))
          | Some product \<Rightarrow> cmd_return (totalAmount + p_price product * item_quantity item))))"

text \<open>One round of the second loop.\<close>

definition add_item :: "int \<Rightarrow> jsval \<Rightarrow> unit \<Rightarrow> (db, unit) cmd" where
  "add_item order_id item _ =
     cmd_bind (int8_param (item_product item)) (\<lambda>_.
     cmd_bind (cmd_read (\<lambda>d. first_where (\<lambda>r. p_id r = item_product item) (products d)))
       (\<lambda>product_opt. case product_opt of
          None \<Rightarrow> cmd_throw (product_missing (item_product item))
        | Some product \<Rightarrow>
            cmd_bind (insert_order_item order_id (item_product item) (item_quantity item) (p_price product))
              (\<lambda>_. cmd_return ())))"

definition insertOrderPlacedOutbox :: "int \<Rightarrow> string \<Rightarrow> int \<Rightarrow> jsval \<Rightarrow> (db, outbox_row) cmd" where
  "insertOrderPlacedOutbox now event_id order_id event =
     insert_outbox event_id ''order'' (show_int order_id) ORDER_PLACED_TYPE event now"

definition items_json :: "order_item_row list \<Rightarrow> jsval" where
  "items_json rows = Arr (map (\<lambda>r. Obj [(''product_id'', Num (IntN (oi_product_id r))),
                                         (''quantity'', Num (IntN (oi_quantity r)))]) rows)"

text \<open>\<open>findById\<close> and \<open>findByIdWithClient\<close> send the same two queries.\<close>

definition findById :: "int \<Rightarrow> (db, order_response) cmd" where
  "findById i =
     cmd_bind (int8_param i) (\<lambda>_.
     cmd_bind (cmd_read (\<lambda>d. first_where (\<lambda>r. o_id r = i) (orders d))) (\<lambda>order_opt.
     case order_opt of
       None \<Rightarrow> cmd_throw (NotFound (''Order '' @ show_int i @ '' not found''))
     | Some order \<Rightarrow>
         cmd_bind (cmd_read (\<lambda>d. sort_key oi_id (filter (\<lambda>r. oi_order_id r = i) (order_items d)))) (\<lambda>rows.
         cmd_return \<lparr>rp_id = o_id order, rp_items = items_json rows,
                     rp_total_cents = o_total_amount order, rp_status = o_status order\<rparr>)))"

text \<open>The branch of a key that was there before.\<close>

definition replay_order :: "string \<Rightarrow> (db, order_response) cmd" where
  "replay_order key =
     cmd_bind (cmd_read (\<lambda>d. first_where (\<lambda>r. ik_key r = key) (idem_keys d))) (\<lambda>existing.
     case existing of
       None \<Rightarrow> cmd_throw (JsError ''Idempotency key exists without completed order'')
     | Some k \<Rightarrow>
         (case ik_order_id k of
            None \<Rightarrow> cmd_throw (JsError ''Idempotency key exists without completed order'')
          | Some i \<Rightarrow> findById i))"

text \<open>The branch of a new key.\<close>

definition place_order :: "string \<Rightarrow> int \<Rightarrow> jsval list \<Rightarrow> string \<Rightarrow> (db, order_response) cmd" where
  "place_order occurred_at now items key =
     cmd_bind (cmd_read first_user) (\<lambda>user_opt.
     case user_opt of
       None \<Rightarrow> cmd_throw (BadRequest ''No buyer available'')
     | Some user \<Rightarrow>
         cmd_bind (cmd_fold price_item items 0) (\<lambda>totalAmount.
         cmd_bind (insert_order (u_id user) totalAmount) (\<lambda>order.
         cmd_bind (cmd_fold (add_item (o_id order)) items ()) (\<lambda>_.
         cmd_bind (insertOrderPlacedOutbox now (order_event_id (o_id order)) (o_id order)
           (toOrderPlacedEvent (order_event_id (o_id order)) (o_id order) (u_id user)
              (map (\<lambda>item. (item_product item, item_quantity item)) items)
              (o_total_amount order) occurred_at)) (\<lambda>_.
         cmd_bind (bind_key key (o_id order)) (\<lambda>_.
         cmd_return \<lparr>rp_id = o_id order, rp_items = Arr items,
                     rp_total_cents = o_total_amount order, rp_status = o_status order\<rparr>))))))"

definition create :: "string \<Rightarrow> int \<Rightarrow> jsval \<Rightarrow> string \<Rightarrow> (db, order_response) cmd" where
  "create occurred_at now input idempotencyKey =
     cmd_bind (cmd_lift (get_prop input ''items'')) (\<lambda>v.
     case v of
       Arr items \<Rightarrow>
         if items = [] then cmd_throw (BadRequest ''Order must contain at least one item'')
         else if js_trim idempotencyKey = [] then cmd_throw (BadRequest ''Idempotency-Key must not be empty'')
         else transaction (
           cmd_bind (reserve_key idempotencyKey) (\<lambda>reserved.
           if reserved then place_order occurred_at now items idempotencyKey
           else replay_order idempotencyKey))
     | _ \<Rightarrow> cmd_throw (BadRequest ''Order must contain at least one item''))"

text \<open>\<open>POST /orders\<close>\<close>

definition createOrder :: "string \<Rightarrow> int \<Rightarrow> string option \<Rightarrow> jsval \<Rightarrow> (db, order_response) cmd" where
  "createOrder occurred_at now idempotencyKey body =
     (case idempotencyKey of
        None \<Rightarrow> cmd_throw (BadRequest ''Idempotency-Key header is required'')
      | Some key \<Rightarrow>
          if key = [] then cmd_throw (BadRequest ''Idempotency-Key header is required'')
          else create occurred_at now body key)"

section \<open>Ownership\<close>

definition belongsToUser :: "int \<Rightarrow> int \<Rightarrow> (db, bool) cmd" where
  "belongsToUser order_id user_id =
     cmd_bind (int8_param order_id) (\<lambda>_.
     cmd_bind (int8_param user_id) (\<lambda>_.
     cmd_read (\<lambda>d. first_where (\<lambda>r. o_id r = order_id \<and> o_user_id r = user_id) (orders d) \<noteq> None)))"

text \<open>
  \<open>GET /orders/:id\<close> behind the guard; \<open>sub\<close> is the subject of the verified token, if
  the guard set one. A subject that is not an integer is refused as a parameter.
\<close>

definition getOrderById :: "int \<Rightarrow> string option \<Rightarrow> (db, order_response) cmd" where
  "getOrderById i user_sub =
     (case user_sub of
        None \<Rightarrow> cmd_throw (Forbidden ''Access denied'')
      | Some sub \<Rightarrow>
          cmd_bind (case number_of_string sub of
              IntN userId \<Rightarrow> belongsToUser i userId
            | _ \<Rightarrow> cmd_bind (int8_param i) (\<lambda>_. cmd_throw (Pg InvalidTextRepresentation))) (\<lambda>belongs.
          if belongs then findById i else cmd_throw (Forbidden ''Order belongs to another user'')))"

section \<open>Status updates, streams and rooms\<close>

record ws_socket =
  ws_auth :: jsval
  ws_rooms :: "string list"
  ws_received :: "status_event list"

type_synonym gateway = "nat \<Rightarrow> ws_socket option"

definition getRoomName :: "int \<Rightarrow> string" where
  "getRoomName order_id = ''orders:'' @ show_int order_id"

text \<open>The subscription of \<open>afterInit\<close>: \<open>server.to(room).emit(\<dots>)\<close>.\<close>

definition gatewayDeliver :: "status_event \<Rightarrow> gateway \<Rightarrow> gateway" where
  "gatewayDeliver event g = (\<lambda>c. map_option (\<lambda>s.
     if getRoomName (ev_order_id event) \<in> set (ws_rooms s)
     then s\<lparr>ws_received := ws_received s @ [event]\<rparr> else s) (g c))"

type_synonym app = "db \<times> hub \<times> gateway"

definition emitEvent :: "int \<Rightarrow> order_status \<Rightarrow> string \<Rightarrow> (hub \<times> gateway, status_event) cmd" where
  "emitEvent order_id status at =
     (\<lambda>(h, g). let (event, h') = hubEmit order_id status at h in (Inr event, (h', gatewayDeliver event g)))"

definition status_of_name :: "jsval \<Rightarrow> order_status option" where
  "status_of_name v = first_where (\<lambda>s. v = Str (status_name s)) ORDER_STATUSES"

definition set_status :: "int \<Rightarrow> order_status \<Rightarrow> (db, order_row option) cmd" where
  "set_status i status =
     cmd_bind (int8_param i) (\<lambda>_.
     cmd_bind (cmd_write (orders_update (update_where (\<lambda>r. o_id r = i) (\<lambda>r. r\<lparr>o_status := status\<rparr>)))) (\<lambda>_.
     cmd_read (\<lambda>d. first_where (\<lambda>r. o_id r = i) (orders d))))"

text \<open>
  \<open>updateStatus\<close>; \<open>shown\<close> is how the runtime writes the refused value into the message.
\<close>

definition updateStatus :: "(jsval \<Rightarrow> string) \<Rightarrow> string \<Rightarrow> int \<Rightarrow> jsval \<Rightarrow> (app, order_response) cmd" where
  "updateStatus shown at i status =
     (case status_of_name status of
        None \<Rightarrow> cmd_throw (BadRequest (''Invalid order status: '' @ shown status))
      | Some st \<Rightarrow>
          cmd_bind (on_fst (set_status i st)) (\<lambda>order_opt.
          case order_opt of
            None \<Rightarrow> cmd_throw (NotFound (''Order '' @ show_int i @ '' not found''))
          | Some order \<Rightarrow>
              cmd_bind (on_snd (emitEvent (o_id order) (o_status order) at)) (\<lambda>_.
              on_fst (findById i))))"

text \<open>\<open>PATCH /orders/:id/status\<close>\<close>

definition updateOrderStatus :: "(jsval \<Rightarrow> string) \<Rightarrow> string \<Rightarrow> int \<Rightarrow> jsval \<Rightarrow> (app, order_response) cmd" where
  "updateOrderStatus shown at i body =
     cmd_bind (cmd_lift (get_prop body ''status'')) (\<lambda>status. updateStatus shown at i status)"

text \<open>\<open>GET /orders/:id/events\<close>: a missing order is refused before the stream opens.\<close>

definition streamOrderEvents :: "nat \<Rightarrow> int \<Rightarrow> string option \<Rightarrow> (app, unit) cmd" where
  "streamOrderEvents c i last_event_id_header =
     cmd_bind (on_fst (findById i)) (\<lambda>_.
     on_snd (on_fst (cmd_write (openStream c i last_event_id_header))))"

datatype join_response = JoinOk string | JoinError string

definition joinRoom :: "nat \<Rightarrow> string \<Rightarrow> gateway \<Rightarrow> gateway" where
  "joinRoom c room g = g(c := map_option (\<lambda>s. s\<lparr>ws_rooms := room # ws_rooms s\<rparr>) (g c))"

definition positive_int :: "jsval \<Rightarrow> int option" where
  "positive_int v = (case to_number v of IntN i \<Rightarrow> (if i \<le> 0 then None else Some i) | _ \<Rightarrow> None)"

definition joinOrderRoom :: "nat \<Rightarrow> ws_socket \<Rightarrow> jsval \<Rightarrow> (app, join_response) cmd" where
  "joinOrderRoom c client payload =
     (case positive_int (opt_prop payload ''orderId'') of
        None \<Rightarrow> cmd_return (JoinError ''Invalid order id'')
      | Some orderId \<Rightarrow>
          (case positive_int (opt_prop (ws_auth client) ''userId'') of
             None \<Rightarrow> cmd_return (JoinError ''Unauthorized'')
           | Some userId \<Rightarrow>
               cmd_bind (on_fst (belongsToUser orderId userId)) (\<lambda>ownsOrder.
               if \<not> ownsOrder then cmd_return (JoinError ''Order does not belong to this user'')
               else cmd_bind (on_snd (on_snd (cmd_write (joinRoom c (getRoomName orderId))))) (\<lambda>_.
                    cmd_return (JoinOk (getRoomName orderId))))))"

section \<open>What creating an order does\<close>

definition price_of :: "db \<Rightarrow> int \<Rightarrow> int" where
  "price_of d p = (case first_where (\<lambda>r. p_id r = p) (products d) of None \<Rightarrow> 0 | Some r \<Rightarrow> p_price r)"

definition order_total :: "db \<Rightarrow> jsval list \<Rightarrow> int" where
  "order_total d items = sum_list (map (\<lambda>i. price_of d (item_product i) * item_quantity i) items)"

definition item_sellable :: "db \<Rightarrow> jsval \<Rightarrow> bool" where
  "item_sellable d item \<longleftrightarrow> 0 < item_product item \<and> 0 < item_quantity item \<and>
     (\<exists>r \<in> set (products d). p_id r = item_product item \<and> p_is_active r)"

fun item_rows :: "db \<Rightarrow> int \<Rightarrow> int \<Rightarrow> jsval list \<Rightarrow> order_item_row list" where
  "item_rows d order_id n [] = []"
| "item_rows d order_id n (i # items) =
     \<lparr>oi_id = n + 1, oi_order_id = order_id, oi_product_id = item_product i,
      oi_quantity = item_quantity i, oi_unit_price = price_of d (item_product i)\<rparr>
     # item_rows d order_id (n + 1) items"

definition placed_event :: "string \<Rightarrow> db \<Rightarrow> user_row \<Rightarrow> jsval list \<Rightarrow> jsval" where
  "placed_event at d u items = toOrderPlacedEvent (order_event_id (sq_orders (seqs d) + 1))
     (sq_orders (seqs d) + 1) (u_id u) (map (\<lambda>i. (item_product i, item_quantity i)) items)
     (order_total d items) at"

definition after_create :: "string \<Rightarrow> int \<Rightarrow> user_row \<Rightarrow> jsval list \<Rightarrow> string \<Rightarrow> db \<Rightarrow> db" where
  "after_create at now u items key d =
     d\<lparr>orders := orders d @ [\<lparr>o_id = sq_orders (seqs d) + 1, o_user_id = u_id u, o_status = Created,
                               o_total_amount = order_total d items\<rparr>],
       order_items := order_items d @ item_rows d (sq_orders (seqs d) + 1) (sq_items (seqs d)) items,
       outbox := outbox d @ [\<lparr>ob_id = sq_outbox (seqs d) + 1,
          ob_event_id = order_event_id (sq_orders (seqs d) + 1), ob_aggregate_type = ''order'',
          ob_aggregate_id = show_int (sq_orders (seqs d) + 1), ob_type = ORDER_PLACED_TYPE,
          ob_payload = placed_event at d u items, ob_created_at = now,
          ob_published_at = None, ob_attempts = 0\<rparr>],
       idem_keys := idem_keys d @ [\<lparr>ik_key = key, ik_order_id = Some (sq_orders (seqs d) + 1)\<rparr>],
       seqs := (seqs d)\<lparr>sq_orders := sq_orders (seqs d) + 1,
          sq_items := sq_items (seqs d) + int (length items), sq_outbox := sq_outbox (seqs d) + 1\<rparr>\<rparr>"

lemma price_item_Inr:
  assumes "distinct (map p_id (products d))" and "price_item item t d = (Inr t', d')"
  shows "d' = d \<and> item_sellable d item \<and> t' = t + price_of d (item_product item) * item_quantity item"
proof -
  from assms(2) obtain r where
    r: "first_where (\<lambda>r. p_id r = item_product item \<and> p_is_active r) (products d) = Some r"
    and pos: "0 < item_product item" "0 < item_quantity item"
    and t': "t' = t + p_price r * item_quantity item" and d': "d' = d"
    by (auto simp: price_item_def cmd_bind_Inr_iff cmd_simps split: if_splits option.splits)
  from first_where_SomeD [OF r] have m: "r \<in> set (products d)" "p_id r = item_product item" "p_is_active r"
    by simp_all
  with first_where_unique [OF assms(1) m(1)] have "price_of d (item_product item) = p_price r"
    by (simp add: price_of_def)
  with m pos t' d' show ?thesis by (auto simp: item_sellable_def)
qed

lemma price_items_Inr:
  assumes "distinct (map p_id (products d))" and "cmd_fold price_item items t d = (Inr t', d')"
  shows "d' = d \<and> (\<forall>i \<in> set items. item_sellable d i) \<and> t' = t + order_total d items"
  using assms(2)
proof (induction items arbitrary: t)
  case Nil
  then show ?case by (simp add: cmd_simps order_total_def)
next
  case (Cons i items)
  then obtain t1 d1 where i: "price_item i t d = (Inr t1, d1)"
    and k: "cmd_fold price_item items t1 d1 = (Inr t', d')"
    by (auto simp: cmd_bind_Inr_iff)
  from price_item_Inr [OF assms(1) i] k Cons.IH [of t1] show ?case
    by (simp add: order_total_def)
qed

lemma add_item_Inr:
  assumes "add_item oid item x d = (Inr y, d')"
  shows "d' = d\<lparr>order_items := order_items d @ [\<lparr>oi_id = sq_items (seqs d) + 1, oi_order_id = oid,
             oi_product_id = item_product item, oi_quantity = item_quantity item,
             oi_unit_price = price_of d (item_product item)\<rparr>],
           seqs := (seqs d)\<lparr>sq_items := sq_items (seqs d) + 1\<rparr>\<rparr>"
  using assms
  by (auto simp: add_item_def cmd_bind_Inr_iff cmd_simps insert_order_item_Inr price_of_def
      split: option.splits dest: first_where_SomeD)

lemma add_items_Inr:
  assumes "cmd_fold (add_item oid) items x d = (Inr y, d')"
  shows "d' = d\<lparr>order_items := order_items d @ item_rows d oid (sq_items (seqs d)) items,
           seqs := (seqs d)\<lparr>sq_items := sq_items (seqs d) + int (length items)\<rparr>\<rparr>"
  using assms
proof (induction items arbitrary: x d)
  case Nil
  then show ?case by (simp add: cmd_simps)
next
  case (Cons i items)
  then obtain x1 d1 where i: "add_item oid i x d = (Inr x1, d1)"
    and k: "cmd_fold (add_item oid) items x1 d1 = (Inr y, d')"
    by (auto simp: cmd_bind_Inr_iff)
  have rows: "item_rows d1 oid n js = item_rows d oid n js" for n js
    using add_item_Inr [OF i] by (induction js arbitrary: n) (simp_all add: price_of_def)
  from Cons.IH [OF k] rows add_item_Inr [OF i] show ?case by (simp add: algebra_simps)
qed

lemma place_order_Inr:
  assumes "distinct (map p_id (products d))" and "key \<notin> ik_key ` set (idem_keys d)"
    and "place_order at now items key (d\<lparr>idem_keys := idem_keys d @ [\<lparr>ik_key = key, ik_order_id = None\<rparr>]\<rparr>)
           = (Inr res, d')"
  shows "\<exists>u. first_user d = Some u \<and> (\<forall>i \<in> set items. item_sellable d i) \<and>
    d' = after_create at now u items key d \<and>
    res = \<lparr>rp_id = sq_orders (seqs d) + 1, rp_items = Arr items,
           rp_total_cents = order_total d items, rp_status = Created\<rparr>"
proof -
  let ?d0 = "d\<lparr>idem_keys := idem_keys d @ [\<lparr>ik_key = key, ik_order_id = None\<rparr>]\<rparr>"
  have same: "item_sellable ?d0 i = item_sellable d i" "price_of ?d0 p = price_of d p"
    "order_total ?d0 items = order_total d items" for i p
    by (simp_all add: item_sellable_def price_of_def order_total_def)
  have fu: "first_user ?d0 = first_user d" by (simp add: first_user_def)
  have k0: "update_where (\<lambda>r. ik_key r = key) f (idem_keys d) = idem_keys d" for f
    using assms(2) by (intro update_where_id) auto
  from assms(3) obtain u where u: "first_user d = Some u" and
    k: "cmd_bind (cmd_fold price_item items 0) (\<lambda>totalAmount.
         cmd_bind (insert_order (u_id u) totalAmount) (\<lambda>order.
         cmd_bind (cmd_fold (add_item (o_id order)) items ()) (\<lambda>_.
         cmd_bind (insertOrderPlacedOutbox now (order_event_id (o_id order)) (o_id order)
           (toOrderPlacedEvent (order_event_id (o_id order)) (o_id order) (u_id u)
              (map (\<lambda>item. (item_product item, item_quantity item)) items)
              (o_total_amount order) at)) (\<lambda>_.
         cmd_bind (bind_key key (o_id order)) (\<lambda>_.
         cmd_return \<lparr>rp_id = o_id order, rp_items = Arr items,
                     rp_total_cents = o_total_amount order, rp_status = o_status order\<rparr>))))) ?d0 = (Inr res, d')"
    unfolding place_order_def by (auto simp: cmd_bind_run [of "cmd_read _"] cmd_simps fu split: option.splits)
  from k obtain t d1 where t: "cmd_fold price_item items 0 ?d0 = (Inr t, d1)" and
    k1: "cmd_bind (insert_order (u_id u) t) (\<lambda>order.
         cmd_bind (cmd_fold (add_item (o_id order)) items ()) (\<lambda>_.
         cmd_bind (insertOrderPlacedOutbox now (order_event_id (o_id order)) (o_id order)
           (toOrderPlacedEvent (order_event_id (o_id order)) (o_id order) (u_id u)
              (map (\<lambda>item. (item_product item, item_quantity item)) items)
              (o_total_amount order) at)) (\<lambda>_.
         cmd_bind (bind_key key (o_id order)) (\<lambda>_.
         cmd_return \<lparr>rp_id = o_id order, rp_items = Arr items,
                     rp_total_cents = o_total_amount order, rp_status = o_status order\<rparr>)))) d1 = (Inr res, d')"
    unfolding cmd_bind_Inr_iff [of "cmd_fold price_item items 0"] by blast
  have "distinct (map p_id (products ?d0))" using assms(1) by simp
  from price_items_Inr [OF this t] same
  have d1: "d1 = ?d0" and sell: "\<forall>i \<in> set items. item_sellable d i" and tt: "t = order_total d items"
    by simp_all
  define ord where "ord = \<lparr>o_id = sq_orders (seqs d) + 1, o_user_id = u_id u, o_status = Created,
                               o_total_amount = order_total d items\<rparr>"
  define d2 where "d2 = ?d0\<lparr>orders := orders d @ [ord], seqs := (seqs d)\<lparr>sq_orders := sq_orders (seqs d) + 1\<rparr>\<rparr>"
  from k1 have
    k2: "cmd_bind (cmd_fold (add_item (o_id ord)) items ()) (\<lambda>_.
         cmd_bind (insertOrderPlacedOutbox now (order_event_id (o_id ord)) (o_id ord)
           (toOrderPlacedEvent (order_event_id (o_id ord)) (o_id ord) (u_id u)
              (map (\<lambda>item. (item_product item, item_quantity item)) items)
              (o_total_amount ord) at)) (\<lambda>_.
         cmd_bind (bind_key key (o_id ord)) (\<lambda>_.
         cmd_return \<lparr>rp_id = o_id ord, rp_items = Arr items,
                     rp_total_cents = o_total_amount ord, rp_status = o_status ord\<rparr>))) d2 = (Inr res, d')"
    unfolding cmd_bind_Inr_iff [of "insert_order _ _"] insert_order_Inr d1 tt ord_def d2_def by force
  from k2 obtain y d3 where y: "cmd_fold (add_item (o_id ord)) items () d2 = (Inr y, d3)" and
    k3: "cmd_bind (insertOrderPlacedOutbox now (order_event_id (o_id ord)) (o_id ord)
           (toOrderPlacedEvent (order_event_id (o_id ord)) (o_id ord) (u_id u)
              (map (\<lambda>item. (item_product item, item_quantity item)) items)
              (o_total_amount ord) at)) (\<lambda>_.
         cmd_bind (bind_key key (o_id ord)) (\<lambda>_.
         cmd_return \<lparr>rp_id = o_id ord, rp_items = Arr items,
                     rp_total_cents = o_total_amount ord, rp_status = o_status ord\<rparr>)) d3 = (Inr res, d')"
    unfolding cmd_bind_Inr_iff [of "cmd_fold _ _ _"] by blast
  have rows: "item_rows d2 oid n js = item_rows d oid n js" for oid n js
    by (induction js arbitrary: n) (simp_all add: price_of_def d2_def)
  have d3: "d3 = ?d0\<lparr>orders := orders d @ [ord],
      order_items := order_items d @ item_rows d (o_id ord) (sq_items (seqs d)) items,
      seqs := (seqs d)\<lparr>sq_orders := sq_orders (seqs d) + 1, sq_items := sq_items (seqs d) + int (length items)\<rparr>\<rparr>"
    using add_items_Inr [OF y] unfolding rows by (simp add: d2_def)
  from k3 have "d' = after_create at now u items key d \<and>
    res = \<lparr>rp_id = sq_orders (seqs d) + 1, rp_items = Arr items,
           rp_total_cents = order_total d items, rp_status = Created\<rparr>"
    by (auto simp: cmd_bind_Inr_iff cmd_simps insertOrderPlacedOutbox_def insert_outbox_Inr bind_key_def d3
        after_create_def ord_def placed_event_def k0)
  with u sell show ?thesis by blast
qed

lemma reserve_key_Inr:
  "reserve_key key d = (Inr b, d') \<longleftrightarrow> length key \<le> 200 \<and>
     (if key \<in> ik_key ` set (idem_keys d) then \<not> b \<and> d' = d
      else b \<and> d' = d\<lparr>idem_keys := idem_keys d @ [\<lparr>ik_key = key, ik_order_id = None\<rparr>]\<rparr>)"
  by (cases d) (auto simp: reserve_key_def varchar_def key_gate_def cmd_bind_Inr_iff cmd_simps)

lemma findById_state [simp]: "snd (findById i d) = d"
  by (auto simp: findById_def cmd_bind_run cmd_simps split: sum.splits option.splits)

lemma findById_same: "findById i d = (r, d') \<Longrightarrow> d' = d"
  by (metis findById_state snd_conv)

lemma replay_order_Inr:
  assumes "replay_order key d = (Inr res, d')"
  obtains k i where "k \<in> set (idem_keys d)" and "ik_key k = key" and "ik_order_id k = Some i"
    and "d' = d" and "findById i d = (Inr res, d)"
proof -
  from assms obtain k i where k: "first_where (\<lambda>r. ik_key r = key) (idem_keys d) = Some k"
    and i: "ik_order_id k = Some i" and f: "findById i d = (Inr res, d')"
    by (auto simp: replay_order_def cmd_bind_Inr_iff cmd_simps split: option.splits)
  from first_where_SomeD [OF k] i f findById_same [OF f] that show ?thesis by blast
qed

lemma create_Inl:
  assumes "create at now input key d = (Inl e, d')"
  shows "same_tables d d'"
proof (cases "get_prop input ''items''")
  case (Inl e)
  with assms show ?thesis by (simp add: create_def cmd_bind_run cmd_simps)
next
  case (Inr v)
  with assms show ?thesis
    unfolding create_def cmd_bind_run [of "cmd_lift _"]
    by (cases v) (auto simp: cmd_simps cmd_transaction_Inl_iff split: if_split_asm)
qed

lemma create_Inr:
  assumes "create at now input key d = (Inr res, d')"
  obtains items where "get_prop input ''items'' = Inr (Arr items)" and "items \<noteq> []" and "js_trim key \<noteq> []"
    and "cmd_bind (reserve_key key) (\<lambda>reserved.
           if reserved then place_order at now items key else replay_order key) d = (Inr res, d')"
proof (cases "get_prop input ''items''")
  case (Inl e)
  with assms show ?thesis by (simp add: create_def cmd_bind_run cmd_simps)
next
  case (Inr v)
  have "transaction (cmd_bind (reserve_key key) (\<lambda>reserved.
           if reserved then place_order at now items key else replay_order key)) d = (Inr res, d') \<and>
        items \<noteq> [] \<and> js_trim key \<noteq> []" if "v = Arr items" for items
    using assms unfolding create_def cmd_bind_run [of "cmd_lift _"]
    by (simp add: cmd_simps Inr that split: if_split_asm)
  moreover have "\<exists>items. v = Arr items"
    using assms unfolding create_def cmd_bind_run [of "cmd_lift _"]
    by (cases v) (simp_all add: cmd_simps Inr)
  ultimately show ?thesis using that Inr by (auto simp: cmd_transaction_Inr_iff)
qed

lemma create_cases:
  assumes "wf_db d" and "create at now input key d = (Inr res, d')"
  obtains (placed) items u where "get_prop input ''items'' = Inr (Arr items)" and "items \<noteq> []"
    and "js_trim key \<noteq> []" and "length key \<le> 200" and "key \<notin> ik_key ` set (idem_keys d)"
    and "first_user d = Some u" and "\<forall>i \<in> set items. item_sellable d i"
    and "d' = after_create at now u items key d"
    and "res = \<lparr>rp_id = sq_orders (seqs d) + 1, rp_items = Arr items,
           rp_total_cents = order_total d items, rp_status = Created\<rparr>"
  | (replayed) k i where "k \<in> set (idem_keys d)" and "ik_key k = key" and "ik_order_id k = Some i"
    and "d' = d" and "findById i d = (Inr res, d)"
proof -
  from assms(2) obtain items where items: "get_prop input ''items'' = Inr (Arr items)" "items \<noteq> []"
    "js_trim key \<noteq> []" and
    tx: "cmd_bind (reserve_key key) (\<lambda>reserved.
           if reserved then place_order at now items key else replay_order key) d = (Inr res, d')"
    by (rule create_Inr)
  from tx obtain b d1 where b: "reserve_key key d = (Inr b, d1)" and
    k: "(if b then place_order at now items key else replay_order key) d1 = (Inr res, d')"
    unfolding cmd_bind_Inr_iff [of "reserve_key key"] by blast
  show ?thesis
  proof (cases b)
    case True
    with b have "key \<notin> ik_key ` set (idem_keys d)" and len: "length key \<le> 200"
      and "d1 = d\<lparr>idem_keys := idem_keys d @ [\<lparr>ik_key = key, ik_order_id = None\<rparr>]\<rparr>"
      unfolding reserve_key_Inr by (auto split: if_splits)
    with True k have "place_order at now items key
        (d\<lparr>idem_keys := idem_keys d @ [\<lparr>ik_key = key, ik_order_id = None\<rparr>]\<rparr>) = (Inr res, d')" and
      new: "key \<notin> ik_key ` set (idem_keys d)" by simp_all
    from place_order_Inr [OF wf_keys(3) [OF assms(1)] new this(1)] placed [OF items len new]
    show ?thesis by blast
  next
    case False
    with b have "d1 = d" unfolding reserve_key_Inr by (auto split: if_splits)
    with False k have "replay_order key d = (Inr res, d')" by simp
    from replay_order_Inr [OF this] replayed show ?thesis by blast
  qed
qed

section \<open>Creating keeps the schema intact\<close>

lemma reserve_key_wf: "cmd_keeps wf_db (reserve_key key)"
  unfolding cmd_keeps_def
proof (intro allI impI)
  fix d assume d: "wf_db d"
  then have "key \<notin> ik_key ` set (idem_keys d) \<Longrightarrow>
      wf_db (idem_keys_update (\<lambda>ks. ks @ [\<lparr>ik_key = key, ik_order_id = None\<rparr>]) d)"
    by (auto simp: wf_db_def ids_defs idem_ok_def)
  with d show "wf_db (snd (reserve_key key d))"
    by (auto simp: reserve_key_def varchar_def key_gate_def cmd_bind_run cmd_simps)
qed

lemma wf_db_same_tables: "same_tables d d' \<Longrightarrow> wf_db d' = wf_db d"
  unfolding same_tables_def by (metis wf_db_seqs)

lemma add_item_wf: "cmd_keeps wf_db (add_item oid item x)"
  unfolding add_item_def by (intro insert_rules insert_order_item_wf)

lemma price_item_wf: "cmd_keeps wf_db (price_item item t)"
  unfolding price_item_def by (intro insert_rules)

lemma item_rows_props:
  "r \<in> set (item_rows d oid n items) \<Longrightarrow> oi_order_id r = oid \<and> n < oi_id r \<and> oi_id r \<le> n + int (length items) \<and>
     (\<exists>i \<in> set items. oi_product_id r = item_product i \<and> oi_quantity r = item_quantity i \<and>
        oi_unit_price r = price_of d (item_product i))"
  by (induction items arbitrary: n) fastforce+

lemma item_rows_sorted: "sorted_wrt (\<lambda>a b. oi_id a < oi_id b) (item_rows d oid n items)"
  by (induction items arbitrary: n) (auto dest: item_rows_props)

lemma item_rows_sum:
  "sum_list (map (\<lambda>r. oi_unit_price r * oi_quantity r) (item_rows d oid n items)) = order_total d items"
  by (induction items arbitrary: n) (simp_all add: order_total_def)

text \<open>The invariant travels through the transaction, statement by statement.\<close>

lemma place_order_wf: "cmd_ensures wf_db (place_order at now items key) (\<lambda>_. wf_db)"
proof -
  let ?P = "\<lambda>oid d. wf_db d \<and> oid \<in> order_ids d"
  have ord: "cmd_ensures wf_db (insert_order u t) (\<lambda>order. ?P (o_id order))" for u t
    unfolding cmd_ensures_def
  proof (intro allI impI)
    fix d order d'
    assume "wf_db d" and i: "insert_order u t d = (Inr order, d')"
    from cmd_keepsD [OF insert_order_wf this(1), of u t] i
    show "wf_db d' \<and> o_id order \<in> order_ids d'" by (auto simp: insert_order_Inr order_ids_def)
  qed
  have item: "cmd_keeps (?P oid) (add_item i x y)" for oid i x y
    by (rule cmd_keeps_conj [OF add_item_wf], unfold add_item_def insert_order_item_def Let_def)
      (intro insert_rules; simp add: order_ids_def)
  have items: "cmd_keeps (?P oid) (cmd_fold (add_item i) items ())" for oid i
    by (intro cmd_keeps_fold item)
  have ob: "cmd_keeps (?P oid) (insertOrderPlacedOutbox n ev i pl)" for oid n ev i pl
    unfolding insertOrderPlacedOutbox_def
    by (rule cmd_keeps_conj [OF insert_outbox_wf], unfold insert_outbox_def Let_def)
      (intro insert_rules; simp add: order_ids_def)
  have bound: "cmd_keeps (?P oid) (bind_key key oid)" for oid
    unfolding bind_key_def by (rule cmd_keeps_write) (auto intro!: wf_update_idem simp: order_ids_def)
  have rest: "cmd_ensures (?P (o_id order)) (cmd_bind (cmd_fold (add_item (o_id order)) items ()) (\<lambda>_.
         cmd_bind (insertOrderPlacedOutbox now (order_event_id (o_id order)) (o_id order) pl) (\<lambda>_.
         cmd_bind (bind_key key (o_id order)) (\<lambda>_. cmd_return res)))) (\<lambda>_. wf_db)" for order pl res
    by (rule cmd_ensures_weaken [OF cmd_ensures_keeps]) (auto intro!: keeps_intro items ob bound)
  show ?thesis
    unfolding place_order_def
    by (rule cmd_ensures_bind [OF cmd_ensures_keeps [OF cmd_keeps_read]] cmd_ensures_option cmd_ensures_throw
        cmd_ensures_bind [OF cmd_ensures_keeps [OF cmd_keeps_fold [OF price_item_wf]]]
        cmd_ensures_bind [OF ord] rest)+
qed

lemma create_wf:
  assumes "wf_db d" and "create at now input key d = (r, d')"
  shows "wf_db d'"
proof (cases r)
  case (Inl e)
  with assms create_Inl wf_db_same_tables show ?thesis by blast
next
  case (Inr res)
  have ok: "cmd_ensures wf_db (place_order at now items key) (\<lambda>_. wf_db)" for items
    by (rule place_order_wf)
  have "cmd_ensures wf_db (replay_order key) (\<lambda>_. wf_db)"
    by (auto simp: cmd_ensures_def elim: replay_order_Inr)
  with ok have "cmd_ensures wf_db (cmd_bind (reserve_key key) (\<lambda>reserved.
      if reserved then place_order at now items key else replay_order key)) (\<lambda>_. wf_db)" for items
    by (intro cmd_ensures_bind [OF cmd_ensures_keeps [OF reserve_key_wf]]) simp
  note run = this
  from create_Inr [OF assms(2) [unfolded Inr]] obtain items where
    "cmd_bind (reserve_key key) (\<lambda>reserved.
       if reserved then place_order at now items key else replay_order key) d = (Inr res, d')" .
  from cmd_ensuresD [OF run assms(1) this] show ?thesis .
qed

interpretation key: once_gate key_gate "\<lambda>d. ik_key ` set (idem_keys d)"
  by unfold_locales (auto simp: key_gate_def)

section \<open>Totals and keys\<close>

text \<open>Every order's total is the sum over its items; every key is bound to an order of its
  own, whose event is in the outbox.\<close>

definition items_total :: "db \<Rightarrow> int \<Rightarrow> int" where
  "items_total d oid = sum_list (map (\<lambda>r. oi_unit_price r * oi_quantity r)
     (filter (\<lambda>r. oi_order_id r = oid) (order_items d)))"

definition totals_ok :: "db \<Rightarrow> bool" where
  "totals_ok d \<longleftrightarrow> (\<forall>r \<in> set (orders d). o_total_amount r = items_total d (o_id r))"

definition keys_ok :: "db \<Rightarrow> bool" where
  "keys_ok d \<longleftrightarrow> distinct (map ik_order_id (idem_keys d)) \<and>
     (\<forall>k \<in> set (idem_keys d). \<exists>i. ik_order_id k = Some i \<and> order_event_id i \<in> ob_event_id ` set (outbox d))"

lemma filter_item_rows:
  "filter (\<lambda>r. oi_order_id r = j) (item_rows d oid n items) = (if j = oid then item_rows d oid n items else [])"
  by (induction items arbitrary: n) auto

lemma wf_no_items:
  "wf_db d \<Longrightarrow> oid \<notin> order_ids d \<Longrightarrow> filter (\<lambda>r. oi_order_id r = oid) (order_items d) = []"
  by (auto simp: wf_db_def items_ok_def filter_empty_conv)

lemma after_create_fresh:
  assumes "wf_db (after_create at now u items key d)"
  shows "sq_orders (seqs d) + 1 \<notin> order_ids d"
  using wf_keys(4) [OF assms] by (auto simp: after_create_def order_ids_def)

lemma after_create_ok:
  assumes "wf_db d" and "wf_db (after_create at now u items key d)"
  shows "totals_ok d \<Longrightarrow> totals_ok (after_create at now u items key d)"
    and "keys_ok d \<Longrightarrow> keys_ok (after_create at now u items key d)"
proof -
  note fresh = after_create_fresh [OF assms(2)]
  show "totals_ok d \<Longrightarrow> totals_ok (after_create at now u items key d)"
    using fresh
    by (auto simp: totals_ok_def items_total_def after_create_def filter_item_rows wf_no_items [OF assms(1) fresh]
        item_rows_sum order_ids_def) (metis image_eqI)
  have "\<forall>k \<in> set (idem_keys d). ik_order_id k \<noteq> Some (sq_orders (seqs d) + 1)"
    using assms(1) fresh by (auto simp: wf_db_def idem_ok_def)
  then show "keys_ok d \<Longrightarrow> keys_ok (after_create at now u items key d)"
    by (auto simp: keys_ok_def after_create_def image_iff) blast
qed

lemma after_checkout_ok:
  assumes "wf_db d" and "wf_db (after_checkout p u q d)"
  shows "totals_ok d \<Longrightarrow> totals_ok (after_checkout p u q d)"
    and "keys_ok d \<Longrightarrow> keys_ok (after_checkout p u q d)"
proof -
  have fresh: "sq_orders (seqs d) + 1 \<notin> order_ids d"
    using wf_keys(4) [OF assms(2)] by (auto simp: after_checkout_def order_ids_def)
  show "totals_ok d \<Longrightarrow> totals_ok (after_checkout p u q d)"
    using fresh by (auto simp: totals_ok_def items_total_def after_checkout_def
        wf_no_items [OF assms(1) fresh] order_ids_def)
qed (simp add: keys_ok_def after_checkout_def)

lemma same_tables_ok: "same_tables d d' \<Longrightarrow> totals_ok d' = totals_ok d \<and> keys_ok d' = keys_ok d"
  by (simp add: totals_ok_def keys_ok_def items_total_def same_tables_fields)

definition orders_inv :: "db \<Rightarrow> bool" where
  "orders_inv d \<longleftrightarrow> wf_db d \<and> totals_ok d \<and> keys_ok d"

lemma create_inv:
  assumes "orders_inv d" and "create at now input key d = (r, d')"
  shows "orders_inv d'"
proof (cases r)
  case (Inl e)
  with assms show ?thesis
    using create_Inl [OF assms(2) [unfolded Inl]] same_tables_ok wf_db_same_tables by (simp add: orders_inv_def)
next
  case (Inr res)
  from assms have wf: "wf_db d" "wf_db d'" using create_wf by (auto simp: orders_inv_def)
  show ?thesis
    using wf(1) assms(2) [unfolded Inr]
  proof (cases rule: create_cases)
    case (placed items u)
    with wf assms(1) after_create_ok [OF wf(1), of at now u items key] show ?thesis
      by (simp add: orders_inv_def)
  next
    case replayed
    with assms(1) show ?thesis by simp
  qed
qed

lemma checkout_inv:
  assumes "orders_inv d" and "checkout publish at inp (d, b) = (r, (d', b'))"
  shows "orders_inv d'"
proof -
  from assms have wf: "wf_db d" "wf_db d'" using checkout_sums(3) by (auto simp: orders_inv_def)
  show ?thesis
    using wf(1) assms(2)
  proof (cases rule: checkout_cases)
    case (rejected e)
    with assms(1) wf show ?thesis using same_tables_ok by (auto simp: orders_inv_def)
  next
    case (placed p u q res)
    with wf assms(1) after_checkout_ok [OF wf(1), of p u q] show ?thesis
      by (simp add: orders_inv_def)
  qed
qed

section \<open>Requests one after the other\<close>

record create_request =
  cq_at :: string
  cq_now :: int
  cq_input :: jsval
  cq_key :: string

fun run_creates :: "create_request list \<Rightarrow> db \<Rightarrow> (err + order_response) list \<times> db" where
  "run_creates [] d = ([], d)"
| "run_creates (q # qs) d =
     (let (r, d1) = create (cq_at q) (cq_now q) (cq_input q) (cq_key q) d;
          (rs, d2) = run_creates qs d1
      in (r # rs, d2))"

text \<open>What one request adds, and that it answers with the order its key is bound to.\<close>

lemma create_binds:
  assumes "wf_db d" and "create at now input key d = (r, d')"
  shows "\<exists>ks os. idem_keys d' = idem_keys d @ ks \<and> orders d' = orders d @ os \<and>
           map ik_order_id ks = map (\<lambda>x. Some (o_id x)) os \<and>
           (\<forall>res. r = Inr res \<longrightarrow> \<lparr>ik_key = key, ik_order_id = Some (rp_id res)\<rparr> \<in> set (idem_keys d'))"
proof (cases r)
  case (Inl e)
  with assms create_Inl have "same_tables d d'" by blast
  then have "idem_keys d' = idem_keys d" "orders d' = orders d"
    by (simp_all add: same_tables_fields)
  with Inl show ?thesis by simp
next
  case (Inr res)
  show ?thesis
    using assms(1) assms(2) [unfolded Inr]
  proof (cases rule: create_cases)
    case (placed items u)
    with Inr show ?thesis by (auto simp: after_create_def)
  next
    case (replayed k i)
    then have "rp_id res = i"
      by (auto simp: findById_def cmd_bind_Inr_iff cmd_simps split: option.splits dest: first_where_SomeD)
    moreover have "k = \<lparr>ik_key = key, ik_order_id = Some i\<rparr>" using replayed(2,3) by (cases k) simp
    ultimately have "\<lparr>ik_key = key, ik_order_id = Some (rp_id res)\<rparr> \<in> set (idem_keys d)"
      using replayed(1) by metis
    with replayed(4) Inr show ?thesis by simp
  qed
qed

lemma run_creates_binds:
  assumes "orders_inv d" and "run_creates qs d = (rs, d')"
  shows "orders_inv d' \<and> (\<exists>ks os. idem_keys d' = idem_keys d @ ks \<and> orders d' = orders d @ os \<and>
           map ik_order_id ks = map (\<lambda>x. Some (o_id x)) os) \<and>
         list_all2 (\<lambda>q r. \<forall>res. r = Inr res \<longrightarrow>
           \<lparr>ik_key = cq_key q, ik_order_id = Some (rp_id res)\<rparr> \<in> set (idem_keys d')) qs rs"
  using assms
proof (induction qs arbitrary: d rs)
  case Nil
  then show ?case by simp
next
  case (Cons q qs)
  obtain r d1 where c: "create (cq_at q) (cq_now q) (cq_input q) (cq_key q) d = (r, d1)" by (rule prod.exhaust)
  obtain rs1 where rs: "rs = r # rs1" and run: "run_creates qs d1 = (rs1, d')"
    using Cons.prems(2) c by (auto split: prod.splits)
  have wf: "wf_db d" using Cons.prems(1) by (simp add: orders_inv_def)
  from create_binds [OF wf c] obtain ks os where b: "idem_keys d1 = idem_keys d @ ks" "orders d1 = orders d @ os"
    "map ik_order_id ks = map (\<lambda>x. Some (o_id x)) os"
    "\<forall>res. r = Inr res \<longrightarrow> \<lparr>ik_key = cq_key q, ik_order_id = Some (rp_id res)\<rparr> \<in> set (idem_keys d1)" by blast
  from Cons.IH [OF create_inv [OF Cons.prems(1) c] run] obtain ks' os' where
    i: "orders_inv d'" "idem_keys d' = idem_keys d1 @ ks'" "orders d' = orders d1 @ os'"
    "map ik_order_id ks' = map (\<lambda>x. Some (o_id x)) os'"
    "list_all2 (\<lambda>q r. \<forall>res. r = Inr res \<longrightarrow>
           \<lparr>ik_key = cq_key q, ik_order_id = Some (rp_id res)\<rparr> \<in> set (idem_keys d')) qs rs1" by blast
  have "idem_keys d' = idem_keys d @ (ks @ ks') \<and> orders d' = orders d @ (os @ os') \<and>
     map ik_order_id (ks @ ks') = map (\<lambda>x. Some (o_id x)) (os @ os')"
    using b i by simp
  moreover have "\<forall>res. r = Inr res \<longrightarrow> \<lparr>ik_key = cq_key q, ik_order_id = Some (rp_id res)\<rparr> \<in> set (idem_keys d')"
    using b(4) i(2) by simp
  ultimately show ?case unfolding rs list_all2_Cons using i(1,5) by blast
qed

section \<open>What the database answers about an order\<close>

definition answer_of :: "db \<Rightarrow> order_row \<Rightarrow> order_response" where
  "answer_of d r = \<lparr>rp_id = o_id r,
     rp_items = items_json (sort_key oi_id (filter (\<lambda>x. oi_order_id x = o_id r) (order_items d))),
     rp_total_cents = o_total_amount r, rp_status = o_status r\<rparr>"

lemma findById_Inr:
  "findById i d = (Inr res, d') \<longleftrightarrow> d' = d \<and> int8 i \<and>
     (\<exists>r. first_where (\<lambda>r. o_id r = i) (orders d) = Some r \<and> res = answer_of d r)"
  by (auto simp: findById_def cmd_bind_Inr_iff cmd_simps answer_of_def dest: first_where_SomeD
      split: option.splits)

lemma order_lookup:
  "wf_db d \<Longrightarrow> first_where (\<lambda>r. o_id r = i) (orders d) = Some r \<longleftrightarrow> r \<in> set (orders d) \<and> o_id r = i"
  by (rule first_where_iff_unique) (simp add: wf_keys)

lemma belongsToUser_run:
  "belongsToUser i u d = (if int8 i \<and> int8 u
     then Inr (\<exists>r \<in> set (orders d). o_id r = i \<and> o_user_id r = u) else Inl (Pg NumericValueOutOfRange), d)"
  by (auto simp: belongsToUser_def cmd_bind_run cmd_simps param_int_IntN)

lemma status_of_name_Some: "status_of_name v = Some s \<longleftrightarrow> v = Str (status_name s)"
  by (cases s) (auto simp: status_of_name_def ORDER_STATUSES_def)

text \<open>The state after a status update.\<close>

definition with_status :: "int \<Rightarrow> order_status \<Rightarrow> db \<Rightarrow> db" where
  "with_status i st d = d\<lparr>orders := update_where (\<lambda>r. o_id r = i) (\<lambda>r. r\<lparr>o_status := st\<rparr>) (orders d)\<rparr>"

lemma with_status_wf: "wf_db d \<Longrightarrow> wf_db (with_status i st d)"
  using wf_update_orders [of d "\<lambda>r. r\<lparr>o_status := st\<rparr>" "\<lambda>r. o_id r = i"]
  by (cases d) (simp add: with_status_def)

lemma with_status_inv: "orders_inv d \<Longrightarrow> orders_inv (with_status i st d)"
  unfolding orders_inv_def
  by (auto simp: with_status_wf, auto simp: with_status_def totals_ok_def items_total_def keys_ok_def
      elim!: in_update_whereE split: if_splits)

lemma set_status_run:
  "set_status i st d = (if int8 i
     then (Inr (map_option (\<lambda>r. r\<lparr>o_status := st\<rparr>) (first_where (\<lambda>r. o_id r = i) (orders d))), with_status i st d)
     else (Inl (Pg NumericValueOutOfRange), d))"
proof -
  have w: "orders_update (update_where (\<lambda>r. o_id r = i) (\<lambda>r. r\<lparr>o_status := st\<rparr>)) d = with_status i st d"
    by (cases d) (simp add: with_status_def)
  have "first_where (\<lambda>r. o_id r = i) (orders (with_status i st d)) =
      map_option (\<lambda>r. r\<lparr>o_status := st\<rparr>) (first_where (\<lambda>r. o_id r = i) (orders d))"
  proof -
    have "orders (with_status i st d) = update_where (\<lambda>r. o_id r = i) (\<lambda>r. r\<lparr>o_status := st\<rparr>) (orders d)"
      by (simp add: with_status_def)
    then show ?thesis
      by (simp add: first_where_update) (rule map_option_cong [OF refl], auto dest: first_where_SomeD)
  qed
  then show ?thesis by (simp add: set_status_def cmd_bind_run cmd_simps param_int_IntN w)
qed

lemma with_status_missing:
  "first_where (\<lambda>r. o_id r = i) (orders d) = None \<Longrightarrow> with_status i st d = d"
  by (cases d) (simp add: with_status_def update_where_id)

lemma findById_with_status:
  assumes "int8 i" and "first_where (\<lambda>r. o_id r = i) (orders d) = Some r"
  shows "findById i (with_status i st d) = (Inr (answer_of d (r\<lparr>o_status := st\<rparr>)), with_status i st d)"
proof -
  have "first_where (\<lambda>r. o_id r = i) (orders (with_status i st d)) = Some (r\<lparr>o_status := st\<rparr>)"
    using assms(2) first_where_SomeD [OF assms(2)] by (simp add: with_status_def first_where_update)
  moreover have "answer_of (with_status i st d) x = answer_of d x" for x
    by (simp add: answer_of_def with_status_def)
  ultimately show ?thesis using assms(1) unfolding findById_Inr by simp
qed

lemma updateStatus_run:
  assumes "status_of_name v = Some st"
  shows "updateStatus shown at i v (d, h, g) =
    (if \<not> int8 i then (Inl (Pg NumericValueOutOfRange), (d, h, g))
     else case first_where (\<lambda>r. o_id r = i) (orders d) of
       None \<Rightarrow> (Inl (NotFound (''Order '' @ show_int i @ '' not found'')), (d, h, g))
     | Some r \<Rightarrow> (Inr (answer_of d (r\<lparr>o_status := st\<rparr>)),
         (with_status i st d, snd (hubEmit i st at h), gatewayDeliver (fst (hubEmit i st at h)) g)))"
proof (cases "int8 i \<and> (\<exists>r. first_where (\<lambda>r. o_id r = i) (orders d) = Some r)")
  case True
  then obtain r where r: "int8 i" "first_where (\<lambda>r. o_id r = i) (orders d) = Some r" by blast
  with first_where_SomeD [OF r(2)] assms show ?thesis
    by (simp add: updateStatus_def cmd_bind_run cmd_simps set_status_run emitEvent_def
        findById_with_status split_beta)
next
  case False
  show ?thesis
  proof (cases "int8 i")
    case True
    with False have "first_where (\<lambda>r. o_id r = i) (orders d) = None" by (metis option.exhaust)
    with True assms show ?thesis
      by (simp add: updateStatus_def cmd_bind_run cmd_simps set_status_run with_status_missing
          del: first_where_None)
  next
    case False
    with assms show ?thesis by (simp add: updateStatus_def cmd_bind_run cmd_simps set_status_run)
  qed
qed

section \<open>Rooms\<close>

datatype ws_op =
    WsConnect nat jsval
  | WsJoin nat jsval
  | WsStatus string int jsval

fun ws_step :: "(jsval \<Rightarrow> string) \<Rightarrow> ws_op \<Rightarrow> app \<Rightarrow> app" where
  "ws_step shown (WsConnect c auth) (d, h, g) =
     (d, h, g(c := Some \<lparr>ws_auth = auth, ws_rooms = [], ws_received = []\<rparr>))"
| "ws_step shown (WsJoin c payload) (d, h, g) =
     (case g c of None \<Rightarrow> (d, h, g) | Some s \<Rightarrow> snd (joinOrderRoom c s payload (d, h, g)))"
| "ws_step shown (WsStatus at i v) s = snd (updateStatus shown at i v s)"

text \<open>A socket is in the rooms of orders of the user it named, and got their events only.\<close>

definition owns :: "db \<Rightarrow> jsval \<Rightarrow> int \<Rightarrow> bool" where
  "owns d auth i \<longleftrightarrow> (\<exists>u. positive_int (opt_prop auth ''userId'') = Some u \<and>
     (\<exists>r \<in> set (orders d). o_id r = i \<and> o_user_id r = u))"

definition rooms_ok :: "db \<Rightarrow> ws_socket \<Rightarrow> bool" where
  "rooms_ok d s \<longleftrightarrow> (\<forall>room \<in> set (ws_rooms s). \<exists>i. room = getRoomName i \<and> owns d (ws_auth s) i) \<and>
     (\<forall>e \<in> set (ws_received s). getRoomName (ev_order_id e) \<in> set (ws_rooms s))"

definition ws_inv :: "app \<Rightarrow> bool" where
  "ws_inv s \<longleftrightarrow> (case s of (d, h, g) \<Rightarrow> \<forall>c k. g c = Some k \<longrightarrow> rooms_ok d k)"

lemma owns_with_status [simp]: "owns (with_status i st d) auth j = owns d auth j"
proof -
  have "(\<exists>r \<in> set (update_where (\<lambda>r. o_id r = i) (\<lambda>r. r\<lparr>o_status := st\<rparr>) rs). o_id r = j \<and> o_user_id r = u) =
      (\<exists>r \<in> set rs. o_id r = j \<and> o_user_id r = u)" for u and rs :: "order_row list"
    by (induction rs) auto
  moreover have "orders (with_status i st d) =
      update_where (\<lambda>r. o_id r = i) (\<lambda>r. r\<lparr>o_status := st\<rparr>) (orders d)"
    by (simp add: with_status_def)
  ultimately show ?thesis by (simp only: owns_def)
qed

lemma rooms_ok_with_status [simp]: "rooms_ok (with_status i st d) s = rooms_ok d s"
  by (simp add: rooms_ok_def)

lemma joinOrderRoom_state:
  "snd (joinOrderRoom c s payload (d, h, g)) = (d, h, g) \<or>
   (\<exists>i. owns d (ws_auth s) i \<and> snd (joinOrderRoom c s payload (d, h, g)) = (d, h, joinRoom c (getRoomName i) g))"
proof (cases "positive_int (opt_prop payload ''orderId'')")
  case None
  then show ?thesis by (simp add: joinOrderRoom_def cmd_simps)
next
  case (Some i)
  show ?thesis
  proof (cases "positive_int (opt_prop (ws_auth s) ''userId'')")
    case None
    with Some show ?thesis by (simp add: joinOrderRoom_def cmd_simps)
  next
    case (Some u)
    with \<open>positive_int (opt_prop payload ''orderId'') = Some i\<close> show ?thesis
      by (auto simp: joinOrderRoom_def cmd_bind_run cmd_simps belongsToUser_run owns_def)
  qed
qed

lemma ws_step_inv: "ws_inv s \<Longrightarrow> ws_inv (ws_step shown op s)"
proof (cases s; cases op)
  fix d h g c auth
  assume "ws_inv s" "s = (d, h, g)" "op = WsConnect c auth"
  then show ?thesis by (simp add: ws_inv_def rooms_ok_def)
next
  fix d h g c payload
  assume a: "ws_inv s" "s = (d, h, g)" "op = WsJoin c payload"
  show ?thesis
  proof (cases "g c")
    case None
    with a show ?thesis by simp
  next
    case (Some k)
    from joinOrderRoom_state [of c k payload d h g] show ?thesis
    proof (elim disjE exE conjE)
      fix i
      assume "owns d (ws_auth k) i" "snd (joinOrderRoom c k payload (d, h, g)) = (d, h, joinRoom c (getRoomName i) g)"
      with a Some show ?thesis
        by (auto simp: ws_inv_def joinRoom_def rooms_ok_def)
    qed (use a Some in simp)
  qed
next
  fix d h g at i v
  assume a: "ws_inv s" "s = (d, h, g)" "op = WsStatus at i v"
  show ?thesis
  proof (cases "status_of_name v")
    case None
    with a show ?thesis by (simp add: updateStatus_def cmd_simps)
  next
    case (Some st)
    with a show ?thesis
      by (auto simp: updateStatus_run ws_inv_def gatewayDeliver_def split: option.splits)
        (auto simp: rooms_ok_def)
  qed
qed

interpretation ws: invariant_steps "ws_step shown" ws_inv for shown
  by unfold_locales (rule ws_step_inv)

section \<open>Retrying\<close>

text \<open>The items of a new order, as a later request reads them back.\<close>

definition canonical_items :: "jsval list \<Rightarrow> jsval" where
  "canonical_items items = Arr (map (\<lambda>i. Obj [(''product_id'', Num (IntN (item_product i))),
     (''quantity'', Num (IntN (item_quantity i)))]) items)"

lemma sort_key_sorted: "sorted_wrt (\<lambda>a b. f a < f b) xs \<Longrightarrow> sort_key f xs = xs"
  by (rule sort_key_id_if_sorted) (auto simp: sorted_map elim: sorted_wrt_mono_rel [rotated])

lemma items_json_rows: "items_json (item_rows d oid n items) = canonical_items items"
proof -
  have "map (\<lambda>r. Obj [(''product_id'', Num (IntN (oi_product_id r))), (''quantity'', Num (IntN (oi_quantity r)))])
      (item_rows d oid n items) = map (\<lambda>i. Obj [(''product_id'', Num (IntN (item_product i))),
     (''quantity'', Num (IntN (item_quantity i)))]) items"
    by (induction items arbitrary: n) simp_all
  then show ?thesis by (simp add: items_json_def canonical_items_def)
qed

lemma findById_created:
  assumes "wf_db d" and "wf_db (after_create at now u items key d)"
    and "findById (sq_orders (seqs d) + 1) (after_create at now u items key d) = (Inr res, d')"
  shows "res = \<lparr>rp_id = sq_orders (seqs d) + 1, rp_items = canonical_items items,
           rp_total_cents = order_total d items, rp_status = Created\<rparr>"
proof -
  note fresh = after_create_fresh [OF assms(2)]
  have "first_where (\<lambda>r. o_id r = sq_orders (seqs d) + 1) (orders d) = None"
    using fresh by (auto simp: order_ids_def) (metis image_eqI)
  then have "first_where (\<lambda>r. o_id r = sq_orders (seqs d) + 1) (orders (after_create at now u items key d)) =
      Some \<lparr>o_id = sq_orders (seqs d) + 1, o_user_id = u_id u, o_status = Created,
            o_total_amount = order_total d items\<rparr>"
    by (simp add: after_create_def first_where_append del: first_where_None)
  moreover have "filter (\<lambda>x. oi_order_id x = sq_orders (seqs d) + 1) (order_items (after_create at now u items key d)) =
      item_rows d (sq_orders (seqs d) + 1) (sq_items (seqs d)) items"
    by (simp add: after_create_def filter_item_rows wf_no_items [OF assms(1) fresh])
  ultimately show ?thesis
    using assms(3) by (auto simp: findById_Inr answer_of_def sort_key_sorted [OF item_rows_sorted] items_json_rows)
qed

text \<open>A key that is bound answers with its order, whatever the body.\<close>

lemma create_bound:
  assumes "wf_db d" and "\<lparr>ik_key = key, ik_order_id = Some i\<rparr> \<in> set (idem_keys d)"
    and "create at now input key d = (Inr res, d')"
  shows "d' = d \<and> findById i d = (Inr res, d)"
  using assms(1,3)
proof (cases rule: create_cases)
  case (placed items u)
  with assms(2) show ?thesis by force
next
  case (replayed k j)
  have "k = \<lparr>ik_key = key, ik_order_id = Some i\<rparr>"
    using wf_keys(10) [OF assms(1)] assms(2) replayed(1,2) by (auto simp: distinct_map inj_on_def)
  with replayed show ?thesis by simp
qed

section \<open>Properties\<close>

lemmas create_eval = create_def reserve_key_def key_gate_def varchar_def place_order_def replay_order_def
  price_item_def add_item_def insertOrderPlacedOutbox_def bind_key_def findById_def first_user_def
  item_int_def insert_order_def insert_order_item_def insert_outbox_def Let_def cmd_bind_run cmd_simps
  cmd_transaction_def param_int_IntN int4_def int8_def sample_db_def empty_db_def orders_constraints_def
  order_items_constraints_def outbox_constraints_def

text \<open>A body that orders \<open>q\<close> units of product \<open>p\<close>, and one request with it.\<close>

definition sample_body :: "int \<Rightarrow> int \<Rightarrow> jsval" where
  "sample_body p q = Obj [(''items'', Arr [Obj [(''product_id'', Num (IntN p)), (''quantity'', Num (IntN q))]])]"

definition sample_item :: "int \<Rightarrow> int \<Rightarrow> jsval" where
  "sample_item p q = Obj [(''product_id'', Num (IntN p)), (''quantity'', Num (IntN q))]"

lemma show_nat_1 [simp]: "show_nat (Suc 0) = ''1''"
  by code_simp

lemma trim_k [simp]: "js_trim ''k1'' = ''k1''" "js_trim ''k2'' = ''k2''"
  by (simp_all add: js_trim_def js_space_def)

definition sample_order_db :: db where
  "sample_order_db = snd (create ''t'' 5 (sample_body 1 2) ''k1'' sample_db)"

lemma sample_create:
  "\<exists>res. create ''t'' 5 (sample_body 1 2) ''k1'' sample_db = (Inr res, sample_order_db) \<and> rp_id res = 1"
proof -
  have "\<exists>res. fst (create ''t'' 5 (sample_body 1 2) ''k1'' sample_db) = Inr res \<and> rp_id res = 1"
    by (simp add: create_eval sample_body_def order_event_id_def ORDER_PLACED_TYPE_def show_int_def)
  then show ?thesis unfolding sample_order_db_def by (metis prod.collapse)
qed

lemma sample_retry:
  "\<exists>res. create ''t2'' 9 (sample_body 1 1) ''k1'' sample_order_db = (Inr res, sample_order_db) \<and> rp_id res = 1"
proof -
  have "sample_order_db = after_create ''t'' 5 (hd (users sample_db)) [sample_item 1 2] ''k1'' sample_db"
    unfolding sample_order_db_def
    by (simp add: create_eval sample_body_def sample_item_def order_event_id_def ORDER_PLACED_TYPE_def show_int_def
        after_create_def placed_event_def order_total_def price_of_def)
  note st = this
  have "\<exists>res. fst (create ''t2'' 9 (sample_body 1 1) ''k1'' sample_order_db) = Inr res"
    unfolding st
    by (simp add: create_def reserve_key_def key_gate_def varchar_def replay_order_def findById_def sample_body_def
        after_create_def cmd_bind_run cmd_simps cmd_transaction_def param_int_IntN int8_def sample_db_def empty_db_def)
  then obtain res d' where r: "create ''t2'' 9 (sample_body 1 1) ''k1'' sample_order_db = (Inr res, d')"
    by (metis prod.collapse)
  from sample_create obtain a where "create ''t'' 5 (sample_body 1 2) ''k1'' sample_db = (Inr a, sample_order_db)"
    by blast
  from create_wf [OF wf_sample_db this] have wf: "wf_db sample_order_db" .
  have "\<lparr>ik_key = ''k1'', ik_order_id = Some 1\<rparr> \<in> set (idem_keys sample_order_db)"
    unfolding st by (simp add: after_create_def sample_db_def empty_db_def)
  from create_bound [OF wf this r] have "d' = sample_order_db" "findById 1 sample_order_db = (Inr res, sample_order_db)"
    by simp_all
  moreover from this(2) have "rp_id res = 1"
    by (auto simp: findById_Inr answer_of_def dest: first_where_SomeD)
  ultimately show ?thesis using r by simp
qed

lemma orders_inv_sample: "orders_inv sample_db"
  by (simp add: orders_inv_def wf_sample_db totals_ok_def keys_ok_def)

lemma orders_inv_sample_order: "orders_inv sample_order_db"
  using sample_create create_inv [OF orders_inv_sample] by blast

text \<open>C5: A request that succeeds either placed a new order - the body's items are integers, positive
  and name active products; one order of the first user, one item row per item at the
  product's price, the outbox message and the bound key are added and nothing else changes -
  or its key was bound before, and then nothing changes and the answer is what the database
  holds of the bound order, whatever the body says.\<close>

theorem create_success:
  assumes "wf_db d" and "create at now input key d = (Inr res, d')"
  shows "(\<exists>items u. get_prop input ''items'' = Inr (Arr items) \<and> items \<noteq> [] \<and> key \<notin> ik_key ` set (idem_keys d) \<and>
      first_user d = Some u \<and> (\<forall>i \<in> set items. item_sellable d i) \<and>
      d' = after_create at now u items key d \<and>
      res = \<lparr>rp_id = sq_orders (seqs d) + 1, rp_items = Arr items,
             rp_total_cents = order_total d items, rp_status = Created\<rparr>) \<or>
    (\<exists>r. \<lparr>ik_key = key, ik_order_id = Some (o_id r)\<rparr> \<in> set (idem_keys d) \<and> r \<in> set (orders d) \<and>
      d' = d \<and> res = answer_of d r)"
  using assms
proof (cases rule: create_cases)
  case (placed items u)
  then show ?thesis by blast
next
  case (replayed k i)
  from replayed(5) obtain r where r: "first_where (\<lambda>r. o_id r = i) (orders d) = Some r" "res = answer_of d r"
    unfolding findById_Inr by blast
  from first_where_SomeD [OF r(1)] have m: "r \<in> set (orders d)" "o_id r = i" by simp_all
  from replayed(2,3) m have "k = \<lparr>ik_key = key, ik_order_id = Some (o_id r)\<rparr>" by (cases k) simp
  with replayed(1,4) m r(2) show ?thesis by metis
qed

lemma create_success_witness:
  "\<exists>res. create ''t'' 5 (sample_body 1 2) ''k1'' sample_db = (Inr res, sample_order_db) \<and> rp_total_cents res = 200"
proof -
  from sample_create obtain res where c: "create ''t'' 5 (sample_body 1 2) ''k1'' sample_db = (Inr res, sample_order_db)"
    by blast
  from create_success [OF wf_sample_db c] have "rp_total_cents res = 200"
    by (auto simp: sample_body_def order_total_def price_of_def item_int_def sample_db_def empty_db_def)
  with c show ?thesis by blast
qed

text \<open>C6: A request that throws leaves every table as it was. Whatever a request does, the
  database stays well formed, every order's total is the sum of price times quantity over
  its items, and every key is bound to an order of its own whose event is in the outbox.\<close>

theorem create_atomic:
  assumes "orders_inv d" and "create at now input key d = (r, d')"
  shows "(\<forall>e. r = Inl e \<longrightarrow> same_tables d d') \<and> wf_db d' \<and>
    (\<forall>x \<in> set (orders d'). o_total_amount x = items_total d' (o_id x)) \<and>
    (\<forall>k \<in> set (idem_keys d'). \<exists>i \<in> order_ids d'. ik_order_id k = Some i \<and>
       (\<exists>m \<in> set (outbox d'). ob_event_id m = order_event_id i))"
proof -
  have inv: "orders_inv d'" by (rule create_inv [OF assms])
  then have wf: "wf_db d'" by (simp add: orders_inv_def)
  have key: "\<exists>i \<in> order_ids d'. ik_order_id k = Some i \<and> (\<exists>m \<in> set (outbox d'). ob_event_id m = order_event_id i)"
    if k: "k \<in> set (idem_keys d')" for k
  proof -
    from inv k obtain i where i: "ik_order_id k = Some i" "order_event_id i \<in> ob_event_id ` set (outbox d')"
      by (auto simp: orders_inv_def keys_ok_def)
    moreover from wf k i(1) have "i \<in> order_ids d'" by (simp add: wf_db_def idem_ok_def)
    ultimately show ?thesis by force
  qed
  have "same_tables d d'" if "r = Inl e" for e using create_Inl assms(2) that by blast
  with inv key wf show ?thesis by (simp add: orders_inv_def totals_ok_def)
qed

lemma create_atomic_witness:
  "wf_db sample_order_db \<and>
   o_total_amount (hd (orders sample_order_db)) = items_total sample_order_db (o_id (hd (orders sample_order_db)))"
proof -
  from sample_create obtain res where "create ''t'' 5 (sample_body 1 2) ''k1'' sample_db = (Inr res, sample_order_db)"
    by blast
  note c = this and at = create_atomic [OF orders_inv_sample this]
  from create_binds [OF wf_sample_db c] have "orders sample_order_db \<noteq> []"
    by (auto dest: arg_cong [of _ _ length])
  with at show ?thesis by simp
qed

text \<open>C7: A key stands for one order. In any run of requests, two requests that succeed
  are answered with the same order exactly when they carry the same key, and as many orders
  are added as keys.\<close>

theorem create_idempotent:
  assumes "orders_inv d" and "run_creates qs d = (rs, d')"
    and "i < length qs" and "j < length qs" and "rs ! i = Inr a" and "rs ! j = Inr b"
  shows "(rp_id a = rp_id b) = (cq_key (qs ! i) = cq_key (qs ! j)) \<and>
    int (length (orders d')) - int (length (orders d)) = int (length (idem_keys d')) - int (length (idem_keys d))"
proof -
  from run_creates_binds [OF assms(1,2)] obtain ks os where inv: "orders_inv d'"
    and ks: "idem_keys d' = idem_keys d @ ks" "orders d' = orders d @ os"
      "map ik_order_id ks = map (\<lambda>x. Some (o_id x)) os"
    and all: "list_all2 (\<lambda>q r. \<forall>res. r = Inr res \<longrightarrow>
           \<lparr>ik_key = cq_key q, ik_order_id = Some (rp_id res)\<rparr> \<in> set (idem_keys d')) qs rs" by blast
  from all assms(3-6) have ab: "\<lparr>ik_key = cq_key (qs ! i), ik_order_id = Some (rp_id a)\<rparr> \<in> set (idem_keys d')"
    "\<lparr>ik_key = cq_key (qs ! j), ik_order_id = Some (rp_id b)\<rparr> \<in> set (idem_keys d')"
    by (auto simp: list_all2_conv_all_nth)
  from inv have "inj_on ik_key (set (idem_keys d'))" "inj_on ik_order_id (set (idem_keys d'))"
    using wf_keys(10) by (auto simp: orders_inv_def keys_ok_def distinct_map)
  from inj_onD [OF this(1) _ ab] inj_onD [OF this(2) _ ab]
  have "(rp_id a = rp_id b) = (cq_key (qs ! i) = cq_key (qs ! j))" by auto
  moreover from ks(3) have "length ks = length os" by (metis length_map)
  ultimately show ?thesis using ks by simp
qed

text \<open>A retry of a request that placed an order is answered with the same order, total and
  status, and with the products and quantities that were ordered; it changes nothing.\<close>

theorem create_retry:
  assumes "wf_db d" and "key \<notin> ik_key ` set (idem_keys d)"
    and "create at now input key d = (Inr res, d1)" and "create at' now' input' key d1 = (Inr res', d2)"
  shows "d2 = d1 \<and> (\<exists>items. rp_items res = Arr items \<and> res' = res\<lparr>rp_items := canonical_items items\<rparr>)"
  using assms(1,3)
proof (cases rule: create_cases)
  case (placed items u)
  have wf1: "wf_db d1" using create_wf assms(1,3) by blast
  have "\<lparr>ik_key = key, ik_order_id = Some (rp_id res)\<rparr> \<in> set (idem_keys d1)"
    using placed by (simp add: after_create_def)
  from create_bound [OF wf1 this assms(4)] have "d2 = d1" and "findById (rp_id res) d1 = (Inr res', d1)" by simp_all
  moreover from this(2) placed have "res' = \<lparr>rp_id = sq_orders (seqs d) + 1, rp_items = canonical_items items,
           rp_total_cents = order_total d items, rp_status = Created\<rparr>"
    using findById_created [OF assms(1)] wf1 by simp
  ultimately show ?thesis using placed by simp
next
  case (replayed k i)
  with assms(2) show ?thesis by auto
qed

lemma create_idempotent_witness:
  "rp_id (projr (fst (run_creates [\<lparr>cq_at = ''t'', cq_now = 5, cq_input = sample_body 1 2, cq_key = ''k1''\<rparr>,
      \<lparr>cq_at = ''t2'', cq_now = 9, cq_input = sample_body 1 1, cq_key = ''k1''\<rparr>] sample_db) ! 0)) =
   rp_id (projr (fst (run_creates [\<lparr>cq_at = ''t'', cq_now = 5, cq_input = sample_body 1 2, cq_key = ''k1''\<rparr>,
      \<lparr>cq_at = ''t2'', cq_now = 9, cq_input = sample_body 1 1, cq_key = ''k1''\<rparr>] sample_db) ! 1))"
proof -
  let ?qs = "[\<lparr>cq_at = ''t'', cq_now = 5, cq_input = sample_body 1 2, cq_key = ''k1''\<rparr>,
      \<lparr>cq_at = ''t2'', cq_now = 9, cq_input = sample_body 1 1, cq_key = ''k1''\<rparr>]"
  from sample_create obtain a where a: "create ''t'' 5 (sample_body 1 2) ''k1'' sample_db = (Inr a, sample_order_db)" by blast
  from sample_retry obtain b where b: "create ''t2'' 9 (sample_body 1 1) ''k1'' sample_order_db = (Inr b, sample_order_db)" by blast
  have run: "run_creates ?qs sample_db = ([Inr a, Inr b], sample_order_db)" by (simp add: a b)
  from create_idempotent [OF orders_inv_sample run, of 0 1 a b] have "rp_id a = rp_id b" by simp
  then show ?thesis unfolding run by simp
qed

lemma create_retry_witness:
  "\<exists>res. create ''t2'' 9 (sample_body 1 1) ''k1'' sample_order_db = (Inr res, sample_order_db)"
proof -
  from sample_create obtain a where a: "create ''t'' 5 (sample_body 1 2) ''k1'' sample_db = (Inr a, sample_order_db)" by blast
  from sample_retry obtain b d2 where b: "create ''t2'' 9 (sample_body 1 1) ''k1'' sample_order_db = (Inr b, d2)" by blast
  have "''k1'' \<notin> ik_key ` set (idem_keys sample_db)" by simp
  from create_retry [OF wf_sample_db this a b] b show ?thesis by blast
qed

text \<open>A status update that succeeds changes the status of that order and nothing else, emits
  one numbered event, hands it to every socket in the order's room and answers with the
  order in its new status. One that fails - unknown status, missing order, identifier out of
  range - changes nothing and emits nothing.\<close>

theorem updateStatus_effect:
  assumes "wf_db d" and "updateStatus shown at i v (d, h, g) = (r, (d', h', g'))"
  shows "(\<exists>x st e. v = Str (status_name st) \<and> x \<in> set (orders d) \<and> o_id x = i \<and>
       r = Inr (answer_of d (x\<lparr>o_status := st\<rparr>)) \<and>
       d' = d\<lparr>orders := update_where (\<lambda>y. o_id y = i) (\<lambda>y. y\<lparr>o_status := st\<rparr>) (orders d)\<rparr> \<and>
       (e, h') = hubEmit i st at h \<and> ev_order_id e = i \<and> ev_status e = st \<and> g' = gatewayDeliver e g) \<or>
     (\<not> is_ok r \<and> d' = d \<and> h' = h \<and> g' = g \<and>
       ((\<forall>st. v \<noteq> Str (status_name st)) \<and> r = Inl (BadRequest (''Invalid order status: '' @ shown v)) \<or>
        i \<notin> order_ids d \<and> r = Inl (NotFound (''Order '' @ show_int i @ '' not found'')) \<or>
        \<not> int8 i \<and> r = Inl (Pg NumericValueOutOfRange)))"
proof (cases "status_of_name v")
  case None
  then have "\<forall>st. v \<noteq> Str (status_name st)" by (metis status_of_name_Some option.distinct(1))
  with None assms(2) show ?thesis by (auto simp: updateStatus_def cmd_simps)
next
  case (Some st)
  show ?thesis
  proof (cases "int8 i")
    case False
    with Some assms(2) show ?thesis by (auto simp: updateStatus_run)
  next
    case True
    show ?thesis
    proof (cases "first_where (\<lambda>r. o_id r = i) (orders d)")
      case None
      then have "i \<notin> order_ids d" by (auto simp: order_ids_def)
      moreover from None True Some assms(2)
      have "r = Inl (NotFound (''Order '' @ show_int i @ '' not found''))" "d' = d" "h' = h" "g' = g"
        by (simp_all add: updateStatus_run del: first_where_None)
      ultimately show ?thesis by simp
    next
      case (Some x)
      from first_where_SomeD [OF Some] have "x \<in> set (orders d)" "o_id x = i" by simp_all
      moreover have "v = Str (status_name st)" using \<open>status_of_name v = Some st\<close> status_of_name_Some by blast
      moreover have "ev_order_id (fst (hubEmit i st at h)) = i" "ev_status (fst (hubEmit i st at h)) = st"
        by (simp_all add: hubEmit_def emitStatusChanged_def Let_def)
      moreover from Some True \<open>status_of_name v = Some st\<close> assms(2) have
        "r = Inr (answer_of d (x\<lparr>o_status := st\<rparr>))" "d' = with_status i st d"
        "h' = snd (hubEmit i st at h)" "g' = gatewayDeliver (fst (hubEmit i st at h)) g"
        by (simp_all add: updateStatus_run)
      ultimately show ?thesis unfolding with_status_def by (metis prod.collapse)
    qed
  qed
qed

lemma updateStatus_effect_witness:
  "\<exists>r s. updateStatus (\<lambda>_. ''x'') ''t'' 1 (Str ''paid'') (sample_order_db, init_hub, \<lambda>_. None) = (r, s) \<and>
     (is_ok r \<or> 1 \<notin> order_ids sample_order_db)"
proof -
  have wf: "wf_db sample_order_db" using orders_inv_sample_order by (simp add: orders_inv_def)
  have st: "Str ''paid'' = Str (status_name Paid)" by simp
  have one: "int8 1" by (simp add: int8_def)
  obtain r d' h' g' where u: "updateStatus (\<lambda>_. ''x'') ''t'' 1 (Str ''paid'') (sample_order_db, init_hub, \<lambda>_. None)
      = (r, (d', h', g'))" by (metis prod.collapse)
  from updateStatus_effect [OF wf u] have "is_ok r \<or> 1 \<notin> order_ids sample_order_db"
    using st one by (auto simp del: status_name.simps)
  with u show ?thesis by blast
qed

text \<open>Reading an order over HTTP never changes anything and answers only when the token's
  subject is the user of that order; a user who does not own the order, and a user who asks
  for an order that does not exist, get the same 403, so the 404 of findById is never seen.\<close>

theorem getOrderById_owner_only:
  assumes "wf_db d" and "getOrderById i user_sub d = (r, d')"
  shows "d' = d \<and>
    (\<forall>res. r = Inr res \<longrightarrow> (\<exists>sub x. user_sub = Some sub \<and> x \<in> set (orders d) \<and> o_id x = i \<and>
        number_of_string sub = IntN (o_user_id x) \<and> res = answer_of d x)) \<and>
    (\<forall>u. user_sub = Some (show_int u) \<longrightarrow> int8 i \<longrightarrow> int8 u \<longrightarrow>
        r = (case first_where (\<lambda>x. o_id x = i \<and> o_user_id x = u) (orders d) of
               None \<Rightarrow> Inl (Forbidden ''Order belongs to another user'')
             | Some x \<Rightarrow> Inr (answer_of d x))) \<and>
    (\<forall>e. r = Inl e \<longrightarrow> status_of e \<noteq> 404)"
proof (cases user_sub)
  case None
  with assms(2) show ?thesis by (auto simp: getOrderById_def cmd_simps)
next
  case (Some sub)
  show ?thesis
  proof (cases "\<exists>u. number_of_string sub = IntN u \<and> int8 i \<and> int8 u")
    case False
    have "r = Inl (Pg NumericValueOutOfRange) \<or> r = Inl (Pg InvalidTextRepresentation)" "d' = d"
      using assms(2) Some False
      by (cases "number_of_string sub"; simp add: getOrderById_def cmd_bind_run cmd_simps belongsToUser_run
          param_int_IntN split: if_splits; auto)+
    with False Some show ?thesis by (auto simp: number_of_show_int)
  next
    case True
    then obtain u where u: "number_of_string sub = IntN u" "int8 i" "int8 u" by blast
    show ?thesis
    proof (cases "first_where (\<lambda>x. o_id x = i \<and> o_user_id x = u) (orders d)")
      case None
      then have "\<not> (\<exists>r \<in> set (orders d). o_id r = i \<and> o_user_id r = u)" by auto
      then have "getOrderById i user_sub d = (Inl (Forbidden ''Order belongs to another user''), d)"
        by (simp only: getOrderById_def \<open>user_sub = Some sub\<close> option.case u jsnum.case cmd_bind_run
            belongsToUser_run cmd_simps prod.case sum.case if_False if_True simp_thms)
      with assms(2) \<open>user_sub = Some sub\<close> u None show ?thesis
        by (auto simp: number_of_show_int simp del: first_where_None)
    next
      case (Some x)
      from first_where_SomeD [OF Some] have x: "x \<in> set (orders d)" "o_id x = i" "o_user_id x = u" by simp_all
      with assms(1) have "first_where (\<lambda>r. o_id r = i) (orders d) = Some x" by (simp add: order_lookup)
      then have f: "findById i d = (Inr (answer_of d x), d)" using u(2) by (simp add: findById_Inr)
      have "getOrderById i user_sub d = (Inr (answer_of d x), d)"
        using u x f \<open>user_sub = Some sub\<close>
        by (auto simp: getOrderById_def cmd_bind_run cmd_simps belongsToUser_run)
      with assms(2) \<open>user_sub = Some sub\<close> u x Some show ?thesis by (auto simp: number_of_show_int)
    qed
  qed
qed

lemma getOrderById_owner_only_witness:
  "fst (getOrderById 1 (Some (show_int 2)) sample_db) = Inl (Forbidden ''Order belongs to another user'')"
proof -
  obtain r d' where g: "getOrderById 1 (Some (show_int 2)) sample_db = (r, d')" by (rule prod.exhaust)
  have "int8 1" "int8 2" by (simp_all add: int8_def)
  with getOrderById_owner_only [OF wf_sample_db g] g show ?thesis by simp
qed

text \<open>C18: Whatever sockets connect, join and whatever orders change status, a socket has only
  received events of orders that belong to the user it named when it connected.\<close>

theorem rooms_isolated:
  assumes "fold (ws_step shown) ops (d, init_hub, \<lambda>_. None) = (d', h', g')"
    and "g' c = Some s" and "e \<in> set (ws_received s)"
  shows "\<exists>u x. positive_int (opt_prop (ws_auth s) ''userId'') = Some u \<and>
     x \<in> set (orders d') \<and> o_id x = ev_order_id e \<and> o_user_id x = u"
proof -
  have "ws_inv (d, init_hub, \<lambda>_. None)" by (simp add: ws_inv_def)
  from ws.run_inv [OF this, of shown ops] assms(1,2) have "rooms_ok d' s" by (auto simp: ws_inv_def)
  with assms(3) obtain i where "getRoomName (ev_order_id e) = getRoomName i" "owns d' (ws_auth s) i"
    unfolding rooms_ok_def by metis
  then show ?thesis by (auto simp: getRoomName_def owns_def)
qed

lemma rooms_isolated_witness:
  "let (d', h', g') = fold (ws_step (\<lambda>_. ''x'')) [WsConnect 0 (Obj [(''userId'', Num (IntN 1))]),
       WsJoin 0 (Obj [(''orderId'', Num (IntN 7))]), WsStatus ''t'' 7 (Str ''paid'')]
       (sample_db\<lparr>orders := [\<lparr>o_id = 7, o_user_id = 1, o_status = Created, o_total_amount = 5\<rparr>]\<rparr>, init_hub, \<lambda>_. None)
   in \<exists>s e. g' 0 = Some s \<and> e \<in> set (ws_received s) \<and> (\<exists>x \<in> set (orders d'). o_id x = ev_order_id e)"
proof -
  let ?d = "sample_db\<lparr>orders := [\<lparr>o_id = 7, o_user_id = 1, o_status = Created, o_total_amount = 5\<rparr>]\<rparr>"
  let ?ops = "[WsConnect 0 (Obj [(''userId'', Num (IntN 1))]),
       WsJoin 0 (Obj [(''orderId'', Num (IntN 7))]), WsStatus ''t'' 7 (Str ''paid'')]"
  let ?r = "fold (ws_step (\<lambda>_. ''x'')) ?ops (?d, init_hub, \<lambda>_. None)"
  obtain d' h' g' where r: "?r = (d', h', g')" by (metis prod.collapse)
  have "\<exists>s. snd (snd ?r) 0 = Some s \<and> ws_received s \<noteq> []"
    by (simp add: joinOrderRoom_def positive_int_def cmd_bind_run cmd_simps belongsToUser_run int8_def
        joinRoom_def updateStatus_def status_of_name_def ORDER_STATUSES_def set_status_def param_int_IntN
        emitEvent_def gatewayDeliver_def hubEmit_def emitStatusChanged_def Let_def findById_def)
  with r obtain s where s: "g' 0 = Some s" "hd (ws_received s) \<in> set (ws_received s)" by auto
  from rooms_isolated [OF r this] s r show ?thesis by (simp only: r Let_def prod.case) blast
qed

end
