(* ===== verification/AccessDemos.thy ===== *)
theory AccessDemos
  imports Seed Orders
begin

text \<open>
  \<open>src/demo-reuse.ts\<close> and \<open>src/demo-auth.ts\<close>: the requests of the two demonstrations, sent one
  after the other to the modelled handlers, and the conditions under which their checks pass.
  Request number \<open>i\<close> happens at \<open>now i\<close> and draws \<open>tok i\<close> and \<open>jti i\<close>.
\<close>

section \<open>Requests and responses\<close>

text \<open>A response is the result of the handler; a client sees its status and body.\<close>

definition attempt :: "('s, 'a) cmd \<Rightarrow> ('s, err + 'a) cmd" where
  "attempt m = (\<lambda>d. case m d of (r, d') \<Rightarrow> (Inr r, d'))"

fun response_status :: "nat \<Rightarrow> err + 'a \<Rightarrow> nat" where
  "response_status ok (Inr _) = ok"
| "response_status ok (Inl e) = status_of e"

definition body_field :: "('a \<Rightarrow> string) \<Rightarrow> err + 'a \<Rightarrow> jsval" where
  "body_field f r = (case r of Inr a \<Rightarrow> Str (f a) | Inl _ \<Rightarrow> Undefined)"

definition login_body :: "string \<Rightarrow> jsval" where
  "login_body email = Obj [(''email'', Str email), (''password'', Str DEMO_PASSWORD)]"

definition refresh_body :: "jsval \<Rightarrow> jsval" where
  "refresh_body token = Obj [(''refreshToken'', token)]"

text \<open>\<open>Bearer ${token}\<close>\<close>

definition authorization :: "jsval \<Rightarrow> string option" where
  "authorization token = Some (''Bearer '' @ (case token of Str s \<Rightarrow> s | _ \<Rightarrow> ''undefined''))"

text \<open>\<open>GET /orders/:id\<close> behind the guard; the subject counts through \<open>Number(user.sub)\<close>.\<close>

definition getOrder :: "'k crypto \<Rightarrow> 'k auth_config \<Rightarrow> int \<Rightarrow> string option \<Rightarrow> int \<Rightarrow> (db, order_response) cmd" where
  "getOrder cr cfg now header i =
     cmd_bind (canActivate cr cfg now header) (\<lambda>user.
     getOrderById i (Some (case to_number (opt_prop user ''sub'') of IntN u \<Rightarrow> show_int u | _ \<Rightarrow> ''NaN'')))"

definition DEMO_USER_ID :: int where
  "DEMO_USER_ID = 1"

definition DEMO_EMAIL :: string where
  "DEMO_EMAIL = ''anna@example.com''"

definition cleanAuthState :: "db \<Rightarrow> db" where
  "cleanAuthState d = d\<lparr>refresh_tokens := filter (\<lambda>r. rt_user_id r \<noteq> DEMO_USER_ID) (refresh_tokens d), denylist := []\<rparr>"

section \<open>The demonstration of token reuse\<close>

record reuse_report =
  ru_login :: nat
  ru_r1Refresh :: nat
  ru_r1Reuse :: nat
  ru_r2AfterReuse :: nat
  ru_passed :: bool

definition reuse_demo :: "'k crypto \<Rightarrow> 'k auth_config \<Rightarrow> (nat \<Rightarrow> int) \<Rightarrow> string \<Rightarrow> (nat \<Rightarrow> string) \<Rightarrow>
    (nat \<Rightarrow> string) \<Rightarrow> (db, reuse_report) cmd" where
  "reuse_demo cr cfg now fam tok jti =
     cmd_bind (cmd_write cleanAuthState) (\<lambda>_.
     cmd_bind (attempt (loginHandler cr cfg (now 0) fam (tok 0) (jti 0) (login_body DEMO_EMAIL))) (\<lambda>loginResponse.
     let r1 = body_field ar_refreshToken loginResponse in
     cmd_bind (attempt (refreshHandler cr cfg (now 1) (tok 1) (jti 1) (refresh_body r1))) (\<lambda>firstRefreshResponse.
     let r2 = body_field ar_refreshToken firstRefreshResponse in
     cmd_bind (attempt (refreshHandler cr cfg (now 2) (tok 2) (jti 2) (refresh_body r1))) (\<lambda>reuseResponse.
     cmd_bind (attempt (refreshHandler cr cfg (now 3) (tok 3) (jti 3) (refresh_body r2))) (\<lambda>r2AfterReuseResponse.
     cmd_bind (cmd_write cleanAuthState) (\<lambda>_.
     let login = response_status 200 loginResponse;
         r1Refresh = response_status 200 firstRefreshResponse;
         r1Reuse = response_status 200 reuseResponse;
         r2AfterReuse = response_status 200 r2AfterReuseResponse
     in cmd_return \<lparr>ru_login = login, ru_r1Refresh = r1Refresh, ru_r1Reuse = r1Reuse,
          ru_r2AfterReuse = r2AfterReuse,
          ru_passed = (login = 200 \<and> r1Refresh = 200 \<and> r1Reuse = 401 \<and> r2AfterReuse = 401)\<rparr>))))))"

section \<open>The demonstration of login and logout\<close>

record auth_report =
  au_login :: nat
  au_noToken :: nat
  au_withToken :: nat
  au_refresh :: nat
  au_logout :: nat
  au_afterLogout :: nat
  au_refreshAfterLogout :: nat
  au_passed :: bool

definition auth_demo :: "'k crypto \<Rightarrow> 'k auth_config \<Rightarrow> (nat \<Rightarrow> int) \<Rightarrow> string \<Rightarrow> (nat \<Rightarrow> string) \<Rightarrow>
    (nat \<Rightarrow> string) \<Rightarrow> (db, auth_report) cmd" where
  "auth_demo cr cfg now fam tok jti =
     cmd_bind (cmd_write cleanAuthState) (\<lambda>_.
     cmd_bind (attempt (loginHandler cr cfg (now 0) fam (tok 0) (jti 0) (login_body DEMO_EMAIL))) (\<lambda>loginResponse.
     let access1 = body_field ar_accessToken loginResponse;
         refresh1 = body_field ar_refreshToken loginResponse in
     cmd_bind (attempt (getOrder cr cfg (now 1) None 1)) (\<lambda>noTokenResponse.
     cmd_bind (attempt (getOrder cr cfg (now 2) (authorization access1) 1)) (\<lambda>withTokenResponse.
     cmd_bind (attempt (refreshHandler cr cfg (now 3) (tok 3) (jti 3) (refresh_body refresh1))) (\<lambda>refreshResponse.
     let access2 = body_field ar_accessToken refreshResponse;
         refresh2 = body_field ar_refreshToken refreshResponse in
     cmd_bind (attempt (logoutHandler cr cfg (now 4) (authorization access2) (refresh_body refresh2))) (\<lambda>logoutResponse.
     cmd_bind (attempt (getOrder cr cfg (now 5) (authorization access2) 1)) (\<lambda>afterLogoutResponse.
     cmd_bind (attempt (refreshHandler cr cfg (now 6) (tok 6) (jti 6) (refresh_body refresh2))) (\<lambda>refreshAfterLogoutResponse.
     cmd_bind (cmd_write cleanAuthState) (\<lambda>_.
     let login = response_status 200 loginResponse;
         noToken = response_status 200 noTokenResponse;
         withToken = response_status 200 withTokenResponse;
         refreshed = response_status 200 refreshResponse;
         loggedOut = response_status 200 logoutResponse;
         afterLogout = response_status 200 afterLogoutResponse;
         refreshAfterLogout = response_status 200 refreshAfterLogoutResponse
     in cmd_return \<lparr>au_login = login, au_noToken = noToken, au_withToken = withToken, au_refresh = refreshed,
          au_logout = loggedOut, au_afterLogout = afterLogout, au_refreshAfterLogout = refreshAfterLogout,
          au_passed = (login = 200 \<and> noToken = 401 \<and> withToken = 200 \<and> refreshed = 200 \<and>
            (loggedOut = 200 \<or> loggedOut = 204) \<and> afterLogout = 401 \<and> refreshAfterLogout = 401)\<rparr>)))))))))"

section \<open>What a session goes through\<close>

text \<open>
  The demonstration account exists with its password, the random tokens have hashes of their own
  that fit the column, and no stored token has an identifier the sequence has yet to give.
\<close>

definition demo_ready :: "'k crypto \<Rightarrow> 'k auth_config \<Rightarrow> string \<Rightarrow> (nat \<Rightarrow> string) \<Rightarrow> db \<Rightarrow> bool" where
  "demo_ready cr cfg fam tok d \<longleftrightarrow>
     (\<exists>u \<in> set (users d). u_id u = DEMO_USER_ID \<and> u_email u = DEMO_EMAIL \<and> credentials_ok cr DEMO_PASSWORD u) \<and>
     cr_bind cr (Str DEMO_EMAIL) = Some DEMO_EMAIL \<and> pg_uuid fam = Some fam \<and>
     (\<forall>r \<in> set (refresh_tokens d). rt_id r \<le> sq_refresh (seqs d)) \<and>
     (\<forall>i < 7. length (rt_hash cr cfg (tok i)) \<le> 128 \<and> rt_hash cr cfg (tok i) \<notin> rt_token_hash ` set (refresh_tokens d)) \<and>
     inj_on (\<lambda>i. rt_hash cr cfg (tok i)) {..<7}"

lemma ready_distinct:
  "demo_ready cr cfg fam tok d \<Longrightarrow> 0 < k \<Longrightarrow> k < 7 \<Longrightarrow> rt_hash cr cfg (tok k) \<noteq> rt_hash cr cfg (tok 0)"
  unfolding demo_ready_def by (auto dest: inj_onD [where x = k and y = 0])

lemma demo_user_id: "int8 DEMO_USER_ID"
  by (simp add: DEMO_USER_ID_def int8_def)

lemma insert_refresh_fresh:
  assumes "pg_uuid fam = Some fam" and "int8 uid" and "length h \<le> 128"
    and "\<forall>r \<in> set (refresh_tokens d). rt_id r \<le> sq_refresh (seqs d)"
    and "h \<notin> rt_token_hash ` set (refresh_tokens d)" and "uid \<in> u_id ` set (users d)"
  shows "insert_refresh h fam uid e d = (Inr (refresh_entry h fam uid e d), after_entry (refresh_entry h fam uid e d) d)"
proof -
  have "sq_refresh (seqs d) + 1 \<notin> rt_id ` set (refresh_tokens d)" using assms(4) by force
  with assms show ?thesis by (simp add: insert_refresh_Inr refresh_constraints_def)
qed

text \<open>An account logs in; the state stays well-formed.\<close>

lemma account_login:
  assumes "wf_db d" and "u \<in> set (users d)" and "u_email u = e" and "credentials_ok cr DEMO_PASSWORD u"
    and "cr_bind cr (Str e) = Some e" and "pg_uuid fam = Some fam" and "int8 (u_id u)"
    and "length (rt_hash cr cfg k) \<le> 128" and "\<forall>r \<in> set (refresh_tokens d). rt_id r \<le> sq_refresh (seqs d)"
    and "rt_hash cr cfg k \<notin> rt_token_hash ` set (refresh_tokens d)"
  shows "loginHandler cr cfg t fam k j (login_body e) d =
      (Inr \<lparr>ar_accessToken = signAccessToken cr cfg t j (u_id u) (u_role u) fam, ar_refreshToken = k\<rparr>,
       after_entry (refresh_entry (rt_hash cr cfg k) fam (u_id u) (t + ac_refreshTokenTtlSeconds cfg * 1000) d) d)"
proof -
  have "first_where (\<lambda>x. u_email x = e) (users d) = Some u"
    using first_where_unique [OF wf_keys(2) [OF assms(1)] assms(2)] assms(3) by simp
  then have "login cr cfg t fam k j (login_body e) d = issueTokenPair cr cfg t k j (u_id u) (u_role u) fam d"
    unfolding login_body_def using assms(4,5) by (subst login_run_user) auto
  moreover have "insert_refresh (rt_hash cr cfg k) fam (u_id u) x d =
      (Inr (refresh_entry (rt_hash cr cfg k) fam (u_id u) x d), after_entry (refresh_entry (rt_hash cr cfg k) fam (u_id u) x d) d)" for x
    using assms(2,6-10) by (intro insert_refresh_fresh) auto
  ultimately show ?thesis by (simp add: loginHandler_def issueTokenPair_run)
qed

lemma account_wf:
  assumes "wf_db d" and "u \<in> set (users d)" and "\<forall>r \<in> set (refresh_tokens d). rt_id r \<le> sq_refresh (seqs d)"
    and "h \<notin> rt_token_hash ` set (refresh_tokens d)"
  shows "wf_db (after_entry (refresh_entry h fam (u_id u) e d) d)"
proof -
  have "sq_refresh (seqs d) + 1 \<notin> rt_id ` set (refresh_tokens d)" using assms(3) by force
  then have "refresh_ok (user_ids d) (refresh_tokens d @ [refresh_entry h fam (u_id u) e d])"
    using assms by (auto simp: wf_db_def refresh_ok_def ids_defs)
  with assms(1) show ?thesis by (simp add: after_entry_def wf_db_def ids_defs)
qed

lemma demo_login:
  assumes "wf_db d" and "demo_ready cr cfg fam tok d" and "i < 7"
  obtains u where "u \<in> set (users d)" "u_id u = DEMO_USER_ID"
    "loginHandler cr cfg t fam (tok i) j (login_body DEMO_EMAIL) d =
      (Inr \<lparr>ar_accessToken = signAccessToken cr cfg t j DEMO_USER_ID (u_role u) fam, ar_refreshToken = tok i\<rparr>,
       after_entry (refresh_entry (rt_hash cr cfg (tok i)) fam DEMO_USER_ID
         (t + ac_refreshTokenTtlSeconds cfg * 1000) d) d)"
proof -
  obtain u where u: "u \<in> set (users d)" "u_id u = DEMO_USER_ID" "u_email u = DEMO_EMAIL"
    "credentials_ok cr DEMO_PASSWORD u" using assms(2) by (auto simp: demo_ready_def)
  with account_login [OF assms(1) u(1,3,4), of fam cfg "tok i" t j] assms(2,3) demo_user_id that show ?thesis
    by (auto simp: demo_ready_def)
qed

lemma user_lookup:
  "wf_db d \<Longrightarrow> u \<in> set (users d) \<Longrightarrow> u_id u = i \<Longrightarrow> first_where (\<lambda>x. u_id x = i) (users d) = Some u"
  using first_where_unique [OF wf_keys(1)] by blast

text \<open>The last token of the table is exchanged for a new one.\<close>

lemma exchange:
  assumes "wf_db d" and "refresh_tokens d = B @ [n]" and "rt_token_hash n = rt_hash cr cfg t"
    and "rt_hash cr cfg t \<notin> rt_token_hash ` set B" and "\<forall>r \<in> set B. rt_id r < rt_id n" and "rt_id n \<le> sq_refresh (seqs d)"
    and "active now n" and "rt_used_at n = None" and "pg_uuid (rt_family_id n) = Some (rt_family_id n)"
    and "u \<in> set (users d)" and "u_id u = rt_user_id n" and "int8 (rt_user_id n)"
    and "length (rt_hash cr cfg fresh) \<le> 128" and "rt_hash cr cfg fresh \<notin> rt_token_hash ` set (B @ [n])"
  shows "refreshHandler cr cfg now fresh j (refresh_body (Str t)) d =
    (Inr \<lparr>ar_accessToken = signAccessToken cr cfg now j (rt_user_id n) (u_role u) (rt_family_id n), ar_refreshToken = fresh\<rparr>,
     d\<lparr>refresh_tokens := B @ [n\<lparr>rt_used_at := Some now\<rparr>,
         refresh_entry (rt_hash cr cfg fresh) (rt_family_id n) (rt_user_id n) (now + ac_refreshTokenTtlSeconds cfg * 1000) d],
       seqs := (seqs d)\<lparr>sq_refresh := sq_refresh (seqs d) + 1\<rparr>\<rparr>)"
proof -
  let ?d = "refresh_tokens_update (used_mark now (rt_id n)) d"
  let ?e = "\<lambda>d. refresh_entry (rt_hash cr cfg fresh) (rt_family_id n) (rt_user_id n) (now + ac_refreshTokenTtlSeconds cfg * 1000) d"
  have mark: "refresh_tokens ?d = B @ [n\<lparr>rt_used_at := Some now\<rparr>]"
    using assms(5) by (auto simp: assms(2) used_mark_def intro!: update_where_id)
  have "first_where (\<lambda>r. rt_token_hash r = rt_hash cr cfg t) B = None"
    using assms(4) unfolding first_where_None by (metis image_eqI)
  then have "first_where (\<lambda>r. rt_token_hash r = rt_hash cr cfg t) (B @ [n]) = Some n"
    using assms(3) by (simp add: first_where_append del: first_where_None)
  then have "select_refresh (rt_hash cr cfg t) d = Some (n, u_role u)"
    by (simp add: select_refresh_def assms(2) user_lookup [OF assms(1,10,11)])
  moreover have "insert_refresh (rt_hash cr cfg fresh) (rt_family_id n) (rt_user_id n)
      (now + ac_refreshTokenTtlSeconds cfg * 1000) ?d = (Inr (?e ?d), after_entry (?e ?d) ?d)"
  proof (rule insert_refresh_fresh)
    show "\<forall>r \<in> set (refresh_tokens ?d). rt_id r \<le> sq_refresh (seqs ?d)"
      unfolding mark using assms(5,6) by auto
    show "rt_hash cr cfg fresh \<notin> rt_token_hash ` set (refresh_tokens ?d)"
      unfolding mark using assms(14) by simp
    show "rt_user_id n \<in> u_id ` set (users ?d)" 
      using image_eqI [of "rt_user_id n" u_id u "set (users d)"] assms(10,11) by simp
  qed (use assms(9,12,13) in auto)
  ultimately show ?thesis
    using assms(7,8) mark
    by (simp add: refreshHandler_def refresh_body_def cmd_bind_run cmd_simps refresh_run after_entry_def refresh_entry_def)
qed

lemma clean_wf:
  assumes "wf_db d" shows "wf_db (cleanAuthState d)"
proof -
  have "refresh_ok (user_ids d) (refresh_tokens (cleanAuthState d))"
    using assms by (auto simp: wf_db_def refresh_ok_def cleanAuthState_def ids_defs distinct_map
        intro: inj_on_subset)
  with assms show ?thesis
    by (simp add: wf_db_def ids_defs cleanAuthState_def denylist_ok_def)
qed

lemma clean_ready: "demo_ready cr cfg fam tok d \<Longrightarrow> demo_ready cr cfg fam tok (cleanAuthState d)"
  by (auto simp: demo_ready_def cleanAuthState_def)

text \<open>The state after the login and the first refresh: the used token and its successor.\<close>

definition session_row :: "string \<Rightarrow> string \<Rightarrow> int \<Rightarrow> int \<Rightarrow> int option \<Rightarrow> refresh_row" where
  "session_row hash fam i expires used = \<lparr>rt_id = i, rt_token_hash = hash, rt_family_id = fam,
     rt_user_id = DEMO_USER_ID, rt_used_at = used, rt_revoked_at = None, rt_expires_at = expires\<rparr>"

definition after_rotation :: "'k crypto \<Rightarrow> 'k auth_config \<Rightarrow> (nat \<Rightarrow> int) \<Rightarrow> string \<Rightarrow> (nat \<Rightarrow> string) \<Rightarrow> nat \<Rightarrow> db \<Rightarrow> db" where
  "after_rotation cr cfg now fam tok k d =
     (let s = sq_refresh (seqs d); ttl = ac_refreshTokenTtlSeconds cfg * 1000
      in d\<lparr>refresh_tokens := refresh_tokens d @
             [session_row (rt_hash cr cfg (tok 0)) fam (s + 1) (now 0 + ttl) (Some (now k)),
              session_row (rt_hash cr cfg (tok k)) fam (s + 2) (now k + ttl) None],
           seqs := (seqs d)\<lparr>sq_refresh := s + 2\<rparr>\<rparr>)"

lemma after_login_wf:
  assumes "wf_db d" and "demo_ready cr cfg fam tok d" and "u \<in> set (users d)" and "u_id u = DEMO_USER_ID" and "i < 7"
  shows "wf_db (after_entry (refresh_entry (rt_hash cr cfg (tok i)) fam DEMO_USER_ID e d) d)"
  using account_wf [OF assms(1,3), of "rt_hash cr cfg (tok i)" fam e] assms(2,4,5) by (simp add: demo_ready_def)

lemma demo_exchange:
  assumes "wf_db d" and "demo_ready cr cfg fam tok d" and "config_ok cfg" and "0 < k" and "k < 7" and "now k < now 0 + 2592000000"
    and "u \<in> set (users d)" and "u_id u = DEMO_USER_ID"
    and d1: "d1 = after_entry (refresh_entry (rt_hash cr cfg (tok 0)) fam DEMO_USER_ID
       (now 0 + ac_refreshTokenTtlSeconds cfg * 1000) d) d"
  shows "refreshHandler cr cfg (now k) (tok k) j (refresh_body (Str (tok 0))) d1 =
    (Inr \<lparr>ar_accessToken = signAccessToken cr cfg (now k) j DEMO_USER_ID (u_role u) fam, ar_refreshToken = tok k\<rparr>,
     after_rotation cr cfg now fam tok k d)"
proof -
  let ?n = "refresh_entry (rt_hash cr cfg (tok 0)) fam DEMO_USER_ID (now 0 + ac_refreshTokenTtlSeconds cfg * 1000) d"
  have ready: "\<forall>r \<in> set (refresh_tokens d). rt_id r \<le> sq_refresh (seqs d)" "pg_uuid fam = Some fam"
    "length (rt_hash cr cfg (tok k)) \<le> 128"
    "\<And>i. i < 7 \<Longrightarrow> rt_hash cr cfg (tok i) \<notin> rt_token_hash ` set (refresh_tokens d)"
    "rt_hash cr cfg (tok k) \<noteq> rt_hash cr cfg (tok 0)"
    using assms(2,4,5) ready_distinct [OF assms(2,4,5)] by (auto simp: demo_ready_def)
  have wf: "wf_db d1" unfolding d1 by (rule after_login_wf [OF assms(1,2,7,8)]) simp
  have "refreshHandler cr cfg (now k) (tok k) j (refresh_body (Str (tok 0))) d1 =
    (Inr \<lparr>ar_accessToken = signAccessToken cr cfg (now k) j (rt_user_id ?n) (u_role u) (rt_family_id ?n), ar_refreshToken = tok k\<rparr>,
     d1\<lparr>refresh_tokens := refresh_tokens d @ [?n\<lparr>rt_used_at := Some (now k)\<rparr>,
         refresh_entry (rt_hash cr cfg (tok k)) (rt_family_id ?n) (rt_user_id ?n) (now k + ac_refreshTokenTtlSeconds cfg * 1000) d1],
       seqs := (seqs d1)\<lparr>sq_refresh := sq_refresh (seqs d1) + 1\<rparr>\<rparr>)"
    by (rule exchange [OF wf])
      (use ready assms(3,5-8) demo_user_id in \<open>auto simp: d1 after_entry_def active_def config_ok_def\<close>)
  then show ?thesis
    by (simp add: d1 after_entry_def after_rotation_def session_row_def refresh_entry_def Let_def)
qed

text \<open>The used token and its successor, as a later request finds them.\<close>

lemma session_lookup:
  assumes "wf_db d" and "demo_ready cr cfg fam tok d" and k: "0 < k \<and> k < 7" and "u \<in> set (users d)" and "u_id u = DEMO_USER_ID"
    and "users d' = users d" and "refresh_tokens d' = B @ [n0, nk]"
    and "rt_hash cr cfg (tok 0) \<notin> rt_token_hash ` set B" and "rt_hash cr cfg (tok k) \<notin> rt_token_hash ` set B"
    and "rt_token_hash n0 = rt_hash cr cfg (tok 0)" and "rt_token_hash nk = rt_hash cr cfg (tok k)"
    and "rt_user_id n0 = DEMO_USER_ID" and "rt_user_id nk = DEMO_USER_ID"
  shows "select_refresh (rt_hash cr cfg (tok 0)) d' = Some (n0, u_role u)"
    and "select_refresh (rt_hash cr cfg (tok k)) d' = Some (nk, u_role u)"
proof -
  have none: "first_where (\<lambda>r. rt_token_hash r = rt_hash cr cfg (tok i)) B = None" if "i = 0 \<or> i = k" for i
    using assms(8,9) that unfolding first_where_None by (metis image_eqI)
  have ne: "rt_hash cr cfg (tok 0) \<noteq> rt_hash cr cfg (tok k)"
    using ready_distinct [OF assms(2)] k by metis
  note user = user_lookup [OF assms(1,4,5)]
  show "select_refresh (rt_hash cr cfg (tok 0)) d' = Some (n0, u_role u)"
    "select_refresh (rt_hash cr cfg (tok k)) d' = Some (nk, u_role u)"
    using none ne user assms(6,7,10-13)
    by (simp_all add: select_refresh_def first_where_append del: first_where_None)
qed

text \<open>In the state after the rotation, and once the family is revoked.\<close>

lemma rotation_rows:
  "refresh_tokens (after_rotation cr cfg now fam tok k d) = refresh_tokens d @
     [session_row (rt_hash cr cfg (tok 0)) fam (sq_refresh (seqs d) + 1)
        (now 0 + ac_refreshTokenTtlSeconds cfg * 1000) (Some (now k)),
      session_row (rt_hash cr cfg (tok k)) fam (sq_refresh (seqs d) + 2)
        (now k + ac_refreshTokenTtlSeconds cfg * 1000) None]"
  "users (after_rotation cr cfg now fam tok k d) = users d"
  "denylist (after_rotation cr cfg now fam tok k d) = denylist d"
  by (simp_all add: after_rotation_def Let_def)

lemma ready_new: "demo_ready cr cfg fam tok d \<Longrightarrow> i < 7 \<Longrightarrow> rt_hash cr cfg (tok i) \<notin> rt_token_hash ` set (refresh_tokens d)"
  by (simp add: demo_ready_def)

lemma rotation_lookup:
  assumes "wf_db d" and "demo_ready cr cfg fam tok d" and "0 < k \<and> k < 7" and "u \<in> set (users d)" and "u_id u = DEMO_USER_ID"
  shows "select_refresh (rt_hash cr cfg (tok 0)) (after_rotation cr cfg now fam tok k d) =
      Some (session_row (rt_hash cr cfg (tok 0)) fam (sq_refresh (seqs d) + 1)
        (now 0 + ac_refreshTokenTtlSeconds cfg * 1000) (Some (now k)), u_role u)"
    and "select_refresh (rt_hash cr cfg (tok k)) (after_rotation cr cfg now fam tok k d) =
      Some (session_row (rt_hash cr cfg (tok k)) fam (sq_refresh (seqs d) + 2)
        (now k + ac_refreshTokenTtlSeconds cfg * 1000) None, u_role u)"
  using assms(3)
  by - (rule session_lookup [OF assms rotation_rows(2,1) ready_new [OF assms(2)] ready_new [OF assms(2)]];
    simp add: session_row_def)+

lemma revoked_successor:
  assumes "wf_db d" and "demo_ready cr cfg fam tok d" and "0 < k \<and> k < 7" and "u \<in> set (users d)" and "u_id u = DEMO_USER_ID"
    and "users d' = users d"
    and "refresh_tokens d' = revoked_mark t fam (refresh_tokens (after_rotation cr cfg now fam tok k d))"
  shows "refreshHandler cr cfg t' fresh j (refresh_body (Str (tok k))) d' =
    (Inl (Unauthorized ''Refresh token is not active''), d')"
proof -
  obtain n0 nk where rows: "refresh_tokens (after_rotation cr cfg now fam tok k d) = refresh_tokens d @ [n0, nk]"
    "rt_token_hash n0 = rt_hash cr cfg (tok 0)" "rt_token_hash nk = rt_hash cr cfg (tok k)"
    "rt_family_id n0 = fam" "rt_family_id nk = fam" "rt_user_id n0 = DEMO_USER_ID" "rt_user_id nk = DEMO_USER_ID"
    by (simp add: rotation_rows session_row_def)
  have "refresh_tokens d' = revoked_mark t fam (refresh_tokens d) @ [revoke_row t n0, revoke_row t nk]"
    by (simp add: assms(7) rows revoked_mark_def)
  moreover have "rt_hash cr cfg (tok i) \<notin> rt_token_hash ` set (revoked_mark t fam (refresh_tokens d))" if "i < 7" for i
    using that ready_new [OF assms(2)] by (simp add: revoked_mark_def image_update_where revoke_row_def)
  ultimately have "select_refresh (rt_hash cr cfg (tok k)) d' = Some (revoke_row t nk, u_role u)"
    using rows(2,3,6,7) assms(3) by (intro session_lookup(2) [OF assms(1-6), where B = "revoked_mark t fam (refresh_tokens d)" and ?n0.0 = "revoke_row t n0"])
      (simp_all add: revoke_row_def)
  then show ?thesis
    by (simp add: refreshHandler_def refresh_body_def cmd_bind_run cmd_simps refresh_run active_def
        revoke_row_def split: option.split)
qed

section \<open>The demonstrations pass\<close>

text \<open>C39: on any well-formed database in which the demonstration account has its password, and for any
  random tokens with hashes of their own, the login and the first refresh answer 200, the second use
  of the first token answers 401, and so does the successor token, which nobody has used before: the
  reuse ended the whole family. The demonstration passes and leaves no token of its user behind.\<close>
theorem reuse_demo_passes:
  assumes "wf_db d" and "config_ok cfg" and "demo_ready cr cfg fam tok d"
    and "\<And>i. now i < now 0 + 2592000000"
  shows "\<exists>d'. reuse_demo cr cfg now fam tok jti d = (Inr \<lparr>ru_login = 200, ru_r1Refresh = 200, ru_r1Reuse = 401,
      ru_r2AfterReuse = 401, ru_passed = True\<rparr>, d') \<and>
    (\<forall>r \<in> set (refresh_tokens d'). rt_user_id r \<noteq> DEMO_USER_ID)"
proof -
  let ?d = "cleanAuthState d"
  note wf = clean_wf [OF assms(1)] and ready = clean_ready [OF assms(3)]
  obtain u where u: "u \<in> set (users ?d)" "u_id u = DEMO_USER_ID"
    and login: "loginHandler cr cfg (now 0) fam (tok 0) (jti 0) (login_body DEMO_EMAIL) ?d =
      (Inr \<lparr>ar_accessToken = signAccessToken cr cfg (now 0) (jti 0) DEMO_USER_ID (u_role u) fam, ar_refreshToken = tok 0\<rparr>,
       after_entry (refresh_entry (rt_hash cr cfg (tok 0)) fam DEMO_USER_ID
         (now 0 + ac_refreshTokenTtlSeconds cfg * 1000) ?d) ?d)"
    by (rule demo_login [OF wf ready, of 0 "now 0" "jti 0"]) auto
  let ?d2 = "after_rotation cr cfg now fam tok 1 ?d"
  let ?d3 = "refresh_tokens_update (revoked_mark (now 2) fam) ?d2"
  note first = demo_exchange [OF wf ready assms(2) _ _ _ u refl, where k = 1 and j = "jti 1" and now = now, simplified, OF assms(4)]
  have reuse: "refreshHandler cr cfg (now 2) (tok 2) (jti 2) (refresh_body (Str (tok 0))) ?d2 =
      (Inl (Unauthorized ''Refresh token reuse detected''), ?d3)"
    using rotation_lookup(1) [OF wf ready _ u, of 1 now] assms(2,4)
    by (simp add: refreshHandler_def refresh_body_def cmd_bind_run cmd_simps refresh_run session_row_def
        active_def config_ok_def)
  have "refreshHandler cr cfg (now 3) (tok 3) (jti 3) (refresh_body (Str (tok 1))) ?d3 =
      (Inl (Unauthorized ''Refresh token is not active''), ?d3)"
    by (rule revoked_successor [OF wf ready _ u]) (simp_all add: rotation_rows(2))
  with login first reuse show ?thesis
    by (simp add: reuse_demo_def cmd_bind_run cmd_simps attempt_def body_field_def Let_def cleanAuthState_def)
qed

text \<open>The guard and the order, for the token of a session.\<close>

lemma guarded_order:
  assumes "jwt_library cr cfg" and "config_ok cfg" and "pg_uuid j = Some j" and "t' div 1000 < t div 1000 + 600"
  shows "getOrder cr cfg t' (authorization (Str (signAccessToken cr cfg t j uid role fam))) i d =
    (if denied d j t' then (Inl (Unauthorized ''Access token revoked''), d)
     else getOrderById i (Some (show_int uid)) d)"
  unfolding getOrder_def authorization_def jsval.case cmd_bind_run guard_issued [OF assms(1-3)]
  using assms(4) by (simp add: number_of_show_int)

lemma own_order:
  assumes "wf_db d" and "x \<in> set (orders d)" and "o_user_id x = DEMO_USER_ID" and "int8 (o_id x)"
  shows "\<exists>a. getOrderById (o_id x) (Some (show_int DEMO_USER_ID)) d = (Inr a, d)"
proof -
  obtain r d' where g: "getOrderById (o_id x) (Some (show_int DEMO_USER_ID)) d = (r, d')" by (rule prod.exhaust)
  have "first_where (\<lambda>y. o_id y = o_id x \<and> o_user_id y = DEMO_USER_ID) (orders d) \<noteq> None"
    using assms(2,3) by auto
  then show ?thesis
    using getOrderById_owner_only [OF assms(1) g] assms(4) demo_user_id g
    by (auto simp del: first_where_None split: option.splits)
qed

lemma within_ten_minutes:
  fixes now :: "nat \<Rightarrow> int"
  assumes "\<And>i. now 0 \<le> now i \<and> now i < now 0 + 590000"
  shows "now i div 1000 < now j div 1000 + 600"
proof -
  have "now i \<le> now j + 590000" using assms [of i] assms [of j] by linarith
  then have "now i div 1000 \<le> (now j + 590000) div 1000" by (rule zdiv_mono1) simp
  also have "\<dots> = now j div 1000 + 590" by simp
  finally show ?thesis by simp
qed

text \<open>The logout of the session revokes its family and puts the access token on the denylist.\<close>

lemma demo_logout:
  assumes "jwt_library cr cfg" and "config_ok cfg" and "pg_uuid j = Some j" and "t' div 1000 < t div 1000 + 600"
    and "within_dates t" and "select_refresh (rt_hash cr cfg k) d = Some (n, role)" and "rt_family_id n = fam"
    and "rt_user_id n = DEMO_USER_ID" and "denylist d = []"
  shows "logoutHandler cr cfg t' (authorization (Str (signAccessToken cr cfg t j DEMO_USER_ID role fam))) (refresh_body (Str k)) d =
    (Inr (), denylist_update (\<lambda>_. [\<lparr>dn_jti = j, dn_expires_at = 1000 * (t div 1000 + 600)\<rparr>])
      (refresh_tokens_update (revoked_mark t' fam) d))"
proof -
  have "first_where (\<lambda>r. rt_token_hash r = rt_hash cr cfg k) (refresh_tokens d) = Some n"
    using assms(6) by (auto simp: select_refresh_def split: option.splits)
  moreover have "payload_matches n (issued_claims t j DEMO_USER_ID role fam)"
    by (simp add: payload_matches_def assms(7,8) number_of_show_int)
  ultimately show ?thesis
    unfolding logoutHandler_def authorization_def jsval.case bearer_token option.case
    using issued_expiry [OF assms(5,4)] assms(3,4,7,9)
    by (simp add: refresh_body_def cmd_bind_run cmd_simps logout_run
        verify_issued [OF assms(1,2) uuid_nonempty [OF assms(3)]] uuid_param_def deny_row_def Let_def)
qed

text \<open>On any well-formed database in which the demonstration account has its password and owns the
  first order, every request of the demonstration gets the answer it checks: 401 without a token,
  the order with the token of the login, new tokens for the refresh token, and after the logout 401
  for the access token, although it has not expired, and for the refresh token of the session.\<close>
theorem auth_demo_passes:
  assumes "wf_db d" and "jwt_library cr cfg" and "config_ok cfg" and "demo_ready cr cfg fam tok d"
    and "x \<in> set (orders d)" and "o_id x = 1" and "o_user_id x = DEMO_USER_ID"
    and "\<And>i. pg_uuid (jti i) = Some (jti i)" and "\<And>i. within_dates (now i)"
    and "\<And>i. now 0 \<le> now i \<and> now i < now 0 + 590000"
  shows "\<exists>d'. auth_demo cr cfg now fam tok jti d = (Inr \<lparr>au_login = 200, au_noToken = 401, au_withToken = 200,
      au_refresh = 200, au_logout = 200, au_afterLogout = 401, au_refreshAfterLogout = 401, au_passed = True\<rparr>, d')"
proof -
  let ?d = "cleanAuthState d"
  note wf = clean_wf [OF assms(1)] and ready = clean_ready [OF assms(4)]
  note soon = within_ten_minutes [of now, OF assms(10)]
  obtain u where u: "u \<in> set (users ?d)" "u_id u = DEMO_USER_ID"
    and login: "loginHandler cr cfg (now 0) fam (tok 0) (jti 0) (login_body DEMO_EMAIL) ?d =
      (Inr \<lparr>ar_accessToken = signAccessToken cr cfg (now 0) (jti 0) DEMO_USER_ID (u_role u) fam, ar_refreshToken = tok 0\<rparr>,
       after_entry (refresh_entry (rt_hash cr cfg (tok 0)) fam DEMO_USER_ID
         (now 0 + ac_refreshTokenTtlSeconds cfg * 1000) ?d) ?d)"
    by (rule demo_login [OF wf ready, of 0 "now 0" "jti 0"]) auto
  let ?d1 = "after_entry (refresh_entry (rt_hash cr cfg (tok 0)) fam DEMO_USER_ID
    (now 0 + ac_refreshTokenTtlSeconds cfg * 1000) ?d) ?d"
  let ?d2 = "after_rotation cr cfg now fam tok 3 ?d"
  obtain a where "getOrderById 1 (Some (show_int DEMO_USER_ID)) ?d1 = (Inr a, ?d1)"
    using own_order [OF after_login_wf [OF wf ready u, of 0], of x] assms(5-7)
    by (auto simp: after_entry_def cleanAuthState_def int8_def)
  then have withToken: "getOrder cr cfg (now 2) (authorization (Str (signAccessToken cr cfg (now 0) (jti 0) DEMO_USER_ID (u_role u) fam))) 1 ?d1 =
      (Inr a, ?d1)"
    by (simp add: guarded_order [OF assms(2,3,8) soon] denied_def after_entry_def cleanAuthState_def)
  have noToken: "getOrder cr cfg (now 1) None 1 ?d1 = (Inl (Unauthorized ''Access token is required''), ?d1)"
    by (simp add: getOrder_def canActivate_def bearer_def cmd_bind_run cmd_simps)
  have "now 3 < now 0 + 2592000000" using assms(10) [of 3] by linarith
  note first = demo_exchange [OF wf ready assms(3) _ _ this u refl, of "jti 3", simplified]
  let ?n3 = "session_row (rt_hash cr cfg (tok 3)) fam (sq_refresh (seqs ?d) + 2)
    (now 3 + ac_refreshTokenTtlSeconds cfg * 1000) None"
  have sel: "select_refresh (rt_hash cr cfg (tok 3)) ?d2 = Some (?n3, u_role u)"
    by (rule rotation_lookup(2) [OF wf ready _ u]) simp
  have none: "denylist ?d2 = []" by (simp add: rotation_rows cleanAuthState_def)
  define d3 where "d3 = denylist_update (\<lambda>_. [\<lparr>dn_jti = jti 3, dn_expires_at = 1000 * (now 3 div 1000 + 600)\<rparr>])
    (refresh_tokens_update (revoked_mark (now 4) fam) ?d2)"
  have out: "logoutHandler cr cfg (now 4) (authorization (Str (signAccessToken cr cfg (now 3) (jti 3) DEMO_USER_ID (u_role u) fam)))
      (refresh_body (Str (tok 3))) ?d2 = (Inr (), d3)"
    unfolding d3_def by (rule demo_logout [OF assms(2,3,8) soon assms(9) sel _ _ none]) (simp_all add: session_row_def)
  have "now 5 < 1000 * (now 3 div 1000 + 600)" by (rule before_second [OF soon])
  then have "getOrder cr cfg (now 5) (authorization (Str (signAccessToken cr cfg (now 3) (jti 3) DEMO_USER_ID (u_role u) fam))) 1 d3 =
      (Inl (Unauthorized ''Access token revoked''), d3)"
    by (simp add: guarded_order [OF assms(2,3,8) soon] denied_def d3_def)
  moreover have "refreshHandler cr cfg (now 6) (tok 6) (jti 6) (refresh_body (Str (tok 3))) d3 =
      (Inl (Unauthorized ''Refresh token is not active''), d3)"
    by (rule revoked_successor [OF wf ready _ u]) (simp_all add: rotation_rows(2) d3_def)
  ultimately show ?thesis
    using login first withToken noToken out
    by (simp add: auth_demo_def cmd_bind_run cmd_simps attempt_def body_field_def Let_def del: One_nat_def)
qed

section \<open>After the seed\<close>

text \<open>The seed gives a demonstration account its password and its role.\<close>

lemma seeded_account:
  assumes "wf_db d" and "seed cr random d = (Inr v, d')" and "scrypt_library cr" and "random \<noteq> []"
    and "r \<in> set SEED_USERS" and "demo_account r"
  shows "\<exists>u \<in> set (users d'). u_id u = u_id r \<and> u_email u = u_email r \<and> u_role u = demo_role (u_email r) \<and>
    credentials_ok cr DEMO_PASSWORD u"
proof -
  note run = seed_run [OF assms(1,2)]
  with assms(5) obtain u where u: "u \<in> set (users d')" "u_id u = u_id r" "u_email u = u_email r"
    unfolding seeded_def row_settled_def user_change_same by blast
  then have "demo_account u" using assms(6) by (simp add: demo_account_def)
  then have "u_password_hash u = Some (hashPassword cr random DEMO_PASSWORD)" "u_role u = demo_role (u_email r)"
    using run u(1,3) by (simp_all add: credentials_set_def)
  moreover have "hashPassword cr random DEMO_PASSWORD \<noteq> []"
    by (simp add: hashPassword_def Let_def)
  ultimately show ?thesis
    using u verify_hash [OF assms(3,4), of DEMO_PASSWORD DEMO_PASSWORD] by (auto simp: credentials_ok_def)
qed

lemma seeded_demo_user:
  assumes "seed cr [1, 2] empty_db = (Inr (), d)" and "scrypt_library cr"
  shows "\<exists>u \<in> set (users d). u_id u = DEMO_USER_ID \<and> u_email u = DEMO_EMAIL \<and> u_role u = Buyer \<and>
    credentials_ok cr DEMO_PASSWORD u"
  using seeded_account [OF wf_empty_db assms, of "hd SEED_USERS"]
  by (simp add: SEED_USERS_def seed_user_def demo_account_def demo_role_def DEMO_USER_ID_def DEMO_EMAIL_def)

definition sample_draws :: "nat \<Rightarrow> string" where
  "sample_draws i = replicate i CHR ''r''"

lemma sample_ready:
  assumes "seed sample_crypto [1, 2] empty_db = (Inr (), d)"
  shows "demo_ready sample_crypto sample_config uuid_1 sample_draws d"
proof -
  have "refresh_tokens d = []"
    using assms unfolding seed_empty by (auto simp: seeded_tables_def set_credentials_def empty_db_def)
  moreover have "inj_on (\<lambda>i. replicate i CHR ''r'') {..<7}"
    by (rule inj_onI) (metis length_replicate)
  ultimately show ?thesis
    using seeded_demo_user [OF assms sample_scrypt] pg_uuid_examples(1)
    by (auto simp: demo_ready_def sample_crypto_def sample_draws_def)
qed

theorem reuse_demo_passes_witness:
  "\<exists>d d'. seed sample_crypto [1, 2] empty_db = (Inr (), d) \<and>
     reuse_demo sample_crypto sample_config (\<lambda>_. 0) uuid_1 sample_draws (\<lambda>_. uuid_2) d =
       (Inr \<lparr>ru_login = 200, ru_r1Refresh = 200, ru_r1Reuse = 401, ru_r2AfterReuse = 401, ru_passed = True\<rparr>, d')"
proof -
  note seeded = seed_empty [of sample_crypto "[1, 2]"]
  show ?thesis
    using seeded reuse_demo_passes [OF seed_run [OF wf_empty_db seeded, THEN conjunct1] sample_config_ok sample_ready [OF seeded],
      of "\<lambda>_. 0" "\<lambda>_. uuid_2"] by auto
qed

theorem auth_demo_passes_witness:
  "\<exists>d d' rep. seed sample_crypto [1, 2] empty_db = (Inr (), d) \<and>
     auth_demo sample_crypto sample_config (\<lambda>_. 0) uuid_1 sample_draws (\<lambda>_. uuid_2) d = (Inr rep, d') \<and> au_passed rep"
proof -
  note seeded = seed_empty [of sample_crypto "[1, 2]"]
  have order: "hd SEED_ORDERS \<in> set SEED_ORDERS" "o_id (hd SEED_ORDERS) = 1" "o_user_id (hd SEED_ORDERS) = DEMO_USER_ID"
    by (simp_all add: SEED_ORDERS_def seed_order_def DEMO_USER_ID_def)
  show ?thesis
    using seeded order auth_demo_passes [OF seed_run [OF wf_empty_db seeded, THEN conjunct1] sample_jwt sample_config_ok
      sample_ready [OF seeded] _ order(2,3), of "\<lambda>_. uuid_2" "\<lambda>_. 0"] pg_uuid_examples(2)
    by (auto simp: seeded_tables_def within_dates_def)
qed

end
