(* ===== verification/Storage.thy ===== *)
theory Storage
  imports Auth "HOL-Library.Multiset"
begin

text \<open>
  \<open>src/files/storage.config.ts\<close>, \<open>storage.client.ts\<close>, \<open>multipart.ts\<close>,
  \<open>file-types.ts\<close> and \<open>content-hash.ts\<close>: the object storage as the code uses it. The S3
  service and its client library are outside the repository: a command goes in and a response
  or an error comes out, with the service's new state; \<open>getSignedUrl\<close> is a function of the
  command and the time to live. \<open>PutObject\<close> is the command without a body, which is only signed;
  \<open>PutObjectBody\<close> also has the body, its type and its cache control.
\<close>

section \<open>The service\<close>

datatype s3_command =
    HeadBucket string
  | CreateBucket string
  | PutPublicAccessBlock string
  | HeadObject string string
  | PutObject string string string
  | GetObject string string
  | CreateMultipart string string string
  | UploadPart string string string int
  | ListParts string string string
  | CompleteMultipart string string string "(int \<times> string) list"
  | AbortMultipart string string string
  | ListMultipartUploads string
  | DeleteObject string string
  | PutObjectBody string string "byte list" string string

record s3_part =
  sp_PartNumber :: "int option"
  sp_ETag :: "string option"
  sp_Size :: "int option"

record s3_response =
  s3_ContentLength :: "int option"
  s3_UploadId :: "string option"
  s3_ETag :: "string option"
  s3_Parts :: "s3_part list option"
  s3_Uploads :: "(string option \<times> string option) list option"
  s3_Body :: "byte list option"
  s3_ContentType :: "string option"
  s3_CacheControl :: "string option"

record 's s3 =
  s3_send :: "s3_command \<Rightarrow> ('s, s3_response) cmd"
  s3_presign :: "s3_command \<Rightarrow> int \<Rightarrow> err + string"

section \<open>Configuration and client\<close>

record storage_config =
  sc_endpoint :: "string option"
  sc_region :: string
  sc_accessKeyId :: string
  sc_secretAccessKey :: string
  sc_bucket :: string

type_synonym environment = "string \<Rightarrow> string option"

definition env_or_none :: "environment \<Rightarrow> string \<Rightarrow> string option" where
  "env_or_none env name = (case env name of None \<Rightarrow> None | Some v \<Rightarrow> if v = [] then None else Some v)"

definition getStorageConfig :: "environment \<Rightarrow> err + storage_config" where
  "getStorageConfig env =
     (case requireEnv env ''STORAGE_ACCESS_KEY'' of
        Inl e \<Rightarrow> Inl e
      | Inr accessKeyId \<Rightarrow>
          (case requireEnv env ''STORAGE_SECRET_KEY'' of
             Inl e \<Rightarrow> Inl e
           | Inr secretAccessKey \<Rightarrow>
               (case requireEnv env ''STORAGE_BUCKET'' of
                  Inl e \<Rightarrow> Inl e
                | Inr bucket \<Rightarrow> Inr \<lparr>sc_endpoint = env_or_none env ''STORAGE_ENDPOINT'',
                    sc_region = (case env ''STORAGE_REGION'' of None \<Rightarrow> ''us-east-1'' | Some r \<Rightarrow> r),
                    sc_accessKeyId = accessKeyId, sc_secretAccessKey = secretAccessKey, sc_bucket = bucket\<rparr>)))"

record client_options =
  co_region :: string
  co_endpoint :: "string option"
  co_forcePathStyle :: bool
  co_accessKeyId :: string
  co_secretAccessKey :: string

text \<open>\<open>client\<close> and \<open>initialized\<close> are the two variables of the module.\<close>

record 's storage =
  st_client :: "client_options option"
  st_initialized :: bool
  st_service :: 's

definition send :: "'s s3 \<Rightarrow> s3_command \<Rightarrow> ('s storage, s3_response) cmd" where
  "send s3 c = (\<lambda>s. case s3_send s3 c (st_service s) of (r, t) \<Rightarrow> (r, s\<lparr>st_service := t\<rparr>))"

definition cmd_try :: "('s, 'a) cmd \<Rightarrow> (err \<Rightarrow> ('s, 'a) cmd) \<Rightarrow> ('s, 'a) cmd" where
  "cmd_try m h = (\<lambda>s. case m s of (Inl e, s') \<Rightarrow> h e s' | (Inr a, s') \<Rightarrow> (Inr a, s'))"

definition getStorageClient :: "environment \<Rightarrow> ('s storage, client_options) cmd" where
  "getStorageClient env =
     cmd_bind (cmd_read st_client) (\<lambda>client. case client of
         Some c \<Rightarrow> cmd_return c
       | None \<Rightarrow>
           cmd_bind (cmd_lift (getStorageConfig env)) (\<lambda>config.
           let c = \<lparr>co_region = sc_region config, co_endpoint = sc_endpoint config,
                    co_forcePathStyle = (sc_endpoint config \<noteq> None),
                    co_accessKeyId = sc_accessKeyId config, co_secretAccessKey = sc_secretAccessKey config\<rparr>
           in cmd_bind (cmd_write (st_client_update (\<lambda>_. Some c))) (\<lambda>_. cmd_return c)))"

definition ensureStorageBucket :: "'s s3 \<Rightarrow> environment \<Rightarrow> ('s storage, unit) cmd" where
  "ensureStorageBucket s3 env =
     cmd_bind (cmd_read st_initialized) (\<lambda>initialized.
     if initialized then cmd_return ()
     else
       cmd_bind (cmd_lift (getStorageConfig env)) (\<lambda>config.
       cmd_bind (getStorageClient env) (\<lambda>_.
       cmd_bind (cmd_try (cmd_bind (send s3 (HeadBucket (sc_bucket config))) (\<lambda>_. cmd_return ()))
         (\<lambda>_. cmd_bind (send s3 (CreateBucket (sc_bucket config))) (\<lambda>_. cmd_return ()))) (\<lambda>_.
       cmd_bind (cmd_try (cmd_bind (send s3 (PutPublicAccessBlock (sc_bucket config))) (\<lambda>_. cmd_return ()))
         (\<lambda>_. cmd_return ())) (\<lambda>_.
       cmd_write (st_initialized_update (\<lambda>_. True)))))))"

text \<open>Sending with the configured bucket: the client is made first, then the configuration is read.\<close>

definition with_bucket :: "environment \<Rightarrow> (string \<Rightarrow> ('s storage, 'a) cmd) \<Rightarrow> ('s storage, 'a) cmd" where
  "with_bucket env f =
     cmd_bind (getStorageClient env) (\<lambda>_.
     cmd_bind (cmd_lift (getStorageConfig env)) (\<lambda>config. f (sc_bucket config)))"

section \<open>File types and names\<close>

definition FILE_TYPES :: "(string \<times> string) list" where
  "FILE_TYPES = [(''image/jpeg'', ''jpg''), (''image/png'', ''png''), (''image/webp'', ''webp''),
     (''application/pdf'', ''pdf''), (''application/json'', ''json''), (''application/octet-stream'', ''bin'')]"

text \<open>
  \<open>String(v)\<close>, which also makes a property key of a value. Of the numbers only those that
  JavaScript writes with an exponent look different here.
\<close>

definition pad_nat :: "nat \<Rightarrow> nat \<Rightarrow> string" where
  "pad_nat k n = replicate (k - length (show_nat n)) CHR ''0'' @ show_nat n"

definition num_text :: "jsnum \<Rightarrow> string" where
  "num_text n = (case n of
       IntN i \<Rightarrow> show_int i
     | FracN m k \<Rightarrow> (if m < 0 then ''-'' else []) @ show_nat (nat \<bar>m\<bar> div 10 ^ k) @ ''.'' @ pad_nat k (nat \<bar>m\<bar> mod 10 ^ k)
     | NaN \<Rightarrow> ''NaN''
     | PosInf \<Rightarrow> ''Infinity''
     | NegInf \<Rightarrow> ''-Infinity'')"

fun js_text :: "jsval \<Rightarrow> string" where
  "js_text Undefined = ''undefined''"
| "js_text Null = ''null''"
| "js_text (Bool b) = (if b then ''true'' else ''false'')"
| "js_text (Num n) = num_text n"
| "js_text (Str s) = s"
| "js_text (Arr vs) = js_join '','' (map (\<lambda>v. case v of Undefined \<Rightarrow> [] | Null \<Rightarrow> [] | x \<Rightarrow> js_text x) vs)"
| "js_text (Obj _) = ''[object Object]''"

definition isAllowedContentType :: "jsval \<Rightarrow> bool" where
  "isAllowedContentType v \<longleftrightarrow> map_of FILE_TYPES (js_text v) \<noteq> None"

definition extensionForContentType :: "jsval \<Rightarrow> string" where
  "extensionForContentType v = (case map_of FILE_TYPES (js_text v) of Some e \<Rightarrow> e | None \<Rightarrow> ''undefined'')"

text \<open>
  \<open>createContentHashedName\<close>, with \<open>sha256_hex\<close> the hexadecimal digest. \<open>path.parse\<close> on
  a POSIX system: trailing slashes do not count, the base is what follows the last slash, its
  extension starts at its last dot unless that is its first character or the base is \<open>..\<close>.
\<close>

definition path_base :: "string \<Rightarrow> string" where
  "path_base p = (let q = rev (dropWhile (\<lambda>c. c = CHR ''/'') (rev p))
     in rev (takeWhile (\<lambda>c. c \<noteq> CHR ''/'') (rev q)))"

definition split_ext :: "string \<Rightarrow> string \<times> string" where
  "split_ext base =
     (let ext = rev (takeWhile (\<lambda>c. c \<noteq> CHR ''.'') (rev base)); name = take (length base - length ext - 1) base
      in if CHR ''.'' \<notin> set base \<or> name = [] \<or> base = ''..'' then (base, []) else (name, CHR ''.'' # ext))"

definition createContentHashedName :: "(byte list \<Rightarrow> string) \<Rightarrow> string \<Rightarrow> byte list \<Rightarrow> string" where
  "createContentHashedName sha256_hex filename content =
     (let (name, ext) = split_ext (path_base filename); hash = take 8 (sha256_hex content)
      in name @ ''.'' @ hash @ ext)"

section \<open>Multipart uploads\<close>

definition MIN_PART_SIZE :: int where "MIN_PART_SIZE = 5 * 1024 * 1024"
definition MAX_PARTS :: int where "MAX_PARTS = 10000"

definition div_ceil :: "int \<Rightarrow> int \<Rightarrow> int" where
  "div_ceil a b = - ((- a) div b)"

text \<open>Sizes are integers below \<open>2^53\<close>, for which the division of doubles rounds to the same ceiling.\<close>

definition calculatePartSize :: "int \<Rightarrow> int" where
  "calculatePartSize fileSize = max MIN_PART_SIZE (div_ceil fileSize MAX_PARTS)"

definition createMultipartUpload :: "'s s3 \<Rightarrow> environment \<Rightarrow> string \<Rightarrow> string \<Rightarrow> ('s storage, string) cmd" where
  "createMultipartUpload s3 env key contentType =
     cmd_bind (ensureStorageBucket s3 env) (\<lambda>_.
     with_bucket env (\<lambda>bucket.
     cmd_bind (send s3 (CreateMultipart bucket key contentType)) (\<lambda>response.
     case s3_UploadId response of
       None \<Rightarrow> cmd_throw (JsError ''Storage did not return UploadId'')
     | Some u \<Rightarrow> if u = [] then cmd_throw (JsError ''Storage did not return UploadId'') else cmd_return u)))"

definition createPartUrl ::
  "'s s3 \<Rightarrow> environment \<Rightarrow> string \<Rightarrow> string \<Rightarrow> int \<Rightarrow> int option \<Rightarrow> ('s storage, string) cmd" where
  "createPartUrl s3 env key uploadId partNumber expiresIn =
     with_bucket env (\<lambda>bucket.
       cmd_lift (s3_presign s3 (UploadPart bucket key uploadId partNumber)
         (case expiresIn of None \<Rightarrow> 300 | Some t \<Rightarrow> t)))"

record uploaded_part =
  up_partNumber :: int
  up_etag :: string
  up_size :: int

definition usable_part :: "s3_part \<Rightarrow> bool" where
  "usable_part p \<longleftrightarrow> sp_PartNumber p \<noteq> None \<and> (case sp_ETag p of None \<Rightarrow> False | Some e \<Rightarrow> e \<noteq> [])"

definition to_uploaded :: "s3_part \<Rightarrow> uploaded_part" where
  "to_uploaded p = \<lparr>up_partNumber = the (sp_PartNumber p), up_etag = the (sp_ETag p),
     up_size = (case sp_Size p of None \<Rightarrow> 0 | Some n \<Rightarrow> n)\<rparr>"

definition listed_parts :: "s3_response \<Rightarrow> uploaded_part list" where
  "listed_parts r = map to_uploaded (filter usable_part (case s3_Parts r of None \<Rightarrow> [] | Some ps \<Rightarrow> ps))"

definition listUploadedParts :: "'s s3 \<Rightarrow> environment \<Rightarrow> string \<Rightarrow> string \<Rightarrow> ('s storage, uploaded_part list) cmd" where
  "listUploadedParts s3 env key uploadId =
     with_bucket env (\<lambda>bucket.
     cmd_bind (send s3 (ListParts bucket key uploadId)) (\<lambda>response. cmd_return (listed_parts response)))"

definition completeMultipartUpload :: "'s s3 \<Rightarrow> environment \<Rightarrow> string \<Rightarrow> string \<Rightarrow> ('s storage, string) cmd" where
  "completeMultipartUpload s3 env key uploadId =
     with_bucket env (\<lambda>bucket.
     cmd_bind (listUploadedParts s3 env key uploadId) (\<lambda>parts.
     if parts = [] then cmd_throw (JsError ''Multipart upload has no uploaded parts'')
     else
       cmd_bind (send s3 (CompleteMultipart bucket key uploadId
         (map (\<lambda>p. (up_partNumber p, up_etag p)) (sort_key up_partNumber parts)))) (\<lambda>response.
       cmd_return (case s3_ETag response of None \<Rightarrow> [] | Some e \<Rightarrow> e))))"

definition abortMultipartUpload :: "'s s3 \<Rightarrow> environment \<Rightarrow> string \<Rightarrow> string \<Rightarrow> ('s storage, unit) cmd" where
  "abortMultipartUpload s3 env key uploadId =
     with_bucket env (\<lambda>bucket.
     cmd_bind (send s3 (AbortMultipart bucket key uploadId)) (\<lambda>_. cmd_return ()))"

definition cleanup_one :: "'s s3 \<Rightarrow> environment \<Rightarrow> string option \<times> string option \<Rightarrow> unit \<Rightarrow> ('s storage, unit) cmd" where
  "cleanup_one s3 env upload _ = (case upload of
       (Some key, Some uploadId) \<Rightarrow>
         if key = [] \<or> uploadId = [] then cmd_return () else abortMultipartUpload s3 env key uploadId
     | _ \<Rightarrow> cmd_return ())"

definition cleanupMultipartUploads :: "'s s3 \<Rightarrow> environment \<Rightarrow> ('s storage, unit) cmd" where
  "cleanupMultipartUploads s3 env =
     cmd_bind (ensureStorageBucket s3 env) (\<lambda>_.
     with_bucket env (\<lambda>bucket.
     cmd_bind (send s3 (ListMultipartUploads bucket)) (\<lambda>response.
     cmd_fold (cleanup_one s3 env) (case s3_Uploads response of None \<Rightarrow> [] | Some us \<Rightarrow> us) ())))"

section \<open>Properties\<close>

lemma div_ceil_bounds:
  assumes "0 < (b::int)" shows "a \<le> b * div_ceil a b" "b * div_ceil a b < a + b"
proof -
  have "- a = b * ((- a) div b) + (- a) mod b" by simp
  moreover have "0 \<le> (- a) mod b" "(- a) mod b < b" using assms by simp_all
  moreover have "b * div_ceil a b = - (b * ((- a) div b))" by (simp add: div_ceil_def)
  ultimately show "a \<le> b * div_ceil a b" "b * div_ceil a b < a + b" by linarith+
qed

lemma div_ceil_le: "0 < (b::int) \<Longrightarrow> a \<le> b * c \<Longrightarrow> div_ceil a b \<le> c"
proof -
  assume b: "0 < b" and le: "a \<le> b * c"
  have "b * div_ceil a b < b * (c + 1)" using div_ceil_bounds(2) [OF b, of a] le by (simp add: algebra_simps)
  with b show ?thesis by (simp add: mult_less_cancel_left_pos)
qed

text \<open>The part size of a file respects the limits of S3: parts of at least five
  mebibytes, at most ten thousand of them, and no smaller part size would do.\<close>

theorem part_size_limits:
  assumes "0 \<le> n"
  shows "MIN_PART_SIZE \<le> calculatePartSize n \<and> div_ceil n (calculatePartSize n) \<le> MAX_PARTS \<and>
    (MIN_PART_SIZE \<le> q \<and> div_ceil n q \<le> MAX_PARTS \<longrightarrow> calculatePartSize n \<le> q)"
proof (intro conjI impI)
  let ?p = "calculatePartSize n"
  show "MIN_PART_SIZE \<le> ?p" by (simp add: calculatePartSize_def)
  then have p: "0 < ?p" by (simp add: MIN_PART_SIZE_def)
  have "n \<le> MAX_PARTS * div_ceil n MAX_PARTS" by (rule div_ceil_bounds) (simp add: MAX_PARTS_def)
  also have "\<dots> \<le> MAX_PARTS * ?p" by (simp add: calculatePartSize_def MAX_PARTS_def)
  finally show "div_ceil n ?p \<le> MAX_PARTS" by (intro div_ceil_le p) (simp add: mult.commute)
next
  assume q: "MIN_PART_SIZE \<le> q \<and> div_ceil n q \<le> MAX_PARTS"
  then have pos: "0 < q" by (simp add: MIN_PART_SIZE_def)
  have "n \<le> q * div_ceil n q" by (rule div_ceil_bounds [OF pos])
  also have "\<dots> \<le> q * MAX_PARTS" using q pos by (intro mult_left_mono) simp_all
  finally have "n \<le> MAX_PARTS * q" by (simp add: mult.commute)
  then have "div_ceil n MAX_PARTS \<le> q" by (intro div_ceil_le) (simp_all add: MAX_PARTS_def)
  with q show "calculatePartSize n \<le> q" by (simp add: calculatePartSize_def)
qed

lemma part_size_limits_witness: "div_ceil 60000000000 (calculatePartSize 60000000000) \<le> MAX_PARTS \<and> calculatePartSize 60000000000 = 6000000"
  using part_size_limits [of 60000000000] by (simp add: calculatePartSize_def MIN_PART_SIZE_def MAX_PARTS_def div_ceil_def)

lemma sort_key_Nil [simp]: "sort_key f xs = [] \<longleftrightarrow> xs = []"
  by (metis length_0_conv length_sort)

lemma with_bucket_client:
  assumes "getStorageConfig env = Inr config" and "st_client s = Some c"
  shows "with_bucket env f s = f (sc_bucket config) s"
  using assms by (simp add: with_bucket_def getStorageClient_def cmd_bind_run cmd_simps)

text \<open>completing a multipart upload lists the parts once, fails without a request if
  no listed part has a number and an entity tag, and otherwise sends exactly those parts,
  each once, in ascending order of their numbers.\<close>

theorem complete_sends_parts:
  assumes "getStorageConfig env = Inr config" and "st_client s = Some c"
    and "s3_send s3 (ListParts (sc_bucket config) key uploadId) (st_service s) = (Inr response, t)"
  shows "\<exists>ps. sorted (map fst ps) \<and>
    mset ps = mset (map (\<lambda>p. (the (sp_PartNumber p), the (sp_ETag p)))
      (filter usable_part (case s3_Parts response of None \<Rightarrow> [] | Some l \<Rightarrow> l))) \<and>
    completeMultipartUpload s3 env key uploadId s =
      (if ps = [] then (Inl (JsError ''Multipart upload has no uploaded parts''), s\<lparr>st_service := t\<rparr>)
       else (case s3_send s3 (CompleteMultipart (sc_bucket config) key uploadId ps) t of
           (Inl e, u) \<Rightarrow> (Inl e, s\<lparr>st_service := u\<rparr>)
         | (Inr r, u) \<Rightarrow> (Inr (case s3_ETag r of None \<Rightarrow> [] | Some e \<Rightarrow> e), s\<lparr>st_service := u\<rparr>)))"
proof -
  let ?parts = "listed_parts response" and ?pair = "\<lambda>p. (up_partNumber p, up_etag p)"
  let ?ps = "map ?pair (sort_key up_partNumber ?parts)"
  have l: "listUploadedParts s3 env key uploadId s = (Inr ?parts, s\<lparr>st_service := t\<rparr>)"
    by (simp add: listUploadedParts_def with_bucket_client [OF assms(1,2)] cmd_bind_run send_def assms(3) cmd_simps)
  have run: "completeMultipartUpload s3 env key uploadId s =
      (if ?ps = [] then (Inl (JsError ''Multipart upload has no uploaded parts''), s\<lparr>st_service := t\<rparr>)
       else (case s3_send s3 (CompleteMultipart (sc_bucket config) key uploadId ?ps) t of
           (Inl e, u) \<Rightarrow> (Inl e, s\<lparr>st_service := u\<rparr>)
         | (Inr r, u) \<Rightarrow> (Inr (case s3_ETag r of None \<Rightarrow> [] | Some e \<Rightarrow> e), s\<lparr>st_service := u\<rparr>)))"
    by (auto simp: completeMultipartUpload_def with_bucket_client [OF assms(1,2)] cmd_bind_run l send_def cmd_simps
        split: prod.split sum.split)
  have "sorted (map fst ?ps)" by (simp add: comp_def)
  moreover have "mset ?ps = mset (map ?pair ?parts)" by simp
  then have "mset ?ps = mset (map (\<lambda>p. (the (sp_PartNumber p), the (sp_ETag p)))
      (filter usable_part (case s3_Parts response of None \<Rightarrow> [] | Some l \<Rightarrow> l)))"
    by (simp add: listed_parts_def to_uploaded_def comp_def)
  ultimately show ?thesis using run by blast
qed


definition sample_env :: environment where
  "sample_env = (\<lambda>n. if n = ''STORAGE_ACCESS_KEY'' then Some ''a'' else if n = ''STORAGE_SECRET_KEY'' then Some ''s''
     else if n = ''STORAGE_BUCKET'' then Some ''files'' else None)"

definition no_response :: s3_response where
  "no_response = \<lparr>s3_ContentLength = None, s3_UploadId = None, s3_ETag = None, s3_Parts = None, s3_Uploads = None,
     s3_Body = None, s3_ContentType = None, s3_CacheControl = None\<rparr>"

text \<open>A service that logs its commands and answers a listing with two parts out of order.\<close>

definition logging_s3 :: "s3_command list s3" where
  "logging_s3 = \<lparr>s3_send = (\<lambda>c log. (Inr (case c of
       ListParts _ _ _ \<Rightarrow> no_response\<lparr>s3_Parts := Some
         [\<lparr>sp_PartNumber = Some 2, sp_ETag = Some ''b'', sp_Size = None\<rparr>,
          \<lparr>sp_PartNumber = Some 1, sp_ETag = Some ''a'', sp_Size = Some 7\<rparr>,
          \<lparr>sp_PartNumber = Some 3, sp_ETag = None, sp_Size = None\<rparr>]\<rparr>
     | CompleteMultipart _ _ _ _ \<Rightarrow> no_response\<lparr>s3_ETag := Some ''whole''\<rparr>
     | HeadObject _ _ \<Rightarrow> no_response\<lparr>s3_ContentLength := Some 12\<rparr>
     | _ \<Rightarrow> no_response), log @ [c])),
     s3_presign = (\<lambda>c t. Inr ''https://signed'')\<rparr>"

definition sample_client :: client_options where
  "sample_client = \<lparr>co_region = ''us-east-1'', co_endpoint = None, co_forcePathStyle = False, co_accessKeyId = ''a'',
     co_secretAccessKey = ''s''\<rparr>"

definition sample_config_storage :: storage_config where
  "sample_config_storage = \<lparr>sc_endpoint = None, sc_region = ''us-east-1'', sc_accessKeyId = ''a'', sc_secretAccessKey = ''s'',
     sc_bucket = ''files''\<rparr>"

lemma sample_env_config: "getStorageConfig sample_env = Inr sample_config_storage"
  by (simp add: getStorageConfig_def sample_env_def requireEnv_def env_or_none_def sample_config_storage_def)

lemma complete_sends_parts_witness:
  "\<exists>ps r. sorted (map fst ps) \<and> mset ps = {#(2, ''b''), (1, ''a'')#} \<and>
     completeMultipartUpload logging_s3 sample_env ''k'' ''u''
       \<lparr>st_client = Some sample_client, st_initialized = True, st_service = []\<rparr> =
     (r, \<lparr>st_client = Some sample_client, st_initialized = True,
          st_service = [ListParts ''files'' ''k'' ''u'', CompleteMultipart ''files'' ''k'' ''u'' ps]\<rparr>)"
proof -
  let ?s = "\<lparr>st_client = Some sample_client, st_initialized = True, st_service = []\<rparr>"
  let ?ls = "[\<lparr>sp_PartNumber = Some 2, sp_ETag = Some ''b'', sp_Size = None\<rparr>,
      \<lparr>sp_PartNumber = Some 1, sp_ETag = Some ''a'', sp_Size = Some 7\<rparr>,
      \<lparr>sp_PartNumber = Some 3, sp_ETag = None, sp_Size = None\<rparr>]"
  have send: "s3_send logging_s3 (ListParts (sc_bucket sample_config_storage) ''k'' ''u'') (st_service ?s) =
      (Inr (no_response\<lparr>s3_Parts := Some ?ls\<rparr>), [ListParts ''files'' ''k'' ''u''])"
    by (simp add: logging_s3_def sample_config_storage_def)
  obtain ps where ps: "sorted (map fst ps)" "mset ps = mset (map (\<lambda>p. (the (sp_PartNumber p), the (sp_ETag p)))
      (filter usable_part ?ls))"
    and run: "completeMultipartUpload logging_s3 sample_env ''k'' ''u'' ?s =
      (if ps = [] then (Inl (JsError ''Multipart upload has no uploaded parts''), ?s\<lparr>st_service := [ListParts ''files'' ''k'' ''u'']\<rparr>)
       else (case s3_send logging_s3 (CompleteMultipart (sc_bucket sample_config_storage) ''k'' ''u'' ps) [ListParts ''files'' ''k'' ''u''] of
           (Inl e, u) \<Rightarrow> (Inl e, ?s\<lparr>st_service := u\<rparr>)
         | (Inr r, u) \<Rightarrow> (Inr (case s3_ETag r of None \<Rightarrow> [] | Some e \<Rightarrow> e), ?s\<lparr>st_service := u\<rparr>)))"
    using complete_sends_parts [OF sample_env_config _ send] by auto
  have m: "mset ps = {#(2, ''b''), (1, ''a'')#}" using ps(2) by (simp add: usable_part_def)
  then have "ps \<noteq> []" by auto
  with run m ps(1) show ?thesis by (intro exI [of _ ps]) (simp add: logging_s3_def sample_config_storage_def)
qed

end
