(* ===== verification/Files.thy ===== *)
theory Files
  imports Storage
begin

text \<open>
  \<open>src/files/files.service.ts\<close> and \<open>files.controller.ts\<close>: a file is announced with an
  upload intent, put into the storage by the client, and committed. The state is the database
  and the storage; UUIDs are arguments; \<open>bind\<close> is the driver's text of a parameter.
\<close>

section \<open>Upload intents\<close>

definition DEFAULT_PRESIGNED_UPLOAD_TTL_SECONDS :: int where
  "DEFAULT_PRESIGNED_UPLOAD_TTL_SECONDS = 5 * 60"

definition getPresignedUploadTtlSeconds :: "environment \<Rightarrow> err + int" where
  "getPresignedUploadTtlSeconds env = (case env_or_none env ''UPLOAD_PRESIGNED_TTL_SECONDS'' of
       None \<Rightarrow> Inr DEFAULT_PRESIGNED_UPLOAD_TTL_SECONDS
     | Some raw \<Rightarrow>
         (case number_of_string raw of
            IntN v \<Rightarrow> if v \<le> 0 \<or> 7 * 24 * 60 * 60 < v
              then Inl (JsError ''UPLOAD_PRESIGNED_TTL_SECONDS must be an integer between 1 and 604800'') else Inr v
          | _ \<Rightarrow> Inl (JsError ''UPLOAD_PRESIGNED_TTL_SECONDS must be an integer between 1 and 604800'')))"

record upload_intent =
  ui_fileId :: string
  ui_key :: string
  ui_uploadUrl :: string
  ui_expiresIn :: int

definition insert_file ::
  "string \<Rightarrow> jsnum \<Rightarrow> string \<Rightarrow> string option \<Rightarrow> int option \<Rightarrow> (db, file_row) cmd" where
  "insert_file fileId owner key contentType expectedSize =
     cmd_bind (cmd_lift (uuid_param (Str fileId))) (\<lambda>i.
     cmd_bind (cmd_lift (param_int int8 owner)) (\<lambda>u.
     cmd_bind (case expectedSize of None \<Rightarrow> cmd_return None | Some n \<Rightarrow> cmd_bind (int8_param n) (\<lambda>m. cmd_return (Some m))) (\<lambda>expected.
     cmd_bind (varchar 1024 key) (\<lambda>_.
     case contentType of
       None \<Rightarrow> cmd_throw (Pg (NotNullViolation ''content_type''))
     | Some ct \<Rightarrow>
         cmd_bind (varchar 255 ct) (\<lambda>_.
         insert_row files_constraints files_update
           \<lparr>f_id = i, f_owner_id = u, f_object_key = key, f_content_type = ct, f_status = FilePending,
            f_expected_size = expected, f_actual_size = None, f_upload_id = None\<rparr>)))))"

definition object_key :: "jsnum \<Rightarrow> string \<Rightarrow> string \<Rightarrow> string" where
  "object_key userId keyId extension = ''uploads/'' @ num_text userId @ ''/'' @ keyId @ ''.'' @ extension"

definition size_refused :: "jsval \<Rightarrow> bool" where
  "size_refused v \<longleftrightarrow> v \<noteq> Undefined \<and> (case integer_of v of None \<Rightarrow> True | Some n \<Rightarrow> n < 0)"

type_synonym 's file_state = "db \<times> 's storage"

definition createUploadIntent ::
  "(jsval \<Rightarrow> string option) \<Rightarrow> 's s3 \<Rightarrow> environment \<Rightarrow> string \<Rightarrow> string \<Rightarrow> jsnum \<Rightarrow> jsval \<Rightarrow> ('s file_state, upload_intent) cmd" where
  "createUploadIntent bind s3 env fileId keyId userId input =
     cmd_bind (on_snd (ensureStorageBucket s3 env)) (\<lambda>_.
     cmd_bind (cmd_lift (get_prop input ''contentType'')) (\<lambda>contentType.
     if \<not> isAllowedContentType contentType
     then cmd_throw (BadRequest (''Unsupported content type: '' @ js_text contentType))
     else if size_refused (opt_prop input ''size'')
     then cmd_throw (BadRequest ''size must be a non-negative integer'')
     else
       let key = object_key userId keyId (extensionForContentType contentType)
       in cmd_bind (on_fst (insert_file fileId userId key (bind contentType) (integer_of (opt_prop input ''size'')))) (\<lambda>_.
          cmd_bind (on_snd (with_bucket env cmd_return)) (\<lambda>bucket.
          cmd_bind (cmd_lift (getPresignedUploadTtlSeconds env)) (\<lambda>expiresIn.
          cmd_bind (cmd_lift (s3_presign s3 (PutObject bucket key (js_text contentType)) expiresIn)) (\<lambda>uploadUrl.
          cmd_return \<lparr>ui_fileId = fileId, ui_key = key, ui_uploadUrl = uploadUrl, ui_expiresIn = expiresIn\<rparr>))))))"

section \<open>Commits\<close>

record commit_response =
  cm_fileId :: string
  cm_key :: string
  cm_size :: int

text \<open>\<open>WHERE id = $1\<close>: a missing identifier is \<open>NULL\<close>, which no row equals.\<close>

definition find_file :: "jsval \<Rightarrow> (db, file_row option) cmd" where
  "find_file fileId =
     (if fileId = Undefined \<or> fileId = Null then cmd_return None
      else cmd_bind (cmd_lift (uuid_param fileId)) (\<lambda>i. cmd_read (\<lambda>d. first_where (\<lambda>r. f_id r = i) (files d))))"

definition content_length :: "'s s3 \<Rightarrow> string \<Rightarrow> string \<Rightarrow> ('s storage, int) cmd" where
  "content_length s3 bucket key =
     cmd_bind (cmd_try (send s3 (HeadObject bucket key))
       (\<lambda>_. cmd_throw (Conflict ''Object has not been uploaded''))) (\<lambda>head.
     case s3_ContentLength head of
       None \<Rightarrow> cmd_throw (Conflict ''Uploaded object has no size'')
     | Some n \<Rightarrow> cmd_return n)"

definition complete_row :: "int \<Rightarrow> file_row \<Rightarrow> file_row" where
  "complete_row n r = r\<lparr>f_status := FileCompleted, f_actual_size := Some n\<rparr>"

definition complete_file :: "string \<Rightarrow> int \<Rightarrow> (db, unit) cmd" where
  "complete_file i n =
     cmd_bind (int8_param n) (\<lambda>_.
     cmd_bind (cmd_assert (0 \<le> n) (Pg (CheckViolation ''files_actual_size_check''))) (\<lambda>_.
     cmd_write (files_update (update_where (\<lambda>r. f_id r = i) (complete_row n)))))"

definition recorded_size :: "file_row \<Rightarrow> int" where
  "recorded_size f = (case f_actual_size f of
       Some n \<Rightarrow> n
     | None \<Rightarrow> (case f_expected_size f of Some n \<Rightarrow> n | None \<Rightarrow> 0))"

definition commitUpload ::
  "'s s3 \<Rightarrow> environment \<Rightarrow> jsnum \<Rightarrow> jsval \<Rightarrow> ('s file_state, commit_response) cmd" where
  "commitUpload s3 env userId fileId =
     cmd_bind (on_snd (ensureStorageBucket s3 env)) (\<lambda>_.
     cmd_bind (on_fst (find_file fileId)) (\<lambda>row.
     case row of
       None \<Rightarrow> cmd_throw (NotFound (''File '' @ js_text fileId @ '' not found''))
     | Some file \<Rightarrow>
         if IntN (f_owner_id file) \<noteq> userId then cmd_throw (Forbidden ''File belongs to another user'')
         else if f_status file = FileCompleted
         then cmd_return \<lparr>cm_fileId = f_id file, cm_key = f_object_key file, cm_size = recorded_size file\<rparr>
         else
           cmd_bind (on_snd (with_bucket env cmd_return)) (\<lambda>bucket.
           cmd_bind (on_snd (content_length s3 bucket (f_object_key file))) (\<lambda>contentLength.
           if f_expected_size file \<noteq> None \<and> f_expected_size file \<noteq> Some contentLength
           then cmd_throw (Conflict ''Uploaded object size does not match expected size'')
           else
             cmd_bind (on_fst (complete_file (f_id file) contentLength)) (\<lambda>_.
             cmd_return \<lparr>cm_fileId = f_id file, cm_key = f_object_key file, cm_size = contentLength\<rparr>)))))"

section \<open>The controller\<close>

definition createIntent ::
  "(jsval \<Rightarrow> string option) \<Rightarrow> 's s3 \<Rightarrow> environment \<Rightarrow> string \<Rightarrow> string \<Rightarrow> jsval option \<Rightarrow> jsval \<Rightarrow>
     ('s file_state, upload_intent) cmd" where
  "createIntent bind s3 env fileId keyId user body = (case user of
       None \<Rightarrow> cmd_throw (Unauthorized ''Authenticated user is required'')
     | Some u \<Rightarrow> createUploadIntent bind s3 env fileId keyId (to_number (opt_prop u ''sub'')) body)"

definition commit ::
  "'s s3 \<Rightarrow> environment \<Rightarrow> jsval option \<Rightarrow> jsval \<Rightarrow> ('s file_state, commit_response) cmd" where
  "commit s3 env user body = (case user of
       None \<Rightarrow> cmd_throw (Unauthorized ''Authenticated user is required'')
     | Some u \<Rightarrow>
         cmd_bind (cmd_lift (get_prop body ''fileId'')) (commitUpload s3 env (to_number (opt_prop u ''sub''))))"

section \<open>What the operations do\<close>

lemma on_snd_db: "fst (snd (on_snd m (d, s))) = d"
  by (simp add: on_snd_run)

lemma insert_file_Inr:
  assumes "insert_file fileId owner key ct sz d = (Inr r, d')"
  shows "\<exists>i u c. pg_uuid fileId = Some i \<and> owner = IntN u \<and> ct = Some c \<and> files_constraints d r = None \<and>
    r = \<lparr>f_id = i, f_owner_id = u, f_object_key = key, f_content_type = c, f_status = FilePending,
       f_expected_size = sz, f_actual_size = None, f_upload_id = None\<rparr> \<and>
    d' = files_update (\<lambda>rs. rs @ [r]) d"
  using assms
  by (cases sz; cases ct)
    (auto simp: insert_file_def cmd_bind_Inr_iff cmd_simps uuid_param_Inr varchar_def split: option.splits if_splits)

lemma insert_file_Inl: "insert_file fileId owner key ct sz d = (Inl e, d') \<Longrightarrow> d' = d"
  by (cases sz; cases ct)
    (auto simp: insert_file_def cmd_bind_run cmd_simps varchar_def split: option.splits if_splits sum.splits)

lemma intent_db:
  assumes "createUploadIntent bind s3 env fileId keyId userId input (d, s) = (r, (d', s'))"
  shows "d' = d \<or> (\<exists>ct row. get_prop input ''contentType'' = Inr ct \<and> isAllowedContentType ct \<and>
    \<not> size_refused (opt_prop input ''size'') \<and>
    insert_file fileId userId (object_key userId keyId (extensionForContentType ct)) (bind ct)
      (integer_of (opt_prop input ''size'')) d = (Inr row, d'))"
proof (cases "get_prop input ''contentType''")
  case (Inl e)
  with assms show ?thesis by (auto simp: createUploadIntent_def cmd_bind_run cmd_simps split: sum.splits)
next
  case (Inr ct)
  let ?key = "object_key userId keyId (extensionForContentType ct)"
  obtain x d1 where i: "insert_file fileId userId ?key (bind ct) (integer_of (opt_prop input ''size'')) d = (x, d1)"
    by (rule prod.exhaust)
  show ?thesis
  proof (cases x)
    case (Inl e)
    with i insert_file_Inl have "d1 = d" by blast
    with i Inl Inr assms show ?thesis
      by (auto simp: createUploadIntent_def cmd_bind_run cmd_simps Let_def split: sum.splits if_splits)
  next
    case (Inr row)
    with i \<open>get_prop _ _ = _\<close> assms show ?thesis
      by (auto simp: createUploadIntent_def cmd_bind_run cmd_simps Let_def split: sum.splits if_splits)
  qed
qed

lemma find_file_run: "find_file fileId d =
    (if fileId = Undefined \<or> fileId = Null then Inr None
     else case uuid_param fileId of Inl e \<Rightarrow> Inl e | Inr i \<Rightarrow> Inr (first_where (\<lambda>r. f_id r = i) (files d)), d)"
  by (simp add: find_file_def cmd_bind_run cmd_simps split: sum.split)

lemma complete_file_run: "complete_file i n d =
    (if int8 n \<and> 0 \<le> n then (Inr (), files_update (update_where (\<lambda>r. f_id r = i) (complete_row n)) d)
     else (Inl (if int8 n then Pg (CheckViolation ''files_actual_size_check'') else Pg NumericValueOutOfRange), d))"
  by (simp add: complete_file_def cmd_bind_run cmd_simps param_int_IntN)

text \<open>\<open>commitUpload\<close> branch by branch.\<close>

lemma commit_run:
  "commitUpload s3 env userId fileId (d, s) =
     (case ensureStorageBucket s3 env s of
        (Inl e, s1) \<Rightarrow> (Inl e, (d, s1))
      | (Inr _, s1) \<Rightarrow>
          (case fst (find_file fileId d) of
             Inl e \<Rightarrow> (Inl e, (d, s1))
           | Inr None \<Rightarrow> (Inl (NotFound (''File '' @ js_text fileId @ '' not found'')), (d, s1))
           | Inr (Some f) \<Rightarrow>
               if IntN (f_owner_id f) \<noteq> userId then (Inl (Forbidden ''File belongs to another user''), (d, s1))
               else if f_status f = FileCompleted
               then (Inr \<lparr>cm_fileId = f_id f, cm_key = f_object_key f, cm_size = recorded_size f\<rparr>, (d, s1))
               else
                 (case cmd_bind (with_bucket env cmd_return) (\<lambda>b. content_length s3 b (f_object_key f)) s1 of
                    (Inl e, s2) \<Rightarrow> (Inl e, (d, s2))
                  | (Inr n, s2) \<Rightarrow>
                      if f_expected_size f \<noteq> None \<and> f_expected_size f \<noteq> Some n
                      then (Inl (Conflict ''Uploaded object size does not match expected size''), (d, s2))
                      else if int8 n \<and> 0 \<le> n
                      then (Inr \<lparr>cm_fileId = f_id f, cm_key = f_object_key f, cm_size = n\<rparr>,
                            (files_update (update_where (\<lambda>r. f_id r = f_id f) (complete_row n)) d, s2))
                      else (Inl (if int8 n then Pg (CheckViolation ''files_actual_size_check'') else Pg NumericValueOutOfRange),
                            (d, s2)))))"
  by (simp add: commitUpload_def cmd_bind_run cmd_simps find_file_run complete_file_run on_fst_def on_snd_def
      del: first_where_None split: prod.split sum.split option.split)

lemma find_file_Some:
  "fst (find_file fileId d) = Inr (Some f) \<Longrightarrow>
     \<exists>i. uuid_param fileId = Inr i \<and> first_where (\<lambda>r. f_id r = i) (files d) = Some f \<and> f \<in> set (files d) \<and> f_id f = i"
  using first_where_SomeD by (fastforce simp: find_file_run split: if_splits sum.splits)



section \<open>The table of files over time\<close>

text \<open>
  A pending file has no size yet; a completed one has a size, the announced one if there is
  one. The object key lies in the folder of the owner and has the extension of an allowed type.
\<close>

definition file_typed :: "file_row \<Rightarrow> bool" where
  "file_typed r \<longleftrightarrow> (case f_status r of
       FilePending \<Rightarrow> f_actual_size r = None
     | FileCompleted \<Rightarrow> (\<exists>n. f_actual_size r = Some n \<and> 0 \<le> n \<and> f_expected_size r \<in> {None, Some n})) \<and>
     (\<exists>keyId ext. ext \<in> snd ` set FILE_TYPES \<and>
        f_object_key r = ''uploads/'' @ show_int (f_owner_id r) @ ''/'' @ keyId @ ''.'' @ ext)"

definition files_typed :: "db \<Rightarrow> bool" where
  "files_typed d \<longleftrightarrow> (\<forall>r \<in> set (files d). file_typed r)"

datatype file_op = IntentOp string string jsnum jsval | CommitOp jsnum jsval

definition file_step ::
  "(jsval \<Rightarrow> string option) \<Rightarrow> 's s3 \<Rightarrow> environment \<Rightarrow> file_op \<Rightarrow> 's file_state \<Rightarrow> 's file_state" where
  "file_step bind s3 env op st = (case op of
       IntentOp fileId keyId userId input \<Rightarrow> snd (createUploadIntent bind s3 env fileId keyId userId input st)
     | CommitOp userId fileId \<Rightarrow> snd (commitUpload s3 env userId fileId st))"

lemma wf_append_file:
  "wf_db d \<Longrightarrow> files_constraints d r = None \<Longrightarrow> wf_db (files_update (\<lambda>rs. rs @ [r]) d)"
  unfolding wf_db_def ids_defs
  by (auto simp: files_ok_def files_constraints_def split: if_splits)

lemma wf_complete:
  assumes "wf_db d" and "0 \<le> n"
  shows "wf_db (files_update (update_where h (complete_row n)) d)"
proof -
  have "\<forall>r \<in> set (update_where h (complete_row n) (files d)). f_owner_id r \<in> user_ids d \<and>
      (\<forall>n. f_expected_size r = Some n \<longrightarrow> 0 \<le> n) \<and> (\<forall>n. f_actual_size r = Some n \<longrightarrow> 0 \<le> n)"
    by (rule ball_update_where) (use assms in \<open>simp_all add: wf_db_def files_ok_def complete_row_def\<close>)
  with assms(1) show ?thesis
    by (simp add: wf_db_def ids_defs files_ok_def map_update_where complete_row_def)
qed

text \<open>How one operation can change the table.\<close>

definition file_change :: "db \<Rightarrow> db \<Rightarrow> bool" where
  "file_change d d' \<longleftrightarrow> d' = d \<or>
     (\<exists>r. files_constraints d r = None \<and> file_typed r \<and> d' = files_update (\<lambda>rs. rs @ [r]) d) \<or>
     (\<exists>f n. f \<in> set (files d) \<and> f_status f = FilePending \<and> 0 \<le> n \<and> f_expected_size f \<in> {None, Some n} \<and>
        d' = files_update (update_where (\<lambda>r. f_id r = f_id f) (complete_row n)) d)"

lemma allowed_extension: "isAllowedContentType v \<Longrightarrow> extensionForContentType v \<in> snd ` set FILE_TYPES"
proof -
  assume "isAllowedContentType v"
  then obtain e where e: "map_of FILE_TYPES (js_text v) = Some e" by (auto simp: isAllowedContentType_def)
  with map_of_SomeD [OF e] show ?thesis by (force simp: extensionForContentType_def)
qed

lemma intent_change: "file_change d (fst (snd (createUploadIntent bind s3 env fileId keyId userId input (d, s))))"
proof -
  obtain r d' s' where c: "createUploadIntent bind s3 env fileId keyId userId input (d, s) = (r, (d', s'))"
    by (metis prod.exhaust)
  from intent_db [OF this] show ?thesis
  proof (elim disjE exE conjE)
    assume "d' = d"
    with c show ?thesis by (simp add: file_change_def)
  next
    fix ct row
    let ?key = "object_key userId keyId (extensionForContentType ct)"
    assume ct: "isAllowedContentType ct"
      and ins: "insert_file fileId userId ?key (bind ct) (integer_of (opt_prop input ''size'')) d = (Inr row, d')"
    from insert_file_Inr [OF ins] obtain i u x where row: "userId = IntN u" "files_constraints d row = None"
      "row = \<lparr>f_id = i, f_owner_id = u, f_object_key = ?key, f_content_type = x, f_status = FilePending,
         f_expected_size = integer_of (opt_prop input ''size''), f_actual_size = None, f_upload_id = None\<rparr>"
      "d' = files_update (\<lambda>rs. rs @ [row]) d" by blast
    have "file_typed row"
      using allowed_extension [OF ct] by (auto simp: file_typed_def row(1,3) object_key_def num_text_def)
    with c row(2,4) show ?thesis by (auto simp: file_change_def)
  qed
qed

lemma commit_change: "file_change d (fst (snd (commitUpload s3 env userId fileId (d, s))))"
proof -
  obtain x s1 where ens: "ensureStorageBucket s3 env s = (x, s1)" by (rule prod.exhaust)
  show ?thesis
  proof (cases "\<exists>f y. x = Inr y \<and> fst (find_file fileId d) = Inr (Some f) \<and> f_status f = FilePending")
    case False
    then have "fst (snd (commitUpload s3 env userId fileId (d, s))) = d"
      using ens by (auto simp: commit_run split: sum.split option.split) (metis file_status.exhaust)+
    then show ?thesis by (simp add: file_change_def)
  next
    case True
    then obtain f y where f: "x = Inr y" "fst (find_file fileId d) = Inr (Some f)" "f_status f = FilePending" by blast
    from find_file_Some [OF f(2)] have i: "f \<in> set (files d)" by blast
    obtain z s2 where z: "cmd_bind (with_bucket env cmd_return) (\<lambda>b. content_length s3 b (f_object_key f)) s1 = (z, s2)"
      by (rule prod.exhaust)
    have "fst (snd (commitUpload s3 env userId fileId (d, s))) = d \<or>
        (\<exists>n. 0 \<le> n \<and> f_expected_size f \<in> {None, Some n} \<and> fst (snd (commitUpload s3 env userId fileId (d, s))) =
          files_update (update_where (\<lambda>r. f_id r = f_id f) (complete_row n)) d)"
      using ens f z by (cases z) (auto simp: commit_run)
    with i f(3) show ?thesis unfolding file_change_def by blast
  qed
qed

lemma step_change: "file_change (fst st) (fst (file_step bind s3 env op st))"
  by (cases op; cases st) (simp_all add: file_step_def intent_change commit_change)

lemma change_inv:
  assumes "file_change d d'" and "wf_db d" and "files_typed d"
  shows "wf_db d' \<and> files_typed d' \<and> {r \<in> set (files d). f_status r = FileCompleted} \<subseteq> set (files d')"
  using assms(1) unfolding file_change_def
proof (elim disjE exE conjE)
  assume "d' = d"
  with assms(2,3) show ?thesis by auto
next
  fix r
  assume "files_constraints d r = None" "file_typed r" "d' = files_update (\<lambda>rs. rs @ [r]) d"
  with assms(2,3) wf_append_file [of d r] show ?thesis by (auto simp: files_typed_def)
next
  fix f n
  assume f: "f \<in> set (files d)" "f_status f = FilePending" and n: "0 \<le> n" "f_expected_size f \<in> {None, Some n}"
    and d': "d' = files_update (update_where (\<lambda>r. f_id r = f_id f) (complete_row n)) d"
  have dist: "distinct (map f_id (files d))" using assms(2) by (simp add: wf_db_def files_ok_def)
  have only: "r = f" if "r \<in> set (files d)" "f_id r = f_id f" for r
    using dist that f(1) by (metis distinct_map inj_onD)
  have "file_typed f" using assms(3) f(1) by (simp add: files_typed_def)
  then have "file_typed (complete_row n f)" using n by (auto simp: file_typed_def complete_row_def)
  then have "files_typed d'"
    using assms(3) only by (auto simp: d' files_typed_def set_update_where)
  moreover have "{r \<in> set (files d). f_status r = FileCompleted} \<subseteq> set (files d')"
  proof
    fix x
    assume x: "x \<in> {r \<in> set (files d). f_status r = FileCompleted}"
    with only [of x] f(2) have "f_id x \<noteq> f_id f" by auto
    with x show "x \<in> set (files d')" by (simp add: d' set_update_where)
  qed
  ultimately show ?thesis using wf_complete [OF assms(2) n(1)] d' by blast
qed

text \<open>The invariant, with a completed file that has to stay.\<close>

definition upload_inv :: "file_row option \<Rightarrow> 's file_state \<Rightarrow> bool" where
  "upload_inv kept st \<longleftrightarrow> wf_db (fst st) \<and> files_typed (fst st) \<and>
     (case kept of None \<Rightarrow> True | Some r \<Rightarrow> r \<in> set (files (fst st)) \<and> f_status r = FileCompleted)"

interpretation uploads: invariant_steps "file_step bind s3 env" "upload_inv kept" for bind s3 env kept
proof
  fix st :: "'a file_state" and e
  assume i: "upload_inv kept st"
  then have "wf_db (fst st)" "files_typed (fst st)" by (simp_all add: upload_inv_def)
  from change_inv [OF step_change [of st bind s3 env e] this] i show "upload_inv kept (file_step bind s3 env e st)"
    by (cases kept) (auto simp: upload_inv_def)
qed

text \<open>C31: after any sequence of intents and commits, whatever the storage answers, every
  file is well typed: pending without a size, or completed with the size it was announced
  with, its object in the folder of its owner under the extension of an allowed type. A file
  that is completed stays as it is.\<close>

theorem files_stay_typed:
  assumes "wf_db d" and "files_typed d"
  shows "files_typed (fst (fold (file_step bind s3 env) ops (d, s))) \<and>
    {r \<in> set (files d). f_status r = FileCompleted} \<subseteq> set (files (fst (fold (file_step bind s3 env) ops (d, s))))"
proof -
  have "upload_inv None (fold (file_step bind s3 env) ops (d, s))"
    by (rule uploads.run_inv) (simp add: upload_inv_def assms)
  moreover have "upload_inv (Some r) (fold (file_step bind s3 env) ops (d, s))"
    if "r \<in> set (files d)" "f_status r = FileCompleted" for r
    by (rule uploads.run_inv) (simp add: upload_inv_def assms that)
  ultimately show ?thesis by (auto simp: upload_inv_def)
qed

section \<open>Examples\<close>

definition sample_file :: file_row where
  "sample_file = \<lparr>f_id = uuid_1, f_owner_id = 1, f_object_key = ''uploads/1/k.png'', f_content_type = ''image/png'',
     f_status = FilePending, f_expected_size = Some 12, f_actual_size = None, f_upload_id = None\<rparr>"

definition sample_file_db :: db where
  "sample_file_db = sample_db\<lparr>files := [sample_file]\<rparr>"

definition sample_storage :: "s3_command list storage" where
  "sample_storage = \<lparr>st_client = Some sample_client, st_initialized = True, st_service = []\<rparr>"


lemma sample_file_wf: "wf_db sample_file_db"
  using wf_sample_db
  by (simp add: wf_db_def sample_file_db_def ids_defs files_ok_def sample_file_def sample_db_def)

lemma sample_file_typed: "files_typed sample_file_db"
proof -
  have "''png'' \<in> snd ` set FILE_TYPES" by (simp add: FILE_TYPES_def)
  moreover have "f_object_key sample_file = ''uploads/'' @ show_int (f_owner_id sample_file) @ ''/'' @ ''k'' @ ''.'' @ ''png''"
    by code_simp
  ultimately have "\<exists>keyId ext. ext \<in> snd ` set FILE_TYPES \<and>
      f_object_key sample_file = ''uploads/'' @ show_int (f_owner_id sample_file) @ ''/'' @ keyId @ ''.'' @ ext" by blast
  then show ?thesis by (simp add: files_typed_def file_typed_def sample_file_db_def) (simp add: sample_file_def)
qed


lemma files_stay_typed_witness:
  "files_typed (fst (fold (file_step (\<lambda>_. None) logging_s3 sample_env) [CommitOp (IntN 1) (Str uuid_1)]
     (sample_file_db, sample_storage)))"
  using files_stay_typed [OF sample_file_wf sample_file_typed] by blast

end
