(* ===== verification/Edge.thy ===== *)
theory Edge
  imports Storage
begin

text \<open>
  \<open>src/cdn/edge-server.ts\<close>: an HTTP server that keeps every object it served in memory. The
  platform's URL functions are arguments: \<open>pathname\<close> is that of \<open>new URL(url, base)\<close>,
  \<open>decode\<close> is \<open>decodeURIComponent\<close>; both fail where the code throws. Requests are
  served one after the other.
\<close>

record cached_object =
  co_body :: "byte list"
  co_contentType :: string
  co_cacheControl :: string

type_synonym 's edge = "(string \<Rightarrow> cached_object option) \<times> 's storage"

definition to_object :: "s3_response \<Rightarrow> err + cached_object" where
  "to_object result = (case s3_Body result of
       None \<Rightarrow> Inl (JsError ''Object body is empty'')
     | Some bytes \<Rightarrow> Inr \<lparr>co_body = bytes,
         co_contentType = (case s3_ContentType result of None \<Rightarrow> ''application/octet-stream'' | Some t \<Rightarrow> t),
         co_cacheControl = (case s3_CacheControl result of
             None \<Rightarrow> ''public, max-age=31536000, immutable'' | Some c \<Rightarrow> c)\<rparr>)"

definition fetch_object :: "'s s3 \<Rightarrow> environment \<Rightarrow> string \<Rightarrow> ('s storage, cached_object) cmd" where
  "fetch_object s3 env key =
     with_bucket env (\<lambda>bucket.
     cmd_bind (send s3 (GetObject bucket key)) (\<lambda>result. cmd_lift (to_object result)))"

definition loadObject :: "'s s3 \<Rightarrow> environment \<Rightarrow> string \<Rightarrow> ('s edge, cached_object) cmd" where
  "loadObject s3 env key =
     cmd_bind (cmd_read (\<lambda>(cache, _). cache key)) (\<lambda>cached. case cached of
         Some obj \<Rightarrow> cmd_return obj
       | None \<Rightarrow>
           cmd_bind (on_snd (fetch_object s3 env key)) (\<lambda>obj.
           cmd_bind (on_fst (cmd_write (\<lambda>cache. cache(key \<mapsto> obj)))) (\<lambda>_. cmd_return obj)))"

definition clearEdgeCache :: "'s edge \<Rightarrow> 's edge" where
  "clearEdgeCache = (\<lambda>(_, s). (\<lambda>_. None, s))"

record edge_request =
  rq_method :: string
  rq_url :: "string option"

datatype edge_response = Served cached_object bool | Refused nat string

text \<open>The path without its leading slashes, and the key it names; \<open>None\<close> where the code throws.\<close>

definition encoded_key :: "(string \<Rightarrow> string option) \<Rightarrow> edge_request \<Rightarrow> string option" where
  "encoded_key pathname rq =
     map_option (dropWhile (\<lambda>c. c = CHR ''/'')) (pathname (case rq_url rq of None \<Rightarrow> ''/'' | Some u \<Rightarrow> u))"

definition decode_key :: "(string \<Rightarrow> string option) \<Rightarrow> string \<Rightarrow> string option" where
  "decode_key decode encodedKey =
     (let segments = map decode (js_split CHR ''/'' encodedKey)
      in if None \<in> set segments then None else Some (js_join ''/'' (map the segments)))"

definition handleRequest ::
  "(string \<Rightarrow> string option) \<Rightarrow> (string \<Rightarrow> string option) \<Rightarrow> 's s3 \<Rightarrow> environment \<Rightarrow> edge_request \<Rightarrow>
     's edge \<Rightarrow> edge_response \<times> 's edge" where
  "handleRequest pathname decode s3 env rq st =
     (if rq_method rq \<noteq> ''GET'' then (Refused 405 ''Method Not Allowed'', st)
      else (case encoded_key pathname rq of
          None \<Rightarrow> (Refused 404 ''Not Found'', st)
        | Some encodedKey \<Rightarrow>
            if encodedKey = [] then (Refused 404 ''Not Found'', st)
            else (case decode_key decode encodedKey of
                None \<Rightarrow> (Refused 404 ''Not Found'', st)
              | Some key \<Rightarrow>
                  let wasCached = (fst st key \<noteq> None)
                  in (case loadObject s3 env key st of
                      (Inl _, st') \<Rightarrow> (Refused 404 ''Not Found'', st')
                    | (Inr obj, st') \<Rightarrow> (Served obj wasCached, st')))))"

fun serve_all ::
  "(string \<Rightarrow> string option) \<Rightarrow> (string \<Rightarrow> string option) \<Rightarrow> 's s3 \<Rightarrow> environment \<Rightarrow> edge_request list \<Rightarrow>
     's edge \<Rightarrow> edge_response list \<times> 's edge" where
  "serve_all pathname decode s3 env [] st = ([], st)"
| "serve_all pathname decode s3 env (rq # rqs) st =
     (let (r, st') = handleRequest pathname decode s3 env rq st;
          (rs, st'') = serve_all pathname decode s3 env rqs st'
      in (r # rs, st''))"

section \<open>The cache does not show\<close>

text \<open>A server without a cache, for a storage that answers \<open>origin k\<close> for the key \<open>k\<close>.\<close>

definition origin_object :: "(string \<Rightarrow> err + s3_response) \<Rightarrow> string \<Rightarrow> err + cached_object" where
  "origin_object origin key = (case origin key of Inl e \<Rightarrow> Inl e | Inr r \<Rightarrow> to_object r)"

definition origin_response ::
  "(string \<Rightarrow> string option) \<Rightarrow> (string \<Rightarrow> string option) \<Rightarrow> (string \<Rightarrow> err + s3_response) \<Rightarrow> edge_request \<Rightarrow> edge_response" where
  "origin_response pathname decode origin rq =
     (if rq_method rq \<noteq> ''GET'' then Refused 405 ''Method Not Allowed''
      else (case encoded_key pathname rq of
          None \<Rightarrow> Refused 404 ''Not Found''
        | Some encodedKey \<Rightarrow>
            if encodedKey = [] then Refused 404 ''Not Found''
            else (case decode_key decode encodedKey of
                None \<Rightarrow> Refused 404 ''Not Found''
              | Some key \<Rightarrow> (case origin_object origin key of
                    Inl _ \<Rightarrow> Refused 404 ''Not Found''
                  | Inr obj \<Rightarrow> Served obj False))))"

text \<open>The response without its \<open>X-Cache\<close> header.\<close>

fun strip :: "edge_response \<Rightarrow> edge_response" where
  "strip (Served obj _) = Served obj False"
| "strip r = r"

definition edge_inv :: "(string \<Rightarrow> err + s3_response) \<Rightarrow> 's edge \<Rightarrow> bool" where
  "edge_inv origin st \<longleftrightarrow> (\<forall>k obj. fst st k = Some obj \<longrightarrow> origin_object origin k = Inr obj) \<and> st_client (snd st) \<noteq> None"

definition origin_ok :: "'s s3 \<Rightarrow> storage_config \<Rightarrow> (string \<Rightarrow> err + s3_response) \<Rightarrow> bool" where
  "origin_ok s3 config origin \<longleftrightarrow> (\<forall>k t. fst (s3_send s3 (GetObject (sc_bucket config) k) t) = origin k)"

lemma fetch_run:
  assumes "getStorageConfig env = Inr config" and "origin_ok s3 config origin" and "st_client s \<noteq> None"
  shows "fst (fetch_object s3 env k s) = origin_object origin k" and "st_client (snd (fetch_object s3 env k s)) \<noteq> None"
proof -
  obtain c where c: "st_client s = Some c" using assms(3) by blast
  obtain r t where r: "s3_send s3 (GetObject (sc_bucket config) k) (st_service s) = (r, t)" by (rule prod.exhaust)
  with assms(2) have "r = origin k" unfolding origin_ok_def by (metis fst_conv)
  then show "fst (fetch_object s3 env k s) = origin_object origin k" "st_client (snd (fetch_object s3 env k s)) \<noteq> None"
    by (simp_all add: fetch_object_def with_bucket_client [OF assms(1) c] cmd_bind_run send_def r cmd_simps
        origin_object_def c split: sum.split)
qed

lemma loadObject_run:
  assumes "getStorageConfig env = Inr config" and "origin_ok s3 config origin" and "edge_inv origin st"
  shows "fst (loadObject s3 env k st) = origin_object origin k" and "edge_inv origin (snd (loadObject s3 env k st))"
proof -
  obtain cache s where st: "st = (cache, s)" by (rule prod.exhaust)
  have client: "st_client s \<noteq> None" using assms(3) by (simp add: edge_inv_def st)
  note f = fetch_run [OF assms(1,2) client, of k]
  show "fst (loadObject s3 env k st) = origin_object origin k" "edge_inv origin (snd (loadObject s3 env k st))"
    using assms(3) f by (auto simp: loadObject_def st cmd_bind_run cmd_simps edge_inv_def split: option.split sum.split)
qed

lemma handle_run:
  assumes "getStorageConfig env = Inr config" and "origin_ok s3 config origin" and "edge_inv origin st"
  shows "strip (fst (handleRequest pathname decode s3 env rq st)) = origin_response pathname decode origin rq"
    and "edge_inv origin (snd (handleRequest pathname decode s3 env rq st))"
proof -
  note l = loadObject_run [OF assms]
  show "strip (fst (handleRequest pathname decode s3 env rq st)) = origin_response pathname decode origin rq"
    using l(1) [symmetric]
    by (auto simp: handleRequest_def origin_response_def Let_def split: option.split prod.split sum.split)
  show "edge_inv origin (snd (handleRequest pathname decode s3 env rq st))"
    using assms(3) l(2) by (auto simp: handleRequest_def Let_def split: option.split prod.split sum.split)
      (metis snd_conv)+
qed

lemma hit_run:
  "handleRequest pathname decode s3 env rq st = (Served obj True, st') \<Longrightarrow> st' = st"
  by (cases st) (auto simp: handleRequest_def Let_def loadObject_def cmd_bind_run cmd_simps
      split: if_splits option.splits prod.splits sum.splits)

text \<open>C32: when the stored objects do not change, the edge server answers any sequence of
  requests as a server without a cache would, up to the header that says where the answer
  came from; a hit asks the storage nothing and changes nothing.\<close>

theorem edge_transparent:
  assumes "getStorageConfig env = Inr config" and "origin_ok s3 config origin"
    and "fst st = (\<lambda>_. None)" and "st_client (snd st) = Some c"
  shows "map strip (fst (serve_all pathname decode s3 env rqs st)) = map (origin_response pathname decode origin) rqs \<and>
    (handleRequest pathname decode s3 env rq st1 = (Served obj True, st2) \<longrightarrow> st2 = st1)"
proof -
  have "edge_inv origin st" using assms(3,4) by (simp add: edge_inv_def)
  then have "map strip (fst (serve_all pathname decode s3 env rqs st)) = map (origin_response pathname decode origin) rqs"
  proof (induction rqs arbitrary: st)
    case (Cons rq rqs)
    note h = handle_run [OF assms(1,2) Cons.prems, of pathname decode rq]
    from h(1) Cons.IH [OF h(2)] show ?case by (simp add: case_prod_beta)
  qed simp
  with hit_run show ?thesis by blast
qed

definition fixed_s3 :: "unit s3" where
  "fixed_s3 = \<lparr>s3_send = (\<lambda>c s. (case c of
       GetObject _ k \<Rightarrow> if k = ''a.png'' then Inr (no_response\<lparr>s3_Body := Some [1, 2]\<rparr>) else Inl (JsError ''NoSuchKey'')
     | _ \<Rightarrow> Inr no_response, s)), s3_presign = (\<lambda>c t. Inr [])\<rparr>"

lemma edge_transparent_witness:
  "map strip (fst (serve_all Some Some fixed_s3 sample_env
      [\<lparr>rq_method = ''GET'', rq_url = Some ''/a.png''\<rparr>, \<lparr>rq_method = ''GET'', rq_url = Some ''/a.png''\<rparr>]
      ((\<lambda>_. None), \<lparr>st_client = Some sample_client, st_initialized = True, st_service = ()\<rparr>))) =
   [Served \<lparr>co_body = [1, 2], co_contentType = ''application/octet-stream'',
       co_cacheControl = ''public, max-age=31536000, immutable''\<rparr> False,
    Served \<lparr>co_body = [1, 2], co_contentType = ''application/octet-stream'',
       co_cacheControl = ''public, max-age=31536000, immutable''\<rparr> False]"
proof -
  let ?origin = "\<lambda>k. fst (s3_send fixed_s3 (GetObject ''files'' k) ())"
  have o: "origin_ok fixed_s3 sample_config_storage ?origin"
    by (simp add: origin_ok_def fixed_s3_def sample_config_storage_def)
  have r: "origin_response Some Some ?origin \<lparr>rq_method = ''GET'', rq_url = Some ''/a.png''\<rparr> =
      Served \<lparr>co_body = [1, 2], co_contentType = ''application/octet-stream'',
        co_cacheControl = ''public, max-age=31536000, immutable''\<rparr> False"
    by (simp add: origin_response_def encoded_key_def decode_key_def Let_def origin_object_def to_object_def
        fixed_s3_def no_response_def)
  show ?thesis
    using edge_transparent [OF sample_env_config o, of "((\<lambda>_. None), \<lparr>st_client = Some sample_client, st_initialized = True, st_service = ()\<rparr>)"
        sample_client Some Some "[\<lparr>rq_method = ''GET'', rq_url = Some ''/a.png''\<rparr>, \<lparr>rq_method = ''GET'', rq_url = Some ''/a.png''\<rparr>]"]
    unfolding list.map r by simp
qed

end
