(* ===== verification/Catalog.thy ===== *)
theory Catalog
  imports Auth
begin

text \<open>
  \<open>src/app.controller.ts\<close> and the repositories of users and products. An identifier that
  a repository is given is the text of one that PostgreSQL returned, here the integer;
  \<open>bind\<close> is the driver's text of a parameter.
\<close>

section \<open>The root controller\<close>

definition getHealth :: "int \<Rightarrow> int \<Rightarrow> int" where
  "getHealth startedAt now = (now - startedAt) div 1000"

definition integer_or_refuse :: "(int \<Rightarrow> bool) \<Rightarrow> string \<Rightarrow> jsval \<Rightarrow> (db, int) cmd" where
  "integer_or_refuse accept msg v = (case integer_of v of
       None \<Rightarrow> cmd_throw (BadRequest msg)
     | Some i \<Rightarrow> if accept i then cmd_return i else cmd_throw (BadRequest msg))"

definition owner_param :: "jsval \<Rightarrow> (db, int) cmd" where
  "owner_param sub = cmd_lift (param_int int8 (to_number sub))"

text \<open>\<open>body.description ?? null\<close>\<close>

definition optional_text :: "(jsval \<Rightarrow> string option) \<Rightarrow> jsval \<Rightarrow> string option" where
  "optional_text bind v = (if v = Undefined \<or> v = Null then None else bind v)"

definition createProduct ::
  "(jsval \<Rightarrow> string option) \<Rightarrow> jsval option \<Rightarrow> jsval \<Rightarrow> (db, product_row) cmd" where
  "createProduct bind user body = (case user of
       None \<Rightarrow> cmd_throw (BadRequest ''Authenticated user is required'')
     | Some u \<Rightarrow>
         cmd_bind (cmd_lift (get_prop body ''name'')) (\<lambda>name.
         case name of
           Str n \<Rightarrow>
             if js_trim n = [] then cmd_throw (BadRequest ''Product name is required'')
             else
               cmd_bind (integer_or_refuse (\<lambda>i. 0 < i) ''Product price must be a positive integer''
                 (opt_prop body ''price'')) (\<lambda>price.
               let stock = opt_prop body ''stockQuantity''
               in cmd_bind (integer_or_refuse (\<lambda>i. 0 \<le> i) ''Stock quantity must be a non-negative integer''
                    (if stock = Undefined \<or> stock = Null then Num (IntN 0) else stock)) (\<lambda>stockQuantity.
                  cmd_bind (owner_param (opt_prop u ''sub'')) (\<lambda>owner.
                  insert_product owner (js_trim n) (optional_text bind (opt_prop body ''description'')) price stockQuantity True)))
         | _ \<Rightarrow> cmd_throw (BadRequest ''Product name is required'')))"

text \<open>\<open>POST /products\<close> with its two guards; a role guard that answers false is a 403 of the framework.\<close>

definition postProduct ::
  "'k crypto \<Rightarrow> 'k auth_config \<Rightarrow> int \<Rightarrow> string option \<Rightarrow> jsval \<Rightarrow> (db, product_row) cmd" where
  "postProduct cr cfg now header body =
     cmd_bind (canActivate cr cfg now header) (\<lambda>user.
     cmd_bind (cmd_lift (rolesActivate (Some [Seller, Admin]) (Some user))) (\<lambda>allowed.
     if allowed then createProduct (cr_bind cr) (Some user) body
     else cmd_throw (Forbidden ''Forbidden resource'')))"

section \<open>ProductRepository\<close>

record create_product_input =
  cp_ownerId :: int
  cp_name :: string
  cp_description :: "string option"
  cp_price :: int
  cp_stockQuantity :: "int option"
  cp_isActive :: "bool option"

definition productCreate :: "create_product_input \<Rightarrow> (db, product_row) cmd" where
  "productCreate input =
     insert_product (cp_ownerId input) (cp_name input) (cp_description input) (cp_price input)
       (case cp_stockQuantity input of None \<Rightarrow> 0 | Some n \<Rightarrow> n)
       (case cp_isActive input of None \<Rightarrow> True | Some b \<Rightarrow> b)"

definition productFindById :: "int \<Rightarrow> (db, product_row option) cmd" where
  "productFindById i =
     cmd_bind (int8_param i) (\<lambda>_. cmd_read (\<lambda>d. first_where (\<lambda>r. p_id r = i) (products d)))"

definition findWithOwner :: "int \<Rightarrow> (db, (product_row \<times> string \<times> string) option) cmd" where
  "findWithOwner i =
     cmd_bind (int8_param i) (\<lambda>_.
     cmd_read (\<lambda>d. case first_where (\<lambda>r. p_id r = i) (products d) of
         None \<Rightarrow> None
       | Some p \<Rightarrow> map_option (\<lambda>u. (p, u_email u, u_full_name u)) (first_where (\<lambda>u. u_id u = p_owner_id p) (users d))))"

section \<open>UserRepository\<close>

record create_user_input =
  cu_email :: string
  cu_fullName :: string
  cu_balance :: "int option"

definition user_balance :: "create_user_input \<Rightarrow> int" where
  "user_balance input = (case cu_balance input of None \<Rightarrow> 0 | Some b \<Rightarrow> b)"

definition userCreate :: "create_user_input \<Rightarrow> (db, user_row) cmd" where
  "userCreate input = insert_user (cu_email input) (cu_fullName input) (user_balance input)"

definition findByEmail :: "string \<Rightarrow> (db, user_row option) cmd" where
  "findByEmail email = cmd_read (\<lambda>d. first_where (\<lambda>u. u_email u = email) (users d))"

text \<open>
  \<open>ON CONFLICT (email) DO NOTHING\<close>: the identifier is drawn and the checks are made either
  way; only a conflict on the email is passed over.
\<close>

definition createIfMissing :: "create_user_input \<Rightarrow> (db, user_row option) cmd" where
  "createIfMissing input =
     cmd_bind (int4_param (user_balance input)) (\<lambda>_.
     cmd_bind (nextval sq_users sq_users_update) (\<lambda>i.
     let r = \<lparr>u_id = i, u_email = cu_email input, u_full_name = cu_fullName input, u_balance = user_balance input,
              u_password_hash = None, u_role = Buyer\<rparr>
     in case user_checks r of
          Some e \<Rightarrow> cmd_throw (Pg e)
        | None \<Rightarrow>
            cmd_bind (cmd_read (\<lambda>d. cu_email input \<in> u_email ` set (users d))) (\<lambda>conflict.
            if conflict then cmd_return None
            else cmd_bind (insert_row users_constraints users_update r) (\<lambda>u. cmd_return (Some u)))))"

section \<open>What they do\<close>

lemma insert_product_Inr:
  "insert_product ow n ds pr st act d = (Inr r, d') \<longleftrightarrow>
     int8 ow \<and> int4 pr \<and> int4 st \<and> (\<exists>x. ds = Some x \<and>
       r = \<lparr>p_id = sq_products (seqs d) + 1, p_owner_id = ow, p_name = n, p_description = x, p_price = pr,
            p_stock_quantity = st, p_is_active = act\<rparr> \<and>
       products_constraints d r = None \<and>
       d' = d\<lparr>products := products d @ [r], seqs := (seqs d)\<lparr>sq_products := sq_products (seqs d) + 1\<rparr>\<rparr>)"
  by (cases ds; cases "int8 ow"; cases "int4 pr"; cases "int4 st")
    (auto simp: insert_product_def Let_def cmd_bind_run cmd_simps param_int_IntN products_constraints_def
      split: option.splits if_splits)

text \<open>A product without a description never gets in: the column does not take \<open>NULL\<close>.\<close>

lemma no_description_fails:
  assumes "cp_description input = None"
  shows "\<exists>e d'. productCreate input d = (Inl (Pg e), d') \<and> products d' = products d"
  using assms
  by (auto simp: productCreate_def insert_product_def Let_def cmd_bind_run cmd_simps param_int_IntN)

lemma createIfMissing_run:
  "createIfMissing input d =
     (let i = sq_users (seqs d) + 1; d1 = d\<lparr>seqs := (seqs d)\<lparr>sq_users := i\<rparr>\<rparr>;
          r = \<lparr>u_id = i, u_email = cu_email input, u_full_name = cu_fullName input, u_balance = user_balance input,
               u_password_hash = None, u_role = Buyer\<rparr>
      in if \<not> int4 (user_balance input) then (Inl (Pg NumericValueOutOfRange), d)
         else case user_checks r of
             Some e \<Rightarrow> (Inl (Pg e), d1)
           | None \<Rightarrow>
               if cu_email input \<in> u_email ` set (users d) then (Inr None, d1)
               else (case users_constraints d1 r of
                   Some e \<Rightarrow> (Inl (Pg e), d1)
                 | None \<Rightarrow> (Inr (Some r), users_update (\<lambda>rs. rs @ [r]) d1)))"
  by (simp add: createIfMissing_def Let_def cmd_bind_run cmd_simps param_int_IntN split: option.split)

text \<open>
  The second of two requests for the same email finds the user there: whatever the first one
  answered without an error, it leaves the table alone.
\<close>

lemma createIfMissing_twice:
  assumes "createIfMissing input d = (Inr x, d')" and "cu_email other = cu_email input"
    and "createIfMissing other d' = (Inr y, d'')"
  shows "y = None \<and> users d'' = users d'"
proof -
  have "cu_email input \<in> u_email ` set (users d')"
    using assms(1) by (auto simp: createIfMissing_run Let_def split: if_splits option.splits)
  with assms(2,3) show ?thesis
    by (auto simp: createIfMissing_run Let_def split: if_splits option.splits)
qed

end
