(* ===== verification/Fairness.thy ===== *)
theory Fairness
  imports Main
begin

text \<open>
  Concurrent calls that take turns: when every call has enough turns, again and again, the
  goal is reached. The interface asks for a quantity that no turn increases and, short of the
  goal, for a call whose own turns bring it closer to decreasing that quantity while the turns
  of others do not set it back.
\<close>

text \<open>A sweep: an interleaving of \<open>n\<close> calls in which each has at least \<open>need\<close> turns.\<close>

definition sweep :: "nat \<Rightarrow> nat \<Rightarrow> nat list \<Rightarrow> bool" where
  "sweep need n ks \<longleftrightarrow> set ks \<subseteq> {..<n} \<and> (\<forall>k < n. need \<le> count_list ks k)"

locale fair_turns =
  fixes turn :: "nat \<Rightarrow> 's \<Rightarrow> 's"
    and n :: nat
    and need :: nat
    and inv :: "'s \<Rightarrow> bool"
    and goal :: "'s \<Rightarrow> bool"
    and left :: "'s \<Rightarrow> nat"
    and helper :: "nat \<Rightarrow> 's \<Rightarrow> bool"
    and wait :: "nat \<Rightarrow> 's \<Rightarrow> nat"
  assumes inv_turn: "inv s \<Longrightarrow> j < n \<Longrightarrow> inv (turn j s)"
    and left_turn: "inv s \<Longrightarrow> j < n \<Longrightarrow> left (turn j s) \<le> left s"
    and goal_turn: "inv s \<Longrightarrow> j < n \<Longrightarrow> goal s \<Longrightarrow> goal (turn j s)"
    and helper_exists: "inv s \<Longrightarrow> \<not> goal s \<Longrightarrow> \<exists>k < n. helper k s \<and> wait k s < need"
    and helper_turn: "inv s \<Longrightarrow> j < n \<Longrightarrow> helper k s \<Longrightarrow> left (turn j s) < left s \<or>
      helper k (turn j s) \<and> wait k (turn j s) + (if j = k then 1 else 0) \<le> wait k s"
begin

lemma turns_inv:
  "inv s \<Longrightarrow> set ks \<subseteq> {..<n} \<Longrightarrow> inv (fold turn ks s) \<and> left (fold turn ks s) \<le> left s"
proof (induction ks arbitrary: s)
  case (Cons k ks)
  then have k: "k < n" by simp
  from Cons.IH [OF inv_turn [OF Cons.prems(1) k]] Cons.prems(2) left_turn [OF Cons.prems(1) k]
  show ?case by simp
qed simp

lemma turns_goal: "inv s \<Longrightarrow> set ks \<subseteq> {..<n} \<Longrightarrow> goal s \<Longrightarrow> goal (fold turn ks s)"
proof (induction ks arbitrary: s)
  case (Cons k ks)
  then have k: "k < n" by simp
  from Cons.IH [OF inv_turn [OF Cons.prems(1) k]] Cons.prems goal_turn [OF Cons.prems(1) k]
  show ?case by simp
qed simp

lemma helper_progress:
  "inv s \<Longrightarrow> set ks \<subseteq> {..<n} \<Longrightarrow> helper k s \<Longrightarrow> wait k s < count_list ks k \<Longrightarrow> left (fold turn ks s) < left s"
proof (induction ks arbitrary: s)
  case (Cons j ks)
  then have j: "j < n" and rest: "set ks \<subseteq> {..<n}" by simp_all
  note step = inv_turn [OF Cons.prems(1) j] left_turn [OF Cons.prems(1) j]
  from helper_turn [OF Cons.prems(1) j Cons.prems(3)] show ?case
  proof
    assume "left (turn j s) < left s"
    with turns_inv [OF step(1) rest] show ?thesis by simp
  next
    assume h: "helper k (turn j s) \<and> wait k (turn j s) + (if j = k then 1 else 0) \<le> wait k s"
    with Cons.prems(4) have "wait k (turn j s) < count_list ks k" by (auto split: if_splits)
    with Cons.IH [OF step(1) rest] h step(2) show ?thesis by simp
  qed
qed simp

lemma sweep_progress:
  assumes "inv s" and "\<not> goal s" and "sweep need n ks"
  shows "left (fold turn ks s) < left s"
proof -
  obtain k where k: "k < n" "helper k s" "wait k s < need" using helper_exists [OF assms(1,2)] by blast
  with assms(3) have "wait k s < count_list ks k" by (auto simp: sweep_def intro: less_le_trans)
  with helper_progress [OF assms(1) _ k(2)] assms(3) show ?thesis by (simp add: sweep_def)
qed

theorem sweeps_reach_goal:
  assumes "inv s" and "\<forall>ks \<in> set kss. sweep need n ks" and "left s < length kss"
  shows "goal (fold turn (concat kss) s)"
  using assms
proof (induction kss arbitrary: s)
  case (Cons ks kss)
  have sub: "set ks \<subseteq> {..<n}" and later: "set (concat kss) \<subseteq> {..<n}"
    using Cons.prems(2) by (auto simp: sweep_def)
  have inv: "inv (fold turn ks s)" using turns_inv [OF Cons.prems(1) sub] by simp
  show ?case
  proof (cases "goal s")
    case True
    then show ?thesis using turns_goal [OF inv later] turns_goal [OF Cons.prems(1) sub] by simp
  next
    case False
    with sweep_progress [OF Cons.prems(1)] Cons.prems(2,3) have "left (fold turn ks s) < length kss" by fastforce
    with Cons.IH [OF inv] Cons.prems(2) show ?thesis by simp
  qed
qed simp

lemma sweeps_inv:
  assumes "inv s" and "\<forall>ks \<in> set kss. sweep need n ks"
  shows "inv (fold turn (concat kss) s)"
proof -
  have "set (concat kss) \<subseteq> {..<n}" using assms(2) by (auto simp: sweep_def)
  with turns_inv [OF assms(1)] show ?thesis by simp
qed

end

end
