(* ===== verification/Workers.thy ===== *)
theory Workers
  imports DbInvariant Fairness
begin

text \<open>
  \<open>src/demo-workers.ts\<close>: workers that take pending tasks with
  \<open>FOR UPDATE SKIP LOCKED\<close>, one transaction per task. A worker moves from one \<open>await\<close> to
  the next; an event names the worker that moves, whose connection breaks, or whose commit is
  carried out although its answer is lost. An uncommitted update is invisible to the others
  and takes effect with the commit; a broken connection rolls it back and releases the lock.
\<close>

section \<open>Tasks\<close>

definition WORKER_COUNT :: nat where "WORKER_COUNT = 3"
definition PROCESSING_DELAY_MS :: int where "PROCESSING_DELAY_MS = 200"

definition resetTasks :: "db \<Rightarrow> int \<times> db" where
  "resetTasks d =
     (int (length (tasks d)),
      tasks_update (map (\<lambda>r. r\<lparr>t_status := TaskPending, t_processed := 0, t_worker_id := None\<rparr>)) d)"

definition pending :: "task_row \<Rightarrow> bool" where
  "pending r \<longleftrightarrow> t_status r = TaskPending"

definition hasPendingTasks :: "db \<Rightarrow> bool" where
  "hasPendingTasks d \<longleftrightarrow> (\<exists>r \<in> set (tasks d). pending r)"

definition mark_done :: "string \<Rightarrow> int \<Rightarrow> task_row list \<Rightarrow> task_row list" where
  "mark_done worker i = update_where (\<lambda>r. t_id r = i)
     (\<lambda>r. r\<lparr>t_status := TaskDone, t_processed := t_processed r + 1, t_worker_id := Some worker\<rparr>)"

section \<open>Workers\<close>

text \<open>
  \<open>Processing i\<close>: the transaction holds the lock of task \<open>i\<close>. \<open>Committing i\<close>: its update was
  made too. \<open>Waiting\<close> is the pause of 25 ms; \<open>Returned\<close> and \<open>Rejected\<close> end the promise.
\<close>

datatype worker_pc = Claiming | Processing int | Committing int | Checking | Waiting | Returned | Rejected

record worker =
  w_id :: string
  w_pc :: worker_pc
  w_processed :: int

record pool =
  po_db :: db
  po_workers :: "worker list"

fun held :: "worker_pc \<Rightarrow> int option" where
  "held (Processing i) = Some i"
| "held (Committing i) = Some i"
| "held _ = None"

definition locked :: "worker list \<Rightarrow> int \<Rightarrow> bool" where
  "locked ws i \<longleftrightarrow> (\<exists>w \<in> set ws. held (w_pc w) = Some i)"

text \<open>\<open>WHERE status = 'pending' ORDER BY id FOR UPDATE SKIP LOCKED LIMIT 1\<close>\<close>

definition claimable :: "pool \<Rightarrow> task_row list" where
  "claimable po = sort_key t_id (filter (\<lambda>r. pending r \<and> \<not> locked (po_workers po) (t_id r)) (tasks (po_db po)))"

definition workerTurn :: "pool \<Rightarrow> worker \<Rightarrow> worker \<times> db" where
  "workerTurn po w = (let d = po_db po in case w_pc w of
       Claiming \<Rightarrow> (case claimable po of
           [] \<Rightarrow> (w\<lparr>w_pc := Checking\<rparr>, d)
         | task # _ \<Rightarrow> (w\<lparr>w_pc := Processing (t_id task)\<rparr>, d))
     | Processing i \<Rightarrow>
         if \<exists>r \<in> set (tasks d). t_id r = i \<and> \<not> int4 (t_processed r + 1)
         then (w\<lparr>w_pc := Rejected\<rparr>, d) else (w\<lparr>w_pc := Committing i\<rparr>, d)
     | Committing i \<Rightarrow>
         (w\<lparr>w_pc := Claiming, w_processed := w_processed w + 1\<rparr>, tasks_update (mark_done (w_id w) i) d)
     | Checking \<Rightarrow> (w\<lparr>w_pc := if hasPendingTasks d then Waiting else Returned\<rparr>, d)
     | Waiting \<Rightarrow> (w\<lparr>w_pc := Claiming\<rparr>, d)
     | Returned \<Rightarrow> (w, d)
     | Rejected \<Rightarrow> (w, d))"

datatype pool_event = Turn nat | Break nat | LostAnswer nat

fun worker_event :: "pool_event \<Rightarrow> pool \<Rightarrow> worker \<Rightarrow> worker \<times> db" where
  "worker_event (Turn _) po w = workerTurn po w"
| "worker_event (Break _) po w =
     (if w_pc w = Returned then w else w\<lparr>w_pc := Rejected\<rparr>, po_db po)"
| "worker_event (LostAnswer _) po w = (case w_pc w of
       Committing i \<Rightarrow> (w\<lparr>w_pc := Rejected\<rparr>, tasks_update (mark_done (w_id w) i) (po_db po))
     | _ \<Rightarrow> (w, po_db po))"

fun event_worker :: "pool_event \<Rightarrow> nat" where
  "event_worker (Turn k) = k"
| "event_worker (Break k) = k"
| "event_worker (LostAnswer k) = k"

definition pool_step :: "pool_event \<Rightarrow> pool \<Rightarrow> pool" where
  "pool_step e po = (let k = event_worker e in
     if k < length (po_workers po)
     then (case worker_event e po (po_workers po ! k) of
             (w, d) \<Rightarrow> \<lparr>po_db = d, po_workers = (po_workers po)[k := w]\<rparr>)
     else po)"

text \<open>\<open>main\<close>: the tasks are reset and the workers started together.\<close>

definition startWorkers :: "nat \<Rightarrow> worker list" where
  "startWorkers n = map (\<lambda>index. \<lparr>w_id = ''worker-'' @ show_nat (index + 1), w_pc = Claiming, w_processed = 0\<rparr>) [0..<n]"

definition startPool :: "nat \<Rightarrow> db \<Rightarrow> err + pool" where
  "startPool n d = (let (taskCount, d') = resetTasks d in
     if taskCount = 0 then Inl (JsError ''No post-processing tasks found. Run demo:race first.'')
     else Inr \<lparr>po_db = d', po_workers = startWorkers n\<rparr>)"

definition workerDemo :: "db \<Rightarrow> err + pool" where
  "workerDemo = startPool WORKER_COUNT"

definition processedOnce :: "db \<Rightarrow> int" where
  "processedOnce d = int (length (filter (\<lambda>r. t_status r = TaskDone \<and> t_processed r = 1) (tasks d)))"

definition processedTwice :: "db \<Rightarrow> int" where
  "processedTwice d = int (length (filter (\<lambda>r. 1 < t_processed r) (tasks d)))"

definition activeWorkers :: "worker list \<Rightarrow> int" where
  "activeWorkers ws = int (length (filter (\<lambda>w. 0 < w_processed w) ws))"

definition invariantPassed :: "int \<Rightarrow> int \<Rightarrow> pool \<Rightarrow> bool" where
  "invariantPassed taskCount elapsedMs po \<longleftrightarrow>
     processedOnce (po_db po) = taskCount \<and> processedTwice (po_db po) = 0 \<and>
     2 \<le> activeWorkers (po_workers po) \<and> elapsedMs < taskCount * PROCESSING_DELAY_MS"

section \<open>The invariant\<close>

text \<open>What a task row can look like, and the tasks a worker finished.\<close>

definition row_ok :: "string set \<Rightarrow> task_row \<Rightarrow> bool" where
  "row_ok ids r \<longleftrightarrow> (case t_status r of
       TaskPending \<Rightarrow> t_processed r = 0 \<and> t_worker_id r = None
     | TaskDone \<Rightarrow> t_processed r = 1 \<and> (\<exists>v \<in> ids. t_worker_id r = Some v))"

definition finished_by :: "string \<Rightarrow> db \<Rightarrow> int" where
  "finished_by worker d = int (length (filter (\<lambda>r. t_worker_id r = Some worker) (tasks d)))"

definition credit_ok :: "db \<Rightarrow> worker \<Rightarrow> bool" where
  "credit_ok d w \<longleftrightarrow> w_processed w \<le> finished_by (w_id w) d \<and>
     (finished_by (w_id w) d = w_processed w \<or> w_pc w = Rejected \<and> finished_by (w_id w) d = w_processed w + 1)"

definition worker_ok :: "db \<Rightarrow> worker \<Rightarrow> bool" where
  "worker_ok d w \<longleftrightarrow> credit_ok d w \<and> (w_pc w = Returned \<longrightarrow> \<not> hasPendingTasks d) \<and>
     (\<forall>i. held (w_pc w) = Some i \<longrightarrow> (\<exists>r \<in> set (tasks d). t_id r = i \<and> pending r))"

definition exclusive :: "worker list \<Rightarrow> bool" where
  "exclusive ws \<longleftrightarrow> (\<forall>k < length ws. \<forall>l < length ws. \<forall>i.
     held (w_pc (ws ! k)) = Some i \<longrightarrow> held (w_pc (ws ! l)) = Some i \<longrightarrow> k = l)"

definition pool_inv :: "pool \<Rightarrow> bool" where
  "pool_inv po \<longleftrightarrow> distinct (map t_id (tasks (po_db po))) \<and> distinct (map w_id (po_workers po)) \<and>
     (\<forall>r \<in> set (tasks (po_db po)). row_ok (w_id ` set (po_workers po)) r) \<and>
     (\<forall>w \<in> set (po_workers po). worker_ok (po_db po) w) \<and> exclusive (po_workers po)"

text \<open>A worker in place of another with the same name.\<close>

lemma names_update [simp]: "k < length ws \<Longrightarrow> w_id w = w_id (ws ! k) \<Longrightarrow> map w_id (ws[k := w]) = map w_id ws"
  by (simp add: map_update list_update_same_conv)

lemma name_set_update: "k < length ws \<Longrightarrow> w_id w = w_id (ws ! k) \<Longrightarrow> w_id ` set (ws[k := w]) = w_id ` set ws"
  using names_update [of k ws w] by (metis set_map)

lemma exclusive_update:
  assumes "exclusive ws" and "k < length ws"
    and "\<And>i l. held (w_pc w) = Some i \<Longrightarrow> l < length ws \<Longrightarrow> held (w_pc (ws ! l)) = Some i \<Longrightarrow> l = k"
  shows "exclusive (ws[k := w])"
  unfolding exclusive_def
proof (intro allI impI)
  fix j l i
  assume a: "j < length (ws[k := w])" "l < length (ws[k := w])"
    "held (w_pc (ws[k := w] ! j)) = Some i" "held (w_pc (ws[k := w] ! l)) = Some i"
  consider "j = k" "l = k" | "j = k" "l \<noteq> k" | "j \<noteq> k" "l = k" | "j \<noteq> k" "l \<noteq> k" by blast
  then show "j = l"
  proof cases
    case 2
    with a assms(2) have "held (w_pc w) = Some i" "held (w_pc (ws ! l)) = Some i" by simp_all
    with 2 a assms(3) [of i l] show ?thesis unfolding length_list_update by metis
  next
    case 3
    with a assms(2) have "held (w_pc w) = Some i" "held (w_pc (ws ! j)) = Some i" by simp_all
    with 3 a assms(3) [of i j] show ?thesis unfolding length_list_update by metis
  next
    case 4
    with a have "held (w_pc (ws ! j)) = Some i" "held (w_pc (ws ! l)) = Some i" by simp_all
    with a assms(1) show ?thesis unfolding exclusive_def length_list_update by metis
  qed simp
qed

lemma exclusive_idle: "exclusive ws \<Longrightarrow> k < length ws \<Longrightarrow> held (w_pc w) = None \<Longrightarrow> exclusive (ws[k := w])"
  by (rule exclusive_update) simp_all

lemma exclusive_same:
  assumes "exclusive ws" and "k < length ws" and "held (w_pc w) = held (w_pc (ws ! k))"
  shows "exclusive (ws[k := w])"
  using assms by (intro exclusive_update) (metis exclusive_def)+

lemma exclusive_claim:
  assumes "exclusive ws" and "k < length ws" and "held (w_pc w) = Some i" and "\<not> locked ws i"
  shows "exclusive (ws[k := w])"
  using assms by (intro exclusive_update) (auto simp: locked_def)

text \<open>A step that leaves the tasks alone.\<close>

lemma pool_inv_idle:
  assumes "pool_inv po" and "k < length (po_workers po)" and "w_id w = w_id (po_workers po ! k)"
    and "worker_ok (po_db po) w" and "exclusive ((po_workers po)[k := w])"
  shows "pool_inv \<lparr>po_db = po_db po, po_workers = (po_workers po)[k := w]\<rparr>"
  using assms set_update_subset_insert [of "po_workers po" k w]
  by (auto simp: pool_inv_def name_set_update)

text \<open>The commit of a finished task.\<close>

lemma mark_done_ids [simp]: "map t_id (mark_done v i ts) = map t_id ts"
  by (simp add: mark_done_def map_update_where)

lemma mark_done_pending: "r \<in> set (mark_done v i ts) \<Longrightarrow> pending r \<Longrightarrow> r \<in> set ts \<and> t_id r \<noteq> i"
  by (auto simp: mark_done_def set_update_where pending_def)

lemma mark_done_keeps: "r \<in> set ts \<Longrightarrow> t_id r \<noteq> i \<Longrightarrow> r \<in> set (mark_done v i ts)"
  by (auto simp: mark_done_def set_update_where)

lemma mark_done_row_ok:
  assumes "distinct (map t_id ts)" and "\<forall>r \<in> set ts. row_ok ids r" and "v \<in> ids"
    and "q \<in> set ts" "t_id q = i" "pending q"
  shows "\<forall>r \<in> set (mark_done v i ts). row_ok ids r"
proof -
  have "r = q" if "r \<in> set ts" "t_id r = i" for r
    using inj_onD [of t_id "set ts" r q] assms(1,4,5) that by (simp add: distinct_map)
  note uniq = this
  show ?thesis
  proof
    fix r'
    assume "r' \<in> set (mark_done v i ts)"
    then consider "r' \<in> set ts" | r where "r \<in> set ts" "t_id r = i"
        "r' = r\<lparr>t_status := TaskDone, t_processed := t_processed r + 1, t_worker_id := Some v\<rparr>"
      by (auto simp: mark_done_def set_update_where)
    then show "row_ok ids r'"
    proof cases
      case 2
      with uniq assms(2) have "row_ok ids q" "r = q" by auto
      with 2 assms(3,6) show ?thesis by (simp add: row_ok_def pending_def)
    qed (use assms(2) in blast)
  qed
qed

lemma finished_mark_done:
  assumes "distinct (map t_id (tasks d))" and "q \<in> set (tasks d)" "t_id q = i" "t_worker_id q = None"
  shows "finished_by u (tasks_update (mark_done v i) d) = finished_by u d + (if u = v then 1 else 0)"
proof -
  have "length (filter (\<lambda>r. t_worker_id r = Some u) (mark_done v i ts)) =
      length (filter (\<lambda>r. t_worker_id r = Some u) ts) + (if u = v then 1 else 0)"
    if "distinct (map t_id ts)" "q \<in> set ts" for ts
    using that
  proof (induction ts)
    case (Cons r ts)
    show ?case
    proof (cases "r = q")
      case True
      with Cons.prems assms(3) have "mark_done v i ts = ts"
        unfolding mark_done_def by (intro update_where_id) (auto simp: image_iff)
      with True assms(3,4) show ?thesis by (simp add: mark_done_def)
    next
      case False
      with Cons.prems assms(3) have "t_id r \<noteq> i" "q \<in> set ts" by (auto simp: image_iff)
      with Cons show ?thesis by (cases "u = v") (simp_all add: mark_done_def)
    qed
  qed simp
  from this [OF assms(1,2)] show ?thesis by (simp add: finished_by_def)
qed


lemma pending_unique:
  assumes "distinct (map t_id ts)" and "r \<in> set ts" "q \<in> set ts" "t_id r = t_id q"
  shows "r = q"
  using inj_onD [of t_id "set ts" r q] assms by (simp add: distinct_map)

text \<open>Another worker does not notice a commit.\<close>

lemma worker_ok_other:
  assumes "worker_ok d w" and "distinct (map t_id (tasks d))"
    and "q \<in> set (tasks d)" "t_id q = i" "t_worker_id q = None"
    and "w_id w \<noteq> v" and "held (w_pc w) \<noteq> Some i"
  shows "worker_ok (tasks_update (mark_done v i) d) w"
proof -
  have "\<not> hasPendingTasks (tasks_update (mark_done v i) d)" if "\<not> hasPendingTasks d"
    using that by (auto simp: hasPendingTasks_def dest: mark_done_pending)
  moreover have "\<exists>r \<in> set (mark_done v i (tasks d)). t_id r = j \<and> pending r"
    if "r \<in> set (tasks d)" "t_id r = j" "pending r" "j \<noteq> i" for r j
    using that by (blast intro: mark_done_keeps)
  ultimately show ?thesis
    using assms finished_mark_done [OF assms(2-5), of "w_id w" v]
    by (fastforce simp: worker_ok_def credit_ok_def)
qed

lemma pool_inv_commit:
  assumes inv: "pool_inv po" and k: "k < length (po_workers po)" and pc: "w_pc (po_workers po ! k) = Committing i"
    and w: "w_id w = w_id (po_workers po ! k)"
    and new: "w_pc w = Claiming \<and> w_processed w = w_processed (po_workers po ! k) + 1 \<or>
      w_pc w = Rejected \<and> w_processed w = w_processed (po_workers po ! k)"
  shows "pool_inv \<lparr>po_db = tasks_update (mark_done (w_id w) i) (po_db po), po_workers = (po_workers po)[k := w]\<rparr>"
proof -
  let ?d = "po_db po" and ?ws = "po_workers po" and ?d' = "tasks_update (mark_done (w_id w) i) (po_db po)"
  have old: "worker_ok ?d (?ws ! k)" using inv k by (simp add: pool_inv_def)
  then obtain q where q: "q \<in> set (tasks ?d)" "t_id q = i" "pending q"
    using pc by (auto simp: worker_ok_def)
  have dist: "distinct (map t_id (tasks ?d))" and rows: "\<forall>r \<in> set (tasks ?d). row_ok (w_id ` set ?ws) r"
    using inv by (simp_all add: pool_inv_def)
  have none: "t_worker_id q = None" using q rows by (auto simp: row_ok_def pending_def)
  have "worker_ok ?d' w"
    using old pc new w finished_mark_done [OF dist q(1,2) none, of "w_id w" "w_id w"]
    by (auto simp: worker_ok_def credit_ok_def)
  moreover have "worker_ok ?d' u" if u: "u = ?ws ! l" "l < length ?ws" "l \<noteq> k" for u l
  proof (rule worker_ok_other [OF _ dist q(1,2) none])
    show "worker_ok ?d u" using inv u by (simp add: pool_inv_def)
    have "distinct (map w_id ?ws)" using inv by (simp add: pool_inv_def)
    then show "w_id u \<noteq> w_id w" using u w k by (simp add: distinct_conv_nth)
    show "held (w_pc u) \<noteq> Some i" using inv u pc k unfolding pool_inv_def exclusive_def by (metis held.simps(2))
  qed
  ultimately have "\<forall>u \<in> set (?ws[k := w]). worker_ok ?d' u"
    using k by (auto simp: in_set_conv_nth nth_list_update)
  moreover have "\<forall>r \<in> set (mark_done (w_id w) i (tasks ?d)). row_ok (w_id ` set ?ws) r"
    using w k by (intro mark_done_row_ok [OF dist rows _ q]) auto
  moreover have "exclusive (?ws[k := w])"
    using inv k new by (intro exclusive_idle) (auto simp: pool_inv_def)
  ultimately show ?thesis
    using inv k w by (simp add: pool_inv_def name_set_update)
qed


section \<open>Every step keeps it\<close>

lemma claimable_spec:
  assumes "claimable po = task # rest"
  shows "task \<in> set (tasks (po_db po))" and "pending task" and "\<not> locked (po_workers po) (t_id task)"
proof -
  have "task \<in> set (claimable po)" using assms by simp
  then show "task \<in> set (tasks (po_db po))" "pending task" "\<not> locked (po_workers po) (t_id task)"
    by (simp_all add: claimable_def)
qed

text \<open>A worker that goes on without a lock.\<close>

lemma pool_inv_goto:
  assumes "pool_inv po" and k: "k < length (po_workers po)" and "held c = None"
    and "c = Returned \<Longrightarrow> \<not> hasPendingTasks (po_db po)"
    and "w_pc (po_workers po ! k) = Rejected \<Longrightarrow> c = Rejected"
  shows "pool_inv \<lparr>po_db = po_db po, po_workers = (po_workers po)[k := (po_workers po ! k)\<lparr>w_pc := c\<rparr>]\<rparr>"
proof (rule pool_inv_idle [OF assms(1) k])
  have "worker_ok (po_db po) (po_workers po ! k)" using assms(1) k by (simp add: pool_inv_def)
  with assms(3-5) show "worker_ok (po_db po) ((po_workers po ! k)\<lparr>w_pc := c\<rparr>)"
    by (auto simp: worker_ok_def credit_ok_def)
  show "exclusive ((po_workers po)[k := (po_workers po ! k)\<lparr>w_pc := c\<rparr>])"
    using assms(1) k by (intro exclusive_idle) (simp_all add: pool_inv_def assms(3))
qed simp

lemma pool_inv_claim:
  assumes "pool_inv po" and k: "k < length (po_workers po)" and pc: "w_pc (po_workers po ! k) = Claiming"
    and task: "claimable po = task # rest"
  shows "pool_inv \<lparr>po_db = po_db po,
    po_workers = (po_workers po)[k := (po_workers po ! k)\<lparr>w_pc := Processing (t_id task)\<rparr>]\<rparr>"
proof (rule pool_inv_idle [OF assms(1) k])
  note spec = claimable_spec [OF task]
  have "worker_ok (po_db po) (po_workers po ! k)" using assms(1) k by (simp add: pool_inv_def)
  with pc spec show "worker_ok (po_db po) ((po_workers po ! k)\<lparr>w_pc := Processing (t_id task)\<rparr>)"
    by (auto simp: worker_ok_def credit_ok_def)
  show "exclusive ((po_workers po)[k := (po_workers po ! k)\<lparr>w_pc := Processing (t_id task)\<rparr>])"
    using assms(1) k spec(3) by (intro exclusive_claim) (simp_all add: pool_inv_def)
qed simp

lemma pool_inv_update:
  assumes "pool_inv po" and k: "k < length (po_workers po)" and pc: "w_pc (po_workers po ! k) = Processing i"
  shows "pool_inv \<lparr>po_db = po_db po, po_workers = (po_workers po)[k := (po_workers po ! k)\<lparr>w_pc := Committing i\<rparr>]\<rparr>"
proof (rule pool_inv_idle [OF assms(1) k])
  have "worker_ok (po_db po) (po_workers po ! k)" using assms(1) k by (simp add: pool_inv_def)
  with pc show "worker_ok (po_db po) ((po_workers po ! k)\<lparr>w_pc := Committing i\<rparr>)"
    by (auto simp: worker_ok_def credit_ok_def)
  show "exclusive ((po_workers po)[k := (po_workers po ! k)\<lparr>w_pc := Committing i\<rparr>])"
    using assms(1) k pc by (intro exclusive_same) (simp_all add: pool_inv_def)
qed simp

lemma pool_eta [simp]: "\<lparr>po_db = po_db po, po_workers = po_workers po\<rparr> = po"
  by (cases po) simp

lemma pool_turn_inv:
  assumes "pool_inv po" and "k < length (po_workers po)"
  shows "case workerTurn po (po_workers po ! k) of (w, d) \<Rightarrow>
    pool_inv \<lparr>po_db = d, po_workers = (po_workers po)[k := w]\<rparr>"
proof (cases "w_pc (po_workers po ! k)")
  case Claiming
  with pool_inv_claim [OF assms Claiming] pool_inv_goto [OF assms, of Checking] show ?thesis
    by (cases "claimable po") (simp_all add: workerTurn_def Let_def)
next
  case (Processing i)
  with pool_inv_update [OF assms Processing] pool_inv_goto [OF assms, of Rejected] show ?thesis
    by (simp add: workerTurn_def Let_def)
next
  case (Committing i)
  show ?thesis
    using pool_inv_commit [OF assms Committing, of "(po_workers po ! k)\<lparr>w_pc := Claiming,
        w_processed := w_processed (po_workers po ! k) + 1\<rparr>"] Committing
    by (simp add: workerTurn_def Let_def)
next
  case Checking
  with pool_inv_goto [OF assms, of Waiting] pool_inv_goto [OF assms, of Returned] show ?thesis
    by (simp add: workerTurn_def Let_def)
next
  case Waiting
  with pool_inv_goto [OF assms, of Claiming] show ?thesis by (simp add: workerTurn_def Let_def)
qed (use assms in \<open>simp_all add: workerTurn_def Let_def\<close>)

lemma pool_step_inv:
  assumes "pool_inv po" shows "pool_inv (pool_step e po)"
proof (cases "event_worker e < length (po_workers po)")
  case True
  note k = this
  show ?thesis
  proof (cases e)
    case (Turn k)
    with pool_turn_inv [OF assms, of k] True show ?thesis by (simp add: pool_step_def split: prod.splits)
  next
    case (Break k)
    with pool_inv_goto [OF assms, of k Rejected] True assms show ?thesis by (simp add: pool_step_def)
  next
    case (LostAnswer k)
    with True assms show ?thesis
      using pool_inv_commit [OF assms, of k _ "(po_workers po ! k)\<lparr>w_pc := Rejected\<rparr>"]
      by (cases "w_pc (po_workers po ! k)") (simp_all add: pool_step_def)
  qed
qed (simp add: pool_step_def assms)

interpretation pool: invariant_steps pool_step pool_inv
  by unfold_locales (rule pool_step_inv)


section \<open>Each task is processed once\<close>

lemma startWorkers_names: "map w_id (startWorkers n) = map (\<lambda>i. ''worker-'' @ show_nat (i + 1)) [0..<n]"
  by (simp add: startWorkers_def)

lemma startWorkers_all: "w \<in> set (startWorkers n) \<Longrightarrow> w_pc w = Claiming \<and> w_processed w = 0"
  by (auto simp: startWorkers_def)

lemma startPool_Inr:
  "startPool n d = Inr po \<longleftrightarrow> tasks d \<noteq> [] \<and> po = \<lparr>po_db = snd (resetTasks d), po_workers = startWorkers n\<rparr>"
  by (auto simp: startPool_def resetTasks_def)

lemma resetTasks_ids: "map t_id (tasks (snd (resetTasks d))) = map t_id (tasks d)"
  by (simp add: resetTasks_def comp_def)

lemma startPool_inv:
  assumes "wf_db d" and "startPool n d = Inr po"
  shows "pool_inv po"
proof -
  have po: "po = \<lparr>po_db = snd (resetTasks d), po_workers = startWorkers n\<rparr>"
    using assms(2) by (simp add: startPool_Inr)
  have "distinct (map t_id (tasks d))" using assms(1) by (simp add: wf_db_def tasks_ok_def)
  then have "distinct (map t_id (tasks (po_db po)))" by (simp add: po resetTasks_def comp_def)
  moreover have "distinct (map w_id (po_workers po))"
    by (simp add: po startWorkers_names distinct_map inj_on_def)
  moreover have "\<forall>w \<in> set (po_workers po). worker_ok (po_db po) w"
    by (auto simp: po worker_ok_def credit_ok_def finished_by_def resetTasks_def filter_empty_conv dest: startWorkers_all)
  moreover have "held (w_pc (startWorkers n ! k)) = None" if "k < length (startWorkers n)" for k
    using startWorkers_all [OF nth_mem [OF that]] by simp
  then have "exclusive (po_workers po)" by (simp add: po exclusive_def)
  moreover have "\<forall>r \<in> set (tasks (po_db po)). row_ok ids r" for ids
    by (auto simp: po resetTasks_def row_ok_def)
  ultimately show ?thesis by (simp add: pool_inv_def)
qed

lemma pool_step_ids: "map t_id (tasks (po_db (pool_step e po))) = map t_id (tasks (po_db po))"
  by (cases e; cases "w_pc (po_workers po ! event_worker e)")
    (auto simp: pool_step_def workerTurn_def Let_def split: list.split)

lemma pool_run_ids: "map t_id (tasks (po_db (fold pool_step es po))) = map t_id (tasks (po_db po))"
  by (induction es arbitrary: po) (simp_all add: pool_step_ids)

lemma pool_inv_counts:
  assumes "pool_inv po"
  shows "processedTwice (po_db po) = 0"
    and "\<not> hasPendingTasks (po_db po) \<Longrightarrow> processedOnce (po_db po) = int (length (tasks (po_db po)))"
proof -
  have rows: "\<forall>r \<in> set (tasks (po_db po)). row_ok (w_id ` set (po_workers po)) r"
    using assms by (simp add: pool_inv_def)
  have "\<not> 1 < t_processed r" if "r \<in> set (tasks (po_db po))" for r
    using rows that by (cases "t_status r") (auto simp: row_ok_def)
  then show "processedTwice (po_db po) = 0" by (simp add: processedTwice_def filter_empty_conv)
  assume "\<not> hasPendingTasks (po_db po)"
  then have "t_status r = TaskDone \<and> t_processed r = 1" if "r \<in> set (tasks (po_db po))" for r
    using rows that by (cases "t_status r") (auto simp: hasPendingTasks_def pending_def row_ok_def)
  then show "processedOnce (po_db po) = int (length (tasks (po_db po)))"
    by (simp add: processedOnce_def cong: filter_cong)
qed

text \<open>When nothing is pending, the tasks of the workers add up to all tasks.\<close>

lemma tasks_by_worker:
  assumes "distinct vs" and "\<forall>r \<in> set ts. \<exists>v \<in> set vs. t_worker_id r = Some v"
  shows "(\<Sum>v \<leftarrow> vs. int (length (filter (\<lambda>r. t_worker_id r = Some v) ts))) = int (length ts)"
  using assms(2)
proof (induction ts)
  case (Cons r ts)
  then obtain u where u: "u \<in> set vs" "t_worker_id r = Some u" by auto
  have "(\<Sum>v \<leftarrow> vs. int (length (filter (\<lambda>r. t_worker_id r = Some v) (r # ts)))) =
      (\<Sum>v \<leftarrow> vs. (if v = u then 1 else 0) + int (length (filter (\<lambda>r. t_worker_id r = Some v) ts)))"
    using u by (intro arg_cong [of _ _ sum_list] map_cong) auto
  also have "\<dots> = (\<Sum>v \<leftarrow> vs. if v = u then 1 else 0) + int (length ts)"
    using Cons by (simp add: sum_list_addf)
  also have "(\<Sum>v \<leftarrow> vs. if v = u then 1 else 0 :: int) = 1"
    using u(1) assms(1) by (simp add: sum_list_distinct_conv_sum_set)
  finally show ?case by simp
qed simp

lemma pool_inv_total:
  assumes inv: "pool_inv po" and idle: "\<not> hasPendingTasks (po_db po)"
    and "\<forall>w \<in> set (po_workers po). w_pc w \<noteq> Rejected"
  shows "(\<Sum>w \<leftarrow> po_workers po. w_processed w) = int (length (tasks (po_db po)))"
proof -
  have "w_processed w = finished_by (w_id w) (po_db po)" if "w \<in> set (po_workers po)" for w
    using inv assms(3) that by (auto simp: pool_inv_def worker_ok_def credit_ok_def)
  then have "(\<Sum>w \<leftarrow> po_workers po. w_processed w) = (\<Sum>v \<leftarrow> map w_id (po_workers po). finished_by v (po_db po))"
    by (simp add: comp_def cong: map_cong)
  moreover have "\<exists>v \<in> set (map w_id (po_workers po)). t_worker_id r = Some v" if "r \<in> set (tasks (po_db po))" for r
    using inv idle that by (cases "t_status r") (auto simp: pool_inv_def hasPendingTasks_def pending_def row_ok_def)
  then have "(\<Sum>v \<leftarrow> map w_id (po_workers po). finished_by v (po_db po)) = int (length (tasks (po_db po)))"
    unfolding finished_by_def using inv by (intro tasks_by_worker) (simp_all add: pool_inv_def)
  ultimately show ?thesis by simp
qed


text \<open>C14: Let any number of workers be started on the tasks of a database that keeps its
  integrity, and let them take turns in any order, with broken connections and lost answers of
  commits at any point. Then no task is ever processed twice: each is pending and untouched, or
  done, processed once and signed by one of the workers. Two workers never hold the same task.
  A worker that did not fail reports exactly the tasks that carry its name. As soon as one
  worker has returned, every task is done.\<close>

theorem pool_processes_once:
  assumes "wf_db d" and "startPool n d = Inr po"
  shows "(let po' = fold pool_step es po in
    map t_id (tasks (po_db po')) = map t_id (tasks d) \<and> processedTwice (po_db po') = 0 \<and>
    (\<forall>r \<in> set (tasks (po_db po')). row_ok (w_id ` set (po_workers po')) r) \<and>
    exclusive (po_workers po') \<and>
    (\<forall>w \<in> set (po_workers po'). w_pc w \<noteq> Rejected \<longrightarrow> w_processed w = finished_by (w_id w) (po_db po')) \<and>
    ((\<exists>w \<in> set (po_workers po'). w_pc w = Returned) \<longrightarrow> processedOnce (po_db po') = int (length (tasks d))))"
proof -
  let ?po = "fold pool_step es po"
  have inv: "pool_inv ?po" by (rule pool.run_inv) (rule startPool_inv [OF assms])
  have "map t_id (tasks (po_db po)) = map t_id (tasks d)"
    using assms(2) by (auto simp: startPool_Inr resetTasks_def)
  then have ids: "map t_id (tasks (po_db ?po)) = map t_id (tasks d)" by (simp add: pool_run_ids)
  then have len: "length (tasks (po_db ?po)) = length (tasks d)" by (metis length_map)
  have workers: "\<forall>w \<in> set (po_workers ?po). worker_ok (po_db ?po) w" using inv by (simp add: pool_inv_def)
  have "processedOnce (po_db ?po) = int (length (tasks d))" if "w \<in> set (po_workers ?po)" "w_pc w = Returned" for w
    using workers that pool_inv_counts(2) [OF inv] len by (auto simp: worker_ok_def)
  moreover have "w_processed w = finished_by (w_id w) (po_db ?po)"
    if "w \<in> set (po_workers ?po)" "w_pc w \<noteq> Rejected" for w
    using workers that by (auto simp: worker_ok_def credit_ok_def)
  ultimately show ?thesis
    using ids inv pool_inv_counts(1) [OF inv] unfolding Let_def pool_inv_def by blast
qed

section \<open>The workers return\<close>

text \<open>
  Without failures every turn of a worker that holds a task or can claim one makes progress,
  which \<open>workLeft\<close> counts.
\<close>

fun advance :: "worker_pc \<Rightarrow> int" where
  "advance (Processing _) = 1"
| "advance (Committing _) = 2"
| "advance _ = 0"

definition workLeft :: "pool \<Rightarrow> int" where
  "workLeft po = 3 * int (length (filter pending (tasks (po_db po)))) - (\<Sum>w \<leftarrow> po_workers po. advance (w_pc w))"

definition busy :: "pool \<Rightarrow> nat \<Rightarrow> bool" where
  "busy po k \<longleftrightarrow> held (w_pc (po_workers po ! k)) \<noteq> None \<or>
     w_pc (po_workers po ! k) = Claiming \<and> claimable po \<noteq> []"

definition unbroken :: "pool \<Rightarrow> bool" where
  "unbroken po \<longleftrightarrow> pool_inv po \<and> (\<forall>w \<in> set (po_workers po). w_pc w \<noteq> Rejected)"

lemma sum_map_update:
  fixes f :: "'a \<Rightarrow> int"
  shows "k < length ws \<Longrightarrow> (\<Sum>w \<leftarrow> ws[k := u]. f w) = (\<Sum>w \<leftarrow> ws. f w) - f (ws ! k) + f u"
  by (induction ws arbitrary: k) (auto split: nat.splits simp: nth_Cons)

lemma pending_mark_done:
  assumes "distinct (map t_id ts)" and "q \<in> set ts" "t_id q = i" "pending q"
  shows "length (filter pending ts) = Suc (length (filter pending (mark_done v i ts)))"
  using assms(1,2)
proof (induction ts)
  case (Cons r ts)
  show ?case
  proof (cases "r = q")
    case True
    with Cons.prems assms(3) have "mark_done v i ts = ts"
      unfolding mark_done_def by (intro update_where_id) (auto simp: image_iff)
    with True assms(3,4) show ?thesis by (simp add: mark_done_def pending_def)
  next
    case False
    with Cons.prems assms(3) have "t_id r \<noteq> i" "q \<in> set ts" by (auto simp: image_iff)
    with Cons show ?thesis by (simp add: mark_done_def)
  qed
qed simp

text \<open>What a turn does, from a state in which no worker failed.\<close>

lemma turn_cases:
  assumes "unbroken po" and k: "k < length (po_workers po)"
  obtains (hold) i where "held (w_pc (po_workers po ! k)) = Some i"
      "unbroken (pool_step (Turn k) po)" "workLeft (pool_step (Turn k) po) = workLeft po - 1"
  | (claim) "w_pc (po_workers po ! k) = Claiming" "claimable po \<noteq> []"
      "unbroken (pool_step (Turn k) po)" "workLeft (pool_step (Turn k) po) = workLeft po - 1"
  | (idle) c where "held (w_pc (po_workers po ! k)) = None" "held c = None"
      "pool_step (Turn k) po = \<lparr>po_db = po_db po, po_workers = (po_workers po)[k := (po_workers po ! k)\<lparr>w_pc := c\<rparr>]\<rparr>"
      "c = (case w_pc (po_workers po ! k) of Claiming \<Rightarrow> Checking | Waiting \<Rightarrow> Claiming
          | Checking \<Rightarrow> if hasPendingTasks (po_db po) then Waiting else Returned | p \<Rightarrow> p)"
      "w_pc (po_workers po ! k) = Claiming \<longrightarrow> claimable po = []"
      "unbroken (pool_step (Turn k) po)" "workLeft (pool_step (Turn k) po) = workLeft po"
proof -
  let ?w = "po_workers po ! k" and ?po = "pool_step (Turn k) po"
  have inv: "pool_inv po" using assms(1) by (simp add: unbroken_def)
  have inv': "pool_inv ?po" by (rule pool_step_inv [OF inv])
  have old: "worker_ok (po_db po) ?w" using inv k by (simp add: pool_inv_def)
  have rej: "unbroken ?po" if "w_pc (fst (workerTurn po ?w)) \<noteq> Rejected"
    using that inv' assms k set_update_subset_insert [of "po_workers po" k]
    by (fastforce simp: unbroken_def pool_step_def split: prod.splits)
  show thesis
  proof (cases "held (w_pc ?w)")
    case (Some i)
    then obtain q where q: "q \<in> set (tasks (po_db po))" "t_id q = i" "pending q"
      using old by (auto simp: worker_ok_def)
    have dist: "distinct (map t_id (tasks (po_db po)))" using inv by (simp add: pool_inv_def)
    have zero: "t_processed r = 0" if "r \<in> set (tasks (po_db po))" "t_id r = i" for r
      using pending_unique [OF dist that(1) q(1)] that q inv by (auto simp: pool_inv_def row_ok_def pending_def)
    show thesis
    proof (cases "w_pc ?w")
      case (Processing j)
      with Some have j: "j = i" by simp
      have *: "workerTurn po ?w = (?w\<lparr>w_pc := Committing i\<rparr>, po_db po)"
        using Processing zero j by (auto simp: workerTurn_def Let_def int4_def)
      show thesis
        using hold [OF Some] rej k Processing
        by (simp add: * pool_step_def workLeft_def sum_map_update)
    next
      case (Committing j)
      with Some have j: "j = i" by simp
      show thesis
        using hold [OF Some] rej k Committing pending_mark_done [OF dist q, of "w_id ?w"] j
        by (simp add: workerTurn_def pool_step_def workLeft_def sum_map_update Let_def)
    qed (use Some in simp_all)
  next
    case None
    show thesis
    proof (cases "w_pc ?w = Claiming \<and> claimable po \<noteq> []")
      case True
      then obtain task rest where task: "claimable po = task # rest" by (cases "claimable po") auto
      show thesis
        using claim rej k True
        by (simp add: workerTurn_def pool_step_def workLeft_def sum_map_update Let_def task)
    next
      case False
      define c where "c = (case w_pc ?w of Claiming \<Rightarrow> Checking | Waiting \<Rightarrow> Claiming
          | Checking \<Rightarrow> if hasPendingTasks (po_db po) then Waiting else Returned | p \<Rightarrow> p)"
      have *: "workerTurn po ?w = (?w\<lparr>w_pc := c\<rparr>, po_db po)"
        using False None by (cases "w_pc ?w") (auto simp: workerTurn_def Let_def c_def)
      have "c \<noteq> Rejected" "held c = None" "advance c = 0" "advance (w_pc ?w) = 0"
        using None assms k by (cases "w_pc ?w"; simp add: c_def unbroken_def; fail)+
      then show thesis
        using idle [OF None _ _ c_def] rej k False
        by (simp add: * pool_step_def workLeft_def sum_map_update)
    qed
  qed
qed


lemma turn_decreases:
  assumes "unbroken po" and "k < length (po_workers po)"
  shows "unbroken (pool_step (Turn k) po)" and "workLeft (pool_step (Turn k) po) \<le> workLeft po"
    and "busy po k \<Longrightarrow> workLeft (pool_step (Turn k) po) = workLeft po - 1"
  using turn_cases [OF assms] by (metis busy_def order_refl zle_diff1_eq less_le)+

lemma pool_step_length [simp]: "length (po_workers (pool_step e po)) = length (po_workers po)"
  by (simp add: pool_step_def Let_def split: prod.split)

lemma other_worker: "k \<noteq> j \<Longrightarrow> po_workers (pool_step (Turn j) po) ! k = po_workers po ! k"
  by (simp add: pool_step_def Let_def split: prod.split)

text \<open>When no task is held, any worker with three turns claims one, unless another does.\<close>

fun patience :: "worker_pc \<Rightarrow> nat" where
  "patience Checking = 2"
| "patience Waiting = 1"
| "patience _ = 0"

definition quiet :: "pool \<Rightarrow> bool" where
  "quiet po \<longleftrightarrow> unbroken po \<and> hasPendingTasks (po_db po) \<and> (\<forall>w \<in> set (po_workers po). held (w_pc w) = None)"

lemma quiet_claimable: "quiet po \<Longrightarrow> claimable po \<noteq> []"
  by (auto simp: quiet_def claimable_def hasPendingTasks_def locked_def filter_empty_conv
      dest!: arg_cong [where f = set])

lemma quiet_turn:
  assumes "quiet po" and k: "k < length (po_workers po)" and "\<not> busy po k"
  shows "quiet (pool_step (Turn k) po)"
    and "Suc (patience (w_pc (po_workers (pool_step (Turn k) po) ! k))) = patience (w_pc (po_workers po ! k))"
proof -
  have unb: "unbroken po" and pend: "hasPendingTasks (po_db po)" using assms(1) by (simp_all add: quiet_def)
  have pc: "w_pc (po_workers po ! k) = Checking \<or> w_pc (po_workers po ! k) = Waiting"
    using assms quiet_claimable [OF assms(1)]
    by (cases "w_pc (po_workers po ! k)") (auto simp: quiet_def unbroken_def busy_def pool_inv_def worker_ok_def)
  from unb k show "quiet (pool_step (Turn k) po)"
      "Suc (patience (w_pc (po_workers (pool_step (Turn k) po) ! k))) = patience (w_pc (po_workers po ! k))"
  proof (atomize (full), cases rule: turn_cases)
    case (idle c)
    have "held (w_pc w) = None" if "w \<in> set ((po_workers po)[k := (po_workers po ! k)\<lparr>w_pc := c\<rparr>])" for w
      using that idle(2) assms(1) set_update_subset_insert [of "po_workers po" k] by (fastforce simp: quiet_def)
    then show "quiet (pool_step (Turn k) po) \<and>
        Suc (patience (w_pc (po_workers (pool_step (Turn k) po) ! k))) = patience (w_pc (po_workers po ! k))"
      using idle(4,6) pc k pend by (auto simp: idle(3) quiet_def)
  qed (use assms(3) in \<open>simp_all add: busy_def\<close>)
qed

text \<open>What is left is at least what is pending.\<close>

lemma exclusive_Cons:
  assumes "exclusive (w # ws)"
  shows "exclusive ws" and "held (w_pc w) = Some i \<Longrightarrow> \<not> locked ws i"
proof -
  have ex: "k = l" if "k < Suc (length ws)" "l < Suc (length ws)" "held (w_pc ((w # ws) ! k)) = Some i"
    "held (w_pc ((w # ws) ! l)) = Some i" for k l i
    using assms that unfolding exclusive_def by (metis length_Cons)
  show "exclusive ws" unfolding exclusive_def using ex [of "Suc _" "Suc _"] by auto
  show "held (w_pc w) = Some i \<Longrightarrow> \<not> locked ws i"
    using ex [of 0 "Suc _"] by (fastforce simp: locked_def in_set_conv_nth)
qed

lemma advance_bound: "exclusive ws \<Longrightarrow> finite {i. locked ws i} \<and> (\<Sum>w \<leftarrow> ws. advance (w_pc w)) \<le> 2 * int (card {i. locked ws i})"
proof (induction ws)
  case Nil
  then show ?case by (simp add: locked_def)
next
  case (Cons w ws)
  note ih = Cons.IH [OF exclusive_Cons(1) [OF Cons.prems]]
  show ?case
  proof (cases "held (w_pc w)")
    case None
    then have "{i. locked (w # ws) i} = {i. locked ws i}" by (simp add: locked_def)
    moreover have "advance (w_pc w) = 0" using None by (cases "w_pc w") simp_all
    ultimately show ?thesis using ih by simp
  next
    case (Some i)
    then have "{j. locked (w # ws) j} = insert i {j. locked ws j}" by (auto simp: locked_def)
    moreover have "i \<notin> {j. locked ws j}" using exclusive_Cons(2) [OF Cons.prems Some] by simp
    moreover have "advance (w_pc w) \<le> 2" by (cases "w_pc w") simp_all
    ultimately show ?thesis using ih by simp
  qed
qed

lemma workLeft_pending:
  assumes "unbroken po" shows "int (length (filter pending (tasks (po_db po)))) \<le> workLeft po"
proof -
  let ?ts = "filter pending (tasks (po_db po))"
  have "exclusive (po_workers po)" using assms by (simp add: unbroken_def pool_inv_def)
  note bound = advance_bound [OF this]
  have "{i. locked (po_workers po) i} \<subseteq> t_id ` set ?ts"
    using assms by (fastforce simp: unbroken_def pool_inv_def worker_ok_def locked_def)
  then have "card {i. locked (po_workers po) i} \<le> length ?ts"
    by (meson List.finite_set card_image_le card_length card_mono finite_imageI le_trans)
  with bound show ?thesis by (simp add: workLeft_def)
qed

text \<open>Without pending tasks every worker returns.\<close>

fun ending :: "worker_pc \<Rightarrow> nat" where
  "ending Waiting = 3"
| "ending Claiming = 2"
| "ending Checking = 1"
| "ending _ = 0"

lemma ending_turn:
  assumes unb: "unbroken po" and k: "k < length (po_workers po)" and none: "\<not> hasPendingTasks (po_db po)"
  shows "po_db (pool_step (Turn k) po) = po_db po \<and>
    ending (w_pc (po_workers (pool_step (Turn k) po) ! k)) = ending (w_pc (po_workers po ! k)) - 1"
  using unb k
proof (cases rule: turn_cases)
  case hold
  moreover have "worker_ok (po_db po) (po_workers po ! k)" using unb k by (simp add: unbroken_def pool_inv_def)
  ultimately show ?thesis using none by (auto simp: worker_ok_def hasPendingTasks_def)
next
  case claim
  moreover have "claimable po = []" using none by (auto simp: claimable_def hasPendingTasks_def filter_empty_conv)
  ultimately show ?thesis by simp
next
  case (idle c)
  then show ?thesis using none k by (cases "w_pc (po_workers po ! k)") (simp_all add: idle(3))
qed

section \<open>The interface of fair turns\<close>

definition unreturned :: "pool \<Rightarrow> int" where
  "unreturned po = (\<Sum>w \<leftarrow> po_workers po. if w_pc w = Returned then 0 else 1)"

definition pool_left :: "pool \<Rightarrow> nat" where
  "pool_left po = nat (workLeft po + unreturned po)"

definition pool_goal :: "pool \<Rightarrow> bool" where
  "pool_goal po \<longleftrightarrow> (\<forall>w \<in> set (po_workers po). w_pc w = Returned)"

definition pool_helper :: "nat \<Rightarrow> pool \<Rightarrow> bool" where
  "pool_helper k po \<longleftrightarrow> k < length (po_workers po) \<and>
     (held (w_pc (po_workers po ! k)) \<noteq> None \<or> quiet po \<or>
      \<not> hasPendingTasks (po_db po) \<and> w_pc (po_workers po ! k) \<noteq> Returned)"

definition pool_wait :: "nat \<Rightarrow> pool \<Rightarrow> nat" where
  "pool_wait k po = (if hasPendingTasks (po_db po) then patience (w_pc (po_workers po ! k))
     else ending (w_pc (po_workers po ! k)) - 1)"

lemma unreturned_nonneg: "0 \<le> unreturned po"
  unfolding unreturned_def by (rule sum_list_nonneg) auto

lemma unreturned_turn: "unreturned (pool_step (Turn k) po) \<le> unreturned po"
proof (cases "k < length (po_workers po)")
  case True
  then show ?thesis
    by (auto simp: unreturned_def pool_step_def sum_map_update workerTurn_def Let_def split: prod.splits)
qed (simp add: pool_step_def)

lemma left_nonneg: "unbroken po \<Longrightarrow> 0 \<le> workLeft po"
  using workLeft_pending [of po] by linarith

lemma pool_left_turn:
  assumes "unbroken po" and "k < length (po_workers po)"
  shows "pool_left (pool_step (Turn k) po) \<le> pool_left po"
    and "busy po k \<Longrightarrow> pool_left (pool_step (Turn k) po) < pool_left po"
  using turn_decreases [OF assms] left_nonneg [of "pool_step (Turn k) po"] unreturned_turn [of k po]
    unreturned_nonneg [of "pool_step (Turn k) po"]
  by (auto simp: pool_left_def)

lemma pool_goal_turn:
  assumes "pool_goal po" shows "pool_step (Turn j) po = po"
proof (cases "j < length (po_workers po)")
  case True
  with assms have "w_pc (po_workers po ! j) = Returned" by (simp add: pool_goal_def)
  then show ?thesis by (simp add: pool_step_def workerTurn_def)
qed (simp add: pool_step_def)

text \<open>A worker that returns is one less.\<close>

lemma pool_left_return:
  assumes "unbroken po" and k: "k < length (po_workers po)" and "\<not> hasPendingTasks (po_db po)"
    and "w_pc (po_workers po ! k) = Checking"
  shows "pool_left (pool_step (Turn k) po) < pool_left po"
proof -
  have step: "pool_step (Turn k) po =
      \<lparr>po_db = po_db po, po_workers = (po_workers po)[k := (po_workers po ! k)\<lparr>w_pc := Returned\<rparr>]\<rparr>"
    using assms(3,4) k by (simp add: pool_step_def workerTurn_def)
  have "unreturned (pool_step (Turn k) po) = unreturned po - 1" "workLeft (pool_step (Turn k) po) = workLeft po"
    using assms(4) k by (simp_all add: step unreturned_def workLeft_def sum_map_update)
  moreover have "0 \<le> unreturned (pool_step (Turn k) po)" by (rule unreturned_nonneg)
  ultimately show ?thesis using left_nonneg [OF assms(1)] by (simp add: pool_left_def)
qed

lemma pool_helper_exists:
  assumes unb: "unbroken po" and "\<not> pool_goal po"
  shows "\<exists>k < length (po_workers po). pool_helper k po \<and> pool_wait k po < 3"
proof -
  have small: "patience c < 3" "ending c - 1 < 3" for c by (cases c; simp)+
  then have wait: "pool_wait k po < 3" for k by (simp add: pool_wait_def)
  obtain k where k: "k < length (po_workers po)" "w_pc (po_workers po ! k) \<noteq> Returned"
    using assms(2) by (auto simp: pool_goal_def in_set_conv_nth)
  show ?thesis
  proof (cases "hasPendingTasks (po_db po) \<and> \<not> quiet po")
    case True
    then obtain l where "l < length (po_workers po)" "held (w_pc (po_workers po ! l)) \<noteq> None"
      using unb by (auto simp: quiet_def in_set_conv_nth)
    with wait show ?thesis by (auto simp: pool_helper_def)
  next
    case False
    with k wait show ?thesis by (auto simp: pool_helper_def)
  qed
qed

lemma pool_helper_turn:
  assumes unb: "unbroken po" and j: "j < length (po_workers po)" and hp: "pool_helper k po"
  shows "pool_left (pool_step (Turn j) po) < pool_left po \<or>
    pool_helper k (pool_step (Turn j) po) \<and> pool_wait k (pool_step (Turn j) po) + (if j = k then 1 else 0) \<le> pool_wait k po"
proof (cases "busy po j")
  case True
  with pool_left_turn(2) [OF unb j] show ?thesis by simp
next
  case False
  have k: "k < length (po_workers po)" using hp by (simp add: pool_helper_def)
  from hp False consider (hold) "held (w_pc (po_workers po ! k)) \<noteq> None" "j \<noteq> k"
    | (quiet) "quiet po" | (ending) "\<not> hasPendingTasks (po_db po)" "w_pc (po_workers po ! k) \<noteq> Returned"
    by (cases "j = k") (auto simp: pool_helper_def busy_def)
  then show ?thesis
  proof cases
    case hold
    have "patience (w_pc (po_workers po ! k)) = 0 \<and> ending (w_pc (po_workers po ! k)) = 0"
      using hold(1) by (cases "w_pc (po_workers po ! k)") simp_all
    with hold other_worker [of k j po] k show ?thesis by (simp add: pool_helper_def pool_wait_def)
  next
    case quiet
    note q = quiet_turn [OF quiet j False]
    have "hasPendingTasks (po_db po)" "hasPendingTasks (po_db (pool_step (Turn j) po))"
      using quiet q(1) by (simp_all add: quiet_def)
    with q k other_worker [of k j po] show ?thesis by (cases "j = k") (auto simp: pool_helper_def pool_wait_def)
  next
    case ending
    note e = ending_turn [OF unb j ending(1)]
    show ?thesis
    proof (cases "j = k")
      case True
      show ?thesis
      proof (cases "w_pc (po_workers po ! k) = Checking")
        case True
        with pool_left_return [OF unb k ending(1)] \<open>j = k\<close> show ?thesis by simp
      next
        case other: False
        have "w_pc (po_workers po ! k) \<noteq> Rejected" "worker_ok (po_db po) (po_workers po ! k)"
          using unb k by (simp_all add: unbroken_def pool_inv_def)
        then have "w_pc (po_workers po ! k) = Claiming \<or> w_pc (po_workers po ! k) = Waiting"
          using ending other by (cases "w_pc (po_workers po ! k)") (auto simp: worker_ok_def hasPendingTasks_def)
        with e \<open>j = k\<close> ending(1) k show ?thesis by (auto simp: pool_helper_def pool_wait_def)
      qed
    qed (use e ending k other_worker [of k j po] in \<open>auto simp: pool_helper_def pool_wait_def\<close>)
  qed
qed

interpretation pool_fair: fair_turns "\<lambda>k. pool_step (Turn k)" n 3
    "\<lambda>po. unbroken po \<and> length (po_workers po) = n" pool_goal pool_left pool_helper pool_wait for n
proof
  fix po j k
  assume po: "unbroken po \<and> length (po_workers po) = n"
  show "j < n \<Longrightarrow> unbroken (pool_step (Turn j) po) \<and> length (po_workers (pool_step (Turn j) po)) = n"
    using po turn_decreases(1) by simp
  show "j < n \<Longrightarrow> pool_left (pool_step (Turn j) po) \<le> pool_left po"
    using po pool_left_turn(1) by simp
  show "pool_goal po \<Longrightarrow> pool_goal (pool_step (Turn j) po)" by (simp add: pool_goal_turn)
  show "\<not> pool_goal po \<Longrightarrow> \<exists>k < n. pool_helper k po \<and> pool_wait k po < 3"
    using po pool_helper_exists by blast
  show "j < n \<Longrightarrow> pool_helper k po \<Longrightarrow> pool_left (pool_step (Turn j) po) < pool_left po \<or>
      pool_helper k (pool_step (Turn j) po) \<and> pool_wait k (pool_step (Turn j) po) + (if j = k then 1 else 0) \<le> pool_wait k po"
    using po pool_helper_turn by simp
qed

lemma startPool_unbroken:
  assumes "wf_db d" and "startPool n d = Inr po"
  shows "unbroken po" and "length (po_workers po) = n" and "workLeft po = 3 * int (length (tasks d))"
    and "unreturned po = int n"
proof -
  have po: "po = \<lparr>po_db = snd (resetTasks d), po_workers = startWorkers n\<rparr>"
    using assms(2) by (simp add: startPool_Inr)
  show "unbroken po"
    using startPool_inv [OF assms] startWorkers_all by (fastforce simp: unbroken_def po)
  show "length (po_workers po) = n" by (simp add: po startWorkers_def)
  have "(\<Sum>w \<leftarrow> startWorkers n. advance (w_pc w)) = 0"
    by (simp add: startWorkers_def comp_def)
  moreover have "filter pending (tasks (po_db po)) = tasks (po_db po)"
    by (rule filter_True) (auto simp: po resetTasks_def pending_def)
  ultimately show "workLeft po = 3 * int (length (tasks d))" by (simp add: workLeft_def po resetTasks_def)
  have "map (\<lambda>w. if w_pc w = Returned then 0 else 1 :: int) (startWorkers n) = replicate n 1"
    by (simp add: startWorkers_def map_replicate_const comp_def)
  then show "unreturned po = int n" by (simp add: unreturned_def po sum_list_replicate)
qed

text \<open>C13: Let workers be started on the tasks and take turns, nothing failing. A sweep is any
  interleaving in which every worker has at least three turns. After more sweeps than three per
  task and one per worker, every worker has returned, every task was processed exactly once,
  and the numbers the workers report add up to the number of tasks.\<close>

theorem pool_returns:
  assumes "wf_db d" and "startPool n d = Inr po"
    and "\<forall>ks \<in> set kss. sweep 3 n ks" and "3 * length (tasks d) + n < length kss"
  shows "(let po' = fold pool_step (map Turn (concat kss)) po in
    (\<forall>w \<in> set (po_workers po'). w_pc w = Returned) \<and>
    (0 < n \<longrightarrow> processedOnce (po_db po') = int (length (tasks d))) \<and>
    (0 < n \<longrightarrow> (\<Sum>w \<leftarrow> po_workers po'. w_processed w) = int (length (tasks d))))"
proof -
  note start = startPool_unbroken [OF assms(1,2)]
  define q where "q = fold pool_step (map Turn (concat kss)) po"
  have run: "q = fold (\<lambda>k. pool_step (Turn k)) (concat kss) po" by (simp add: q_def fold_map comp_def)
  have "pool_left po < length kss" using start(3,4) assms(4) by (simp add: pool_left_def)
  then have goal: "pool_goal q"
    using pool_fair.sweeps_reach_goal [of po n kss] start(1,2) assms(3) by (simp add: run)
  have unb: "unbroken q" and len: "length (po_workers q) = n"
    using pool_fair.sweeps_inv [of po n kss] start(1,2) assms(3) by (simp_all add: run)
  then have inv: "pool_inv q" and rej: "\<forall>w \<in> set (po_workers q). w_pc w \<noteq> Rejected"
    by (simp_all add: unbroken_def)
  have "map t_id (tasks (po_db q)) = map t_id (tasks d)"
    using pool_run_ids [of "map Turn (concat kss)" po] assms(2) by (auto simp: q_def startPool_Inr resetTasks_ids)
  then have tasks: "length (tasks (po_db q)) = length (tasks d)" by (metis length_map)
  have none: "\<not> hasPendingTasks (po_db q)" if "0 < n"
  proof -
    have "po_workers q ! 0 \<in> set (po_workers q)" using that len by simp
    with goal inv show ?thesis by (auto simp: pool_goal_def pool_inv_def worker_ok_def)
  qed
  show ?thesis
    using goal none pool_inv_counts(2) [OF inv] pool_inv_total [OF inv _ rej] tasks
    by (simp add: Let_def pool_goal_def q_def [symmetric])
qed

section \<open>Examples\<close>

definition worker_db :: db where
  "worker_db = sample_db\<lparr>orders := [\<lparr>o_id = 1, o_user_id = 1, o_status = Created, o_total_amount = 200\<rparr>],
     tasks := [\<lparr>t_id = 2, t_order_id = 1, t_type = ''order_confirmation'', t_status = TaskPending,
                t_processed = 0, t_worker_id = None\<rparr>,
               \<lparr>t_id = 1, t_order_id = 1, t_type = ''order_confirmation'', t_status = TaskDone,
                t_processed = 1, t_worker_id = Some ''worker-9''\<rparr>]\<rparr>"

lemma worker_db_wf: "wf_db worker_db"
  using wf_sample_db by (auto simp: wf_db_def worker_db_def ids_defs orders_ok_def tasks_ok_def items_ok_def
    idem_ok_def sample_db_def empty_db_def int4_def)

text \<open>The second worker breaks while it holds the first task; the first one does both.\<close>

lemma worker_db_run:
  "case startPool 2 worker_db of Inl _ \<Rightarrow> False
   | Inr po \<Rightarrow> w_pc (hd (po_workers (fold pool_step [Turn 1, Turn 0, Break 1, Turn 0, Turn 0, Turn 0, Turn 0,
       Turn 0, Turn 0, Turn 0] po))) = Returned"
  by code_simp

lemma pool_processes_once_witness:
  "\<exists>po po'. startPool 2 worker_db = Inr po \<and>
     po' = fold pool_step [Turn 1, Turn 0, Break 1, Turn 0, Turn 0, Turn 0, Turn 0, Turn 0, Turn 0, Turn 0] po \<and>
     map t_id (tasks (po_db po')) = [2, 1] \<and> processedTwice (po_db po') = 0 \<and> processedOnce (po_db po') = 2"
proof -
  let ?es = "[Turn 1, Turn 0, Break 1, Turn 0, Turn 0, Turn 0, Turn 0, Turn 0, Turn 0, Turn 0]"
  obtain po where po: "startPool 2 worker_db = Inr po" "w_pc (hd (po_workers (fold pool_step ?es po))) = Returned"
    using worker_db_run by (auto split: sum.splits)
  have "length (po_workers (fold pool_step es p)) = length (po_workers p)" for es p
    by (induction es arbitrary: p) simp_all
  then have "po_workers (fold pool_step ?es po) \<noteq> []"
    using startPool_unbroken(2) [OF worker_db_wf po(1)] by (metis list.size(3) zero_neq_numeral)
  then have "\<exists>w \<in> set (po_workers (fold pool_step ?es po)). w_pc w = Returned" using po(2) hd_in_set by blast
  with pool_processes_once [OF worker_db_wf po(1), of ?es] po(1) show ?thesis
    by (simp add: Let_def worker_db_def del: fold_simps)
qed

lemma pool_returns_witness:
  "\<exists>po po'. startPool 2 worker_db = Inr po \<and> po' = fold pool_step (map Turn (concat (replicate 9 [0, 1, 0, 1, 0, 1]))) po \<and>
     processedOnce (po_db po') = 2 \<and> (\<Sum>w \<leftarrow> po_workers po'. w_processed w) = 2"
proof -
  obtain po where po: "startPool 2 worker_db = Inr po" using worker_db_run by (auto split: sum.splits)
  have "sweep 3 2 [0, 1, 0, 1, 0, 1]" by (auto simp: sweep_def less_2_cases_iff)
  then have "\<forall>ks \<in> set (replicate 9 [0, 1, 0, 1, 0, 1]). sweep 3 2 ks" by simp
  from pool_returns [OF worker_db_wf po this] po show ?thesis
    by (fastforce simp: Let_def worker_db_def)
qed

end
