(* ===== verification/Retry.thy ===== *)
theory Retry
  imports DbInvariant Fairness
begin

text \<open>
  \<open>src/demo-retry.ts\<close>: an operation is tried again after a serialization failure or a
  deadlock, at most five times, and two concurrent transactions read a balance and write back
  a larger one under \<open>SERIALIZABLE\<close>. An error is the value that was thrown; the driver puts
  the SQLSTATE into its property \<open>code\<close>.
\<close>

section \<open>Retrying\<close>

definition MAX_RETRIES :: nat where "MAX_RETRIES = 5"
definition BASE_BACKOFF_MS :: int where "BASE_BACKOFF_MS = 50"

definition isRetryableError :: "jsval \<Rightarrow> bool" where
  "isRetryableError e = (case e of
       Obj _ \<Rightarrow> opt_prop e ''code'' = Str ''40001'' \<or> opt_prop e ''code'' = Str ''40P01''
     | _ \<Rightarrow> False)"

text \<open>The number of the next attempt, or none if the error is thrown on.\<close>

definition next_attempt :: "nat \<Rightarrow> jsval \<Rightarrow> nat option" where
  "next_attempt attempt e =
     (if \<not> isRetryableError e then None
      else if MAX_RETRIES < attempt + 1 then None
      else Some (attempt + 1))"

definition backoffMs :: "nat \<Rightarrow> int" where
  "backoffMs attempt = BASE_BACKOFF_MS * int attempt"

text \<open>
  \<open>runWithRetry\<close> on an operation that changes a state; the pauses it makes are listed. The
  loop starts with \<open>attempt = 0\<close>.
\<close>

function retry_loop :: "('s \<Rightarrow> (jsval + 'a) \<times> 's) \<Rightarrow> nat \<Rightarrow> 's \<Rightarrow> (jsval + 'a) \<times> int list \<times> 's" where
  "retry_loop operation attempt s = (case operation s of
       (Inr a, s') \<Rightarrow> (Inr a, [], s')
     | (Inl e, s') \<Rightarrow> (case next_attempt attempt e of
           None \<Rightarrow> (Inl e, [], s')
         | Some n \<Rightarrow> (case retry_loop operation n s' of (r, pauses, s'') \<Rightarrow> (r, backoffMs n # pauses, s''))))"
  by pat_completeness auto
termination
  by (relation "measure (\<lambda>(_, attempt, _). MAX_RETRIES - attempt)")
    (auto simp: next_attempt_def split: if_splits)

declare retry_loop.simps [simp del]

definition runWithRetry :: "('s \<Rightarrow> (jsval + 'a) \<times> 's) \<Rightarrow> 's \<Rightarrow> (jsval + 'a) \<times> int list \<times> 's" where
  "runWithRetry operation = retry_loop operation 0"

section \<open>Concurrent increments\<close>

definition USER_ID :: int where "USER_ID = 1"
definition INITIAL_BALANCE :: int where "INITIAL_BALANCE = 1000000"
definition INCREMENT :: int where "INCREMENT = 1000"

text \<open>
  One call of \<open>incrementBalance\<close>: where it is, and its variable \<open>attempt\<close>. \<open>Snapshot b v\<close>: the
  transaction has read the balance \<open>b\<close> in the version \<open>v\<close> of the row. \<open>Written b\<close>: its update
  holds the lock of the row and is not committed. \<open>Pausing\<close> is the back-off.
\<close>

datatype inc_pc = Starting | Snapshot int nat | Written int | Pausing | Resolved | Failed jsval

record increment =
  in_pc :: inc_pc
  in_attempt :: nat

text \<open>\<open>bal_version\<close> counts the committed updates of the row.\<close>

record bal_state =
  bal_db :: db
  bal_version :: nat
  bal_calls :: "increment list"

definition balance_of :: "db \<Rightarrow> int option" where
  "balance_of d = map_option u_balance (first_where (\<lambda>r. u_id r = USER_ID) (users d))"

definition set_balance :: "int \<Rightarrow> db \<Rightarrow> db" where
  "set_balance b = users_update (update_where (\<lambda>r. u_id r = USER_ID) (\<lambda>r. r\<lparr>u_balance := b\<rparr>))"

definition sql_error :: "string \<Rightarrow> jsval" where
  "sql_error code = Obj [(''code'', Str code)]"

text \<open>The transaction is rolled back, and the error goes to \<open>runWithRetry\<close>.\<close>

definition inc_error :: "jsval \<Rightarrow> increment \<Rightarrow> increment" where
  "inc_error e c = (case next_attempt (in_attempt c) e of
       None \<Rightarrow> c\<lparr>in_pc := Failed e\<rparr>
     | Some n \<Rightarrow> \<lparr>in_pc = Pausing, in_attempt = n\<rparr>)"

fun writing :: "inc_pc \<Rightarrow> bool" where
  "writing (Written _) = True"
| "writing _ = False"

definition row_locked :: "increment list \<Rightarrow> bool" where
  "row_locked cs \<longleftrightarrow> (\<exists>c \<in> set cs. writing (in_pc c))"

text \<open>
  The next statement of a call. An update waits for the lock of the row; of a row that was
  changed since the snapshot it fails with 40001.
\<close>

definition inc_turn :: "bal_state \<Rightarrow> increment \<Rightarrow> increment \<times> db \<times> nat" where
  "inc_turn st c = (let d = bal_db st; v = bal_version st in case in_pc c of
       Starting \<Rightarrow> (case balance_of d of
           None \<Rightarrow> (inc_error (Obj [(''message'', Str ''Failed to read user balance'')]) c, d, v)
         | Some b \<Rightarrow> (c\<lparr>in_pc := Snapshot b v\<rparr>, d, v))
     | Snapshot b u \<Rightarrow>
         if row_locked (bal_calls st) then (c, d, v)
         else if u \<noteq> v then (inc_error (sql_error ''40001'') c, d, v)
         else if \<not> int4 (b + INCREMENT) then (inc_error (sql_error ''22003'') c, d, v)
         else if b + INCREMENT < 0 then (inc_error (sql_error ''23514'') c, d, v)
         else (c\<lparr>in_pc := Written (b + INCREMENT)\<rparr>, d, v)
     | Written b \<Rightarrow> (c\<lparr>in_pc := Resolved\<rparr>, set_balance b d, v + 1)
     | Pausing \<Rightarrow> (c\<lparr>in_pc := Starting\<rparr>, d, v)
     | Resolved \<Rightarrow> (c, d, v)
     | Failed e \<Rightarrow> (c, d, v))"

text \<open>
  \<open>Abort k e\<close>: a statement of call \<open>k\<close> fails with \<open>e\<close> for a reason of its own, and the
  transaction took no effect.
\<close>

datatype inc_event = Advance nat | Abort nat jsval

fun inc_event_call :: "inc_event \<Rightarrow> nat" where
  "inc_event_call (Advance k) = k"
| "inc_event_call (Abort k _) = k"

fun inc_react :: "inc_event \<Rightarrow> bal_state \<Rightarrow> increment \<Rightarrow> increment \<times> db \<times> nat" where
  "inc_react (Advance _) st c = inc_turn st c"
| "inc_react (Abort _ e) st c =
     ((case in_pc c of
         Starting \<Rightarrow> inc_error e c
       | Snapshot _ _ \<Rightarrow> inc_error e c
       | Written _ \<Rightarrow> inc_error e c
       | _ \<Rightarrow> c), bal_db st, bal_version st)"

definition inc_step :: "inc_event \<Rightarrow> bal_state \<Rightarrow> bal_state" where
  "inc_step e st = (let k = inc_event_call e in
     if k < length (bal_calls st)
     then (case inc_react e st (bal_calls st ! k) of
             (c, d, v) \<Rightarrow> \<lparr>bal_db = d, bal_version = v, bal_calls = (bal_calls st)[k := c]\<rparr>)
     else st)"

text \<open>\<open>main\<close> of the demonstration, with any number of calls.\<close>

definition resetState :: "db \<Rightarrow> db" where
  "resetState = set_balance INITIAL_BALANCE"

definition getFinalBalance :: "db \<Rightarrow> int option" where
  "getFinalBalance = balance_of"

definition startIncrements :: "nat \<Rightarrow> db \<Rightarrow> bal_state" where
  "startIncrements n d =
     \<lparr>bal_db = resetState d, bal_version = 0, bal_calls = replicate n \<lparr>in_pc = Starting, in_attempt = 0\<rparr>\<rparr>"

definition retry_demo_passed :: "db \<Rightarrow> bool" where
  "retry_demo_passed d \<longleftrightarrow> getFinalBalance d = Some (INITIAL_BALANCE + INCREMENT * 2)"


section \<open>What runWithRetry does\<close>

text \<open>The call of the operation after \<open>k\<close> others.\<close>

fun nth_call :: "('s \<Rightarrow> (jsval + 'a) \<times> 's) \<Rightarrow> nat \<Rightarrow> 's \<Rightarrow> (jsval + 'a) \<times> 's" where
  "nth_call operation 0 s = operation s"
| "nth_call operation (Suc k) s = nth_call operation k (snd (operation s))"

lemma next_attempt_Some: "next_attempt a e = Some m \<longleftrightarrow> isRetryableError e \<and> a < MAX_RETRIES \<and> m = Suc a"
  by (auto simp: next_attempt_def)

lemma next_attempt_None: "next_attempt a e = None \<longleftrightarrow> \<not> isRetryableError e \<or> MAX_RETRIES \<le> a"
  by (auto simp: next_attempt_def)

lemma retry_loop_spec:
  assumes "retry_loop operation a s = (r, pauses, s')" and "a \<le> MAX_RETRIES"
  shows "nth_call operation (length pauses) s = (r, s') \<and> a + length pauses \<le> MAX_RETRIES \<and>
    pauses = map backoffMs [Suc a..<Suc a + length pauses] \<and>
    (\<forall>k < length pauses. \<exists>e. fst (nth_call operation k s) = Inl e \<and> isRetryableError e) \<and>
    (\<forall>e. r = Inl e \<longrightarrow> \<not> isRetryableError e \<or> a + length pauses = MAX_RETRIES)"
  using assms
proof (induction operation a s arbitrary: r pauses s' rule: retry_loop.induct)
  case (1 operation a s)
  show ?case
  proof (cases "operation s")
    case (Pair x t)
    show ?thesis
    proof (cases x)
      case (Inr v)
      with 1(2,3) Pair show ?thesis by (auto simp: retry_loop.simps [of operation a s])
    next
      case (Inl e)
      note op = Pair [unfolded Inl]
      show ?thesis
      proof (cases "next_attempt a e")
        case None
        with 1(2,3) op show ?thesis
          by (auto simp: retry_loop.simps [of operation a s] next_attempt_None)
      next
        case (Some m)
        obtain r1 p1 t1 where loop: "retry_loop operation m t = (r1, p1, t1)" by (metis prod.exhaust)
        from Some have m: "m = Suc a" "m \<le> MAX_RETRIES" "isRetryableError e" by (auto simp: next_attempt_Some)
        from 1(2) op Some loop have res: "r = r1" "s' = t1" "pauses = backoffMs m # p1"
          by (simp_all add: retry_loop.simps [of operation a s])
        have "\<exists>e. fst (nth_call operation k s) = Inl e \<and> isRetryableError e"
          if "\<forall>k < length p1. \<exists>e. fst (nth_call operation k t) = Inl e \<and> isRetryableError e" "k < Suc (length p1)" for k
          using that op m(3) by (cases k) auto
        with 1(1) [OF op [symmetric] refl Some loop m(2)] op m show ?thesis
          by (auto simp: res upt_conv_Cons simp del: upt_Suc)
      qed
    qed
  qed
qed

text \<open>C15: \<open>runWithRetry\<close> always comes to an end. Its result is that of the last call it made of
  the operation; every call before threw a serialization failure or a deadlock, the calls were
  at most six, and the pauses between them last 50, 100, 150 ms and so on, 750 ms together at
  most. It throws only an error that is of another kind or that ended the sixth call.\<close>

theorem runWithRetry_outcome:
  "(case runWithRetry operation s of (r, pauses, s') \<Rightarrow>
     nth_call operation (length pauses) s = (r, s') \<and> length pauses \<le> 5 \<and>
     (\<forall>k < length pauses. pauses ! k = 50 * (int k + 1)) \<and> sum_list pauses \<le> 750 \<and>
     (\<forall>k < length pauses. \<exists>e. fst (nth_call operation k s) = Inl e \<and> isRetryableError e) \<and>
     (\<forall>e. r = Inl e \<longrightarrow> \<not> isRetryableError e \<or> length pauses = 5))"
proof -
  obtain r pauses s' where run: "runWithRetry operation s = (r, pauses, s')" by (metis prod.exhaust)
  note loop = retry_loop_spec [OF run [unfolded runWithRetry_def] le0]
  have last: "nth_call operation (length pauses) s = (r, s')" and bound: "length pauses \<le> 5"
    and before: "\<forall>k < length pauses. \<exists>e. fst (nth_call operation k s) = Inl e \<and> isRetryableError e"
    and error: "\<forall>e. r = Inl e \<longrightarrow> \<not> isRetryableError e \<or> length pauses = 5"
    using loop unfolding MAX_RETRIES_def add_0 by blast+
  have pauses: "pauses = map backoffMs [Suc 0..<Suc 0 + length pauses]" using loop by blast
  have nth: "pauses ! k = 50 * (int k + 1)" if "k < length pauses" for k
    by (subst pauses) (use that in \<open>simp add: backoffMs_def BASE_BACKOFF_MS_def del: upt_Suc\<close>)
  have "length pauses = 0 \<or> length pauses = 1 \<or> length pauses = 2 \<or> length pauses = 3 \<or>
      length pauses = 4 \<or> length pauses = 5"
    using bound by linarith
  then have "sum_list (map backoffMs [Suc 0..<Suc 0 + length pauses]) \<le> 750"
    by (elim disjE) (simp_all add: backoffMs_def BASE_BACKOFF_MS_def upt_rec)
  then have "sum_list pauses \<le> 750" unfolding pauses [symmetric] .
  with run last bound before error nth show ?thesis by simp
qed

lemma runWithRetry_outcome_witness:
  "\<exists>operation s'. runWithRetry operation (2 :: nat) = (Inr ''done'', [50, 100], s') \<and> nth_call operation 2 2 = (Inr ''done'', s') \<and>
     (\<exists>e. fst (nth_call operation 1 2) = Inl e \<and> isRetryableError e)"
proof -
  define operation :: "nat \<Rightarrow> (jsval + string) \<times> nat" where
    "operation = (\<lambda>n. if n = 0 then (Inr ''done'', 0) else (Inl (sql_error ''40001''), n - 1))"
  have run: "runWithRetry operation 2 = (Inr ''done'', [50, 100], 0)"
    by (simp add: runWithRetry_def retry_loop.simps next_attempt_def operation_def isRetryableError_def sql_error_def
        MAX_RETRIES_def backoffMs_def BASE_BACKOFF_MS_def)
  from runWithRetry_outcome [of operation 2] have last: "nth_call operation (length [50, 100 :: int]) 2 = (Inr ''done'', 0)"
      and before: "\<forall>k < length [50, 100 :: int]. \<exists>e. fst (nth_call operation k 2) = Inl e \<and> isRetryableError e"
    unfolding run prod.case by blast+
  have "1 < length [50, 100 :: int]" by simp
  with before have "\<exists>e. fst (nth_call operation 1 2) = Inl e \<and> isRetryableError e" by blast
  moreover have "length [50, 100 :: int] = 2" by simp
  ultimately show ?thesis using run last by metis
qed

section \<open>The balance counts the increments\<close>

definition resolved :: "increment list \<Rightarrow> nat" where
  "resolved cs = length (filter (\<lambda>c. in_pc c = Resolved) cs)"

definition gave_up :: "increment \<Rightarrow> bool" where
  "gave_up c \<longleftrightarrow> (\<forall>e. in_pc c = Failed e \<longrightarrow> \<not> isRetryableError e \<or> in_attempt c = MAX_RETRIES)"

definition call_ok :: "int \<Rightarrow> nat \<Rightarrow> increment \<Rightarrow> bool" where
  "call_ok b v c \<longleftrightarrow> (\<forall>x u. in_pc c = Snapshot x u \<longrightarrow> u \<le> v \<and> (u = v \<longrightarrow> x = b)) \<and>
     (\<forall>x. in_pc c = Written x \<longrightarrow> x = b + INCREMENT) \<and> in_attempt c \<le> MAX_RETRIES \<and> gave_up c"

definition one_writer :: "increment list \<Rightarrow> bool" where
  "one_writer cs \<longleftrightarrow> (\<forall>k < length cs. \<forall>l < length cs. \<forall>x y.
     in_pc (cs ! k) = Written x \<longrightarrow> in_pc (cs ! l) = Written y \<longrightarrow> k = l)"

definition bal_inv :: "bal_state \<Rightarrow> bool" where
  "bal_inv st \<longleftrightarrow> bal_version st = resolved (bal_calls st) \<and>
     balance_of (bal_db st) = Some (INITIAL_BALANCE + INCREMENT * int (bal_version st)) \<and>
     (\<forall>c \<in> set (bal_calls st). call_ok (INITIAL_BALANCE + INCREMENT * int (bal_version st)) (bal_version st) c) \<and>
     one_writer (bal_calls st)"

lemma row_locked_iff: "row_locked cs \<longleftrightarrow> (\<exists>c \<in> set cs. \<exists>b. in_pc c = Written b)"
proof -
  have "writing p \<longleftrightarrow> (\<exists>b. p = Written b)" for p by (cases p) simp_all
  then show ?thesis by (simp add: row_locked_def)
qed

lemma balance_set:
  assumes "balance_of d \<noteq> None" shows "balance_of (set_balance b d) = Some b"
proof -
  obtain r where r: "first_where (\<lambda>r. u_id r = USER_ID) (users d) = Some r"
    using assms unfolding balance_of_def by blast
  then have "u_id r = USER_ID" by (blast dest: first_where_SomeD)
  with r show ?thesis by (simp add: balance_of_def set_balance_def first_where_update)
qed

lemma resolved_update:
  "k < length cs \<Longrightarrow> in_pc (cs ! k) \<noteq> Resolved \<Longrightarrow>
     resolved (cs[k := c]) = resolved cs + (if in_pc c = Resolved then 1 else 0)"
  unfolding resolved_def by (induction cs arbitrary: k) (auto split: nat.splits simp: nth_Cons)

lemma one_writer_update:
  assumes "one_writer cs" and "\<And>x. in_pc c = Written x \<Longrightarrow> \<not> row_locked cs"
  shows "one_writer (cs[k := c])"
  unfolding one_writer_def
proof (intro allI impI)
  fix i j x y
  assume a: "i < length (cs[k := c])" "j < length (cs[k := c])"
    "in_pc (cs[k := c] ! i) = Written x" "in_pc (cs[k := c] ! j) = Written y"
  have other: "\<not> row_locked cs \<Longrightarrow> in_pc (cs ! l) \<noteq> Written z" if "l < length cs" for l z
    using that by (auto simp: row_locked_iff)
  consider "i = j" | "i = k" "j \<noteq> k" | "i \<noteq> k" "j = k" | "i \<noteq> k" "j \<noteq> k" by blast
  then show "i = j"
  proof cases
    case 2
    with a assms(2) [of x] other [of j y] show ?thesis by simp
  next
    case 3
    with a assms(2) [of y] other [of i x] show ?thesis by simp
  next
    case 4
    with a assms(1) show ?thesis unfolding one_writer_def length_list_update by (metis nth_list_update_neq)
  qed simp
qed

text \<open>A call that goes on without a commit.\<close>

lemma bal_inv_goto:
  assumes "bal_inv st" and k: "k < length (bal_calls st)"
    and "in_pc (bal_calls st ! k) \<noteq> Resolved" and "in_pc c \<noteq> Resolved"
    and "call_ok (INITIAL_BALANCE + INCREMENT * int (bal_version st)) (bal_version st) c"
    and "\<And>x. in_pc c = Written x \<Longrightarrow> \<not> row_locked (bal_calls st)"
  shows "bal_inv \<lparr>bal_db = bal_db st, bal_version = bal_version st, bal_calls = (bal_calls st)[k := c]\<rparr>"
  using assms resolved_update [OF k assms(3), of c] one_writer_update [OF _ assms(6)]
    set_update_subset_insert [of "bal_calls st" k c]
  by (auto simp: bal_inv_def)

lemma inc_error_pc: "in_pc (inc_error e c) = Pausing \<or> in_pc (inc_error e c) = Failed e"
  by (simp add: inc_error_def split: option.split)

lemma inc_error_ok: "call_ok b v c \<Longrightarrow> call_ok b v (inc_error e c)"
  by (auto simp: call_ok_def gave_up_def inc_error_def next_attempt_Some next_attempt_None split: option.split)

lemma bal_inv_error:
  assumes "bal_inv st" and k: "k < length (bal_calls st)" and "in_pc (bal_calls st ! k) \<noteq> Resolved"
  shows "bal_inv \<lparr>bal_db = bal_db st, bal_version = bal_version st,
    bal_calls = (bal_calls st)[k := inc_error e (bal_calls st ! k)]\<rparr>"
proof (rule bal_inv_goto [OF assms])
  show "call_ok (INITIAL_BALANCE + INCREMENT * int (bal_version st)) (bal_version st) (inc_error e (bal_calls st ! k))"
    using assms(1) nth_mem [OF k] unfolding bal_inv_def by (intro inc_error_ok) blast
qed (use inc_error_pc [of e "bal_calls st ! k"] in auto)


lemma bal_inv_commit:
  assumes inv: "bal_inv st" and k: "k < length (bal_calls st)" and pc: "in_pc (bal_calls st ! k) = Written b"
  shows "bal_inv \<lparr>bal_db = set_balance b (bal_db st), bal_version = bal_version st + 1,
    bal_calls = (bal_calls st)[k := (bal_calls st ! k)\<lparr>in_pc := Resolved\<rparr>]\<rparr>"
proof -
  let ?v = "bal_version st" and ?cs = "bal_calls st"
  let ?b = "INITIAL_BALANCE + INCREMENT * int ?v" and ?b' = "INITIAL_BALANCE + INCREMENT * int (?v + 1)"
  have ok: "\<forall>c \<in> set ?cs. call_ok ?b ?v c" and one: "one_writer ?cs"
    using inv unfolding bal_inv_def by blast+
  then have b: "b = ?b + INCREMENT" using pc k nth_mem [OF k] by (auto simp: call_ok_def)
  then have "b = ?b'" by (simp add: algebra_simps)
  moreover have "balance_of (set_balance b (bal_db st)) = Some b"
    using inv by (intro balance_set) (simp add: bal_inv_def)
  moreover have "call_ok ?b' (?v + 1) (?cs ! l)" if "l < length ?cs" "l \<noteq> k" for l
  proof -
    have "in_pc (?cs ! l) \<noteq> Written x" for x using one that pc k by (auto simp: one_writer_def)
    moreover have "call_ok ?b ?v (?cs ! l)" using ok that(1) by simp
    ultimately show ?thesis by (fastforce simp: call_ok_def)
  qed
  moreover have "call_ok ?b' (?v + 1) ((?cs ! k)\<lparr>in_pc := Resolved\<rparr>)"
    using ok nth_mem [OF k] by (auto simp: call_ok_def gave_up_def)
  ultimately have "\<forall>c \<in> set (?cs[k := (?cs ! k)\<lparr>in_pc := Resolved\<rparr>]). call_ok ?b' (?v + 1) c"
    using k by (auto simp: in_set_conv_nth nth_list_update)
  moreover have "resolved (?cs[k := (?cs ! k)\<lparr>in_pc := Resolved\<rparr>]) = ?v + 1"
    using resolved_update [OF k] pc inv by (simp add: bal_inv_def)
  moreover have "one_writer (?cs[k := (?cs ! k)\<lparr>in_pc := Resolved\<rparr>])"
    by (rule one_writer_update [OF one]) simp
  ultimately show ?thesis
    using \<open>b = ?b'\<close> \<open>balance_of (set_balance b (bal_db st)) = Some b\<close> by (simp add: bal_inv_def)
qed

lemma bal_eta [simp]: "\<lparr>bal_db = bal_db st, bal_version = bal_version st, bal_calls = bal_calls st\<rparr> = st"
  by (cases st) simp

lemma inc_turn_inv:
  assumes inv: "bal_inv st" and k: "k < length (bal_calls st)"
  shows "case inc_turn st (bal_calls st ! k) of (c, d, v) \<Rightarrow>
    bal_inv \<lparr>bal_db = d, bal_version = v, bal_calls = (bal_calls st)[k := c]\<rparr>"
proof -
  let ?c = "bal_calls st ! k"
  have ok: "call_ok (INITIAL_BALANCE + INCREMENT * int (bal_version st)) (bal_version st) ?c"
    using inv nth_mem [OF k] unfolding bal_inv_def by blast
  have bal: "balance_of (bal_db st) = Some (INITIAL_BALANCE + INCREMENT * int (bal_version st))"
    using inv by (simp add: bal_inv_def)
  show ?thesis
  proof (cases "in_pc ?c")
    case Starting
    have "bal_inv \<lparr>bal_db = bal_db st, bal_version = bal_version st, bal_calls = (bal_calls st)[k :=
        ?c\<lparr>in_pc := Snapshot (INITIAL_BALANCE + INCREMENT * int (bal_version st)) (bal_version st)\<rparr>]\<rparr>"
      by (rule bal_inv_goto [OF inv k]) (use ok Starting in \<open>auto simp: call_ok_def gave_up_def\<close>)
    with Starting bal show ?thesis by (simp add: inc_turn_def Let_def)
  next
    case (Snapshot b u)
    have "bal_inv \<lparr>bal_db = bal_db st, bal_version = bal_version st,
        bal_calls = (bal_calls st)[k := ?c\<lparr>in_pc := Written (b + INCREMENT)\<rparr>]\<rparr>"
      if "\<not> row_locked (bal_calls st)" "u = bal_version st"
      by (rule bal_inv_goto [OF inv k]) (use ok Snapshot that in \<open>auto simp: call_ok_def gave_up_def\<close>)
    with Snapshot bal_inv_error [OF inv k] inv show ?thesis by (simp add: inc_turn_def Let_def)
  next
    case (Written b)
    with bal_inv_commit [OF inv k Written] show ?thesis by (simp add: inc_turn_def Let_def)
  next
    case Pausing
    have "bal_inv \<lparr>bal_db = bal_db st, bal_version = bal_version st,
        bal_calls = (bal_calls st)[k := ?c\<lparr>in_pc := Starting\<rparr>]\<rparr>"
      by (rule bal_inv_goto [OF inv k]) (use ok Pausing in \<open>auto simp: call_ok_def gave_up_def\<close>)
    with Pausing show ?thesis by (simp add: inc_turn_def Let_def)
  qed (use inv in \<open>simp_all add: inc_turn_def Let_def\<close>)
qed

lemma inc_step_inv:
  assumes "bal_inv st" shows "bal_inv (inc_step e st)"
proof (cases "inc_event_call e < length (bal_calls st)")
  case True
  then show ?thesis
  proof (cases e)
    case (Advance k)
    with inc_turn_inv [OF assms, of k] True show ?thesis by (simp add: inc_step_def split: prod.splits)
  next
    case (Abort k e')
    with True assms bal_inv_error [OF assms, of k e'] show ?thesis
      by (cases "in_pc (bal_calls st ! k)") (simp_all add: inc_step_def)
  qed
qed (simp add: inc_step_def assms)

interpretation increments: invariant_steps inc_step bal_inv
  by unfold_locales (rule inc_step_inv)

lemma startIncrements_inv:
  assumes "balance_of d \<noteq> None" shows "bal_inv (startIncrements n d)"
  using assms by (auto simp: bal_inv_def startIncrements_def resetState_def balance_set resolved_def call_ok_def
      gave_up_def one_writer_def)

text \<open>C16: Any number of increments of the balance run concurrently, and any statement, the
  commit too, may fail with any error and undo its transaction. At every moment the committed balance is the initial one plus the
  increment times the number of calls that have resolved: no update is lost and none counts
  twice. A call that failed met an error that is not retried, or has used all its retries.\<close>

theorem increments_never_lost:
  assumes "balance_of d \<noteq> None"
  shows "(let st = fold inc_step es (startIncrements n d) in
    getFinalBalance (bal_db st) = Some (INITIAL_BALANCE + INCREMENT * int (resolved (bal_calls st))) \<and>
    (\<forall>c \<in> set (bal_calls st). gave_up c))"
proof -
  have inv: "bal_inv (fold inc_step es (startIncrements n d))"
    by (rule increments.run_inv) (rule startIncrements_inv [OF assms])
  then show ?thesis by (auto simp: Let_def getFinalBalance_def bal_inv_def call_ok_def)
qed


section \<open>Up to six increments all succeed\<close>

text \<open>Without other failures an attempt of a call fails only because another call committed.\<close>

definition tries_ok :: "nat \<Rightarrow> increment \<Rightarrow> bool" where
  "tries_ok v c \<longleftrightarrow> (case in_pc c of
       Snapshot _ u \<Rightarrow> in_attempt c \<le> u
     | Resolved \<Rightarrow> True
     | Failed _ \<Rightarrow> False
     | _ \<Rightarrow> in_attempt c \<le> v)"

definition patient :: "nat \<Rightarrow> bal_state \<Rightarrow> bool" where
  "patient n st \<longleftrightarrow> bal_inv st \<and> length (bal_calls st) = n \<and> n \<le> MAX_RETRIES + 1 \<and>
     (\<forall>c \<in> set (bal_calls st). tries_ok (bal_version st) c)"

definition inc_left :: "bal_state \<Rightarrow> nat" where
  "inc_left st = nat (2 * int (length (bal_calls st)) - 2 * int (bal_version st) -
     (if row_locked (bal_calls st) then 1 else 0))"

definition inc_goal :: "bal_state \<Rightarrow> bool" where
  "inc_goal st \<longleftrightarrow> (\<forall>c \<in> set (bal_calls st). in_pc c = Resolved)"

fun inc_pause :: "nat \<Rightarrow> inc_pc \<Rightarrow> nat" where
  "inc_pause v (Snapshot _ u) = (if u = v then 0 else 3)"
| "inc_pause v Pausing = 2"
| "inc_pause v Starting = 1"
| "inc_pause v _ = 0"

definition inc_wait :: "nat \<Rightarrow> bal_state \<Rightarrow> nat" where
  "inc_wait k st = inc_pause (bal_version st) (in_pc (bal_calls st ! k))"

definition inc_helper :: "nat \<Rightarrow> bal_state \<Rightarrow> bool" where
  "inc_helper k st \<longleftrightarrow> k < length (bal_calls st) \<and> in_pc (bal_calls st ! k) \<noteq> Resolved \<and>
     ((\<exists>x. in_pc (bal_calls st ! k) = Written x) \<or> \<not> row_locked (bal_calls st))"

lemma resolved_less: "k < length cs \<Longrightarrow> in_pc (cs ! k) \<noteq> Resolved \<Longrightarrow> resolved cs < length cs"
  unfolding resolved_def using nth_mem by (intro length_filter_less) blast

lemma locked_update:
  assumes "\<not> row_locked cs" and "k < length cs"
  shows "row_locked (cs[k := c]) \<longleftrightarrow> (\<exists>x. in_pc c = Written x)"
  using assms set_update_subset_insert [of cs k c] set_update_memI [of k cs c] by (fastforce simp: row_locked_iff)

lemma row_locked_nth: "row_locked cs \<longleftrightarrow> (\<exists>l < length cs. \<exists>x. in_pc (cs ! l) = Written x)"
  unfolding row_locked_iff by (metis in_set_conv_nth)

lemma locked_keep:
  assumes "k < length cs" and "\<And>x. in_pc (cs ! k) \<noteq> Written x" and "\<And>x. in_pc c \<noteq> Written x"
  shows "row_locked (cs[k := c]) = row_locked cs"
proof -
  have "in_pc (cs[k := c] ! l) = Written x \<longleftrightarrow> in_pc (cs ! l) = Written x" if "l < length cs" for l x
    using assms that by (cases "l = k") simp_all
  then show ?thesis by (simp add: row_locked_nth cong: conj_cong)
qed

lemma writer_unlocks:
  assumes "one_writer cs" and "k < length cs" and "in_pc (cs ! k) = Written b" and "\<And>x. in_pc c \<noteq> Written x"
  shows "\<not> row_locked (cs[k := c])"
proof -
  have "in_pc (cs ! l) \<noteq> Written x" if "l < length cs" "l \<noteq> k" for l x
    using assms(1-3) that by (auto simp: one_writer_def)
  then have "in_pc (cs[k := c] ! l) \<noteq> Written x" if "l < length cs" for l x
    using assms(2,4) that by (cases "l = k") simp_all
  then show ?thesis by (simp add: row_locked_nth)
qed

lemma tries_ok_later: "tries_ok v c \<Longrightarrow> v \<le> u \<Longrightarrow> tries_ok u c"
  by (auto simp: tries_ok_def split: inc_pc.splits)

lemma patient_step:
  assumes "patient n st" and "k < n" and "inc_step (Advance k) st = \<lparr>bal_db = d, bal_version = v, bal_calls = (bal_calls st)[k := c]\<rparr>"
    and "tries_ok v c" and "bal_version st \<le> v"
  shows "patient n (inc_step (Advance k) st)"
proof -
  have "bal_inv (inc_step (Advance k) st)" using assms(1) by (intro inc_step_inv) (simp add: patient_def)
  moreover have "\<forall>c \<in> set (bal_calls st). tries_ok v c" using assms(1,5) tries_ok_later by (auto simp: patient_def)
  then have "\<forall>a \<in> set ((bal_calls st)[k := c]). tries_ok v a"
    using assms(4) set_update_subset_insert [of "bal_calls st" k c] by blast
  ultimately show ?thesis using assms(1) by (simp add: patient_def assms(3))
qed

text \<open>The turn of a call: it commits, it takes the lock, or it changes neither row nor lock.\<close>

lemma inc_turn_cases:
  assumes pat: "patient n st" and k: "k < n"
  obtains (done1) "patient n (inc_step (Advance k) st)" "inc_left (inc_step (Advance k) st) < inc_left st"
  | (quiet) c where "inc_step (Advance k) st = st\<lparr>bal_calls := (bal_calls st)[k := c]\<rparr>"
      "patient n (inc_step (Advance k) st)" "row_locked ((bal_calls st)[k := c]) = row_locked (bal_calls st)"
      "\<And>x. in_pc (bal_calls st ! k) \<noteq> Written x" "in_pc (bal_calls st ! k) = Resolved \<longleftrightarrow> in_pc c = Resolved"
      "row_locked (bal_calls st) \<or> in_pc c = Resolved \<or>
         inc_pause (bal_version st) (in_pc c) < inc_pause (bal_version st) (in_pc (bal_calls st ! k))"
proof -
  let ?c = "bal_calls st ! k" and ?v = "bal_version st" and ?cs = "bal_calls st"
  have len: "k < length ?cs" and inv: "bal_inv st" and small: "length ?cs \<le> 6"
    using pat k by (simp_all add: patient_def MAX_RETRIES_def)
  have tries: "tries_ok ?v ?c" using pat len by (simp add: patient_def)
  have ok: "call_ok (INITIAL_BALANCE + INCREMENT * int ?v) ?v ?c" and one: "one_writer ?cs"
    and bal: "balance_of (bal_db st) = Some (INITIAL_BALANCE + INCREMENT * int ?v)" and v: "?v = resolved ?cs"
    using inv nth_mem [OF len] unfolding bal_inv_def by blast+
  have v6: "?v < length ?cs" if "in_pc ?c \<noteq> Resolved" using resolved_less [OF len that] v by simp
  have step: "inc_step (Advance k) st = (case inc_turn st ?c of (c, d, u) \<Rightarrow>
      \<lparr>bal_db = d, bal_version = u, bal_calls = ?cs[k := c]\<rparr>)" using len by (simp add: inc_step_def)
  have same: thesis
    if c: "inc_turn st ?c = (c, bal_db st, ?v)" "tries_ok ?v c" "\<And>x. in_pc ?c \<noteq> Written x" "\<And>x. in_pc c \<noteq> Written x"
      "in_pc ?c = Resolved \<longleftrightarrow> in_pc c = Resolved"
      "row_locked ?cs \<or> in_pc c = Resolved \<or> inc_pause ?v (in_pc c) < inc_pause ?v (in_pc ?c)" for c
  proof -
    have eq: "inc_step (Advance k) st = \<lparr>bal_db = bal_db st, bal_version = ?v, bal_calls = ?cs[k := c]\<rparr>"
      by (simp add: step c(1))
    have "inc_step (Advance k) st = st\<lparr>bal_calls := ?cs[k := c]\<rparr>" unfolding eq by (cases st) simp
    then show thesis using quiet patient_step [OF pat k eq c(2) le_refl] locked_keep [OF len c(3,4)] c by blast
  qed
  show thesis
  proof (cases "in_pc ?c")
    case Starting
    show thesis
      by (rule same) (use Starting bal tries in \<open>auto simp: inc_turn_def Let_def tries_ok_def\<close>)
  next
    case (Snapshot b u)
    have u: "u \<le> ?v" "u = ?v \<Longrightarrow> b = INITIAL_BALANCE + INCREMENT * int ?v" "in_attempt ?c \<le> u"
      using ok tries Snapshot by (auto simp: call_ok_def tries_ok_def)
    have v5: "?v \<le> 5" using v6 small Snapshot by simp
    show thesis
    proof (cases "row_locked ?cs \<or> u \<noteq> ?v")
      case True
      show thesis
      proof (cases "row_locked ?cs")
        case True
        show thesis by (rule same) (use True Snapshot tries in \<open>auto simp: inc_turn_def Let_def\<close>)
      next
        case False
        with True have "u < ?v" using u(1) by simp
        then have "next_attempt (in_attempt ?c) (sql_error ''40001'') = Some (in_attempt ?c + 1)" "in_attempt ?c + 1 \<le> ?v"
          using u(3) v5 by (auto simp: next_attempt_def isRetryableError_def sql_error_def MAX_RETRIES_def)
        then show thesis
          by (intro same) (use False True Snapshot in \<open>auto simp: inc_turn_def Let_def inc_error_def tries_ok_def\<close>)
      qed
    next
      case False
      have range: "int4 (b + INCREMENT)" "\<not> b + INCREMENT < 0"
        using u(2) False v5 by (simp_all add: int4_def INITIAL_BALANCE_def INCREMENT_def)
      have eq: "inc_step (Advance k) st =
          \<lparr>bal_db = bal_db st, bal_version = ?v, bal_calls = ?cs[k := ?c\<lparr>in_pc := Written (b + INCREMENT)\<rparr>]\<rparr>"
        using False Snapshot range by (simp add: step inc_turn_def Let_def)
      have "tries_ok ?v (?c\<lparr>in_pc := Written (b + INCREMENT)\<rparr>)" using u by (simp add: tries_ok_def)
      moreover have "inc_left (inc_step (Advance k) st) < inc_left st"
        using False v6 Snapshot locked_update [OF _ len] by (simp add: eq inc_left_def)
      ultimately show thesis using done1 patient_step [OF pat k eq] by simp
    qed
  next
    case (Written b)
    have eq: "inc_step (Advance k) st =
        \<lparr>bal_db = set_balance b (bal_db st), bal_version = ?v + 1, bal_calls = ?cs[k := ?c\<lparr>in_pc := Resolved\<rparr>]\<rparr>"
      using Written by (simp add: step inc_turn_def Let_def)
    have "row_locked ?cs" using Written nth_mem [OF len] by (auto simp: row_locked_iff)
    moreover have "\<not> row_locked (?cs[k := ?c\<lparr>in_pc := Resolved\<rparr>])"
      by (rule writer_unlocks [OF one len Written]) simp
    ultimately have "inc_left (inc_step (Advance k) st) < inc_left st"
      using v6 Written by (simp add: eq inc_left_def)
    moreover have "tries_ok (?v + 1) (?c\<lparr>in_pc := Resolved\<rparr>)" by (simp add: tries_ok_def)
    ultimately show thesis using done1 patient_step [OF pat k eq] by simp
  next
    case Pausing
    show thesis by (rule same) (use Pausing tries in \<open>auto simp: inc_turn_def Let_def tries_ok_def\<close>)
  next
    case Resolved
    show thesis by (rule same) (use Resolved tries in \<open>auto simp: inc_turn_def Let_def\<close>)
  next
    case (Failed e)
    with tries show thesis by (simp add: tries_ok_def)
  qed
qed


lemma inc_step_length [simp]: "length (bal_calls (inc_step e st)) = length (bal_calls st)"
  by (simp add: inc_step_def Let_def split: prod.split)

lemma inc_goal_turn:
  assumes "inc_goal st" shows "inc_step (Advance k) st = st"
proof (cases "k < length (bal_calls st)")
  case True
  with assms have "in_pc (bal_calls st ! k) = Resolved" by (simp add: inc_goal_def)
  then show ?thesis by (simp add: inc_step_def inc_turn_def)
qed (simp add: inc_step_def)

lemma inc_helper_exists:
  assumes "patient n st" and "\<not> inc_goal st"
  shows "\<exists>k < n. inc_helper k st \<and> inc_wait k st < 4"
proof -
  have "inc_pause v c < 4" for v c by (cases c) simp_all
  then have wait: "inc_wait k st < 4" for k by (simp add: inc_wait_def)
  have n: "length (bal_calls st) = n" using assms(1) by (simp add: patient_def)
  obtain k where k: "k < n" "in_pc (bal_calls st ! k) \<noteq> Resolved"
    using assms(2) n by (auto simp: inc_goal_def in_set_conv_nth)
  show ?thesis
  proof (cases "row_locked (bal_calls st)")
    case True
    then obtain l x where "l < n" "in_pc (bal_calls st ! l) = Written x" using n by (auto simp: row_locked_nth)
    with wait n show ?thesis by (auto simp: inc_helper_def)
  next
    case False
    with k wait n show ?thesis by (auto simp: inc_helper_def)
  qed
qed

lemma inc_helper_turn:
  assumes pat: "patient n st" and j: "j < n" and hp: "inc_helper k st"
  shows "inc_left (inc_step (Advance j) st) < inc_left st \<or> inc_helper k (inc_step (Advance j) st) \<and>
    inc_wait k (inc_step (Advance j) st) + (if j = k then 1 else 0) \<le> inc_wait k st"
  using pat j
proof (cases rule: inc_turn_cases)
  case (quiet c)
  have n: "length (bal_calls st) = n" using pat by (simp add: patient_def)
  show ?thesis
  proof (cases "j = k")
    case True
    with hp quiet n j show ?thesis by (auto simp: inc_helper_def inc_wait_def)
  next
    case False
    with hp quiet n show ?thesis by (simp add: inc_helper_def inc_wait_def)
  qed
qed simp

lemma inc_left_turn:
  assumes "patient n st" and "j < n"
  shows "patient n (inc_step (Advance j) st) \<and> inc_left (inc_step (Advance j) st) \<le> inc_left st"
  using assms
proof (cases rule: inc_turn_cases)
  case (quiet c)
  then show ?thesis by (simp add: inc_left_def)
qed simp

interpretation inc_fair: fair_turns "\<lambda>k. inc_step (Advance k)" n 4 "patient n" inc_goal inc_left inc_helper inc_wait for n
proof
  fix st j k
  assume pat: "patient n st"
  show "j < n \<Longrightarrow> patient n (inc_step (Advance j) st)" "j < n \<Longrightarrow> inc_left (inc_step (Advance j) st) \<le> inc_left st"
    using inc_left_turn [OF pat] by simp_all
  show "inc_goal st \<Longrightarrow> inc_goal (inc_step (Advance j) st)" by (simp add: inc_goal_turn)
  show "\<not> inc_goal st \<Longrightarrow> \<exists>k < n. inc_helper k st \<and> inc_wait k st < 4" by (rule inc_helper_exists [OF pat])
  show "j < n \<Longrightarrow> inc_helper k st \<Longrightarrow> inc_left (inc_step (Advance j) st) < inc_left st \<or>
      inc_helper k (inc_step (Advance j) st) \<and>
      inc_wait k (inc_step (Advance j) st) + (if j = k then 1 else 0) \<le> inc_wait k st"
    by (rule inc_helper_turn [OF pat])
qed

lemma resolved_all: "\<forall>c \<in> set cs. in_pc c = Resolved \<Longrightarrow> resolved cs = length cs"
  by (simp add: resolved_def)

text \<open>C17: At most six increments run concurrently and no statement fails for another reason than
  a conflict between them. A sweep is any interleaving in which every call has at least four
  turns. After more sweeps than two per call every call has resolved, none having exhausted its
  five retries, and the balance has grown by the increment of each.\<close>

theorem increments_all_succeed:
  assumes "balance_of d \<noteq> None" and "n \<le> 6"
    and "\<forall>ks \<in> set kss. sweep 4 n ks" and "2 * n < length kss"
  shows "(let st = fold inc_step (map Advance (concat kss)) (startIncrements n d) in
    (\<forall>c \<in> set (bal_calls st). in_pc c = Resolved) \<and>
    getFinalBalance (bal_db st) = Some (INITIAL_BALANCE + INCREMENT * int n))"
proof -
  let ?st = "startIncrements n d"
  define q where "q = fold inc_step (map Advance (concat kss)) ?st"
  have run: "q = fold (\<lambda>k. inc_step (Advance k)) (concat kss) ?st" by (simp add: q_def fold_map comp_def)
  have pat: "patient n ?st"
    using startIncrements_inv [OF assms(1), of n] assms(2)
    by (simp add: patient_def MAX_RETRIES_def) (simp add: startIncrements_def tries_ok_def)
  have "inc_left ?st < length kss"
    using assms(4) by (simp add: inc_left_def startIncrements_def row_locked_iff)
  then have goal: "inc_goal q" using inc_fair.sweeps_reach_goal [OF pat assms(3)] by (simp add: run)
  have "patient n q" using inc_fair.sweeps_inv [OF pat assms(3)] by (simp add: run)
  then have inv: "bal_inv q" "length (bal_calls q) = n" by (simp_all add: patient_def)
  with goal resolved_all [of "bal_calls q"] have "getFinalBalance (bal_db q) = Some (INITIAL_BALANCE + INCREMENT * int n)"
    by (simp add: inc_goal_def bal_inv_def getFinalBalance_def)
  with goal show ?thesis by (simp add: Let_def inc_goal_def q_def [symmetric])
qed

text \<open>The second call meets a conflict, and then its connection breaks.\<close>

lemma broken_increment:
  "resolved (bal_calls (fold inc_step [Advance 0, Advance 1, Advance 0, Advance 1, Advance 0, Advance 1,
     Advance 1, Abort 1 (sql_error ''08006'')] (startIncrements 2 sample_db))) = 1"
  by code_simp

lemma increments_never_lost_witness:
  "getFinalBalance (bal_db (fold inc_step [Advance 0, Advance 1, Advance 0, Advance 1, Advance 0, Advance 1,
     Advance 1, Abort 1 (sql_error ''08006'')] (startIncrements 2 sample_db))) = Some (INITIAL_BALANCE + INCREMENT)"
  (is "getFinalBalance (bal_db (fold inc_step ?es _)) = _")
proof -
  have bal: "balance_of sample_db \<noteq> None" by (simp add: balance_of_def sample_db_def empty_db_def USER_ID_def)
  from increments_never_lost [OF bal, of ?es 2] show ?thesis
    unfolding Let_def broken_increment by simp
qed

text \<open>The demonstration itself: two calls, and its check passes.\<close>

lemma increments_all_succeed_witness:
  "retry_demo_passed (bal_db (fold inc_step (map Advance (concat (replicate 5 [0, 1, 0, 1, 0, 1, 0, 1]))) (startIncrements 2 sample_db)))"
proof -
  have bal: "balance_of sample_db \<noteq> None" by (simp add: balance_of_def sample_db_def empty_db_def USER_ID_def)
  have "sweep 4 2 [0, 1, 0, 1, 0, 1, 0, 1]" by (auto simp: sweep_def less_2_cases_iff)
  then have sweeps: "\<forall>ks \<in> set (replicate 5 [0, 1, 0, 1, 0, 1, 0, 1]). sweep 4 2 ks" by simp
  have "(2 :: nat) \<le> 6" "2 * 2 < length (replicate 5 [0, 1, 0, 1, 0, 1, 0, 1 :: nat])" by simp_all
  from increments_all_succeed [OF bal this(1) sweeps this(2)] show ?thesis
    unfolding Let_def retry_demo_passed_def by (simp add: mult.commute del: fold_simps replicate.simps concat.simps)
qed

end
