(* ===== verification/Reporting.thy ===== *)
theory Reporting
  imports DbInvariant "HOL-Library.Multiset"
begin

text \<open>
  \<open>src/report.ts\<close>, the revenue of each product, and \<open>src/demo-nplus1.ts\<close>, two ways to load
  orders with their items and products. A query of the query builder is the list of rows that
  its SQL selects; text that SQL leaves unordered is in the order of the tables.
\<close>

section \<open>The revenue report\<close>

record revenue_row =
  rv_productId :: int
  rv_productName :: string
  rv_ordersCount :: int
  rv_unitsSold :: int
  rv_revenue :: int

text \<open>
  \<open>order_items JOIN products JOIN orders WHERE order.status != 'cancelled'\<close>. The value
  \<open>item.quantity * item.unit_price\<close> is an \<open>integer\<close> and out of its range an error; the sums
  are of type \<open>bigint\<close>, which no table of fewer than \<open>2 ^ 32\<close> rows leaves.
\<close>

definition sold :: "db \<Rightarrow> (product_row \<times> order_row \<times> order_item_row) list" where
  "sold d = concat (map (\<lambda>i.
     concat (map (\<lambda>p.
       map (\<lambda>ord. (p, ord, i))
         (filter (\<lambda>ord. o_id ord = oi_order_id i \<and> o_status ord \<noteq> Cancelled) (orders d)))
       (filter (\<lambda>p. p_id p = oi_product_id i) (products d))))
     (order_items d))"

definition amount :: "order_item_row \<Rightarrow> int" where
  "amount i = oi_quantity i * oi_unit_price i"

definition group_key :: "product_row \<times> order_row \<times> order_item_row \<Rightarrow> int \<times> string" where
  "group_key = (\<lambda>(p, _, _). (p_id p, p_name p))"

definition revenue_of :: "(product_row \<times> order_row \<times> order_item_row) list \<Rightarrow> int \<times> string \<Rightarrow> revenue_row" where
  "revenue_of rows k = (let rs = filter (\<lambda>r. group_key r = k) rows in
     \<lparr>rv_productId = fst k, rv_productName = snd k,
      rv_ordersCount = int (length (remdups (map (\<lambda>(_, ord, _). o_id ord) rs))),
      rv_unitsSold = sum_list (map (\<lambda>(_, _, i). oi_quantity i) rs),
      rv_revenue = sum_list (map (\<lambda>(_, _, i). amount i) rs)\<rparr>)"

definition revenue_report :: "(db, revenue_row list) cmd" where
  "revenue_report =
     cmd_bind (cmd_read sold) (\<lambda>rows.
     if \<exists>(_, _, i) \<in> set rows. \<not> int4 (amount i) then cmd_throw (Pg NumericValueOutOfRange)
     else cmd_return (sort_key (\<lambda>r. - rv_revenue r) (map (revenue_of rows) (remdups (map group_key rows)))))"

section \<open>Loading orders with their items\<close>

text \<open>The number of queries the logger has counted, and the database.\<close>

type_synonym logged = "nat \<times> db"

definition query :: "(db, 'a) cmd \<Rightarrow> (logged, 'a) cmd" where
  "query m = (\<lambda>(n, d). case m d of (r, d') \<Rightarrow> (r, (n + 1, d')))"

definition logger_reset :: "(logged, unit) cmd" where
  "logger_reset = cmd_write (\<lambda>(_, d). (0, d))"

definition createOrderIds :: "nat \<Rightarrow> int list" where
  "createOrderIds n = map (\<lambda>index. int index + 1) [0..<n]"

text \<open>\<open>WHERE order.id IN (\<dots>) ORDER BY order.id\<close>; an empty list makes no valid SQL.\<close>

definition orders_in :: "int list \<Rightarrow> (db, order_row list) cmd" where
  "orders_in ids =
     (if ids = [] then cmd_throw (JsError ''syntax error at or near )'')
      else cmd_read (\<lambda>d. sort_key o_id (filter (\<lambda>r. o_id r \<in> set ids) (orders d))))"

definition items_of :: "int \<Rightarrow> db \<Rightarrow> order_item_row list" where
  "items_of i d = sort_key oi_id (filter (\<lambda>r. oi_order_id r = i) (order_items d))"

definition product_by_id :: "int \<Rightarrow> db \<Rightarrow> product_row option" where
  "product_by_id i d = first_where (\<lambda>r. p_id r = i) (products d)"

definition findOneByOrFail :: "int \<Rightarrow> (db, product_row) cmd" where
  "findOneByOrFail i =
     cmd_bind (cmd_read (product_by_id i)) (\<lambda>r. case r of
         None \<Rightarrow> cmd_throw (JsError ''Could not find any entity of type Product'')
       | Some p \<Rightarrow> cmd_return p)"

type_synonym 'p loaded = "(order_row \<times> (order_item_row \<times> 'p) list) list"

text \<open>What the loops load is returned with the count, although the code only looks at the count.\<close>

definition naive_item :: "order_item_row \<Rightarrow> (order_item_row \<times> product_row) list \<Rightarrow>
    (logged, (order_item_row \<times> product_row) list) cmd" where
  "naive_item item acc =
     cmd_bind (query (findOneByOrFail (oi_product_id item))) (\<lambda>p. cmd_return (acc @ [(item, p)]))"

definition naive_order :: "order_row \<Rightarrow> product_row loaded \<Rightarrow> (logged, product_row loaded) cmd" where
  "naive_order ord acc =
     cmd_bind (query (cmd_read (items_of (o_id ord)))) (\<lambda>items.
     cmd_bind (cmd_fold naive_item items []) (\<lambda>loaded. cmd_return (acc @ [(ord, loaded)])))"

definition runNaiveDemo :: "int list \<Rightarrow> (logged, nat \<times> product_row loaded) cmd" where
  "runNaiveDemo orderIds =
     cmd_bind logger_reset (\<lambda>_.
     cmd_bind (query (orders_in orderIds)) (\<lambda>ords.
     cmd_bind (cmd_fold naive_order ords []) (\<lambda>loaded.
     cmd_bind (cmd_read fst) (\<lambda>queryCount. cmd_return (queryCount, loaded)))))"

text \<open>
  One query with two left joins, ordered by \<open>order.id\<close> and \<open>item.id\<close>; the rows of an order
  become one entity with its items.
\<close>

definition orders_joined :: "int list \<Rightarrow> (db, product_row option loaded) cmd" where
  "orders_joined ids =
     cmd_bind (orders_in ids) (\<lambda>ords.
     cmd_read (\<lambda>d. map (\<lambda>ord. (ord,
       map (\<lambda>item. (item, product_by_id (oi_product_id item) d)) (items_of (o_id ord) d))) ords))"

definition runOptimizedDemo :: "int list \<Rightarrow> (logged, nat \<times> product_row option loaded) cmd" where
  "runOptimizedDemo orderIds =
     cmd_bind logger_reset (\<lambda>_.
     cmd_bind (query (orders_joined orderIds)) (\<lambda>loaded.
     cmd_bind (cmd_read fst) (\<lambda>queryCount. cmd_return (queryCount, loaded))))"

definition runScenario :: "nat \<Rightarrow> (logged, nat \<times> nat \<times> nat) cmd" where
  "runScenario n =
     cmd_bind (runNaiveDemo (createOrderIds n)) (\<lambda>naive.
     cmd_bind (runOptimizedDemo (createOrderIds n)) (\<lambda>optimized.
     cmd_return (n, fst naive, fst optimized)))"

text \<open>\<open>main\<close>: both scenarios, and whether the optimized count is constant.\<close>

definition nplus1_demo :: "(logged, (nat \<times> nat \<times> nat) \<times> (nat \<times> nat \<times> nat) \<times> bool) cmd" where
  "nplus1_demo =
     cmd_bind (runScenario 5) (\<lambda>small.
     cmd_bind (runScenario 10) (\<lambda>large.
     cmd_return (small, large, snd (snd small) = snd (snd large))))"

section \<open>What the report says\<close>

text \<open>The items of orders that are not cancelled, and the line of a product over them.\<close>

definition live_item :: "db \<Rightarrow> order_item_row \<Rightarrow> bool" where
  "live_item d i \<longleftrightarrow> (\<exists>r \<in> set (orders d). o_id r = oi_order_id i \<and> o_status r \<noteq> Cancelled)"

definition live_items :: "db \<Rightarrow> order_item_row list" where
  "live_items d = filter (live_item d) (order_items d)"

definition product_line :: "db \<Rightarrow> product_row \<Rightarrow> revenue_row" where
  "product_line d p = (let is = filter (\<lambda>i. oi_product_id i = p_id p) (live_items d) in
     \<lparr>rv_productId = p_id p, rv_productName = p_name p,
      rv_ordersCount = int (card (oi_order_id ` set is)),
      rv_unitsSold = sum_list (map oi_quantity is),
      rv_revenue = sum_list (map amount is)\<rparr>)"

abbreviation item_of :: "product_row \<times> order_row \<times> order_item_row \<Rightarrow> order_item_row" where
  "item_of r \<equiv> snd (snd r)"

lemma filter_unique:
  "distinct (map k rs) \<Longrightarrow> r \<in> set rs \<Longrightarrow> k r = v \<Longrightarrow> filter (\<lambda>x. k x = v \<and> P x) rs = (if P r then [r] else [])"
proof (induction rs)
  case (Cons a rs)
  have none: "filter (\<lambda>x. k x = v \<and> P x) rs = []" if "k a = v"
    using Cons.prems(1) that by (auto simp: filter_empty_conv image_iff)
  show ?case
  proof (cases "a = r")
    case True
    with Cons.prems none show ?thesis by simp
  next
    case False
    with Cons.prems have "k a \<noteq> v" and "r \<in> set rs" by (auto simp: image_iff)
    with Cons show ?thesis by simp
  qed
qed simp

lemma wf_item_rows:
  assumes "wf_db d" and "i \<in> set (order_items d)"
  obtains p ord where "p \<in> set (products d)" "p_id p = oi_product_id i"
    "ord \<in> set (orders d)" "o_id ord = oi_order_id i"
  using assms unfolding wf_db_def items_ok_def ids_defs by (metis (no_types, lifting) imageE)

lemma sold_of_item:
  assumes "wf_db d" and "i \<in> set (order_items d)"
  shows "map item_of (concat (map (\<lambda>p. map (\<lambda>ord. (p, ord, i))
       (filter (\<lambda>ord. o_id ord = oi_order_id i \<and> o_status ord \<noteq> Cancelled) (orders d)))
       (filter (\<lambda>p. p_id p = oi_product_id i) (products d)))) = (if live_item d i then [i] else [])"
proof -
  obtain p ord where p: "p \<in> set (products d)" "p_id p = oi_product_id i"
    and ord: "ord \<in> set (orders d)" "o_id ord = oi_order_id i"
    using assms by (rule wf_item_rows)
  have "filter (\<lambda>p. p_id p = oi_product_id i) (products d) = [p]"
    using filter_unique [where P = "\<lambda>_. True", OF wf_keys(3) [OF assms(1)] p] by simp
  moreover note filter_unique [OF wf_keys(4) [OF assms(1)] ord, where P = "\<lambda>x. o_status x \<noteq> Cancelled"]
  moreover have "live_item d i \<longleftrightarrow> o_status ord \<noteq> Cancelled"
    using ord wf_keys(4) [OF assms(1)] unfolding live_item_def by (metis first_where_unique option.inject)
  ultimately show ?thesis by simp
qed

lemma filter_concat_map: "filter P xs = concat (map (\<lambda>x. if P x then [x] else []) xs)"
  by (induction xs) auto

lemma sold_items:
  assumes "wf_db d"
  shows "map item_of (sold d) = live_items d"
  unfolding sold_def live_items_def map_concat map_map comp_def filter_concat_map [of "live_item d"]
  by (intro arg_cong [where f = concat] map_cong refl)
    (rule sold_of_item [OF assms, unfolded map_concat map_map comp_def])

lemma sold_memD:
  assumes "(p, ord, i) \<in> set (sold d)"
  shows "p \<in> set (products d)" "p_id p = oi_product_id i" "o_id ord = oi_order_id i"
  using assms by (auto simp: sold_def)

text \<open>Sums over groups add up to the sum over all rows.\<close>

lemma sum_groups:
  fixes g :: "'r \<Rightarrow> int"
  assumes "distinct ks" and "set (map key rows) \<subseteq> set ks"
  shows "sum_list (map (\<lambda>k. sum_list (map g (filter (\<lambda>r. key r = k) rows))) ks) = sum_list (map g rows)"
  using assms(2)
proof (induction rows)
  case (Cons r rows)
  have "sum_list (map (\<lambda>k. sum_list (map g (filter (\<lambda>x. key x = k) (r # rows)))) ks)
      = sum_list (map (\<lambda>k. (if key r = k then g r else 0) + sum_list (map g (filter (\<lambda>x. key x = k) rows))) ks)"
    by (intro arg_cong [where f = sum_list] map_cong) auto
  also have "\<dots> = sum_list (map (\<lambda>k. if key r = k then g r else 0) ks) + sum_list (map g rows)"
    using Cons by (simp add: sum_list_addf)
  also have "sum_list (map (\<lambda>k. if key r = k then g r else 0) ks) = g r"
    using Cons.prems assms(1) by (simp add: sum_list_distinct_conv_sum_set)
  finally show ?case by simp
qed simp

lemma revenue_of_product:
  assumes "wf_db d" and p: "p \<in> set (products d)"
  shows "revenue_of (sold d) (p_id p, p_name p) = product_line d p"
proof -
  have key: "group_key r = (p_id p, p_name p) \<longleftrightarrow> oi_product_id (item_of r) = p_id p" if "r \<in> set (sold d)" for r
  proof -
    obtain q ord i where r: "r = (q, ord, i)" by (cases r) auto
    have "q = p" if "p_id q = p_id p"
      using sold_memD(1) \<open>r \<in> _\<close> r that p wf_keys(3) [OF assms(1)]
      by (metis first_where_unique option.inject)
    then show ?thesis using sold_memD(2) \<open>r \<in> _\<close> r by (auto simp: group_key_def)
  qed
  let ?rs = "filter (\<lambda>r. group_key r = (p_id p, p_name p)) (sold d)"
  have "?rs = filter (\<lambda>r. oi_product_id (item_of r) = p_id p) (sold d)"
    by (intro filter_cong refl key)
  then have rows: "map item_of ?rs = filter (\<lambda>i. oi_product_id i = p_id p) (live_items d)"
    by (simp add: sold_items [OF assms(1), symmetric] filter_map comp_def)
  have "map (\<lambda>(_, ord, _). o_id ord) ?rs = map (\<lambda>r. oi_order_id (item_of r)) ?rs"
    by (rule map_cong) (auto dest: sold_memD)
  then have ids: "map (\<lambda>(_, ord, _). o_id ord) ?rs = map oi_order_id (map item_of ?rs)"
    by (simp add: comp_def)
  have cols: "map (\<lambda>(_, _, i). h i) ?rs = map h (map item_of ?rs)" for h :: "order_item_row \<Rightarrow> int"
    by (simp add: comp_def case_prod_beta)
  show ?thesis
    by (simp only: revenue_of_def product_line_def Let_def ids cols rows fst_conv snd_conv)
      (simp add: length_remdups_card_conv)
qed

definition selling :: "db \<Rightarrow> product_row set" where
  "selling d = {p \<in> set (products d). \<exists>i \<in> set (live_items d). oi_product_id i = p_id p}"

lemma sold_keys:
  assumes "wf_db d"
  shows "set (map group_key (sold d)) = (\<lambda>p. (p_id p, p_name p)) ` selling d"
proof (intro set_eqI iffI)
  fix k
  assume "k \<in> set (map group_key (sold d))"
  then obtain p ord i where r: "(p, ord, i) \<in> set (sold d)" and k: "k = (p_id p, p_name p)"
    by (auto simp: group_key_def)
  have "i \<in> set (live_items d)"
    using r by (force simp: sold_items [OF assms, symmetric])
  with k sold_memD(1,2) [OF r] show "k \<in> (\<lambda>p. (p_id p, p_name p)) ` selling d"
    by (fastforce simp: selling_def)
next
  fix k
  assume "k \<in> (\<lambda>p. (p_id p, p_name p)) ` selling d"
  then obtain p i where p: "p \<in> set (products d)" "k = (p_id p, p_name p)"
    and i: "i \<in> set (live_items d)" "oi_product_id i = p_id p" by (auto simp: selling_def)
  then obtain r where r: "r \<in> set (sold d)" "item_of r = i"
    by (auto simp: sold_items [OF assms, symmetric])
  moreover obtain q ord where q: "r = (q, ord, i)" using r(2) by (metis prod.collapse)
  ultimately have "q = p"
    using i p wf_keys(3) [OF assms] sold_memD(1,2) [of q ord i d] by (metis first_where_unique option.inject)
  with q r p show "k \<in> set (map group_key (sold d))" by (force simp: group_key_def)
qed

lemma revenue_rows:
  assumes "wf_db d"
  shows "set (map (revenue_of (sold d)) (remdups (map group_key (sold d)))) = product_line d ` selling d"
  using sold_keys [OF assms] revenue_of_product [OF assms]
  by (simp add: image_image selling_def)

lemma revenue_total:
  assumes "wf_db d"
  shows "sum_list (map rv_revenue (map (revenue_of (sold d)) (remdups (map group_key (sold d)))))
    = sum_list (map amount (live_items d))"
proof -
  have "sum_list (map (\<lambda>k. sum_list (map (\<lambda>r. amount (item_of r)) (filter (\<lambda>r. group_key r = k) (sold d))))
      (remdups (map group_key (sold d)))) = sum_list (map (\<lambda>r. amount (item_of r)) (sold d))"
    by (rule sum_groups) auto
  then show ?thesis
    by (simp add: sold_items [OF assms, symmetric] revenue_of_def Let_def comp_def case_prod_beta')
qed

lemma revenue_overflow:
  assumes "wf_db d"
  shows "(\<exists>(_, _, i) \<in> set (sold d). \<not> int4 (amount i)) \<longleftrightarrow> (\<exists>i \<in> set (live_items d). \<not> int4 (amount i))"
  by (force simp: sold_items [OF assms, symmetric])

text \<open>C33: the revenue report of a well-formed database leaves the database unchanged and has
  exactly one row per product with an item in an order that is not cancelled; the row counts the
  distinct orders and sums quantities and amounts, rows come by descending revenue, and the
  revenues add up to the total amount of all items that are not cancelled.\<close>
theorem report_correct:
  assumes "wf_db d" and "revenue_report d = (Inr rs, d')"
  shows "d' = d \<and> sorted_wrt (\<lambda>a b. rv_revenue b \<le> rv_revenue a) rs \<and> distinct (map rv_productId rs) \<and>
    set rs = product_line d ` selling d \<and> sum_list (map rv_revenue rs) = sum_list (map amount (live_items d))"
proof -
  let ?rows = "map (revenue_of (sold d)) (remdups (map group_key (sold d)))"
  have d: "d' = d" and rs: "rs = sort_key (\<lambda>r. - rv_revenue r) ?rows"
    using assms(2) by (auto simp: revenue_report_def cmd_bind_Inr_iff cmd_simps split: if_splits)
  have sorted: "sorted_wrt (\<lambda>a b. rv_revenue b \<le> rv_revenue a) rs"
    using sorted_sort_key [of "\<lambda>r. - rv_revenue r" ?rows] unfolding rs sorted_map by simp
  have perm: "mset rs = mset ?rows" by (simp add: rs)
  have "set rs = product_line d ` selling d"
    using revenue_rows [OF assms(1)] by (simp only: rs set_sort)
  moreover have "sum_list (map rv_revenue rs) = sum_list (map amount (live_items d))"
    using revenue_total [OF assms(1)] perm by (metis mset_map sum_mset_sum_list)
  moreover have "inj_on fst (set (map group_key (sold d)))"
    unfolding sold_keys [OF assms(1)] inj_on_def selling_def
    using wf_keys(3) [OF assms(1)] by (auto simp: distinct_map inj_on_def)
  then have "distinct (map rv_productId ?rows)"
    by (simp add: comp_def revenue_of_def Let_def distinct_map)
  then have "distinct (map rv_productId rs)"
    using perm by (metis mset_eq_imp_distinct_iff mset_map)
  ultimately show ?thesis using d sorted by blast
qed

section \<open>The two ways to load orders agree\<close>

lemma query_run: "query m (n, d) = (fst (m d), (n + 1, snd (m d)))"
  by (simp add: query_def split: prod.split)

lemma naive_items_run:
  assumes "\<forall>i \<in> set is. \<exists>p. product_by_id (oi_product_id i) d = Some p"
  shows "cmd_fold naive_item is acc (n, d) =
    (Inr (acc @ map (\<lambda>i. (i, the (product_by_id (oi_product_id i) d))) is), (n + length is, d))"
  using assms
proof (induction "is" arbitrary: acc n)
  case (Cons i "is")
  then show ?case
    by (auto simp: naive_item_def findOneByOrFail_def query_run cmd_bind_run cmd_simps)
qed (simp add: cmd_simps)

lemma product_by_id_item:
  assumes "wf_db d" and "i \<in> set (order_items d)"
  shows "\<exists>p. product_by_id (oi_product_id i) d = Some p"
proof -
  obtain p where "p \<in> set (products d)" "p_id p = oi_product_id i"
    using assms by (rule wf_item_rows)
  then show ?thesis
    using first_where_unique [OF wf_keys(3) [OF assms(1)], of p] by (auto simp: product_by_id_def)
qed

lemma items_of_set: "set (items_of k d) \<subseteq> set (order_items d)"
  by (auto simp: items_of_def)

definition load_order :: "db \<Rightarrow> order_row \<Rightarrow> order_row \<times> (order_item_row \<times> product_row option) list" where
  "load_order d ord = (ord, map (\<lambda>i. (i, product_by_id (oi_product_id i) d)) (items_of (o_id ord) d))"

definition naive_load :: "db \<Rightarrow> order_row \<Rightarrow> order_row \<times> (order_item_row \<times> product_row) list" where
  "naive_load d ord = (ord, map (\<lambda>i. (i, the (product_by_id (oi_product_id i) d))) (items_of (o_id ord) d))"

definition naive_cost :: "db \<Rightarrow> order_row list \<Rightarrow> nat" where
  "naive_cost d ords = length ords + sum_list (map (\<lambda>r. length (items_of (o_id r) d)) ords)"

definition joined_form :: "product_row loaded \<Rightarrow> product_row option loaded" where
  "joined_form = map (\<lambda>(ord, is). (ord, map (\<lambda>(i, p). (i, Some p)) is))"

lemma naive_orders_run:
  assumes "wf_db d"
  shows "cmd_fold naive_order ords acc (n, d) = (Inr (acc @ map (naive_load d) ords), (n + naive_cost d ords, d))"
proof (induction ords arbitrary: acc n)
  case (Cons ord ords)
  have "\<forall>i \<in> set (items_of (o_id ord) d). \<exists>p. product_by_id (oi_product_id i) d = Some p"
    using product_by_id_item [OF assms] items_of_set by blast
  from naive_items_run [OF this, of "[]" "n + 1"]
  have "naive_order ord acc (n, d) =
      (Inr (acc @ [naive_load d ord]), (n + 1 + length (items_of (o_id ord) d), d))"
    by (simp add: naive_order_def naive_load_def query_run cmd_bind_run cmd_simps)
  then show ?case
    by (simp add: cmd_bind_run Cons.IH naive_cost_def)
qed (simp add: cmd_simps naive_cost_def)

lemma joined_naive_load:
  assumes "wf_db d"
  shows "joined_form (map (naive_load d) ords) = map (load_order d) ords"
  using product_by_id_item [OF assms] items_of_set
  by (fastforce simp: joined_form_def naive_load_def load_order_def)

lemma nplus1_run:
  assumes "wf_db d" and "ids \<noteq> []"
  shows "\<exists>ords loaded. orders_in ids d = (Inr ords, d) \<and>
    runNaiveDemo ids (n, d) = (Inr (1 + naive_cost d ords, loaded), (1 + naive_cost d ords, d)) \<and>
    runOptimizedDemo ids (m, d) = (Inr (1, joined_form loaded), (1, d))"
proof -
  obtain ords where ords: "orders_in ids d = (Inr ords, d)"
    using assms(2) by (simp add: orders_in_def cmd_simps)
  have "runNaiveDemo ids (n, d) =
      (Inr (1 + naive_cost d ords, map (naive_load d) ords), (1 + naive_cost d ords, d))"
    using ords naive_orders_run [OF assms(1), of ords "[]" 1]
    by (simp add: runNaiveDemo_def logger_reset_def query_run cmd_bind_run cmd_simps)
  moreover have "runOptimizedDemo ids (m, d) = (Inr (1, joined_form (map (naive_load d) ords)), (1, d))"
    unfolding joined_naive_load [OF assms(1)] using ords
    by (simp add: runOptimizedDemo_def logger_reset_def orders_joined_def query_run cmd_bind_run cmd_simps
        load_order_def [abs_def])
  ultimately show ?thesis using ords by blast
qed

text \<open>Both scenarios of the demonstration count one query for the joined load.\<close>

lemma nplus1_demo_constant:
  assumes "wf_db d"
  shows "\<exists>small large d'. nplus1_demo (n, d) = (Inr (small, large, True), d') \<and>
    snd (snd small) = 1 \<and> snd (snd large) = 1"
proof -
  have run: "\<exists>b. runScenario k (m, d) = (Inr (k, b, 1), (1, d))" if "0 < k" for k m
  proof -
    have ids: "createOrderIds k \<noteq> []" using that by (simp add: createOrderIds_def)
    obtain ords loaded where "runNaiveDemo (createOrderIds k) (m, d) =
        (Inr (1 + naive_cost d ords, loaded), (1 + naive_cost d ords, d))"
      using nplus1_run [OF assms ids, of m 0] by blast
    moreover obtain l where "runOptimizedDemo (createOrderIds k) (1 + naive_cost d ords, d) = (Inr (1, l), (1, d))"
      using nplus1_run [OF assms ids, of 0] by blast
    ultimately show ?thesis by (simp add: runScenario_def cmd_bind_run cmd_simps)
  qed
  obtain b where "runScenario 5 (n, d) = (Inr (5, b, 1), (1, d))" using run [of 5 n] by auto
  moreover obtain c where "runScenario 10 (1, d) = (Inr (10, c, 1), (1, d))" using run [of 10 1] by auto
  ultimately show ?thesis by (simp add: nplus1_demo_def cmd_bind_run cmd_simps)
qed

text \<open>C34: on a well-formed database and a non-empty list of identifiers the loop over orders and items
  and the joined query load the same orders, items and products; the loop runs one query, one more per
  order and one more per item, the joined query is one query whatever the number of orders.\<close>
theorem nplus1_equivalent:
  assumes "wf_db d" and "ids \<noteq> []"
  shows "\<exists>ords loaded. orders_in ids d = (Inr ords, d) \<and>
    runNaiveDemo ids (n, d) = (Inr (1 + naive_cost d ords, loaded), (1 + naive_cost d ords, d)) \<and>
    runOptimizedDemo ids (m, d) = (Inr (1, joined_form loaded), (1, d))"
  by (rule nplus1_run [OF assms])

section \<open>Evaluation\<close>

definition sales_db :: db where
  "sales_db = sample_db\<lparr>
     orders := [
       \<lparr>o_id = 1, o_user_id = 1, o_status = Created, o_total_amount = 230\<rparr>,
       \<lparr>o_id = 2, o_user_id = 1, o_status = Cancelled, o_total_amount = 100\<rparr>,
       \<lparr>o_id = 3, o_user_id = 2, o_status = Paid, o_total_amount = 300\<rparr>],
     order_items := [
       \<lparr>oi_id = 1, oi_order_id = 1, oi_product_id = 2, oi_quantity = 1, oi_unit_price = 30\<rparr>,
       \<lparr>oi_id = 2, oi_order_id = 1, oi_product_id = 1, oi_quantity = 2, oi_unit_price = 100\<rparr>,
       \<lparr>oi_id = 3, oi_order_id = 2, oi_product_id = 1, oi_quantity = 1, oi_unit_price = 100\<rparr>,
       \<lparr>oi_id = 4, oi_order_id = 3, oi_product_id = 1, oi_quantity = 3, oi_unit_price = 100\<rparr>]\<rparr>"

lemma wf_sales_db: "wf_db sales_db"
  using wf_sample_db
  by (simp add: wf_db_def sales_db_def sample_db_def empty_db_def orders_ok_def items_ok_def tasks_ok_def
      outbox_ok_def processed_ok_def effects_ok_def idem_ok_def refresh_ok_def ids_defs int4_def)

theorem report_correct_witness:
  "fst (revenue_report sales_db) = Inr [
     \<lparr>rv_productId = 1, rv_productName = ''Bag'', rv_ordersCount = 2, rv_unitsSold = 5, rv_revenue = 500\<rparr>,
     \<lparr>rv_productId = 2, rv_productName = ''Hub'', rv_ordersCount = 1, rv_unitsSold = 1, rv_revenue = 30\<rparr>]
   \<and> sum_list (map amount (live_items sales_db)) = 530"
proof -
  have eval: "fst (revenue_report sales_db) = Inr [
     \<lparr>rv_productId = 1, rv_productName = ''Bag'', rv_ordersCount = 2, rv_unitsSold = 5, rv_revenue = 500\<rparr>,
     \<lparr>rv_productId = 2, rv_productName = ''Hub'', rv_ordersCount = 1, rv_unitsSold = 1, rv_revenue = 30\<rparr>]"
    by code_simp
  have "sum_list (map rv_revenue [
     \<lparr>rv_productId = 1, rv_productName = ''Bag'', rv_ordersCount = 2, rv_unitsSold = 5, rv_revenue = 500\<rparr>,
     \<lparr>rv_productId = 2, rv_productName = ''Hub'', rv_ordersCount = 1, rv_unitsSold = 1, rv_revenue = 30\<rparr>])
    = sum_list (map amount (live_items sales_db))"
    using report_correct [OF wf_sales_db prod_eqI [where q = "(x, y)" for x y, simplified, OF eval refl]] by blast
  with eval show ?thesis by simp
qed

theorem nplus1_equivalent_witness:
  "\<exists>loaded. runNaiveDemo [1, 2] (0, sales_db) = (Inr (6, loaded), (6, sales_db)) \<and>
     runOptimizedDemo [1, 2] (7, sales_db) = (Inr (1, joined_form loaded), (1, sales_db))"
proof -
  have "(case orders_in [1, 2] sales_db of (Inr ords, _) \<Rightarrow> naive_cost sales_db ords = 5 | _ \<Rightarrow> False)"
    by code_simp
  then show ?thesis using nplus1_equivalent [OF wf_sales_db, of "[1, 2]" 0 7] by auto
qed

end
