(* ===== verification/Outbox.thy ===== *)
theory Outbox
  imports Orders
begin

text \<open>
  The transactional outbox and its consumer: \<open>src/outbox/outbox-relay.ts\<close> publishes the
  unpublished rows of a batch and marks them, \<open>src/rabbitmq/order-placed.consumer.ts\<close>
  applies each event once with the help of the \<open>processed_messages\<close> table.

  The state of the relay is the database and a broker \<open>'b\<close>; a rollback undoes the
  database's part only. Rows other relays hold locked are skipped; they are an argument.
\<close>

section \<open>The relay\<close>

text \<open>\<open>ORDER BY created_at, id\<close>\<close>

datatype outbox_pos = OutboxPos (pos_created_at: int) (pos_id: int)

instantiation outbox_pos :: linorder
begin

definition less_eq_outbox_pos :: "outbox_pos \<Rightarrow> outbox_pos \<Rightarrow> bool" where
  "less_eq_outbox_pos x y \<longleftrightarrow> pos_created_at x < pos_created_at y \<or>
     pos_created_at x = pos_created_at y \<and> pos_id x \<le> pos_id y"

definition less_outbox_pos :: "outbox_pos \<Rightarrow> outbox_pos \<Rightarrow> bool" where
  "less_outbox_pos x y \<longleftrightarrow> pos_created_at x < pos_created_at y \<or>
     pos_created_at x = pos_created_at y \<and> pos_id x < pos_id y"

instance
  by intro_classes (auto simp: less_eq_outbox_pos_def less_outbox_pos_def outbox_pos.expand)

end

definition outbox_pos :: "outbox_row \<Rightarrow> outbox_pos" where
  "outbox_pos r = OutboxPos (ob_created_at r) (ob_id r)"

definition unpublished :: "db \<Rightarrow> outbox_row list" where
  "unpublished d = sort_key outbox_pos (filter (\<lambda>r. ob_published_at r = None) (outbox d))"

text \<open>\<open>SELECT \<dots> FOR UPDATE SKIP LOCKED LIMIT $1\<close>\<close>

definition select_batch :: "(int \<Rightarrow> bool) \<Rightarrow> int \<Rightarrow> (db, outbox_row list) cmd" where
  "select_batch locked batchSize =
     cmd_bind (int8_param batchSize) (\<lambda>_.
     if batchSize < 0 then cmd_throw (Pg InvalidRowCountInLimit)
     else cmd_read (\<lambda>d. take (nat batchSize) (filter (\<lambda>r. \<not> locked (ob_id r)) (unpublished d))))"

definition bump_attempts :: "int \<Rightarrow> (db, unit) cmd" where
  "bump_attempts i =
     cmd_bind (cmd_read (\<lambda>d. \<forall>r \<in> set (outbox d). ob_id r = i \<longrightarrow> int4 (ob_attempts r + 1))) (\<lambda>fits.
     cmd_bind (cmd_assert fits (Pg NumericValueOutOfRange)) (\<lambda>_.
     cmd_write (outbox_update (update_where (\<lambda>r. ob_id r = i) (\<lambda>r. r\<lparr>ob_attempts := ob_attempts r + 1\<rparr>)))))"

definition mark_published :: "int \<Rightarrow> int \<Rightarrow> (db, unit) cmd" where
  "mark_published now i =
     cmd_write (outbox_update (update_where (\<lambda>r. ob_id r = i) (\<lambda>r. r\<lparr>ob_published_at := Some now\<rparr>)))"

record relay_stats =
  rs_selected :: int
  rs_published :: int
  rs_markedPublished :: int

definition relay_row ::
  "(jsval \<Rightarrow> ('b, unit) cmd) \<Rightarrow> int \<Rightarrow> bool \<Rightarrow> outbox_row \<Rightarrow> relay_stats \<Rightarrow> (db \<times> 'b, relay_stats) cmd" where
  "relay_row publish now crashAfterPublish row stats =
     cmd_bind (on_fst (bump_attempts (ob_id row))) (\<lambda>_.
     cmd_bind (on_snd (publish (ob_payload row))) (\<lambda>_.
     if crashAfterPublish
     then cmd_throw (JsError ''Simulated relay crash after publish before published_at update'')
     else cmd_bind (on_fst (mark_published now (ob_id row))) (\<lambda>_.
       cmd_return (stats\<lparr>rs_published := rs_published stats + 1,
                         rs_markedPublished := rs_markedPublished stats + 1\<rparr>))))"

definition DEFAULT_BATCH_SIZE :: int where "DEFAULT_BATCH_SIZE = 10"

record relay_options =
  ro_batchSize :: "int option"
  ro_crashAfterPublish :: bool

definition relay_rollback :: "db \<times> 'b \<Rightarrow> db \<times> 'b \<Rightarrow> db \<times> 'b" where
  "relay_rollback before after = (rollback (fst before) (fst after), snd after)"

definition relayOutboxBatch ::
  "(int \<Rightarrow> bool) \<Rightarrow> (jsval \<Rightarrow> ('b, unit) cmd) \<Rightarrow> int \<Rightarrow> relay_options \<Rightarrow> (db \<times> 'b, relay_stats) cmd" where
  "relayOutboxBatch locked publish now options =
     (let batchSize = (case ro_batchSize options of None \<Rightarrow> DEFAULT_BATCH_SIZE | Some n \<Rightarrow> n)
      in cmd_transaction relay_rollback (
         cmd_bind (on_fst (select_batch locked batchSize)) (\<lambda>rows.
         cmd_fold (relay_row publish now (ro_crashAfterPublish options)) rows
           \<lparr>rs_selected = int (length rows), rs_published = 0, rs_markedPublished = 0\<rparr>)))"

section \<open>The consumer\<close>

definition CONSUMER_NAME :: string where "CONSUMER_NAME = ''order-placed-consumer''"

text \<open>How the database driver passes a JSON value as a text or a \<open>bigint\<close> parameter.\<close>

record pg_driver =
  pg_text :: "jsval \<Rightarrow> string"
  pg_bigint :: "jsval \<Rightarrow> err + int"

definition inbox_gate :: "string \<Rightarrow> db \<Rightarrow> bool \<times> db" where
  "inbox_gate message_id d =
     (let r = \<lparr>pm_message_id = message_id, pm_consumer = CONSUMER_NAME\<rparr>
      in if r \<in> set (processed d) then (False, d)
         else (True, d\<lparr>processed := processed d @ [r]\<rparr>))"

definition insert_effect :: "string \<Rightarrow> int \<Rightarrow> string \<Rightarrow> (db, unit) cmd" where
  "insert_effect message_id order_id event_type =
     cmd_bind (varchar 150 message_id) (\<lambda>_.
     cmd_bind (varchar 150 event_type) (\<lambda>_.
     cmd_write (\<lambda>d. if message_id \<in> ef_message_id ` set (effects d) then d
       else d\<lparr>effects := effects d @ [\<lparr>ef_message_id = message_id, ef_order_id = order_id,
                                     ef_event_type = event_type\<rparr>]\<rparr>)))"

datatype process_result = Applied | Skipped

definition processOrderPlacedEvent :: "pg_driver \<Rightarrow> jsval \<Rightarrow> (db, process_result) cmd" where
  "processOrderPlacedEvent drv event = transaction (
     cmd_bind (varchar 150 (pg_text drv (opt_prop event ''eventId''))) (\<lambda>_.
     cmd_bind (cmd_gate (inbox_gate (pg_text drv (opt_prop event ''eventId'')))) (\<lambda>fresh.
     if \<not> fresh then cmd_return Skipped
     else
       cmd_bind (cmd_lift (get_prop (opt_prop event ''data'') ''orderId'')) (\<lambda>orderId.
       cmd_bind (cmd_lift (pg_bigint drv orderId)) (\<lambda>i.
       cmd_bind (insert_effect (pg_text drv (opt_prop event ''eventId'')) i
         (pg_text drv (opt_prop event ''type''))) (\<lambda>_.
       cmd_return Applied))))))"

text \<open>\<open>JSON.parse\<close> of the content gave \<open>parsed\<close>, or failed.\<close>

definition parseOrderPlacedEvent :: "jsval option \<Rightarrow> err + jsval" where
  "parseOrderPlacedEvent content = (case content of
       None \<Rightarrow> Inl (JsError ''SyntaxError'')
     | Some parsed \<Rightarrow> (case get_prop parsed ''eventId'' of
           Inl e \<Rightarrow> Inl e
         | Inr eventId \<Rightarrow>
             if \<not> truthy eventId \<or> opt_prop parsed ''type'' \<noteq> Str ''order.placed''
                \<or> \<not> truthy (opt_prop parsed ''occurredAt'')
                \<or> \<not> truthy (opt_prop (opt_prop parsed ''data'') ''orderId'')
             then Inl (JsError ''Invalid order.placed event'')
             else Inr parsed))"

record consumer_stats =
  cs_delivered :: int
  cs_effect :: int
  cs_skipped :: int
  cs_acked :: int

datatype disposition = Ack | Nack_dead_letter

text \<open>
  The consumer callback. A \<open>null\<close> message (the broker cancelled the consumer) is ignored;
  \<open>onMessage\<close> is the caller's hook on a state of its own.
\<close>

definition handle_message ::
  "pg_driver \<Rightarrow> (jsval \<Rightarrow> process_result \<Rightarrow> ('c, unit) cmd) option \<Rightarrow> jsval option
     \<Rightarrow> (db \<times> consumer_stats \<times> 'c, unit) cmd" where
  "handle_message drv onMessage content =
     cmd_bind (cmd_lift (parseOrderPlacedEvent content)) (\<lambda>event.
     cmd_bind (on_fst (processOrderPlacedEvent drv event)) (\<lambda>result.
     cmd_bind (on_snd (on_fst (cmd_write (\<lambda>st. case result of
         Applied \<Rightarrow> st\<lparr>cs_effect := cs_effect st + 1\<rparr>
       | Skipped \<Rightarrow> st\<lparr>cs_skipped := cs_skipped st + 1\<rparr>)))) (\<lambda>_.
     case onMessage of
       None \<Rightarrow> cmd_return ()
     | Some hook \<Rightarrow> on_snd (on_snd (hook event result)))))"

definition consume ::
  "pg_driver \<Rightarrow> (jsval \<Rightarrow> process_result \<Rightarrow> ('c, unit) cmd) option \<Rightarrow> jsval option option
     \<Rightarrow> db \<times> consumer_stats \<times> 'c \<Rightarrow> disposition option \<times> (db \<times> consumer_stats \<times> 'c)" where
  "consume drv onMessage message s = (case message of
       None \<Rightarrow> (None, s)
     | Some content \<Rightarrow> (case s of (d, st, c) \<Rightarrow>
         (case handle_message drv onMessage content (d, st\<lparr>cs_delivered := cs_delivered st + 1\<rparr>, c) of
            (Inl e, s') \<Rightarrow> (Some Nack_dead_letter, s')
          | (Inr _, (d', st', c')) \<Rightarrow> (Some Ack, (d', st'\<lparr>cs_acked := cs_acked st' + 1\<rparr>, c')))))"

fun consume_all ::
  "pg_driver \<Rightarrow> (jsval \<Rightarrow> process_result \<Rightarrow> ('c, unit) cmd) option \<Rightarrow> jsval option list
     \<Rightarrow> db \<times> consumer_stats \<times> 'c \<Rightarrow> disposition list \<times> (db \<times> consumer_stats \<times> 'c)" where
  "consume_all drv onMessage [] s = ([], s)"
| "consume_all drv onMessage (m # ms) s =
     (let (x, s1) = consume drv onMessage (Some m) s; (xs, s2) = consume_all drv onMessage ms s1
      in (the x # xs, s2))"

interpretation inbox: once_gate inbox_gate
    "\<lambda>d. {m. \<lparr>pm_message_id = m, pm_consumer = CONSUMER_NAME\<rparr> \<in> set (processed d)}"
  by unfold_locales (auto simp: inbox_gate_def Let_def)

section \<open>What a relay run does\<close>

definition publish_all :: "(jsval \<Rightarrow> ('b, unit) cmd) \<Rightarrow> jsval list \<Rightarrow> ('b, unit) cmd" where
  "publish_all publish ms = cmd_fold (\<lambda>m _. publish m) ms ()"

definition publish_mark :: "int \<Rightarrow> outbox_row \<Rightarrow> outbox_row" where
  "publish_mark now r = r\<lparr>ob_published_at := Some now, ob_attempts := ob_attempts r + 1\<rparr>"

definition mark_rows :: "int \<Rightarrow> int set \<Rightarrow> db \<Rightarrow> db" where
  "mark_rows now ids d = d\<lparr>outbox := update_where (\<lambda>r. ob_id r \<in> ids) (publish_mark now) (outbox d)\<rparr>"

definition batch_size :: "relay_options \<Rightarrow> int" where
  "batch_size options = (case ro_batchSize options of None \<Rightarrow> DEFAULT_BATCH_SIZE | Some n \<Rightarrow> n)"

definition batch :: "(int \<Rightarrow> bool) \<Rightarrow> relay_options \<Rightarrow> db \<Rightarrow> outbox_row list" where
  "batch locked options d = take (nat (batch_size options)) (filter (\<lambda>r. \<not> locked (ob_id r)) (unpublished d))"

lemma publish_mark_simps [simp]:
  "ob_id (publish_mark now r) = ob_id r" "ob_event_id (publish_mark now r) = ob_event_id r"
  "ob_payload (publish_mark now r) = ob_payload r" "ob_published_at (publish_mark now r) = Some now"
  "ob_attempts (publish_mark now r) = ob_attempts r + 1" "ob_created_at (publish_mark now r) = ob_created_at r"
  by (simp_all add: publish_mark_def)

lemma mark_rows_empty [simp]: "mark_rows now {} d = d"
  by (simp add: mark_rows_def update_where_id)

lemma mark_rows_insert:
  assumes "i \<notin> ids" shows "mark_rows now ids (mark_rows now {i} d) = mark_rows now (insert i ids) d"
proof -
  have "update_where (\<lambda>r. ob_id r \<in> ids) (publish_mark now) (update_where (\<lambda>r. ob_id r \<in> {i}) (publish_mark now) rs) =
      update_where (\<lambda>r. ob_id r \<in> insert i ids) (publish_mark now) rs" for rs
    using assms by (induction rs) auto
  then show ?thesis by (simp add: mark_rows_def)
qed

lemma bump_attempts_run:
  "bump_attempts i d = (if \<forall>r \<in> set (outbox d). ob_id r = i \<longrightarrow> int4 (ob_attempts r + 1)
     then (Inr (), d\<lparr>outbox := update_where (\<lambda>r. ob_id r = i) (\<lambda>r. r\<lparr>ob_attempts := ob_attempts r + 1\<rparr>) (outbox d)\<rparr>)
     else (Inl (Pg NumericValueOutOfRange), d))"
  by (cases d) (simp add: bump_attempts_def cmd_bind_run cmd_simps)

lemma mark_published_run:
  "mark_published now i d = (Inr (), d\<lparr>outbox := update_where (\<lambda>r. ob_id r = i) (\<lambda>r. r\<lparr>ob_published_at := Some now\<rparr>) (outbox d)\<rparr>)"
  by (cases d) (simp add: mark_published_def cmd_simps)

lemma relay_row_run:
  "relay_row publish now crash row st (d, b) =
    (if \<forall>r \<in> set (outbox d). ob_id r = ob_id row \<longrightarrow> int4 (ob_attempts r + 1)
     then (case publish (ob_payload row) b of
         (Inl e, b') \<Rightarrow> (Inl e, (fst (snd (on_fst (bump_attempts (ob_id row)) (d, b))), b'))
       | (Inr _, b') \<Rightarrow> if crash
           then (Inl (JsError ''Simulated relay crash after publish before published_at update''),
                 (fst (snd (on_fst (bump_attempts (ob_id row)) (d, b))), b'))
           else (Inr (st\<lparr>rs_published := rs_published st + 1, rs_markedPublished := rs_markedPublished st + 1\<rparr>),
                 (mark_rows now {ob_id row} d, b')))
     else (Inl (Pg NumericValueOutOfRange), (d, b)))"
proof -
  have "update_where (\<lambda>r. ob_id r = i) (\<lambda>r. r\<lparr>ob_published_at := Some now\<rparr>)
      (update_where (\<lambda>r. ob_id r = i) (\<lambda>r. r\<lparr>ob_attempts := ob_attempts r + 1\<rparr>) rs) =
      update_where (\<lambda>r. ob_id r \<in> {i}) (publish_mark now) rs" for i and rs :: "outbox_row list"
    by (induction rs) (auto simp: publish_mark_def)
  then show ?thesis
    by (auto simp: relay_row_def cmd_bind_run cmd_simps bump_attempts_run mark_published_run mark_rows_def
        split: prod.splits sum.splits)
qed

lemma relay_rows_Inr:
  assumes "cmd_fold (relay_row publish now crash) rows st (d, b) = (Inr st', (d', b'))" and "distinct (map ob_id rows)"
  shows "(crash \<longrightarrow> rows = []) \<and> publish_all publish (map ob_payload rows) b = (Inr (), b') \<and>
    d' = mark_rows now (ob_id ` set rows) d \<and>
    st' = st\<lparr>rs_published := rs_published st + int (length rows),
             rs_markedPublished := rs_markedPublished st + int (length rows)\<rparr>"
  using assms
proof (induction rows arbitrary: st d b)
  case Nil
  then show ?case by (cases st) (simp add: cmd_simps publish_all_def)
next
  case (Cons row rows)
  from Cons.prems(1) obtain st1 d1 b1 where r: "relay_row publish now crash row st (d, b) = (Inr st1, (d1, b1))"
    and k: "cmd_fold (relay_row publish now crash) rows st1 (d1, b1) = (Inr st', (d', b'))"
    by (auto simp: cmd_bind_Inr_iff)
  from r have c: "\<not> crash" "publish (ob_payload row) b = (Inr (), b1)" "d1 = mark_rows now {ob_id row} d"
    "st1 = st\<lparr>rs_published := rs_published st + 1, rs_markedPublished := rs_markedPublished st + 1\<rparr>"
    by (auto simp: relay_row_run split: if_splits prod.splits sum.splits)
  from Cons.IH [OF k] Cons.prems(2) have
    i: "publish_all publish (map ob_payload rows) b1 = (Inr (), b')" "d' = mark_rows now (ob_id ` set rows) d1"
    "st' = st1\<lparr>rs_published := rs_published st1 + int (length rows),
             rs_markedPublished := rs_markedPublished st1 + int (length rows)\<rparr>" by simp_all
  have "ob_id row \<notin> ob_id ` set rows" using Cons.prems(2) by simp
  with i c show ?case by (simp add: publish_all_def cmd_bind_run mark_rows_insert)
qed

text \<open>On an error, the messages of the rows up to the failing one may be out already.\<close>

lemma relay_rows_broker:
  assumes "cmd_fold (relay_row publish now crash) rows st (d, b) = (r, (d', b'))"
  shows "\<exists>k \<le> length rows. b' = snd (publish_all publish (map ob_payload (take k rows)) b)"
  using assms
proof (induction rows arbitrary: st d b)
  case Nil
  then show ?case by (auto simp: cmd_simps publish_all_def)
next
  case (Cons row rows)
  obtain x d1 b1 where r: "relay_row publish now crash row st (d, b) = (x, (d1, b1))" by (metis prod.collapse)
  then consider "b1 = b" "\<exists>e. x = Inl e" | e where "publish (ob_payload row) b = (Inl e, b1)" "\<exists>e. x = Inl e"
    | "publish (ob_payload row) b = (Inr (), b1)"
    by (auto simp: relay_row_run split: if_splits prod.splits sum.splits)
  then show ?case
  proof cases
    case 1
    with r Cons.prems have "b' = b" by (auto simp: cmd_bind_run)
    then show ?thesis by (intro exI [of _ 0]) (simp add: publish_all_def cmd_simps)
  next
    case 2
    with r Cons.prems have "b' = b1" by (auto simp: cmd_bind_run)
    with 2 show ?thesis by (intro exI [of _ 1]) (simp add: publish_all_def cmd_bind_run)
  next
    case 3
    show ?thesis
    proof (cases x)
      case (Inl e)
      with r Cons.prems have "b' = b1" by (auto simp: cmd_bind_run)
      with 3 show ?thesis by (intro exI [of _ 1]) (simp add: publish_all_def cmd_bind_run cmd_simps)
    next
      case (Inr st1)
      with r Cons.prems have "cmd_fold (relay_row publish now crash) rows st1 (d1, b1) = (r, (d', b'))"
        by (simp add: cmd_bind_run)
      from Cons.IH [OF this] obtain k where "k \<le> length rows"
        "b' = snd (publish_all publish (map ob_payload (take k rows)) b1)" by blast
      with 3 show ?thesis by (intro exI [of _ "Suc k"]) (simp add: publish_all_def cmd_bind_run)
    qed
  qed
qed

lemma distinct_unpublished:
  assumes "wf_db d" shows "distinct (map ob_id (unpublished d))"
proof -
  have "distinct (map ob_id (filter (\<lambda>r. ob_published_at r = None) (outbox d)))"
    using wf_keys(6) [OF assms] by (simp add: distinct_map_filter)
  then show ?thesis unfolding unpublished_def by (simp add: distinct_map)
qed

lemma distinct_batch:
  assumes "wf_db d" shows "distinct (map ob_id (batch locked options d))"
  using distinct_unpublished [OF assms]
  by (simp add: batch_def flip: take_map) (rule distinct_take, simp add: distinct_map_filter)

lemma select_batch_run:
  "select_batch locked n d = (if \<not> int8 n then (Inl (Pg NumericValueOutOfRange), d)
     else if n < 0 then (Inl (Pg InvalidRowCountInLimit), d)
     else (Inr (take (nat n) (filter (\<lambda>r. \<not> locked (ob_id r)) (unpublished d))), d))"
  by (simp add: select_batch_def cmd_bind_run cmd_simps param_int_IntN)

lemma relay_unfold:
  "relayOutboxBatch locked publish now options (d, b) =
     (if \<not> int8 (batch_size options) then (Inl (Pg NumericValueOutOfRange), (rollback d d, b))
      else if batch_size options < 0 then (Inl (Pg InvalidRowCountInLimit), (rollback d d, b))
      else cmd_transaction relay_rollback (cmd_fold (relay_row publish now (ro_crashAfterPublish options))
             (batch locked options d) \<lparr>rs_selected = int (length (batch locked options d)),
                rs_published = 0, rs_markedPublished = 0\<rparr>) (d, b))"
  unfolding relayOutboxBatch_def Let_def batch_size_def [symmetric] batch_def
  by (simp add: cmd_transaction_def cmd_bind_run cmd_simps select_batch_run relay_rollback_def)

lemma rollback_same [simp]: "rollback d d = d"
  by (simp add: rollback_def)

lemma mark_rows_wf: "wf_db d \<Longrightarrow> wf_db (mark_rows now ids d)"
  using wf_update_outbox [of d "publish_mark now" "\<lambda>r. ob_id r \<in> ids"]
  by (cases d) (simp add: mark_rows_def)

lemma filter_take_drop:
  "distinct xs \<Longrightarrow> filter (\<lambda>x. x \<notin> set (take n xs)) xs = drop n xs"
proof (induction xs arbitrary: n)
  case (Cons x xs)
  show ?case
  proof (cases n)
    case (Suc m)
    have "filter (\<lambda>y. y \<notin> set (take n (x # xs))) (x # xs) = filter (\<lambda>y. y \<notin> set (take m xs)) xs"
      using Cons.prems Suc by (auto intro!: filter_cong)
    with Suc Cons show ?thesis by simp
  qed simp
qed simp

text \<open>A batch without locked rows takes the front of the queue of unpublished rows.\<close>

lemma unpublished_mark_rows:
  assumes "wf_db d"
  shows "unpublished (mark_rows now (ob_id ` set (take n (unpublished d))) d) = drop n (unpublished d)"
proof -
  let ?U = "unpublished d" and ?ids = "ob_id ` set (take n (unpublished d))"
  have sub: "filter (\<lambda>r. ob_published_at r = None) (update_where (\<lambda>r. ob_id r \<in> ids) (publish_mark now) rs) =
      filter (\<lambda>r. ob_id r \<notin> ids) (filter (\<lambda>r. ob_published_at r = None) rs)" for ids and rs :: "outbox_row list"
    by (induction rs) auto
  have "unpublished (mark_rows now ?ids d) = filter (\<lambda>r. ob_id r \<notin> ?ids) ?U"
    unfolding unpublished_def filter_sort by (simp add: mark_rows_def sub)
  also have "\<dots> = filter (\<lambda>r. r \<notin> set (take n ?U)) ?U"
  proof (rule filter_cong [OF refl])
    fix r assume "r \<in> set ?U"
    moreover have "inj_on ob_id (set ?U)" using distinct_unpublished [OF assms] by (simp add: distinct_map)
    ultimately show "(ob_id r \<notin> ?ids) = (r \<notin> set (take n ?U))"
      by (auto simp: inj_on_def dest: in_set_takeD)
  qed
  also have "\<dots> = drop n ?U"
    using distinct_unpublished [OF assms] by (intro filter_take_drop) (simp add: distinct_map)
  finally show ?thesis .
qed

text \<open>An attempt is only ever recorded together with the publication.\<close>

definition attempts_ok :: "db \<Rightarrow> bool" where
  "attempts_ok d \<longleftrightarrow> (\<forall>r \<in> set (outbox d). ob_attempts r = (if ob_published_at r = None then 0 else 1))"

lemma unpublished_rows: "r \<in> set (unpublished d) \<longleftrightarrow> r \<in> set (outbox d) \<and> ob_published_at r = None"
  by (auto simp: unpublished_def)

lemma attempts_ok_mark:
  assumes "wf_db d" and "attempts_ok d" and "set rows \<subseteq> set (unpublished d)"
  shows "attempts_ok (mark_rows now (ob_id ` set rows) d)"
  unfolding attempts_ok_def
proof
  fix r assume "r \<in> set (outbox (mark_rows now (ob_id ` set rows) d))"
  then obtain r0 where r0: "r0 \<in> set (outbox d)"
    and r: "r = (if ob_id r0 \<in> ob_id ` set rows then publish_mark now r0 else r0)"
    by (auto simp: mark_rows_def elim: in_update_whereE)
  show "ob_attempts r = (if ob_published_at r = None then 0 else 1)"
  proof (cases "ob_id r0 \<in> ob_id ` set rows")
    case True
    then obtain x where "x \<in> set rows" "ob_id x = ob_id r0" by auto
    with assms(3) have "x \<in> set (outbox d)" "ob_published_at x = None" by (auto simp: unpublished_rows)
    with wf_keys(6) [OF assms(1)] r0 \<open>ob_id x = ob_id r0\<close> have "ob_published_at r0 = None"
      by (auto simp: distinct_map inj_on_def)
    with True r r0 assms(2) show ?thesis by (simp add: attempts_ok_def)
  next
    case False
    with r r0 assms(2) show ?thesis by (simp add: attempts_ok_def)
  qed
qed

lemma batch_subset: "set (batch locked options d) \<subseteq> set (unpublished d)"
  by (auto simp: batch_def dest: in_set_takeD)

lemma relay_Inr:
  assumes "wf_db d" and "relayOutboxBatch locked publish now options (d, b) = (Inr stats, (d', b'))"
  shows "0 \<le> batch_size options \<and> (ro_crashAfterPublish options \<longrightarrow> batch locked options d = []) \<and>
    publish_all publish (map ob_payload (batch locked options d)) b = (Inr (), b') \<and>
    d' = mark_rows now (ob_id ` set (batch locked options d)) d \<and>
    stats = \<lparr>rs_selected = int (length (batch locked options d)), rs_published = int (length (batch locked options d)),
             rs_markedPublished = int (length (batch locked options d))\<rparr>"
proof -
  from assms(2) have size: "0 \<le> batch_size options" and
    f: "cmd_fold (relay_row publish now (ro_crashAfterPublish options))
      (batch locked options d) \<lparr>rs_selected = int (length (batch locked options d)),
        rs_published = 0, rs_markedPublished = 0\<rparr> (d, b) = (Inr stats, (d', b'))"
    by (simp_all add: relay_unfold cmd_transaction_Inr_iff split: if_split_asm)
  from size relay_rows_Inr [OF f distinct_batch [OF assms(1)]] show ?thesis by simp
qed

lemma relay_Inl:
  assumes "relayOutboxBatch locked publish now options (d, b) = (Inl e, (d', b'))"
  shows "same_tables d d' \<and> (\<exists>k \<le> length (batch locked options d).
    b' = snd (publish_all publish (map ob_payload (take k (batch locked options d))) b))"
proof (cases "int8 (batch_size options) \<and> 0 \<le> batch_size options")
  case False
  with assms have "same_tables d d'" "b' = b" by (auto simp: relay_unfold split: if_splits)
  then show ?thesis by (auto intro!: exI [of _ 0] simp: publish_all_def cmd_simps)
next
  case True
  with assms obtain d1 where f: "cmd_fold (relay_row publish now (ro_crashAfterPublish options))
      (batch locked options d) \<lparr>rs_selected = int (length (batch locked options d)),
        rs_published = 0, rs_markedPublished = 0\<rparr> (d, b) = (Inl e, (d1, b'))" and "d' = rollback d d1"
    by (auto simp: relay_unfold cmd_transaction_Inl_iff relay_rollback_def)
  with relay_rows_broker [OF f] show ?thesis by simp
qed

lemma relay_wf:
  assumes "wf_db d" and "relayOutboxBatch locked publish now options (d, b) = (r, (d', b'))"
  shows "wf_db d' \<and> (attempts_ok d \<longrightarrow> attempts_ok d')"
proof (cases r)
  case (Inl e)
  from relay_Inl [OF assms(2) [unfolded Inl]] have "same_tables d d'" by simp
  with assms(1) show ?thesis
    by (simp add: wf_db_same_tables attempts_ok_def same_tables_fields)
next
  case (Inr stats)
  from relay_Inr [OF assms(1) assms(2) [unfolded Inr]] have "d' = mark_rows now (ob_id ` set (batch locked options d)) d" by simp
  with assms(1) mark_rows_wf attempts_ok_mark [OF assms(1) _ batch_subset] show ?thesis by blast
qed

text \<open>With a broker that accepts everything, a batch goes through.\<close>

lemma relay_rows_total:
  assumes "\<And>m b. \<exists>b'. publish m b = (Inr (), b')" and "distinct (map ob_id rows)"
    and "\<forall>row \<in> set rows. \<forall>r \<in> set (outbox d). ob_id r = ob_id row \<longrightarrow> int4 (ob_attempts r + 1)"
  shows "is_ok (fst (cmd_fold (relay_row publish now False) rows st (d, b)))"
  using assms(2,3)
proof (induction rows arbitrary: st d b)
  case Nil
  then show ?case by (simp add: cmd_simps)
next
  case (Cons row rows)
  obtain b1 where "publish (ob_payload row) b = (Inr (), b1)" using assms(1) by blast
  with Cons.prems(2) have r: "relay_row publish now False row st (d, b) =
      (Inr (st\<lparr>rs_published := rs_published st + 1, rs_markedPublished := rs_markedPublished st + 1\<rparr>),
       (mark_rows now {ob_id row} d, b1))" by (simp add: relay_row_run)
  have "\<forall>x \<in> set rows. \<forall>r \<in> set (outbox (mark_rows now {ob_id row} d)). ob_id r = ob_id x \<longrightarrow> int4 (ob_attempts r + 1)"
    using Cons.prems by (auto simp: mark_rows_def elim!: in_update_whereE split: if_splits)
  with Cons.IH Cons.prems(1) r show ?case by (simp add: cmd_bind_run)
qed

fun run_relays ::
  "(jsval \<Rightarrow> ('b, unit) cmd) \<Rightarrow> int \<Rightarrow> relay_options \<Rightarrow> nat \<Rightarrow> db \<times> 'b \<Rightarrow> db \<times> 'b" where
  "run_relays publish now options 0 s = s"
| "run_relays publish now options (Suc n) s =
     run_relays publish now options n (snd (relayOutboxBatch (\<lambda>_. False) publish now options s))"

lemma publish_all_append:
  "publish_all publish (xs @ ys) b = (case publish_all publish xs b of
     (Inl e, b') \<Rightarrow> (Inl e, b') | (Inr _, b') \<Rightarrow> publish_all publish ys b')"
  unfolding publish_all_def
  by (induction xs arbitrary: b) (auto simp: cmd_simps cmd_bind_run split: prod.splits sum.splits)

section \<open>What the consumer does\<close>

text \<open>Every message the consumer has marked has its effect, and the other way round.\<close>

definition effect_ids :: "db \<Rightarrow> string set" where
  "effect_ids d = ef_message_id ` set (effects d)"

definition inbox_ids :: "db \<Rightarrow> string set" where
  "inbox_ids d = {m. \<lparr>pm_message_id = m, pm_consumer = CONSUMER_NAME\<rparr> \<in> set (processed d)}"

definition inbox_ok :: "db \<Rightarrow> bool" where
  "inbox_ok d \<longleftrightarrow> wf_db d \<and> effect_ids d = inbox_ids d"

abbreviation event_id_text :: "pg_driver \<Rightarrow> jsval \<Rightarrow> string" where
  "event_id_text drv event \<equiv> pg_text drv (opt_prop event ''eventId'')"

definition new_effect :: "pg_driver \<Rightarrow> jsval \<Rightarrow> int \<Rightarrow> effect_row" where
  "new_effect drv event i = \<lparr>ef_message_id = event_id_text drv event, ef_order_id = i,
     ef_event_type = pg_text drv (opt_prop event ''type'')\<rparr>"

definition after_effect :: "pg_driver \<Rightarrow> jsval \<Rightarrow> int \<Rightarrow> db \<Rightarrow> db" where
  "after_effect drv event i d =
     d\<lparr>processed := processed d @ [\<lparr>pm_message_id = event_id_text drv event, pm_consumer = CONSUMER_NAME\<rparr>],
       effects := effects d @ [new_effect drv event i]\<rparr>"

lemma process_cases:
  assumes "inbox_ok d" and "processOrderPlacedEvent drv event d = (r, d')"
  obtains (failed) e where "r = Inl e" and "same_tables d d'"
  | (skipped) "r = Inr Skipped" and "d' = d" and "event_id_text drv event \<in> inbox_ids d"
  | (applied) i orderId where "r = Inr Applied" and "event_id_text drv event \<notin> inbox_ids d"
      and "get_prop (opt_prop event ''data'') ''orderId'' = Inr orderId" and "pg_bigint drv orderId = Inr i"
      and "d' = after_effect drv event i d"
proof (cases r)
  case (Inl e)
  with assms(2) have "same_tables d d'"
    by (auto simp: processOrderPlacedEvent_def cmd_transaction_Inl_iff)
  with Inl failed show ?thesis by blast
next
  case (Inr x)
  let ?m = "event_id_text drv event"
  from assms(2) Inr have run: "cmd_bind (varchar 150 ?m) (\<lambda>_.
     cmd_bind (cmd_gate (inbox_gate ?m)) (\<lambda>fresh.
     if \<not> fresh then cmd_return Skipped
     else
       cmd_bind (cmd_lift (get_prop (opt_prop event ''data'') ''orderId'')) (\<lambda>orderId.
       cmd_bind (cmd_lift (pg_bigint drv orderId)) (\<lambda>i.
       cmd_bind (insert_effect ?m i (pg_text drv (opt_prop event ''type''))) (\<lambda>_.
       cmd_return Applied))))) d = (Inr x, d')"
    by (simp add: processOrderPlacedEvent_def cmd_transaction_Inr_iff)
  show ?thesis
  proof (cases "?m \<in> inbox_ids d")
    case True
    with run have "x = Skipped" "d' = d"
      by (auto simp: cmd_bind_run cmd_simps varchar_def inbox_gate_def inbox_ids_def Let_def split: if_splits)
    with True Inr skipped show ?thesis by simp
  next
    case False
    then have "?m \<notin> effect_ids d" using assms(1) by (simp add: inbox_ok_def)
    with False run obtain orderId i where "get_prop (opt_prop event ''data'') ''orderId'' = Inr orderId"
      "pg_bigint drv orderId = Inr i" "x = Applied" "d' = after_effect drv event i d"
      by (cases "get_prop (opt_prop event ''data'') ''orderId''"; cases "pg_bigint drv (projr (get_prop (opt_prop event ''data'') ''orderId''))")
        (auto simp: cmd_bind_run cmd_simps varchar_def inbox_gate_def inbox_ids_def Let_def insert_effect_def
          effect_ids_def after_effect_def new_effect_def split: if_splits)
    with False Inr applied show ?thesis by simp
  qed
qed

lemma after_effect_ids:
  "effect_ids (after_effect drv event i d) = insert (event_id_text drv event) (effect_ids d)"
  "inbox_ids (after_effect drv event i d) = insert (event_id_text drv event) (inbox_ids d)"
  by (auto simp: after_effect_def new_effect_def effect_ids_def inbox_ids_def)

lemma after_effect_wf:
  assumes "inbox_ok d" and "event_id_text drv event \<notin> inbox_ids d"
  shows "inbox_ok (after_effect drv event i d)"
  using assms unfolding inbox_ok_def after_effect_ids
  by (auto simp: after_effect_def wf_db_def ids_defs processed_ok_def effects_ok_def inbox_ids_def
      effect_ids_def new_effect_def)

lemma process_inbox_ok:
  assumes "inbox_ok d" and "processOrderPlacedEvent drv event d = (r, d')"
  shows "inbox_ok d'"
  using assms
proof (cases rule: process_cases)
  case failed
  with assms(1) show ?thesis
    by (simp add: inbox_ok_def wf_db_same_tables effect_ids_def inbox_ids_def same_tables_fields)
qed (use assms after_effect_wf in auto)

text \<open>One delivery: the database goes through \<open>processOrderPlacedEvent\<close> or stays as it is.\<close>

lemma consume_step:
  assumes "inbox_ok d" and "consume drv hook (Some content) (d, st, c) = (x, (d', st', c'))"
  shows "inbox_ok d' \<and> (x = Some Ack \<or> x = Some Nack_dead_letter) \<and>
    (x = Some Ack \<longrightarrow> (\<exists>event. parseOrderPlacedEvent content = Inr event \<and> event_id_text drv event \<in> effect_ids d')) \<and>
    (\<exists>es. effects d' = effects d @ es \<and> cs_effect st' = cs_effect st + int (length es)) \<and>
    cs_delivered st' = cs_delivered st + 1 \<and> cs_acked st' = cs_acked st + (if x = Some Ack then 1 else 0) \<and>
    outbox d' = outbox d \<and> orders d' = orders d"
proof (cases "parseOrderPlacedEvent content")
  case (Inl e)
  with assms show ?thesis by (auto simp: consume_def handle_message_def cmd_bind_run cmd_simps)
next
  case (Inr event)
  obtain r d1 where p: "processOrderPlacedEvent drv event d = (r, d1)" by (rule prod.exhaust)
  have ok: "inbox_ok d1" by (rule process_inbox_ok [OF assms(1) p])
  show ?thesis
    using assms(1) p
  proof (cases rule: process_cases)
    case (failed e)
    with assms(2) Inr p ok show ?thesis
      by (auto simp: consume_def handle_message_def cmd_bind_run cmd_simps same_tables_fields)
  next
    case skipped
    with assms Inr p show ?thesis
      by (cases hook) (auto simp: consume_def handle_message_def cmd_bind_run cmd_simps inbox_ok_def
          split: prod.splits sum.splits)
  next
    case (applied i orderId)
    have "event_id_text drv event \<in> effect_ids d1" "effects d1 = effects d @ [new_effect drv event i]"
      "outbox d1 = outbox d" "orders d1 = orders d"
      using applied(5) after_effect_ids(1) by (simp_all add: after_effect_def)
    with assms(2) Inr p ok applied(1) show ?thesis
      by (cases hook) (auto simp: consume_def handle_message_def cmd_bind_run cmd_simps
          split: prod.splits sum.splits)
  qed
qed

lemma consume_all_ok:
  assumes "inbox_ok d" and "consume_all drv hook ms (d, st, c) = (xs, (d', st', c'))"
  shows "inbox_ok d' \<and> length xs = length ms \<and> (\<exists>es. effects d' = effects d @ es \<and>
      cs_effect st' = cs_effect st + int (length es)) \<and>
    cs_delivered st' = cs_delivered st + int (length ms) \<and>
    cs_acked st' = cs_acked st + int (length (filter (\<lambda>x. x = Ack) xs)) \<and>
    list_all2 (\<lambda>m x. x = Ack \<longrightarrow> (\<exists>event. parseOrderPlacedEvent m = Inr event \<and>
       event_id_text drv event \<in> effect_ids d')) ms xs \<and> outbox d' = outbox d \<and> orders d' = orders d"
  using assms
proof (induction ms arbitrary: d st c xs)
  case Nil
  then show ?case by simp
next
  case (Cons m ms)
  obtain x d1 st1 c1 where s: "consume drv hook (Some m) (d, st, c) = (x, (d1, st1, c1))" by (metis prod.collapse)
  obtain xs1 where r: "consume_all drv hook ms (d1, st1, c1) = (xs1, (d', st', c'))" and xs: "xs = the x # xs1"
    using Cons.prems(2) s by (auto split: prod.splits)
  note step = consume_step [OF Cons.prems(1) s]
  then have ok: "inbox_ok d1" by blast
  note IH = Cons.IH [OF ok r]
  from step IH obtain es es' where es: "effects d1 = effects d @ es" "cs_effect st1 = cs_effect st + int (length es)"
    "effects d' = effects d1 @ es'" "cs_effect st' = cs_effect st1 + int (length es')" by blast
  then have sub: "effect_ids d1 \<subseteq> effect_ids d'" by (auto simp: effect_ids_def)
  have "\<exists>es. effects d' = effects d @ es \<and> cs_effect st' = cs_effect st + int (length es)"
    using es by (intro exI [of _ "es @ es'"]) simp
  moreover have "the x = Ack \<longrightarrow> (\<exists>event. parseOrderPlacedEvent m = Inr event \<and> event_id_text drv event \<in> effect_ids d')"
    using step sub by auto
  moreover have "cs_acked st' = cs_acked st + int (length (filter (\<lambda>x. x = Ack) xs))"
    using step IH xs by auto
  ultimately show ?case using step IH xs by simp
qed

section \<open>Valid events\<close>

definition valid_event :: "pg_driver \<Rightarrow> jsval \<Rightarrow> bool" where
  "valid_event drv event \<longleftrightarrow> parseOrderPlacedEvent (Some event) = Inr event \<and>
     length (event_id_text drv event) \<le> 150 \<and> length (pg_text drv (opt_prop event ''type'')) \<le> 150 \<and>
     (\<exists>v i. get_prop (opt_prop event ''data'') ''orderId'' = Inr v \<and> pg_bigint drv v = Inr i)"

lemma process_valid:
  assumes "valid_event drv event"
  shows "\<exists>r d'. processOrderPlacedEvent drv event d = (Inr r, d')"
proof (cases "\<lparr>pm_message_id = event_id_text drv event, pm_consumer = CONSUMER_NAME\<rparr> \<in> set (processed d)")
  case True
  with assms show ?thesis
    by (simp add: valid_event_def processOrderPlacedEvent_def cmd_transaction_def cmd_bind_run cmd_simps
        varchar_def inbox_gate_def Let_def)
next
  case False
  from assms obtain v i where "get_prop (opt_prop event ''data'') ''orderId'' = Inr v" "pg_bigint drv v = Inr i"
    by (auto simp: valid_event_def)
  with False assms show ?thesis
    by (simp add: valid_event_def processOrderPlacedEvent_def cmd_transaction_def cmd_bind_run cmd_simps
        varchar_def inbox_gate_def Let_def insert_effect_def)
qed

lemma consume_valid:
  assumes "inbox_ok d" and "valid_event drv event"
    and "consume drv None (Some (Some event)) (d, st, c) = (x, (d', st', c'))"
  shows "x = Some Ack \<and> inbox_ids d' = insert (event_id_text drv event) (inbox_ids d) \<and>
    map ef_message_id (effects d') = map ef_message_id (effects d) @
      (if event_id_text drv event \<in> inbox_ids d then [] else [event_id_text drv event]) \<and>
    (\<forall>e \<in> set (effects d'). e \<in> set (effects d) \<or>
      (\<exists>v i. get_prop (opt_prop event ''data'') ''orderId'' = Inr v \<and> pg_bigint drv v = Inr i \<and>
         e = new_effect drv event i))"
proof -
  obtain r d1 where p: "processOrderPlacedEvent drv event d = (Inr r, d1)"
    using process_valid [OF assms(2)] by blast
  have parse: "parseOrderPlacedEvent (Some event) = Inr event" using assms(2) by (simp add: valid_event_def)
  with assms(3) p have x: "x = Some Ack" "d' = d1"
    by (auto simp: consume_def handle_message_def cmd_bind_run cmd_simps)
  show ?thesis
    using assms(1) p
  proof (cases rule: process_cases)
    case skipped
    with x show ?thesis by auto
  next
    case (applied i v)
    with x show ?thesis by (auto simp: after_effect_ids) (auto simp: after_effect_def new_effect_def)
  qed simp
qed

lemma consume_all_valid:
  assumes "inbox_ok d" and "\<forall>m \<in> set events. valid_event drv m"
    and "consume_all drv None (map Some events) (d, st, c) = (xs, (d', st', c'))"
  shows "set xs \<subseteq> {Ack} \<and> inbox_ok d' \<and>
    map ef_message_id (effects d') = map ef_message_id (effects d) @
      fst (gate_run inbox_gate (map (event_id_text drv) events) d) \<and>
    (\<forall>e \<in> set (effects d'). e \<in> set (effects d) \<or>
      (\<exists>m \<in> set events. \<exists>v i. get_prop (opt_prop m ''data'') ''orderId'' = Inr v \<and> pg_bigint drv v = Inr i \<and>
         e = new_effect drv m i)) \<and> outbox d' = outbox d"
  using assms
proof (induction events arbitrary: d st c xs)
  case Nil
  then show ?case by simp
next
  case (Cons m ms)
  obtain x d1 st1 c1 where s: "consume drv None (Some (Some m)) (d, st, c) = (x, (d1, st1, c1))" by (metis prod.collapse)
  obtain xs1 where r: "consume_all drv None (map Some ms) (d1, st1, c1) = (xs1, (d', st', c'))" and xs: "xs = the x # xs1"
    using Cons.prems(3) s by (auto split: prod.splits)
  have v: "valid_event drv m" "\<forall>m \<in> set ms. valid_event drv m" using Cons.prems(2) by simp_all
  note one = consume_valid [OF Cons.prems(1) v(1) s] and st = consume_step [OF Cons.prems(1) s]
  then have ok: "inbox_ok d1" by blast
  note IH = Cons.IH [OF ok v(2) r]
  let ?k = "event_id_text drv m"
  have g: "inbox_ids (snd (inbox_gate ?k d)) = inbox_ids d1"
    using one inbox.enter_present [of ?k d] by (simp add: inbox_ids_def)
  have "fst (gate_run inbox_gate (map (event_id_text drv) ms) (snd (inbox_gate ?k d))) =
      fst (gate_run inbox_gate (map (event_id_text drv) ms) d1)"
    by (rule inbox.gate_run_cong) (use g in \<open>simp add: inbox_ids_def\<close>)
  then have "fst (gate_run inbox_gate (map (event_id_text drv) (m # ms)) d) =
      (if ?k \<in> inbox_ids d then [] else [?k]) @ fst (gate_run inbox_gate (map (event_id_text drv) ms) d1)"
    using inbox.enter_admits [of ?k d] by (simp add: Let_def case_prod_beta inbox_ids_def)
  with one IH have "map ef_message_id (effects d') = map ef_message_id (effects d) @
      fst (gate_run inbox_gate (map (event_id_text drv) (m # ms)) d)" by simp
  moreover have "\<forall>e \<in> set (effects d'). e \<in> set (effects d) \<or>
      (\<exists>m' \<in> set (m # ms). \<exists>v i. get_prop (opt_prop m' ''data'') ''orderId'' = Inr v \<and> pg_bigint drv v = Inr i \<and>
         e = new_effect drv m' i)"
    using one IH by (metis list.set_intros(1,2))
  moreover have "set xs \<subseteq> {Ack}" using one IH xs by simp
  ultimately show ?case using st IH by simp
qed

section \<open>From the outbox through the broker to the effects\<close>

text \<open>What the code relies on of the broker client: a confirmed message is in the broker, and a
  publication that fails may or may not have reached it.\<close>

definition confirm_channel :: "(jsval \<Rightarrow> (jsval list, unit) cmd) \<Rightarrow> bool" where
  "confirm_channel publish \<longleftrightarrow>
     (\<forall>m b b'. publish m b = (Inr (), b') \<longrightarrow> b' = b @ [m]) \<and>
     (\<forall>m b e b'. publish m b = (Inl e, b') \<longrightarrow> b' = b \<or> b' = b @ [m])"

text \<open>What it relies on of the database driver: strings and integers go over as they are.\<close>

definition driver_ok :: "pg_driver \<Rightarrow> bool" where
  "driver_ok drv \<longleftrightarrow> (\<forall>s. pg_text drv (Str s) = s) \<and> (\<forall>i. pg_bigint drv (Num (IntN i)) = param_int int8 (IntN i))"

text \<open>An outbox row as the orders service writes it.\<close>

definition outbox_row_ok :: "outbox_row \<Rightarrow> bool" where
  "outbox_row_ok r \<longleftrightarrow> ob_event_id r \<noteq> [] \<and> length (ob_event_id r) \<le> 150 \<and>
     (\<exists>i u items t at. i \<noteq> 0 \<and> int8 i \<and> at \<noteq> [] \<and>
        ob_payload r = toOrderPlacedEvent (ob_event_id r) i u items t at)"

lemma payload_valid:
  assumes "driver_ok drv" and "outbox_row_ok r"
  shows "valid_event drv (ob_payload r) \<and> event_id_text drv (ob_payload r) = ob_event_id r"
  using assms
  by (auto simp: outbox_row_ok_def driver_ok_def valid_event_def parseOrderPlacedEvent_def toOrderPlacedEvent_def
      ORDER_PLACED_TYPE_def param_int_IntN)

fun relay_runs ::
  "(jsval \<Rightarrow> ('b, unit) cmd) \<Rightarrow> ((int \<Rightarrow> bool) \<times> int \<times> relay_options) list \<Rightarrow> db \<times> 'b \<Rightarrow> db \<times> 'b" where
  "relay_runs publish [] s = s"
| "relay_runs publish ((locked, now, options) # rs) s =
     relay_runs publish rs (snd (relayOutboxBatch locked publish now options s))"

definition relayed :: "db \<times> jsval list \<Rightarrow> bool" where
  "relayed s \<longleftrightarrow> wf_db (fst s) \<and>
     (\<forall>r \<in> set (outbox (fst s)). ob_published_at r \<noteq> None \<longrightarrow> ob_payload r \<in> set (snd s)) \<and>
     set (snd s) \<subseteq> ob_payload ` set (outbox (fst s))"

lemma publish_all_Inr_set:
  "confirm_channel publish \<Longrightarrow> publish_all publish ms b = (Inr (), b') \<Longrightarrow> b' = b @ ms"
proof (induction ms arbitrary: b)
  case Nil
  then show ?case by (simp add: publish_all_def cmd_simps)
next
  case (Cons m ms)
  from Cons.prems(2) obtain b1 where "publish m b = (Inr (), b1)" "publish_all publish ms b1 = (Inr (), b')"
    by (auto simp: publish_all_def cmd_bind_Inr_iff)
  moreover have "b1 = b @ [m]" using Cons.prems(1) calculation(1) by (simp add: confirm_channel_def)
  ultimately show ?case using Cons.IH [OF Cons.prems(1), of b1] by simp
qed

lemma publish_all_set:
  "confirm_channel publish \<Longrightarrow> \<exists>k. snd (publish_all publish ms b) = b @ take k ms"
proof (induction ms arbitrary: b)
  case Nil
  then show ?case by (simp add: publish_all_def cmd_simps)
next
  case (Cons m ms)
  obtain x b1 where p: "publish m b = (x, b1)" by (rule prod.exhaust)
  show ?case
  proof (cases x)
    case (Inl e)
    with p have "snd (publish_all publish (m # ms) b) = b1" by (simp add: publish_all_def cmd_bind_run)
    moreover have "b1 = b \<or> b1 = b @ [m]" using p Inl Cons.prems unfolding confirm_channel_def by blast
    ultimately show ?thesis by (metis append_Nil2 take_0 take_Suc_Cons)
  next
    case (Inr u)
    with p Cons.prems have "b1 = b @ [m]" by (auto simp: confirm_channel_def)
    moreover from p Inr have "snd (publish_all publish (m # ms) b) = snd (publish_all publish ms b1)"
      by (simp add: publish_all_def cmd_bind_run)
    moreover obtain k where "snd (publish_all publish ms b1) = b1 @ take k ms" using Cons by blast
    ultimately show ?thesis by (intro exI [of _ "Suc k"]) simp
  qed
qed

lemma relayed_step:
  assumes "confirm_channel publish" and "relayed (d, b)"
    and "relayOutboxBatch locked publish now options (d, b) = (r, (d', b'))"
  shows "relayed (d', b') \<and> map ob_event_id (outbox d') = map ob_event_id (outbox d) \<and>
    map ob_payload (outbox d') = map ob_payload (outbox d) \<and>
    processed d' = processed d \<and> effects d' = effects d"
proof (cases r)
  case (Inl e)
  from relay_Inl [OF assms(3) [unfolded Inl]] obtain k where same: "same_tables d d'"
    and b: "b' = snd (publish_all publish (map ob_payload (take k (batch locked options d))) b)" by blast
  from publish_all_set [OF assms(1)] obtain n where
    n: "b' = b @ take n (map ob_payload (take k (batch locked options d)))" unfolding b by blast
  have "set (take k (batch locked options d)) \<subseteq> set (outbox d)"
    using batch_subset [of locked options d] by (auto simp: unpublished_rows dest: in_set_takeD)
  then have "set (take n (map ob_payload (take k (batch locked options d)))) \<subseteq> ob_payload ` set (outbox d)"
    using in_set_takeD by (metis image_mono set_map set_take_subset subset_trans)
  with assms(2) same n show ?thesis
    by (auto simp: relayed_def wf_db_same_tables same_tables_fields)
next
  case (Inr stats)
  have wf: "wf_db d" using assms(2) by (simp add: relayed_def)
  let ?B = "batch locked options d"
  from relay_Inr [OF wf assms(3) [unfolded Inr]] have
    b: "publish_all publish (map ob_payload ?B) b = (Inr (), b')" and d': "d' = mark_rows now (ob_id ` set ?B) d" by simp_all
  from publish_all_Inr_set [OF assms(1) b] have b': "b' = b @ map ob_payload ?B" .
  have B: "set ?B \<subseteq> set (outbox d)" using batch_subset [of locked options d] by (auto simp: unpublished_rows)
  have maps: "map ob_event_id (outbox d') = map ob_event_id (outbox d)" "map ob_payload (outbox d') = map ob_payload (outbox d)"
    by (simp_all add: d' mark_rows_def map_update_where)
  have "ob_payload r \<in> set b'" if r: "r \<in> set (outbox d')" "ob_published_at r \<noteq> None" for r
  proof -
    from r(1) obtain r0 where r0: "r0 \<in> set (outbox d)"
      and eq: "r = (if ob_id r0 \<in> ob_id ` set ?B then publish_mark now r0 else r0)"
      by (auto simp: d' mark_rows_def elim: in_update_whereE)
    show ?thesis
    proof (cases "ob_id r0 \<in> ob_id ` set ?B")
      case True
      then obtain x where "x \<in> set ?B" "ob_id x = ob_id r0" by auto
      with B r0 wf_keys(6) [OF wf] have "x = r0" by (auto simp: distinct_map inj_on_def)
      with \<open>x \<in> set ?B\<close> eq True b' show ?thesis by simp
    next
      case False
      with eq r r0 assms(2) b' show ?thesis by (simp add: relayed_def)
    qed
  qed
  moreover have "set b' \<subseteq> ob_payload ` set (outbox d')"
  proof -
    have "ob_payload ` set (outbox d') = ob_payload ` set (outbox d)" using maps(2) by (metis set_map)
    with b' B assms(2) show ?thesis by (auto simp: relayed_def)
  qed
  moreover have "processed d' = processed d" "effects d' = effects d" by (simp_all add: d' mark_rows_def)
  ultimately show ?thesis using maps relay_wf [OF wf assms(3)] by (simp add: relayed_def)
qed

lemma relayed_runs:
  assumes "confirm_channel publish" and "relayed s"
  shows "relayed (relay_runs publish rs s) \<and>
    map ob_event_id (outbox (fst (relay_runs publish rs s))) = map ob_event_id (outbox (fst s)) \<and>
    map ob_payload (outbox (fst (relay_runs publish rs s))) = map ob_payload (outbox (fst s)) \<and>
    processed (fst (relay_runs publish rs s)) = processed (fst s) \<and>
    effects (fst (relay_runs publish rs s)) = effects (fst s)"
  using assms(2)
proof (induction rs arbitrary: s)
  case Nil
  then show ?case by simp
next
  case (Cons x rs)
  obtain locked now options where x: "x = (locked, now, options)" by (metis prod_cases3)
  obtain d b where s: "s = (d, b)" by (rule prod.exhaust)
  obtain r d1 b1 where step: "relayOutboxBatch locked publish now options (d, b) = (r, (d1, b1))" by (metis prod.collapse)
  from relayed_step [OF assms(1) Cons.prems [unfolded s] step] Cons.IH [of "(d1, b1)"]
  show ?case by (simp add: x s step)
qed

lemma consume_counts:
  assumes "inbox_ok d" and "\<forall>m \<in> set events. valid_event drv m"
    and "consume_all drv None (map Some events) (d, st, c) = (xs, (d', st', c'))"
  shows "count_list (map ef_message_id (effects d')) i =
    (if i \<in> (\<lambda>m. event_id_text drv m) ` set events \<or> i \<in> effect_ids d then 1 else 0)"
proof -
  from consume_all_valid [OF assms] have
    eff: "map ef_message_id (effects d') = map ef_message_id (effects d) @
      fst (gate_run inbox_gate (map (\<lambda>m. event_id_text drv m) events) d)" by simp
  have inb: "effect_ids d = inbox_ids d" and wf: "wf_db d" using assms(1) by (simp_all add: inbox_ok_def)
  have "count_list (map ef_message_id (effects d)) i = (if i \<in> effect_ids d then 1 else 0)"
    using wf_keys(9) [OF wf] distinct_count_list [of "map ef_message_id (effects d)" i]
    by (auto simp: effect_ids_def)
  moreover have "count_list (fst (gate_run inbox_gate (map (\<lambda>m. event_id_text drv m) events) d)) i =
      (if i \<in> set (map (\<lambda>m. event_id_text drv m) events) \<and> i \<notin> inbox_ids d then 1 else 0)"
    using inbox.gate_run_count [of "map (\<lambda>m. event_id_text drv m) events" d i] by (simp add: inbox_ids_def)
  ultimately show ?thesis by (simp add: eff inb)
qed

section \<open>Properties\<close>

text \<open>C12: A relay run that returns has taken the oldest unpublished rows that nobody else holds, up
  to the batch size, has had every one of them confirmed by the broker exactly once and in
  the order of creation, and has marked exactly these; its numbers say so.\<close>

theorem relay_success:
  assumes "wf_db d" and "relayOutboxBatch locked publish now options (d, b) = (Inr stats, (d', b'))"
  shows "(let rows = take (nat (batch_size options)) (filter (\<lambda>r. \<not> locked (ob_id r)) (unpublished d))
    in publish_all publish (map ob_payload rows) b = (Inr (), b') \<and>
       d' = d\<lparr>outbox := update_where (\<lambda>r. ob_id r \<in> ob_id ` set rows)
              (\<lambda>r. r\<lparr>ob_published_at := Some now, ob_attempts := ob_attempts r + 1\<rparr>) (outbox d)\<rparr> \<and>
       stats = \<lparr>rs_selected = int (length rows), rs_published = int (length rows),
                rs_markedPublished = int (length rows)\<rparr>) \<and>
    0 \<le> batch_size options \<and> sorted (map outbox_pos (unpublished d))"
proof -
  have "publish_mark now = (\<lambda>r. r\<lparr>ob_published_at := Some now, ob_attempts := ob_attempts r + 1\<rparr>)"
    by (simp add: publish_mark_def fun_eq_iff)
  with relay_Inr [OF assms] show ?thesis
    by (simp add: batch_def mark_rows_def unpublished_def)
qed

definition log_publish :: "jsval \<Rightarrow> (jsval list, unit) cmd" where
  "log_publish m = cmd_write (\<lambda>b. b @ [m])"

definition sample_drv :: pg_driver where
  "sample_drv = \<lparr>pg_text = (\<lambda>v. case v of Str s \<Rightarrow> s | _ \<Rightarrow> []),
     pg_bigint = (\<lambda>v. case v of Num n \<Rightarrow> param_int int8 n | _ \<Rightarrow> Inl (Pg InvalidTextRepresentation))\<rparr>"

definition sample_event :: jsval where
  "sample_event = toOrderPlacedEvent ''e1'' 1 1 [(1, 2)] 200 ''t''"

definition sample_outbox_db :: db where
  "sample_outbox_db = sample_db\<lparr>outbox :=
     [\<lparr>ob_id = 1, ob_event_id = ''e1'', ob_aggregate_type = ''order'', ob_aggregate_id = ''1'',
       ob_type = ''order.placed'', ob_payload = sample_event,
       ob_created_at = 5, ob_published_at = None, ob_attempts = 0\<rparr>]\<rparr>"

lemma wf_sample_outbox: "wf_db sample_outbox_db" "attempts_ok sample_outbox_db"
  using wf_sample_db by (simp_all add: sample_outbox_db_def wf_db_def outbox_ok_def attempts_ok_def ids_defs)

lemma sample_unpublished: "unpublished sample_outbox_db = outbox sample_outbox_db"
  by (simp add: unpublished_def sample_outbox_db_def)

definition sample_options :: relay_options where
  "sample_options = \<lparr>ro_batchSize = None, ro_crashAfterPublish = False\<rparr>"

lemma log_publish_total: "\<exists>b'. log_publish m b = (Inr (), b')"
  by (simp add: log_publish_def cmd_simps)

lemma sample_relay:
  "\<exists>stats s. relayOutboxBatch (\<lambda>_. False) log_publish 9 sample_options (sample_outbox_db, []) = (Inr stats, s)"
proof -
  have "is_ok (fst (relayOutboxBatch (\<lambda>_. False) log_publish 9 sample_options (sample_outbox_db, [])))"
    by (simp add: relay_unfold batch_def batch_size_def sample_options_def DEFAULT_BATCH_SIZE_def int8_def
        sample_unpublished)
      (simp add: sample_outbox_db_def relay_row_run log_publish_def cmd_transaction_def cmd_bind_run cmd_simps int4_def)
  then show ?thesis by (metis is_ok_simps(2) obj_sumE prod.collapse)
qed

lemma relay_success_witness:
  "\<exists>stats s. relayOutboxBatch (\<lambda>_. False) log_publish 9 sample_options (sample_outbox_db, []) = (Inr stats, s) \<and>
     rs_published stats = 1"
proof -
  from sample_relay obtain stats d' b' where
    r: "relayOutboxBatch (\<lambda>_. False) log_publish 9 sample_options (sample_outbox_db, []) = (Inr stats, (d', b'))"
    by (metis prod.collapse)
  from relay_success [OF wf_sample_outbox(1) r] have "rs_published stats = 1"
    by (simp add: sample_unpublished batch_size_def sample_options_def DEFAULT_BATCH_SIZE_def)
      (simp add: sample_outbox_db_def)
  with r show ?thesis by blast
qed

text \<open>C13: A relay run that throws - a refused publication, the simulated crash, a bad batch size -
  has changed no table: every row it had taken stays unpublished and will be taken again. Of
  its messages at most a prefix of the batch is out, which is why an event can be delivered
  twice but is not lost.\<close>

theorem relay_failure:
  assumes "relayOutboxBatch locked publish now options (d, b) = (Inl e, (d', b'))"
  shows "same_tables d d' \<and> unpublished d' = unpublished d \<and>
    (\<exists>k \<le> length (batch locked options d).
      b' = snd (publish_all publish (map ob_payload (take k (batch locked options d))) b))"
proof -
  note r = relay_Inl [OF assms]
  then have "outbox d' = outbox d" using same_tables_fields(6) by blast
  with r show ?thesis by (simp add: unpublished_def)
qed

lemma relay_failure_witness:
  "\<exists>d' b'. relayOutboxBatch (\<lambda>_. False) log_publish 9 (sample_options\<lparr>ro_crashAfterPublish := True\<rparr>) (sample_outbox_db, [])
     = (Inl (JsError ''Simulated relay crash after publish before published_at update''), (d', b')) \<and>
     unpublished d' = unpublished sample_outbox_db"
proof -
  let ?r = "relayOutboxBatch (\<lambda>_. False) log_publish 9 (sample_options\<lparr>ro_crashAfterPublish := True\<rparr>) (sample_outbox_db, [])"
  have "fst ?r = Inl (JsError ''Simulated relay crash after publish before published_at update'')"
    by (simp add: relay_unfold batch_def batch_size_def sample_options_def DEFAULT_BATCH_SIZE_def int8_def
        sample_unpublished)
      (simp add: sample_outbox_db_def relay_row_run log_publish_def cmd_transaction_def cmd_bind_run cmd_simps int4_def)
  then obtain d' b' where r: "?r = (Inl (JsError ''Simulated relay crash after publish before published_at update''), (d', b'))"
    by (metis prod.collapse)
  from relay_failure [OF r] r show ?thesis by blast
qed

text \<open>With a broker that accepts every message, the relay empties the outbox: after as many
  batches as the queue has lengths of a batch, no row is unpublished, and the broker got each
  queued event once, in the order of creation.\<close>

theorem relay_drains:
  assumes "wf_db d" and "attempts_ok d" and "\<And>m b. \<exists>b'. publish m b = (Inr (), b')"
    and "\<not> ro_crashAfterPublish options" and "0 < batch_size options" and "int8 (batch_size options)"
    and "int (length (unpublished d)) \<le> int n * batch_size options"
  shows "case run_relays publish now options n (d, b) of (d', b') \<Rightarrow>
     unpublished d' = [] \<and> publish_all publish (map ob_payload (unpublished d)) b = (Inr (), b') \<and> wf_db d'"
  using assms(1,2,7)
proof (induction n arbitrary: d b)
  case 0
  then show ?case by (simp add: publish_all_def cmd_simps)
next
  case (Suc n)
  let ?B = "batch (\<lambda>_. False) options d" and ?k = "nat (batch_size options)"
  have B: "?B = take ?k (unpublished d)" by (simp add: batch_def)
  have small: "\<forall>row \<in> set ?B. \<forall>r \<in> set (outbox d). ob_id r = ob_id row \<longrightarrow> int4 (ob_attempts r + 1)"
    using Suc.prems(2) by (auto simp: attempts_ok_def int4_def)
  have "is_ok (fst (relayOutboxBatch (\<lambda>_. False) publish now options (d, b)))"
    using relay_rows_total [where publish = publish and now = now and b = b
        and st = "\<lparr>rs_selected = int (length ?B), rs_published = 0, rs_markedPublished = 0\<rparr>",
        OF assms(3) distinct_batch [OF Suc.prems(1)] small] assms(4-6)
    by (auto simp: relay_unfold cmd_transaction_def is_ok_def split: prod.splits sum.splits)
  then obtain stats d1 b1 where r: "relayOutboxBatch (\<lambda>_. False) publish now options (d, b) = (Inr stats, (d1, b1))"
    by (metis is_ok_simps(2) obj_sumE prod.collapse)
  from relay_Inr [OF Suc.prems(1) r] have
    p: "publish_all publish (map ob_payload ?B) b = (Inr (), b1)" and d1: "d1 = mark_rows now (ob_id ` set ?B) d" by simp_all
  have wf: "wf_db d1" "attempts_ok d1" using relay_wf [OF Suc.prems(1) r] Suc.prems(2) by simp_all
  have u: "unpublished d1 = drop ?k (unpublished d)" unfolding d1 B by (rule unpublished_mark_rows [OF Suc.prems(1)])
  then have "int (length (unpublished d1)) \<le> int n * batch_size options"
    using Suc.prems(3) assms(5) by (cases "length (unpublished d) \<le> ?k") (simp_all add: algebra_simps)
  from Suc.IH [OF wf this, of b1] obtain d' b' where run: "run_relays publish now options n (d1, b1) = (d', b')"
    and q: "unpublished d' = []" "publish_all publish (map ob_payload (unpublished d1)) b1 = (Inr (), b')" "wf_db d'"
    by (auto split: prod.splits)
  have "map ob_payload (unpublished d) = map ob_payload ?B @ map ob_payload (unpublished d1)"
    unfolding u B map_append [symmetric] by simp
  with p q have "publish_all publish (map ob_payload (unpublished d)) b = (Inr (), b')"
    by (simp add: publish_all_append)
  with q run r show ?case by simp
qed

lemma relay_drains_witness:
  "unpublished (fst (run_relays log_publish 9 sample_options 1 (sample_outbox_db, []))) = []"
proof -
  have "int (length (unpublished sample_outbox_db)) \<le> int 1 * batch_size sample_options"
    by (simp add: sample_unpublished batch_size_def sample_options_def DEFAULT_BATCH_SIZE_def)
      (simp add: sample_outbox_db_def)
  moreover have "\<not> ro_crashAfterPublish sample_options" "0 < batch_size sample_options" "int8 (batch_size sample_options)"
    by (simp_all add: sample_options_def batch_size_def DEFAULT_BATCH_SIZE_def int8_def)
  ultimately have "case run_relays log_publish 9 sample_options 1 (sample_outbox_db, []) of (d', b') \<Rightarrow>
     unpublished d' = [] \<and> publish_all log_publish (map ob_payload (unpublished sample_outbox_db)) [] = (Inr (), b') \<and> wf_db d'"
    by (intro relay_drains wf_sample_outbox log_publish_total)
  then show ?thesis by (simp add: split_beta)
qed

text \<open>Duplicates do not count twice. Valid events are delivered in any order and any number of
  times; every delivery is acknowledged, and afterwards each event delivered, or applied
  before, has exactly one effect row.\<close>

theorem consumer_duplicates:
  assumes "inbox_ok d" and "\<forall>m \<in> set events. valid_event drv m"
    and "consume_all drv None (map Some events) (d, st, c) = (xs, (d', st', c'))"
  shows "set xs \<subseteq> {Ack} \<and> count_list (map ef_message_id (effects d')) i =
    (if i \<in> (\<lambda>m. pg_text drv (opt_prop m ''eventId'')) ` set events \<or> i \<in> effect_ids d then 1 else 0)"
  using consume_counts [OF assms] consume_all_valid [OF assms] by simp

lemma inbox_ok_sample: "inbox_ok sample_outbox_db"
  using wf_sample_outbox by (simp add: inbox_ok_def effect_ids_def inbox_ids_def)
    (simp add: sample_outbox_db_def)

lemma sample_drv_ok: "driver_ok sample_drv"
  by (simp add: driver_ok_def sample_drv_def)

lemma sample_row_ok: "\<forall>r \<in> set (outbox sample_outbox_db). outbox_row_ok r \<and> ob_published_at r = None"
  by (simp add: sample_outbox_db_def outbox_row_ok_def sample_event_def)
    (intro exI [of _ 1] exI [of _ "[(1, 2)]"] exI [of _ 200] exI [of _ "''t''"] conjI; simp add: int8_def)

lemma consumer_duplicates_witness:
  "count_list (map ef_message_id (effects (fst (snd (consume_all sample_drv None
     (map Some (replicate 3 sample_event))
     (sample_outbox_db, \<lparr>cs_delivered = 0, cs_effect = 0, cs_skipped = 0, cs_acked = 0\<rparr>, ())))))) ''e1'' = 1"
proof -
  let ?r = "consume_all sample_drv None (map Some (replicate 3 sample_event))
     (sample_outbox_db, \<lparr>cs_delivered = 0, cs_effect = 0, cs_skipped = 0, cs_acked = 0\<rparr>, ())"
  obtain xs s where rs: "?r = (xs, s)" by (rule prod.exhaust)
  obtain d' st' c' where "s = (d', st', c')" by (rule prod_cases3)
  with rs have r: "?r = (xs, (d', st', c'))" by simp
  have hd: "hd (outbox sample_outbox_db) \<in> set (outbox sample_outbox_db)"
    "ob_payload (hd (outbox sample_outbox_db)) = sample_event"
    "ob_event_id (hd (outbox sample_outbox_db)) = ''e1''"
    by (simp_all add: sample_outbox_db_def)
  with payload_valid [OF sample_drv_ok, of "hd (outbox sample_outbox_db)"] sample_row_ok
  have v: "valid_event sample_drv sample_event" "event_id_text sample_drv sample_event = ''e1''"
    by auto
  then have "\<forall>m \<in> set (replicate 3 sample_event). valid_event sample_drv m" by simp
  from consumer_duplicates [OF inbox_ok_sample this r, of "''e1''"] v(2)
  have "count_list (map ef_message_id (effects d')) ''e1'' = 1" by auto
  then show ?thesis by (simp only: r fst_conv snd_conv)
qed

text \<open>The consumer's books balance, whatever is delivered and whatever the hook does: every
  delivery is acknowledged or sent to the dead letter queue, \<open>acked\<close> counts the first kind,
  \<open>effect\<close> the effect rows that were added, and an acknowledged message is one that parsed
  and has its effect in the database.\<close>

theorem consumer_accounting:
  assumes "inbox_ok d" and "consume_all drv hook ms (d, st, c) = (xs, (d', st', c'))"
  shows "length xs = length ms \<and> cs_delivered st' = cs_delivered st + int (length ms) \<and>
    cs_acked st' = cs_acked st + int (length (filter (\<lambda>x. x = Ack) xs)) \<and>
    cs_effect st' - cs_effect st = int (length (effects d')) - int (length (effects d)) \<and>
    (\<forall>i < length ms. xs ! i = Ack \<longrightarrow> (\<exists>event. parseOrderPlacedEvent (ms ! i) = Inr event \<and>
       event_id_text drv event \<in> effect_ids d')) \<and>
    distinct (map ef_message_id (effects d'))"
proof -
  note run = consume_all_ok [OF assms]
  then obtain es where es: "effects d' = effects d @ es" "cs_effect st' = cs_effect st + int (length es)" by blast
  then have eff: "cs_effect st' - cs_effect st = int (length (effects d')) - int (length (effects d))" by simp
  from run have "wf_db d'" by (simp add: inbox_ok_def)
  from wf_keys(9) [OF this] have dist: "distinct (map ef_message_id (effects d'))" .
  from run have "list_all2 (\<lambda>m x. x = Ack \<longrightarrow> (\<exists>event. parseOrderPlacedEvent m = Inr event \<and>
       event_id_text drv event \<in> effect_ids d')) ms xs" by (elim conjE)
  then have acks: "\<forall>i < length ms. xs ! i = Ack \<longrightarrow> (\<exists>event. parseOrderPlacedEvent (ms ! i) = Inr event \<and>
       event_id_text drv event \<in> effect_ids d')" unfolding list_all2_conv_all_nth by blast
  from run eff dist acks show ?thesis by blast
qed

lemma consumer_accounting_witness:
  "cs_delivered (fst (snd (snd (consume_all sample_drv (Some (\<lambda>_ _. cmd_throw TypeError)) [None, Some Null]
     (sample_outbox_db, \<lparr>cs_delivered = 0, cs_effect = 0, cs_skipped = 0, cs_acked = 0\<rparr>, ()))))) = 2"
proof -
  let ?r = "consume_all sample_drv (Some (\<lambda>_ _. cmd_throw TypeError)) [None, Some Null]
     (sample_outbox_db, \<lparr>cs_delivered = 0, cs_effect = 0, cs_skipped = 0, cs_acked = 0\<rparr>, ())"
  obtain xs s where rs: "?r = (xs, s)" by (rule prod.exhaust)
  obtain d' st' c' where "s = (d', st', c')" by (rule prod_cases3)
  with rs have r: "?r = (xs, (d', st', c'))" by simp
  from consumer_accounting [OF inbox_ok_sample r]
  have "cs_delivered st' = cs_delivered \<lparr>cs_delivered = 0, cs_effect = 0, cs_skipped = 0, cs_acked = 0\<rparr>
      + int (length [None, Some Null])" by (elim conjE)
  then have "cs_delivered st' = 2" by simp
  then show ?thesis by (simp only: r fst_conv snd_conv)
qed

text \<open>A relay leaves the identifiers and payloads of the rows alone.\<close>

lemma relayed_payload:
  assumes "driver_ok drv" and "\<forall>r \<in> set (outbox d). outbox_row_ok r"
    and maps: "map ob_event_id (outbox d1) = map ob_event_id (outbox d)" "map ob_payload (outbox d1) = map ob_payload (outbox d)"
    and r: "r \<in> set (outbox d1)"
  shows "valid_event drv (ob_payload r)" and "event_id_text drv (ob_payload r) = ob_event_id r"
proof -
  from r obtain n where n: "n < length (outbox d1)" "r = outbox d1 ! n" by (auto simp: in_set_conv_nth)
  have len: "length (outbox d1) = length (outbox d)" using maps(1) by (metis length_map)
  have "map ob_event_id (outbox d1) ! n = map ob_event_id (outbox d) ! n"
    "map ob_payload (outbox d1) ! n = map ob_payload (outbox d) ! n" unfolding maps by (rule refl)+
  then have eq: "ob_event_id r = ob_event_id (outbox d ! n)" "ob_payload r = ob_payload (outbox d ! n)"
    using n len by simp_all
  have "outbox d ! n \<in> set (outbox d)" using n(1) len by simp
  with assms(2) have "outbox_row_ok (outbox d ! n)" by blast
  from payload_valid [OF assms(1) this] show "valid_event drv (ob_payload r)" "event_id_text drv (ob_payload r) = ob_event_id r"
    by (simp_all only: eq)
qed

text \<open>What the consumer makes of messages that are payloads of the outbox.\<close>

lemma consumed_once:
  assumes "wf_db d1" and "processed d1 = []" and "effects d1 = []"
    and row: "\<And>r. r \<in> set (outbox d1) \<Longrightarrow> valid_event drv (ob_payload r)"
      "\<And>r. r \<in> set (outbox d1) \<Longrightarrow> event_id_text drv (ob_payload r) = ob_event_id r"
    and ms: "set ms \<subseteq> ob_payload ` set (outbox d1)"
    and run: "consume_all drv None (map Some ms) (d1, st, c) = (xs, (d2, st2, c2))"
  shows "set xs \<subseteq> {Ack}" and "outbox d2 = outbox d1"
    and "r \<in> set (outbox d1) \<Longrightarrow> ob_payload r \<in> set ms \<Longrightarrow> count_list (map ef_message_id (effects d2)) (ob_event_id r) = 1"
    and "e \<in> set (effects d2) \<Longrightarrow> \<exists>r \<in> set (outbox d1). ob_event_id r = ef_message_id e"
proof -
  have inb: "inbox_ok d1" using assms(1-3) by (simp add: inbox_ok_def effect_ids_def inbox_ids_def)
  have valid: "\<forall>m \<in> set ms. valid_event drv m" using ms row(1) by blast
  note all = consume_all_valid [OF inb valid run]
  then show "set xs \<subseteq> {Ack}" "outbox d2 = outbox d1" by - (elim conjE, assumption)+
  from all have from_ms: "\<forall>e \<in> set (effects d2). e \<in> set (effects d1) \<or>
      (\<exists>m \<in> set ms. \<exists>v i. get_prop (opt_prop m ''data'') ''orderId'' = Inr v \<and> pg_bigint drv v = Inr i \<and>
         e = new_effect drv m i)" by - (elim conjE, assumption)
  show "count_list (map ef_message_id (effects d2)) (ob_event_id r) = 1"
    if "r \<in> set (outbox d1)" "ob_payload r \<in> set ms"
  proof -
    have "ob_event_id r \<in> (\<lambda>m. event_id_text drv m) ` set ms"
      unfolding row(2) [OF that(1), symmetric] using that(2) by (rule imageI)
    then show ?thesis by (simp only: consume_counts [OF inb valid run] simp_thms if_True)
  qed
  show "\<exists>r \<in> set (outbox d1). ob_event_id r = ef_message_id e" if e: "e \<in> set (effects d2)"
  proof -
    from e assms(3) from_ms obtain m i where m: "m \<in> set ms" "e = new_effect drv m i" by (metis empty_iff empty_set)
    with ms obtain r where r: "r \<in> set (outbox d1)" "m = ob_payload r" by blast
    from row(2) [OF r(1)] have "ob_event_id r = ef_message_id e" by (simp add: m(2) r(2) new_effect_def)
    with r(1) show ?thesis by (rule bexI [rotated])
  qed
qed

text \<open>C8: At least once plus deduplication is exactly once. Relay runs succeed, fail and crash in
  any order over an outbox nothing of which was published; the broker keeps what it
  confirmed and may also keep what it did not; its messages reach the consumer in any order
  and multiplicity. Then every delivery is acknowledged, every published row has exactly one
  effect, and there is no effect without an outbox row.\<close>

theorem exactly_once:
  assumes "confirm_channel publish" and "driver_ok drv" and "wf_db d"
    and "\<forall>r \<in> set (outbox d). outbox_row_ok r \<and> ob_published_at r = None"
    and "processed d = []" and "effects d = []"
    and "relay_runs publish runs (d, []) = (d1, b)"
    and "set ms = set b" and "consume_all drv None (map Some ms) (d1, st, c) = (xs, (d2, st2, c2))"
  shows "set xs \<subseteq> {Ack} \<and>
    (\<forall>r \<in> set (outbox d2). ob_published_at r \<noteq> None \<longrightarrow>
       count_list (map ef_message_id (effects d2)) (ob_event_id r) = 1) \<and>
    (\<forall>e \<in> set (effects d2). \<exists>r \<in> set (outbox d2). ob_event_id r = ef_message_id e)"
proof -
  have "relayed (d, [])" using assms(3,4) by (auto simp: relayed_def)
  from relayed_runs [OF assms(1) this, of runs] have rel: "relayed (d1, b)"
    and maps: "map ob_event_id (outbox d1) = map ob_event_id (outbox d)"
      "map ob_payload (outbox d1) = map ob_payload (outbox d)"
    and none: "processed d1 = []" "effects d1 = []" unfolding assms(5-7) fst_conv by blast+
  have wf: "wf_db d1" and sub: "set ms \<subseteq> ob_payload ` set (outbox d1)"
    and sent: "\<forall>r \<in> set (outbox d1). ob_published_at r \<noteq> None \<longrightarrow> ob_payload r \<in> set ms"
    using rel assms(8) by (simp_all add: relayed_def)
  have ok: "\<forall>r \<in> set (outbox d). outbox_row_ok r" using assms(4) by blast
  note row = relayed_payload [OF assms(2) ok maps]
  have consumed: "set xs \<subseteq> {Ack}" "outbox d2 = outbox d1"
    "\<And>r. r \<in> set (outbox d1) \<Longrightarrow> ob_payload r \<in> set ms \<Longrightarrow> count_list (map ef_message_id (effects d2)) (ob_event_id r) = 1"
    "\<And>e. e \<in> set (effects d2) \<Longrightarrow> \<exists>r \<in> set (outbox d1). ob_event_id r = ef_message_id e"
    by (rule consumed_once [OF wf none _ _ sub assms(9)]; (rule row)?; assumption)+
  show ?thesis unfolding consumed(2) using consumed(1,3,4) sent by blast
qed

lemma log_publish_confirms: "confirm_channel log_publish"
  by (simp add: confirm_channel_def log_publish_def cmd_simps)

lemma exactly_once_witness:
  "let (d1, b) = relay_runs log_publish [(\<lambda>_. False, 8, sample_options\<lparr>ro_crashAfterPublish := True\<rparr>),
       (\<lambda>_. False, 9, sample_options)] (sample_outbox_db, [])
   in effect_ids (fst (snd (consume_all sample_drv None (map Some (b @ b))
     (d1, \<lparr>cs_delivered = 0, cs_effect = 0, cs_skipped = 0, cs_acked = 0\<rparr>, ())))) \<subseteq> {''e1''}"
proof -
  obtain d1 b where r: "relay_runs log_publish [(\<lambda>_. False, 8, sample_options\<lparr>ro_crashAfterPublish := True\<rparr>),
       (\<lambda>_. False, 9, sample_options)] (sample_outbox_db, []) = (d1, b)" by (rule prod.exhaust)
  obtain xs d2 st2 c2 where c: "consume_all sample_drv None (map Some (b @ b))
     (d1, \<lparr>cs_delivered = 0, cs_effect = 0, cs_skipped = 0, cs_acked = 0\<rparr>, ()) = (xs, (d2, st2, c2))"
    by (metis prod.collapse)
  have none: "processed sample_outbox_db = []" "effects sample_outbox_db = []"
    by (simp_all add: sample_outbox_db_def)
  have ms: "set (b @ b) = set b" by simp
  from exactly_once [OF log_publish_confirms sample_drv_ok wf_sample_outbox(1) sample_row_ok none r ms c]
  have e: "\<forall>e \<in> set (effects d2). \<exists>r \<in> set (outbox d2). ob_event_id r = ef_message_id e" by simp
  have "relayed (sample_outbox_db, [])"
    using wf_sample_outbox(1) by (simp add: relayed_def) (simp add: sample_outbox_db_def)
  from relayed_runs [OF log_publish_confirms this] have m: "relayed (d1, b)"
      "map ob_event_id (outbox d1) = map ob_event_id (outbox sample_outbox_db)"
      "processed d1 = []" "effects d1 = []" by (metis r fst_conv none)+
  then have inb: "inbox_ok d1" by (simp add: inbox_ok_def relayed_def effect_ids_def inbox_ids_def)
  have "outbox d2 = outbox d1" using consume_all_ok [OF inb c] by simp
  with m(2) have "map ob_event_id (outbox d2) = [''e1'']" by (simp add: sample_outbox_db_def)
  then have "ob_event_id ` set (outbox d2) = {''e1''}" by (metis list.set_map list.simps(15) list.set(1))
  with e have "effect_ids d2 \<subseteq> {''e1''}" unfolding effect_ids_def by (metis image_eqI image_subsetI)
  then show ?thesis by (simp only: r c Let_def prod.case fst_conv snd_conv)
qed

end
