(* ===== verification/Race.thy ===== *)
theory Race
  imports Seed "HOL-Library.Multiset"
begin

text \<open>
  \<open>src/demo-race.ts\<close>: fifty concurrent checkouts of a product with ten units. Every checkout
  begins with the update of the product's row, so the transactions run one after the other in
  the order in which that row lock is granted: the schedule, any permutation of the attempts.
\<close>

section \<open>The demonstration\<close>

definition ATTEMPTS :: nat where
  "ATTEMPTS = 50"

definition PRODUCT_ID :: int where
  "PRODUCT_ID = 1"

definition INITIAL_STOCK :: int where
  "INITIAL_STOCK = 10"

definition BUYERS :: nat where
  "BUYERS = 10"

text \<open>\<open>DELETE FROM orders\<close>; items, tasks and idempotency keys of the orders go with them.\<close>

definition delete_orders :: "(int \<Rightarrow> bool) \<Rightarrow> db \<Rightarrow> db" where
  "delete_orders p d =
     d\<lparr>orders := filter (\<lambda>r. \<not> p (o_id r)) (orders d),
       order_items := filter (\<lambda>r. \<not> p (oi_order_id r)) (order_items d),
       tasks := filter (\<lambda>r. \<not> p (t_order_id r)) (tasks d),
       idem_keys := filter (\<lambda>r. case ik_order_id r of None \<Rightarrow> True | Some i \<Rightarrow> \<not> p i) (idem_keys d)\<rparr>"

definition resetRaceState :: "db \<Rightarrow> db" where
  "resetRaceState d =
     users_update (update_where (\<lambda>r. 1 \<le> u_id r \<and> u_id r \<le> 10) (\<lambda>r. r\<lparr>u_balance := 10000000\<rparr>))
       (products_update (update_where (\<lambda>r. p_id r = PRODUCT_ID) (\<lambda>r. r\<lparr>p_stock_quantity := INITIAL_STOCK\<rparr>))
         (delete_orders (\<lambda>i. 10 < i) d))"

definition attempts :: "checkout_input list" where
  "attempts = map (\<lambda>index. \<lparr>ci_user_id = int (index mod BUYERS) + 1, ci_product_id = PRODUCT_ID,
     ci_quantity = Num (IntN 1)\<rparr>) [0..<ATTEMPTS]"

text \<open>Lack of stock is a result; any other rejection rejects \<open>Promise.all\<close>.\<close>

fun race_results :: "(err + 'a) list \<Rightarrow> err + bool list" where
  "race_results [] = Inr []"
| "race_results (r # rs) = (case r of
       Inr _ \<Rightarrow> map_sum id (Cons True) (race_results rs)
     | Inl e \<Rightarrow> if e = InsufficientStock then map_sum id (Cons False) (race_results rs) else Inl e)"

record race_report =
  rr_successful :: nat
  rr_finalStock :: "int option"
  rr_negativeStockRows :: nat
  rr_invariantPassed :: bool

definition race_report_of :: "bool list \<Rightarrow> db \<Rightarrow> race_report" where
  "race_report_of results d =
     (let successful = length (filter id results);
          finalStock = map_option p_stock_quantity (first_where (\<lambda>r. p_id r = PRODUCT_ID) (products d));
          negativeStockRows = length (filter (\<lambda>r. p_stock_quantity r < 0) (products d))
      in \<lparr>rr_successful = successful, rr_finalStock = finalStock, rr_negativeStockRows = negativeStockRows,
          rr_invariantPassed = (int successful = INITIAL_STOCK \<and> finalStock = Some 0 \<and> negativeStockRows = 0)\<rparr>)"

definition race_demo ::
  "(jsval \<Rightarrow> ('b, unit) cmd) \<Rightarrow> string \<Rightarrow> checkout_input list \<Rightarrow> (db \<times> 'b, race_report) cmd" where
  "race_demo publish at schedule =
     cmd_bind (on_fst (cmd_write resetRaceState)) (\<lambda>_ s.
       case run_checkouts publish at schedule s of (rs, s') \<Rightarrow>
         (case race_results rs of
            Inl e \<Rightarrow> (Inl e, s')
          | Inr results \<Rightarrow> (Inr (race_report_of results (fst s')), s')))"

section \<open>The reset\<close>

text \<open>No sequence is behind the identifiers that it gave out.\<close>

definition sequences_ahead :: "db \<Rightarrow> bool" where
  "sequences_ahead d \<longleftrightarrow> (\<forall>r \<in> set (orders d). o_id r \<le> sq_orders (seqs d)) \<and>
     (\<forall>r \<in> set (order_items d). oi_id r \<le> sq_items (seqs d)) \<and> (\<forall>r \<in> set (tasks d). t_id r \<le> sq_tasks (seqs d))"

lemma distinct_map_filter': "distinct (map k rs) \<Longrightarrow> distinct (map k (filter P rs))"
  by (induction rs) auto

lemma delete_orders_wf:
  assumes "wf_db d" shows "wf_db (delete_orders p d)"
proof -
  have "orders_ok (user_ids d) (orders d)" "items_ok (order_ids d) (p_id ` set (products d)) (order_items d)"
    "tasks_ok (order_ids d) (tasks d)" "idem_ok (order_ids d) (idem_keys d)"
    using assms by (simp_all add: wf_db_def ids_defs)
  then have "orders_ok (user_ids d) (orders (delete_orders p d))"
    "items_ok (order_ids (delete_orders p d)) (p_id ` set (products d)) (order_items (delete_orders p d))"
    "tasks_ok (order_ids (delete_orders p d)) (tasks (delete_orders p d))"
    "idem_ok (order_ids (delete_orders p d)) (idem_keys (delete_orders p d))"
    by (fastforce simp: orders_ok_def items_ok_def tasks_ok_def idem_ok_def delete_orders_def ids_defs
        distinct_map_filter')+
  then show ?thesis
    using assms by (simp add: wf_db_def ids_defs delete_orders_def)
qed

lemma reset_wf:
  assumes "wf_db d" shows "wf_db (resetRaceState d)"
  unfolding resetRaceState_def
  by (intro wf_update_users wf_update_products delete_orders_wf assms)
    (auto simp: user_ok_def user_checks_def product_ok_def product_checks_def INITIAL_STOCK_def int4_def
      split: if_splits)

lemma reset_sequences: "sequences_ahead d \<Longrightarrow> sequences_ahead (resetRaceState d)"
  by (simp add: sequences_ahead_def resetRaceState_def delete_orders_def)

lemma reset_product:
  assumes "wf_db d" and "p \<in> set (products d)" and "p_id p = PRODUCT_ID"
  shows "p\<lparr>p_stock_quantity := INITIAL_STOCK\<rparr> \<in> set (products (resetRaceState d))"
    and "stock_of (resetRaceState d) PRODUCT_ID = INITIAL_STOCK"
proof -
  show p: "p\<lparr>p_stock_quantity := INITIAL_STOCK\<rparr> \<in> set (products (resetRaceState d))"
    using assms(2,3) by (auto simp: resetRaceState_def delete_orders_def set_update_where)
  from wf_stock_of [OF reset_wf [OF assms(1)] p] show "stock_of (resetRaceState d) PRODUCT_ID = INITIAL_STOCK"
    using assms(3) by simp
qed

lemma wf_balance_of:
  assumes "wf_db d" and "u \<in> set (users d)"
  shows "balance_of d (u_id u) = u_balance u"
proof -
  have "filter (\<lambda>r. u_id r = u_id u) rs = [u]" if "distinct (map u_id rs)" "u \<in> set rs" for rs
    using that
  proof (induction rs)
    case (Cons a rs)
    then show ?case
      by (cases "a = u") (auto simp: filter_empty_conv image_iff)
  qed simp
  with assms wf_keys(1) show ?thesis by (simp add: balance_of_def)
qed

lemma reset_balance:
  assumes "wf_db d" and "u \<in> set (users d)" and "1 \<le> u_id u" and "u_id u \<le> 10"
  shows "balance_of (resetRaceState d) (u_id u) = 10000000"
proof -
  have "u\<lparr>u_balance := 10000000\<rparr> \<in> set (users (resetRaceState d))"
    using assms(2-4) by (auto simp: resetRaceState_def delete_orders_def set_update_where)
  from wf_balance_of [OF reset_wf [OF assms(1)] this] show ?thesis by simp
qed

section \<open>One attempt\<close>

lemma first_where_key:
  assumes "distinct (map k rs)" and "r \<in> set rs" and "k r = v" and "P r"
  shows "first_where (\<lambda>x. k x = v \<and> P x) rs = Some r"
  using assms by (induction rs) (auto simp: image_iff)

lemma ahead_fresh:
  assumes "sequences_ahead d"
  shows "sq_orders (seqs d) + 1 \<notin> o_id ` set (orders d)" "sq_items (seqs d) + 1 \<notin> oi_id ` set (order_items d)"
    "sq_tasks (seqs d) + 1 \<notin> t_id ` set (tasks d)"
  using assms by (force simp: sequences_ahead_def)+

lemma executeCheckout_succeeds:
  assumes "wf_db d" and "sequences_ahead d" and p: "p \<in> set (products d)" "0 < q" "q \<le> p_stock_quantity p"
    and u: "u \<in> set (users d)" "p_price p * q \<le> u_balance u"
    and int8: "int8 (p_id p)" "int8 (u_id u)"
  shows "executeCheckout (u_id u) (p_id p) q d = (Inr
      \<lparr>cr_order_id = sq_orders (seqs d) + 1, cr_total_amount = p_price p * q,
       cr_remaining_stock = p_stock_quantity p - q\<rparr>, after_checkout p u q d)"
proof -
  have pos: "0 < p_price p" "int4 (p_stock_quantity p)" "int4 (p_price p)" "int4 (u_balance u)"
    using wf_product [OF assms(1) p(1)] wf_user [OF assms(1) u(1)] assms(1) p(1)
    by (auto simp: wf_db_def products_ok_def product_ok_def)
  then have cost: "0 < p_price p * q" using p(2) by simp
  have nonneg: "\<not> p_price p * q < 0" using cost by linarith
  have amounts: "int4 q" "int4 (p_price p * q)" "0 < p_price p * q"
    using pos p(2,3) u(2) cost unfolding int4_def by linarith+
  have stock: "first_where (\<lambda>r. p_id r = p_id p \<and> q \<le> p_stock_quantity r) (products d) = Some p"
    using first_where_key [OF wf_keys(3) [OF assms(1)] p(1) refl] p(3) by simp
  have balance: "first_where (\<lambda>r. u_id r = u_id u \<and> p_price p * q \<le> u_balance r) (users d) = Some u"
    using first_where_key [OF wf_keys(1) [OF assms(1)] u(1) refl] u(2) by simp
  note upd = guarded_update [OF wf_keys(3) [OF assms(1)] stock] guarded_update [OF wf_keys(1) [OF assms(1)] balance]
  have ids: "u_id u \<in> u_id ` set (users d)" "p_id p \<in> p_id ` set (products d)" using p(1) u(1) by auto
  have "\<exists>d'. executeCheckout (u_id u) (p_id p) q d = (Inr
      \<lparr>cr_order_id = sq_orders (seqs d) + 1, cr_total_amount = p_price p * q,
       cr_remaining_stock = p_stock_quantity p - q\<rparr>, d')"
    using amounts nonneg pos(1,3) p(2) stock balance int8 ids ahead_fresh [OF assms(2)]
    by (simp add: executeCheckout_def take_stock_def take_balance_def insert_order_def insert_order_item_def
        insert_task_def Let_def cmd_bind_run cmd_simps param_int_IntN orders_constraints_def
        order_items_constraints_def tasks_constraints_def image_update_where)
  then obtain d' where run: "executeCheckout (u_id u) (p_id p) q d = (Inr
      \<lparr>cr_order_id = sq_orders (seqs d) + 1, cr_total_amount = p_price p * q,
       cr_remaining_stock = p_stock_quantity p - q\<rparr>, d')" by blast
  from executeCheckout_Inr [OF assms(1) this] obtain p' u' where "p' \<in> set (products d)" "p_id p' = p_id p"
    "u' \<in> set (users d)" "u_id u' = u_id u" "d' = after_checkout p' u' q d" by blast
  moreover from this have "p' = p" "u' = u"
    using wf_keys(1,3) [OF assms(1)] p(1) u(1) by (auto simp: distinct_map inj_on_def)
  ultimately show ?thesis using run by simp
qed

lemma after_checkout_ahead:
  "sequences_ahead d \<Longrightarrow> sequences_ahead (after_checkout p u q d)"
  by (auto simp: sequences_ahead_def after_checkout_def)

text \<open>An attempt on a product that is sold out changes nothing.\<close>

lemma attempt_sold_out:
  assumes "wf_db d" and "p \<in> set (products d)" and "p_stock_quantity p < 1" and "int8 (p_id p)"
  shows "checkout publish at \<lparr>ci_user_id = uid, ci_product_id = p_id p, ci_quantity = Num (IntN 1)\<rparr> (d, b) =
    (Inl InsufficientStock, (d, b))"
proof -
  have none: "\<forall>r \<in> set (products d). \<not> (p_id r = p_id p \<and> 1 \<le> p_stock_quantity r)"
    using assms(2,3) wf_keys(3) [OF assms(1)] by (fastforce simp: distinct_map inj_on_def)
  have "rollback d (products_update f d) = d" for f
    by (simp add: rollback_def)
  with none assms(4) show ?thesis
    by (simp add: checkout_def executeCheckout_def take_stock_def Let_def cmd_bind_run cmd_simps
        cmd_transaction_def param_int_IntN int4_def first_where_None [THEN iffD2])
qed

text \<open>What every buyer can still pay for, and what the product costs.\<close>

definition race_ready :: "int \<Rightarrow> checkout_input list \<Rightarrow> db \<Rightarrow> bool" where
  "race_ready price inps d \<longleftrightarrow> wf_db d \<and> sequences_ahead d \<and>
     (\<exists>p \<in> set (products d). p_id p = PRODUCT_ID \<and> p_price p = price) \<and>
     (\<forall>inp \<in> set inps. \<exists>uid. inp = \<lparr>ci_user_id = uid, ci_product_id = PRODUCT_ID, ci_quantity = Num (IntN 1)\<rparr> \<and> int8 uid) \<and>
     (\<forall>uid. price * int (count_list (map ci_user_id inps) uid) \<le> balance_of d uid)"

lemma race_attempt:
  assumes "race_ready price (inp # inps) d" and "\<And>m b. \<exists>b'. publish m b = (Inr (), b')"
    and "checkout publish at inp (d, b) = (r, (d', b'))"
  shows "race_ready price inps d' \<and> (is_ok r \<or> r = Inl InsufficientStock)"
proof -
  obtain p uid where p: "p \<in> set (products d)" "p_id p = PRODUCT_ID" "p_price p = price"
    and inp: "inp = \<lparr>ci_user_id = uid, ci_product_id = PRODUCT_ID, ci_quantity = Num (IntN 1)\<rparr>" "int8 uid"
    and wf: "wf_db d" and ahead: "sequences_ahead d"
    and pay: "\<And>v. price * int (count_list (uid # map ci_user_id inps) v) \<le> balance_of d v"
    using assms(1) by (auto simp: race_ready_def)
  have int8: "int8 (p_id p)" by (simp add: p(2) PRODUCT_ID_def int8_def)
  have price: "0 < price" using wf_product [OF wf p(1)] p(3) by simp
  have rest: "price * int (count_list (map ci_user_id inps) v) \<le> price * int (count_list (uid # map ci_user_id inps) v)" for v
    using price by (intro mult_left_mono) auto
  show ?thesis
  proof (cases "p_stock_quantity p < 1")
    case True
    have "r = Inl InsufficientStock" "d' = d"
      using assms(3) attempt_sold_out [OF wf p(1) True int8, of publish at uid b] p(2) inp(1) by auto
    moreover have "price * int (count_list (map ci_user_id inps) v) \<le> balance_of d v" for v
      using rest pay by (rule order_trans)
    ultimately show ?thesis using assms(1) by (auto simp: race_ready_def)
  next
    case False
    have "price * 1 \<le> price * int (count_list (uid # map ci_user_id inps) uid)"
      using price by (intro mult_left_mono) auto
    then have "price \<le> balance_of d uid" using pay [of uid] by linarith
    with price have "\<exists>u \<in> set (users d). u_id u = uid"
      by (fastforce simp: balance_of_def filter_empty_conv intro: ccontr)
    then obtain u where u: "u \<in> set (users d)" "u_id u = uid" by blast
    with wf_balance_of [OF wf u(1)] \<open>price \<le> balance_of d uid\<close> have "p_price p * 1 \<le> u_balance u"
      using p(3) by simp
    note run = executeCheckout_succeeds [OF wf ahead p(1) _ _ u(1) this int8, unfolded u(2) p(2)]
    obtain res b1 where c: "checkout publish at inp (d, b) = (Inr res, (after_checkout p u 1 d, b1))"
    proof -
      let ?res = "\<lparr>cr_order_id = sq_orders (seqs d) + 1, cr_total_amount = p_price p * 1,
        cr_remaining_stock = p_stock_quantity p - 1\<rparr>"
      obtain b1 where "publish (createOrderPlacedEvent at uid PRODUCT_ID 1 ?res) b = (Inr (), b1)"
        using assms(2) by blast
      with run inp False that show ?thesis
        by (simp add: checkout_def cmd_bind_run cmd_simps cmd_transaction_def)
    qed
    have "wf_db d'" using checkout_wf [OF wf, of publish at inp b] assms(3) by simp
    moreover have "p\<lparr>p_stock_quantity := p_stock_quantity p - 1\<rparr> \<in> set (products d')"
      using p(1) c assms(3) by (auto simp: after_checkout_def set_update_where)
    then have "\<exists>p' \<in> set (products d'). p_id p' = PRODUCT_ID \<and> p_price p' = price"
      using p(2,3) by (intro bexI) simp_all
    moreover have "price * int (count_list (map ci_user_id inps) v) \<le> balance_of d' v" for v
    proof -
      have "balance_of d' v = balance_of d v - (if v = uid then price else 0)"
        using after_checkout_sums(3) [OF wf p(1) u(1), of 1 v] c assms(3) p(3) u(2) by auto
      then show ?thesis using pay [of v] by (auto simp: algebra_simps split: if_splits)
    qed
    ultimately show ?thesis
      using assms(1,3) c after_checkout_ahead [OF ahead] by (auto simp: race_ready_def)
  qed
qed

section \<open>The race\<close>

lemma race_run:
  assumes "race_ready price inps d" and "\<And>m b. \<exists>b'. publish m b = (Inr (), b')"
    and "run_checkouts publish at inps (d, b) = (rs, (d', b'))"
  shows "race_ready price [] d' \<and> (\<forall>e. Inl e \<in> set rs \<longrightarrow> e = InsufficientStock)"
  using assms(1,3)
proof (induction inps arbitrary: d b rs)
  case (Cons inp inps)
  obtain r d1 b1 where c: "checkout publish at inp (d, b) = (r, (d1, b1))" by (metis prod.collapse)
  obtain rs1 where run: "run_checkouts publish at inps (d1, b1) = (rs1, (d', b'))" and rs: "rs = r # rs1"
    using Cons.prems(2) c by (auto split: prod.splits)
  note step = race_attempt [OF Cons.prems(1) assms(2) c]
  with Cons.IH [OF _ run] show ?case unfolding rs by auto
qed simp

lemma race_results_ok:
  assumes "\<forall>e. Inl e \<in> set rs \<longrightarrow> e = InsufficientStock"
  shows "race_results rs = Inr (map is_ok rs)"
  using assms by (induction rs) (auto split: sum.split)

lemma attempts_facts:
  "length attempts = 50" "count_list (map ci_user_id attempts) uid = (if 1 \<le> uid \<and> uid \<le> 10 then 5 else 0)"
  "\<forall>inp \<in> set attempts. \<exists>uid. inp = \<lparr>ci_user_id = uid, ci_product_id = PRODUCT_ID, ci_quantity = Num (IntN 1)\<rparr> \<and> int8 uid"
proof -
  have "map ci_user_id attempts = concat (replicate 5 [1, 2, 3, 4, 5, 6, 7, 8, 9, 10])"
    by code_simp
  then show "count_list (map ci_user_id attempts) uid = (if 1 \<le> uid \<and> uid \<le> 10 then 5 else 0)"
    by (simp add: numeral_eq_Suc) presburger
  show "length attempts = 50" by (simp add: attempts_def ATTEMPTS_def)
  show "\<forall>inp \<in> set attempts. \<exists>uid. inp = \<lparr>ci_user_id = uid, ci_product_id = PRODUCT_ID, ci_quantity = Num (IntN 1)\<rparr> \<and> int8 uid"
    by (auto simp: attempts_def BUYERS_def int8_def
        intro: order_trans [OF less_imp_le [OF mod_less_divisor]])
qed

lemma reset_ready:
  assumes "wf_db d" and "sequences_ahead d" and "{1..10} \<subseteq> u_id ` set (users d)"
    and "p \<in> set (products d)" and "p_id p = PRODUCT_ID" and "p_price p \<le> 2000000"
    and "mset schedule = mset attempts"
  shows "race_ready (p_price p) schedule (resetRaceState d)"
proof -
  let ?d = "resetRaceState d"
  note reset = reset_product [OF assms(1,4,5)]
  have members: "set schedule = set attempts" using assms(7) by (metis set_mset_mset)
  have "mset (map ci_user_id schedule) = mset (map ci_user_id attempts)"
    using assms(7) by simp
  then have calls: "count_list (map ci_user_id schedule) uid = (if 1 \<le> uid \<and> uid \<le> 10 then 5 else 0)" for uid
    using attempts_facts(2) by (metis count_mset)
  have "p_price p * int (count_list (map ci_user_id schedule) uid) \<le> balance_of ?d uid" for uid
  proof (cases "1 \<le> uid \<and> uid \<le> 10")
    case True
    with assms(3) obtain u where "u \<in> set (users d)" "u_id u = uid" by force
    with reset_balance [OF assms(1), of u] True assms(6) show ?thesis by (simp add: calls)
  next
    case False
    then show ?thesis using wf_balance_nonneg [OF reset_wf [OF assms(1)]] by (auto simp: calls)
  qed
  with reset assms(2) show ?thesis
    using attempts_facts(3) members assms(5)
    by (auto simp: race_ready_def reset_wf [OF assms(1)] reset_sequences intro!: bexI [OF _ reset(1)])
qed

text \<open>C4: on every well-formed database with the ten seeded users, sequences that are not behind and
  a first product that costs at most a fifth of the balance the demonstration gives each buyer, and
  in whatever order the fifty concurrent checkouts get the lock of the product's row, exactly ten
  succeed, the final stock is 0, no product has negative stock, and the demonstration passes.\<close>
theorem race_demo_passes:
  assumes "wf_db d" and "sequences_ahead d" and "{1..10} \<subseteq> u_id ` set (users d)"
    and "p \<in> set (products d)" and "p_id p = PRODUCT_ID" and "p_price p \<le> 2000000"
    and "\<And>m b. \<exists>b'. publish m b = (Inr (), b')" and "mset schedule = mset attempts"
  shows "\<exists>s'. race_demo publish at schedule (d, b) = (Inr \<lparr>rr_successful = 10, rr_finalStock = Some 0,
    rr_negativeStockRows = 0, rr_invariantPassed = True\<rparr>, s')"
proof -
  let ?d = "resetRaceState d"
  note reset = reset_product [OF assms(1,4,5)]
  have len: "length schedule = 50" using mset_eq_length [OF assms(8)] attempts_facts(1) by simp
  have members: "set schedule = set attempts" using assms(8) by (metis set_mset_mset)
  note ready = reset_ready [OF assms(1-6,8)]
  obtain rs d' b' where run: "run_checkouts publish at schedule (?d, b) = (rs, (d', b'))"
    by (metis prod.collapse)
  note all = race_run [OF ready assms(7) run]
  have "length (filter is_ok rs) = min (length schedule) (nat (stock_of ?d PRODUCT_ID)) \<and>
      stock_of d' PRODUCT_ID = stock_of ?d PRODUCT_ID - int (length (filter is_ok rs))"
    using attempts_facts(3) members all
    by (intro checkout_race [OF reset_wf [OF assms(1)] assms(7) _ run]) fastforce+
  then have counts: "length (filter is_ok rs) = 10" "stock_of d' PRODUCT_ID = 0"
    using reset(2) len by (simp_all add: INITIAL_STOCK_def)
  obtain q where q: "q \<in> set (products d')" "p_id q = PRODUCT_ID" and wf: "wf_db d'"
    using all by (auto simp: race_ready_def)
  have "first_where (\<lambda>r. p_id r = PRODUCT_ID) (products d') = Some q"
    using first_where_unique [OF wf_keys(3) [OF wf] q(1)] q(2) by simp
  moreover have "p_stock_quantity q = 0" using wf_stock_of [OF wf q(1)] q(2) counts(2) by simp
  moreover have "filter (\<lambda>r. p_stock_quantity r < 0) (products d') = []"
    using wf_product [OF wf] by (force simp: filter_empty_conv)
  moreover have "length (filter id (map is_ok rs)) = 10"
    using counts(1) by (simp add: filter_map comp_def)
  ultimately have "race_report_of (map is_ok rs) d' = \<lparr>rr_successful = 10, rr_finalStock = Some 0,
      rr_negativeStockRows = 0, rr_invariantPassed = True\<rparr>"
    by (simp add: race_report_of_def Let_def INITIAL_STOCK_def)
  then show ?thesis
    using run all by (simp add: race_demo_def cmd_bind_run cmd_simps race_results_ok)
qed


text \<open>What the seed leaves behind is such a database.\<close>

lemma seeded_race:
  assumes "wf_db d" and "seed cr random d = (Inr u, d')"
  obtains p where "wf_db d'" "sequences_ahead d'" "{1..10} \<subseteq> u_id ` set (users d')"
    "p \<in> set (products d')" "p_id p = PRODUCT_ID" "p_price p \<le> 2000000"
proof -
  note run = seed_run [OF assms]
  then have settled: "\<forall>r \<in> set SEED_USERS. u_id r \<in> u_id ` set (users d')"
    and products: "set SEED_PRODUCTS \<subseteq> set (products d')"
    by (auto simp: seeded_def row_settled_def) (metis image_eqI)
  have "sequences_ahead d'"
    using run by (auto simp: sequences_at_max_def sequences_ahead_def elim!: greatest_or_one_upper)
  moreover have "map u_id SEED_USERS = [1..10]"
    by (simp add: SEED_USERS_def seed_user_def upto.simps)
  then have "set (map u_id SEED_USERS) = {1..10}" by (simp only: set_upto)
  then have "{1..10} = u_id ` set SEED_USERS" by simp
  with settled have "{1..10} \<subseteq> u_id ` set (users d')" by (simp add: image_subset_iff)
  moreover have "hd SEED_PRODUCTS \<in> set (products d')" "p_id (hd SEED_PRODUCTS) = PRODUCT_ID"
    "p_price (hd SEED_PRODUCTS) \<le> 2000000"
    using products by (simp_all add: SEED_PRODUCTS_def seed_product_def PRODUCT_ID_def)
  ultimately show ?thesis using that run by blast
qed

theorem race_demo_passes_witness:
  "\<exists>d s'. seed sample_crypto [1, 2] empty_db = (Inr (), d) \<and>
     race_demo (\<lambda>m b. (Inr (), m # b)) ''now'' (rev attempts) (d, []) = (Inr \<lparr>rr_successful = 10,
       rr_finalStock = Some 0, rr_negativeStockRows = 0, rr_invariantPassed = True\<rparr>, s')"
proof -
  note run = seed_empty [of sample_crypto "[1, 2]"]
  from seeded_race [OF wf_empty_db run] show ?thesis
    using race_demo_passes [of _ _ "\<lambda>m b. (Inr (), m # b)" "rev attempts" "''now''" "[]"] run
    by (metis mset_rev)
qed

end
