(* ===== verification/OutboxDemos.thy ===== *)
theory OutboxDemos
  imports Outbox Race "HOL-Library.Sublist"
begin

text \<open>
  The demonstrations of the outbox, run on the modelled components: \<open>src/demo-crash-relay.ts\<close>,
  \<open>src/demo-crash-write.ts\<close>, \<open>src/demo-outbox.ts\<close> and \<open>src/demo-rabbit-duplicate.ts\<close>. The
  state is the database, the counters of the consumer and what was published to the work queue
  since it was purged.

  The consumer runs while the demonstrations wait: what the broker hands over before each
  poll of \<open>waitFor\<close> is a function of the queue. The relay and the consumer touch different
  tables, so deliveries that happen earlier have the same effect.
\<close>

section \<open>What the demonstrations share\<close>

type_synonym bench = "db \<times> consumer_stats \<times> jsval list"

definition on_db :: "(db, 'a) cmd \<Rightarrow> (bench, 'a) cmd" where
  "on_db m = on_fst m"

definition on_relay :: "(db \<times> jsval list, 'a) cmd \<Rightarrow> (bench, 'a) cmd" where
  "on_relay m = (\<lambda>(d, st, q). case m (d, q) of (r, (d', q')) \<Rightarrow> (r, (d', st, q')))"

lemma on_db_run [cmd_simps]: "on_db m (d, st, q) = (fst (m d), (snd (m d), st, q))"
  by (simp add: on_db_def cmd_simps)

lemma on_relay_run [cmd_simps]:
  "on_relay m (d, st, q) = (fst (m (d, q)), (fst (snd (m (d, q))), st, snd (snd (m (d, q)))))"
  by (simp add: on_relay_def split: prod.split)

definition purgeQueue :: "(bench, unit) cmd" where
  "purgeQueue = cmd_write (\<lambda>(d, st, q). (d, st, []))"

definition no_stats :: consumer_stats where
  "no_stats = \<lparr>cs_delivered = 0, cs_effect = 0, cs_skipped = 0, cs_acked = 0\<rparr>"

definition startConsumer :: "(bench, unit) cmd" where
  "startConsumer = cmd_write (\<lambda>(d, st, q). (d, no_stats, q))"

text \<open>\<open>DELETE FROM processed_messages\<close>, \<open>order_event_effects\<close> and \<open>outbox_messages\<close>.\<close>

definition forget_message :: "string \<Rightarrow> db \<Rightarrow> db" where
  "forget_message m d = d\<lparr>processed := filter (\<lambda>r. pm_message_id r \<noteq> m) (processed d),
     effects := filter (\<lambda>r. ef_message_id r \<noteq> m) (effects d)\<rparr>"

definition delete_outbox :: "(outbox_row \<Rightarrow> bool) \<Rightarrow> db \<Rightarrow> db" where
  "delete_outbox p = outbox_update (filter (\<lambda>r. \<not> p r))"

text \<open>\<open>ORDER BY id LIMIT 1\<close>, and the three counts.\<close>

definition first_by :: "('r \<Rightarrow> int) \<Rightarrow> 'r list \<Rightarrow> 'r option" where
  "first_by key rows = (case sort_key key rows of [] \<Rightarrow> None | r # _ \<Rightarrow> Some r)"

definition row_count :: "('r \<Rightarrow> bool) \<Rightarrow> 'r list \<Rightarrow> nat" where
  "row_count p rows = length (filter p rows)"

definition processed_count :: "string \<Rightarrow> db \<Rightarrow> nat" where
  "processed_count m d = row_count (\<lambda>r. pm_message_id r = m) (processed d)"

definition effect_count :: "string \<Rightarrow> db \<Rightarrow> nat" where
  "effect_count m d = row_count (\<lambda>r. ef_message_id r = m) (effects d)"

text \<open>
  \<open>waitFor\<close>: poll, and give up with \<open>msg\<close> at the deadline. Before poll \<open>k\<close> the consumer handles the
  \<open>k\<close>-th list of messages; the last list is what arrives before the deadline.
\<close>

fun waitFor :: "pg_driver \<Rightarrow> string \<Rightarrow> (bench \<Rightarrow> bool) \<Rightarrow> jsval list list \<Rightarrow> (bench, unit) cmd" where
  "waitFor drv msg ready [] s = (Inl (JsError msg), s)"
| "waitFor drv msg ready (ms # mss) s =
     (let s' = snd (consume_all drv None (map Some ms) s)
      in if ready s' then (Inr (), s') else waitFor drv msg ready mss s')"

text \<open>
  What the demonstrations rely on of the broker: every message of the queue is delivered, and
  nothing else; in a run without redelivery each is delivered once, in order.
\<close>

definition at_least_once :: "(jsval list \<Rightarrow> jsval list list) \<Rightarrow> bool" where
  "at_least_once deliver \<longleftrightarrow>
     (\<forall>q. set (concat (deliver q)) = set q \<and> length q \<le> length (concat (deliver q)))"

definition in_order :: "(jsval list \<Rightarrow> jsval list list) \<Rightarrow> bool" where
  "in_order deliver \<longleftrightarrow> (\<forall>q. concat (deliver q) = q)"

section \<open>The relay crashes\<close>

definition CRASH_RELAY_EVENT :: string where
  "CRASH_RELAY_EVENT = ''hw22-crash-relay-event''"

definition prepareCrashRelay :: "(bench, order_row) cmd" where
  "prepareCrashRelay =
     cmd_bind (on_db (cmd_write (forget_message CRASH_RELAY_EVENT))) (\<lambda>_.
     cmd_bind (on_db (cmd_write (delete_outbox (\<lambda>r. ob_event_id r = CRASH_RELAY_EVENT)))) (\<lambda>_.
     cmd_bind (on_db (cmd_write (delete_outbox (\<lambda>r. ob_published_at r = None)))) (\<lambda>_.
     cmd_bind (on_db (cmd_read (\<lambda>d. first_by o_id (orders d)))) (\<lambda>order_opt.
     case order_opt of
       None \<Rightarrow> cmd_throw (JsError ''No order found. Run npm run seed first.'')
     | Some order \<Rightarrow> cmd_bind purgeQueue (\<lambda>_. cmd_return order)))))"

definition crash_event :: "string \<Rightarrow> order_row \<Rightarrow> jsval" where
  "crash_event at order =
     toOrderPlacedEvent CRASH_RELAY_EVENT (o_id order) (o_user_id order) [] (o_total_amount order) at"

definition createOutboxEvent :: "string \<Rightarrow> int \<Rightarrow> order_row \<Rightarrow> (db, unit) cmd" where
  "createOutboxEvent at now order =
     (let event = crash_event at order
      in if opt_prop event ''type'' \<noteq> Str ORDER_PLACED_TYPE
         then cmd_throw (JsError ''Unexpected event type'')
         else cmd_bind (insert_outbox CRASH_RELAY_EVENT ''order'' (show_int (o_id order)) ORDER_PLACED_TYPE event now)
           (\<lambda>_. cmd_return ()))"

text \<open>The first relay has to throw the simulated crash; anything else is thrown on.\<close>

definition simulated_crash :: "err \<Rightarrow> bool" where
  "simulated_crash e = (case e of JsError m \<Rightarrow> sublist ''Simulated relay crash after publish'' m | _ \<Rightarrow> False)"

definition expect_crash :: "('s, 'a) cmd \<Rightarrow> ('s, unit) cmd" where
  "expect_crash m = (\<lambda>s. case m s of
       (Inr _, s') \<Rightarrow> (Inl (JsError ''Expected first relay attempt to crash''), s')
     | (Inl e, s') \<Rightarrow> (if simulated_crash e then Inr () else Inl e, s'))"

definition published_at_of :: "string \<Rightarrow> db \<Rightarrow> int option option" where
  "published_at_of m d = map_option ob_published_at (first_where (\<lambda>r. ob_event_id r = m) (outbox d))"

record crash_relay_report =
  cr_published :: int
  cr_deliveries :: int
  cr_applied :: int
  cr_effect :: nat
  cr_processed :: nat
  cr_passed :: bool

definition crash_relay_demo ::
  "pg_driver \<Rightarrow> (jsval \<Rightarrow> (jsval list, unit) cmd) \<Rightarrow> (jsval list \<Rightarrow> jsval list list) \<Rightarrow> string \<Rightarrow> (nat \<Rightarrow> int)
     \<Rightarrow> (bench, crash_relay_report) cmd" where
  "crash_relay_demo drv publish deliver at now =
     cmd_bind prepareCrashRelay (\<lambda>order.
     cmd_bind (on_db (createOutboxEvent at (now 0) order)) (\<lambda>_.
     cmd_bind startConsumer (\<lambda>_.
     cmd_bind (expect_crash (on_relay (relayOutboxBatch (\<lambda>_. False) publish (now 1)
       \<lparr>ro_batchSize = Some 1, ro_crashAfterPublish = True\<rparr>))) (\<lambda>_.
     cmd_bind (on_db (cmd_read (published_at_of CRASH_RELAY_EVENT))) (\<lambda>afterCrash.
     if afterCrash \<noteq> Some None
     then cmd_throw (JsError ''Outbox was incorrectly marked as published after relay crash'')
     else
       cmd_bind (on_relay (relayOutboxBatch (\<lambda>_. False) publish (now 2)
         \<lparr>ro_batchSize = Some 1, ro_crashAfterPublish = False\<rparr>)) (\<lambda>secondAttempt.
       cmd_bind (cmd_read (\<lambda>(_, _, q). deliver q)) (\<lambda>deliveries.
       cmd_bind (waitFor drv ''Timed out waiting for duplicate RabbitMQ delivery'' (\<lambda>(d, st, _). 2 \<le> cs_delivered st \<and> effect_count CRASH_RELAY_EVENT d = 1 \<and>
         processed_count CRASH_RELAY_EVENT d = 1) deliveries) (\<lambda>_.
       cmd_read (\<lambda>(d, st, _).
         let published = 1 + rs_published secondAttempt;
             deliveries = cs_delivered st;
             applied = cs_effect st;
             effect = effect_count CRASH_RELAY_EVENT d;
             processed = processed_count CRASH_RELAY_EVENT d;
             markedPublished = (case published_at_of CRASH_RELAY_EVENT d of Some (Some _) \<Rightarrow> True | _ \<Rightarrow> False)
         in \<lparr>cr_published = published, cr_deliveries = deliveries, cr_applied = applied, cr_effect = effect,
             cr_processed = processed,
             cr_passed = (2 \<le> published \<and> 2 \<le> deliveries \<and> applied = 1 \<and> effect = 1 \<and> processed = 1 \<and>
               markedPublished)\<rparr>)))))))))"

section \<open>Deliveries of one message\<close>

text \<open>The state after \<open>n\<close> deliveries of a new valid message with identifier \<open>k\<close>.\<close>

definition delivered :: "pg_driver \<Rightarrow> jsval \<Rightarrow> int \<Rightarrow> db \<Rightarrow> jsval list \<Rightarrow> nat \<Rightarrow> bench" where
  "delivered drv m i d q n = (if n = 0 then (d, no_stats, q)
     else (after_effect drv m i d, \<lparr>cs_delivered = int n, cs_effect = 1, cs_skipped = int n - 1, cs_acked = int n\<rparr>, q))"

definition order_event :: "pg_driver \<Rightarrow> jsval \<Rightarrow> int \<Rightarrow> bool" where
  "order_event drv m i \<longleftrightarrow> valid_event drv m \<and>
     (\<exists>v. get_prop (opt_prop m ''data'') ''orderId'' = Inr v \<and> pg_bigint drv v = Inr i)"

lemma process_order_event:
  assumes "inbox_ok d" and "order_event drv m i"
  shows "processOrderPlacedEvent drv m d =
    (if event_id_text drv m \<in> inbox_ids d then (Inr Skipped, d) else (Inr Applied, after_effect drv m i d))"
proof -
  from assms(2) obtain v where v: "valid_event drv m" "get_prop (opt_prop m ''data'') ''orderId'' = Inr v"
    "pg_bigint drv v = Inr i" by (auto simp: order_event_def)
  from process_valid [OF v(1), of d] obtain r d' where p: "processOrderPlacedEvent drv m d = (Inr r, d')" by blast
  with assms(1) show ?thesis
    by (rule process_cases) (use v p in auto)
qed

lemma consume_order_event:
  assumes "inbox_ok d" and "order_event drv m i"
  shows "consume drv None (Some (Some m)) (d, st, c) = (Some Ack,
    if event_id_text drv m \<in> inbox_ids d
    then (d, st\<lparr>cs_delivered := cs_delivered st + 1, cs_skipped := cs_skipped st + 1, cs_acked := cs_acked st + 1\<rparr>, c)
    else (after_effect drv m i d,
      st\<lparr>cs_delivered := cs_delivered st + 1, cs_effect := cs_effect st + 1, cs_acked := cs_acked st + 1\<rparr>, c))"
proof -
  have "parseOrderPlacedEvent (Some m) = Inr m" using assms(2) by (simp add: order_event_def valid_event_def)
  then show ?thesis
    using process_order_event [OF assms]
    by (cases st) (simp add: consume_def handle_message_def cmd_bind_run cmd_simps)
qed

lemma consume_delivered:
  assumes "inbox_ok d" and "order_event drv m i" and "event_id_text drv m \<notin> inbox_ids d"
  shows "consume drv None (Some (Some m)) (delivered drv m i d q n) = (Some Ack, delivered drv m i d q (Suc n))"
proof (cases n)
  case 0
  with assms show ?thesis by (simp add: delivered_def no_stats_def consume_order_event)
next
  case (Suc k)
  have "inbox_ok (after_effect drv m i d)" by (rule after_effect_wf [OF assms(1,3)])
  with assms(2) Suc show ?thesis by (simp add: delivered_def consume_order_event after_effect_ids)
qed

lemma consume_all_delivered:
  assumes "inbox_ok d" and "order_event drv m i" and "event_id_text drv m \<notin> inbox_ids d" and "set ms \<subseteq> {m}"
  shows "snd (consume_all drv None (map Some ms) (delivered drv m i d q n)) = delivered drv m i d q (n + length ms)"
  using assms(4)
proof (induction ms arbitrary: n)
  case (Cons x ms)
  then have "x = m" by simp
  with Cons consume_delivered [OF assms(1-3), of q n] show ?case
    by (simp del: consume_all.simps add: consume_all.simps(2) case_prod_beta)
qed simp

text \<open>A wait for at least \<open>t\<close> deliveries of the message ends well if that many arrive.\<close>

lemma waitFor_delivered:
  assumes "inbox_ok d" and "order_event drv m i" and "event_id_text drv m \<notin> inbox_ids d"
    and "set (concat mss) \<subseteq> {m}" and "n < t" and "t \<le> n + length (concat mss)"
    and "\<And>k. k \<le> n + length (concat mss) \<Longrightarrow> ready (delivered drv m i d q k) \<longleftrightarrow> t \<le> k"
  shows "\<exists>k \<ge> t. k \<le> n + length (concat mss) \<and>
    waitFor drv msg ready mss (delivered drv m i d q n) = (Inr (), delivered drv m i d q k)"
  using assms(4-7)
proof (induction mss arbitrary: n)
  case (Cons ms mss)
  then have ms: "set ms \<subseteq> {m}" by simp
  note step = consume_all_delivered [OF assms(1-3) ms, of q n]
  show ?case
  proof (cases "t \<le> n + length ms")
    case True
    with Cons.prems(4) [of "n + length ms"] step show ?thesis by (intro exI [of _ "n + length ms"]) simp
  next
    case False
    with Cons.prems Cons.IH [of "n + length ms"] obtain k where
      "t \<le> k" "k \<le> n + length ms + length (concat mss)"
      "waitFor drv msg ready mss (delivered drv m i d q (n + length ms)) = (Inr (), delivered drv m i d q k)"
      by (auto simp: add.assoc)
    with False Cons.prems(4) [of "n + length ms"] step show ?thesis by (intro exI [of _ k]) simp
  qed
qed simp

section \<open>Preparing the tables\<close>

lemma filter_image_minus: "k ` set (filter (\<lambda>r. k r \<noteq> m) rs) = k ` set rs - {m}"
  by auto

lemma forget_wf: "wf_db d \<Longrightarrow> wf_db (forget_message m d)"
  by (simp add: wf_db_def ids_defs forget_message_def processed_ok_def effects_ok_def distinct_map_filter')

lemma forget_inbox:
  "inbox_ids (forget_message m d) = inbox_ids d - {m}" "effect_ids (forget_message m d) = effect_ids d - {m}"
  by (auto simp: forget_message_def inbox_ids_def effect_ids_def)

lemma forget_inbox_ok: "inbox_ok d \<Longrightarrow> inbox_ok (forget_message m d)"
  by (simp add: inbox_ok_def forget_wf forget_inbox)

lemma forget_counts [simp]: "processed_count m (forget_message m d) = 0" "effect_count m (forget_message m d) = 0"
  by (simp_all add: processed_count_def effect_count_def row_count_def forget_message_def)

lemma delete_outbox_wf: "wf_db d \<Longrightarrow> wf_db (delete_outbox p d)"
  by (simp add: wf_db_def ids_defs delete_outbox_def outbox_ok_def distinct_map_filter')

lemma delete_outbox_fields [simp]:
  "processed (delete_outbox p d) = processed d" "effects (delete_outbox p d) = effects d"
  "orders (delete_outbox p d) = orders d" "seqs (delete_outbox p d) = seqs d"
  "outbox (delete_outbox p d) = filter (\<lambda>r. \<not> p r) (outbox d)"
  "users (delete_outbox p d) = users d" "products (delete_outbox p d) = products d"
  "order_items (delete_outbox p d) = order_items d" "tasks (delete_outbox p d) = tasks d" "idem_keys (delete_outbox p d) = idem_keys d"
  by (simp_all add: delete_outbox_def)

lemma forget_fields [simp]:
  "orders (forget_message m d) = orders d" "seqs (forget_message m d) = seqs d" "outbox (forget_message m d) = outbox d"
  "users (forget_message m d) = users d" "products (forget_message m d) = products d"
  "order_items (forget_message m d) = order_items d" "tasks (forget_message m d) = tasks d" "idem_keys (forget_message m d) = idem_keys d"
  by (simp_all add: forget_message_def)

lemma delete_outbox_inbox_ok: "inbox_ok d \<Longrightarrow> inbox_ok (delete_outbox p d)"
  by (simp add: inbox_ok_def delete_outbox_wf inbox_ids_def effect_ids_def)

section \<open>One row in the queue\<close>

definition accepting :: "(jsval \<Rightarrow> (jsval list, unit) cmd) \<Rightarrow> bool" where
  "accepting publish \<longleftrightarrow> (\<forall>m q. publish m q = (Inr (), q @ [m]))"

lemma relay_one:
  assumes "accepting publish" and "unpublished d = [row]" and "int8 n" and "0 < n"
    and "\<forall>r \<in> set (outbox d). ob_id r = ob_id row \<longrightarrow> int4 (ob_attempts r + 1)"
  shows "relayOutboxBatch (\<lambda>_. False) publish now \<lparr>ro_batchSize = Some n, ro_crashAfterPublish = crash\<rparr> (d, q) =
    (if crash then (Inl (JsError ''Simulated relay crash after publish before published_at update''), (d, q @ [ob_payload row]))
     else (Inr \<lparr>rs_selected = 1, rs_published = 1, rs_markedPublished = 1\<rparr>,
       (mark_rows now {ob_id row} d, q @ [ob_payload row])))"
proof -
  have b: "batch (\<lambda>_. False) \<lparr>ro_batchSize = Some n, ro_crashAfterPublish = crash\<rparr> d = [row]"
    using assms(2,4) by (cases "nat n") (simp_all add: batch_def batch_size_def)
  have "snd (bump_attempts (ob_id row) d) = d\<lparr>outbox := outbox (snd (bump_attempts (ob_id row) d))\<rparr>"
    by (simp add: bump_attempts_run)
  then have "rollback d (snd (bump_attempts (ob_id row) d)) = d"
    by (metis db.ext_inject db.surjective db.update_convs(6) rollback_def rollback_same)
  with assms b show ?thesis
    by (simp add: relay_unfold batch_size_def cmd_transaction_def cmd_bind_run cmd_simps relay_row_run
        accepting_def relay_rollback_def)
qed

lemma show_nat_length: "n < 10 ^ Suc k \<Longrightarrow> length (show_nat n) \<le> Suc k"
proof (induction k arbitrary: n)
  case 0
  then show ?case by (subst show_nat.simps) simp
next
  case (Suc k)
  then have "length (show_nat (n div 10)) \<le> Suc k" by (intro Suc.IH) (simp add: less_mult_imp_div_less)
  then show ?case by (subst show_nat.simps) simp
qed

lemma show_int_length:
  assumes "int8 i" shows "length (show_int i) \<le> 20"
proof -
  have "nat \<bar>i\<bar> < 10 ^ Suc 18" using assms by (auto simp: int8_def)
  then have "length (show_nat (nat \<bar>i\<bar>)) \<le> Suc 18" by (rule show_nat_length)
  then show ?thesis by (auto simp: show_int_def split: if_splits)
qed

definition new_outbox_row :: "string \<Rightarrow> int \<Rightarrow> jsval \<Rightarrow> int \<Rightarrow> db \<Rightarrow> outbox_row" where
  "new_outbox_row e i event now d = \<lparr>ob_id = sq_outbox (seqs d) + 1, ob_event_id = e, ob_aggregate_type = ''order'',
     ob_aggregate_id = show_int i, ob_type = ORDER_PLACED_TYPE, ob_payload = event, ob_created_at = now,
     ob_published_at = None, ob_attempts = 0\<rparr>"

definition queued :: "string \<Rightarrow> int \<Rightarrow> jsval \<Rightarrow> int \<Rightarrow> db \<Rightarrow> db" where
  "queued e i event now d = d\<lparr>outbox := outbox d @ [new_outbox_row e i event now d],
     seqs := (seqs d)\<lparr>sq_outbox := sq_outbox (seqs d) + 1\<rparr>\<rparr>"

definition outbox_ahead :: "db \<Rightarrow> bool" where
  "outbox_ahead d \<longleftrightarrow> (\<forall>r \<in> set (outbox d). ob_id r \<le> sq_outbox (seqs d))"

lemma insert_outbox_queued:
  assumes "outbox_ahead d" and "e \<notin> ob_event_id ` set (outbox d)" and "length e \<le> 150" and "int8 i"
  shows "insert_outbox e ''order'' (show_int i) ORDER_PLACED_TYPE event now d =
    (Inr (new_outbox_row e i event now d), queued e i event now d)"
proof -
  have "length (show_int i) \<le> 100" using show_int_length [OF assms(4)] by simp
  moreover have "sq_outbox (seqs d) + 1 \<notin> ob_id ` set (outbox d)"
    using assms(1) by (auto simp: outbox_ahead_def)
  ultimately show ?thesis
    using assms(2,3)
    by (simp add: insert_outbox_Inr new_outbox_row_def queued_def outbox_constraints_def ORDER_PLACED_TYPE_def)
qed

lemma queued_inbox_ok:
  assumes "inbox_ok d" and "outbox_ahead d" and "e \<notin> ob_event_id ` set (outbox d)"
  shows "inbox_ok (queued e i event now d)" and "inbox_ids (queued e i event now d) = inbox_ids d"
  using assms
  by (auto simp: inbox_ok_def wf_db_def ids_defs queued_def new_outbox_row_def outbox_ok_def outbox_ahead_def
      inbox_ids_def effect_ids_def)

lemma queued_row:
  assumes "outbox_ahead d" and "unpublished d = []"
  shows "unpublished (queued e i event now d) = [new_outbox_row e i event now d]"
    and "\<forall>r \<in> set (outbox (queued e i event now d)). ob_id r = ob_id (new_outbox_row e i event now d) \<longrightarrow> int4 (ob_attempts r + 1)"
proof -
  have "filter (\<lambda>r. ob_published_at r = None) (outbox d) = []"
    using assms(2) unpublished_rows [of _ d] by (auto simp: filter_empty_conv)
  then show "unpublished (queued e i event now d) = [new_outbox_row e i event now d]"
    by (simp add: unpublished_def queued_def new_outbox_row_def)
  show "\<forall>r \<in> set (outbox (queued e i event now d)). ob_id r = ob_id (new_outbox_row e i event now d) \<longrightarrow> int4 (ob_attempts r + 1)"
    using assms(1) by (auto simp: queued_def new_outbox_row_def outbox_ahead_def int4_def)
qed

lemma queued_published_at:
  assumes "e \<notin> ob_event_id ` set (outbox d)"
  shows "published_at_of e (queued e i event now d) = Some None"
    and "outbox_ahead d \<Longrightarrow> published_at_of e (mark_rows now' {ob_id (new_outbox_row e i event now d)} (queued e i event now d)) = Some (Some now')"
proof -
  have none: "first_where (\<lambda>r. ob_event_id r = e) (outbox d) = None" using assms by auto
  then show "published_at_of e (queued e i event now d) = Some None"
    by (simp add: published_at_of_def queued_def first_where_append new_outbox_row_def del: first_where_None)
  assume "outbox_ahead d"
  then have "update_where (\<lambda>r. ob_id r \<in> {sq_outbox (seqs d) + 1}) f (outbox d) = outbox d" for f
    by (intro update_where_id) (auto simp: outbox_ahead_def)
  with none show "published_at_of e (mark_rows now' {ob_id (new_outbox_row e i event now d)} (queued e i event now d)) = Some (Some now')"
    by (simp add: published_at_of_def queued_def first_where_append new_outbox_row_def mark_rows_def del: first_where_None)
qed

lemma placed_order_event:
  assumes "driver_ok drv" and "e \<noteq> []" and "length e \<le> 150" and "i \<noteq> 0" and "int8 i" and "at \<noteq> []"
  shows "order_event drv (toOrderPlacedEvent e i u items t at) i"
    and "event_id_text drv (toOrderPlacedEvent e i u items t at) = e"
proof -
  let ?r = "new_outbox_row e i (toOrderPlacedEvent e i u items t at) 0 empty_db"
  have "outbox_row_ok ?r"
    using assms unfolding outbox_row_ok_def
    by (intro conjI exI [of _ i] exI [of _ u] exI [of _ items] exI [of _ t] exI [of _ at]) (simp_all add: new_outbox_row_def)
  from payload_valid [OF assms(1) this]
  have v: "valid_event drv (toOrderPlacedEvent e i u items t at)"
    "event_id_text drv (toOrderPlacedEvent e i u items t at) = e" by (simp_all add: new_outbox_row_def)
  show "event_id_text drv (toOrderPlacedEvent e i u items t at) = e" by (rule v(2))
  have "get_prop (opt_prop (toOrderPlacedEvent e i u items t at) ''data'') ''orderId'' = Inr (Num (IntN i))"
    by (simp add: toOrderPlacedEvent_def)
  with v(1) assms(1,5) show "order_event drv (toOrderPlacedEvent e i u items t at) i"
    by (auto simp: order_event_def driver_ok_def param_int_IntN)
qed

lemma delivered_counts:
  assumes "processed_count k d = 0" and "effect_count k d = 0" and "event_id_text drv m = k"
  shows "processed_count k (fst (delivered drv m i d q n)) = (if n = 0 then 0 else 1)"
    and "effect_count k (fst (delivered drv m i d q n)) = (if n = 0 then 0 else 1)"
  using assms by (auto simp: delivered_def after_effect_def new_effect_def processed_count_def effect_count_def row_count_def)

text \<open>A row that is queued behind no other, relayed, delivered and applied.\<close>

definition relayed_row :: "string \<Rightarrow> int \<Rightarrow> jsval \<Rightarrow> int \<Rightarrow> int \<Rightarrow> db \<Rightarrow> db" where
  "relayed_row e i m now now' d = mark_rows now' {ob_id (new_outbox_row e i m now d)} (queued e i m now d)"

lemma relay_queued:
  assumes "accepting publish" and "outbox_ahead d" and "unpublished d = []" and "int8 n" and "0 < n"
  shows "relayOutboxBatch (\<lambda>_. False) publish now' \<lparr>ro_batchSize = Some n, ro_crashAfterPublish = crash\<rparr> (queued e i m now d, q) =
    (if crash then (Inl (JsError ''Simulated relay crash after publish before published_at update''), (queued e i m now d, q @ [m]))
     else (Inr \<lparr>rs_selected = 1, rs_published = 1, rs_markedPublished = 1\<rparr>, (relayed_row e i m now now' d, q @ [m])))"
  using relay_one [OF assms(1) queued_row(1) [OF assms(2,3)] assms(4,5) queued_row(2) [OF assms(2,3)]]
  by (simp add: relayed_row_def new_outbox_row_def)

definition event_unseen :: "string \<Rightarrow> db \<Rightarrow> bool" where
  "event_unseen e d \<longleftrightarrow> e \<notin> ob_event_id ` set (outbox d) \<and> processed_count e d = 0 \<and> effect_count e d = 0"

lemma unseen_inbox: "event_unseen e d \<Longrightarrow> e \<notin> inbox_ids d"
  by (auto simp: event_unseen_def processed_count_def row_count_def inbox_ids_def filter_empty_conv)

lemma relayed_row_ok:
  assumes "inbox_ok d" and "outbox_ahead d" and "event_unseen e d"
  shows "inbox_ok (relayed_row e i m now now' d)" and "inbox_ids (relayed_row e i m now now' d) = inbox_ids d"
    and "processed_count e (relayed_row e i m now now' d) = 0" and "effect_count e (relayed_row e i m now now' d) = 0"
proof -
  have "e \<notin> ob_event_id ` set (outbox d)" using assms(3) by (simp add: event_unseen_def)
  note q = queued_inbox_ok [OF assms(1,2) this, of i m now]
  show "inbox_ids (relayed_row e i m now now' d) = inbox_ids d"
    by (simp add: relayed_row_def mark_rows_def queued_def inbox_ids_def)
  show "inbox_ok (relayed_row e i m now now' d)"
    using q by (simp add: relayed_row_def inbox_ok_def mark_rows_wf) (simp add: mark_rows_def inbox_ids_def effect_ids_def)
  show "processed_count e (relayed_row e i m now now' d) = 0" "effect_count e (relayed_row e i m now now' d) = 0"
    using assms(3) by (simp_all add: event_unseen_def relayed_row_def mark_rows_def queued_def processed_count_def effect_count_def)
qed

definition applied_row :: "pg_driver \<Rightarrow> string \<Rightarrow> int \<Rightarrow> jsval \<Rightarrow> int \<Rightarrow> int \<Rightarrow> db \<Rightarrow> db" where
  "applied_row drv e i m now now' d = after_effect drv m i (relayed_row e i m now now' d)"

lemma applied_row_counts:
  assumes "outbox_ahead d" and "event_unseen e d" and "event_id_text drv m = e"
  shows "processed_count e (applied_row drv e i m now now' d) = 1" and "effect_count e (applied_row drv e i m now now' d) = 1"
    and "published_at_of e (applied_row drv e i m now now' d) = Some (Some now')"
proof -
  show "processed_count e (applied_row drv e i m now now' d) = 1" "effect_count e (applied_row drv e i m now now' d) = 1"
    using assms by (simp_all add: applied_row_def relayed_row_def event_unseen_def after_effect_def new_effect_def
        processed_count_def effect_count_def row_count_def mark_rows_def queued_def)
  have "e \<notin> ob_event_id ` set (outbox d)" using assms(2) by (simp add: event_unseen_def)
  from queued_published_at(2) [OF this assms(1)]
  show "published_at_of e (applied_row drv e i m now now' d) = Some (Some now')"
    by (simp add: applied_row_def relayed_row_def published_at_of_def after_effect_def)
qed

text \<open>Waiting for \<open>t\<close> deliveries of the event, each with one effect and one inbox row.\<close>

lemma waitFor_row:
  assumes "inbox_ok d" and "outbox_ahead d" and "event_unseen e d" and "order_event drv m i" and "event_id_text drv m = e"
    and "set (concat mss) \<subseteq> {m}" and "0 < t" and "t \<le> length (concat mss)"
    and "\<And>d st q. 0 \<le> cs_delivered st \<Longrightarrow> ready (d, st, q) \<longleftrightarrow> int t' \<le> cs_delivered st \<and> (need \<longrightarrow> effect_count e d = 1) \<and> processed_count e d = 1"
    and "t = max 1 t'"
  obtains k where "t \<le> k" and "k \<le> length (concat mss)"
    and "waitFor drv msg ready mss (relayed_row e i m now now' d, no_stats, q) = (Inr (), (applied_row drv e i m now now' d,
      \<lparr>cs_delivered = int k, cs_effect = 1, cs_skipped = int k - 1, cs_acked = int k\<rparr>, q))"
proof -
  let ?d = "relayed_row e i m now now' d"
  note ok = relayed_row_ok [OF assms(1-3), of i m now now']
  have "e \<notin> inbox_ids ?d" using unseen_inbox [OF assms(3)] ok(2) by simp
  then have new: "event_id_text drv m \<notin> inbox_ids ?d" by (simp add: assms(5))
  have "\<exists>k \<ge> t. k \<le> 0 + length (concat mss) \<and>
      waitFor drv msg ready mss (delivered drv m i ?d q 0) = (Inr (), delivered drv m i ?d q k)"
  proof (rule waitFor_delivered [OF ok(1) assms(4) new assms(6)])
    show "ready (delivered drv m i ?d q k) \<longleftrightarrow> t \<le> k" for k
      using delivered_counts [OF ok(3,4) assms(5), of i q k] assms(10)
      by (cases "delivered drv m i ?d q k") (auto simp: assms(9) delivered_def no_stats_def split: if_splits)
  qed (use assms(7,8) in auto)
  then obtain k where k: "t \<le> k" "k \<le> length (concat mss)"
    "waitFor drv msg ready mss (?d, no_stats, q) = (Inr (), delivered drv m i ?d q k)" by (auto simp: delivered_def)
  moreover have "delivered drv m i ?d q k = (applied_row drv e i m now now' d,
      \<lparr>cs_delivered = int k, cs_effect = 1, cs_skipped = int k - 1, cs_acked = int k\<rparr>, q)"
    using k(1) assms(7) by (simp add: delivered_def applied_row_def)
  ultimately show ?thesis using that [of k] by simp
qed

section \<open>A crash of the relay between publication and mark\<close>

definition crash_relay_ready :: "db \<Rightarrow> db" where
  "crash_relay_ready d = delete_outbox (\<lambda>r. ob_published_at r = None)
     (delete_outbox (\<lambda>r. ob_event_id r = CRASH_RELAY_EVENT) (forget_message CRASH_RELAY_EVENT d))"

lemma crash_relay_ready:
  assumes "inbox_ok d" and "outbox_ahead d"
  shows "inbox_ok (crash_relay_ready d)" and "outbox_ahead (crash_relay_ready d)"
    and "unpublished (crash_relay_ready d) = []" and "event_unseen CRASH_RELAY_EVENT (crash_relay_ready d)"
    and "orders (crash_relay_ready d) = orders d"
proof -
  show "inbox_ok (crash_relay_ready d)"
    unfolding crash_relay_ready_def by (intro delete_outbox_inbox_ok forget_inbox_ok assms)
  show "outbox_ahead (crash_relay_ready d)"
    using assms(2) by (simp add: crash_relay_ready_def outbox_ahead_def)
  have "filter (\<lambda>r. ob_published_at r = None) (outbox (crash_relay_ready d)) = []"
    by (auto simp: crash_relay_ready_def filter_empty_conv)
  then show "unpublished (crash_relay_ready d) = []"
    by (simp add: unpublished_def)
  show "event_unseen CRASH_RELAY_EVENT (crash_relay_ready d)"
    by (auto simp: event_unseen_def crash_relay_ready_def processed_count_def effect_count_def row_count_def forget_message_def)
qed (simp add: crash_relay_ready_def)

text \<open>C9: the demonstration of a relay that crashes after the broker confirmed the message and before
  the row is marked passes on every database with an order: the crash leaves the row
  unpublished, the second relay publishes it again and marks it, the broker has the event
  twice, and the consumer applies it once, however often and in whatever portions an
  at-least-once broker delivers it.\<close>
theorem crash_relay_demo_passes:
  assumes "accepting publish" and "at_least_once deliver" and "driver_ok drv" and "inbox_ok d" and "outbox_ahead d"
    and "first_by o_id (orders d) = Some order" and "o_id order \<noteq> 0" and "int8 (o_id order)" and "at \<noteq> []"
  shows "\<exists>rep d' st'. crash_relay_demo drv publish deliver at now (d, st, q) =
      (Inr rep, (d', st', [crash_event at order, crash_event at order])) \<and> cr_passed rep \<and> cr_published rep = 2 \<and>
      effect_count CRASH_RELAY_EVENT d' = 1 \<and> published_at_of CRASH_RELAY_EVENT d' = Some (Some (now 2))"
proof -
  let ?e = CRASH_RELAY_EVENT and ?i = "o_id order" and ?m = "crash_event at order" and ?d = "crash_relay_ready d"
  let ?w = "\<lambda>(d, st, _ :: jsval list). 2 \<le> cs_delivered st \<and> effect_count ?e d = 1 \<and> processed_count ?e d = 1"
  note ready = crash_relay_ready [OF assms(4,5)]
  have len: "length ?e \<le> 150" "?e \<noteq> []" by (simp_all add: CRASH_RELAY_EVENT_def)
  have new: "?e \<notin> ob_event_id ` set (outbox ?d)" using ready(4) by (simp add: event_unseen_def)
  have prepare: "prepareCrashRelay (d, st, q) = (Inr order, (?d, st, []))"
    using assms(6) ready(5)
    by (simp add: prepareCrashRelay_def cmd_bind_run cmd_simps crash_relay_ready_def [symmetric] purgeQueue_def)
  have create: "createOutboxEvent at (now 0) order ?d = (Inr (), queued ?e ?i ?m (now 0) ?d)"
    using insert_outbox_queued [OF ready(2) new len(1) assms(8)]
    by (simp add: createOutboxEvent_def cmd_bind_run cmd_simps crash_event_def toOrderPlacedEvent_def Let_def)
  have event: "order_event drv ?m ?i" "event_id_text drv ?m = ?e"
    unfolding crash_event_def by (rule placed_order_event [OF assms(3) len(2,1) assms(7-9)])+
  have mss: "set (concat (deliver [?m, ?m])) \<subseteq> {?m}" "2 \<le> length (concat (deliver [?m, ?m]))"
    using assms(2) [unfolded at_least_once_def, rule_format, of "[?m, ?m]"] by simp_all
  obtain k where k: "2 \<le> k" "waitFor drv ''Timed out waiting for duplicate RabbitMQ delivery'' ?w (deliver [?m, ?m]) (relayed_row ?e ?i ?m (now 0) (now 2) ?d, no_stats, [?m, ?m]) =
      (Inr (), (applied_row drv ?e ?i ?m (now 0) (now 2) ?d,
        \<lparr>cs_delivered = int k, cs_effect = 1, cs_skipped = int k - 1, cs_acked = int k\<rparr>, [?m, ?m]))"
    by (rule waitFor_row [OF ready(1,2,4) event mss(1) _ mss(2), where t' = 2 and need = True and ready = ?w]) auto
  have "int8 1" by (simp add: int8_def)
  note relay = relay_queued [OF assms(1) ready(2,3) this]
  have "simulated_crash (JsError ''Simulated relay crash after publish before published_at update'')"
    by (simp add: simulated_crash_def)
  with prepare create relay queued_published_at(1) [OF new, of ?i ?m "now 0"] k
    applied_row_counts [OF ready(2,4) event(2), of ?i "now 0" "now 2"]
  show ?thesis
    by (simp add: crash_relay_demo_def cmd_bind_run cmd_simps startConsumer_def expect_crash_def)
qed

definition bench_order :: order_row where
  "bench_order = \<lparr>o_id = 1, o_user_id = 1, o_status = Created, o_total_amount = 200\<rparr>"

definition bench_db :: db where
  "bench_db = sample_db\<lparr>orders := [bench_order]\<rparr>"

lemma bench_db_ok: "inbox_ok bench_db" "outbox_ahead bench_db" "first_by o_id (orders bench_db) = Some bench_order"
  using wf_sample_db
  by (simp_all add: inbox_ok_def inbox_ids_def effect_ids_def outbox_ahead_def bench_db_def bench_order_def
      wf_db_def ids_defs orders_ok_def first_by_def int4_def)
    (simp_all add: sample_db_def empty_db_def items_ok_def tasks_ok_def idem_ok_def)

lemma log_publish_accepting: "accepting log_publish"
  by (simp add: accepting_def log_publish_def cmd_simps)

lemma crash_relay_demo_passes_witness:
  "\<exists>rep s. crash_relay_demo sample_drv log_publish (\<lambda>q. [[], q @ q]) ''t'' (\<lambda>n. 10 + int n) (bench_db, no_stats, []) = (Inr rep, s) \<and>
     cr_passed rep \<and> effect_count CRASH_RELAY_EVENT (fst s) = 1"
proof -
  have "at_least_once (\<lambda>q. [[], q @ q])" by (simp add: at_least_once_def)
  from crash_relay_demo_passes [OF log_publish_accepting this sample_drv_ok bench_db_ok, of "''t''" "\<lambda>n. 10 + int n" no_stats "[]"]
  show ?thesis by (auto simp: bench_order_def int8_def)
qed

section \<open>A write that fails before its commit\<close>

definition CRASH_WRITE_EVENT :: string where
  "CRASH_WRITE_EVENT = ''hw22-crash-write-event''"

definition prepareCrashWrite :: "(bench, unit) cmd" where
  "prepareCrashWrite =
     cmd_bind (on_db (cmd_write (forget_message CRASH_WRITE_EVENT))) (\<lambda>_.
     cmd_bind (on_db (cmd_write (delete_outbox (\<lambda>r. ob_event_id r = CRASH_WRITE_EVENT)))) (\<lambda>_.
     purgeQueue))"

text \<open>The body of the transaction; the variable \<open>attemptedOrderId\<close> outlives the rollback.\<close>

definition failed_write :: "string \<Rightarrow> int \<Rightarrow> (db \<times> int option, unit) cmd" where
  "failed_write at now =
     cmd_bind (on_fst (cmd_read (\<lambda>d. first_by u_id (users d)))) (\<lambda>user_opt. case user_opt of
       None \<Rightarrow> cmd_throw (JsError ''No user found. Run npm run seed first.'')
     | Some user \<Rightarrow>
     cmd_bind (on_fst (cmd_read (\<lambda>d. first_by p_id (filter p_is_active (products d))))) (\<lambda>product_opt. case product_opt of
       None \<Rightarrow> cmd_throw (JsError ''No active product found. Run npm run seed first.'')
     | Some product \<Rightarrow>
     cmd_bind (on_fst (insert_order (u_id user) (p_price product))) (\<lambda>order.
     cmd_bind (on_snd (cmd_write (\<lambda>_. Some (o_id order)))) (\<lambda>_.
     cmd_bind (on_fst (insert_order_item (o_id order) (p_id product) 1 (p_price product))) (\<lambda>_.
     cmd_bind (on_fst (insert_outbox CRASH_WRITE_EVENT ''order'' (show_int (o_id order)) ORDER_PLACED_TYPE
       (toOrderPlacedEvent CRASH_WRITE_EVENT (o_id order) (u_id user) [(p_id product, 1)] (p_price product) at) now)) (\<lambda>_.
     cmd_throw (JsError ''Simulated business transaction failure after outbox insert'')))))))"

text \<open>Every error is caught and rolled back.\<close>

definition simulateFailedWrite :: "string \<Rightarrow> int \<Rightarrow> (db, nat \<times> int option) cmd" where
  "simulateFailedWrite at now = (\<lambda>d.
     case failed_write at now (d, None) of (_, (d', attemptedOrderId)) \<Rightarrow> (Inr (1, attemptedOrderId), rollback d d'))"

record crash_write_report =
  cw_writeFailed :: nat
  cw_orders :: nat
  cw_outbox :: nat
  cw_published :: nat
  cw_deliveries :: int
  cw_effect :: nat
  cw_passed :: bool

text \<open>What the broker delivers in the pause after the rollback comes from the queue.\<close>

definition crash_write_demo ::
  "pg_driver \<Rightarrow> (jsval list \<Rightarrow> jsval list list) \<Rightarrow> string \<Rightarrow> int \<Rightarrow> (bench, crash_write_report) cmd" where
  "crash_write_demo drv deliver at now =
     cmd_bind prepareCrashWrite (\<lambda>_.
     cmd_bind startConsumer (\<lambda>_.
     cmd_bind (on_db (simulateFailedWrite at now)) (\<lambda>(writeFailed, attemptedOrderId).
     cmd_bind (cmd_write (\<lambda>s. snd (consume_all drv None (map Some (concat (deliver (snd (snd s))))) s))) (\<lambda>_.
     cmd_read (\<lambda>(d, st, _).
       let order_count = (case attemptedOrderId of None \<Rightarrow> 0 | Some i \<Rightarrow> row_count (\<lambda>r. o_id r = i) (orders d));
           outbox_count = row_count (\<lambda>r. ob_event_id r = CRASH_WRITE_EVENT) (outbox d);
           effect = effect_count CRASH_WRITE_EVENT d;
           deliveries = cs_delivered st;
           published = 0
       in \<lparr>cw_writeFailed = writeFailed, cw_orders = order_count, cw_outbox = outbox_count, cw_published = published,
           cw_deliveries = deliveries, cw_effect = effect,
           cw_passed = (writeFailed = 1 \<and> order_count = 0 \<and> outbox_count = 0 \<and> published = 0 \<and> deliveries = 0 \<and>
             effect = 0)\<rparr>)))))"

text \<open>An order that was attempted is not one that was there.\<close>

lemma failed_write_attempt:
  assumes "failed_write at now (d, None) = (r, (d', Some i))"
  shows "i \<notin> o_id ` set (orders d)"
proof -
  have "fst (insert_order u a d) = Inr order \<Longrightarrow> o_id order \<notin> o_id ` set (orders d)" for u a order
    by (auto simp: insert_order_def Let_def cmd_bind_run cmd_simps orders_constraints_def param_int_IntN
        split: if_splits option.splits)
  with assms show ?thesis
    by (auto simp: failed_write_def cmd_bind_run cmd_simps split: option.splits sum.splits prod.splits if_splits)
qed

lemma failed_write_throws: "\<exists>e. fst (failed_write at now s) = Inl e"
  by (cases s) (auto simp: failed_write_def cmd_bind_run cmd_simps split: option.splits sum.splits prod.splits)

lemma deliver_empty: "at_least_once deliver \<Longrightarrow> concat (deliver []) = []"
  by (metis at_least_once_def empty_set set_empty)

text \<open>C0: the demonstration of a write that fails before its commit passes on every database: the
  order, its item and the outbox row of the failed transaction are gone, whatever the point of
  the failure was, the attempted identifier names no order, and the consumer gets nothing.
  Apart from what the preparation forgets, no table is changed.\<close>
theorem crash_write_demo_passes:
  assumes "at_least_once deliver"
  shows "\<exists>rep d'. crash_write_demo drv deliver at now (d, st, q) = (Inr rep, (d', no_stats, [])) \<and> cw_passed rep \<and>
    same_tables (delete_outbox (\<lambda>r. ob_event_id r = CRASH_WRITE_EVENT) (forget_message CRASH_WRITE_EVENT d)) d'"
proof -
  define d0 where "d0 = delete_outbox (\<lambda>r. ob_event_id r = CRASH_WRITE_EVENT) (forget_message CRASH_WRITE_EVENT d)"
  obtain r d1 attempt where w: "failed_write at now (d0, None) = (r, (d1, attempt))" by (metis prod.collapse)
  let ?d = "rollback d0 d1"
  have same: "same_tables d0 ?d" by simp
  then have "row_count (\<lambda>r. ob_event_id r = CRASH_WRITE_EVENT) (outbox ?d) = 0" "effect_count CRASH_WRITE_EVENT ?d = 0"
    by (simp_all add: rollback_def row_count_def effect_count_def d0_def forget_message_def)
  moreover have "(case attempt of None \<Rightarrow> 0 | Some i \<Rightarrow> row_count (\<lambda>r. o_id r = i) (orders ?d)) = 0"
    using failed_write_attempt [of at now d0 r d1] w
    by (auto simp: row_count_def filter_empty_conv rollback_def split: option.split)
  ultimately show ?thesis
    using w same deliver_empty [OF assms]
    by (simp add: crash_write_demo_def prepareCrashWrite_def purgeQueue_def startConsumer_def cmd_bind_run cmd_simps
        simulateFailedWrite_def no_stats_def d0_def [symmetric] del: concat_eq_Nil_conv)
qed

lemma crash_write_demo_passes_witness:
  "\<exists>rep d'. crash_write_demo sample_drv (\<lambda>q. [q]) ''t'' 5 (bench_db, no_stats, [Null]) = (Inr rep, (d', no_stats, [])) \<and>
     cw_passed rep \<and> orders d' = [bench_order]"
proof -
  have "at_least_once (\<lambda>q. [q])" by (simp add: at_least_once_def)
  from crash_write_demo_passes [OF this, of sample_drv "''t''" 5 bench_db no_stats "[Null]"]
  obtain rep d' where d': "crash_write_demo sample_drv (\<lambda>q. [q]) ''t'' 5 (bench_db, no_stats, [Null]) = (Inr rep, (d', no_stats, []))"
    "cw_passed rep" "same_tables (delete_outbox (\<lambda>r. ob_event_id r = CRASH_WRITE_EVENT) (forget_message CRASH_WRITE_EVENT bench_db)) d'"
    by blast
  moreover have "orders d' = [bench_order]" using same_tables_fields(3) [OF d'(3)] by (simp add: bench_db_def)
  ultimately show ?thesis by blast
qed

text \<open>
  On a database with a user and an active product the transaction gets to its end: order, item
  and outbox row exist when it fails. The demonstration does not look at that, and passes on
  empty tables too.
\<close>

lemma failed_write_complete:
  assumes "first_by u_id (users d) = Some u" and "first_by p_id (filter p_is_active (products d)) = Some p"
    and "insert_order (u_id u) (p_price p) d = (Inr ord, d1)"
    and "insert_order_item (o_id ord) (p_id p) 1 (p_price p) d1 = (Inr item, d2)"
    and "outbox_ahead d2" and "CRASH_WRITE_EVENT \<notin> ob_event_id ` set (outbox d2)" and "int8 (o_id ord)"
  shows "failed_write at now (d, None) = (Inl (JsError ''Simulated business transaction failure after outbox insert''),
    (queued CRASH_WRITE_EVENT (o_id ord) (toOrderPlacedEvent CRASH_WRITE_EVENT (o_id ord) (u_id u) [(p_id p, 1)] (p_price p) at)
       now d2, Some (o_id ord)))"
proof -
  have "length CRASH_WRITE_EVENT \<le> 150" by (simp add: CRASH_WRITE_EVENT_def)
  note insert_outbox_queued [OF assms(5,6) this assms(7)]
  with assms(1-4) show ?thesis by (simp add: failed_write_def cmd_bind_run cmd_simps)
qed

lemma failed_write_empty:
  "failed_write at now (empty_db, None) = (Inl (JsError ''No user found. Run npm run seed first.''), (empty_db, None))"
  by (simp add: failed_write_def cmd_bind_run cmd_simps first_by_def empty_db_def)

section \<open>From two requests to one effect\<close>

definition IDEMPOTENCY_KEY :: string where
  "IDEMPOTENCY_KEY = ''hw22-demo-outbox''"

definition previous_order :: "db \<Rightarrow> int option" where
  "previous_order d = (case first_where (\<lambda>r. ik_key r = IDEMPOTENCY_KEY) (idem_keys d) of
     None \<Rightarrow> None | Some r \<Rightarrow> ik_order_id r)"

definition of_order :: "int \<Rightarrow> outbox_row \<Rightarrow> bool" where
  "of_order i r \<longleftrightarrow> ob_aggregate_type r = ''order'' \<and> ob_aggregate_id r = show_int i"

text \<open>The order of an earlier run goes with everything that mentions it.\<close>

definition prepareOutboxDemo :: "(bench, unit) cmd" where
  "prepareOutboxDemo =
     cmd_bind (on_db (cmd_read previous_order)) (\<lambda>previousOrderId.
     cmd_bind (on_db (cmd_write (case previousOrderId of None \<Rightarrow> id
       | Some i \<Rightarrow> delete_outbox (of_order i) \<circ> forget_message (order_event_id i)))) (\<lambda>_.
     cmd_bind (on_db (cmd_write (idem_keys_update (filter (\<lambda>r. ik_key r \<noteq> IDEMPOTENCY_KEY))))) (\<lambda>_.
     cmd_bind (on_db (cmd_write (case previousOrderId of None \<Rightarrow> id
       | Some i \<Rightarrow> delete_orders (\<lambda>j. j = i)))) (\<lambda>_.
     cmd_bind (on_db (cmd_write (delete_outbox (\<lambda>r. ob_published_at r = None)))) (\<lambda>_.
     purgeQueue)))))"

definition getProductId :: "(db, int) cmd" where
  "getProductId =
     cmd_bind (cmd_read (\<lambda>d. first_by p_id (filter p_is_active (products d)))) (\<lambda>product_opt. case product_opt of
       None \<Rightarrow> cmd_throw (JsError ''No active product found. Run npm run seed first.'')
     | Some p \<Rightarrow> cmd_return (p_id p))"

definition outbox_item :: "int \<Rightarrow> jsval" where
  "outbox_item p = Obj [(''product_id'', Num (IntN p)), (''quantity'', Num (IntN 1))]"

definition outbox_body :: "int \<Rightarrow> jsval" where
  "outbox_body p = Obj [(''items'', Arr [outbox_item p])]"

record outbox_report =
  ox_requests :: nat
  ox_orders :: nat
  ox_outbox :: nat
  ox_published :: int
  ox_deliveries :: int
  ox_effect :: nat
  ox_processed :: nat
  ox_passed :: bool

text \<open>A response other than 201 ends the demonstration, here with the error behind it.\<close>

definition outbox_demo ::
  "pg_driver \<Rightarrow> (jsval \<Rightarrow> (jsval list, unit) cmd) \<Rightarrow> (jsval list \<Rightarrow> jsval list list) \<Rightarrow> (nat \<Rightarrow> string) \<Rightarrow> (nat \<Rightarrow> int)
     \<Rightarrow> (bench, outbox_report) cmd" where
  "outbox_demo drv publish deliver at now =
     cmd_bind prepareOutboxDemo (\<lambda>_.
     cmd_bind (on_db getProductId) (\<lambda>productId.
     cmd_bind (on_db (createOrder (at 0) (now 0) (Some IDEMPOTENCY_KEY) (outbox_body productId))) (\<lambda>firstResponse.
     cmd_bind (on_db (createOrder (at 1) (now 1) (Some IDEMPOTENCY_KEY) (outbox_body productId))) (\<lambda>secondResponse.
     if rp_id firstResponse \<noteq> rp_id secondResponse
     then cmd_throw (JsError ''Idempotency invariant failed: order ids differ'')
     else let orderId = rp_id firstResponse; eventId = order_event_id orderId; requests = 2 in
       cmd_bind (on_db (cmd_read (\<lambda>d. row_count (\<lambda>r. o_id r = orderId) (orders d)))) (\<lambda>order_count.
       cmd_bind (on_db (cmd_read (\<lambda>d. row_count (of_order orderId) (outbox d)))) (\<lambda>outbox_count.
       cmd_bind startConsumer (\<lambda>_.
       cmd_bind (on_relay (relayOutboxBatch (\<lambda>_. False) publish (now 2)
         \<lparr>ro_batchSize = Some 10, ro_crashAfterPublish = False\<rparr>)) (\<lambda>relay.
       cmd_bind (cmd_read (\<lambda>(_, _, q). deliver q)) (\<lambda>deliveries.
       cmd_bind (waitFor drv ''Timed out waiting for RabbitMQ consumer'' (\<lambda>(d, _, _). processed_count eventId d = 1) deliveries) (\<lambda>_.
       cmd_read (\<lambda>(d, st, _).
         let processed = processed_count eventId d;
             effect = effect_count eventId d;
             published = rs_published relay;
             deliveries = cs_delivered st
         in \<lparr>ox_requests = requests, ox_orders = order_count, ox_outbox = outbox_count, ox_published = published,
             ox_deliveries = deliveries, ox_effect = effect, ox_processed = processed,
             ox_passed = (requests = 2 \<and> order_count = 1 \<and> outbox_count = 1 \<and> published = 1 \<and> deliveries = 1 \<and>
               effect = 1 \<and> processed = 1)\<rparr>)))))))))))"

text \<open>The prepared database.\<close>

definition outbox_demo_db :: "db \<Rightarrow> db" where
  "outbox_demo_db d = (let clear = (case previous_order d of None \<Rightarrow> id
       | Some i \<Rightarrow> delete_outbox (of_order i) \<circ> forget_message (order_event_id i));
     unplace = (case previous_order d of None \<Rightarrow> id | Some i \<Rightarrow> delete_orders (\<lambda>j. j = i))
   in delete_outbox (\<lambda>r. ob_published_at r = None)
     (unplace (idem_keys_update (filter (\<lambda>r. ik_key r \<noteq> IDEMPOTENCY_KEY)) (clear d))))"

lemma prepareOutboxDemo_run: "prepareOutboxDemo (d, st, q) = (Inr (), (outbox_demo_db d, st, []))"
  by (simp add: prepareOutboxDemo_def purgeQueue_def outbox_demo_db_def cmd_bind_run cmd_simps Let_def)

lemma delete_orders_fields [simp]:
  "users (delete_orders p d) = users d" "products (delete_orders p d) = products d"
  "outbox (delete_orders p d) = outbox d" "processed (delete_orders p d) = processed d"
  "effects (delete_orders p d) = effects d" "seqs (delete_orders p d) = seqs d"
  by (simp_all add: delete_orders_def)

lemma delete_orders_inbox_ok: "inbox_ok d \<Longrightarrow> inbox_ok (delete_orders p d)"
  by (simp add: inbox_ok_def delete_orders_wf inbox_ids_def effect_ids_def)

lemma forget_keys_inbox_ok: "inbox_ok d \<Longrightarrow> inbox_ok (idem_keys_update (filter p) d)"
  by (auto simp: inbox_ok_def inbox_ids_def effect_ids_def wf_db_def ids_defs idem_ok_def distinct_map_filter')

text \<open>An identifier that no row of the messages mentions.\<close>

definition order_unseen :: "int \<Rightarrow> db \<Rightarrow> bool" where
  "order_unseen i d \<longleftrightarrow> event_unseen (order_event_id i) d \<and> (\<forall>r \<in> set (outbox d). \<not> of_order i r)"

lemma outbox_demo_db:
  assumes "inbox_ok d" and "sequences_ahead d" and "outbox_ahead d" and "order_unseen i d"
  shows "inbox_ok (outbox_demo_db d)" and "sequences_ahead (outbox_demo_db d)" and "outbox_ahead (outbox_demo_db d)"
    and "order_unseen i (outbox_demo_db d)" and "unpublished (outbox_demo_db d) = []"
    and "IDEMPOTENCY_KEY \<notin> ik_key ` set (idem_keys (outbox_demo_db d))"
    and "users (outbox_demo_db d) = users d" and "products (outbox_demo_db d) = products d"
    and "seqs (outbox_demo_db d) = seqs d"
proof -
  show "inbox_ok (outbox_demo_db d)"
    unfolding outbox_demo_db_def Let_def
    by (intro delete_outbox_inbox_ok)
      (auto split: option.split intro!: delete_orders_inbox_ok forget_keys_inbox_ok delete_outbox_inbox_ok forget_inbox_ok assms)
  show "sequences_ahead (outbox_demo_db d)" "outbox_ahead (outbox_demo_db d)" "order_unseen i (outbox_demo_db d)"
    "IDEMPOTENCY_KEY \<notin> ik_key ` set (idem_keys (outbox_demo_db d))"
    "users (outbox_demo_db d) = users d" "products (outbox_demo_db d) = products d" "seqs (outbox_demo_db d) = seqs d"
    using assms(2-4)
    by (auto simp: outbox_demo_db_def Let_def sequences_ahead_def outbox_ahead_def order_unseen_def event_unseen_def
        processed_count_def effect_count_def row_count_def filter_empty_conv delete_orders_def forget_message_def
        split: option.splits)
  have "filter (\<lambda>r. ob_published_at r = None) (outbox (outbox_demo_db d)) = []"
    by (auto simp: outbox_demo_db_def Let_def filter_empty_conv)
  then show "unpublished (outbox_demo_db d) = []" by (simp add: unpublished_def)
qed

section \<open>A request that succeeds\<close>

lemma item_int_outbox [simp]: "item_product (outbox_item p) = p" "item_quantity (outbox_item p) = 1"
  by (simp_all add: item_int_def outbox_item_def)

lemma outbox_item_props [simp]:
  "get_prop (outbox_item p) ''product_id'' = Inr (Num (IntN p))"
  "integer_of (opt_prop (outbox_item p) ''product_id'') = Some p"
  "integer_of (opt_prop (outbox_item p) ''quantity'') = Some 1"
  by (simp_all add: outbox_item_def)

text \<open>What a new order of one unit needs of the database.\<close>

definition orderable :: "user_row \<Rightarrow> product_row \<Rightarrow> db \<Rightarrow> bool" where
  "orderable u p d \<longleftrightarrow> first_user d = Some u \<and> int8 (u_id u) \<and>
     p \<in> set (products d) \<and> p_is_active p \<and> 0 < p_id p \<and> int8 (p_id p) \<and>
     0 \<le> sq_orders (seqs d) \<and> int8 (sq_orders (seqs d) + 1)"

lemma orderable_product:
  assumes "wf_db d" and "orderable u p d"
  shows "first_where (\<lambda>r. p_id r = p_id p \<and> p_is_active r) (products d) = Some p"
    and "first_where (\<lambda>r. p_id r = p_id p) (products d) = Some p"
    and "0 < p_price p" and "int4 (p_price p)" and "u \<in> set (users d)"
proof -
  have p: "p \<in> set (products d)" "p_is_active p" using assms(2) by (simp_all add: orderable_def)
  show one: "first_where (\<lambda>r. p_id r = p_id p) (products d) = Some p"
    by (rule first_where_unique [OF wf_keys(3) [OF assms(1)] p(1)])
  have "first_where (\<lambda>r. p_id r = p_id p \<and> p_is_active r) (products d) = first_where (\<lambda>r. p_id r = p_id p) (products d)"
    using p wf_keys(3) [OF assms(1)] by (intro first_where_cong) (auto simp: distinct_map inj_on_def)
  with one show "first_where (\<lambda>r. p_id r = p_id p \<and> p_is_active r) (products d) = Some p" by simp
  show "0 < p_price p" "int4 (p_price p)"
    using p(1) assms(1) by (auto simp: wf_db_def products_ok_def product_ok_def product_checks_def split: if_splits)
  from assms(2) obtain us where "sort_key u_id (users d) = u # us"
    by (auto simp: orderable_def first_user_def split: list.splits)
  then have "u \<in> set (sort_key u_id (users d))" by (simp del: set_sort)
  then show "u \<in> set (users d)" by simp
qed

lemma order_event_id_length: "int8 i \<Longrightarrow> length (order_event_id i) \<le> 150"
  using show_int_length [of i] by (simp add: order_event_id_def)

lemma create_one:
  assumes "wf_db d" and "sequences_ahead d" and "outbox_ahead d" and "orderable u p d"
    and "order_event_id (sq_orders (seqs d) + 1) \<notin> ob_event_id ` set (outbox d)"
    and "key \<notin> ik_key ` set (idem_keys d)" and "js_trim key \<noteq> []" and "length key \<le> 200"
  shows "is_ok (fst (create at now (outbox_body (p_id p)) key d))"
proof -
  let ?n = "sq_orders (seqs d) + 1"
  note prod = orderable_product [OF assms(1,4)]
  have fresh: "?n \<notin> o_id ` set (orders d)" "sq_items (seqs d) + 1 \<notin> oi_id ` set (order_items d)"
    "sq_outbox (seqs d) + 1 \<notin> ob_id ` set (outbox d)"
    using assms(2,3) by (auto simp: sequences_ahead_def outbox_ahead_def)
  have len: "length (order_event_id ?n) \<le> 150" "length (show_int ?n) \<le> 100"
    using assms(4) order_event_id_length show_int_length [of ?n] by (simp_all add: orderable_def)
  have small: "u_id u \<in> u_id ` set (users d)" "p_id p \<in> p_id ` set (products d)" "int4 1" "0 \<le> p_price p"
    using prod assms(4) by (auto simp: orderable_def int4_def)
  show ?thesis
    using assms(4-8) fresh len small prod
    by (simp add: create_def outbox_body_def cmd_bind_run cmd_simps cmd_transaction_def reserve_key_def varchar_def
        key_gate_def place_order_def first_user_def orderable_def price_item_def param_int_IntN insert_order_def Let_def
        orders_constraints_def add_item_def insert_order_item_def order_items_constraints_def insertOrderPlacedOutbox_def
        insert_outbox_def outbox_constraints_def ORDER_PLACED_TYPE_def bind_key_def)
qed

text \<open>The database of a new order before its outbox row.\<close>

definition ordered :: "user_row \<Rightarrow> product_row \<Rightarrow> string \<Rightarrow> db \<Rightarrow> db" where
  "ordered u p key d = (let i = sq_orders (seqs d) + 1 in
     d\<lparr>orders := orders d @ [\<lparr>o_id = i, o_user_id = u_id u, o_status = Created,
                               o_total_amount = order_total d [outbox_item (p_id p)]\<rparr>],
       order_items := order_items d @ item_rows d i (sq_items (seqs d)) [outbox_item (p_id p)],
       idem_keys := idem_keys d @ [\<lparr>ik_key = key, ik_order_id = Some i\<rparr>],
       seqs := (seqs d)\<lparr>sq_orders := i, sq_items := sq_items (seqs d) + 1\<rparr>\<rparr>)"

definition first_event :: "string \<Rightarrow> user_row \<Rightarrow> product_row \<Rightarrow> db \<Rightarrow> jsval" where
  "first_event at u p d = placed_event at d u [outbox_item (p_id p)]"

abbreviation next_order :: "db \<Rightarrow> int" where
  "next_order d \<equiv> sq_orders (seqs d) + 1"

lemma after_create_queued:
  "after_create at now u [outbox_item (p_id p)] key d =
     queued (order_event_id (next_order d)) (next_order d) (first_event at u p d) now (ordered u p key d)"
  by (simp add: after_create_def queued_def new_outbox_row_def ordered_def first_event_def Let_def)

lemma create_one_run:
  assumes "wf_db d" and "sequences_ahead d" and "outbox_ahead d" and "orderable u p d"
    and "order_event_id (next_order d) \<notin> ob_event_id ` set (outbox d)"
    and "key \<notin> ik_key ` set (idem_keys d)" and "js_trim key \<noteq> []" and "length key \<le> 200"
  shows "\<exists>res. create at now (outbox_body (p_id p)) key d = (Inr res,
      queued (order_event_id (next_order d)) (next_order d) (first_event at u p d) now (ordered u p key d)) \<and>
    rp_id res = next_order d"
proof -
  from create_one [OF assms, of at now] obtain res d' where
    run: "create at now (outbox_body (p_id p)) key d = (Inr res, d')"
    by (metis is_ok_simps(2) obj_sumE prod.collapse)
  show ?thesis
    using assms(1) run
  proof (cases rule: create_cases)
    case (placed items v)
    then have "items = [outbox_item (p_id p)]" by (simp add: outbox_body_def)
    moreover have "v = u" using placed(6) assms(4) by (simp add: orderable_def)
    ultimately show ?thesis using placed run by (simp add: after_create_queued)
  qed (use assms(6) in auto)
qed

lemma queued_wf: "wf_db (queued e i m now d) \<Longrightarrow> wf_db d"
  by (simp add: wf_db_def ids_defs queued_def outbox_ok_def)

lemma ordered_ok:
  assumes "wf_db (queued e i m now (ordered u p key d))" and "inbox_ok d" and "outbox_ahead d" and "unpublished d = []"
    and "order_unseen (next_order d) d"
  shows "inbox_ok (ordered u p key d)" and "outbox_ahead (ordered u p key d)" and "unpublished (ordered u p key d) = []"
    and "order_unseen (next_order d) (ordered u p key d)"
  using queued_wf [OF assms(1)] assms(2-5)
  by (simp_all add: inbox_ok_def inbox_ids_def effect_ids_def ordered_def Let_def outbox_ahead_def unpublished_def
      order_unseen_def event_unseen_def processed_count_def effect_count_def)

text \<open>A bound key is answered from the tables.\<close>

lemma create_replay:
  assumes "wf_db d" and "\<lparr>ik_key = key, ik_order_id = Some i\<rparr> \<in> set (idem_keys d)" and "r \<in> set (orders d)" and "o_id r = i"
    and "int8 i" and "js_trim key \<noteq> []" and "length key \<le> 200"
  shows "create at now (outbox_body p) key d = (Inr (answer_of d r), d)"
proof -
  have "findById i d = (Inr (answer_of d r), d)"
    using assms(3-5) order_lookup [OF assms(1), of i r] by (auto simp: findById_Inr)
  moreover have "first_where (\<lambda>x. ik_key x = key) (idem_keys d) = Some \<lparr>ik_key = key, ik_order_id = Some i\<rparr>"
    using first_where_unique [OF wf_keys(10) [OF assms(1)] assms(2)] by simp
  moreover have "key \<in> ik_key ` set (idem_keys d)" using assms(2) by force
  ultimately show ?thesis
    using assms(6,7)
    by (simp add: create_def outbox_body_def cmd_bind_run cmd_simps cmd_transaction_def reserve_key_def varchar_def
        key_gate_def replay_order_def)
qed

lemma ordered_counts:
  assumes "sequences_ahead d" and "order_unseen (next_order d) d"
  shows "row_count (\<lambda>r. o_id r = next_order d) (orders (queued e i m now (ordered u p key d))) = 1"
    and "row_count (of_order (next_order d)) (outbox (queued e (next_order d) m now (ordered u p key d))) = 1"
proof -
  have "filter (\<lambda>r. o_id r = next_order d) (orders d) = []" "filter (of_order (next_order d)) (outbox d) = []"
    using assms by (auto simp: sequences_ahead_def order_unseen_def filter_empty_conv)
  then show "row_count (\<lambda>r. o_id r = next_order d) (orders (queued e i m now (ordered u p key d))) = 1"
    "row_count (of_order (next_order d)) (outbox (queued e (next_order d) m now (ordered u p key d))) = 1"
    by (simp_all add: row_count_def queued_def ordered_def Let_def new_outbox_row_def of_order_def)
qed

lemma outbox_demo_key: "js_trim IDEMPOTENCY_KEY \<noteq> []" "length IDEMPOTENCY_KEY \<le> 200" "IDEMPOTENCY_KEY \<noteq> []"
  by (simp_all add: IDEMPOTENCY_KEY_def js_trim_def js_space_def)

text \<open>Both requests of the demonstration, on the prepared database.\<close>

lemma both_requests:
  assumes "inbox_ok d" and "sequences_ahead d" and "outbox_ahead d" and "orderable u p d" and "order_unseen (next_order d) d"
    and "IDEMPOTENCY_KEY \<notin> ik_key ` set (idem_keys d)"
  obtains a b where "rp_id a = next_order d" and "rp_id b = next_order d"
    and "wf_db (queued (order_event_id (next_order d)) (next_order d) (first_event at u p d) now (ordered u p IDEMPOTENCY_KEY d))"
    and "createOrder at now (Some IDEMPOTENCY_KEY) (outbox_body (p_id p)) d = (Inr a,
      queued (order_event_id (next_order d)) (next_order d) (first_event at u p d) now (ordered u p IDEMPOTENCY_KEY d))"
    and "createOrder at' now' (Some IDEMPOTENCY_KEY) (outbox_body (p_id p))
      (queued (order_event_id (next_order d)) (next_order d) (first_event at u p d) now (ordered u p IDEMPOTENCY_KEY d)) = (Inr b,
      queued (order_event_id (next_order d)) (next_order d) (first_event at u p d) now (ordered u p IDEMPOTENCY_KEY d))"
proof -
  let ?d = "queued (order_event_id (next_order d)) (next_order d) (first_event at u p d) now (ordered u p IDEMPOTENCY_KEY d)"
  let ?r = "last (orders ?d)"
  have wf: "wf_db d" using assms(1) by (simp add: inbox_ok_def)
  have "order_event_id (next_order d) \<notin> ob_event_id ` set (outbox d)"
    using assms(5) by (simp add: order_unseen_def event_unseen_def)
  from create_one_run [OF wf assms(2-4) this assms(6) outbox_demo_key(1,2), of at now] obtain a where
    a: "create at now (outbox_body (p_id p)) IDEMPOTENCY_KEY d = (Inr a, ?d)" "rp_id a = next_order d" by blast
  have wf': "wf_db ?d" by (rule create_wf [OF wf a(1)])
  have r: "?r \<in> set (orders ?d)" "o_id ?r = next_order d"
    "\<lparr>ik_key = IDEMPOTENCY_KEY, ik_order_id = Some (next_order d)\<rparr> \<in> set (idem_keys ?d)"
    by (simp_all add: queued_def ordered_def Let_def)
  have "int8 (next_order d)" using assms(4) by (simp add: orderable_def)
  note b = create_replay [OF wf' r(3,1,2) this outbox_demo_key(1,2), of at' now' "p_id p"]
  show ?thesis
    by (rule that [OF a(2) _ wf', of "answer_of ?d ?r"])
      (use a(1) b r(2) outbox_demo_key(3) in \<open>simp_all add: createOrder_def answer_of_def\<close>)
qed

text \<open>The rest of the demonstration from a prepared database.\<close>

lemma outbox_demo_prepared:
  assumes "accepting publish" and "in_order deliver" and "driver_ok drv" and "inbox_ok d" and "sequences_ahead d"
    and "outbox_ahead d" and "orderable u p d" and "order_unseen (next_order d) d" and "unpublished d = []"
    and "IDEMPOTENCY_KEY \<notin> ik_key ` set (idem_keys d)"
    and "first_by p_id (filter p_is_active (products d)) = Some p" and "at 0 \<noteq> []"
    and "prepareOutboxDemo s = (Inr (), (d, st, []))"
  shows "\<exists>rep d' st'. outbox_demo drv publish deliver at now s = (Inr rep, (d', st', [first_event (at 0) u p d])) \<and>
    ox_passed rep \<and> published_at_of (order_event_id (next_order d)) d' = Some (Some (now 2)) \<and>
    effect_count (order_event_id (next_order d)) d' = 1"
proof -
  let ?n = "next_order d" and ?k = IDEMPOTENCY_KEY
  let ?e = "order_event_id ?n" and ?m = "first_event (at 0) u p d" and ?o = "ordered u p ?k d"
  let ?w = "\<lambda>(d, _ :: consumer_stats, _ :: jsval list). processed_count ?e d = 1"
  obtain a b where req: "rp_id a = ?n" "rp_id b = ?n" "wf_db (queued ?e ?n ?m (now 0) ?o)"
    "createOrder (at 0) (now 0) (Some ?k) (outbox_body (p_id p)) d = (Inr a, queued ?e ?n ?m (now 0) ?o)"
    "createOrder (at 1) (now 1) (Some ?k) (outbox_body (p_id p)) (queued ?e ?n ?m (now 0) ?o) = (Inr b, queued ?e ?n ?m (now 0) ?o)"
    by (rule both_requests [OF assms(4-8,10)])
  note ord = ordered_ok [OF req(3) assms(4,6,9,8)]
  have unseen: "event_unseen ?e ?o" using ord(4) by (simp add: order_unseen_def)
  have len: "?e \<noteq> []" "length ?e \<le> 150" "?n \<noteq> 0" "int8 ?n"
    using assms(7) order_event_id_length [of ?n] by (auto simp: orderable_def order_event_id_def)
  have event: "order_event drv ?m ?n" "event_id_text drv ?m = ?e"
    unfolding first_event_def placed_event_def by (rule placed_order_event [OF assms(3) len assms(12)])+
  have mss: "concat (deliver [?m]) = [?m]" using assms(2) by (simp add: in_order_def)
  then obtain k where k: "1 \<le> k" "k \<le> length (concat (deliver [?m]))"
    "waitFor drv ''Timed out waiting for RabbitMQ consumer'' ?w (deliver [?m]) (relayed_row ?e ?n ?m (now 0) (now 2) ?o, no_stats, [?m]) =
      (Inr (), (applied_row drv ?e ?n ?m (now 0) (now 2) ?o,
        \<lparr>cs_delivered = int k, cs_effect = 1, cs_skipped = int k - 1, cs_acked = int k\<rparr>, [?m]))"
    by (rule_tac waitFor_row [OF ord(1,2) unseen event, where t = 1 and t' = 0 and need = False and ready = ?w
          and mss = "deliver [?m]"]) auto
  have "int8 10" by (simp add: int8_def)
  note relay = relay_queued [OF assms(1) ord(2,3) this]
  have "getProductId d = (Inr (p_id p), d)"
    using assms(11) by (simp add: getProductId_def cmd_bind_run cmd_simps)
  then show ?thesis
    using req(1,2,4,5) relay k mss ordered_counts [OF assms(5,8)] assms(13)
      applied_row_counts [OF ord(2) unseen event(2), of ?n "now 0" "now 2"]
    by (simp add: outbox_demo_def cmd_bind_run cmd_simps startConsumer_def Let_def)
qed

text \<open>C10: the demonstration of the outbox passes from any database that can take an order: the second
  request with the same idempotency key answers with the order of the first, there is one
  order and one outbox row, the relay publishes one event, and the consumer applies it once.\<close>
theorem outbox_demo_passes:
  assumes "accepting publish" and "in_order deliver" and "driver_ok drv" and "inbox_ok d" and "sequences_ahead d"
    and "outbox_ahead d" and "orderable u p d" and "order_unseen (next_order d) d"
    and "first_by p_id (filter p_is_active (products d)) = Some p" and "at 0 \<noteq> []"
  shows "\<exists>rep d' st'. outbox_demo drv publish deliver at now (d, st, q) =
      (Inr rep, (d', st', [first_event (at 0) u p d])) \<and> ox_passed rep \<and>
      published_at_of (order_event_id (next_order d)) d' = Some (Some (now 2)) \<and>
      effect_count (order_event_id (next_order d)) d' = 1"
proof -
  note ready = outbox_demo_db [OF assms(4-6,8)]
  have same: "next_order (outbox_demo_db d) = next_order d" "first_event (at 0) u p (outbox_demo_db d) = first_event (at 0) u p d"
    by (simp_all add: ready(7-9) first_event_def placed_event_def order_total_def price_of_def)
  have "orderable u p (outbox_demo_db d)" using assms(7) by (simp add: orderable_def first_user_def ready(7-9))
  from outbox_demo_prepared [where at = at, OF assms(1-3) ready(1-3) this ready(4) [folded same(1)] ready(5,6) assms(9) [folded ready(8)]
      assms(10) prepareOutboxDemo_run [of d st q]]
  show ?thesis unfolding same .
qed

lemma outbox_demo_passes_witness:
  "\<exists>rep s. outbox_demo sample_drv log_publish (\<lambda>q. [[], q]) (\<lambda>_. ''t'') (\<lambda>n. 10 + int n) (sample_db, no_stats, []) = (Inr rep, s) \<and>
     ox_passed rep \<and> effect_count ''order.placed:1'' (fst s) = 1"
proof -
  let ?u = "hd (users sample_db)" and ?p = "hd (products sample_db)"
  have order: "in_order (\<lambda>q. [[], q])" by (simp add: in_order_def)
  have ready: "inbox_ok sample_db" "sequences_ahead sample_db" "outbox_ahead sample_db" "orderable ?u ?p sample_db"
    "order_unseen (next_order sample_db) sample_db" "first_by p_id (filter p_is_active (products sample_db)) = Some ?p"
    using wf_sample_db
    by (simp_all add: inbox_ok_def inbox_ids_def effect_ids_def sequences_ahead_def outbox_ahead_def orderable_def
        first_user_def order_unseen_def event_unseen_def processed_count_def effect_count_def row_count_def first_by_def)
      (simp_all add: sample_db_def empty_db_def int8_def)
  have id: "order_event_id (next_order sample_db) = ''order.placed:1''"
    by (simp add: sample_db_def empty_db_def order_event_id_def show_int_def)
  from outbox_demo_passes [OF log_publish_accepting order sample_drv_ok ready(1-6), of "\<lambda>_. ''t''" "\<lambda>n. 10 + int n" no_stats "[]"]
  show ?thesis unfolding id by auto
qed

section \<open>A message that is delivered twice\<close>

definition DUPLICATE_EVENT :: string where
  "DUPLICATE_EVENT = ''demo-duplicate-event''"

definition duplicate_event :: "string \<Rightarrow> jsval" where
  "duplicate_event at = Obj
     [(''eventId'', Str DUPLICATE_EVENT), (''type'', Str ORDER_PLACED_TYPE), (''occurredAt'', Str at),
      (''data'', Obj [(''orderId'', Str ''1''), (''userId'', Str ''1''), (''productId'', Str ''1''),
         (''quantity'', Num (IntN 1)), (''totalAmount'', Num (IntN 1000))])]"

record duplicate_counts =
  du_deliveries :: nat
  du_effect :: nat
  du_skipped :: nat

datatype duplicate_answer = Requeue | Accept

text \<open>The callback: the first delivery is refused with requeueing after it was processed.\<close>

definition on_duplicate :: "pg_driver \<Rightarrow> jsval option \<Rightarrow> (db \<times> duplicate_counts, duplicate_answer) cmd" where
  "on_duplicate drv content =
     cmd_bind (on_snd (cmd_write (\<lambda>c. c\<lparr>du_deliveries := du_deliveries c + 1\<rparr>))) (\<lambda>_.
     cmd_bind (cmd_lift (case content of None \<Rightarrow> Inl (JsError ''SyntaxError'') | Some v \<Rightarrow> Inr v)) (\<lambda>event.
     cmd_bind (on_fst (processOrderPlacedEvent drv event)) (\<lambda>result.
     cmd_bind (on_snd (cmd_write (\<lambda>c. case result of
         Applied \<Rightarrow> c\<lparr>du_effect := du_effect c + 1\<rparr>
       | Skipped \<Rightarrow> c\<lparr>du_skipped := du_skipped c + 1\<rparr>))) (\<lambda>_.
     cmd_read (\<lambda>(_, c). if du_deliveries c = 1 then Requeue else Accept)))))"

text \<open>The promise \<open>completed\<close>: deliveries until one is accepted, an error, or the timeout.\<close>

fun completed :: "pg_driver \<Rightarrow> jsval option list \<Rightarrow> (db \<times> duplicate_counts, unit) cmd" where
  "completed drv [] = cmd_throw (JsError ''Timed out waiting for duplicate delivery'')"
| "completed drv (m # ms) =
     cmd_bind (on_duplicate drv m) (\<lambda>answer. case answer of Requeue \<Rightarrow> completed drv ms | Accept \<Rightarrow> cmd_return ())"

record duplicate_report =
  dr_counts :: duplicate_counts
  dr_passed :: bool

text \<open>
  \<open>prepareState\<close> purges the queue and deletes from \<open>processed_order_events\<close>, a table that no
  code reads or writes and the model leaves out.
\<close>

definition duplicate_demo ::
  "pg_driver \<Rightarrow> (jsval \<Rightarrow> (jsval list, unit) cmd) \<Rightarrow> (jsval list \<Rightarrow> jsval option list) \<Rightarrow> string
     \<Rightarrow> (bench, duplicate_report) cmd" where
  "duplicate_demo drv publish deliver at =
     cmd_bind purgeQueue (\<lambda>_.
     cmd_bind (on_relay (on_snd (publish (duplicate_event at)))) (\<lambda>_ (d, st, q).
     case completed drv (deliver q) (d, \<lparr>du_deliveries = 0, du_effect = 0, du_skipped = 0\<rparr>) of
       (Inl e, (d', _)) \<Rightarrow> (Inl e, (d', st, q))
     | (Inr _, (d', c)) \<Rightarrow> (Inr \<lparr>dr_counts = c,
         dr_passed = (2 \<le> du_deliveries c \<and> du_effect c = 1 \<and> 1 \<le> du_skipped c)\<rparr>, (d', st, q))))"

text \<open>A message that was refused with requeueing is delivered again.\<close>

definition redelivers :: "(jsval list \<Rightarrow> jsval option list) \<Rightarrow> bool" where
  "redelivers deliver \<longleftrightarrow> (\<forall>m. \<exists>ms. deliver [m] = Some m # Some m # ms)"

lemma duplicate_order_event:
  assumes "driver_ok drv" and "pg_bigint drv (Str ''1'') = Inr 1" and "at \<noteq> []"
  shows "order_event drv (duplicate_event at) 1" and "event_id_text drv (duplicate_event at) = DUPLICATE_EVENT"
  using assms
  by (simp_all add: order_event_def valid_event_def parseOrderPlacedEvent_def duplicate_event_def driver_ok_def
      ORDER_PLACED_TYPE_def DUPLICATE_EVENT_def)

text \<open>C11: the demonstration of a duplicate delivery ends with the event applied, and passes exactly if
  the inbox did not hold the event before. Its event has a fixed identifier and its
  preparation does not clear the inbox, so it passes on the first run only.\<close>
theorem duplicate_demo_once:
  assumes "accepting publish" and "redelivers deliver" and "driver_ok drv" and "pg_bigint drv (Str ''1'') = Inr 1"
    and "at \<noteq> []" and "inbox_ok d"
  shows "\<exists>rep d'. duplicate_demo drv publish deliver at (d, st, q) = (Inr rep, (d', st, [duplicate_event at])) \<and>
    inbox_ok d' \<and> inbox_ids d' = insert DUPLICATE_EVENT (inbox_ids d) \<and>
    (dr_passed rep \<longleftrightarrow> DUPLICATE_EVENT \<notin> inbox_ids d)"
proof -
  note event = duplicate_order_event [OF assms(3-5)]
  obtain ms where ms: "deliver [duplicate_event at] = Some (duplicate_event at) # Some (duplicate_event at) # ms"
    using assms(2) by (auto simp: redelivers_def)
  have run: "processOrderPlacedEvent drv (duplicate_event at) d = (if DUPLICATE_EVENT \<in> inbox_ids d then (Inr Skipped, d)
      else (Inr Applied, after_effect drv (duplicate_event at) 1 d))" if "inbox_ok d" for d
    using process_order_event [OF that event(1)] by (simp add: event(2))
  have eff: "inbox_ok (after_effect drv (duplicate_event at) 1 d)"
    "inbox_ids (after_effect drv (duplicate_event at) 1 d) = insert DUPLICATE_EVENT (inbox_ids d)" if "DUPLICATE_EVENT \<notin> inbox_ids d"
    using after_effect_wf [OF assms(6), of drv "duplicate_event at" 1] that by (simp_all add: event(2) after_effect_ids)
  show ?thesis
  proof (cases "DUPLICATE_EVENT \<in> inbox_ids d")
    case True
    with assms(1,6) run [OF assms(6)] ms show ?thesis
      by (simp add: duplicate_demo_def purgeQueue_def cmd_bind_run cmd_simps accepting_def on_duplicate_def insert_absorb)
  next
    case False
    with assms(1) run [OF assms(6)] run [OF eff(1)] eff ms show ?thesis
      by (simp add: duplicate_demo_def purgeQueue_def cmd_bind_run cmd_simps accepting_def on_duplicate_def)
  qed
qed

lemma duplicate_demo_once_witness:
  "let drv = sample_drv\<lparr>pg_bigint := \<lambda>v. if v = Str ''1'' then Inr 1 else pg_bigint sample_drv v\<rparr>;
       run = duplicate_demo drv log_publish (\<lambda>q. map Some (q @ q)) ''t''
   in \<exists>a b s s'. run (bench_db, no_stats, []) = (Inr a, s) \<and> dr_passed a \<and> run s = (Inr b, s') \<and> \<not> dr_passed b"
proof -
  let ?drv = "sample_drv\<lparr>pg_bigint := \<lambda>v. if v = Str ''1'' then Inr 1 else pg_bigint sample_drv v\<rparr>"
  have drv: "driver_ok ?drv" "pg_bigint ?drv (Str ''1'') = Inr 1" using sample_drv_ok by (simp_all add: driver_ok_def)
  have red: "redelivers (\<lambda>q. map Some (q @ q))" by (simp add: redelivers_def)
  note once = duplicate_demo_once [OF log_publish_accepting red drv, of "''t''"]
  have "DUPLICATE_EVENT \<notin> inbox_ids bench_db" by (simp add: inbox_ids_def bench_db_def sample_db_def empty_db_def)
  with once [OF _ bench_db_ok(1), of no_stats "[]"] obtain a d where
    a: "duplicate_demo ?drv log_publish (\<lambda>q. map Some (q @ q)) ''t'' (bench_db, no_stats, []) = (Inr a, (d, no_stats, [duplicate_event ''t'']))"
      "dr_passed a" "inbox_ok d" "DUPLICATE_EVENT \<in> inbox_ids d" by auto
  from once [OF _ a(3), of no_stats "[duplicate_event ''t'']"] a(4) obtain b d' where
    b: "duplicate_demo ?drv log_publish (\<lambda>q. map Some (q @ q)) ''t'' (d, no_stats, [duplicate_event ''t'']) = (Inr b, (d', no_stats, [duplicate_event ''t'']))"
      "\<not> dr_passed b" by auto
  from a(1,2) b show ?thesis unfolding Let_def by blast
qed

end
