(* ===== verification/RabbitDemos.thy ===== *)
theory RabbitDemos
  imports OutboxDemos
begin

text \<open>
  \<open>src/demo-rabbit-publish.ts\<close> and \<open>src/demo-rabbit-dlq.ts\<close>: five events through publisher, queue
  and consumer, and a message that no consumer can process. A message that was delivered and
  not acknowledged is in the dead letter queue; what was published and not yet delivered is in
  the work queue.
\<close>

section \<open>Queue depths\<close>

definition work_depth :: "bench \<Rightarrow> int" where
  "work_depth = (\<lambda>(d, st, q). int (length q) - cs_delivered st)"

definition dlq_depth :: "bench \<Rightarrow> int" where
  "dlq_depth = (\<lambda>(d, st, q). cs_delivered st - cs_acked st)"

section \<open>Five events\<close>

definition EVENT_COUNT :: nat where
  "EVENT_COUNT = 5"

definition createEvent :: "string \<Rightarrow> string \<Rightarrow> nat \<Rightarrow> jsval" where
  "createEvent uuid at index = Obj
     [(''eventId'', Str (''demo-publish-'' @ uuid)), (''type'', Str ORDER_PLACED_TYPE), (''occurredAt'', Str at),
      (''data'', Obj [(''orderId'', Str (show_int (int index + 1))), (''userId'', Str (show_int (int index + 1))),
         (''productId'', Str (show_int (int index + 1))), (''quantity'', Num (IntN 1)),
         (''totalAmount'', Num (IntN (1000 + int index)))])]"

record publish_report =
  pb_published :: nat
  pb_delivered :: int
  pb_effect :: int
  pb_acked :: int
  pb_dlq :: int
  pb_work :: int
  pb_prefetch :: nat
  pb_passed :: bool

text \<open>
  The preparation purges the queue and deletes from \<open>processed_order_events\<close>, which the model
  leaves out.
\<close>

definition publish_demo ::
  "pg_driver \<Rightarrow> (jsval \<Rightarrow> (jsval list, unit) cmd) \<Rightarrow> (jsval list \<Rightarrow> jsval list list) \<Rightarrow> (nat \<Rightarrow> string) \<Rightarrow> (nat \<Rightarrow> string)
     \<Rightarrow> (bench, publish_report) cmd" where
  "publish_demo drv publish deliver uuid at =
     cmd_bind purgeQueue (\<lambda>_.
     cmd_bind startConsumer (\<lambda>_.
     cmd_bind (cmd_fold (\<lambda>index published.
       cmd_bind (on_relay (on_snd (publish (createEvent (uuid index) (at index) index)))) (\<lambda>_.
       cmd_return (published + 1))) [0..<EVENT_COUNT] 0) (\<lambda>published.
     cmd_bind (cmd_read (\<lambda>(_, _, q). deliver q)) (\<lambda>deliveries.
     cmd_bind (waitFor drv ''Timed out waiting for 5 effects'' (\<lambda>(_, st, _). int EVENT_COUNT \<le> cs_effect st) deliveries) (\<lambda>_.
     cmd_read (\<lambda>s. case s of (d, st, q) \<Rightarrow>
       let work = work_depth s; dlq = dlq_depth s;
           delivered = cs_delivered st; effect = cs_effect st; acked = cs_acked st
       in \<lparr>pb_published = published, pb_delivered = delivered, pb_effect = effect, pb_acked = acked, pb_dlq = dlq,
           pb_work = work, pb_prefetch = ORDER_PLACED_PREFETCH,
           pb_passed = (published = EVENT_COUNT \<and> delivered = int EVENT_COUNT \<and> effect = int EVENT_COUNT \<and>
             acked = int EVENT_COUNT \<and> work = 0 \<and> dlq = 0 \<and> 1 \<le> ORDER_PLACED_PREFETCH \<and> ORDER_PLACED_PREFETCH \<le> 2000)\<rparr>))))))"

section \<open>A message that cannot be processed\<close>

definition poison :: jsval where
  "poison = Obj [(''invalid'', Bool True)]"

record dlq_report =
  dl_rejected :: nat
  dl_work :: int
  dl_dlq :: int
  dl_reason :: "string option"
  dl_effect :: int
  dl_passed :: bool

text \<open>\<open>death\<close> is the reason in the \<open>x-death\<close> header that the broker adds to a dead letter.\<close>

definition dlq_demo ::
  "pg_driver \<Rightarrow> (jsval \<Rightarrow> (jsval list, unit) cmd) \<Rightarrow> (jsval list \<Rightarrow> jsval list list) \<Rightarrow> string option
     \<Rightarrow> (bench, dlq_report) cmd" where
  "dlq_demo drv publish deliver death =
     cmd_bind purgeQueue (\<lambda>_.
     cmd_bind startConsumer (\<lambda>_.
     cmd_bind (on_relay (on_snd (publish poison))) (\<lambda>_.
     cmd_bind (cmd_read (\<lambda>(_, _, q). deliver q)) (\<lambda>deliveries.
     cmd_bind (waitFor drv ''Timed out waiting for DLQ message'' (\<lambda>s. 1 \<le> dlq_depth s) deliveries) (\<lambda>_.
     cmd_bind (cmd_read (\<lambda>s. (work_depth s, dlq_depth s))) (\<lambda>(work, dlq).
     if dlq \<le> 0 then cmd_throw (JsError ''DLQ message was not available'')
     else cmd_read (\<lambda>(_, st, _).
       let rejected = 1; reason = death; effect = cs_effect st
       in \<lparr>dl_rejected = rejected, dl_work = work, dl_dlq = dlq, dl_reason = reason, dl_effect = effect,
           dl_passed = (rejected = 1 \<and> work = 0 \<and> dlq = 1 \<and> reason = Some ''rejected'' \<and> effect = 0)\<rparr>)))))))"

section \<open>Consuming new events\<close>

fun apply_all :: "pg_driver \<Rightarrow> (jsval \<times> int) list \<Rightarrow> db \<Rightarrow> db" where
  "apply_all drv [] d = d"
| "apply_all drv ((m, i) # evs) d = apply_all drv evs (after_effect drv m i d)"

definition counted :: "int \<Rightarrow> consumer_stats \<Rightarrow> consumer_stats" where
  "counted n st = st\<lparr>cs_delivered := cs_delivered st + n, cs_effect := cs_effect st + n, cs_acked := cs_acked st + n\<rparr>"

definition new_events :: "pg_driver \<Rightarrow> (jsval \<times> int) list \<Rightarrow> db \<Rightarrow> bool" where
  "new_events drv evs d \<longleftrightarrow> inbox_ok d \<and> (\<forall>(m, i) \<in> set evs. order_event drv m i) \<and>
     distinct (map (event_id_text drv \<circ> fst) evs) \<and>
     (\<forall>(m, i) \<in> set evs. event_id_text drv m \<notin> inbox_ids d)"

lemma new_events_Cons:
  assumes "new_events drv ((m, i) # evs) d"
  shows "new_events drv evs (after_effect drv m i d)"
    and "consume drv None (Some (Some m)) (d, st, c) = (Some Ack, (after_effect drv m i d, counted 1 st, c))"
proof -
  have ok: "inbox_ok d" "order_event drv m i" "event_id_text drv m \<notin> inbox_ids d"
    and other: "event_id_text drv m \<notin> (event_id_text drv \<circ> fst) ` set evs"
    using assms by (simp_all add: new_events_def)
  have "event_id_text drv x \<notin> inbox_ids (after_effect drv m i d)" if "(x, j) \<in> set evs" for x j
  proof -
    have "event_id_text drv x \<in> (event_id_text drv \<circ> fst) ` set evs"
      using imageI [OF that, of "event_id_text drv \<circ> fst"] by simp
    with other have "event_id_text drv x \<noteq> event_id_text drv m" by metis
    moreover have "event_id_text drv x \<notin> inbox_ids d" using assms that by (auto simp: new_events_def)
    ultimately show ?thesis by (simp add: after_effect_ids)
  qed
  then show "new_events drv evs (after_effect drv m i d)"
    using assms after_effect_wf [OF ok(1,3)] by (auto simp: new_events_def)
  show "consume drv None (Some (Some m)) (d, st, c) = (Some Ack, (after_effect drv m i d, counted 1 st, c))"
    using consume_order_event [OF ok(1,2)] ok(3) by (simp add: counted_def)
qed

lemma consume_new_events:
  "new_events drv (evs @ rest) d \<Longrightarrow> new_events drv rest (apply_all drv evs d) \<and>
     snd (consume_all drv None (map Some (map fst evs)) (d, st, c)) = (apply_all drv evs d, counted (int (length evs)) st, c)"
proof (induction evs arbitrary: d st)
  case (Cons x evs)
  obtain m i where x: "x = (m, i)" by (cases x)
  with Cons.prems have n: "new_events drv ((m, i) # evs @ rest) d" by simp
  from Cons.IH [OF new_events_Cons(1) [OF n], of "counted 1 st"] new_events_Cons(2) [OF n, of st c] show ?case
    by (simp add: x case_prod_beta counted_def)
qed (simp add: counted_def)

lemma apply_all_append: "apply_all drv (xs @ ys) d = apply_all drv ys (apply_all drv xs d)"
  by (induction drv xs d rule: apply_all.induct) simp_all

lemma waitFor_new_events:
  assumes "new_events drv evs d" and "concat mss = map fst evs" and "evs \<noteq> []"
    and "\<And>d st q. ready (d, st, q) \<longleftrightarrow> t \<le> cs_effect st" and "t = cs_effect st + int (length evs)"
  shows "waitFor drv msg ready mss (d, st, q) = (Inr (), (apply_all drv evs d, counted (int (length evs)) st, q))"
  using assms(1-3,5)
proof (induction mss arbitrary: evs d st)
  case (Cons ms mss)
  define e1 where "e1 = take (length ms) evs"
  define e2 where "e2 = drop (length ms) evs"
  have evs: "evs = e1 @ e2" by (simp add: e1_def e2_def)
  have ms: "ms = map fst e1" "concat mss = map fst e2"
    using Cons.prems(2) by (simp_all add: e1_def e2_def flip: take_map drop_map) (metis append_eq_conv_conj)+
  from consume_new_events [of drv e1 e2 d st q] Cons.prems(1)
  have new: "new_events drv e2 (apply_all drv e1 d)" and
    step: "snd (consume_all drv None (map Some ms) (d, st, q)) = (apply_all drv e1 d, counted (int (length e1)) st, q)"
    by (simp_all add: evs ms(1) del: map_map)
  show ?case
  proof (cases "e2 = []")
    case True
    with step Cons.prems(4) show ?thesis by (simp add: evs assms(4) counted_def)
  next
    case False
    with Cons.IH [OF new ms(2) False, of "counted (int (length e1)) st"] step Cons.prems(4) show ?thesis
      by (simp add: evs assms(4) counted_def apply_all_append algebra_simps)
  qed
qed simp

section \<open>The five events go through\<close>

definition demo_events :: "(nat \<Rightarrow> string) \<Rightarrow> (nat \<Rightarrow> string) \<Rightarrow> (jsval \<times> int) list" where
  "demo_events uuid at = map (\<lambda>i. (createEvent (uuid i) (at i) i, int i + 1)) [0..<EVENT_COUNT]"

text \<open>What the demonstration needs: new identifiers that fit the column, and a driver that reads a
  decimal string as a \<open>bigint\<close>.\<close>

definition publish_ready :: "pg_driver \<Rightarrow> (nat \<Rightarrow> string) \<Rightarrow> (nat \<Rightarrow> string) \<Rightarrow> db \<Rightarrow> bool" where
  "publish_ready drv uuid at d \<longleftrightarrow> driver_ok drv \<and> inbox_ok d \<and> distinct (map uuid [0..<EVENT_COUNT]) \<and>
     (\<forall>i < EVENT_COUNT. pg_bigint drv (Str (show_int (int i + 1))) = Inr (int i + 1) \<and> at i \<noteq> [] \<and>
        length (uuid i) \<le> 100 \<and> ''demo-publish-'' @ uuid i \<notin> inbox_ids d)"

lemma createEvent_event:
  assumes "driver_ok drv" and "pg_bigint drv (Str (show_int (int i + 1))) = Inr (int i + 1)" and "at \<noteq> []"
    and "length uuid \<le> 100"
  shows "order_event drv (createEvent uuid at i) (int i + 1)"
    and "event_id_text drv (createEvent uuid at i) = ''demo-publish-'' @ uuid"
  using assms
  by (simp_all add: order_event_def valid_event_def parseOrderPlacedEvent_def createEvent_def driver_ok_def
      ORDER_PLACED_TYPE_def show_int_def)

lemma demo_events_new:
  assumes "publish_ready drv uuid at d" shows "new_events drv (demo_events uuid at) d"
proof -
  have each: "order_event drv (createEvent (uuid i) (at i) i) (int i + 1)"
    "event_id_text drv (createEvent (uuid i) (at i) i) = ''demo-publish-'' @ uuid i" if "i < EVENT_COUNT" for i
    using assms that createEvent_event [of drv i "at i" "uuid i"] by (auto simp: publish_ready_def)
  have "map (event_id_text drv \<circ> fst) (demo_events uuid at) = map (\<lambda>i. ''demo-publish-'' @ uuid i) [0..<EVENT_COUNT]"
    using each(2) by (auto simp: demo_events_def)
  moreover have "distinct (map (\<lambda>i. ''demo-publish-'' @ uuid i) [0..<EVENT_COUNT])"
    using assms by (simp add: publish_ready_def distinct_map inj_on_def)
  ultimately have "distinct (map (event_id_text drv \<circ> fst) (demo_events uuid at))" by simp
  moreover have "\<forall>(m, i) \<in> set (demo_events uuid at). order_event drv m i \<and> event_id_text drv m \<notin> inbox_ids d"
    using assms each by (auto simp: publish_ready_def demo_events_def)
  ultimately show ?thesis
    using assms by (auto simp: new_events_def publish_ready_def)
qed

lemma publish_fold:
  assumes "accepting publish"
  shows "cmd_fold (\<lambda>i n. cmd_bind (on_relay (on_snd (publish (createEvent (uuid i) (at i) i)))) (\<lambda>_. cmd_return (n + 1))) is n (d, st, q)
    = (Inr (n + length is), (d, st, q @ map (\<lambda>i. createEvent (uuid i) (at i) i) is))"
  using assms
  by (induction "is" arbitrary: n q) (simp_all add: cmd_bind_run cmd_simps accepting_def)

lemma effects_apply_all: "effects (apply_all drv evs d) = effects d @ map (\<lambda>(m, i). new_effect drv m i) evs"
  by (induction drv evs d rule: apply_all.induct) (simp_all add: after_effect_def)

text \<open>C0: five events with new identifiers go through publisher, queue and consumer: each is delivered,
  applied to its own order and acknowledged, both queues are empty afterwards, and the
  demonstration passes, however the deliveries fall between the polls.\<close>
theorem publish_demo_passes:
  assumes "accepting publish" and "in_order deliver" and "publish_ready drv uuid at d"
  shows "\<exists>rep d' st'. publish_demo drv publish deliver uuid at (d, st, q) = (Inr rep, (d', st', map fst (demo_events uuid at))) \<and>
    pb_passed rep \<and> effects d' = effects d @ map (\<lambda>(m, i). new_effect drv m i) (demo_events uuid at)"
proof -
  let ?evs = "demo_events uuid at"
  have len: "length ?evs = EVENT_COUNT" "?evs \<noteq> []" by (simp_all add: demo_events_def EVENT_COUNT_def)
  have msgs: "map (\<lambda>i. createEvent (uuid i) (at i) i) [0..<EVENT_COUNT] = map fst ?evs" by (simp add: demo_events_def)
  have all: "concat (deliver (map fst ?evs)) = map fst ?evs" using assms(2) by (simp add: in_order_def)
  have total: "int EVENT_COUNT = cs_effect no_stats + int (length ?evs)" by (simp add: len(1) no_stats_def)
  have "waitFor drv ''Timed out waiting for 5 effects'' (\<lambda>(_, st, _). int EVENT_COUNT \<le> cs_effect st) (deliver (map fst ?evs))
      (d, no_stats, map fst ?evs) = (Inr (), (apply_all drv ?evs d, counted (int (length ?evs)) no_stats, map fst ?evs))"
    by (rule waitFor_new_events [OF demo_events_new [OF assms(3)] all len(2) _ total]) simp
  moreover have "cmd_fold (\<lambda>i n. cmd_bind (on_relay (on_snd (publish (createEvent (uuid i) (at i) i)))) (\<lambda>_. cmd_return (n + 1)))
      [0..<EVENT_COUNT] 0 (d, no_stats, []) = (Inr EVENT_COUNT, (d, no_stats, map fst ?evs))"
    unfolding publish_fold [OF assms(1)] msgs by simp
  ultimately have "publish_demo drv publish deliver uuid at (d, st, q) = (Inr \<lparr>pb_published = EVENT_COUNT,
      pb_delivered = int EVENT_COUNT, pb_effect = int EVENT_COUNT, pb_acked = int EVENT_COUNT, pb_dlq = 0, pb_work = 0,
      pb_prefetch = ORDER_PLACED_PREFETCH, pb_passed = True\<rparr>,
      (apply_all drv ?evs d, counted (int EVENT_COUNT) no_stats, map fst ?evs))"
    by (simp add: publish_demo_def purgeQueue_def startConsumer_def cmd_bind_run cmd_simps Let_def len(1)
        work_depth_def dlq_depth_def counted_def ORDER_PLACED_PREFETCH_def) (simp add: no_stats_def)
  then show ?thesis by (simp add: effects_apply_all)
qed

section \<open>The poison message is dead-lettered\<close>

lemma consume_poison:
  "consume drv None (Some (Some poison)) (d, st, q) = (Some Nack_dead_letter, (d, st\<lparr>cs_delivered := cs_delivered st + 1\<rparr>, q))"
  by (simp add: consume_def handle_message_def cmd_bind_run cmd_simps parseOrderPlacedEvent_def poison_def)

lemma waitFor_poison:
  assumes "concat mss = [poison]"
  shows "waitFor drv msg (\<lambda>s. 1 \<le> dlq_depth s) mss (d, no_stats, q) =
    (Inr (), (d, no_stats\<lparr>cs_delivered := 1\<rparr>, q))"
  using assms
proof (induction mss)
  case (Cons ms mss)
  then consider "ms = []" "concat mss = [poison]" | "ms = [poison]" by (cases ms) auto
  then show ?case
    by cases (use Cons.IH consume_poison [of drv d no_stats q] in \<open>simp_all add: dlq_depth_def no_stats_def\<close>)
qed simp

text \<open>C0: a message that is no event changes no table: the consumer rejects it, it ends in the dead
  letter queue, the work queue is empty, and the demonstration passes exactly if the broker
  names the rejection as the reason.\<close>
theorem dlq_demo_outcome:
  assumes "accepting publish" and "in_order deliver"
  shows "\<exists>rep st'. dlq_demo drv publish deliver death (d, st, q) = (Inr rep, (d, st', [poison])) \<and>
    dl_dlq rep = 1 \<and> dl_work rep = 0 \<and> dl_effect rep = 0 \<and> (dl_passed rep \<longleftrightarrow> death = Some ''rejected'')"
proof -
  have "concat (deliver [poison]) = [poison]" using assms(2) by (simp add: in_order_def)
  from waitFor_poison [OF this, of drv _ d "[poison]"] assms(1) show ?thesis
    by (simp add: dlq_demo_def purgeQueue_def startConsumer_def cmd_bind_run cmd_simps accepting_def work_depth_def
        dlq_depth_def no_stats_def Let_def)
qed

text \<open>A driver that reads decimal strings.\<close>

definition text_drv :: pg_driver where
  "text_drv = sample_drv\<lparr>pg_bigint := \<lambda>v. case v of Str s \<Rightarrow> Inr (case read_decimal s of IntN i \<Rightarrow> i | _ \<Rightarrow> 0)
     | _ \<Rightarrow> pg_bigint sample_drv v\<rparr>"

lemma text_drv_ok: "driver_ok text_drv" "pg_bigint text_drv (Str (show_int i)) = Inr i"
  using sample_drv_ok by (simp_all add: driver_ok_def text_drv_def read_decimal_show_int)

lemma publish_demo_passes_witness:
  "\<exists>rep s. publish_demo text_drv log_publish (\<lambda>q. map (\<lambda>m. [m]) q) (\<lambda>i. replicate i CHR ''u'') (\<lambda>_. ''t'') (bench_db, no_stats, []) =
     (Inr rep, s) \<and> pb_passed rep \<and> map ef_order_id (effects (fst s)) = [1, 2, 3, 4, 5]"
proof -
  have order: "in_order (\<lambda>q. map (\<lambda>m. [m]) q)" by (simp add: in_order_def)
  have "inj (\<lambda>i. replicate i CHR ''u'')" by (rule injI) (metis length_replicate)
  then have "distinct (map (\<lambda>i. replicate i CHR ''u'') [0..<EVENT_COUNT])"
    by (simp add: distinct_map inj_on_def)
  then have ready: "publish_ready text_drv (\<lambda>i. replicate i CHR ''u'') (\<lambda>_. ''t'') bench_db"
    using bench_db_ok text_drv_ok
    by (simp add: publish_ready_def inbox_ids_def bench_db_def sample_db_def empty_db_def EVENT_COUNT_def)
  have ids: "map (ef_order_id \<circ> (\<lambda>(m, i). new_effect text_drv m i)) (demo_events (\<lambda>i. replicate i CHR ''u'') (\<lambda>_. ''t'')) = [1, 2, 3, 4, 5]"
    by (simp add: demo_events_def EVENT_COUNT_def new_effect_def upt_rec)
  have none: "effects bench_db = []" by (simp add: bench_db_def sample_db_def empty_db_def)
  from publish_demo_passes [OF log_publish_accepting order ready, of no_stats "[]"] ids show ?thesis
    unfolding none by (auto simp: map_map [symmetric] simp del: map_map)
qed

lemma dlq_demo_outcome_witness:
  "\<exists>rep s. dlq_demo sample_drv log_publish (\<lambda>q. [[], q]) (Some ''rejected'') (bench_db, no_stats, []) = (Inr rep, s) \<and> dl_passed rep"
proof -
  have "in_order (\<lambda>q. [[], q])" by (simp add: in_order_def)
  from dlq_demo_outcome [OF log_publish_accepting this, of sample_drv "Some ''rejected''" bench_db no_stats "[]"]
  show ?thesis by auto
qed

end
