(* ===== verification/Session.thy ===== *)
theory Session
  imports Js
begin

text \<open>
  \<open>src/redis/session.ts\<close>: sessions in Redis that end five seconds after they were last
  read. The store maps a key to its JSON value and the time it expires at, in milliseconds.
\<close>

definition SESSION_TTL_SECONDS :: int where "SESSION_TTL_SECONDS = 5"

record session_data =
  sd_sessionId :: string
  sd_userId :: int

type_synonym session_store = "string \<Rightarrow> (session_data \<times> int) option"

definition session_key :: "string \<Rightarrow> string" where
  "session_key sessionId = ''session:'' @ sessionId"

text \<open>\<open>GET\<close>, \<open>EXPIRE\<close> and \<open>TTL\<close>: a key that expired is absent.\<close>

definition session_live :: "int \<Rightarrow> string \<Rightarrow> session_store \<Rightarrow> (session_data \<times> int) option" where
  "session_live now key st = (case st key of
       None \<Rightarrow> None
     | Some (v, expires) \<Rightarrow> if expires \<le> now then None else Some (v, expires))"

definition session_expire :: "int \<Rightarrow> string \<Rightarrow> int \<Rightarrow> session_store \<Rightarrow> session_store" where
  "session_expire now key seconds st = (case session_live now key st of
       None \<Rightarrow> st
     | Some (v, _) \<Rightarrow> st(key \<mapsto> (v, now + 1000 * seconds)))"

definition createSession :: "int \<Rightarrow> string \<Rightarrow> int \<Rightarrow> session_store \<Rightarrow> session_store" where
  "createSession now sessionId userId st =
     st(session_key sessionId \<mapsto>
       (\<lparr>sd_sessionId = sessionId, sd_userId = userId\<rparr>, now + 1000 * SESSION_TTL_SECONDS))"

text \<open>The second command runs at \<open>later\<close>, when the answer of the first is there.\<close>

definition getSession ::
  "int \<Rightarrow> int \<Rightarrow> string \<Rightarrow> session_store \<Rightarrow> session_data option \<times> session_store" where
  "getSession now later sessionId st =
     (let key = session_key sessionId
      in case session_live now key st of
           None \<Rightarrow> (None, st)
         | Some (v, _) \<Rightarrow> (Some v, session_expire later key SESSION_TTL_SECONDS st))"

definition getSessionTtl :: "int \<Rightarrow> string \<Rightarrow> session_store \<Rightarrow> int" where
  "getSessionTtl now sessionId st = (case session_live now (session_key sessionId) st of
       None \<Rightarrow> -2
     | Some (_, expires) \<Rightarrow> (expires - now + 500) div 1000)"

definition deleteSession :: "string \<Rightarrow> session_store \<Rightarrow> session_store" where
  "deleteSession sessionId st = st(session_key sessionId := None)"

lemma session_key_inject [simp]: "session_key a = session_key b \<longleftrightarrow> a = b"
  by (simp add: session_key_def)

section \<open>What the clients do, one operation after the other\<close>

datatype session_op =
    CreateOp string int
  | GetOp string int
  | DeleteOp string

fun session_step :: "int \<Rightarrow> session_op \<Rightarrow> session_store \<Rightarrow> session_data option \<times> session_store" where
  "session_step now (CreateOp sid uid) st = (None, createSession now sid uid st)"
| "session_step now (GetOp sid lag) st = getSession now (now + lag) sid st"
| "session_step now (DeleteOp sid) st = (None, deleteSession sid st)"

fun session_run :: "(int \<times> session_op) list \<Rightarrow> session_store \<Rightarrow> session_data option list \<times> session_store" where
  "session_run [] st = ([], st)"
| "session_run ((now, op) # ops) st =
     (let (r, st') = session_step now op st; (rs, st'') = session_run ops st'
      in (r # rs, st''))"

fun op_session :: "session_op \<Rightarrow> string" where
  "op_session (CreateOp sid _) = sid"
| "op_session (GetOp sid _) = sid"
| "op_session (DeleteOp sid) = sid"

text \<open>
  The contract of one session: an automaton whose state is the data and the end of the
  session's time, which knows nothing of keys.
\<close>

fun spec_step :: "int \<Rightarrow> session_op \<Rightarrow> (session_data \<times> int) option \<Rightarrow>
    session_data option \<times> (session_data \<times> int) option" where
  "spec_step now (CreateOp sid uid) q =
     (None, Some (\<lparr>sd_sessionId = sid, sd_userId = uid\<rparr>, now + 5000))"
| "spec_step now (GetOp sid lag) q = (case q of
     None \<Rightarrow> (None, None)
   | Some (v, e) \<Rightarrow>
       if e \<le> now then (None, Some (v, e))
       else if e \<le> now + lag then (Some v, Some (v, e))
       else (Some v, Some (v, now + lag + 5000)))"
| "spec_step now (DeleteOp sid) q = (None, None)"

fun spec_run :: "(int \<times> session_op) list \<Rightarrow> (session_data \<times> int) option \<Rightarrow> session_data option list" where
  "spec_run [] q = []"
| "spec_run ((now, op) # ops) q = (let (r, q') = spec_step now op q in r # spec_run ops q')"

lemmas session_defs = createSession_def getSession_def deleteSession_def session_expire_def session_live_def
  SESSION_TTL_SECONDS_def

lemma session_step_own:
  "op_session op = sid \<Longrightarrow> spec_step now op (st (session_key sid)) =
     (fst (session_step now op st), snd (session_step now op st) (session_key sid))"
  by (cases op) (auto simp: session_defs split: option.splits prod.splits)

lemma session_step_other:
  "op_session op \<noteq> sid \<Longrightarrow> snd (session_step now op st) (session_key sid) = st (session_key sid)"
  by (cases op) (auto simp: session_defs Let_def split: option.splits prod.splits)

lemma session_run_spec:
  "map snd (filter (\<lambda>(op, _). op_session (snd op) = sid) (zip ops (fst (session_run ops st)))) =
     spec_run (filter (\<lambda>op. op_session (snd op) = sid) ops) (st (session_key sid))"
proof (induction ops arbitrary: st)
  case (Cons x ops)
  obtain now op where x: "x = (now, op)" by (cases x)
  obtain r st' where s: "session_step now op st = (r, st')" by (cases "session_step now op st")
  show ?case
  proof (cases "op_session op = sid")
    case True
    from session_step_own [OF this, of now st] Cons.IH [of st'] s True show ?thesis
      by (simp add: x case_prod_beta)
  next
    case False
    from session_step_other [OF this, of now st] Cons.IH [of st'] s False show ?thesis
      by (simp add: x case_prod_beta)
  qed
qed simp

text \<open>Isolation and refinement: in any interleaving of operations on any number of
  sessions, what the operations on one session return is what its own automaton returns for
  them alone.
\<close>

theorem session_refines:
  "map snd (filter (\<lambda>(op, _). op_session (snd op) = sid) (zip ops (fst (session_run ops st)))) =
     spec_run (filter (\<lambda>op. op_session (snd op) = sid) ops) (st (session_key sid))"
  by (rule session_run_spec)

section \<open>The rolling time to live\<close>

text \<open>Reads of one session, each at one instant.\<close>

abbreviation reads :: "string \<Rightarrow> int list \<Rightarrow> (int \<times> session_op) list" where
  "reads sid ts \<equiv> map (\<lambda>t. (t, GetOp sid 0)) ts"

text \<open>No two reads in a row are five seconds or more apart.\<close>

fun gaps_ok :: "int \<Rightarrow> int list \<Rightarrow> bool" where
  "gaps_ok t0 [] = True"
| "gaps_ok t0 (t # ts) \<longleftrightarrow> t < t0 + 5000 \<and> gaps_ok t ts"

lemma spec_run_dead:
  "e \<le> t0 \<Longrightarrow> sorted (t0 # ts) \<Longrightarrow> spec_run (reads sid ts) (Some (v, e)) = replicate (length ts) None"
  by (induction ts arbitrary: t0) auto

lemma spec_run_reads:
  assumes "sorted (t0 # ts)" and "n < length ts"
  shows "spec_run (reads sid ts) (Some (v, t0 + 5000)) ! n =
     (if gaps_ok t0 (take (Suc n) ts) then Some v else None)"
  using assms
proof (induction ts arbitrary: t0 n)
  case (Cons t ts)
  show ?case
  proof (cases "t < t0 + 5000")
    case True
    then show ?thesis using Cons by (cases n) auto
  next
    case False
    then have "spec_run (reads sid (t # ts)) (Some (v, t0 + 5000)) = replicate (length (t # ts)) None"
      using Cons.prems(1) by (intro spec_run_dead [of _ t]) auto
    with False Cons.prems(2) show ?thesis by (simp del: replicate.simps)
  qed
qed simp

lemma filter_reads [simp]: "filter (\<lambda>op. op_session (snd op) = sid) (reads sid ts) = reads sid ts"
  by (induction ts) auto

lemma session_run_length [simp]: "length (fst (session_run ops st)) = length ops"
  by (induction ops arbitrary: st) (auto simp: case_prod_beta)

text \<open>a session that is created and then read at times \<open>ts\<close> is returned by the n-th
  read exactly if no two accesses up to then are five seconds or more apart; once it is
  gone it stays gone.
\<close>

theorem session_rolling_ttl:
  assumes "sorted (t0 # ts)" and "n < length ts"
  shows "fst (session_run (reads sid ts) (createSession t0 sid uid st)) ! n =
     (if gaps_ok t0 (take (Suc n) ts) then Some \<lparr>sd_sessionId = sid, sd_userId = uid\<rparr> else None)"
proof -
  have "filter (\<lambda>(op, _). op_session (snd op) = sid) (zip (reads sid ts) rs) = zip (reads sid ts) rs" for rs :: "session_data option list"
    by (auto simp: filter_id_conv dest!: set_zip_leftD)
  with session_run_spec [of sid "reads sid ts" "createSession t0 sid uid st"]
  have "fst (session_run (reads sid ts) (createSession t0 sid uid st)) =
      spec_run (reads sid ts) (createSession t0 sid uid st (session_key sid))"
    by (simp only: filter_reads) simp
  with spec_run_reads [OF assms] show ?thesis by (simp add: createSession_def SESSION_TTL_SECONDS_def)
qed

lemma session_rolling_ttl_witness:
  "fst (session_run (reads ''s'' [4000, 8999, 13999]) (createSession 0 ''s'' 9 (\<lambda>_. None))) ! 1 =
      Some \<lparr>sd_sessionId = ''s'', sd_userId = 9\<rparr> \<and>
   fst (session_run (reads ''s'' [4000, 8999, 13999]) (createSession 0 ''s'' 9 (\<lambda>_. None))) ! 2 = None"
  using session_rolling_ttl [of 0 "[4000, 8999, 13999]" 1 "''s''" 9 "\<lambda>_. None"]
    session_rolling_ttl [of 0 "[4000, 8999, 13999]" 2 "''s''" 9 "\<lambda>_. None"]
  by (simp_all add: numeral_2_eq_2)

end
