(* ===== verification/RateLimit.thy ===== *)
theory RateLimit
  imports Js
begin

text \<open>
  \<open>src/redis/rate-limit.ts\<close>: a sliding window rate limiter, a Lua script on one sorted set
  per client. The script runs atomically on the server, so a sequence of calls from any number
  of instances is a sequence of its runs. Times are milliseconds; the server's clock, which
  only decides when the key expires, differs from the callers' by a constant \<open>skew\<close>.
\<close>

section \<open>The sorted set of a client\<close>

text \<open>A sorted set is the list of its entries, by score and then by member.\<close>

datatype zentry = ZEntry (z_score: int) (z_member: string)

fun lex_less :: "string \<Rightarrow> string \<Rightarrow> bool" where
  "lex_less _ [] = False"
| "lex_less [] (_ # _) = True"
| "lex_less (c # cs) (e # es) =
     ((of_char c :: nat) < of_char e \<or> c = e \<and> lex_less cs es)"

definition zentry_before :: "zentry \<Rightarrow> zentry \<Rightarrow> bool" where
  "zentry_before x y \<longleftrightarrow> z_score x < z_score y \<or> z_score x = z_score y \<and> lex_less (z_member x) (z_member y)"

record zset =
  zs_entries :: "zentry list"
  zs_expires_at :: int

type_synonym zkey = "zset option"

text \<open>What a command sees of the key at the server's time \<open>t\<close>.\<close>

definition live_entries :: "int \<Rightarrow> zkey \<Rightarrow> zentry list" where
  "live_entries t k = (case k of
       None \<Rightarrow> []
     | Some z \<Rightarrow> if zs_expires_at z \<le> t then [] else zs_entries z)"

definition ZREMRANGEBYSCORE :: "int \<Rightarrow> int \<Rightarrow> zentry list \<Rightarrow> zentry list" where
  "ZREMRANGEBYSCORE lo hi es = filter (\<lambda>e. \<not> (lo \<le> z_score e \<and> z_score e \<le> hi)) es"

fun zinsert :: "zentry \<Rightarrow> zentry list \<Rightarrow> zentry list" where
  "zinsert x [] = [x]"
| "zinsert x (e # es) = (if zentry_before x e then x # e # es else e # zinsert x es)"

text \<open>A member that is there already gets the new score.\<close>

definition ZADD :: "int \<Rightarrow> string \<Rightarrow> zentry list \<Rightarrow> zentry list" where
  "ZADD score member es = zinsert (ZEntry score member) (filter (\<lambda>e. z_member e \<noteq> member) es)"

section \<open>The script\<close>

definition WINDOW_MS :: int where "WINDOW_MS = 5000"

record limit_result =
  lr_allowed :: bool
  lr_count :: int
  lr_retryAfterSeconds :: int

text \<open>\<open>math.ceil(ms / 1000)\<close>\<close>

definition ceil_seconds :: "int \<Rightarrow> int" where
  "ceil_seconds ms = - ((- ms) div 1000)"

definition sliding_window ::
  "int \<Rightarrow> int \<Rightarrow> int \<Rightarrow> int \<Rightarrow> string \<Rightarrow> zkey \<Rightarrow> limit_result \<times> zkey" where
  "sliding_window server_now now window limit member k =
     (let es = ZREMRANGEBYSCORE 0 (now - window) (live_entries server_now k);
          count = int (length es)
      in if limit \<le> count
         then (\<lparr>lr_allowed = False, lr_count = count,
                lr_retryAfterSeconds = (case es of
                    [] \<Rightarrow> 1
                  | oldest # _ \<Rightarrow> max 1 (ceil_seconds (window - (now - z_score oldest))))\<rparr>,
               if es = [] then None else map_option (\<lambda>z. z\<lparr>zs_entries := es\<rparr>) k)
         else (\<lparr>lr_allowed = True, lr_count = count + 1, lr_retryAfterSeconds = 0\<rparr>,
               Some \<lparr>zs_entries = ZADD now member es, zs_expires_at = server_now + window\<rparr>))"

text \<open>The limiter: one key per client, \<open>check\<close> and \<open>reset\<close>.\<close>

type_synonym limiter = "string \<Rightarrow> zkey"

definition rate_key :: "string \<Rightarrow> string" where
  "rate_key clientId = ''rate-limit:'' @ clientId"

definition check ::
  "int \<Rightarrow> int \<Rightarrow> string \<Rightarrow> int \<Rightarrow> string \<Rightarrow> limiter \<Rightarrow> limit_result \<times> limiter" where
  "check limit skew random now clientId st =
     (let (r, k) = sliding_window (now + skew) now WINDOW_MS limit random (st (rate_key clientId))
      in (r, st(rate_key clientId := k)))"

definition reset :: "string \<Rightarrow> limiter \<Rightarrow> limiter" where
  "reset clientId st = st(rate_key clientId := None)"

lemma rate_key_inject [simp]: "rate_key a = rate_key b \<longleftrightarrow> a = b"
  by (simp add: rate_key_def)

section \<open>Calls one after the other\<close>

text \<open>A call: the client, the time and the member, which the caller makes unique.\<close>

record call =
  cl_client :: string
  cl_now :: int
  cl_member :: string

fun run_checks :: "int \<Rightarrow> int \<Rightarrow> call list \<Rightarrow> limiter \<Rightarrow> limit_result list \<times> limiter" where
  "run_checks limit skew [] st = ([], st)"
| "run_checks limit skew (c # cs) st =
     (let (r, st') = check limit skew (cl_member c) (cl_now c) (cl_client c) st;
          (rs, st'') = run_checks limit skew cs st'
      in (r # rs, st''))"

text \<open>The calls of a client that were admitted.\<close>

definition admitted :: "string \<Rightarrow> call list \<Rightarrow> limit_result list \<Rightarrow> int list" where
  "admitted client cs rs =
     map (cl_now \<circ> fst) (filter (\<lambda>(c, r). cl_client c = client \<and> lr_allowed r) (zip cs rs))"

lemma set_zinsert [simp]: "set (zinsert x es) = insert x (set es)"
  by (induction es) auto

lemma length_zinsert [simp]: "length (zinsert x es) = Suc (length es)"
  by (induction es) auto

lemma distinct_zinsert: "distinct (zinsert x es) \<longleftrightarrow> x \<notin> set es \<and> distinct es"
  by (induction es) auto

section \<open>The window invariant\<close>

text \<open>
  \<open>log\<close> holds the admitted calls of a client, latest first, as entries. Up to the time
  \<open>now\<close> of the last call, the entries of the key are admitted calls, and every admitted
  call that is still inside the window is an entry.
\<close>

definition window_inv :: "int \<Rightarrow> int \<Rightarrow> zentry list \<Rightarrow> zkey \<Rightarrow> bool" where
  "window_inv skew now log k \<longleftrightarrow> distinct (map z_member log) \<and>
     (\<forall>e \<in> set log. 0 \<le> z_score e \<and> z_score e \<le> now) \<and>
     (\<forall>t \<ge> now. {e \<in> set log. t - WINDOW_MS < z_score e} \<subseteq> set (live_entries (t + skew) k)) \<and>
     (\<forall>z. k = Some z \<longrightarrow> set (zs_entries z) \<subseteq> set log \<and> distinct (zs_entries z))"

lemma live_subset: "set (live_entries t k) \<subseteq> (case k of None \<Rightarrow> {} | Some z \<Rightarrow> set (zs_entries z))"
  by (auto simp: live_entries_def split: option.splits)

lemma window_entries:
  assumes "window_inv skew now0 log k" and "now0 \<le> now"
  shows "set (ZREMRANGEBYSCORE 0 (now - WINDOW_MS) (live_entries (now + skew) k)) =
      {e \<in> set log. now - WINDOW_MS < z_score e}"
    and "distinct (ZREMRANGEBYSCORE 0 (now - WINDOW_MS) (live_entries (now + skew) k))"
proof -
  have sub: "set (live_entries (now + skew) k) \<subseteq> set log"
    using assms(1) live_subset [of "now + skew" k] by (auto simp: window_inv_def split: option.splits)
  have "{e \<in> set log. now - WINDOW_MS < z_score e} \<subseteq> set (live_entries (now + skew) k)"
    using assms by (simp add: window_inv_def)
  moreover have "\<forall>e \<in> set log. 0 \<le> z_score e" using assms(1) by (simp add: window_inv_def)
  ultimately show "set (ZREMRANGEBYSCORE 0 (now - WINDOW_MS) (live_entries (now + skew) k)) =
      {e \<in> set log. now - WINDOW_MS < z_score e}"
    using sub by (auto simp: ZREMRANGEBYSCORE_def)
  show "distinct (ZREMRANGEBYSCORE 0 (now - WINDOW_MS) (live_entries (now + skew) k))"
    using assms(1) by (auto simp: ZREMRANGEBYSCORE_def live_entries_def window_inv_def split: option.splits)
qed

text \<open>The script counts the admitted calls in the window, whatever the key's expiry did.\<close>

lemma window_count:
  assumes "window_inv skew now0 log k" and "now0 \<le> now"
  shows "length (ZREMRANGEBYSCORE 0 (now - WINDOW_MS) (live_entries (now + skew) k)) =
      length (filter (\<lambda>e. now - WINDOW_MS < z_score e) log)"
proof -
  have "distinct log" using assms(1) by (simp add: window_inv_def distinct_map)
  then have "length (filter (\<lambda>e. now - WINDOW_MS < z_score e) log) =
      card {e \<in> set log. now - WINDOW_MS < z_score e}"
    by (simp add: distinct_card [symmetric])
  with window_entries [OF assms] show ?thesis
    by (metis distinct_card)
qed

lemma window_step:
  assumes "window_inv skew now0 log k" and "now0 \<le> now" and "0 \<le> now" and "member \<notin> z_member ` set log"
    and "sliding_window (now + skew) now WINDOW_MS limit member k = (r, k')"
  shows "window_inv skew now (if lr_allowed r then ZEntry now member # log else log) k' \<and>
    lr_allowed r = (int (length (filter (\<lambda>e. now - WINDOW_MS < z_score e) log)) < limit)"
proof -
  define es where "es = ZREMRANGEBYSCORE 0 (now - WINDOW_MS) (live_entries (now + skew) k)"
  note es = window_entries [OF assms(1,2), folded es_def] and count = window_count [OF assms(1,2), folded es_def]
  have log: "distinct (map z_member log)" "\<forall>e \<in> set log. 0 \<le> z_score e \<and> z_score e \<le> now"
    using assms(1,2) by (auto simp: window_inv_def)
  show ?thesis
  proof (cases "limit \<le> int (length es)")
    case True
    with assms(5) have r: "\<not> lr_allowed r"
      and k': "k' = (if es = [] then None else map_option (\<lambda>z. z\<lparr>zs_entries := es\<rparr>) k)"
      by (auto simp: sliding_window_def Let_def es_def)
    have "{e \<in> set log. t - WINDOW_MS < z_score e} \<subseteq> set (live_entries (t + skew) k')" if t: "now \<le> t" for t
    proof
      fix e assume e: "e \<in> {e \<in> set log. t - WINDOW_MS < z_score e}"
      with t have in_es: "e \<in> set es" unfolding es(1) by auto
      have "now0 \<le> t" using t assms(2) by simp
      with assms(1) have "{e \<in> set log. t - WINDOW_MS < z_score e} \<subseteq> set (live_entries (t + skew) k)"
        by (simp add: window_inv_def)
      with e have "e \<in> set (live_entries (t + skew) k)" by blast
      then obtain z where "k = Some z" "\<not> zs_expires_at z \<le> t + skew"
        by (auto simp: live_entries_def split: option.splits if_splits)
      with in_es show "e \<in> set (live_entries (t + skew) k')" by (auto simp: k' live_entries_def)
    qed
    moreover have "set (zs_entries z) \<subseteq> set log \<and> distinct (zs_entries z)" if "k' = Some z" for z
      using that es by (auto simp: k' split: if_splits)
    ultimately show ?thesis using log r True count by (simp add: window_inv_def)
  next
    case False
    with assms(5) have r: "lr_allowed r"
      and k': "k' = Some \<lparr>zs_entries = ZADD now member es, zs_expires_at = now + skew + WINDOW_MS\<rparr>"
      by (auto simp: sliding_window_def Let_def es_def)
    have sub: "set es \<subseteq> set log" using es(1) by auto
    with assms(4) have add: "ZADD now member es = zinsert (ZEntry now member) es"
      unfolding ZADD_def by (subst filter_True) auto
    have "{e \<in> set (ZEntry now member # log). t - WINDOW_MS < z_score e} \<subseteq> set (live_entries (t + skew) k')"
      if t: "now \<le> t" for t
    proof
      fix e assume e: "e \<in> {e \<in> set (ZEntry now member # log). t - WINDOW_MS < z_score e}"
      then have "z_score e \<le> now" using log(2) by auto
      with e have "t < now + WINDOW_MS" by auto
      moreover have "e \<in> insert (ZEntry now member) (set es)" using e t unfolding es(1) by auto
      ultimately show "e \<in> set (live_entries (t + skew) k')" by (auto simp: k' live_entries_def add)
    qed
    moreover have "ZEntry now member \<notin> set es" using assms(4) sub by force
    ultimately show ?thesis
      using log r False count assms(3,4) sub es(2)
      by (auto simp: window_inv_def k' add distinct_zinsert)
  qed
qed

lemma window_inv_later: "window_inv skew now log k \<Longrightarrow> now \<le> now' \<Longrightarrow> window_inv skew now' log k"
  unfolding window_inv_def by (meson order_trans)

section \<open>No window holds more than the limit\<close>

definition window_bound :: "int \<Rightarrow> zentry list \<Rightarrow> bool" where
  "window_bound limit log \<longleftrightarrow>
     (\<forall>t. int (length (filter (\<lambda>e. t - WINDOW_MS < z_score e \<and> z_score e \<le> t) log)) \<le> max 0 limit)"

lemma window_bound_admit:
  assumes "window_bound limit log"
    and "int (length (filter (\<lambda>e. now - WINDOW_MS < z_score e) log)) < limit"
  shows "window_bound limit (ZEntry now member # log)"
  unfolding window_bound_def
proof
  fix t
  show "int (length (filter (\<lambda>e. t - WINDOW_MS < z_score e \<and> z_score e \<le> t) (ZEntry now member # log))) \<le> max 0 limit"
  proof (cases "t - WINDOW_MS < now \<and> now \<le> t")
    case True
    then have "\<forall>e \<in> set log. t - WINDOW_MS < z_score e \<and> z_score e \<le> t \<longrightarrow> now - WINDOW_MS < z_score e" by auto
    then have "length (filter (\<lambda>e. t - WINDOW_MS < z_score e \<and> z_score e \<le> t) log) \<le>
        length (filter (\<lambda>e. now - WINDOW_MS < z_score e) log)"
      by (induction log) auto
    with assms(2) True show ?thesis by simp
  next
    case False
    with assms(1) show ?thesis by (auto simp: window_bound_def)
  qed
qed

text \<open>The logs of all clients, and what a run of calls keeps of them.\<close>

definition limiter_inv :: "int \<Rightarrow> int \<Rightarrow> int \<Rightarrow> (string \<Rightarrow> zentry list) \<Rightarrow> limiter \<Rightarrow> bool" where
  "limiter_inv limit skew now logs st \<longleftrightarrow>
     (\<forall>c. window_inv skew now (logs c) (st (rate_key c)) \<and> window_bound limit (logs c))"

lemma run_checks_inv:
  assumes "limiter_inv limit skew now logs st" and "run_checks limit skew cs st = (rs, st')"
    and "sorted (map cl_now cs)" and "\<forall>c \<in> set cs. now \<le> cl_now c \<and> 0 \<le> cl_now c"
    and "distinct (map cl_member cs)" and "\<forall>c \<in> set cs. \<forall>i. cl_member c \<notin> z_member ` set (logs i)"
  shows "\<exists>now' logs'. limiter_inv limit skew now' logs' st' \<and>
    (\<forall>c. map z_score (logs' c) = rev (admitted c cs rs) @ map z_score (logs c)) \<and>
    now' \<in> insert now (cl_now ` set cs) \<and>
    (\<forall>c. z_member ` set (logs' c) \<subseteq> z_member ` set (logs c) \<union> cl_member ` set cs)"
  using assms
proof (induction cs arbitrary: now logs st rs)
  case Nil
  then show ?case by (intro exI [of _ now] exI [of _ logs]) (auto simp: admitted_def)
next
  case (Cons c cs)
  let ?n = "cl_now c" and ?i = "cl_client c"
  obtain r k where s: "sliding_window (?n + skew) ?n WINDOW_MS limit (cl_member c) (st (rate_key ?i)) = (r, k)"
    by (rule prod.exhaust)
  define st1 where "st1 = st(rate_key ?i := k)"
  define logs1 where "logs1 = logs(?i := if lr_allowed r then ZEntry ?n (cl_member c) # logs ?i else logs ?i)"
  obtain rs1 where run: "run_checks limit skew cs st1 = (rs1, st')" and rs: "rs = r # rs1"
    using Cons.prems(2) s by (auto simp: check_def st1_def split: prod.splits)
  have w: "window_inv skew now (logs ?i) (st (rate_key ?i))" "window_bound limit (logs ?i)"
    using Cons.prems(1) by (simp_all add: limiter_inv_def)
  have pre: "now \<le> ?n" "0 \<le> ?n" "cl_member c \<notin> z_member ` set (logs ?i)" using Cons.prems(4,6) by simp_all
  note step = window_step [OF w(1) pre s]
  have "limiter_inv limit skew ?n logs1 st1"
    unfolding limiter_inv_def
  proof
    fix j
    show "window_inv skew ?n (logs1 j) (st1 (rate_key j)) \<and> window_bound limit (logs1 j)"
    proof (cases "j = ?i")
      case True
      with step w(2) window_bound_admit [of limit "logs ?i" ?n "cl_member c"] show ?thesis
        by (cases "lr_allowed r") (simp_all add: logs1_def st1_def)
    next
      case False
      with Cons.prems(1) show ?thesis
        by (auto simp: limiter_inv_def logs1_def st1_def intro: window_inv_later [OF _ pre(1)])
    qed
  qed
  moreover have "\<forall>x \<in> set cs. \<forall>i. cl_member x \<notin> z_member ` set (logs1 i)"
  proof (intro ballI allI)
    fix x i assume x: "x \<in> set cs"
    with Cons.prems(5) have "cl_member x \<noteq> cl_member c" by (auto simp: image_iff)
    with x Cons.prems(6) show "cl_member x \<notin> z_member ` set (logs1 i)" by (auto simp: logs1_def)
  qed
  moreover have "sorted (map cl_now cs)" "\<forall>x \<in> set cs. ?n \<le> cl_now x \<and> 0 \<le> cl_now x" "distinct (map cl_member cs)"
    using Cons.prems(3-5) by auto
  ultimately obtain now' logs' where IH: "limiter_inv limit skew now' logs' st'"
    "\<forall>i. map z_score (logs' i) = rev (admitted i cs rs1) @ map z_score (logs1 i)"
    "now' \<in> insert ?n (cl_now ` set cs)"
    "\<forall>i. z_member ` set (logs' i) \<subseteq> z_member ` set (logs1 i) \<union> cl_member ` set cs"
    using Cons.IH [OF _ run] by blast
  have "\<forall>i. map z_score (logs' i) = rev (admitted i (c # cs) rs) @ map z_score (logs i)"
    using IH(2) by (auto simp: rs admitted_def logs1_def)
  moreover have "z_member ` set (logs' i) \<subseteq> z_member ` set (logs i) \<union> cl_member ` set (c # cs)" for i
  proof -
    have "z_member ` set (logs1 i) \<subseteq> insert (cl_member c) (z_member ` set (logs i))" by (auto simp: logs1_def)
    moreover have "z_member ` set (logs' i) \<subseteq> z_member ` set (logs1 i) \<union> cl_member ` set cs" using IH(4) by blast
    ultimately show ?thesis unfolding list.set image_insert by blast
  qed
  moreover have "now' \<in> insert now (cl_now ` set (c # cs))" using IH(3) by auto
  ultimately show ?case using IH(1) by (intro exI [of _ now'] exI [of _ logs'] conjI allI) simp_all
qed

lemma empty_limiter_inv: "limiter_inv limit skew now (\<lambda>_. []) (\<lambda>_. None)"
  by (simp add: limiter_inv_def window_inv_def window_bound_def)

section \<open>Properties\<close>


definition sample_calls :: "call list" where
  "sample_calls = [\<lparr>cl_client = ''a'', cl_now = 100, cl_member = ''m1''\<rparr>,
     \<lparr>cl_client = ''a'', cl_now = 200, cl_member = ''m2''\<rparr>, \<lparr>cl_client = ''b'', cl_now = 200, cl_member = ''m3''\<rparr>,
     \<lparr>cl_client = ''a'', cl_now = 300, cl_member = ''m4''\<rparr>]"


lemma ceil_seconds_bounds: "ms \<le> 1000 * ceil_seconds ms" "1000 * ceil_seconds ms < ms + 1000"
proof -
  have "1000 * ((- ms) div 1000) + (- ms) mod 1000 = - ms" by (rule mult_div_mod_eq)
  moreover have "0 \<le> (- ms) mod 1000" "(- ms) mod 1000 < 1000" by simp_all
  ultimately show "ms \<le> 1000 * ceil_seconds ms" "1000 * ceil_seconds ms < ms + 1000"
    unfolding ceil_seconds_def by linarith+
qed

lemma filter_shift:
  assumes "e0 \<in> set xs" and "z_score e0 \<le> b" and "a < z_score e0" and "a \<le> b"
  shows "length (filter (\<lambda>e. b < z_score e) xs) < length (filter (\<lambda>e. a < z_score e) xs)"
  using assms(1)
proof (induction xs)
  case (Cons x xs)
  have "length (filter (\<lambda>e. b < z_score e) xs) \<le> length (filter (\<lambda>e. a < z_score e) xs)"
    using assms(4) by (induction xs) auto
  with Cons assms(2-4) show ?case by auto
qed simp

text \<open>A rejected call says when to come back: between one and five seconds, and a client that
  waits that long, and makes no other call, is admitted.\<close>

theorem rate_limit_retry:
  assumes "run_checks limit skew cs (\<lambda>_. None) = (rs, st)"
    and "sorted (map cl_now cs)" and "\<forall>c \<in> set cs. 0 \<le> cl_now c \<and> cl_now c \<le> now" and "distinct (map cl_member cs)"
    and "0 \<le> now" and "0 < limit"
    and "check limit skew m now client st = (r, st')" and "\<not> lr_allowed r"
    and "m \<notin> cl_member ` set cs" and "m' \<notin> cl_member ` set cs"
  shows "1 \<le> lr_retryAfterSeconds r \<and> lr_retryAfterSeconds r \<le> 5 \<and>
    lr_allowed (fst (check limit skew m' (now + 1000 * lr_retryAfterSeconds r) client st'))"
proof -
  have pre: "\<forall>c \<in> set cs. 0 \<le> cl_now c \<and> 0 \<le> cl_now c"
    "\<forall>c \<in> set cs. \<forall>i :: string. cl_member c \<notin> z_member ` set ((\<lambda>_. []) i)" using assms(3) by simp_all
  from run_checks_inv [OF empty_limiter_inv [of limit skew 0] assms(1,2) pre(1) assms(4) pre(2)] obtain now' logs where
    inv: "limiter_inv limit skew now' logs st" and now': "now' \<in> insert 0 (cl_now ` set cs)"
    and mem0: "\<forall>c. z_member ` set (logs c) \<subseteq> z_member ` set [] \<union> cl_member ` set cs" by blast
  from mem0 have mem: "\<forall>c. z_member ` set (logs c) \<subseteq> cl_member ` set cs" by simp
  have le: "now' \<le> now" using now' assms(3,5) by auto
  let ?log = "logs client" and ?k = "st (rate_key client)"
  have w: "window_inv skew now' ?log ?k" and bound: "window_bound limit ?log" using inv by (simp_all add: limiter_inv_def)
  obtain r0 k where s0: "sliding_window (now + skew) now WINDOW_MS limit m ?k = (r0, k)" by (rule prod.exhaust)
  with assms(7) have s: "sliding_window (now + skew) now WINDOW_MS limit m ?k = (r, k)" and st': "st' = st(rate_key client := k)"
    by (simp_all add: check_def)
  define es where "es = ZREMRANGEBYSCORE 0 (now - WINDOW_MS) (live_entries (now + skew) ?k)"
  note es = window_entries [OF w le, folded es_def] and count = window_count [OF w le, folded es_def]
  have new: "m \<notin> z_member ` set ?log" "m' \<notin> z_member ` set ?log" using mem assms(9,10) by auto
  from window_step [OF w le assms(5) new(1) s] assms(8) have w1: "window_inv skew now ?log k" by simp
  from s assms(8) have full: "limit \<le> int (length es)"
    by (auto simp: sliding_window_def Let_def es_def split: if_splits)
  with assms(6) obtain e0 es' where e0: "es = e0 # es'" by (cases es) auto
  have retry: "lr_retryAfterSeconds r = max 1 (ceil_seconds (5000 - (now - z_score e0)))"
    using s full e0 unfolding sliding_window_def Let_def es_def [symmetric] by (auto simp: WINDOW_MS_def)
  have "e0 \<in> set es" using e0 by simp
  then have e0_log: "e0 \<in> set ?log" "now - 5000 < z_score e0" unfolding es(1) by (simp_all add: WINDOW_MS_def)
  have "\<forall>e \<in> set ?log. z_score e \<le> now'" using w unfolding window_inv_def by blast
  with e0_log(1) le have "z_score e0 \<le> now" by force
  then have bounds: "1 \<le> lr_retryAfterSeconds r" "lr_retryAfterSeconds r \<le> 5"
    using retry e0_log(2) ceil_seconds_bounds [of "5000 - (now - z_score e0)"] by auto
  let ?t = "now + 1000 * lr_retryAfterSeconds r"
  have out: "z_score e0 \<le> ?t - WINDOW_MS"
    using retry ceil_seconds_bounds(1) [of "5000 - (now - z_score e0)"] by (auto simp: WINDOW_MS_def max_def)
  have t: "now \<le> ?t" "0 \<le> ?t" using bounds assms(5) by simp_all
  have "now - WINDOW_MS < z_score e0" "now - WINDOW_MS \<le> ?t - WINDOW_MS"
    using e0_log(2) t(1) by (simp_all add: WINDOW_MS_def)
  note small = filter_shift [OF e0_log(1) out this]
  have "int (length (filter (\<lambda>e. now - WINDOW_MS < z_score e) ?log)) \<le> limit"
  proof -
    have "filter (\<lambda>e. now - WINDOW_MS < z_score e \<and> z_score e \<le> now) ?log = filter (\<lambda>e. now - WINDOW_MS < z_score e) ?log"
      using \<open>\<forall>e \<in> set ?log. z_score e \<le> now'\<close> le by (intro filter_cong) auto
    moreover have "int (length (filter (\<lambda>e. now - WINDOW_MS < z_score e \<and> z_score e \<le> now) ?log)) \<le> max 0 limit"
      using bound unfolding window_bound_def by blast
    ultimately show ?thesis using assms(6) by simp
  qed
  with small have "int (length (filter (\<lambda>e. ?t - WINDOW_MS < z_score e) ?log)) < limit" by linarith
  moreover obtain r' k' where s': "sliding_window (?t + skew) ?t WINDOW_MS limit m' k = (r', k')" by (rule prod.exhaust)
  ultimately have "lr_allowed r'" using window_step [OF w1 t(1,2) new(2) s'] by simp
  moreover have "fst (check limit skew m' ?t client st') = r'" using s' by (simp add: check_def st')
  ultimately show ?thesis using bounds by simp
qed

lemma rate_limit_retry_witness:
  "lr_allowed (fst (check 2 7 ''m9'' (400 + 1000 * lr_retryAfterSeconds (fst (check 2 7 ''m8'' 400 ''a''
      (snd (run_checks 2 7 sample_calls (\<lambda>_. None)))))) ''a''
     (snd (check 2 7 ''m8'' 400 ''a'' (snd (run_checks 2 7 sample_calls (\<lambda>_. None)))))))"
proof -
  obtain rs st where r: "run_checks 2 7 sample_calls (\<lambda>_. None) = (rs, st)" by (rule prod.exhaust)
  obtain r1 st1 where c: "check 2 7 ''m8'' 400 ''a'' st = (r1, st1)" by (rule prod.exhaust)
  have "sorted (map cl_now sample_calls)" "\<forall>c \<in> set sample_calls. 0 \<le> cl_now c \<and> cl_now c \<le> 400"
    "distinct (map cl_member sample_calls)" "''m8'' \<notin> cl_member ` set sample_calls" "''m9'' \<notin> cl_member ` set sample_calls"
    by (simp_all add: sample_calls_def)
  moreover have "\<not> lr_allowed r1"
  proof -
    have "\<not> lr_allowed (fst (check 2 7 ''m8'' 400 ''a'' (snd (run_checks 2 7 sample_calls (\<lambda>_. None)))))"
      by (simp add: sample_calls_def check_def sliding_window_def Let_def rate_key_def ZREMRANGEBYSCORE_def
          live_entries_def WINDOW_MS_def ZADD_def zentry_before_def)
    with r c show ?thesis by simp
  qed
  ultimately have "lr_allowed (fst (check 2 7 ''m9'' (400 + 1000 * lr_retryAfterSeconds r1) ''a'' st1))"
    using rate_limit_retry [OF r _ _ _ _ _ c, of "''m9''"] by simp
  with r c show ?thesis by simp
qed

end
