(* ===== verification/RedisDemos.thy ===== *)
theory RedisDemos
  imports Session RateLimit
begin

text \<open>
  \<open>src/demo-session.ts\<close> and \<open>src/demo-ratelimit.ts\<close> on the modelled sessions and
  limiter. Command number \<open>i\<close> of a demonstration runs at \<open>t i\<close>.
\<close>

section \<open>The session demonstration\<close>

definition timed_get :: "int \<Rightarrow> int \<Rightarrow> string \<Rightarrow> (session_store, session_data option) cmd" where
  "timed_get now later sid = (\<lambda>st. case getSession now later sid st of (r, st') \<Rightarrow> (Inr r, st'))"

text \<open>\<open>try { body } finally { cleanup }\<close>\<close>

definition cmd_finally :: "('s, 'a) cmd \<Rightarrow> ('s \<Rightarrow> 's) \<Rightarrow> ('s, 'a) cmd" where
  "cmd_finally m g = (\<lambda>s. case m s of (r, s') \<Rightarrow> (r, g s'))"

record session_report =
  sr_requests :: nat
  sr_sessions :: nat
  sr_inRedis :: nat
  sr_ttlRenewed :: nat
  sr_passed :: bool

definition session_demo :: "(nat \<Rightarrow> int) \<Rightarrow> string \<Rightarrow> (session_store, session_report) cmd" where
  "session_demo t sessionId = cmd_finally (
     cmd_bind (cmd_write (deleteSession sessionId)) (\<lambda>_.
     cmd_bind (cmd_write (createSession (t 0) sessionId 1)) (\<lambda>_.
     cmd_bind (timed_get (t 1) (t 2) sessionId) (\<lambda>first_opt. case first_opt of
       None \<Rightarrow> cmd_throw (JsError ''Session missing after creation'')
     | Some fst_session \<Rightarrow>
     cmd_bind (cmd_read (getSessionTtl (t 3) sessionId)) (\<lambda>ttlBeforeWait.
     cmd_bind (cmd_read (getSessionTtl (t 4) sessionId)) (\<lambda>ttlAfterWait.
     cmd_bind (timed_get (t 5) (t 6) sessionId) (\<lambda>second_opt. case second_opt of
       None \<Rightarrow> cmd_throw (JsError ''Session expired before activity'')
     | Some snd_session \<Rightarrow>
     cmd_bind (cmd_read (getSessionTtl (t 7) sessionId)) (\<lambda>ttlAfterRenew.
     cmd_bind (timed_get (t 8) (t 9) sessionId) (\<lambda>third_opt. case third_opt of
       None \<Rightarrow> cmd_throw (JsError ''Session missing after renewal'')
     | Some third \<Rightarrow>
     cmd_read (\<lambda>st.
       let requests = 3;
           sessions = length (remdups (map sd_sessionId [fst_session, snd_session, third]));
           inRedis = (if session_live (t 10) (session_key sessionId) st \<noteq> None then 1 else 0);
           ttlRenewed = (if ttlAfterWait < ttlAfterRenew then 1 else 0)
       in \<lparr>sr_requests = requests, sr_sessions = sessions, sr_inRedis = inRedis, sr_ttlRenewed = ttlRenewed,
           sr_passed = (3 \<le> requests \<and> sessions = 1 \<and> inRedis = (1 :: nat) \<and> ttlRenewed = (1 :: nat) \<and>
             0 < ttlBeforeWait)\<rparr>))))))))))
     (deleteSession sessionId)"

text \<open>Commands follow each other within a quarter of a second, but for two pauses of 1.5 to 2 seconds.\<close>

definition session_paced :: "(nat \<Rightarrow> int) \<Rightarrow> bool" where
  "session_paced t \<longleftrightarrow> (\<forall>i < 10. if i = 3 \<or> i = 7 then t i + 1500 \<le> t (i + 1) \<and> t (i + 1) \<le> t i + 2000
     else t i \<le> t (i + 1) \<and> t (i + 1) \<le> t i + 250)"

lemma session_paced_steps:
  assumes "session_paced t"
  shows "t 0 \<le> t 1" "t 1 \<le> t 0 + 250" "t 1 \<le> t 2" "t 2 \<le> t 1 + 250" "t 2 \<le> t 3" "t 3 \<le> t 2 + 250"
    "t 3 + 1500 \<le> t 4" "t 4 \<le> t 3 + 2000" "t 4 \<le> t 5" "t 5 \<le> t 4 + 250" "t 5 \<le> t 6" "t 6 \<le> t 5 + 250"
    "t 6 \<le> t 7" "t 7 \<le> t 6 + 250" "t 7 + 1500 \<le> t 8" "t 8 \<le> t 7 + 2000" "t 8 \<le> t 9" "t 9 \<le> t 8 + 250"
    "t 9 \<le> t 10" "t 10 \<le> t 9 + 250"
  using assms [unfolded session_paced_def, rule_format, of 0] assms [unfolded session_paced_def, rule_format, of 1]
    assms [unfolded session_paced_def, rule_format, of 2] assms [unfolded session_paced_def, rule_format, of 3]
    assms [unfolded session_paced_def, rule_format, of 4] assms [unfolded session_paced_def, rule_format, of 5]
    assms [unfolded session_paced_def, rule_format, of 6] assms [unfolded session_paced_def, rule_format, of 7]
    assms [unfolded session_paced_def, rule_format, of 8] assms [unfolded session_paced_def, rule_format, of 9]
  by (simp_all add: numeral_eq_Suc)

text \<open>At that pace the session survives both pauses, because each read renews it: the time to live
  the second read leaves is greater than the one it found, the demonstration passes and
  removes its session.\<close>
theorem session_demo_passes:
  assumes "session_paced t"
  shows "\<exists>rep. session_demo t sid st = (Inr rep, st(session_key sid := None)) \<and> sr_passed rep"
proof -
  note p = session_paced_steps [OF assms]
  let ?v = "\<lparr>sd_sessionId = sid, sd_userId = 1\<rparr>" and ?k = "session_key sid"
  have get: "timed_get now later sid (s(?k \<mapsto> (?v, e))) = (Inr (Some ?v), s(?k \<mapsto> (?v, later + 5000)))"
    if "now < e" "later < e" for now later e s
    using that by (simp add: timed_get_def session_defs Let_def)
  have create: "createSession (t 0) sid 1 (deleteSession sid st) = st(?k \<mapsto> (?v, t 0 + 5000))"
    by (simp add: session_defs)
  have g1: "timed_get (t 1) (t 2) sid (st(?k \<mapsto> (?v, t 0 + 5000))) = (Inr (Some ?v), st(?k \<mapsto> (?v, t 2 + 5000)))"
    by (rule get) (use p in linarith)+
  have g2: "timed_get (t 5) (t 6) sid (st(?k \<mapsto> (?v, t 2 + 5000))) = (Inr (Some ?v), st(?k \<mapsto> (?v, t 6 + 5000)))"
    by (rule get) (use p in linarith)+
  have g3: "timed_get (t 8) (t 9) sid (st(?k \<mapsto> (?v, t 6 + 5000))) = (Inr (Some ?v), st(?k \<mapsto> (?v, t 9 + 5000)))"
    by (rule get) (use p in linarith)+
  have ttl: "getSessionTtl now sid (s(?k \<mapsto> (?v, e))) = (e - now + 500) div 1000" if "now < e" for now e s
    using that by (simp add: getSessionTtl_def session_live_def)
  have t3: "getSessionTtl (t 3) sid (st(?k \<mapsto> (?v, t 2 + 5000))) > 0"
    by (subst ttl) (use p in \<open>linarith | simp\<close>)+
  have t4: "getSessionTtl (t 4) sid (st(?k \<mapsto> (?v, t 2 + 5000))) \<le> 4"
    by (subst ttl) (use p in \<open>linarith | simp\<close>)+
  have t7: "getSessionTtl (t 7) sid (st(?k \<mapsto> (?v, t 6 + 5000))) \<ge> 5"
    by (subst ttl) (use p in \<open>linarith | simp\<close>)+
  have "session_live (t 10) ?k (st(?k \<mapsto> (?v, t 9 + 5000))) \<noteq> None"
    using p by (simp add: session_live_def)
  with t3 t4 t7 show ?thesis
    by (simp add: session_demo_def cmd_finally_def cmd_bind_run cmd_simps create g1 g2 g3 Let_def del: One_nat_def)
      (simp add: deleteSession_def)
qed

lemma session_demo_passes_witness:
  "\<exists>rep. session_demo (\<lambda>i. 10 * int i + (if 7 < i then 3000 else if 3 < i then 1500 else 0)) ''s'' (\<lambda>_. None) =
     (Inr rep, (\<lambda>_. None)(session_key ''s'' := None)) \<and> sr_passed rep"
  by (rule session_demo_passes) (auto simp: session_paced_def)

section \<open>The rate limit demonstration\<close>

definition DEMO_LIMIT :: int where
  "DEMO_LIMIT = 5"

definition CLIENT_ID :: string where
  "CLIENT_ID = ''hw23-shared-client''"

text \<open>The member of call \<open>index\<close>: instances take turns, \<open>random\<close> is the text of \<open>Math.random()\<close>.\<close>

definition demo_member :: "(nat \<Rightarrow> int) \<Rightarrow> (nat \<Rightarrow> string) \<Rightarrow> nat \<Rightarrow> string" where
  "demo_member t random index =
     (if index mod 2 = 0 then ''instance-a'' else ''instance-b'') @ '':'' @ show_int (t index) @ '':'' @ random index"

record ratelimit_report =
  rl_allowed :: int
  rl_blocked :: int
  rl_status :: nat
  rl_retryAfter :: nat

definition limited_call :: "(nat \<Rightarrow> int) \<Rightarrow> int \<Rightarrow> (nat \<Rightarrow> string) \<Rightarrow> nat \<Rightarrow> ratelimit_report \<times> limiter
     \<Rightarrow> ratelimit_report \<times> limiter" where
  "limited_call t skew random index = (\<lambda>(c, st).
     let (result, st') = check DEMO_LIMIT skew (demo_member t random index) (t index) CLIENT_ID st
     in (if lr_allowed result then c\<lparr>rl_allowed := rl_allowed c + 1, rl_status := 200\<rparr>
         else c\<lparr>rl_blocked := rl_blocked c + 1, rl_status := 429,
                rl_retryAfter := (if 0 < lr_retryAfterSeconds result then 1 else 0)\<rparr>, st'))"

definition ratelimit_demo :: "(nat \<Rightarrow> int) \<Rightarrow> int \<Rightarrow> (nat \<Rightarrow> string) \<Rightarrow> limiter \<Rightarrow> ratelimit_report \<times> limiter" where
  "ratelimit_demo t skew random st =
     fold (limited_call t skew random) [0..<nat DEMO_LIMIT + 3]
       (\<lparr>rl_allowed = 0, rl_blocked = 0, rl_status = 200, rl_retryAfter = 0\<rparr>, reset CLIENT_ID st)"

definition ratelimit_passed :: "ratelimit_report \<Rightarrow> bool" where
  "ratelimit_passed c \<longleftrightarrow> (let instances = 2 in (2 :: nat) \<le> instances \<and> rl_allowed c = DEMO_LIMIT \<and> 1 \<le> rl_blocked c \<and>
     rl_status c = 429 \<and> rl_retryAfter c = 1)"

text \<open>After \<open>n\<close> calls inside one window: the first five were admitted, the others not.\<close>

definition calls_made :: "(nat \<Rightarrow> int) \<Rightarrow> int \<Rightarrow> (nat \<Rightarrow> string) \<Rightarrow> nat \<Rightarrow> ratelimit_report \<times> limiter \<Rightarrow> bool" where
  "calls_made t skew random n = (\<lambda>(c, st). \<exists>log now. window_inv skew now log (st (rate_key CLIENT_ID)) \<and>
     now \<le> t n \<and> length log = min n 5 \<and> (\<forall>e \<in> set log. t 0 \<le> z_score e) \<and>
     z_member ` set log \<subseteq> demo_member t random ` {..<n} \<and>
     rl_allowed c = int (min n 5) \<and> rl_blocked c = int (n - 5) \<and>
     (5 < n \<longrightarrow> rl_status c = 429 \<and> rl_retryAfter c = 1))"

lemma refused_retry:
  assumes "sliding_window server now WINDOW_MS limit member k = (r, k')" and "\<not> lr_allowed r"
  shows "0 < lr_retryAfterSeconds r"
  using assms by (auto simp: sliding_window_def Let_def split: if_splits list.splits)

lemma limited_call_step:
  assumes "calls_made t skew random n s" and "mono t" and "0 \<le> t 0" and "t n < t 0 + WINDOW_MS"
    and "demo_member t random n \<notin> demo_member t random ` {..<n}"
  shows "calls_made t skew random (Suc n) (limited_call t skew random n s)"
proof -
  obtain c st where s: "s = (c, st)" by (cases s)
  from assms(1) obtain log now where log: "window_inv skew now log (st (rate_key CLIENT_ID))" "now \<le> t n" "length log = min n 5"
    "\<forall>e \<in> set log. t 0 \<le> z_score e" "z_member ` set log \<subseteq> demo_member t random ` {..<n}"
    "rl_allowed c = int (min n 5)" "rl_blocked c = int (n - 5)" "5 < n \<longrightarrow> rl_status c = 429 \<and> rl_retryAfter c = 1"
    by (auto simp: calls_made_def s)
  let ?m = "demo_member t random n"
  obtain r k where w: "sliding_window (t n + skew) (t n) WINDOW_MS DEMO_LIMIT ?m (st (rate_key CLIENT_ID)) = (r, k)"
    by (rule prod.exhaust)
  have le: "t 0 \<le> t n" "t n \<le> t (Suc n)" using assms(2) by (simp_all add: monoD)
  have all: "filter (\<lambda>e. t n - WINDOW_MS < z_score e) log = log"
    using log(4) assms(4) by (fastforce simp: filter_id_conv)
  have "0 \<le> t n" "?m \<notin> z_member ` set log" using assms(3,5) le log(5) by auto
  from window_step [OF log(1,2) this w, unfolded all] have
    step: "window_inv skew (t n) (if lr_allowed r then ZEntry (t n) ?m # log else log) k"
      "lr_allowed r \<longleftrightarrow> n < 5" using log(3) by (auto simp: DEMO_LIMIT_def)
  have run: "limited_call t skew random n s =
      (if n < 5 then c\<lparr>rl_allowed := rl_allowed c + 1, rl_status := 200\<rparr>
       else c\<lparr>rl_blocked := rl_blocked c + 1, rl_status := 429, rl_retryAfter := 1\<rparr>, st(rate_key CLIENT_ID := k))"
    using step(2) refused_retry [OF w] by (simp add: s limited_call_def check_def w)
  have now: "t n \<le> t (Suc n)" by (rule le(2))
  show ?thesis
  proof (cases "n < 5")
    case True
    let ?log = "ZEntry (t n) ?m # log"
    have "window_inv skew (t n) ?log k" "length ?log = min (Suc n) 5" "\<forall>e \<in> set ?log. t 0 \<le> z_score e"
      "z_member ` set ?log \<subseteq> demo_member t random ` {..<Suc n}"
      using step log True le(1) by (auto simp: lessThan_Suc)
    then show ?thesis
      using True log(6,7) now unfolding run calls_made_def by (auto simp del: image_subset_iff intro!: exI [of _ ?log] exI [of _ "t n"] del: subsetI)
  next
    case False
    have "window_inv skew (t n) log k" "length log = min (Suc n) 5"
      "z_member ` set log \<subseteq> demo_member t random ` {..<Suc n}"
      using step log False by (auto simp: lessThan_Suc)
    then show ?thesis
      using False log(4,6,7) now unfolding run calls_made_def
      by (auto simp: Suc_diff_le simp del: image_subset_iff intro!: exI [of _ log] exI [of _ "t n"] del: subsetI)
  qed
qed

lemma calls_made_start:
  assumes "0 \<le> t 0"
  shows "calls_made t skew random 0 (\<lparr>rl_allowed = 0, rl_blocked = 0, rl_status = 200, rl_retryAfter = 0\<rparr>, reset CLIENT_ID st)"
proof -
  have "window_inv skew 0 [] (reset CLIENT_ID st (rate_key CLIENT_ID))"
    by (simp add: window_inv_def reset_def)
  with assms show ?thesis
    unfolding calls_made_def prod.case by (intro exI [of _ "[]"] exI [of _ 0]) simp
qed

lemma calls_made_fold:
  assumes "calls_made t skew random 0 s" and "mono t" and "0 \<le> t 0"
    and "inj_on (demo_member t random) {..<n}" and "\<forall>i < n. t i < t 0 + WINDOW_MS"
  shows "calls_made t skew random n (fold (limited_call t skew random) [0..<n] s)"
  using assms(4,5)
proof (induction n)
  case (Suc n)
  then have "calls_made t skew random n (fold (limited_call t skew random) [0..<n] s)"
    by (simp add: inj_on_def)
  moreover have "demo_member t random n \<notin> demo_member t random ` {..<n}"
  proof
    assume "demo_member t random n \<in> demo_member t random ` {..<n}"
    then obtain m where "m < n" "demo_member t random n = demo_member t random m" by auto
    with inj_onD [OF Suc.prems(1), of n m] show False by simp
  qed
  ultimately show ?case
    using limited_call_step [OF _ assms(2,3)] Suc.prems(2) by simp
qed (use assms(1) in simp)

text \<open>C0: eight calls of one client through two instances within five seconds, each with a member of its
  own: exactly the first five are admitted, three are refused with status 429 and a time to
  wait, and the demonstration passes.\<close>
theorem ratelimit_demo_passes:
  assumes "mono t" and "0 \<le> t 0" and "t 7 < t 0 + WINDOW_MS" and "inj_on (demo_member t random) {..<8}"
  shows "ratelimit_passed (fst (ratelimit_demo t skew random st)) \<and> rl_blocked (fst (ratelimit_demo t skew random st)) = 3"
proof -
  have "t i < t 0 + WINDOW_MS" if "i < 8" for i
    using assms(1,3) monoD [OF assms(1), of i 7] that by simp
  then have all: "\<forall>i < 8. t i < t 0 + WINDOW_MS" by blast
  have "calls_made t skew random 8 (ratelimit_demo t skew random st)"
  proof -
    have len: "nat DEMO_LIMIT + 3 = 8" by (simp add: DEMO_LIMIT_def)
    show ?thesis
      unfolding ratelimit_demo_def len
      by (rule calls_made_fold [OF calls_made_start [where t = t, OF assms(2)] assms(1,2,4) all])
  qed
  then show ?thesis
    by (auto simp: calls_made_def ratelimit_passed_def DEMO_LIMIT_def split: prod.splits)
qed

lemma ratelimit_demo_passes_witness:
  "ratelimit_passed (fst (ratelimit_demo int 0 (\<lambda>i. show_int (int i)) (\<lambda>_. None))) \<and>
     rl_blocked (fst (ratelimit_demo int 0 (\<lambda>i. show_int (int i)) (\<lambda>_. None))) = 3"
proof (rule ratelimit_demo_passes)
  have "distinct (map (demo_member int (\<lambda>i. show_int (int i))) [0..<8])" by code_simp
  then show "inj_on (demo_member int (\<lambda>i. show_int (int i))) {..<8}"
    by (simp add: distinct_map atLeast_upt)
qed (simp_all add: monoI WINDOW_MS_def)

end
