(* ===== verification/Cache.thy ===== *)
theory Cache
  imports Database
begin

text \<open>
  \<open>src/redis/cache.ts\<close> and \<open>src/redis/product-cache.ts\<close>: a value cached in Redis with
  a randomised time to live, and a lock that lets one of many concurrent requests load it
  while the others poll. Every \<open>await\<close> ends an atomic step, so the requests are processes
  of a step relation; the state is that of one key, its lock and the processes. Times are
  milliseconds.
\<close>

section \<open>Constants\<close>

definition CACHE_TTL_SECONDS :: int where "CACHE_TTL_SECONDS = 300"
definition CACHE_TTL_JITTER_SECONDS :: int where "CACHE_TTL_JITTER_SECONDS = 60"
definition LOCK_TTL_MS :: int where "LOCK_TTL_MS = 5000"
definition LOCK_WAIT_MS :: int where "LOCK_WAIT_MS = 25"
definition LOCK_WAIT_ATTEMPTS :: nat where "LOCK_WAIT_ATTEMPTS = 200"

lemmas cache_constants = CACHE_TTL_SECONDS_def CACHE_TTL_JITTER_SECONDS_def LOCK_TTL_MS_def
  LOCK_WAIT_MS_def LOCK_WAIT_ATTEMPTS_def

text \<open>\<open>getCacheTtlSeconds\<close>, for \<open>Math.random() = k / 2^53\<close>.\<close>

definition getCacheTtlSeconds :: "nat \<Rightarrow> int" where
  "getCacheTtlSeconds k = CACHE_TTL_SECONDS + (int k * (CACHE_TTL_JITTER_SECONDS + 1)) div 2 ^ 53"

lemma ttl_bounds:
  assumes "k < 2 ^ 53" shows "300 \<le> getCacheTtlSeconds k" "getCacheTtlSeconds k \<le> 360"
proof -
  have "(int k * 61) div 2 ^ 53 < 61"
    using assms by (simp add: div_less_iff_less_mult)
  moreover have "0 \<le> (int k * 61) div 2 ^ 53" by (simp add: pos_imp_zdiv_nonneg_iff)
  ultimately show "300 \<le> getCacheTtlSeconds k" "getCacheTtlSeconds k \<le> 360"
    by (simp_all add: getCacheTtlSeconds_def cache_constants)
qed

section \<open>The state\<close>

text \<open>
  Where a call of \<open>getOrLoadCached\<close> stands. \<open>since\<close> is when it took the lock, \<open>wake\<close>
  when its timer fires; \<open>Absent\<close> is a call that has not been made, \<open>Crashed\<close> one whose
  process died.
\<close>

datatype pc =
    Absent
  | CheckCache
  | AcquireLock
  | SecondCheck int
  | Loading int
  | Storing int jsval
  | Releasing int "err + jsval"
  | WaitLock nat int
  | FallbackLoading
  | FallbackStoring jsval
  | Finished "err + jsval"
  | Crashed

record cache_state =
  ch_now :: int
  ch_value :: "(jsval \<times> int) option"
  ch_lock :: "(nat \<times> int) option"
  ch_procs :: "nat \<Rightarrow> pc"
  ch_loads :: nat

text \<open>\<open>getCachedJson\<close>: a key that expired is absent, and a cached \<open>null\<close> counts as a miss.\<close>

definition getCachedJson :: "cache_state \<Rightarrow> jsval option" where
  "getCachedJson s = (case ch_value s of
       None \<Rightarrow> None
     | Some (v, expires) \<Rightarrow> if expires \<le> ch_now s \<or> v = Null then None else Some v)"

definition setCachedJson :: "jsval \<Rightarrow> nat \<Rightarrow> cache_state \<Rightarrow> cache_state" where
  "setCachedJson v k s = s\<lparr>ch_value := Some (v, ch_now s + 1000 * getCacheTtlSeconds k)\<rparr>"

definition lock_free :: "cache_state \<Rightarrow> bool" where
  "lock_free s = (case ch_lock s of None \<Rightarrow> True | Some (_, expires) \<Rightarrow> expires \<le> ch_now s)"

text \<open>\<open>RELEASE_LOCK_SCRIPT\<close>: delete the lock if it holds this call's token.\<close>

definition release_lock :: "nat \<Rightarrow> cache_state \<Rightarrow> cache_state" where
  "release_lock p s = (case ch_lock s of
       None \<Rightarrow> s
     | Some (owner, _) \<Rightarrow> if owner = p \<and> \<not> lock_free s then s\<lparr>ch_lock := None\<rparr> else s)"

definition goto :: "nat \<Rightarrow> pc \<Rightarrow> cache_state \<Rightarrow> cache_state" where
  "goto p c s = s\<lparr>ch_procs := (ch_procs s)(p := c)\<rparr>"

definition count_load :: "cache_state \<Rightarrow> cache_state" where
  "count_load s = s\<lparr>ch_loads := Suc (ch_loads s)\<rparr>"

section \<open>The steps\<close>

text \<open>
  \<open>loads\<close> says which outcomes the loader can have. A label names the call that moves, or
  is \<open>None\<close> when time passes. Crashes and failing Redis commands happen when \<open>faults\<close> is
  set; an error leaves the \<open>try\<close> block through \<open>finally\<close>.
\<close>

inductive cache_step :: "bool \<Rightarrow> (err + jsval \<Rightarrow> bool) \<Rightarrow> nat option \<Rightarrow> cache_state \<Rightarrow> cache_state \<Rightarrow> bool"
  for faults :: bool and loads :: "err + jsval \<Rightarrow> bool"
where
  Tick: "0 < dt \<Longrightarrow> cache_step faults loads None s (s\<lparr>ch_now := ch_now s + dt\<rparr>)"
| Arrive: "ch_procs s p = Absent \<Longrightarrow> cache_step faults loads (Some p) s (goto p CheckCache s)"
| Hit: "ch_procs s p = CheckCache \<Longrightarrow> getCachedJson s = Some v \<Longrightarrow>
    cache_step faults loads (Some p) s (goto p (Finished (Inr v)) s)"
| Miss: "ch_procs s p = CheckCache \<Longrightarrow> getCachedJson s = None \<Longrightarrow>
    cache_step faults loads (Some p) s (goto p AcquireLock s)"
| Lock: "ch_procs s p = AcquireLock \<Longrightarrow> lock_free s \<Longrightarrow>
    cache_step faults loads (Some p) s
      (goto p (SecondCheck (ch_now s)) (s\<lparr>ch_lock := Some (p, ch_now s + LOCK_TTL_MS)\<rparr>))"
| Busy: "ch_procs s p = AcquireLock \<Longrightarrow> \<not> lock_free s \<Longrightarrow>
    cache_step faults loads (Some p) s (goto p (WaitLock 0 (ch_now s + LOCK_WAIT_MS)) s)"
| SecondHit: "ch_procs s p = SecondCheck since \<Longrightarrow> getCachedJson s = Some v \<Longrightarrow>
    cache_step faults loads (Some p) s (goto p (Releasing since (Inr v)) s)"
| SecondMiss: "ch_procs s p = SecondCheck since \<Longrightarrow> getCachedJson s = None \<Longrightarrow>
    cache_step faults loads (Some p) s (goto p (Loading since) (count_load s))"
| Loaded: "ch_procs s p = Loading since \<Longrightarrow> loads (Inr v) \<Longrightarrow>
    cache_step faults loads (Some p) s (goto p (Storing since v) s)"
| LoadError: "ch_procs s p = Loading since \<Longrightarrow> loads (Inl e) \<Longrightarrow>
    cache_step faults loads (Some p) s (goto p (Releasing since (Inl e)) s)"
| Store: "ch_procs s p = Storing since v \<Longrightarrow> k < 2 ^ 53 \<Longrightarrow>
    cache_step faults loads (Some p) s (goto p (Releasing since (Inr v)) (setCachedJson v k s))"
| StoreError: "ch_procs s p = Storing since v \<Longrightarrow> faults \<Longrightarrow>
    cache_step faults loads (Some p) s (goto p (Releasing since (Inr v)) s)"
| Release: "ch_procs s p = Releasing since r \<Longrightarrow>
    cache_step faults loads (Some p) s (goto p (Finished r) (release_lock p s))"
| ReleaseError: "ch_procs s p = Releasing since r \<Longrightarrow> faults \<Longrightarrow>
    cache_step faults loads (Some p) s (goto p (Finished (Inl e)) s)"
| PollHit: "ch_procs s p = WaitLock n wake \<Longrightarrow> wake \<le> ch_now s \<Longrightarrow> getCachedJson s = Some v \<Longrightarrow>
    cache_step faults loads (Some p) s (goto p (Finished (Inr v)) s)"
| PollMiss: "ch_procs s p = WaitLock n wake \<Longrightarrow> wake \<le> ch_now s \<Longrightarrow> getCachedJson s = None \<Longrightarrow>
    Suc n < LOCK_WAIT_ATTEMPTS \<Longrightarrow>
    cache_step faults loads (Some p) s (goto p (WaitLock (Suc n) (ch_now s + LOCK_WAIT_MS)) s)"
| GiveUp: "ch_procs s p = WaitLock n wake \<Longrightarrow> wake \<le> ch_now s \<Longrightarrow> getCachedJson s = None \<Longrightarrow>
    \<not> Suc n < LOCK_WAIT_ATTEMPTS \<Longrightarrow>
    cache_step faults loads (Some p) s (goto p FallbackLoading (count_load s))"
| FallbackLoaded: "ch_procs s p = FallbackLoading \<Longrightarrow> loads (Inr v) \<Longrightarrow>
    cache_step faults loads (Some p) s (goto p (FallbackStoring v) s)"
| FallbackError: "ch_procs s p = FallbackLoading \<Longrightarrow> loads (Inl e) \<Longrightarrow>
    cache_step faults loads (Some p) s (goto p (Finished (Inl e)) s)"
| FallbackStore: "ch_procs s p = FallbackStoring v \<Longrightarrow> k < 2 ^ 53 \<Longrightarrow>
    cache_step faults loads (Some p) s (goto p (Finished (Inr v)) (setCachedJson v k s))"
| FallbackStoreError: "ch_procs s p = FallbackStoring v \<Longrightarrow> faults \<Longrightarrow>
    cache_step faults loads (Some p) s (goto p (Finished (Inr v)) s)"
| RedisError: "ch_procs s p = CheckCache \<or> ch_procs s p = AcquireLock \<or> (\<exists>n wake. ch_procs s p = WaitLock n wake \<and> wake \<le> ch_now s) \<Longrightarrow>
    faults \<Longrightarrow> cache_step faults loads (Some p) s (goto p (Finished (Inl e)) s)"
| SecondError: "ch_procs s p = SecondCheck since \<Longrightarrow> faults \<Longrightarrow>
    cache_step faults loads (Some p) s (goto p (Releasing since (Inl e)) s)"
| Crash: "(\<forall>r. ch_procs s p \<noteq> Finished r) \<Longrightarrow> ch_procs s p \<noteq> Absent \<Longrightarrow> ch_procs s p \<noteq> Crashed \<Longrightarrow> faults \<Longrightarrow>
    cache_step faults loads (Some p) s (goto p Crashed s)"

inductive cache_run :: "bool \<Rightarrow> (err + jsval \<Rightarrow> bool) \<Rightarrow> cache_state \<Rightarrow> nat option list \<Rightarrow> cache_state \<Rightarrow> bool"
  for faults :: bool and loads :: "err + jsval \<Rightarrow> bool"
where
  Stop: "cache_run faults loads s [] s"
| Go: "cache_step faults loads l s s1 \<Longrightarrow> cache_run faults loads s1 ls s2 \<Longrightarrow> cache_run faults loads s (l # ls) s2"

text \<open>A cold start at time \<open>t0\<close>: nothing cached, nothing locked, no call made.\<close>

definition cold :: "int \<Rightarrow> cache_state" where
  "cold t0 = \<lparr>ch_now = t0, ch_value = None, ch_lock = None, ch_procs = (\<lambda>_. Absent), ch_loads = 0\<rparr>"

lemma goto_simps [simp]:
  "ch_now (goto p c s) = ch_now s" "ch_value (goto p c s) = ch_value s" "ch_lock (goto p c s) = ch_lock s"
  "ch_loads (goto p c s) = ch_loads s" "ch_procs (goto p c s) = (ch_procs s)(p := c)"
  by (simp_all add: goto_def)

lemma count_load_simps [simp]:
  "ch_now (count_load s) = ch_now s" "ch_value (count_load s) = ch_value s" "ch_lock (count_load s) = ch_lock s"
  "ch_loads (count_load s) = Suc (ch_loads s)" "ch_procs (count_load s) = ch_procs s"
  by (simp_all add: count_load_def)

lemma setCachedJson_simps [simp]:
  "ch_now (setCachedJson v k s) = ch_now s" "ch_lock (setCachedJson v k s) = ch_lock s"
  "ch_loads (setCachedJson v k s) = ch_loads s" "ch_procs (setCachedJson v k s) = ch_procs s"
  "ch_value (setCachedJson v k s) = Some (v, ch_now s + 1000 * getCacheTtlSeconds k)"
  by (simp_all add: setCachedJson_def)

lemma release_lock_simps [simp]:
  "ch_now (release_lock p s) = ch_now s" "ch_value (release_lock p s) = ch_value s"
  "ch_loads (release_lock p s) = ch_loads s" "ch_procs (release_lock p s) = ch_procs s"
  by (simp_all add: release_lock_def split: option.split)

lemma release_lock_other:
  "ch_lock s = Some (q, e) \<Longrightarrow> q \<noteq> p \<Longrightarrow> ch_lock (release_lock p s) = Some (q, e)"
  by (simp add: release_lock_def)

text \<open>An invariant of the steps is one of the runs.\<close>

lemma cache_run_inv:
  assumes "cache_run faults loads s ls s'" and "I s"
    and "\<And>l s s'. cache_step faults loads l s s' \<Longrightarrow> I s \<Longrightarrow> I s'"
  shows "I s'"
  using assms(1,2) by (induction rule: cache_run.induct) (auto intro: assms(3))

lemma cache_step_now: "cache_step faults loads l s s' \<Longrightarrow> ch_now s \<le> ch_now s'"
  by (induction rule: cache_step.cases) simp_all

section \<open>What is returned was loaded\<close>

fun carried :: "pc \<Rightarrow> jsval set" where
  "carried (Storing _ v) = {v}"
| "carried (Releasing _ (Inr v)) = {v}"
| "carried (FallbackStoring v) = {v}"
| "carried (Finished (Inr v)) = {v}"
| "carried _ = {}"

definition authentic :: "(err + jsval \<Rightarrow> bool) \<Rightarrow> cache_state \<Rightarrow> bool" where
  "authentic loads s \<longleftrightarrow> (\<forall>v e. ch_value s = Some (v, e) \<longrightarrow> loads (Inr v)) \<and>
     (\<forall>p. \<forall>v \<in> carried (ch_procs s p). loads (Inr v))"

lemma getCachedJson_Some: "getCachedJson s = Some v \<longleftrightarrow> (\<exists>e. ch_value s = Some (v, e) \<and> ch_now s < e \<and> v \<noteq> Null)"
  by (auto simp: getCachedJson_def split: option.splits if_splits)

lemma carried_Inl [simp]: "carried (Releasing t (Inl e)) = {}" "carried (Finished (Inl e)) = {}"
  by simp_all

lemma carried_step:
  "cache_step faults loads l s s' \<Longrightarrow> v \<in> carried (ch_procs s' q) \<Longrightarrow>
     v \<in> carried (ch_procs s q) \<or> loads (Inr v) \<or> getCachedJson s = Some v"
proof (induction rule: cache_step.cases)
  case (Release s p since r)
  then show ?case by (cases r) (auto split: if_splits)
qed (auto split: if_splits)

lemma value_step:
  "cache_step faults loads l s s' \<Longrightarrow> ch_value s' = Some (v, e) \<Longrightarrow>
     ch_value s = Some (v, e) \<or> (\<exists>q. v \<in> carried (ch_procs s q))"
proof (induction rule: cache_step.cases)
  case (Store s p since u k)
  then have "v \<in> carried (ch_procs s p)" by simp
  with Store show ?case by blast
next
  case (FallbackStore s p u k)
  then have "v \<in> carried (ch_procs s p)" by simp
  with FallbackStore show ?case by blast
qed auto

lemma authentic_step: "cache_step faults loads l s s' \<Longrightarrow> authentic loads s \<Longrightarrow> authentic loads s'"
  unfolding authentic_def using carried_step value_step getCachedJson_Some by metis

section \<open>The lock\<close>

text \<open>The time at which a call took the lock, while it is in the critical section.\<close>

fun critical :: "pc \<Rightarrow> int option" where
  "critical (SecondCheck t) = Some t"
| "critical (Loading t) = Some t"
| "critical (Storing t _) = Some t"
| "critical (Releasing t _) = Some t"
| "critical _ = None"

definition lock_inv :: "cache_state \<Rightarrow> bool" where
  "lock_inv s \<longleftrightarrow> (\<forall>p t. critical (ch_procs s p) = Some t \<longrightarrow> ch_now s < t + LOCK_TTL_MS \<longrightarrow>
     ch_lock s = Some (p, t + LOCK_TTL_MS))"

lemma lock_inv_step: "cache_step faults loads l s s' \<Longrightarrow> lock_inv s \<Longrightarrow> lock_inv s'"
proof (induction rule: cache_step.cases)
  case (Lock s p)
  have "ch_lock s \<noteq> Some (q, t + LOCK_TTL_MS)" if "ch_now s < t + LOCK_TTL_MS" for q t
    using Lock that by (auto simp: lock_free_def)
  with Lock show ?case by (auto simp: lock_inv_def)
next
  case (Release s p since r)
  show ?case
    unfolding lock_inv_def
  proof (intro allI impI)
    fix q t
    assume a: "critical (ch_procs s' q) = Some t" "ch_now s' < t + LOCK_TTL_MS"
    with Release have "q \<noteq> p" by auto
    moreover from a Release this have "ch_lock s = Some (q, t + LOCK_TTL_MS)" by (auto simp: lock_inv_def)
    ultimately show "ch_lock s' = Some (q, t + LOCK_TTL_MS)" using Release release_lock_other by simp
  qed
qed (auto simp: lock_inv_def split: if_splits)

section \<open>Single flight\<close>

text \<open>
  Within \<open>LOCK_TTL_MS\<close> of a cold start, without faults and with a loader that succeeds:
  a poll has fired at most so often, the value or the call that loads it is there as soon as
  the loader was called, and it is called once.
\<close>

definition loading :: "pc \<Rightarrow> bool" where
  "loading c \<longleftrightarrow> (\<exists>t. c = Loading t) \<or> (\<exists>t v. c = Storing t v)"

definition since_ok :: "int \<Rightarrow> cache_state \<Rightarrow> bool" where
  "since_ok t0 s \<longleftrightarrow> (\<forall>p t. critical (ch_procs s p) = Some t \<longrightarrow> t0 \<le> t)"

definition polls_ok :: "int \<Rightarrow> cache_state \<Rightarrow> bool" where
  "polls_ok t0 s \<longleftrightarrow> (\<forall>p n wake. ch_procs s p = WaitLock n wake \<longrightarrow>
     t0 + LOCK_WAIT_MS * (int n + 1) \<le> wake \<and> n < LOCK_WAIT_ATTEMPTS)"

definition no_fallback :: "cache_state \<Rightarrow> bool" where
  "no_fallback s \<longleftrightarrow> (\<forall>p v. ch_procs s p \<noteq> FallbackLoading \<and> ch_procs s p \<noteq> FallbackStoring v)"

definition values_ok :: "int \<Rightarrow> cache_state \<Rightarrow> bool" where
  "values_ok t0 s \<longleftrightarrow> (\<forall>p t v. ch_procs s p = Storing t v \<longrightarrow> v \<noteq> Null) \<and>
     (\<forall>v e. ch_value s = Some (v, e) \<longrightarrow> v \<noteq> Null \<and> t0 + LOCK_TTL_MS < e)"

definition loads_ok :: "cache_state \<Rightarrow> bool" where
  "loads_ok s \<longleftrightarrow> ch_loads s \<le> 1 \<and>
     (ch_loads s = 0 \<longrightarrow> ch_value s = None \<and> (\<forall>p. \<not> loading (ch_procs s p))) \<and>
     (ch_loads s = 1 \<longrightarrow> ch_value s \<noteq> None \<or> (\<exists>p. loading (ch_procs s p)))"

definition flight_inv :: "int \<Rightarrow> cache_state \<Rightarrow> bool" where
  "flight_inv t0 s \<longleftrightarrow> t0 \<le> ch_now s \<and> lock_inv s \<and> since_ok t0 s \<and> (ch_now s < t0 + LOCK_TTL_MS \<longrightarrow>
     polls_ok t0 s \<and> no_fallback s \<and> values_ok t0 s \<and> loads_ok s)"

lemma loading_critical: "loading c \<Longrightarrow> \<exists>t. critical c = Some t"
  by (auto simp: loading_def)

lemma loading_simps [simp]:
  "loading (Loading t)" "loading (Storing t v)" "\<not> loading Absent" "\<not> loading CheckCache" "\<not> loading AcquireLock"
  "\<not> loading (SecondCheck t)" "\<not> loading (Releasing t r)" "\<not> loading (WaitLock n w)" "\<not> loading FallbackLoading"
  "\<not> loading (FallbackStoring v)" "\<not> loading (Finished r)" "\<not> loading Crashed"
  by (auto simp: loading_def)

lemma flight_cold: "flight_inv t0 (cold t0)"
  by (simp add: flight_inv_def cold_def lock_inv_def since_ok_def polls_ok_def no_fallback_def values_ok_def loads_ok_def)

lemma critical_step:
  "cache_step faults loads l s s' \<Longrightarrow> critical (ch_procs s' q) = Some t \<Longrightarrow>
     critical (ch_procs s q) = Some t \<or> t = ch_now s"
  by (induction rule: cache_step.cases) (auto split: if_splits)

lemma since_ok_step:
  "cache_step faults loads l s s' \<Longrightarrow> since_ok t0 s \<Longrightarrow> t0 \<le> ch_now s \<Longrightarrow> since_ok t0 s'"
  unfolding since_ok_def using critical_step by blast

lemma polls_ok_step:
  "cache_step False loads l s s' \<Longrightarrow> polls_ok t0 s \<Longrightarrow> t0 \<le> ch_now s \<Longrightarrow> polls_ok t0 s'"
proof (induction rule: cache_step.cases)
  case (PollMiss s p n wake)
  then have "t0 + LOCK_WAIT_MS * (int n + 1) \<le> ch_now s" by (fastforce simp: polls_ok_def)
  with PollMiss show ?case by (auto simp: polls_ok_def algebra_simps split: if_splits)
qed (auto simp: polls_ok_def cache_constants split: if_splits)

lemma no_fallback_step:
  "cache_step False loads l s s' \<Longrightarrow> no_fallback s \<Longrightarrow> polls_ok t0 s \<Longrightarrow> ch_now s < t0 + LOCK_TTL_MS \<Longrightarrow> no_fallback s'"
proof (induction rule: cache_step.cases)
  case (GiveUp s p n wake)
  then have "t0 + LOCK_WAIT_MS * (int n + 1) \<le> wake" "n < LOCK_WAIT_ATTEMPTS" by (auto simp: polls_ok_def)
  with GiveUp show ?case by (simp add: cache_constants)
qed (auto simp: no_fallback_def split: if_splits)

lemma values_ok_step:
  assumes "cache_step False loads l s s'" and "values_ok t0 s" and "no_fallback s" and "t0 \<le> ch_now s"
    and "\<And>v. loads (Inr v) \<Longrightarrow> v \<noteq> Null"
  shows "values_ok t0 s'"
  using assms(1-4)
proof (induction rule: cache_step.cases)
  case (Loaded s p since v)
  with assms(5) show ?case by (auto simp: values_ok_def split: if_splits)
next
  case (Store s p since v k)
  with ttl_bounds(1) [of k] show ?case by (auto simp: values_ok_def cache_constants split: if_splits)
next
  case (FallbackStore s p v k)
  then show ?case by (simp add: no_fallback_def)
qed (auto simp: values_ok_def split: if_splits)

lemma value_live:
  "values_ok t0 s \<Longrightarrow> ch_now s < t0 + LOCK_TTL_MS \<Longrightarrow> getCachedJson s = map_option fst (ch_value s)"
  by (force simp: values_ok_def getCachedJson_def split: option.splits)

lemma critical_unique:
  assumes "lock_inv s" and "since_ok t0 s" and "ch_now s < t0 + LOCK_TTL_MS"
    and "critical (ch_procs s p) = Some t" and "critical (ch_procs s q) = Some u"
  shows "p = q"
proof -
  have "t0 \<le> t" "t0 \<le> u" using assms(2,4,5) by (auto simp: since_ok_def)
  then have "ch_now s < t + LOCK_TTL_MS" "ch_now s < u + LOCK_TTL_MS" using assms(3) by simp_all
  with assms(1,4,5) have "ch_lock s = Some (p, t + LOCK_TTL_MS)" "ch_lock s = Some (q, u + LOCK_TTL_MS)"
    unfolding lock_inv_def by blast+
  then show ?thesis by simp
qed

text \<open>How a step can change what the count of loader calls is about.\<close>

lemma loading_new:
  "cache_step faults loads l s s' \<Longrightarrow> loading (ch_procs s' q) \<Longrightarrow>
     loading (ch_procs s q) \<or> ch_loads s' = Suc (ch_loads s)"
  by (induction rule: cache_step.cases) (auto split: if_splits)

lemma loading_old:
  "cache_step False loads l s s' \<Longrightarrow> (\<And>e. \<not> loads (Inl e)) \<Longrightarrow> loading (ch_procs s q) \<Longrightarrow>
     loading (ch_procs s' q) \<or> ch_value s' \<noteq> None"
  by (induction rule: cache_step.cases) (auto split: if_splits)

lemma value_old: "cache_step faults loads l s s' \<Longrightarrow> ch_value s \<noteq> None \<Longrightarrow> ch_value s' \<noteq> None"
  by (induction rule: cache_step.cases) auto

lemma value_new:
  "cache_step faults loads l s s' \<Longrightarrow> no_fallback s \<Longrightarrow> ch_value s' \<noteq> None \<Longrightarrow>
     ch_value s \<noteq> None \<or> (\<exists>q. loading (ch_procs s q))"
proof (induction rule: cache_step.cases)
  case (Store s p since v k)
  then have "loading (ch_procs s p)" by simp
  with Store show ?case by blast
qed (auto simp: no_fallback_def)

lemma loads_change:
  assumes "cache_step False loads l s s'" and "polls_ok t0 s" and "ch_now s < t0 + LOCK_TTL_MS"
  shows "ch_loads s' = ch_loads s \<or>
    (ch_loads s' = Suc (ch_loads s) \<and> getCachedJson s = None \<and>
      (\<exists>p since. ch_procs s p = SecondCheck since \<and> ch_procs s' p = Loading since))"
  using assms
proof (induction rule: cache_step.cases)
  case (GiveUp s p n wake)
  then have "t0 + LOCK_WAIT_MS * (int n + 1) \<le> wake" "n < LOCK_WAIT_ATTEMPTS" by (auto simp: polls_ok_def)
  with GiveUp show ?case by (simp add: cache_constants)
next
  case (SecondMiss s p since)
  then show ?case by (intro disjI2) (auto intro: exI [of _ p])
qed auto

lemma loads_ok_step:
  assumes "cache_step False loads l s s'" and "loads_ok s" and "no_fallback s" and "values_ok t0 s" and "polls_ok t0 s"
    and "lock_inv s" and "since_ok t0 s" and "ch_now s < t0 + LOCK_TTL_MS" and "\<And>e. \<not> loads (Inl e)"
  shows "loads_ok s'"
  using loads_change [OF assms(1,5,8)]
proof
  assume same: "ch_loads s' = ch_loads s"
  show ?thesis
    unfolding loads_ok_def same
  proof (intro conjI impI)
    show "ch_loads s \<le> 1" using assms(2) by (simp add: loads_ok_def)
  next
    assume "ch_loads s = 0"
    with assms(2) have none: "ch_value s = None" "\<forall>p. \<not> loading (ch_procs s p)" by (simp_all add: loads_ok_def)
    show "ch_value s' = None" using value_new [OF assms(1,3)] none by blast
    show "\<forall>p. \<not> loading (ch_procs s' p)" using loading_new [OF assms(1)] none same by fastforce
  next
    assume "ch_loads s = 1"
    with assms(2) consider "ch_value s \<noteq> None" | p where "loading (ch_procs s p)" by (auto simp: loads_ok_def)
    then show "ch_value s' \<noteq> None \<or> (\<exists>p. loading (ch_procs s' p))"
      by cases (use value_old [OF assms(1)] loading_old [OF assms(1,9)] in blast)+
  qed
next
  assume a: "ch_loads s' = Suc (ch_loads s) \<and> getCachedJson s = None \<and>
      (\<exists>p since. ch_procs s p = SecondCheck since \<and> ch_procs s' p = Loading since)"
  then obtain p since where p: "ch_procs s p = SecondCheck since" "ch_procs s' p = Loading since" by blast
  have "ch_value s = None" using a value_live [OF assms(4,8)] by simp
  moreover have "\<not> loading (ch_procs s q)" for q
  proof
    assume l: "loading (ch_procs s q)"
    with loading_critical obtain u where u: "critical (ch_procs s q) = Some u" by blast
    have "p = q" by (rule critical_unique [OF assms(6-8) _ u, of p since]) (simp add: p)
    with l p show False by simp
  qed
  ultimately have "ch_loads s = 0" using assms(2) by (auto simp: loads_ok_def)
  with a p show ?thesis by (auto simp: loads_ok_def intro: exI [of _ p])
qed

lemma flight_step:
  assumes "cache_step False loads l s s'" and "flight_inv t0 s"
    and "\<And>e. \<not> loads (Inl e)" and "\<And>v. loads (Inr v) \<Longrightarrow> v \<noteq> Null"
  shows "flight_inv t0 s'"
proof -
  note step = assms(1)
  from assms(2) have i: "t0 \<le> ch_now s" "lock_inv s" "since_ok t0 s" by (simp_all add: flight_inv_def)
  note le = cache_step_now [OF step]
  have "polls_ok t0 s' \<and> no_fallback s' \<and> values_ok t0 s' \<and> loads_ok s'" if "ch_now s' < t0 + LOCK_TTL_MS"
  proof -
    from that le have now: "ch_now s < t0 + LOCK_TTL_MS" by simp
    with assms(2) have j: "polls_ok t0 s" "no_fallback s" "values_ok t0 s" "loads_ok s" by (simp_all add: flight_inv_def)
    show ?thesis
      using polls_ok_step [OF step j(1) i(1)] no_fallback_step [OF step j(2,1) now]
        values_ok_step [OF step j(3,2) i(1) assms(4)] loads_ok_step [OF step j(4,2,3,1) i(2,3) now assms(3)] by blast
  qed
  with i le lock_inv_step [OF step i(2)] since_ok_step [OF step i(3,1)] show ?thesis
    by (simp add: flight_inv_def)
qed

section \<open>Every call ends\<close>

text \<open>How many steps a call still has.\<close>

fun steps_left :: "pc \<Rightarrow> nat" where
  "steps_left Absent = 206"
| "steps_left CheckCache = 205"
| "steps_left AcquireLock = 204"
| "steps_left (SecondCheck _) = 4"
| "steps_left (Loading _) = 3"
| "steps_left (Storing _ _) = 2"
| "steps_left (Releasing _ _) = 1"
| "steps_left (WaitLock n _) = 3 + (200 - n)"
| "steps_left FallbackLoading = 2"
| "steps_left (FallbackStoring _) = 1"
| "steps_left (Finished _) = 0"
| "steps_left Crashed = 0"

lemma steps_left_positive:
  "(\<forall>r. c \<noteq> Finished r) \<Longrightarrow> c \<noteq> Crashed \<Longrightarrow> 0 < steps_left c"
  by (cases c) auto

lemma steps_left_step:
  "cache_step faults loads l s s' \<Longrightarrow>
     steps_left (ch_procs s' p) + (if l = Some p then 1 else 0) \<le> steps_left (ch_procs s p)"
proof (induction rule: cache_step.cases)
  case (Crash s q)
  with steps_left_positive [of "ch_procs s q"] show ?case by auto
qed (auto simp: LOCK_WAIT_ATTEMPTS_def)

lemma steps_left_run:
  "cache_run faults loads s ls s' \<Longrightarrow> count_list ls (Some p) + steps_left (ch_procs s' p) \<le> steps_left (ch_procs s p)"
proof (induction rule: cache_run.induct)
  case (Go l s s1 ls s2)
  with steps_left_step [OF Go(1), of p] show ?case by (auto split: if_splits)
qed simp

text \<open>A timer fires at most \<open>LOCK_WAIT_MS\<close> from now.\<close>

definition timer_ok :: "cache_state \<Rightarrow> bool" where
  "timer_ok s \<longleftrightarrow> (\<forall>p n wake. ch_procs s p = WaitLock n wake \<longrightarrow> wake \<le> ch_now s + LOCK_WAIT_MS)"

lemma timer_step: "cache_step faults loads l s s' \<Longrightarrow> timer_ok s \<Longrightarrow> timer_ok s'"
proof (induction rule: cache_step.cases)
  case (Tick dt s)
  then show ?case by (force simp: timer_ok_def)
qed (auto simp: timer_ok_def split: if_splits)

text \<open>A call that has not ended can move, if need be after its timer.\<close>

lemma call_moves:
  assumes "ch_procs s p \<noteq> Crashed" and "\<forall>r. ch_procs s p \<noteq> Finished r" and "\<exists>r. loads r"
    and "\<forall>n wake. ch_procs s p = WaitLock n wake \<longrightarrow> wake \<le> ch_now s"
  shows "\<exists>s'. cache_step False loads (Some p) s s'"
proof (cases "ch_procs s p")
  case (Storing t v)
  then show ?thesis using Store [of s p t v 0] by auto
next
  case (FallbackStoring v)
  then show ?thesis using FallbackStore [of s p v 0] by auto
next
  case (Loading t)
  from assms(3) obtain r where "loads r" by blast
  then show ?thesis using Loading by (cases r) (blast intro: cache_step.intros)+
next
  case FallbackLoading
  from assms(3) obtain r where "loads r" by blast
  then show ?thesis using FallbackLoading by (cases r) (blast intro: cache_step.intros)+
next
  case CheckCache
  then show ?thesis by (cases "getCachedJson s") (blast intro: cache_step.intros)+
next
  case AcquireLock
  then show ?thesis by (cases "lock_free s") (blast intro: cache_step.intros)+
next
  case (SecondCheck t)
  then show ?thesis by (cases "getCachedJson s") (blast intro: cache_step.intros)+
next
  case (WaitLock n wake)
  with assms(4) have "wake \<le> ch_now s" by blast
  with WaitLock show ?thesis
    by (cases "getCachedJson s"; cases "Suc n < LOCK_WAIT_ATTEMPTS") (blast intro: cache_step.intros)+
qed (use assms in \<open>blast intro: cache_step.intros\<close>)+


section \<open>The product cache\<close>

record product_summary =
  ps_id :: int
  ps_name :: string
  ps_price :: int
  ps_stockQuantity :: int

definition summary_json :: "product_summary \<Rightarrow> jsval" where
  "summary_json r = Obj [(''id'', Num (IntN (ps_id r))), (''name'', Str (ps_name r)),
     (''price'', Num (IntN (ps_price r))), (''stockQuantity'', Num (IntN (ps_stockQuantity r)))]"

text \<open>The state is the database and \<open>databaseCalls\<close>.\<close>

definition resetDatabaseCallCount :: "db \<times> nat \<Rightarrow> db \<times> nat" where
  "resetDatabaseCallCount = (\<lambda>(d, _). (d, 0))"

definition getDatabaseCallCount :: "db \<times> nat \<Rightarrow> nat" where
  "getDatabaseCallCount = snd"

definition loadProductFromDatabase :: "int \<Rightarrow> (db \<times> nat, product_summary) cmd" where
  "loadProductFromDatabase productId =
     cmd_bind (cmd_write (\<lambda>(d, n). (d, n + 1))) (\<lambda>_.
     cmd_bind (on_fst (int8_param productId)) (\<lambda>i.
     cmd_bind (on_fst (cmd_read (\<lambda>d. first_where (\<lambda>r. p_id r = i) (products d)))) (\<lambda>row.
     case row of
       None \<Rightarrow> cmd_throw (JsError (''Product '' @ show_int productId @ '' not found''))
     | Some r \<Rightarrow> cmd_return \<lparr>ps_id = p_id r, ps_name = p_name r, ps_price = p_price r,
         ps_stockQuantity = p_stock_quantity r\<rparr>)))"

definition product_key :: "int \<Rightarrow> string" where
  "product_key productId = ''product-summary:'' @ show_int productId"

text \<open>
  The calls of \<open>getProductSummaryCached productId\<close>, the database unchanged meanwhile:
  runs of \<open>getOrLoadCached\<close> on the key of the product, whose loader is the query.
\<close>

definition product_loads :: "db \<Rightarrow> int \<Rightarrow> err + jsval \<Rightarrow> bool" where
  "product_loads d productId r \<longleftrightarrow>
     r = (case fst (loadProductFromDatabase productId (d, 0)) of Inl e \<Rightarrow> Inl e | Inr v \<Rightarrow> Inr (summary_json v))"

definition getProductSummaryCached ::
  "db \<Rightarrow> int \<Rightarrow> bool \<Rightarrow> (string \<Rightarrow> cache_state) \<Rightarrow> nat option list \<Rightarrow> (string \<Rightarrow> cache_state) \<Rightarrow> bool" where
  "getProductSummaryCached d productId faults st ls st' \<longleftrightarrow>
     cache_run faults (product_loads d productId) (st (product_key productId)) ls (st' (product_key productId)) \<and>
     (\<forall>k. k \<noteq> product_key productId \<longrightarrow> st' k = st k)"

lemma loadProduct_calls: "getDatabaseCallCount (snd (loadProductFromDatabase i s)) = getDatabaseCallCount s + 1"
  by (cases s) (simp add: loadProductFromDatabase_def getDatabaseCallCount_def cmd_bind_run cmd_simps param_int_IntN
      split: option.split)

lemma loadProduct_found:
  assumes "distinct (map p_id (products d))" and "r \<in> set (products d)" and "int8 (p_id r)"
  shows "fst (loadProductFromDatabase (p_id r) (d, n)) = Inr \<lparr>ps_id = p_id r, ps_name = p_name r,
     ps_price = p_price r, ps_stockQuantity = p_stock_quantity r\<rparr>"
  using assms by (simp add: loadProductFromDatabase_def cmd_bind_run cmd_simps param_int_IntN first_where_unique)

lemma product_loads_found:
  assumes "distinct (map p_id (products d))" and "r \<in> set (products d)" and "int8 (p_id r)"
  shows "product_loads d (p_id r) x \<longleftrightarrow> x = Inr (summary_json \<lparr>ps_id = p_id r, ps_name = p_name r,
     ps_price = p_price r, ps_stockQuantity = p_stock_quantity r\<rparr>)"
  by (simp add: product_loads_def loadProduct_found [OF assms])

lemma product_key_inject [simp]: "product_key i = product_key j \<longleftrightarrow> i = j"
  by (simp add: product_key_def)

lemma authentic_cold: "authentic loads (cold t0)"
  by (simp add: authentic_def cold_def)

section \<open>Properties of the cache\<close>

text \<open>A run that serves one call, for the examples below.\<close>

definition sample_labels :: "nat option list" where
  "sample_labels = [Some 0, Some 0, Some 0, Some 0, Some 0, Some 0, Some 0]"

lemma sample_run:
  assumes "loads (Inr v)"
  shows "cache_run faults loads (cold t0) sample_labels
    \<lparr>ch_now = t0, ch_value = Some (v, t0 + 300000), ch_lock = None,
      ch_procs = (\<lambda>_. Absent)(0 := Finished (Inr v)), ch_loads = 1\<rparr>"
proof -
  let ?st = "\<lambda>x l c n. \<lparr>ch_now = t0, ch_value = x, ch_lock = l, ch_procs = (\<lambda>_. Absent)(0 := c), ch_loads = n\<rparr>"
  let ?step = "\<lambda>s s'. cache_step faults loads (Some 0) s s'" and ?held = "Some (0, t0 + LOCK_TTL_MS)"
  note upd = goto_def count_load_def getCachedJson_def lock_free_def
  have 1: "?step (cold t0) (?st None None CheckCache 0)"
    using Arrive [of "cold t0" 0 faults loads] by (simp add: cold_def upd)
  have 2: "?step (?st None None CheckCache 0) (?st None None AcquireLock 0)"
    using Miss [of "?st None None CheckCache 0" 0 faults loads] by (simp add: upd)
  have 3: "?step (?st None None AcquireLock 0) (?st None ?held (SecondCheck t0) 0)"
    using Lock [of "?st None None AcquireLock 0" 0 faults loads] by (simp add: upd)
  have 4: "?step (?st None ?held (SecondCheck t0) 0) (?st None ?held (Loading t0) 1)"
    using SecondMiss [of "?st None ?held (SecondCheck t0) 0" 0 t0 faults loads] by (simp add: upd)
  have 5: "?step (?st None ?held (Loading t0) 1) (?st None ?held (Storing t0 v) 1)"
    using Loaded [of "?st None ?held (Loading t0) 1" 0 t0 loads v faults] assms by (simp add: upd)
  have 6: "?step (?st None ?held (Storing t0 v) 1) (?st (Some (v, t0 + 300000)) ?held (Releasing t0 (Inr v)) 1)"
    using Store [of "?st None ?held (Storing t0 v) 1" 0 t0 v 0 faults loads]
    by (simp add: upd setCachedJson_def getCacheTtlSeconds_def cache_constants)
  have 7: "?step (?st (Some (v, t0 + 300000)) ?held (Releasing t0 (Inr v)) 1)
      (?st (Some (v, t0 + 300000)) None (Finished (Inr v)) 1)"
    using Release [of "?st (Some (v, t0 + 300000)) ?held (Releasing t0 (Inr v)) 1" 0 t0 "Inr v" faults loads]
    by (simp add: upd release_lock_def LOCK_TTL_MS_def)
  show ?thesis
    unfolding sample_labels_def
    by (rule Go [OF 1 Go [OF 2 Go [OF 3 Go [OF 4 Go [OF 5 Go [OF 6 Go [OF 7 Stop]]]]]]])
qed

lemma sample_lock:
  "cache_run faults loads (cold t0) [Some 0, Some 0, Some 0]
     \<lparr>ch_now = t0, ch_value = None, ch_lock = Some (0, t0 + LOCK_TTL_MS),
       ch_procs = (\<lambda>_. Absent)(0 := SecondCheck t0), ch_loads = 0\<rparr>"
proof -
  let ?st = "\<lambda>l c. \<lparr>ch_now = t0, ch_value = None, ch_lock = l, ch_procs = (\<lambda>_. Absent)(0 := c), ch_loads = 0\<rparr>"
  let ?step = "\<lambda>s s'. cache_step faults loads (Some 0) s s'"
  note upd = goto_def getCachedJson_def lock_free_def
  have 1: "?step (cold t0) (?st None CheckCache)"
    using Arrive [of "cold t0" 0 faults loads] by (simp add: cold_def upd)
  have 2: "?step (?st None CheckCache) (?st None AcquireLock)"
    using Miss [of "?st None CheckCache" 0 faults loads] by (simp add: upd)
  have 3: "?step (?st None AcquireLock) (?st (Some (0, t0 + LOCK_TTL_MS)) (SecondCheck t0))"
    using Lock [of "?st None AcquireLock" 0 faults loads] by (simp add: upd)
  show ?thesis by (rule Go [OF 1 Go [OF 2 Go [OF 3 Stop]]])
qed

lemma flight_run:
  assumes "cache_run False loads (cold t0) ls s" and "\<And>e. \<not> loads (Inl e)" and "\<And>v. loads (Inr v) \<Longrightarrow> v \<noteq> Null"
  shows "flight_inv t0 s"
  using assms(1) flight_cold
proof (rule cache_run_inv)
  fix l s s'
  assume "cache_step False loads l s s'" and "flight_inv t0 s"
  then show "flight_inv t0 s'" by (rule flight_step) (use assms(2,3) in auto)
qed

text \<open>C26: single flight: for five seconds after a cold start, however many calls for a product
  arrive and in whatever order they move, the database is queried at most once, and every
  call that has returned a value returned the summary of the product's row.
\<close>

theorem product_single_flight:
  assumes "distinct (map p_id (products d))" and "r \<in> set (products d)" and "int8 (p_id r)"
    and "st (product_key (p_id r)) = cold t0"
    and "getProductSummaryCached d (p_id r) False st ls st'"
    and "ch_now (st' (product_key (p_id r))) < t0 + LOCK_TTL_MS"
  shows "ch_loads (st' (product_key (p_id r))) \<le> 1 \<and>
    (\<forall>q v. ch_procs (st' (product_key (p_id r))) q = Finished (Inr v) \<longrightarrow>
       v = summary_json \<lparr>ps_id = p_id r, ps_name = p_name r, ps_price = p_price r, ps_stockQuantity = p_stock_quantity r\<rparr>)"
proof -
  let ?s = "st' (product_key (p_id r))" and ?loads = "product_loads d (p_id r)"
  note loads = product_loads_found [OF assms(1-3)]
  from assms(4,5) have run: "cache_run False ?loads (cold t0) ls ?s" by (simp add: getProductSummaryCached_def)
  have "flight_inv t0 ?s" by (rule flight_run [OF run]) (simp_all add: loads summary_json_def)
  with assms(6) have "ch_loads ?s \<le> 1" by (simp add: flight_inv_def loads_ok_def)
  moreover have "authentic ?loads ?s" using run authentic_cold
    by (rule cache_run_inv) (rule authentic_step)
  then have "?loads (Inr v)" if "ch_procs ?s q = Finished (Inr v)" for q v
    using that unfolding authentic_def by (metis carried.simps(4) singletonI)
  ultimately show ?thesis using loads by blast
qed

definition sample_product :: product_row where
  "sample_product = \<lparr>p_id = 7, p_owner_id = 1, p_name = ''pen'', p_description = ''a pen'', p_price = 120,
     p_stock_quantity = 3, p_is_active = True\<rparr>"

lemma product_single_flight_witness:
  "\<exists>st'. getProductSummaryCached (empty_db\<lparr>products := [sample_product]\<rparr>) 7 False (\<lambda>_. cold 0) sample_labels st' \<and>
     ch_loads (st' (product_key 7)) = 1 \<and> ch_loads (st' (product_key 7)) \<le> 1"
proof -
  let ?d = "empty_db\<lparr>products := [sample_product]\<rparr>"
  let ?v = "summary_json \<lparr>ps_id = 7, ps_name = ''pen'', ps_price = 120, ps_stockQuantity = 3\<rparr>"
  let ?s = "\<lparr>ch_now = 0, ch_value = Some (?v, 300000), ch_lock = None,
    ch_procs = (\<lambda>_. Absent)(0 := Finished (Inr ?v)), ch_loads = 1\<rparr>"
  let ?st = "(\<lambda>_. cold 0)(product_key 7 := ?s)"
  have d: "distinct (map p_id (products ?d))" "sample_product \<in> set (products ?d)" "int8 (p_id sample_product)"
    by (simp_all add: sample_product_def int8_def)
  have "product_loads ?d 7 (Inr ?v)"
    using product_loads_found [OF d] by (simp add: sample_product_def)
  from sample_run [where loads = "product_loads ?d 7", OF this, of False 0]
  have run: "getProductSummaryCached ?d 7 False (\<lambda>_. cold 0) sample_labels ?st"
    by (simp add: getProductSummaryCached_def)
  have "ch_loads (?st (product_key 7)) \<le> 1"
    using product_single_flight [OF d, of "\<lambda>_. cold 0" 0 sample_labels ?st] run
    by (simp add: sample_product_def LOCK_TTL_MS_def cold_def)
  moreover have "ch_loads (?st (product_key 7)) = 1" by simp
  ultimately show ?thesis using run by blast
qed



text \<open>Every call ends: it makes at most 206 steps in all, and as long as it has not
  returned or crashed it can make one once its timer has fired, whatever the state of the
  lock and of the cache; the loader has to end for it.
\<close>

theorem cache_call_ends:
  assumes "cache_run faults loads (cold t0) ls s" and "\<exists>r. loads r"
  shows "count_list ls (Some p) \<le> 206 \<and>
    (ch_procs s p = Crashed \<or> (\<exists>r. ch_procs s p = Finished r) \<or>
      (\<exists>s'. cache_step False loads (Some p) (s\<lparr>ch_now := ch_now s + LOCK_WAIT_MS\<rparr>) s'))"
proof
  from steps_left_run [OF assms(1), of p] show "count_list ls (Some p) \<le> 206" by (simp add: cold_def)
next
  have "timer_ok s" by (rule cache_run_inv [OF assms(1) _ timer_step]) (simp add: timer_ok_def cold_def)
  then have "\<forall>n wake. ch_procs s p = WaitLock n wake \<longrightarrow> wake \<le> ch_now s + LOCK_WAIT_MS"
    unfolding timer_ok_def by blast
  with call_moves [of "s\<lparr>ch_now := ch_now s + LOCK_WAIT_MS\<rparr>" p loads] assms(2)
  show "ch_procs s p = Crashed \<or> (\<exists>r. ch_procs s p = Finished r) \<or>
      (\<exists>s'. cache_step False loads (Some p) (s\<lparr>ch_now := ch_now s + LOCK_WAIT_MS\<rparr>) s')" by auto
qed

lemma cache_call_ends_witness:
  "\<exists>s. cache_run False (\<lambda>_. True) (cold 0) sample_labels s \<and> ch_procs s 0 = Finished (Inr (Bool True)) \<and>
     count_list sample_labels (Some 0) \<le> 206"
proof -
  obtain s where s: "cache_run False (\<lambda>_. True) (cold 0) sample_labels s" "ch_procs s 0 = Finished (Inr (Bool True))"
    using sample_run [of "\<lambda>_. True" "Bool True" False 0] by fastforce
  with cache_call_ends [of False "\<lambda>_. True" 0 sample_labels s 0] show ?thesis by blast
qed

end
