(* ===== verification/CacheDemo.thy ===== *)
theory CacheDemo
  imports Cache OutboxDemos
begin

text \<open>
  \<open>src/demo-cache.ts\<close>: sixty keys warmed with a random time to live, 25 concurrent calls
  of the product cache after a flush, then 100 calls one after the other. The concurrent
  calls are the processes of \<open>Cache.cache_step\<close>, so the demonstration is a relation. Redis'
  two configuration replies, the draws and the times of the commands are arguments.
\<close>

section \<open>The demonstration\<close>

definition WARM_KEYS :: nat where "WARM_KEYS = 60"
definition CONCURRENT_REQUESTS :: nat where "CONCURRENT_REQUESTS = 25"
definition WARM_READS :: nat where "WARM_READS = 100"

definition active_product :: "(db, int) cmd" where
  "active_product =
     cmd_bind (cmd_read (\<lambda>d. first_by p_id (filter p_is_active (products d)))) (\<lambda>product_opt. case product_opt of
       None \<Rightarrow> cmd_throw (JsError ''No active product found. Run npm run seed first.'')
     | Some p \<Rightarrow> cmd_return (p_id p))"

text \<open>The second element of a reply to \<open>CONFIG GET\<close>, \<open>None\<close> standing for a reply that is no array.\<close>

definition config_value :: "string list option \<Rightarrow> string option" where
  "config_value reply = (case reply of Some (_ # v # _) \<Rightarrow> Some v | _ \<Rightarrow> None)"

definition positive_number :: "jsnum \<Rightarrow> bool" where
  "positive_number n = (case n of IntN i \<Rightarrow> 0 < i | FracN m _ \<Rightarrow> 0 < m | NaN \<Rightarrow> False | PosInf \<Rightarrow> True | NegInf \<Rightarrow> False)"

definition redis_ttl :: "int \<Rightarrow> int option \<Rightarrow> int" where
  "redis_ttl now expiry = (case expiry of
       None \<Rightarrow> -2
     | Some e \<Rightarrow> if e \<le> now then -2 else (e - now + 500) div 1000)"

text \<open>
  Setting and asking the key of one index; of the warmed keys the expiry matters. The draw
  \<open>k\<close> is \<open>Math.random() = k / 2^53\<close>.
\<close>

definition warm_key :: "nat \<Rightarrow> string" where
  "warm_key index = ''demo:warm:'' @ show_nat index"

definition warm_one :: "(nat \<Rightarrow> int) \<Rightarrow> (nat \<Rightarrow> nat) \<Rightarrow> nat \<Rightarrow> (string \<Rightarrow> int option) \<times> int list
     \<Rightarrow> (string \<Rightarrow> int option) \<times> int list" where
  "warm_one t draw index = (\<lambda>(keys, ttls).
     let keys' = keys(warm_key index \<mapsto> t (2 * index) + 1000 * (300 + int (draw index) * 61 div 2 ^ 53))
     in (keys', ttls @ [redis_ttl (t (2 * index + 1)) (keys' (warm_key index))]))"

definition warm_ttls :: "(nat \<Rightarrow> int) \<Rightarrow> (nat \<Rightarrow> nat) \<Rightarrow> int list" where
  "warm_ttls t draw = snd (fold (warm_one t draw) [0..<WARM_KEYS] (\<lambda>_. None, []))"

record cache_report =
  cr_cacheLru :: nat
  cr_cacheMaxmemory :: nat
  cr_ttlDistinct :: nat
  cr_dbCalls :: nat
  cr_dbCallsWarm :: nat

definition reset_loads :: "string \<Rightarrow> (string \<Rightarrow> cache_state) \<Rightarrow> string \<Rightarrow> cache_state" where
  "reset_loads key st = st(key := (st key)\<lparr>ch_loads := 0\<rparr>)"

text \<open>\<open>n\<close> calls awaited one after the other, the next of them being call \<open>p\<close>; a failed call ends the loop.\<close>

inductive warm_reads :: "bool \<Rightarrow> db \<Rightarrow> int \<Rightarrow> nat \<Rightarrow> nat \<Rightarrow> (string \<Rightarrow> cache_state) \<Rightarrow> (string \<Rightarrow> cache_state) \<Rightarrow> err option \<Rightarrow> bool"
  for faults :: bool and d :: db and productId :: int
where
  ReadsDone: "warm_reads faults d productId p 0 st st None"
| ReadNext: "getProductSummaryCached d productId faults st ls st1 \<Longrightarrow> set ls \<subseteq> {Some p, None} \<Longrightarrow>
    ch_procs (st1 (product_key productId)) p = Finished (Inr v) \<Longrightarrow>
    warm_reads faults d productId (Suc p) n st1 st2 e \<Longrightarrow> warm_reads faults d productId p (Suc n) st st2 e"
| ReadFails: "getProductSummaryCached d productId faults st ls st1 \<Longrightarrow> set ls \<subseteq> {Some p, None} \<Longrightarrow>
    ch_procs (st1 (product_key productId)) p = Finished (Inl e) \<Longrightarrow>
    warm_reads faults d productId p (Suc n) st st1 (Some e)"

text \<open>Exactly the first \<open>n\<close> calls were made, and every one has returned a value: \<open>Promise.all\<close> is settled.\<close>

definition all_returned :: "nat \<Rightarrow> cache_state \<Rightarrow> bool" where
  "all_returned n s \<longleftrightarrow> (\<forall>p < n. \<exists>v. ch_procs s p = Finished (Inr v)) \<and> (\<forall>p \<ge> n. ch_procs s p = Absent)"

text \<open>\<open>u1\<close> and \<open>u2\<close> are the times at which the concurrent calls and the loop have ended.\<close>

inductive cache_demo :: "bool \<Rightarrow> db \<Rightarrow> string list option \<Rightarrow> string list option \<Rightarrow> (nat \<Rightarrow> int) \<Rightarrow> (nat \<Rightarrow> nat)
     \<Rightarrow> int \<Rightarrow> int \<Rightarrow> err + cache_report \<Rightarrow> bool"
  for faults :: bool and d :: db and policyResult :: "string list option" and maxmemoryResult :: "string list option"
    and t :: "nat \<Rightarrow> int" and draw :: "nat \<Rightarrow> nat"
where
  NoProduct: "fst (active_product d) = Inl e \<Longrightarrow> cache_demo faults d policyResult maxmemoryResult t draw u u (Inl e)"
| CallFails: "fst (active_product d) = Inr productId \<Longrightarrow>
    getProductSummaryCached d productId faults (\<lambda>_. cold (t (2 * WARM_KEYS))) ls st1 \<Longrightarrow>
    p < CONCURRENT_REQUESTS \<Longrightarrow> ch_procs (st1 (product_key productId)) p = Finished (Inl e) \<Longrightarrow>
    u1 = ch_now (st1 (product_key productId)) \<Longrightarrow>
    cache_demo faults d policyResult maxmemoryResult t draw u1 u1 (Inl e)"
| LoopFails: "fst (active_product d) = Inr productId \<Longrightarrow>
    getProductSummaryCached d productId faults (\<lambda>_. cold (t (2 * WARM_KEYS))) ls st1 \<Longrightarrow>
    all_returned CONCURRENT_REQUESTS (st1 (product_key productId)) \<Longrightarrow>
    warm_reads faults d productId CONCURRENT_REQUESTS WARM_READS (reset_loads (product_key productId) st1) st2 (Some e) \<Longrightarrow>
    u1 = ch_now (st1 (product_key productId)) \<Longrightarrow> u2 = ch_now (st2 (product_key productId)) \<Longrightarrow>
    cache_demo faults d policyResult maxmemoryResult t draw u1 u2 (Inl e)"
| Reports: "fst (active_product d) = Inr productId \<Longrightarrow>
    getProductSummaryCached d productId faults (\<lambda>_. cold (t (2 * WARM_KEYS))) ls st1 \<Longrightarrow>
    all_returned CONCURRENT_REQUESTS (st1 (product_key productId)) \<Longrightarrow>
    warm_reads faults d productId CONCURRENT_REQUESTS WARM_READS (reset_loads (product_key productId) st1) st2 None \<Longrightarrow>
    u1 = ch_now (st1 (product_key productId)) \<Longrightarrow> u2 = ch_now (st2 (product_key productId)) \<Longrightarrow>
    cache_demo faults d policyResult maxmemoryResult t draw u1 u2 (Inr
      \<lparr>cr_cacheLru = (if config_value policyResult = Some ''allkeys-lru'' then 1 else 0),
       cr_cacheMaxmemory = (case config_value maxmemoryResult of
           None \<Rightarrow> 0 | Some m \<Rightarrow> if positive_number (number_of_string m) then 1 else 0),
       cr_ttlDistinct = length (remdups (warm_ttls t draw)),
       cr_dbCalls = ch_loads (st1 (product_key productId)),
       cr_dbCallsWarm = ch_loads (st2 (product_key productId))\<rparr>)"

definition cache_passed :: "cache_report \<Rightarrow> bool" where
  "cache_passed r \<longleftrightarrow> cr_cacheLru r = 1 \<and> cr_cacheMaxmemory r = 1 \<and> 50 \<le> WARM_KEYS \<and> 5 \<le> cr_ttlDistinct r \<and>
     20 \<le> CONCURRENT_REQUESTS \<and> cr_dbCalls r = 1 \<and> cr_dbCallsWarm r = 0"

section \<open>The warmed keys\<close>

lemma warm_ttls_fold:
  "snd (fold (warm_one t draw) is (keys, ttls)) =
     ttls @ map (\<lambda>i. redis_ttl (t (2 * i + 1)) (Some (t (2 * i) + 1000 * getCacheTtlSeconds (draw i)))) is"
  by (induction "is" arbitrary: keys ttls) (simp_all add: warm_one_def Let_def getCacheTtlSeconds_def cache_constants)

lemma warm_ttls_eq:
  assumes "\<forall>i < WARM_KEYS. draw i < 2 ^ 53 \<and> t (2 * i) \<le> t (2 * i + 1) \<and> t (2 * i + 1) \<le> t (2 * i) + 500"
  shows "warm_ttls t draw = map (\<lambda>i. getCacheTtlSeconds (draw i)) [0..<WARM_KEYS]"
proof -
  have "redis_ttl (t (2 * i + 1)) (Some (t (2 * i) + 1000 * getCacheTtlSeconds (draw i))) = getCacheTtlSeconds (draw i)"
    if "i < WARM_KEYS" for i
  proof -
    from assms that have i: "draw i < 2 ^ 53" "t (2 * i) \<le> t (2 * i + 1)" "t (2 * i + 1) \<le> t (2 * i) + 500" by blast+
    from ttl_bounds(1) [OF i(1)] i(2,3) show ?thesis
      by (simp add: redis_ttl_def)
  qed
  then show ?thesis by (simp add: warm_ttls_def warm_ttls_fold)
qed

section \<open>The loader calls\<close>

text \<open>A value is cached, carried or on its way only if the loader was called.\<close>

definition has_load :: "pc \<Rightarrow> bool" where
  "has_load c \<longleftrightarrow> carried c \<noteq> {} \<or> loading c \<or> c = FallbackLoading"

definition load_counted :: "cache_state \<Rightarrow> bool" where
  "load_counted s \<longleftrightarrow> (ch_value s \<noteq> None \<or> (\<exists>p. has_load (ch_procs s p)) \<longrightarrow> 0 < ch_loads s)"

lemma has_load_simps [simp]:
  "\<not> has_load Absent" "\<not> has_load CheckCache" "\<not> has_load AcquireLock" "\<not> has_load (SecondCheck t)" "has_load (Loading t)"
  "has_load (Storing t v)" "\<not> has_load (WaitLock n w)" "has_load FallbackLoading" "has_load (FallbackStoring v)"
  "has_load (Releasing t (Inr v))" "has_load (Finished (Inr v))" "\<not> has_load (Releasing t (Inl e))"
  "\<not> has_load (Finished (Inl e))" "\<not> has_load Crashed"
  by (simp_all add: has_load_def)

lemma has_load_step:
  "cache_step faults loads l s s' \<Longrightarrow> has_load (ch_procs s' q) \<Longrightarrow>
     has_load (ch_procs s q) \<or> ch_value s \<noteq> None \<or> ch_loads s' = Suc (ch_loads s)"
proof (induction rule: cache_step.cases)
  case (Release s p since r)
  then show ?case by (cases r) (auto split: if_splits)
qed (auto simp: getCachedJson_Some split: if_splits)

lemma loads_mono: "cache_step faults loads l s s' \<Longrightarrow> ch_loads s \<le> ch_loads s'"
  by (induction rule: cache_step.cases) auto

lemma value_load: "cache_step faults loads l s s' \<Longrightarrow> ch_value s' \<noteq> None \<Longrightarrow> ch_value s \<noteq> None \<or> (\<exists>p. has_load (ch_procs s p))"
proof (induction rule: cache_step.cases)
  case (Store s p since v k)
  then have "has_load (ch_procs s p)" by simp
  with Store show ?case by blast
next
  case (FallbackStore s p v k)
  then have "has_load (ch_procs s p)" by simp
  with FallbackStore show ?case by blast
qed auto

lemma load_counted_step:
  assumes "cache_step faults loads l s s'" and "load_counted s"
  shows "load_counted s'"
proof -
  have "0 < ch_loads s'" if "ch_value s' \<noteq> None \<or> (\<exists>p. has_load (ch_procs s' p))"
    using that value_load [OF assms(1)] has_load_step [OF assms(1)] loads_mono [OF assms(1)] assms(2)
    unfolding load_counted_def by (metis less_le_trans zero_less_Suc)
  then show ?thesis by (simp add: load_counted_def)
qed

text \<open>A cached value lives five minutes from the cold start at least.\<close>

definition long_lived :: "int \<Rightarrow> cache_state \<Rightarrow> bool" where
  "long_lived t0 s \<longleftrightarrow> t0 \<le> ch_now s \<and> (\<forall>v e. ch_value s = Some (v, e) \<longrightarrow> t0 + 300000 \<le> e)"

lemma long_lived_step:
  assumes "cache_step faults loads l s s'" and "long_lived t0 s"
  shows "long_lived t0 s'"
  using assms
proof (induction rule: cache_step.cases)
  case (Store s p since v k)
  with ttl_bounds(1) [of k] show ?case by (auto simp: long_lived_def)
next
  case (FallbackStore s p v k)
  with ttl_bounds(1) [of k] show ?case by (auto simp: long_lived_def)
qed (auto simp: long_lived_def)

text \<open>The concurrent phase: one loader call, and its value is left in the cache.\<close>

lemma concurrent_calls:
  assumes "cache_run False loads (cold t0) ls s" and "all_returned (Suc n) s" and "ch_now s < t0 + LOCK_TTL_MS"
    and "\<And>e. \<not> loads (Inl e)" and "\<And>v. loads (Inr v) \<Longrightarrow> v \<noteq> Null"
  shows "ch_loads s = 1 \<and> (\<exists>v e. ch_value s = Some (v, e) \<and> v \<noteq> Null \<and> t0 + 300000 \<le> e)"
proof -
  have "flight_inv t0 s" by (rule flight_run [OF assms(1)]) (use assms(4,5) in auto)
  with assms(3) have ok: "loads_ok s" "values_ok t0 s" by (simp_all add: flight_inv_def)
  have "load_counted s" by (rule cache_run_inv [OF assms(1) _ load_counted_step]) (simp add: load_counted_def cold_def)
  moreover have "has_load (ch_procs s 0)" using assms(2) by (auto simp: all_returned_def)
  ultimately have "0 < ch_loads s" by (auto simp: load_counted_def)
  with ok(1) have one: "ch_loads s = 1" by (simp add: loads_ok_def)
  have "\<not> loading (ch_procs s p)" for p
    using assms(2) by (cases "p < Suc n") (auto simp: all_returned_def)
  with ok(1) one have "ch_value s \<noteq> None" by (simp add: loads_ok_def)
  moreover have "long_lived t0 s"
    by (rule cache_run_inv [OF assms(1) _ long_lived_step]) (simp add: long_lived_def cold_def)
  ultimately show ?thesis using one ok(2) by (auto simp: long_lived_def values_ok_def)
qed

text \<open>The loop: while the value lives, every call finds it.\<close>

definition idle :: "pc \<Rightarrow> bool" where
  "idle c \<longleftrightarrow> c = Absent \<or> c = CheckCache \<or> (\<exists>r. c = Finished r)"

definition warm :: "int \<Rightarrow> cache_state \<Rightarrow> bool" where
  "warm t0 s \<longleftrightarrow> (ch_now s < t0 + 300000 \<longrightarrow> ch_loads s = 0 \<and> (\<forall>p. idle (ch_procs s p)) \<and>
     (\<exists>v e. ch_value s = Some (v, e) \<and> v \<noteq> Null \<and> t0 + 300000 \<le> e))"

lemma idle_simps [simp]:
  "idle Absent" "idle CheckCache" "idle (Finished r)" "\<not> idle AcquireLock" "\<not> idle (SecondCheck t)" "\<not> idle (Loading t)"
  "\<not> idle (Storing t v)" "\<not> idle (Releasing t r)" "\<not> idle (WaitLock n w)" "\<not> idle FallbackLoading"
  "\<not> idle (FallbackStoring v)" "\<not> idle Crashed"
  by (simp_all add: idle_def)

lemma warm_step:
  assumes "cache_step False loads l s s'" and "warm t0 s"
  shows "warm t0 s'"
proof -
  have "ch_loads s' = 0 \<and> (\<forall>p. idle (ch_procs s' p)) \<and> ch_value s' = ch_value s" if "ch_now s' < t0 + 300000"
  proof -
    from that cache_step_now [OF assms(1)] have now: "ch_now s < t0 + 300000" by simp
    with assms(2) obtain v e where w: "ch_loads s = 0" "\<forall>p. idle (ch_procs s p)" "ch_value s = Some (v, e)" "v \<noteq> Null" "t0 + 300000 \<le> e"
      by (auto simp: warm_def)
    have hit: "getCachedJson s = Some v" using w now by (simp add: getCachedJson_Some)
    have "idle (ch_procs s p)" for p using w(2) by blast
    then have no: "ch_procs s p \<noteq> c" if "\<not> idle c" for p c using that by metis
    from assms(1) show ?thesis
      by (cases rule: cache_step.cases) (use w hit no in \<open>auto split: if_splits\<close>)
  qed
  then show ?thesis using assms(2) cache_step_now [OF assms(1)] by (auto simp: warm_def)
qed

lemma warm_call:
  assumes "getProductSummaryCached d i False st ls st1" and "warm t0 (st (product_key i))"
  shows "warm t0 (st1 (product_key i))"
proof -
  from assms(1) have "cache_run False (product_loads d i) (st (product_key i)) ls (st1 (product_key i))"
    by (simp add: getProductSummaryCached_def)
  then show ?thesis using assms(2) by (rule cache_run_inv) (rule warm_step)
qed

lemma warm_reads_loads:
  assumes "warm_reads False d i p n st st' e" and "warm t0 (st (product_key i))"
  shows "warm t0 (st' (product_key i))"
  using assms by (induction rule: warm_reads.induct) (auto dest: warm_call)

section \<open>The property\<close>

lemma active_product_found:
  assumes "fst (active_product d) = Inr i"
  obtains r where "r \<in> set (products d)" and "p_id r = i"
proof (cases "sort_key p_id (filter p_is_active (products d))")
  case (Cons r rs)
  then have "r \<in> set (sort_key p_id (filter p_is_active (products d)))" by simp
  then have "r \<in> set (products d)" by simp
  moreover have "p_id r = i"
    using assms Cons by (simp add: active_product_def cmd_bind_run cmd_simps first_by_def)
  ultimately show ?thesis by (rule that)
qed (use assms in \<open>simp add: active_product_def cmd_bind_run cmd_simps first_by_def\<close>)

lemma product_loads_sound:
  assumes "fst (active_product d) = Inr i" and "distinct (map p_id (products d))" and "\<forall>r \<in> set (products d). int8 (p_id r)"
  shows "\<not> product_loads d i (Inl e)" and "product_loads d i (Inr v) \<Longrightarrow> v \<noteq> Null"
proof -
  obtain r where "r \<in> set (products d)" "p_id r = i" using active_product_found [OF assms(1)] .
  with product_loads_found [OF assms(2), of r] assms(3)
  show "\<not> product_loads d i (Inl e)" "product_loads d i (Inr v) \<Longrightarrow> v \<noteq> Null" by (auto simp: summary_json_def)
qed

text \<open>C36: without faults, if the concurrent calls end within the five seconds the lock lives and the loop
  within the five minutes the value lives at least, the 25 concurrent calls make one database
  call and the 100 that follow none, whatever their interleaving: whether the demonstration
  passes depends on the configuration of Redis and on five distinct draws only.\<close>
theorem cache_demo_passes:
  assumes "cache_demo False d policyResult maxmemoryResult t draw u1 u2 (Inr rep)"
    and "u1 < t (2 * WARM_KEYS) + LOCK_TTL_MS" and "u2 < t (2 * WARM_KEYS) + 300000"
    and "distinct (map p_id (products d))" and "\<forall>r \<in> set (products d). int8 (p_id r)"
    and "\<forall>i < WARM_KEYS. draw i < 2 ^ 53 \<and> t (2 * i) \<le> t (2 * i + 1) \<and> t (2 * i + 1) \<le> t (2 * i) + 500"
  shows "cr_dbCalls rep = 1 \<and> cr_dbCallsWarm rep = 0 \<and>
    (cache_passed rep \<longleftrightarrow> cr_cacheLru rep = 1 \<and> cr_cacheMaxmemory rep = 1 \<and>
       5 \<le> length (remdups (map (\<lambda>i. getCacheTtlSeconds (draw i)) [0..<WARM_KEYS])))"
proof -
  from assms(1) have "cr_dbCalls rep = 1 \<and> cr_dbCallsWarm rep = 0 \<and> cr_ttlDistinct rep = length (remdups (warm_ttls t draw))"
  proof cases
    case (Reports i ls st1 st2)
    note loads = product_loads_sound [OF Reports(2) assms(4,5)]
    have run: "cache_run False (product_loads d i) (cold (t (2 * WARM_KEYS))) ls (st1 (product_key i))"
      using Reports(3) by (simp add: getProductSummaryCached_def)
    have "all_returned (Suc 24) (st1 (product_key i))" using Reports(4) by (simp add: CONCURRENT_REQUESTS_def)
    from concurrent_calls [OF run this] assms(2) Reports(6) loads
    have one: "ch_loads (st1 (product_key i)) = 1"
        "\<exists>v e. ch_value (st1 (product_key i)) = Some (v, e) \<and> v \<noteq> Null \<and> t (2 * WARM_KEYS) + 300000 \<le> e" by auto
    have "idle (ch_procs (st1 (product_key i)) p)" for p
      using Reports(4) by (cases "p < CONCURRENT_REQUESTS") (auto simp: all_returned_def)
    with one(2) have "warm (t (2 * WARM_KEYS)) (reset_loads (product_key i) st1 (product_key i))"
      by (simp add: warm_def reset_loads_def)
    from warm_reads_loads [OF Reports(5) this] assms(3) Reports(7) one(1) show ?thesis
      unfolding Reports(1) by (simp add: warm_def)
  qed
  with warm_ttls_eq [OF assms(6)] show ?thesis
    by (simp add: cache_passed_def WARM_KEYS_def CONCURRENT_REQUESTS_def)
qed

text \<open>A run for the example: one call loads, the others find its value.\<close>

lemma cache_run_append:
  "cache_run faults loads s ls s1 \<Longrightarrow> cache_run faults loads s1 ks s2 \<Longrightarrow> cache_run faults loads s (ls @ ks) s2"
  by (induction rule: cache_run.induct) (auto intro: cache_run.intros)

definition served :: "jsval \<Rightarrow> nat \<Rightarrow> nat \<Rightarrow> cache_state" where
  "served v n m = \<lparr>ch_now = 0, ch_value = Some (v, 300000), ch_lock = None,
     ch_procs = (\<lambda>p. if p < m then Finished (Inr v) else Absent), ch_loads = n\<rparr>"

lemma served_next:
  assumes "v \<noteq> Null"
  shows "cache_run faults loads (served v n m) [Some m, Some m] (served v n (Suc m))"
proof -
  let ?s = "goto m CheckCache (served v n m)"
  have 1: "cache_step faults loads (Some m) (served v n m) ?s" by (rule Arrive) (simp add: served_def)
  have 2: "cache_step faults loads (Some m) ?s (goto m (Finished (Inr v)) ?s)"
    by (rule Hit) (simp_all add: getCachedJson_def served_def assms)
  have 3: "goto m (Finished (Inr v)) ?s = served v n (Suc m)"
    by (simp add: goto_def served_def fun_eq_iff less_Suc_eq)
  show ?thesis using Go [OF 1 Go [OF 2 Stop]] by (simp add: 3)
qed

lemma served_many:
  assumes "v \<noteq> Null"
  shows "\<exists>ls. cache_run faults loads (served v n m) ls (served v n (m + k))"
proof (induction k)
  case (Suc k)
  then obtain ls where "cache_run faults loads (served v n m) ls (served v n (m + k))" by blast
  from cache_run_append [OF this served_next [OF assms]] show ?case by auto
qed (auto intro: cache_run.Stop)

lemma served_reads:
  assumes "v \<noteq> Null"
  shows "warm_reads faults d i m k (st(product_key i := served v n m)) (st(product_key i := served v n (m + k))) None"
proof (induction k arbitrary: m)
  case (Suc k)
  have "warm_reads faults d i m (Suc k) (st(product_key i := served v n m)) (st(product_key i := served v n (Suc m + k))) None"
  proof (rule ReadNext)
    show "getProductSummaryCached d i faults (st(product_key i := served v n m)) [Some m, Some m]
        (st(product_key i := served v n (Suc m)))"
      using served_next [OF assms] by (simp add: getProductSummaryCached_def)
    show "ch_procs ((st(product_key i := served v n (Suc m))) (product_key i)) m = Finished (Inr v)"
      by (simp add: served_def)
  qed (simp, rule Suc)
  then show ?case by (simp only: add_Suc add_Suc_right)
qed (simp add: ReadsDone)

lemma served_first:
  assumes "loads (Inr v)" and "v \<noteq> Null"
  shows "\<exists>ls. cache_run False loads (cold 0) ls (served v 1 25)"
proof -
  have "cache_run False loads (cold 0) sample_labels (served v 1 1)"
  proof -
    have "\<lparr>ch_now = 0, ch_value = Some (v, 0 + 300000), ch_lock = None,
      ch_procs = (\<lambda>_. Absent)(0 := Finished (Inr v)), ch_loads = 1\<rparr> = served v 1 1"
      by (simp add: served_def fun_eq_iff)
    with sample_run [of loads v False 0] assms(1) show ?thesis by simp
  qed
  moreover obtain ls where "cache_run False loads (served v 1 1) ls (served v 1 (1 + 24))"
    using served_many [OF assms(2)] by blast
  then have "cache_run False loads (served v 1 1) ls (served v 1 25)" by simp
  ultimately show ?thesis using cache_run_append by blast
qed

definition warm_sample :: db where
  "warm_sample = empty_db\<lparr>products := [sample_product]\<rparr>"

definition sample_draw :: "nat \<Rightarrow> nat" where
  "sample_draw i = i * 2 ^ 46"

lemma warm_sample_run:
  "\<exists>rep. cache_demo False warm_sample (Some [''maxmemory-policy'', ''allkeys-lru'']) (Some [''maxmemory'', ''1024''])
     (\<lambda>_. 0) sample_draw 0 0 (Inr rep) \<and> cr_cacheLru rep = 1 \<and> cr_cacheMaxmemory rep = 1"
proof -
  let ?v = "summary_json \<lparr>ps_id = 7, ps_name = ''pen'', ps_price = 120, ps_stockQuantity = 3\<rparr>"
  let ?k = "product_key 7" and ?t = "\<lambda>_. 0 :: int"
  have p: "fst (active_product warm_sample) = Inr 7"
    by (simp add: active_product_def cmd_bind_run cmd_simps first_by_def sample_product_def warm_sample_def)
  have d: "distinct (map p_id (products warm_sample))" "sample_product \<in> set (products warm_sample)" "int8 (p_id sample_product)"
    by (simp_all add: sample_product_def int8_def warm_sample_def)
  have "product_loads warm_sample 7 (Inr ?v)" using product_loads_found [OF d] by (simp add: sample_product_def)
  moreover have null: "?v \<noteq> Null" by (simp add: summary_json_def)
  ultimately obtain ls where "cache_run False (product_loads warm_sample 7) (cold 0) ls (served ?v 1 25)"
    using served_first by blast
  then have run: "getProductSummaryCached warm_sample 7 False (\<lambda>_. cold (?t (2 * WARM_KEYS))) ls ((\<lambda>_. cold 0)(?k := served ?v 1 25))"
    by (simp add: getProductSummaryCached_def)
  have all: "all_returned CONCURRENT_REQUESTS (((\<lambda>_. cold 0)(?k := served ?v 1 25)) ?k)"
    by (simp add: all_returned_def CONCURRENT_REQUESTS_def served_def)
  have reset: "reset_loads ?k ((\<lambda>_. cold 0)(?k := served ?v 1 25)) = (\<lambda>_. cold 0)(?k := served ?v 0 25)"
    by (simp add: reset_loads_def served_def)
  have sum: "25 + 100 = (125 :: nat)" by simp
  from served_reads [OF null, of False warm_sample 7 25 100 "\<lambda>_. cold 0" 0]
  have reads: "warm_reads False warm_sample 7 CONCURRENT_REQUESTS WARM_READS (reset_loads ?k ((\<lambda>_. cold 0)(?k := served ?v 1 25)))
      ((\<lambda>_. cold 0)(?k := served ?v 0 125)) None"
    unfolding reset CONCURRENT_REQUESTS_def WARM_READS_def by (simp only: sum)
  have ends: "0 = ch_now (((\<lambda>_. cold 0)(?k := served ?v 1 25)) ?k)" "0 = ch_now (((\<lambda>_. cold 0)(?k := served ?v 0 125)) ?k)"
    by (simp_all add: served_def)
  have "positive_number (number_of_string ''1024'')" by code_simp
  then show ?thesis
    using cache_demo.Reports [OF p run all reads ends, of "Some [''maxmemory-policy'', ''allkeys-lru'']" "Some [''maxmemory'', ''1024'']"
        sample_draw]
    by (intro exI conjI) (assumption, simp_all add: config_value_def)
qed

lemma sample_draw_ttl: "getCacheTtlSeconds (sample_draw i) = 300 + int i * 61 div 128"
proof -
  have "int (sample_draw i) * 61 div 2 ^ 53 = (2 ^ 46 * (int i * 61)) div (2 ^ 46 * 2 ^ 7)"
    by (simp add: sample_draw_def)
  also have "\<dots> = int i * 61 div 2 ^ 7" by (rule div_mult_mult1) simp
  finally show ?thesis by (simp add: getCacheTtlSeconds_def cache_constants)
qed

lemma cache_demo_passes_witness:
  "\<exists>rep. cache_demo False warm_sample (Some [''maxmemory-policy'', ''allkeys-lru'']) (Some [''maxmemory'', ''1024''])
     (\<lambda>_. 0) sample_draw 0 0 (Inr rep) \<and> cache_passed rep"
proof -
  obtain rep where r: "cache_demo False warm_sample (Some [''maxmemory-policy'', ''allkeys-lru'']) (Some [''maxmemory'', ''1024''])
     (\<lambda>_. 0) sample_draw 0 0 (Inr rep)" "cr_cacheLru rep = 1" "cr_cacheMaxmemory rep = 1"
    using warm_sample_run by blast
  have "\<forall>i < WARM_KEYS. sample_draw i < 2 ^ 53" by (simp add: WARM_KEYS_def sample_draw_def)
  with cache_demo_passes [OF r(1)] have "cache_passed rep \<longleftrightarrow> cr_cacheLru rep = 1 \<and> cr_cacheMaxmemory rep = 1 \<and>
       5 \<le> length (remdups (map (\<lambda>i. getCacheTtlSeconds (sample_draw i)) [0..<WARM_KEYS]))"
    by (simp add: LOCK_TTL_MS_def sample_product_def warm_sample_def int8_def)
  moreover have "5 \<le> length (remdups (map (\<lambda>i. 300 + int i * 61 div 128) [0..<WARM_KEYS]))" by code_simp
  then have "5 \<le> length (remdups (map (\<lambda>i. getCacheTtlSeconds (sample_draw i)) [0..<WARM_KEYS]))"
    by (simp only: sample_draw_ttl)
  ultimately show ?thesis using r by blast
qed

end
