(* ===== verification/Json.thy ===== *)
theory Json
  imports Support "HOL-Library.AList"
begin

text \<open>
  \<open>JSON.stringify\<close>, \<open>JSON.parse\<close>, UTF-8 and base64url, with which the program turns events,
  cached values and tokens into text and bytes and back (\<open>outbox/outbox.repository.ts\<close>,
  \<open>rabbitmq/order-placed.publisher.ts\<close>, \<open>rabbitmq/order-placed.consumer.ts\<close>, \<open>redis\<close>,
  \<open>demo-rbac.ts\<close>). Bytes are characters here, as code units are in \<open>Js\<close>; a text with code
  units beyond 255 is outside the model and reads as a failure.
\<close>

section \<open>\<open>JSON.stringify\<close>\<close>

definition dquote :: char where "dquote = CHR 0x22"
definition backslash :: char where "backslash = CHR 0x5C"

definition json_escape :: "char \<Rightarrow> string" where
  "json_escape c = (let n = (of_char c :: nat) in
     if c = dquote \<or> c = backslash then [backslash, c]
     else if n = 8 then [backslash, CHR ''b''] else if n = 9 then [backslash, CHR ''t'']
     else if n = 10 then [backslash, CHR ''n''] else if n = 12 then [backslash, CHR ''f'']
     else if n = 13 then [backslash, CHR ''r'']
     else if n < 32 then [backslash, CHR ''u'', CHR ''0'', CHR ''0'', hex_char (n div 16), hex_char (n mod 16)]
     else [c])"

definition json_string :: "string \<Rightarrow> string" where
  "json_string s = [dquote] @ concat (map json_escape s) @ [dquote]"

text \<open>A finite number that is no integer is written in full; \<open>undefined\<close> is left out of objects.\<close>

definition json_number :: "jsnum \<Rightarrow> string" where
  "json_number n = (case n of
       IntN i \<Rightarrow> show_int i
     | FracN m k \<Rightarrow> (if m < 0 then ''-'' else []) @ show_nat (nat \<bar>m\<bar> div 10 ^ k) @ ''.'' @
         (let f = show_nat (nat \<bar>m\<bar> mod 10 ^ k) in replicate (k - length f) CHR ''0'' @ f)
     | _ \<Rightarrow> ''null'')"

fun json_text :: "jsval \<Rightarrow> string" where
  "json_text Undefined = ''null''"
| "json_text Null = ''null''"
| "json_text (Bool b) = (if b then ''true'' else ''false'')"
| "json_text (Num n) = json_number n"
| "json_text (Str s) = json_string s"
| "json_text (Arr vs) = ''['' @ js_join '','' (map json_text vs) @ '']''"
| "json_text (Obj fs) = ''{'' @ js_join '',''
     (concat (map (\<lambda>(k, v). if v = Undefined then [] else [json_string k @ '':'' @ json_text v]) fs)) @ ''}''"

section \<open>\<open>JSON.parse\<close>\<close>

definition json_space :: "char \<Rightarrow> bool" where
  "json_space c \<longleftrightarrow> (of_char c :: nat) \<in> {9, 10, 13, 32}"

definition json_ws :: "string \<Rightarrow> string" where
  "json_ws = dropWhile json_space"

text \<open>What follows a backslash.\<close>

definition json_unescape :: "string \<Rightarrow> (char \<times> string) option" where
  "json_unescape s = (case s of
       [] \<Rightarrow> None
     | e # es \<Rightarrow>
         if e = dquote \<or> e = backslash \<or> e = CHR ''/'' then Some (e, es)
         else if e = CHR ''b'' then Some (char_of (8 :: nat), es)
         else if e = CHR ''t'' then Some (char_of (9 :: nat), es)
         else if e = CHR ''n'' then Some (char_of (10 :: nat), es)
         else if e = CHR ''f'' then Some (char_of (12 :: nat), es)
         else if e = CHR ''r'' then Some (char_of (13 :: nat), es)
         else if e = CHR ''u'' then
           (case es of a # b # x # y # r \<Rightarrow>
              (case (radix_digit a, radix_digit b, radix_digit x, radix_digit y) of
                 (Some 0, Some 0, Some h, Some l) \<Rightarrow> Some (char_of (16 * h + l), r)
               | _ \<Rightarrow> None)
            | _ \<Rightarrow> None)
         else None)"

lemma json_unescape_shorter: "json_unescape s = Some (c, r) \<Longrightarrow> length r < length s"
  by (auto simp: json_unescape_def split: list.splits if_splits option.splits nat.splits)

text \<open>The rest of a string literal after its opening quote.\<close>

function parse_string :: "string \<Rightarrow> (string \<times> string) option" where
  "parse_string [] = None"
| "parse_string (c # cs) =
     (if c = dquote then Some ([], cs)
      else if (of_char c :: nat) < 32 then None
      else if c = backslash then
        (case json_unescape cs of
           None \<Rightarrow> None
         | Some (u, r) \<Rightarrow> map_option (apfst ((#) u)) (parse_string r))
      else map_option (apfst ((#) c)) (parse_string cs))"
  by pat_completeness auto
termination
  by (relation "measure length") (auto dest: json_unescape_shorter)

text \<open>
  A number: an optional minus, digits without a leading zero, a fraction and an exponent. Each
  scanner splits off what belongs to it.
\<close>

definition scan_minus :: "string \<Rightarrow> string \<times> string" where
  "scan_minus s = (case s of c # cs \<Rightarrow> if c = CHR ''-'' then ([c], cs) else ([], s) | [] \<Rightarrow> ([], []))"

definition scan_digits :: "string \<Rightarrow> string \<times> string" where
  "scan_digits s = (takeWhile is_digit s, dropWhile is_digit s)"

definition scan_fraction :: "string \<Rightarrow> string \<times> string" where
  "scan_fraction s = (case s of
       c # cs \<Rightarrow> if c = CHR ''.'' then apfst ((#) c) (scan_digits cs) else ([], s)
     | [] \<Rightarrow> ([], []))"

definition scan_sign :: "string \<Rightarrow> string \<times> string" where
  "scan_sign s = (case s of c # cs \<Rightarrow> if c = CHR ''-'' \<or> c = CHR ''+'' then ([c], cs) else ([], s) | [] \<Rightarrow> ([], []))"

definition scan_exponent :: "string \<Rightarrow> string \<times> string" where
  "scan_exponent s = (case s of
       c # cs \<Rightarrow> if c = CHR ''e'' \<or> c = CHR ''E''
         then (let (sg, r) = scan_sign cs; (ds, r') = scan_digits r in (c # sg @ ds, r')) else ([], s)
     | [] \<Rightarrow> ([], []))"

definition parse_number :: "string \<Rightarrow> (jsval \<times> string) option" where
  "parse_number s =
     (let (sign, r0) = scan_minus s; (ip, r1) = scan_digits r0; (fp, r2) = scan_fraction r1;
          (ep, r3) = scan_exponent r2
      in if ip = [] \<or> (hd ip = CHR ''0'' \<and> tl ip \<noteq> []) \<or> fp = ''.'' \<or> (ep \<noteq> [] \<and> \<not> is_digit (last ep))
         then None
         else Some (Num (read_decimal (sign @ ip @ fp @ ep)), r3))"

definition parse_literal :: "string \<Rightarrow> (jsval \<times> string) option" where
  "parse_literal s =
     (if take 4 s = ''null'' then Some (Null, drop 4 s)
      else if take 4 s = ''true'' then Some (Bool True, drop 4 s)
      else if take 5 s = ''false'' then Some (Bool False, drop 5 s)
      else parse_number s)"

text \<open>A property that occurs twice has its last value and its first place.\<close>

definition json_object :: "(string \<times> jsval) list \<Rightarrow> jsval" where
  "json_object ms = Obj (foldl (\<lambda>fs (k, v). AList.update k v fs) [] ms)"

text \<open>
  The parser descends with fuel, of which twice the length of the text and two is enough
  (\<open>parse_fuel\<close> below). \<open>parse_elems\<close> and \<open>parse_members\<close> read the rest of a non-empty array or
  object.
\<close>

fun parse_value :: "nat \<Rightarrow> string \<Rightarrow> (jsval \<times> string) option"
  and parse_elems :: "nat \<Rightarrow> string \<Rightarrow> (jsval list \<times> string) option"
  and parse_members :: "nat \<Rightarrow> string \<Rightarrow> ((string \<times> jsval) list \<times> string) option"
where
  "parse_value 0 s = None"
| "parse_value (Suc n) s = (case json_ws s of
       [] \<Rightarrow> None
     | c # cs \<Rightarrow>
         if c = dquote then map_option (apfst Str) (parse_string cs)
         else if c = CHR ''['' then
           (case json_ws cs of
              [] \<Rightarrow> None
            | d # r \<Rightarrow> if d = CHR '']'' then Some (Arr [], r) else map_option (apfst Arr) (parse_elems n cs))
         else if c = CHR ''{'' then
           (case json_ws cs of
              [] \<Rightarrow> None
            | d # r \<Rightarrow> if d = CHR ''}'' then Some (Obj [], r) else map_option (apfst json_object) (parse_members n cs))
         else parse_literal (c # cs))"
| "parse_elems 0 s = None"
| "parse_elems (Suc n) s = (case parse_value n s of
       None \<Rightarrow> None
     | Some (v, r) \<Rightarrow>
         (case json_ws r of
            [] \<Rightarrow> None
          | c # cs \<Rightarrow> if c = CHR '','' then map_option (apfst ((#) v)) (parse_elems n cs)
                    else if c = CHR '']'' then Some ([v], cs) else None))"
| "parse_members 0 s = None"
| "parse_members (Suc n) s = (case json_ws s of
       [] \<Rightarrow> None
     | q # qs \<Rightarrow> if q \<noteq> dquote then None else
         (case parse_string qs of
            None \<Rightarrow> None
          | Some (k, r) \<Rightarrow>
              (case json_ws r of
                 [] \<Rightarrow> None
               | d # ds \<Rightarrow> if d \<noteq> CHR '':'' then None else
                   (case parse_value n ds of
                      None \<Rightarrow> None
                    | Some (v, r2) \<Rightarrow>
                        (case json_ws r2 of
                           [] \<Rightarrow> None
                         | c # cs \<Rightarrow> if c = CHR '','' then map_option (apfst ((#) (k, v))) (parse_members n cs)
                                   else if c = CHR ''}'' then Some ([(k, v)], cs) else None)))))"

definition json_parse :: "string \<Rightarrow> jsval option" where
  "json_parse s = (case parse_value (2 * length s + 2) s of
       Some (v, r) \<Rightarrow> if json_ws r = [] then Some v else None
     | None \<Rightarrow> None)"

declare parse_value.simps(2) [simp del] parse_elems.simps(2) [simp del] parse_members.simps(2) [simp del]

section \<open>Enough fuel\<close>

lemma parse_string_shorter: "parse_string s = Some (t, r) \<Longrightarrow> length r < length s"
proof (induction s arbitrary: t r rule: parse_string.induct)
  case (2 c cs)
  then show ?case
    by (fastforce split: if_splits option.splits dest: json_unescape_shorter)
qed simp

lemma scan_append:
  "fst (scan_minus s) @ snd (scan_minus s) = s" "fst (scan_digits s) @ snd (scan_digits s) = s"
  "fst (scan_fraction s) @ snd (scan_fraction s) = s" "fst (scan_sign s) @ snd (scan_sign s) = s"
  by (simp_all add: scan_minus_def scan_digits_def scan_fraction_def scan_sign_def split: list.split)

lemma scan_exponent_append: "fst (scan_exponent s) @ snd (scan_exponent s) = s"
proof (cases s)
  case (Cons c cs)
  have "fst (scan_sign cs) @ fst (scan_digits (snd (scan_sign cs))) @ snd (scan_digits (snd (scan_sign cs))) = cs"
    by (simp add: scan_append)
  with Cons show ?thesis by (simp add: scan_exponent_def Let_def case_prod_beta)
qed (simp add: scan_exponent_def)

lemma parse_number_shorter:
  assumes "parse_number s = Some (v, r)" shows "length r < length s"
proof -
  let ?r0 = "snd (scan_minus s)"
  let ?r1 = "snd (scan_digits ?r0)"
  let ?r2 = "snd (scan_fraction ?r1)"
  have "fst (scan_digits ?r0) \<noteq> []" and r: "r = snd (scan_exponent ?r2)"
    using assms by (auto simp: parse_number_def Let_def case_prod_beta split: if_splits)
  moreover have "length s = length (fst (scan_minus s)) + length ?r0" "length ?r0 = length (fst (scan_digits ?r0)) + length ?r1"
    "length ?r1 = length (fst (scan_fraction ?r1)) + length ?r2" "length ?r2 = length (fst (scan_exponent ?r2)) + length (snd (scan_exponent ?r2))"
    by (metis length_append scan_append scan_exponent_append)+
  ultimately show ?thesis by (cases "fst (scan_digits ?r0)") auto
qed

lemma parse_literal_shorter: "parse_literal s = Some (v, r) \<Longrightarrow> s \<noteq> [] \<Longrightarrow> length r < length s"
  by (cases s) (auto simp: parse_literal_def less_Suc_eq_le split: if_splits dest: parse_number_shorter)

lemma ws_Cons: "json_ws s = c # cs \<Longrightarrow> length cs < length s"
  using length_dropWhile_le [of json_space s] by (simp add: json_ws_def)

lemma parse_shorter:
  "parse_value n s = Some (v, r) \<Longrightarrow> length r < length s"
  "parse_elems n s = Some (vs, r) \<Longrightarrow> length r < length s"
  "parse_members n s = Some (ms, r) \<Longrightarrow> length r < length s"
proof (induction n s and n s and n s arbitrary: v r and vs r and ms r
    rule: parse_value_parse_elems_parse_members.induct)
  case (2 n s)
  then obtain c cs where ws: "json_ws s = c # cs"
    by (cases "json_ws s") (auto simp: parse_value.simps(2))
  have lt: "length cs < length s" by (rule ws_Cons [OF ws])
  note 2 = 2 [unfolded parse_value.simps(2) ws list.case]
  consider (str) "c = dquote" | (arr) "c = CHR ''[''" "c \<noteq> dquote" | (obj) "c = CHR ''{''" "c \<noteq> dquote"
    | (lit) "c \<noteq> dquote" "c \<noteq> CHR ''[''" "c \<noteq> CHR ''{''" by blast
  then show ?case
  proof cases
    case str
    with 2(3) lt show ?thesis by (auto dest!: parse_string_shorter)
  next
    case arr
    with 2(3) obtain d r1 where d: "json_ws cs = d # r1" by (cases "json_ws cs") auto
    have "length r1 < length cs" by (rule ws_Cons [OF d])
    with 2(1) [OF refl arr(2,1) d] 2(3) arr d lt show ?thesis by (fastforce split: if_splits)
  next
    case obj
    with 2(3) obtain d r1 where d: "json_ws cs = d # r1" by (cases "json_ws cs") auto
    have "length r1 < length cs" by (rule ws_Cons [OF d])
    with 2(2) [OF refl obj(2) _ obj(1) d] 2(3) obj d lt show ?thesis by (fastforce split: if_splits)
  next
    case lit
    with 2(3) have "parse_literal (c # cs) = Some (v, r)" by simp
    with lt show ?thesis using parse_literal_shorter [of "c # cs" v r] by simp
  qed
next
  case (4 n s)
  then obtain v' r' where v: "parse_value n s = Some (v', r')"
    by (cases "parse_value n s") (auto simp: parse_elems.simps(2))
  with 4(3) obtain c cs where ws: "json_ws r' = c # cs" by (cases "json_ws r'") (auto simp: parse_elems.simps(2))
  have lt: "length cs < length s" using 4(1) [OF v] ws_Cons [OF ws] by simp
  show ?case
  proof (cases "c = CHR '',''")
    case True
    with 4(3) v ws obtain us where "parse_elems n cs = Some (us, r)" by (auto simp: parse_elems.simps(2))
    with 4(2) [OF v refl ws True] lt show ?thesis by simp
  next
    case False
    with 4(3) v ws lt show ?thesis by (auto simp: parse_elems.simps(2) split: if_splits)
  qed
next
  case (6 n s)
  note P = 6(3) [unfolded parse_members.simps(2)]
  from P obtain q qs where q: "json_ws s = q # qs" "q = dquote" by (cases "json_ws s") (auto split: if_splits)
  with P obtain k r1 where k: "parse_string qs = Some (k, r1)" by (cases "parse_string qs") auto
  with q P obtain d ds where d: "json_ws r1 = d # ds" "d = CHR '':''" by (cases "json_ws r1") (auto split: if_splits)
  with q k P obtain u r2 where u: "parse_value n ds = Some (u, r2)" by (cases "parse_value n ds") auto
  with q k d P obtain c cs where c: "json_ws r2 = c # cs" by (cases "json_ws r2") auto
  have "length r2 < length ds" using 6(1) [OF q(1) _ k refl d(1) _ u] q(2) d(2) by simp
  then have lt: "length cs < length s"
    using ws_Cons [OF q(1)] ws_Cons [OF d(1)] ws_Cons [OF c] parse_string_shorter [OF k] by simp
  show ?case
  proof (cases "c = CHR '',''")
    case True
    with P q k d u c obtain us where "parse_members n cs = Some (us, r)" by auto
    with 6(2) [OF q(1) _ k refl d(1) _ u refl c True] q(2) d(2) lt show ?thesis by simp
  next
    case False
    with P q k d u c lt show ?thesis by (auto split: if_splits)
  qed
qed simp_all

lemma parse_fuel_step:
  "2 * length s + 1 \<le> n \<Longrightarrow> parse_value (Suc n) s = parse_value n s"
  "2 * length s + 2 \<le> n \<Longrightarrow> parse_elems (Suc n) s = parse_elems n s"
  "2 * length s + 2 \<le> n \<Longrightarrow> parse_members (Suc n) s = parse_members n s"
proof (induction n arbitrary: s)
  case (Suc n)
  {
    case 1
    show ?case
    proof (cases "json_ws s")
      case (Cons c cs)
      have "parse_elems (Suc n) cs = parse_elems n cs" "parse_members (Suc n) cs = parse_members n cs"
        using ws_Cons [OF Cons] 1 by (intro Suc; simp)+
      with Cons show ?thesis by (cases "json_ws cs") (simp_all add: parse_value.simps(2))
    qed (simp add: parse_value.simps(2))
  next
    case 2
    then have v: "parse_value (Suc n) s = parse_value n s" by (intro Suc(1)) simp
    show ?case
    proof (cases "parse_value n s")
      case (Some x)
      obtain u r where x: "x = (u, r)" by (cases x)
      have "parse_elems (Suc n) cs = parse_elems n cs" if "json_ws r = c # cs" for c cs
        using 2 parse_shorter(1) [OF Some [unfolded x]] ws_Cons [OF that] by (intro Suc(2)) simp
      then show ?thesis
        unfolding parse_elems.simps(2) [of "Suc n"] parse_elems.simps(2) [of n] v Some x
        by (auto split: list.split)
    qed (simp add: v parse_elems.simps(2))
  next
    case 3
    note unf = parse_members.simps(2) [of "Suc n"] parse_members.simps(2) [of n]
    show ?case
    proof (cases "json_ws s")
      case q: (Cons q qs)
      show ?thesis
      proof (cases "parse_string qs")
        case k: (Some x)
        obtain key r where x: "x = (key, r)" by (cases x)
        show ?thesis
        proof (cases "json_ws r")
          case d: (Cons d ds)
          have le: "length ds < length s"
            using ws_Cons [OF q] parse_string_shorter [OF k [unfolded x]] ws_Cons [OF d] by simp
          with 3 have v: "parse_value (Suc n) ds = parse_value n ds" by (intro Suc(1)) simp
          show ?thesis
          proof (cases "parse_value n ds")
            case u: (Some y)
            obtain u r2 where y: "y = (u, r2)" by (cases y)
            show ?thesis
            proof (cases "json_ws r2")
              case c: (Cons c cs)
              have "length cs < length s" using le parse_shorter(1) [OF u [unfolded y]] ws_Cons [OF c] by simp
              with 3 have "parse_members (Suc n) cs = parse_members n cs" by (intro Suc(3)) simp
              then show ?thesis unfolding unf by (simp add: q k x d v u y c)
            qed (simp add: unf q k x d v u y)
          qed (simp add: unf q k x d v)
        qed (simp add: unf q k x)
      qed (simp add: unf q)
    qed (simp add: unf)
  }
qed simp_all

text \<open>So the result of \<open>json_parse\<close> does not depend on its fuel.\<close>

lemma parse_fuel: "parse_value (2 * length s + 2 + k) s = parse_value (2 * length s + 2) s"
  by (induction k) (simp_all add: parse_fuel_step(1))

section \<open>What was written is read\<close>

text \<open>Values without \<open>undefined\<close>, with integers for numbers and no property twice.\<close>

fun json_plain :: "jsval \<Rightarrow> bool" where
  "json_plain Undefined = False"
| "json_plain (Num n) = (case n of IntN _ \<Rightarrow> True | _ \<Rightarrow> False)"
| "json_plain (Arr vs) = list_all json_plain vs"
| "json_plain (Obj fs) = (distinct (map fst fs) \<and> list_all (\<lambda>(k, v). json_plain v) fs)"
| "json_plain _ = True"

lemma parse_escape: "parse_string (json_escape c @ t) = map_option (apfst ((#) c)) (parse_string t)"
proof -
  let ?n = "of_char c :: nat"
  have eq: "c = char_of k" if "?n = k" for k using that by (metis char_of_char)
  have lt: "?n div 16 < 16" "?n mod 16 < 16" by (simp_all add: div_less_iff_less_mult)
  have "of_char backslash = (92 :: nat)" "backslash \<noteq> dquote" "CHR ''u'' \<noteq> dquote" "CHR ''u'' \<noteq> backslash"
    by (simp_all add: backslash_def dquote_def)
  note special = this
  consider "c = dquote \<or> c = backslash" | "?n \<in> {8, 9, 10, 12, 13}" "c \<noteq> dquote" "c \<noteq> backslash"
    | "?n < 32" "?n \<notin> {8, 9, 10, 12, 13}" "c \<noteq> dquote" "c \<noteq> backslash" | "32 \<le> ?n" "c \<noteq> dquote" "c \<noteq> backslash"
    by linarith
  then show ?thesis
  proof cases
    case 1
    then show ?thesis using special by (auto simp: json_escape_def json_unescape_def)
  next
    case 2
    then show ?thesis using special
      by (auto simp: json_escape_def json_unescape_def dest!: eq) (auto simp: dquote_def backslash_def)
  next
    case 3
    have d0: "radix_digit CHR ''0'' = Some 0" by code_simp
    have "json_unescape (CHR ''u'' # CHR ''0'' # CHR ''0'' # hex_char (?n div 16) # hex_char (?n mod 16) # t) = Some (c, t)"
      using lt by (simp add: json_unescape_def special radix_hex_char d0)
    with 3 special show ?thesis by (simp add: json_escape_def Let_def)
  next
    case 4
    then show ?thesis by (simp add: json_escape_def)
  qed
qed

lemma parse_string_text: "parse_string (concat (map json_escape s) @ dquote # r) = Some (s, r)"
  by (induction s) (simp_all add: parse_escape)

lemma show_nat_head: "0 < n \<Longrightarrow> hd (show_nat n) \<noteq> CHR ''0''"
proof (induction n rule: show_nat.induct)
  case (1 n)
  show ?case
  proof (cases "n < 10")
    case True
    with 1(2) have "n \<in> set [1..<10]" by simp
    moreover have "\<forall>n \<in> set [1..<10]. digit_char n \<noteq> CHR ''0''" by code_simp
    ultimately have "digit_char n \<noteq> CHR ''0''" by blast
    with True show ?thesis by (subst show_nat.simps) simp
  next
    case False
    with 1 show ?thesis by (subst show_nat.simps) simp
  qed
qed

text \<open>What may follow a value inside an array or object, or at the end.\<close>

definition follows :: "string \<Rightarrow> bool" where
  "follows r \<longleftrightarrow> (case r of [] \<Rightarrow> True | c # _ \<Rightarrow> c = CHR '','' \<or> c = CHR '']'' \<or> c = CHR ''}'')"

lemma follows_scan:
  assumes "follows r"
  shows "takeWhile is_digit r = []" "dropWhile is_digit r = r" "scan_fraction r = ([], r)" "scan_exponent r = ([], r)"
proof -
  have "\<not> is_digit CHR '',''" "\<not> is_digit CHR '']''" "\<not> is_digit CHR ''}''" by code_simp+
  with assms show "takeWhile is_digit r = []" "dropWhile is_digit r = r" "scan_fraction r = ([], r)" "scan_exponent r = ([], r)"
    by (auto simp: follows_def scan_fraction_def scan_exponent_def split: list.splits)
qed

lemma scan_digits_show:
  assumes "follows r" shows "scan_digits (show_nat n @ r) = (show_nat n, r)"
  using show_nat_digits [of n] follows_scan(1,2) [OF assms]
  by (simp add: scan_digits_def takeWhile_append2 dropWhile_append2)

lemma show_nat_zero: "show_nat 0 = ''0''"
  by code_simp

lemma scan_minus_show: "scan_minus (show_nat n @ r) = ([], show_nat n @ r)"
proof -
  have "hd (show_nat n) \<in> set (show_nat n)" by simp
  with show_nat_digits [of n] have "is_digit (hd (show_nat n))" by blast
  moreover have "\<not> is_digit CHR ''-''" by code_simp
  ultimately show ?thesis by (cases "show_nat n") (auto simp: scan_minus_def)
qed

lemma parse_number_text:
  assumes "follows r" shows "parse_number (show_int i @ r) = Some (Num (IntN i), r)"
proof -
  have ok: "\<not> (show_nat n = [] \<or> hd (show_nat n) = CHR ''0'' \<and> tl (show_nat n) \<noteq> [])" for n
    using show_nat_head [of n] by (cases "n = 0") (simp_all add: show_nat_zero)
  show ?thesis
  proof (cases "i < 0")
    case True
    then have minus: "scan_minus (show_int i @ r) = (''-'', show_nat (nat (- i)) @ r)"
      by (simp add: show_int_def scan_minus_def)
    have "read_decimal (''-'' @ show_nat (nat (- i))) = IntN i"
      using read_decimal_show_int [of i] True by (simp add: show_int_def)
    with minus ok [of "nat (- i)"] show ?thesis
      by (simp add: parse_number_def scan_digits_show [OF assms] follows_scan(3,4) [OF assms])
  next
    case False
    then have "scan_minus (show_int i @ r) = ([], show_nat (nat i) @ r)"
      by (simp add: show_int_def scan_minus_show)
    moreover have "read_decimal (show_nat (nat i)) = IntN i"
      using read_decimal_show_int [of i] False by (simp add: show_int_def)
    ultimately show ?thesis
      using ok [of "nat i"] by (simp add: parse_number_def scan_digits_show [OF assms] follows_scan(3,4) [OF assms])
  qed
qed

text \<open>The first character of a text decides what is read.\<close>

lemma digit_plain:
  assumes "is_digit c"
  shows "\<not> json_space c" "c \<noteq> dquote" "c \<noteq> CHR ''[''" "c \<noteq> CHR '']''" "c \<noteq> CHR ''{''" "c \<noteq> CHR ''}''"
    "c \<noteq> CHR ''n''" "c \<noteq> CHR ''t''" "c \<noteq> CHR ''f''"
  using assms by (auto simp: is_digit_def digit_val_def json_space_def dquote_def Let_def split: if_splits)

lemma show_int_head:
  obtains c cs where "show_int i = c # cs" and "is_digit c \<or> c = CHR ''-''"
proof (cases "i < 0")
  case True
  then show ?thesis using that by (simp add: show_int_def)
next
  case False
  obtain c cs where c: "show_nat (nat i) = c # cs" by (meson list.exhaust show_nat_nonempty)
  with show_nat_digits [of "nat i"] False show ?thesis using that by (simp add: show_int_def)
qed

lemma json_text_head:
  assumes "json_plain v"
  obtains c cs where "json_text v = c # cs" "\<not> json_space c" "c \<noteq> CHR '']''"
proof -
  have space: "\<not> json_space c" if "c \<in> {dquote, CHR ''['', CHR ''{'', CHR ''n'', CHR ''t'', CHR ''f'', CHR ''-''}" for c
    using that by (auto simp: json_space_def dquote_def)
  show ?thesis
  proof (cases v)
    case (Num n)
    with assms obtain i where "n = IntN i" by (cases n) auto
    obtain c cs where "show_int i = c # cs" "is_digit c \<or> c = CHR ''-''" by (rule show_int_head)
    moreover from this have "\<not> json_space c" "c \<noteq> CHR '']''" using space [of "CHR ''-''"] digit_plain(1,4) by auto
    ultimately show ?thesis using Num \<open>n = IntN i\<close> that by (simp add: json_number_def)
  next
    case (Bool b)
    then show ?thesis using that space by (cases b) auto
  qed (use assms that space in \<open>auto simp: json_string_def dquote_def\<close>)
qed

lemma json_ws_head: "\<not> json_space c \<Longrightarrow> json_ws (c # cs) = c # cs"
  by (simp add: json_ws_def)

lemma separators: "\<not> json_space CHR '',''" "\<not> json_space CHR '']''" "\<not> json_space CHR ''}''" "\<not> json_space CHR '':''"
    "\<not> json_space CHR ''[''" "\<not> json_space CHR ''{''" "\<not> json_space dquote"
    "CHR ''['' \<noteq> dquote" "CHR ''{'' \<noteq> dquote" "CHR ''}'' \<noteq> dquote"
  by (simp_all add: json_space_def dquote_def)

definition reads_back :: "jsval \<Rightarrow> bool" where
  "reads_back v \<longleftrightarrow> json_plain v \<and>
     (\<forall>n r. 2 * length (json_text v) \<le> n \<longrightarrow> follows r \<longrightarrow> parse_value n (json_text v @ r) = Some (v, r))"

lemma elems_back:
  assumes "list_all reads_back vs" and "vs \<noteq> []" and "2 * length (js_join '','' (map json_text vs)) + 1 \<le> n"
  shows "parse_elems n (js_join '','' (map json_text vs) @ CHR '']'' # r) = Some (vs, r)"
  using assms
proof (induction vs arbitrary: n)
  case (Cons v vs)
  then obtain m where n: "n = Suc m" by (cases n) auto
  have v: "\<And>k t. 2 * length (json_text v) \<le> k \<Longrightarrow> follows t \<Longrightarrow> parse_value k (json_text v @ t) = Some (v, t)"
    using Cons.prems(1) by (simp add: reads_back_def)
  show ?case
  proof (cases vs)
    case Nil
    with Cons.prems(3) n v [of m "CHR '']'' # r"] show ?thesis
      by (simp add: parse_elems.simps(2) follows_def json_ws_head separators)
  next
    case (Cons w ws)
    let ?t = "js_join '','' (map json_text vs) @ CHR '']'' # r"
    have whole: "js_join '','' (map json_text (v # vs)) @ CHR '']'' # r = json_text v @ CHR '','' # ?t"
      by (simp add: Cons)
    have len: "length (js_join '','' (map json_text (v # vs))) = length (json_text v) + 1 + length (js_join '','' (map json_text vs))"
      by (simp add: Cons)
    have "parse_elems m ?t = Some (vs, r)"
      using Cons.prems(1,3) Cons len n by (intro Cons.IH) simp_all
    moreover have "parse_value m (json_text v @ CHR '','' # ?t) = Some (v, CHR '','' # ?t)"
      using Cons.prems(3) len n by (intro v) (simp_all add: follows_def)
    ultimately show ?thesis unfolding whole n by (simp add: parse_elems.simps(2) json_ws_head separators)
  qed
qed simp

definition json_member :: "string \<times> jsval \<Rightarrow> string" where
  "json_member = (\<lambda>(k, v). json_string k @ '':'' @ json_text v)"

lemma members_back:
  assumes "list_all (\<lambda>(k, v). reads_back v) fs" and "fs \<noteq> []" and "2 * length (js_join '','' (map json_member fs)) + 1 \<le> n"
  shows "parse_members n (js_join '','' (map json_member fs) @ CHR ''}'' # r) = Some (fs, r)"
  using assms
proof (induction fs arbitrary: n)
  case (Cons f fs)
  then obtain m where n: "n = Suc m" by (cases n) auto
  obtain k v where f: "f = (k, v)" by (cases f)
  have v: "\<And>n t. 2 * length (json_text v) \<le> n \<Longrightarrow> follows t \<Longrightarrow> parse_value n (json_text v @ t) = Some (v, t)"
    using Cons.prems(1) by (simp add: reads_back_def f)
  have key: "parse_string (concat (map json_escape k) @ dquote # t) = Some (k, t)" for t
    by (rule parse_string_text)
  show ?case
  proof (cases fs)
    case Nil
    with Cons.prems(3) n v [of m "CHR ''}'' # r"] show ?thesis
      by (simp add: f json_member_def json_string_def parse_members.simps(2) follows_def json_ws_head separators key)
  next
    case (Cons w ws)
    let ?t = "js_join '','' (map json_member fs) @ CHR ''}'' # r"
    have whole: "js_join '','' (map json_member (f # fs)) @ CHR ''}'' # r =
        dquote # concat (map json_escape k) @ dquote # CHR '':'' # json_text v @ CHR '','' # ?t"
      by (simp add: Cons f json_member_def json_string_def)
    have len: "length (js_join '','' (map json_member (f # fs))) = length (json_member f) + 1 + length (js_join '','' (map json_member fs))"
      by (simp add: Cons)
    have "length (json_text v) \<le> length (json_member f)" by (simp add: f json_member_def)
    then have "parse_value m (json_text v @ CHR '','' # ?t) = Some (v, CHR '','' # ?t)"
      using Cons.prems(3) len n by (intro v) (simp_all add: follows_def)
    moreover have "parse_members m ?t = Some (fs, r)"
      using Cons.prems(1,3) Cons len n by (intro Cons.IH) simp_all
    ultimately show ?thesis unfolding whole n
      by (simp add: parse_members.simps(2) json_ws_head separators key f)
  qed
qed simp

lemma json_text_Obj:
  assumes "list_all (\<lambda>(k, v). json_plain v) fs"
  shows "json_text (Obj fs) = ''{'' @ js_join '','' (map json_member fs) @ ''}''"
proof -
  have "concat (map (\<lambda>(k, v). if v = Undefined then [] else [json_string k @ '':'' @ json_text v]) fs) = map json_member fs"
    using assms by (induction fs) (auto simp: json_member_def)
  then show ?thesis by simp
qed

lemma json_object_distinct:
  assumes "distinct (map fst fs)" shows "json_object fs = Obj fs"
proof -
  have "foldl (\<lambda>fs (k, v). AList.update k v fs) gs fs = gs @ fs" if "distinct (map fst (gs @ fs))" for gs
    using that
  proof (induction fs arbitrary: gs)
    case (Cons f fs)
    obtain k v where f: "f = (k, v)" by (cases f)
    with Cons.prems have "k \<notin> fst ` set gs" by auto
    then have "AList.update k v gs = gs @ [(k, v)]" by (induction gs) auto
    with Cons.IH [of "gs @ [(k, v)]"] Cons.prems f show ?case by simp
  qed simp
  from this [of "[]"] assms show ?thesis by (simp add: json_object_def)
qed

lemma json_plain_cases:
  assumes "json_plain v"
  obtains "v = Null" | b where "v = Bool b" | i where "v = Num (IntN i)" | s where "v = Str s"
    | vs where "v = Arr vs" "list_all json_plain vs"
    | fs where "v = Obj fs" "distinct (map fst fs)" "list_all (\<lambda>(k, v). json_plain v) fs"
  using assms that by (cases v) (auto split: jsnum.splits)

lemma parse_literal_words:
  "parse_literal (''null'' @ r) = Some (Null, r)" "parse_literal (''true'' @ r) = Some (Bool True, r)"
  "parse_literal (''false'' @ r) = Some (Bool False, r)"
  by (simp_all add: parse_literal_def)

lemma parse_literal_number:
  assumes "follows r" shows "parse_literal (show_int i @ r) = Some (Num (IntN i), r)"
proof -
  obtain c cs where c: "show_int i = c # cs" "is_digit c \<or> c = CHR ''-''" by (rule show_int_head)
  then have "c \<noteq> CHR ''n''" "c \<noteq> CHR ''t''" "c \<noteq> CHR ''f''" using digit_plain(7-9) [of c] by auto
  with c(1) parse_number_text [OF assms, of i] show ?thesis by (simp add: parse_literal_def)
qed

lemma plain_reads_back: "json_plain v \<Longrightarrow> reads_back v"
proof (induction v)
  case Null
  have "\<not> json_space CHR ''n''" "CHR ''n'' \<noteq> dquote" by (simp_all add: json_space_def dquote_def)
  then have "parse_value n (''null'' @ r) = Some (Null, r)" if "8 \<le> n" for n r
    using that parse_literal_words(1) [of r] by (cases n) (simp_all add: parse_value.simps(2) json_ws_head)
  then show ?case by (simp add: reads_back_def)
next
  case (Bool b)
  have "\<not> json_space CHR ''t''" "CHR ''t'' \<noteq> dquote" "\<not> json_space CHR ''f''" "CHR ''f'' \<noteq> dquote"
    by (simp_all add: json_space_def dquote_def)
  then have "parse_value n (''true'' @ r) = Some (Bool True, r)" "parse_value n (''false'' @ r) = Some (Bool False, r)"
    if "8 \<le> n" for n r
    using that parse_literal_words(2,3) [of r] by (cases n; simp add: parse_value.simps(2) json_ws_head)+
  then show ?case by (cases b) (simp_all add: reads_back_def)
next
  case (Num x)
  then obtain i where x: "x = IntN i" by (cases x) auto
  obtain c cs where c: "show_int i = c # cs" "is_digit c \<or> c = CHR ''-''" by (rule show_int_head)
  have "\<not> json_space c" "c \<noteq> dquote" "c \<noteq> CHR ''[''" "c \<noteq> CHR ''{''"
    using c(2) digit_plain [of c] by (auto simp: json_space_def dquote_def)
  then have "parse_value n (show_int i @ r) = Some (Num (IntN i), r)" if "follows r" "2 * length (show_int i) \<le> n" for n r
    using that c parse_literal_number [OF that(1), of i]
    by (cases n) (simp_all add: parse_value.simps(2) json_ws_head)
  then show ?case by (simp add: reads_back_def x json_number_def)
next
  case (Str s)
  have "parse_value n (json_string s @ r) = Some (Str s, r)" if "2 * length (json_string s) \<le> n" for n r
    using that parse_string_text [of s r]
    by (cases n) (simp_all add: json_string_def parse_value.simps(2) json_ws_head separators)
  then show ?case by (simp add: reads_back_def)
next
  case (Arr vs)
  then have below: "list_all reads_back vs" by (simp add: list_all_iff)
  have "parse_value n (json_text (Arr vs) @ r) = Some (Arr vs, r)" if n: "2 * length (json_text (Arr vs)) \<le> n" for n r
  proof (cases vs)
    case Nil
    with n show ?thesis by (cases n) (simp_all add: parse_value.simps(2) json_ws_head separators)
  next
    case (Cons w ws)
    obtain m where m: "n = Suc m" using n by (cases n) auto
    have "json_plain w" using below Cons by (simp add: reads_back_def)
    then obtain c cs where c: "json_text w = c # cs" "\<not> json_space c" "c \<noteq> CHR '']''" by (rule json_text_head)
    then obtain t where t: "js_join '','' (map json_text vs) @ CHR '']'' # r = c # t"
      using Cons by (cases ws) simp_all
    have "parse_elems m (js_join '','' (map json_text vs) @ CHR '']'' # r) = Some (vs, r)"
      using n m Cons by (intro elems_back below) simp_all
    then show ?thesis using c t by (simp add: m parse_value.simps(2) json_ws_head separators)
  qed
  with Arr show ?case by (simp add: reads_back_def)
next
  case (Obj fs)
  then have plain: "list_all (\<lambda>(k, v). json_plain v) fs" "distinct (map fst fs)" by simp_all
  have below: "list_all (\<lambda>(k, v). reads_back v) fs"
    using Obj plain(1) by (fastforce simp: list_all_iff)
  have "parse_value n (json_text (Obj fs) @ r) = Some (Obj fs, r)" if n: "2 * length (json_text (Obj fs)) \<le> n" for n r
  proof (cases fs)
    case Nil
    with n show ?thesis by (cases n) (simp_all add: parse_value.simps(2) json_ws_head separators)
  next
    case (Cons w ws)
    obtain m where m: "n = Suc m" using n by (cases n) auto
    note whole = json_text_Obj [OF plain(1)]
    obtain t where t: "js_join '','' (map json_member fs) @ CHR ''}'' # r = dquote # t"
      using Cons by (cases w; cases ws) (simp_all add: json_member_def json_string_def)
    have "parse_members m (js_join '','' (map json_member fs) @ CHR ''}'' # r) = Some (fs, r)"
    proof (rule members_back [OF below])
      show "2 * length (js_join '','' (map json_member fs)) + 1 \<le> m" using n m unfolding whole by simp
    qed (simp add: Cons)
    then have "parse_members m (dquote # t) = Some (fs, r)" by (simp only: t)
    moreover have "json_text (Obj fs) @ r = CHR ''{'' # dquote # t" using t unfolding whole by simp
    ultimately show ?thesis using json_object_distinct [OF plain(2)]
      by (simp only: m) (simp add: parse_value.simps(2) json_ws_head separators separators(10) [THEN not_sym])
  qed
  with Obj show ?case by (simp add: reads_back_def)
qed simp

theorem json_roundtrip:
  assumes "json_plain v" shows "json_parse (json_text v) = Some v"
proof -
  have "parse_value (2 * length (json_text v) + 2) (json_text v @ []) = Some (v, [])"
    using plain_reads_back [OF assms] unfolding reads_back_def by (auto simp: follows_def simp del: append_Nil2)
  then show ?thesis by (simp add: json_parse_def json_ws_def)
qed

lemma json_text_inject: "json_plain v \<Longrightarrow> json_plain w \<Longrightarrow> json_text v = json_text w \<longleftrightarrow> v = w"
  by (metis json_roundtrip option.inject)

section \<open>UTF-8\<close>

text \<open>\<open>Buffer.from(s)\<close> and \<open>buffer.toString('utf8')\<close>.\<close>

definition utf8_unit :: "char \<Rightarrow> string" where
  "utf8_unit c = (let n = (of_char c :: nat) in if n < 128 then [c] else [char_of (192 + n div 64), char_of (128 + n mod 64)])"

definition utf8_bytes :: "string \<Rightarrow> string" where
  "utf8_bytes s = concat (map utf8_unit s)"

fun utf8_text :: "string \<Rightarrow> string option" where
  "utf8_text [] = Some []"
| "utf8_text (c # cs) =
     (let n = (of_char c :: nat) in
      if n < 128 then map_option ((#) c) (utf8_text cs)
      else (case cs of
          [] \<Rightarrow> None
        | d # ds \<Rightarrow>
            let m = (of_char d :: nat) in
            if (n = 194 \<or> n = 195) \<and> 128 \<le> m \<and> m < 192
            then map_option ((#) (char_of (64 * (n - 192) + (m - 128)))) (utf8_text ds) else None))"

lemma utf8_unit_back: "utf8_text (utf8_unit c @ t) = map_option ((#) c) (utf8_text t)"
proof (cases "of_char c < (128 :: nat)")
  case False
  define n where "n = (of_char c :: nat)"
  define k l where "k = n div 64" and "l = n mod 64"
  have n: "n = 64 * k + l" "l < 64" by (simp_all add: k_def l_def)
  have "n < 256" "128 \<le> n" using False by (simp_all add: n_def)
  with n have k: "k = 2 \<or> k = 3" by presburger
  have unit: "utf8_unit c = [char_of (192 + k), char_of (128 + l)]"
    using False by (simp add: utf8_unit_def Let_def n_def k_def l_def)
  have "of_char (char_of (128 + l) :: char) = 128 + l" using n(2) by simp
  moreover have "of_char (char_of (192 + k) :: char) = 192 + k" using k by auto
  moreover have "char_of (64 * k + l) = c" by (simp add: n(1) [symmetric] n_def)
  ultimately show ?thesis using k n(2) by (auto simp: unit)
qed (simp add: utf8_unit_def)

lemma utf8_roundtrip: "utf8_text (utf8_bytes s) = Some s"
  by (induction s) (simp_all add: utf8_bytes_def utf8_unit_back)

section \<open>Base64url\<close>

definition b64_char :: "nat \<Rightarrow> char" where
  "b64_char n = (if n < 26 then char_of (65 + n) else if n < 52 then char_of (71 + n)
     else if n < 62 then char_of (n - 4) else if n = 62 then CHR ''-'' else CHR ''_'')"

text \<open>The decoder takes both alphabets, skips other characters and stops at padding.\<close>

definition b64_val :: "char \<Rightarrow> nat option" where
  "b64_val c = (let n = (of_char c :: nat) in
     if 65 \<le> n \<and> n \<le> 90 then Some (n - 65) else if 97 \<le> n \<and> n \<le> 122 then Some (n - 71)
     else if 48 \<le> n \<and> n \<le> 57 then Some (n + 4) else if n = 45 \<or> n = 43 then Some 62
     else if n = 95 \<or> n = 47 then Some 63 else None)"

fun b64_sextets :: "nat list \<Rightarrow> nat list" where
  "b64_sextets (a # b # c # r) =
     (a div 4) # (a mod 4 * 16 + b div 16) # (b mod 16 * 4 + c div 64) # (c mod 64) # b64_sextets r"
| "b64_sextets [a, b] = [a div 4, (a mod 4) * 16 + b div 16, (b mod 16) * 4]"
| "b64_sextets [a] = [a div 4, (a mod 4) * 16]"
| "b64_sextets [] = []"

fun b64_octets :: "nat list \<Rightarrow> nat list" where
  "b64_octets (p # q # r # s # t) = (p * 4 + q div 16) # (q mod 16 * 16 + r div 4) # (r mod 4 * 64 + s) # b64_octets t"
| "b64_octets [p, q, r] = [p * 4 + q div 16, q mod 16 * 16 + r div 4]"
| "b64_octets [p, q] = [p * 4 + q div 16]"
| "b64_octets _ = []"

definition base64url :: "string \<Rightarrow> string" where
  "base64url bs = map b64_char (b64_sextets (map of_char bs))"

definition from_base64url :: "string \<Rightarrow> string" where
  "from_base64url s = map char_of (b64_octets (List.map_filter b64_val (takeWhile (\<lambda>c. c \<noteq> CHR ''='') s)))"

lemma b64_digit:
  assumes "n < 64" shows "b64_val (b64_char n) = Some n \<and> b64_char n \<noteq> CHR ''='' \<and> b64_char n \<noteq> CHR ''.''"
proof -
  have "b64_val (b64_char n) = Some n"
  proof (cases "n < 62")
    case True
    then show ?thesis by (auto simp: b64_char_def b64_val_def Let_def)
  next
    case False
    with assms have "n = 62 \<or> n = 63" by linarith
    then show ?thesis by (auto simp: b64_char_def b64_val_def)
  qed
  moreover have "b64_val CHR ''='' = None" "b64_val CHR ''.'' = None" by (simp_all add: b64_val_def)
  ultimately show ?thesis by (metis option.distinct(1))
qed

lemma sextet_bound: "\<forall>b \<in> set bs. b < 256 \<Longrightarrow> \<forall>x \<in> set (b64_sextets bs). x < 64"
proof (induction bs rule: b64_sextets.induct)
  case (1 a b c r)
  have "a div 4 < 64" "c mod 64 < 64" "b div 16 < 16" "c div 64 < 4" using 1(2) by (simp_all add: div_less_iff_less_mult)
  moreover have "a mod 4 \<le> 3" "b mod 16 \<le> 15" by simp_all
  ultimately show ?case using 1 by simp
next
  case (2 a b)
  have "a mod 4 \<le> 3" "b mod 16 \<le> 15" by simp_all
  moreover have "a div 4 < 64" "b div 16 < 16" using 2 by (simp_all add: div_less_iff_less_mult)
  ultimately show ?case by simp
next
  case (3 a)
  have "a mod 4 \<le> 3" by simp
  moreover have "a div 4 < 64" using 3 by (simp add: div_less_iff_less_mult)
  ultimately show ?case by simp
qed simp

lemma octets_sextets: "\<forall>b \<in> set bs. b < 256 \<Longrightarrow> b64_octets (b64_sextets bs) = bs"
proof (induction bs rule: b64_sextets.induct)
  case (1 a b c r)
  have "b div 16 < 16" "c div 64 < 4" using 1(2) by (simp_all add: div_less_iff_less_mult)
  moreover have "a div 4 * 4 + a mod 4 = a" "b div 16 * 16 + b mod 16 = b" "c div 64 * 64 + c mod 64 = c" by simp_all
  ultimately show ?case using 1 by simp
next
  case (2 a b)
  have "b div 16 < 16" using 2 by (simp add: div_less_iff_less_mult)
  then show ?case by simp
qed simp_all

lemma char_bytes: "\<forall>b \<in> set (map of_char s). b < (256 :: nat)"
  by simp

lemma base64url_chars: "c \<in> set (base64url bs) \<Longrightarrow> c \<noteq> CHR ''=''  \<and> c \<noteq> CHR ''.''"
  using sextet_bound [OF char_bytes [of bs]] b64_digit by (auto simp: base64url_def)

lemma base64url_roundtrip: "from_base64url (base64url bs) = bs"
proof -
  let ?xs = "b64_sextets (map of_char bs)"
  note b = sextet_bound [OF char_bytes [of bs]]
  have tw: "takeWhile (\<lambda>c. c \<noteq> CHR ''='') (base64url bs) = base64url bs"
    using base64url_chars by (simp add: takeWhile_eq_all_conv)
  have "List.map_filter b64_val (map b64_char xs) = xs" if "\<forall>x \<in> set xs. x < 64" for xs
    using that b64_digit by (induction xs) (simp_all add: List.map_filter_simps)
  then have "List.map_filter b64_val (base64url bs) = ?xs" using b by (simp add: base64url_def)
  then show ?thesis
    using octets_sextets [OF char_bytes [of bs]] unfolding from_base64url_def tw by (simp add: comp_def)
qed

lemma base64url_inject [simp]: "base64url a = base64url b \<longleftrightarrow> a = b"
  by (metis base64url_roundtrip)

lemma utf8_inject [simp]: "utf8_bytes a = utf8_bytes b \<longleftrightarrow> a = b"
  by (metis utf8_roundtrip option.inject)

end
