(* ===== verification/Wire.thy ===== *)
theory Wire
  imports Json Outbox
begin

text \<open>
  What lies between publisher and consumer: \<open>rabbitmq/order-placed.publisher.ts\<close> sends the
  UTF-8 bytes of the event's JSON text, and \<open>rabbitmq/order-placed.consumer.ts\<close> decodes and
  parses them before \<open>Outbox.parseOrderPlacedEvent\<close> looks at the value.
\<close>

definition message_bytes :: "jsval \<Rightarrow> string" where
  "message_bytes event = utf8_bytes (json_text event)"

text \<open>\<open>None\<close> is a \<open>SyntaxError\<close>.\<close>

definition parse_content :: "string \<Rightarrow> jsval option" where
  "parse_content content = (case utf8_text content of None \<Rightarrow> None | Some s \<Rightarrow> json_parse s)"

lemma parse_message_bytes: "json_plain v \<Longrightarrow> parse_content (message_bytes v) = Some v"
  by (simp add: parse_content_def message_bytes_def utf8_roundtrip json_roundtrip)

lemma event_plain: "json_plain (toOrderPlacedEvent e oid uid items amount at)"
  by (auto simp: toOrderPlacedEvent_def list_all_iff)

lemma event_parsed:
  assumes "e \<noteq> []" and "at \<noteq> []" and "oid \<noteq> 0"
  shows "parseOrderPlacedEvent (Some (toOrderPlacedEvent e oid uid items amount at)) = Inr (toOrderPlacedEvent e oid uid items amount at)"
  using assms by (simp add: parseOrderPlacedEvent_def toOrderPlacedEvent_def ORDER_PLACED_TYPE_def)

text \<open>C37: an order event with an identifier, a time stamp and an order that the relay publishes is read
  back by the consumer as the same value, whatever characters (of eight bits) its strings hold and however many
  items it lists, and accepted; different events have different bytes.\<close>
theorem event_roundtrip:
  assumes "e \<noteq> []" and "at \<noteq> []" and "oid \<noteq> 0"
  shows "parseOrderPlacedEvent (parse_content (message_bytes (toOrderPlacedEvent e oid uid items amount at))) =
      Inr (toOrderPlacedEvent e oid uid items amount at) \<and>
    (message_bytes (toOrderPlacedEvent e oid uid items amount at) = message_bytes (toOrderPlacedEvent e' oid' uid' items' amount' at')
      \<longleftrightarrow> toOrderPlacedEvent e oid uid items amount at = toOrderPlacedEvent e' oid' uid' items' amount' at')"
  using parse_message_bytes [OF event_plain, of e oid uid items amount at]
    parse_message_bytes [OF event_plain, of e' oid' uid' items' amount' at'] event_parsed [OF assms]
  by (metis option.inject)

lemma event_roundtrip_witness:
  "parseOrderPlacedEvent (parse_content (message_bytes (toOrderPlacedEvent ''order.placed:1'' 1 1 [(7, 2)] 240 ''2026'')))
     = Inr (toOrderPlacedEvent ''order.placed:1'' 1 1 [(7, 2)] 240 ''2026'')"
  by (rule event_roundtrip [THEN conjunct1]) simp_all

end
