(* ===== verification/RbacDemo.thy ===== *)
theory RbacDemo
  imports AccessDemos Catalog Json
begin

text \<open>
  \<open>src/demo-rbac.ts\<close>: a buyer and a seller log in, read orders and create products through the
  guards, and a token whose role was rewritten is refused. Request number \<open>i\<close> happens at \<open>now i\<close>;
  the two logins draw \<open>fam\<close>, \<open>tok\<close> and \<open>jti\<close> at 0 and 1.
\<close>

section \<open>The demonstration\<close>

definition BUYER_ID :: int where "BUYER_ID = 1"
definition SELLER_ID :: int where "SELLER_ID = 2"

definition DEMO_PRODUCT_NAME :: string where
  "DEMO_PRODUCT_NAME = ''HW24 RBAC Demo Product''"

text \<open>
  Setting a property of the parsed payload: \<open>null\<close> and, in strict mode, other primitive values
  throw a \<open>TypeError\<close>; an array takes it, but its JSON text does not show it.
\<close>

definition set_role :: "jsval \<Rightarrow> err + jsval" where
  "set_role payload = (case payload of
       Obj fs \<Rightarrow> Inr (Obj (AList.update ''role'' (Str ''admin'') fs))
     | Arr vs \<Rightarrow> Inr (Arr vs)
     | _ \<Rightarrow> Inl TypeError)"

definition tamperRole :: "string \<Rightarrow> err + string" where
  "tamperRole token =
     (let parts = js_split CHR ''.'' token
      in if length parts \<noteq> 3 then Inl (JsError ''Invalid JWT'')
         else (case Option.bind (utf8_text (from_base64url (parts ! 1))) json_parse of
             None \<Rightarrow> Inl (JsError ''SyntaxError'')
           | Some payload \<Rightarrow> (case set_role payload of
                 Inl e \<Rightarrow> Inl e
               | Inr p \<Rightarrow> Inr (js_join ''.'' (parts[1 := base64url (utf8_bytes (json_text p))])))))"

text \<open>\<open>DELETE FROM products\<close>: a product that an order item names cannot go.\<close>

definition delete_products :: "string \<Rightarrow> (db, unit) cmd" where
  "delete_products name =
     cmd_bind (cmd_read (\<lambda>d. \<exists>r \<in> set (products d). p_name r = name \<and> p_id r \<in> oi_product_id ` set (order_items d))) (\<lambda>used.
     if used then cmd_throw (Pg (ForeignKeyViolation ''order_items_product_fk''))
     else cmd_write (products_update (filter (\<lambda>r. p_name r \<noteq> name))))"

definition cleanState :: "(db, unit) cmd" where
  "cleanState =
     cmd_bind (cmd_write (refresh_tokens_update (filter (\<lambda>r. rt_user_id r \<noteq> BUYER_ID \<and> rt_user_id r \<noteq> SELLER_ID)))) (\<lambda>_.
     cmd_bind (cmd_write (denylist_update (\<lambda>_. []))) (\<lambda>_.
     delete_products DEMO_PRODUCT_NAME))"

text \<open>The script's own \<open>login\<close>: anything but 200 throws.\<close>

definition demo_login_request ::
  "'k crypto \<Rightarrow> 'k auth_config \<Rightarrow> int \<Rightarrow> string \<Rightarrow> string \<Rightarrow> string \<Rightarrow> string \<Rightarrow> (db, jsval) cmd" where
  "demo_login_request cr cfg now fam tok jti email =
     cmd_bind (attempt (loginHandler cr cfg now fam tok jti (login_body email))) (\<lambda>response.
     if response_status 200 response \<noteq> 200
     then cmd_throw (JsError (''Login failed for '' @ email @ '': '' @ show_nat (response_status 200 response)))
     else cmd_return (body_field ar_accessToken response))"

definition product_body :: "string \<Rightarrow> jsval" where
  "product_body name = Obj [(''name'', Str name), (''description'', Str ''HW24 RBAC demo''),
     (''price'', Num (IntN 10000)), (''stockQuantity'', Num (IntN 1))]"

record rbac_report =
  rb_anon :: nat
  rb_own :: nat
  rb_foreign :: nat
  rb_roleDenied :: nat
  rb_roleAllowed :: nat
  rb_tampered :: nat
  rb_passed :: bool

definition rbac_requests ::
  "'k crypto \<Rightarrow> 'k auth_config \<Rightarrow> (nat \<Rightarrow> int) \<Rightarrow> (nat \<Rightarrow> string) \<Rightarrow> (nat \<Rightarrow> string) \<Rightarrow> (nat \<Rightarrow> string)
     \<Rightarrow> (db, rbac_report) cmd" where
  "rbac_requests cr cfg now fam tok jti =
     cmd_bind (demo_login_request cr cfg (now 0) (fam 0) (tok 0) (jti 0) ''anna@example.com'') (\<lambda>buyerAccess.
     cmd_bind (demo_login_request cr cfg (now 1) (fam 1) (tok 1) (jti 1) ''oleh@example.com'') (\<lambda>sellerAccess.
     cmd_bind (attempt (getOrder cr cfg (now 2) None 1)) (\<lambda>anonResponse.
     cmd_bind (attempt (getOrder cr cfg (now 3) (authorization buyerAccess) 1)) (\<lambda>ownResponse.
     cmd_bind (attempt (getOrder cr cfg (now 4) (authorization buyerAccess) 2)) (\<lambda>foreignResponse.
     cmd_bind (attempt (postProduct cr cfg (now 5) (authorization buyerAccess) (product_body DEMO_PRODUCT_NAME))) (\<lambda>roleDeniedResponse.
     cmd_bind (attempt (postProduct cr cfg (now 6) (authorization sellerAccess) (product_body DEMO_PRODUCT_NAME))) (\<lambda>roleAllowedResponse.
     cmd_bind (cmd_lift (tamperRole (case buyerAccess of Str s \<Rightarrow> s | _ \<Rightarrow> ''undefined''))) (\<lambda>tamperedToken.
     cmd_bind (attempt (postProduct cr cfg (now 7) (authorization (Str tamperedToken))
       (product_body (DEMO_PRODUCT_NAME @ '' Tampered'')))) (\<lambda>tamperedResponse.
     let anon = response_status 200 anonResponse;
         own = response_status 200 ownResponse;
         foreign = response_status 200 foreignResponse;
         roleDenied = response_status 201 roleDeniedResponse;
         roleAllowed = response_status 201 roleAllowedResponse;
         tampered = response_status 201 tamperedResponse
     in cmd_return \<lparr>rb_anon = anon, rb_own = own, rb_foreign = foreign, rb_roleDenied = roleDenied,
          rb_roleAllowed = roleAllowed, rb_tampered = tampered,
          rb_passed = (anon = 401 \<and> own = 200 \<and> foreign = 403 \<and> roleDenied = 403 \<and>
            (roleAllowed = 200 \<or> roleAllowed = 201) \<and> tampered = 401)\<rparr>)))))))))"

text \<open>The \<open>finally\<close> block cleans up whatever happened; an error of its own replaces the result.\<close>

definition rbac_demo ::
  "'k crypto \<Rightarrow> 'k auth_config \<Rightarrow> (nat \<Rightarrow> int) \<Rightarrow> (nat \<Rightarrow> string) \<Rightarrow> (nat \<Rightarrow> string) \<Rightarrow> (nat \<Rightarrow> string)
     \<Rightarrow> (db, rbac_report) cmd" where
  "rbac_demo cr cfg now fam tok jti =
     cmd_bind cleanState (\<lambda>_ d.
     case rbac_requests cr cfg now fam tok jti d of
       (r, d') \<Rightarrow> cmd_bind cleanState (\<lambda>_. cmd_lift r) d')"

section \<open>Tokens that were altered\<close>

text \<open>
  What a JSON web token is beyond \<open>jwt_library\<close>: three parts, the second the claims, and a
  signature over the first two, so that no other second part verifies.
\<close>

definition jwt_compact :: "'k crypto \<Rightarrow> 'k auth_config \<Rightarrow> bool" where
  "jwt_compact cr cfg \<longleftrightarrow> (\<forall>t role fam opts. jo_algorithm opts = ''RS256'' \<longrightarrow>
     (\<exists>h s. CHR ''.'' \<notin> set h \<and> CHR ''.'' \<notin> set s \<and>
       cr_sign cr t [(''role'', Str role), (''familyId'', Str fam)] (ac_privateKey cfg) opts =
         js_join ''.'' [h, base64url (utf8_bytes (json_text
           (access_claims (t div 1000) (t div 1000 + jo_expiresIn opts) role fam (jo_subject opts) (jo_jwtid opts)))), s] \<and>
       (\<forall>p t'. p \<noteq> base64url (utf8_bytes (json_text
           (access_claims (t div 1000) (t div 1000 + jo_expiresIn opts) role fam (jo_subject opts) (jo_jwtid opts)))) \<longrightarrow>
         cr_verify cr t' (js_join ''.'' [h, p, s]) (ac_publicKey cfg) [''RS256''] = None)))"

lemma no_dot: "CHR ''.'' \<notin> set (base64url bs)"
  using base64url_chars by blast

lemma tamper_compact:
  assumes "CHR ''.'' \<notin> set h" and "CHR ''.'' \<notin> set s" and "json_plain (Obj fs)"
  shows "tamperRole (js_join ''.'' [h, base64url (utf8_bytes (json_text (Obj fs))), s]) =
    Inr (js_join ''.'' [h, base64url (utf8_bytes (json_text (Obj (AList.update ''role'' (Str ''admin'') fs)))), s])"
proof -
  let ?p = "base64url (utf8_bytes (json_text (Obj fs)))"
  have split: "js_split CHR ''.'' (js_join ''.'' [h, ?p, s]) = [h, ?p, s]"
    by (rule js_split_join) (use assms no_dot in auto)
  have parse: "Option.bind (utf8_text (from_base64url ?p)) json_parse = Some (Obj fs)"
    using json_roundtrip [OF assms(3)] by (simp only: base64url_roundtrip utf8_roundtrip Option.bind.simps)
  show ?thesis
    unfolding tamperRole_def split Let_def by (simp add: parse set_role_def del: json_text.simps json_plain.simps)
qed

text \<open>A buyer's token with the role rewritten does not verify.\<close>

lemma tampered_refused:
  assumes "jwt_compact cr cfg" and "role \<noteq> Admin"
  shows "\<exists>token. tamperRole (signAccessToken cr cfg t jti u role fam) = Inr token \<and>
    (\<forall>t'. \<exists>e. verifyAccessToken cr cfg t' token = Inl e)"
proof -
  define opts where "opts = \<lparr>jo_algorithm = ''RS256'', jo_keyid = ac_kid cfg, jo_subject = show_int u, jo_jwtid = jti,
     jo_expiresIn = ac_accessTokenTtlSeconds cfg\<rparr>"
  define claims where "claims = [(''role'', Str (role_name role)), (''familyId'', Str fam), (''iat'', Num (IntN (t div 1000))),
    (''exp'', Num (IntN (t div 1000 + jo_expiresIn opts))), (''sub'', Str (jo_subject opts)), (''jti'', Str (jo_jwtid opts))]"
  have obj: "access_claims (t div 1000) (t div 1000 + jo_expiresIn opts) (role_name role) fam (jo_subject opts) (jo_jwtid opts) = Obj claims"
    by (simp add: access_claims_def claims_def)
  have sign: "signAccessToken cr cfg t jti u role fam =
      cr_sign cr t [(''role'', Str (role_name role)), (''familyId'', Str fam)] (ac_privateKey cfg) opts"
    by (simp add: signAccessToken_def opts_def)
  have alg: "jo_algorithm opts = ''RS256''" by (simp add: opts_def)
  obtain h s where hs: "CHR ''.'' \<notin> set h" "CHR ''.'' \<notin> set s"
    "signAccessToken cr cfg t jti u role fam = js_join ''.'' [h, base64url (utf8_bytes (json_text (Obj claims))), s]"
    "\<And>p t'. p \<noteq> base64url (utf8_bytes (json_text (Obj claims))) \<Longrightarrow>
       cr_verify cr t' (js_join ''.'' [h, p, s]) (ac_publicKey cfg) [''RS256''] = None"
    using assms(1) [unfolded jwt_compact_def, rule_format, OF alg, of t "role_name role" fam]
    unfolding obj sign by blast
  have plain: "json_plain (Obj claims)" "json_plain (Obj (AList.update ''role'' (Str ''admin'') claims))"
    by (simp_all add: claims_def)
  have "Obj (AList.update ''role'' (Str ''admin'') claims) \<noteq> Obj claims"
    using assms(2) by (cases role) (simp_all add: claims_def)
  then have "base64url (utf8_bytes (json_text (Obj (AList.update ''role'' (Str ''admin'') claims)))) \<noteq>
      base64url (utf8_bytes (json_text (Obj claims)))"
    using json_text_inject [OF plain(2,1)] by (simp only: base64url_inject utf8_inject not_False_eq_True)
  note none = hs(4) [OF this]
  have "verifyAccessToken cr cfg t' (js_join ''.'' [h, base64url (utf8_bytes (json_text
      (Obj (AList.update ''role'' (Str ''admin'') claims)))), s]) = Inl (JsError ''JsonWebTokenError'')" for t'
    unfolding verifyAccessToken_def none option.case by (rule refl)
  then show ?thesis
    using tamper_compact [OF hs(1,2) plain(1)] unfolding hs(3) by blast
qed

section \<open>What the requests find\<close>

definition rbac_account :: "'k crypto \<Rightarrow> int \<Rightarrow> string \<Rightarrow> user_role \<Rightarrow> db \<Rightarrow> user_row \<Rightarrow> bool" where
  "rbac_account cr i email role d u \<longleftrightarrow> u \<in> set (users d) \<and> u_id u = i \<and> u_email u = email \<and> u_role u = role \<and>
     credentials_ok cr DEMO_PASSWORD u"

text \<open>
  Both accounts have their role and password, the first order is the buyer's and the second is
  not, the sequences are ahead, the drawn tokens are new, and no order names a product of the
  demonstration.
\<close>

definition rbac_ready :: "'k crypto \<Rightarrow> 'k auth_config \<Rightarrow> (nat \<Rightarrow> string) \<Rightarrow> (nat \<Rightarrow> string) \<Rightarrow> db \<Rightarrow> bool" where
  "rbac_ready cr cfg fam tok d \<longleftrightarrow>
     (\<exists>u. rbac_account cr BUYER_ID ''anna@example.com'' Buyer d u) \<and>
     (\<exists>u. rbac_account cr SELLER_ID ''oleh@example.com'' Seller d u) \<and>
     (\<forall>s. cr_bind cr (Str s) = Some s) \<and> (\<forall>i. pg_uuid (fam i) = Some (fam i)) \<and>
     (\<forall>r \<in> set (refresh_tokens d). rt_id r \<le> sq_refresh (seqs d)) \<and>
     (\<forall>i < 2. length (rt_hash cr cfg (tok i)) \<le> 128 \<and> rt_hash cr cfg (tok i) \<notin> rt_token_hash ` set (refresh_tokens d)) \<and>
     rt_hash cr cfg (tok 0) \<noteq> rt_hash cr cfg (tok 1) \<and>
     (\<forall>r \<in> set (products d). p_id r \<le> sq_products (seqs d)) \<and>
     (\<forall>r \<in> set (products d). p_name r = DEMO_PRODUCT_NAME \<longrightarrow> p_id r \<notin> oi_product_id ` set (order_items d)) \<and>
     (\<exists>x \<in> set (orders d). o_id x = 1 \<and> o_user_id x = BUYER_ID) \<and>
     (\<forall>x \<in> set (orders d). o_id x = 2 \<longrightarrow> o_user_id x \<noteq> BUYER_ID)"

definition cleaned :: "db \<Rightarrow> db" where
  "cleaned d = d\<lparr>refresh_tokens := filter (\<lambda>r. rt_user_id r \<noteq> BUYER_ID \<and> rt_user_id r \<noteq> SELLER_ID) (refresh_tokens d),
     denylist := [], products := filter (\<lambda>r. p_name r \<noteq> DEMO_PRODUCT_NAME) (products d)\<rparr>"

lemma cleanState_run:
  assumes "\<forall>r \<in> set (products d). p_name r = DEMO_PRODUCT_NAME \<longrightarrow> p_id r \<notin> oi_product_id ` set (order_items d)"
  shows "cleanState d = (Inr (), cleaned d)"
  using assms by (auto simp: cleanState_def delete_products_def cleaned_def cmd_bind_run cmd_simps)

lemma cleaned_wf:
  assumes "wf_db d" and "\<forall>r \<in> set (products d). p_name r = DEMO_PRODUCT_NAME \<longrightarrow> p_id r \<notin> oi_product_id ` set (order_items d)"
  shows "wf_db (cleaned d)"
proof -
  have "refresh_ok (user_ids d) (refresh_tokens (cleaned d))"
    using assms(1) by (auto simp: wf_db_def refresh_ok_def cleaned_def ids_defs distinct_map intro: inj_on_subset)
  moreover have "products_ok (user_ids d) (products (cleaned d))"
    using assms(1) by (auto simp: wf_db_def products_ok_def cleaned_def ids_defs distinct_map intro: inj_on_subset)
  moreover have "oi_product_id i \<in> p_id ` set (products (cleaned d))" if "i \<in> set (order_items d)" for i
  proof -
    have "oi_product_id i \<in> p_id ` set (products d)" using assms(1) that by (auto simp: wf_db_def items_ok_def ids_defs)
    then obtain r where "r \<in> set (products d)" "p_id r = oi_product_id i" by auto
    moreover from this assms(2) that have "p_name r \<noteq> DEMO_PRODUCT_NAME" by force
    ultimately show ?thesis by (force simp: cleaned_def)
  qed
  then have "items_ok (order_ids d) (product_ids (cleaned d)) (order_items d)"
    using assms(1) by (auto simp: wf_db_def items_ok_def ids_defs)
  ultimately show ?thesis
    using assms(1) by (simp add: wf_db_def ids_defs denylist_ok_def) (simp add: cleaned_def)
qed

lemma cleaned_ready: "rbac_ready cr cfg fam tok d \<Longrightarrow> rbac_ready cr cfg fam tok (cleaned d)"
  by (fastforce simp: rbac_ready_def rbac_account_def cleaned_def)

lemma buyer_is_demo: "BUYER_ID = DEMO_USER_ID"
  by (simp add: BUYER_ID_def DEMO_USER_ID_def)

lemma guarded_product:
  assumes "jwt_library cr cfg" and "config_ok cfg" and "pg_uuid j = Some j" and "t' div 1000 < t div 1000 + 600" and "denylist d = []"
  shows "postProduct cr cfg t' (authorization (Str (signAccessToken cr cfg t j uid role fam))) body d =
    (if role = Buyer then (Inl (Forbidden ''Insufficient permissions''), d)
     else createProduct (cr_bind cr) (Some (issued_claims t j uid role fam)) body d)"
  unfolding postProduct_def authorization_def jsval.case cmd_bind_run [of "canActivate _ _ _ _"] guard_issued [OF assms(1-3)]
  using assms(4,5) by (cases role) (simp_all add: rolesActivate_def denied_def cmd_bind_run cmd_simps)

lemma foreign_order:
  assumes "wf_db d" and "\<forall>x \<in> set (orders d). o_id x = i \<longrightarrow> o_user_id x \<noteq> uid" and "int8 i" and "int8 uid"
  shows "getOrderById i (Some (show_int uid)) d = (Inl (Forbidden ''Order belongs to another user''), d)"
proof -
  obtain r d' where g: "getOrderById i (Some (show_int uid)) d = (r, d')" by (rule prod.exhaust)
  have "first_where (\<lambda>x. o_id x = i \<and> o_user_id x = uid) (orders d) = None"
    unfolding first_where_None using assms(2) by blast
  with getOrderById_owner_only [OF assms(1) g] assms(3,4) g show ?thesis by simp
qed

text \<open>The product of the demonstration.\<close>

definition demo_product :: "db \<Rightarrow> product_row" where
  "demo_product d = \<lparr>p_id = sq_products (seqs d) + 1, p_owner_id = SELLER_ID, p_name = DEMO_PRODUCT_NAME,
     p_description = ''HW24 RBAC demo'', p_price = 10000, p_stock_quantity = 1, p_is_active = True\<rparr>"

lemma demo_product_created:
  assumes "SELLER_ID \<in> u_id ` set (users d)" and "\<forall>r \<in> set (products d). p_id r \<le> sq_products (seqs d)"
    and "cr_bind cr (Str ''HW24 RBAC demo'') = Some ''HW24 RBAC demo''"
  shows "createProduct (cr_bind cr) (Some (issued_claims t j SELLER_ID role fam)) (product_body DEMO_PRODUCT_NAME) d =
    (Inr (demo_product d), d\<lparr>products := products d @ [demo_product d],
       seqs := (seqs d)\<lparr>sq_products := sq_products (seqs d) + 1\<rparr>\<rparr>)"
proof -
  have trim: "js_trim DEMO_PRODUCT_NAME = DEMO_PRODUCT_NAME" "DEMO_PRODUCT_NAME \<noteq> []" "pg_trim DEMO_PRODUCT_NAME \<noteq> []"
    "pg_trim ''HW24 RBAC demo'' \<noteq> []"
    by code_simp+
  have "sq_products (seqs d) + 1 \<notin> p_id ` set (products d)" using assms(2) by force
  then have "insert_product SELLER_ID DEMO_PRODUCT_NAME (Some ''HW24 RBAC demo'') 10000 1 True d =
    (Inr (demo_product d), d\<lparr>products := products d @ [demo_product d],
       seqs := (seqs d)\<lparr>sq_products := sq_products (seqs d) + 1\<rparr>\<rparr>)"
    using assms(1) trim unfolding insert_product_Inr
    by (simp add: demo_product_def products_constraints_def product_checks_def int8_def int4_def SELLER_ID_def)
  moreover have "int8 SELLER_ID" by (simp add: SELLER_ID_def int8_def)
  ultimately show ?thesis
    using trim assms(3)
    by (simp add: createProduct_def product_body_def cmd_bind_run cmd_simps integer_or_refuse_def owner_param_def
        optional_text_def number_of_show_int param_int_IntN Let_def)
qed

lemma demo_login_ok:
  assumes "loginHandler cr cfg t fam k j (login_body e) d = (Inr a, d')"
  shows "demo_login_request cr cfg t fam k j e d = (Inr (Str (ar_accessToken a)), d')"
  using assms by (simp add: demo_login_request_def cmd_bind_run cmd_simps attempt_def body_field_def)

text \<open>The state after both logins.\<close>

definition both_logged_in :: "'k crypto \<Rightarrow> 'k auth_config \<Rightarrow> (nat \<Rightarrow> int) \<Rightarrow> (nat \<Rightarrow> string) \<Rightarrow> (nat \<Rightarrow> string) \<Rightarrow> db \<Rightarrow> db" where
  "both_logged_in cr cfg now fam tok d =
     (let d1 = after_entry (refresh_entry (rt_hash cr cfg (tok 0)) (fam 0) BUYER_ID (now 0 + ac_refreshTokenTtlSeconds cfg * 1000) d) d
      in after_entry (refresh_entry (rt_hash cr cfg (tok 1)) (fam 1) SELLER_ID (now 1 + ac_refreshTokenTtlSeconds cfg * 1000) d1) d1)"

lemma logged_in_rows:
  "users (both_logged_in cr cfg now fam tok d) = users d" "products (both_logged_in cr cfg now fam tok d) = products d"
  "orders (both_logged_in cr cfg now fam tok d) = orders d" "denylist (both_logged_in cr cfg now fam tok d) = denylist d"
  "order_items (both_logged_in cr cfg now fam tok d) = order_items d"
  "sq_products (seqs (both_logged_in cr cfg now fam tok d)) = sq_products (seqs d)"
  by (simp_all add: both_logged_in_def after_entry_def Let_def)

lemma both_log_in:
  assumes "wf_db d" and "rbac_ready cr cfg fam tok d"
  shows "wf_db (both_logged_in cr cfg now fam tok d) \<and>
    (\<exists>d1. demo_login_request cr cfg (now 0) (fam 0) (tok 0) j ''anna@example.com'' d =
        (Inr (Str (signAccessToken cr cfg (now 0) j BUYER_ID Buyer (fam 0))), d1) \<and>
      demo_login_request cr cfg (now 1) (fam 1) (tok 1) j' ''oleh@example.com'' d1 =
        (Inr (Str (signAccessToken cr cfg (now 1) j' SELLER_ID Seller (fam 1))), both_logged_in cr cfg now fam tok d))"
proof -
  obtain b where b: "rbac_account cr BUYER_ID ''anna@example.com'' Buyer d b"
    using assms(2) by (auto simp: rbac_ready_def)
  obtain s where s: "rbac_account cr SELLER_ID ''oleh@example.com'' Seller d s"
    using assms(2) by (auto simp: rbac_ready_def)
  let ?e0 = "refresh_entry (rt_hash cr cfg (tok 0)) (fam 0) (u_id b) (now 0 + ac_refreshTokenTtlSeconds cfg * 1000) d"
  let ?d1 = "after_entry ?e0 d"
  have ready: "cr_bind cr (Str x) = Some x" "pg_uuid (fam i) = Some (fam i)" "\<forall>r \<in> set (refresh_tokens d). rt_id r \<le> sq_refresh (seqs d)"
    "length (rt_hash cr cfg (tok 0)) \<le> 128" "length (rt_hash cr cfg (tok 1)) \<le> 128"
    "rt_hash cr cfg (tok 0) \<notin> rt_token_hash ` set (refresh_tokens d)"
    "rt_hash cr cfg (tok 1) \<notin> rt_token_hash ` set (refresh_tokens d)" "rt_hash cr cfg (tok 0) \<noteq> rt_hash cr cfg (tok 1)" for x i
    using assms(2) by (auto simp: rbac_ready_def)
  have ids: "int8 (u_id b)" "int8 (u_id s)"
    using b s by (simp_all add: rbac_account_def BUYER_ID_def SELLER_ID_def int8_def)
  have first: "loginHandler cr cfg (now 0) (fam 0) (tok 0) j (login_body ''anna@example.com'') d =
      (Inr \<lparr>ar_accessToken = signAccessToken cr cfg (now 0) j (u_id b) (u_role b) (fam 0), ar_refreshToken = tok 0\<rparr>, ?d1)"
    by (rule account_login [OF assms(1)]) (use b ready ids in \<open>auto simp: rbac_account_def\<close>)
  have wf: "wf_db ?d1"
    by (rule account_wf [OF assms(1)]) (use b ready in \<open>auto simp: rbac_account_def\<close>)
  have next_ids: "\<forall>r \<in> set (refresh_tokens ?d1). rt_id r \<le> sq_refresh (seqs ?d1)"
    using ready(3) by (auto simp: after_entry_def)
  have fresh: "rt_hash cr cfg (tok 1) \<notin> rt_token_hash ` set (refresh_tokens ?d1)"
    using ready(7,8) by (auto simp: after_entry_def)
  have sd: "s \<in> set (users ?d1)" using s by (simp add: rbac_account_def after_entry_def)
  have second: "loginHandler cr cfg (now 1) (fam 1) (tok 1) j' (login_body ''oleh@example.com'') ?d1 =
      (Inr \<lparr>ar_accessToken = signAccessToken cr cfg (now 1) j' (u_id s) (u_role s) (fam 1), ar_refreshToken = tok 1\<rparr>,
       both_logged_in cr cfg now fam tok d)"
  proof -
    have "u_id s = SELLER_ID" "u_id b = BUYER_ID" using b s by (simp_all add: rbac_account_def)
    then show ?thesis
      using account_login [where t = "now 1" and j = j' and e = "''oleh@example.com''", OF wf sd _ _ ready(1,2) ids(2) ready(5) next_ids fresh] s
      by (simp add: rbac_account_def both_logged_in_def Let_def)
  qed
  have "wf_db (both_logged_in cr cfg now fam tok d)"
    using account_wf [OF wf sd next_ids fresh, of "fam 1" "now 1 + ac_refreshTokenTtlSeconds cfg * 1000"] b s
    by (simp add: rbac_account_def both_logged_in_def Let_def)
  moreover have "u_id b = BUYER_ID" "u_role b = Buyer" "u_id s = SELLER_ID" "u_role s = Seller"
    using b s by (simp_all add: rbac_account_def)
  ultimately show ?thesis using demo_login_ok [OF first] demo_login_ok [OF second] by auto
qed

text \<open>On a well-formed database with a buyer that owns the first order and not the second and a
  seller, the demonstration passes: 401 without a token, the buyer's own order but 403 for the
  other one, 403 for a product of the buyer, 201 for one of the seller, and 401 for the buyer's
  token with its role rewritten to admin. It leaves no product of its name.\<close>
theorem rbac_demo_passes:
  assumes "wf_db d" and "jwt_library cr cfg" and "jwt_compact cr cfg" and "config_ok cfg" and "rbac_ready cr cfg fam tok d"
    and "\<And>i. pg_uuid (jti i) = Some (jti i)" and "\<And>i. now 0 \<le> now i \<and> now i < now 0 + 590000"
  shows "\<exists>d'. rbac_demo cr cfg now fam tok jti d = (Inr \<lparr>rb_anon = 401, rb_own = 200, rb_foreign = 403, rb_roleDenied = 403,
      rb_roleAllowed = 201, rb_tampered = 401, rb_passed = True\<rparr>, d') \<and>
    products d' = filter (\<lambda>r. p_name r \<noteq> DEMO_PRODUCT_NAME) (products d)"
proof -
  have unused: "\<forall>r \<in> set (products d). p_name r = DEMO_PRODUCT_NAME \<longrightarrow> p_id r \<notin> oi_product_id ` set (order_items d)"
    using assms(5) by (simp add: rbac_ready_def)
  let ?c = "cleaned d"
  let ?d2 = "both_logged_in cr cfg now fam tok ?c"
  note wf = cleaned_wf [OF assms(1) unused] and ready = cleaned_ready [OF assms(5)]
  note soon = within_ten_minutes [of now, OF assms(7)]
  from both_log_in [OF wf ready, of now "jti 0" "jti 1"] obtain d1 where wf2: "wf_db ?d2"
    and logins: "demo_login_request cr cfg (now 0) (fam 0) (tok 0) (jti 0) ''anna@example.com'' ?c =
        (Inr (Str (signAccessToken cr cfg (now 0) (jti 0) BUYER_ID Buyer (fam 0))), d1)"
      "demo_login_request cr cfg (now 1) (fam 1) (tok 1) (jti 1) ''oleh@example.com'' d1 =
        (Inr (Str (signAccessToken cr cfg (now 1) (jti 1) SELLER_ID Seller (fam 1))), ?d2)" by blast
  have none: "denylist ?d2 = []" by (simp add: logged_in_rows cleaned_def)
  have anon: "getOrder cr cfg (now 2) None 1 ?d2 = (Inl (Unauthorized ''Access token is required''), ?d2)"
    by (simp add: getOrder_def canActivate_def bearer_def cmd_bind_run cmd_simps)
  note order = guarded_order [OF assms(2,4,6) soon, unfolded denied_def]
  obtain x where x: "x \<in> set (orders ?d2)" "o_id x = 1" "o_user_id x = DEMO_USER_ID"
    using ready buyer_is_demo by (auto simp: rbac_ready_def logged_in_rows)
  obtain a where own: "getOrder cr cfg (now 3) (authorization (Str (signAccessToken cr cfg (now 0) (jti 0) BUYER_ID Buyer (fam 0)))) 1 ?d2 =
      (Inr a, ?d2)"
    using own_order [OF wf2 x(1,3)] x(2) by (auto simp: order none buyer_is_demo int8_def)
  have "int8 2" "int8 BUYER_ID" by (simp_all add: int8_def BUYER_ID_def)
  moreover have "\<forall>x \<in> set (orders ?d2). o_id x = 2 \<longrightarrow> o_user_id x \<noteq> BUYER_ID"
    using ready by (simp add: rbac_ready_def logged_in_rows)
  ultimately have foreign: "getOrder cr cfg (now 4) (authorization (Str (signAccessToken cr cfg (now 0) (jti 0) BUYER_ID Buyer (fam 0)))) 2 ?d2 =
      (Inl (Forbidden ''Order belongs to another user''), ?d2)"
    using foreign_order [OF wf2] by (simp add: order none)
  have refused: "postProduct cr cfg (now 5) (authorization (Str (signAccessToken cr cfg (now 0) (jti 0) BUYER_ID Buyer (fam 0)))) body ?d2 =
      (Inl (Forbidden ''Insufficient permissions''), ?d2)" for body
    using guarded_product [OF assms(2,4,6) soon none] by simp
  let ?d3 = "?d2\<lparr>products := products ?d2 @ [demo_product ?d2], seqs := (seqs ?d2)\<lparr>sq_products := sq_products (seqs ?d2) + 1\<rparr>\<rparr>"
  have created: "postProduct cr cfg (now 6) (authorization (Str (signAccessToken cr cfg (now 1) (jti 1) SELLER_ID Seller (fam 1))))
      (product_body DEMO_PRODUCT_NAME) ?d2 = (Inr (demo_product ?d2), ?d3)"
  proof -
    have "SELLER_ID \<in> u_id ` set (users ?c)"
      using ready unfolding rbac_ready_def rbac_account_def by (metis image_eqI)
    moreover have "\<forall>r \<in> set (products ?c). p_id r \<le> sq_products (seqs ?c)"
      "cr_bind cr (Str ''HW24 RBAC demo'') = Some ''HW24 RBAC demo''"
      using ready by (auto simp: rbac_ready_def)
    ultimately show ?thesis
      unfolding guarded_product [OF assms(2,4,6) soon none]
      using demo_product_created [of ?d2 cr "now 1" Seller "fam 1" "jti 1"] by (simp add: logged_in_rows)
  qed
  obtain token where token: "tamperRole (signAccessToken cr cfg (now 0) (jti 0) BUYER_ID Buyer (fam 0)) = Inr token"
    "\<And>t'. \<exists>e. verifyAccessToken cr cfg t' token = Inl e"
    using tampered_refused [OF assms(3), of Buyer] by blast
  obtain e where "verifyAccessToken cr cfg (now 7) token = Inl e" using token(2) by blast
  then have tampered: "postProduct cr cfg (now 7) (authorization (Str token)) body ?d3 = (Inl (Unauthorized ''Invalid access token''), ?d3)" for body
    unfolding postProduct_def authorization_def jsval.case canActivate_def bearer_token option.case
    by (simp add: cmd_bind_run cmd_simps)
  have "rbac_requests cr cfg now fam tok jti ?c = (Inr \<lparr>rb_anon = 401, rb_own = 200, rb_foreign = 403, rb_roleDenied = 403,
      rb_roleAllowed = 201, rb_tampered = 401, rb_passed = True\<rparr>, ?d3)"
    using logins anon own foreign refused created token(1) tampered
    by (simp add: rbac_requests_def cmd_bind_run cmd_simps attempt_def del: One_nat_def)
  moreover have "cleanState ?d3 = (Inr (), cleaned ?d3)"
  proof (rule cleanState_run)
    have "oi_product_id i \<in> p_id ` set (products ?d2)" if "i \<in> set (order_items ?d2)" for i
      using wf2 that by (auto simp: wf_db_def items_ok_def ids_defs)
    moreover have "\<forall>r \<in> set (products ?d2). p_id r \<le> sq_products (seqs ?d2)"
      using ready by (simp add: rbac_ready_def logged_in_rows)
    ultimately have "sq_products (seqs ?d2) + 1 \<notin> oi_product_id ` set (order_items ?d2)" by force
    then show "\<forall>r \<in> set (products ?d3). p_name r = DEMO_PRODUCT_NAME \<longrightarrow> p_id r \<notin> oi_product_id ` set (order_items ?d3)"
      by (auto simp: logged_in_rows cleaned_def demo_product_def)
  qed
  ultimately have "rbac_demo cr cfg now fam tok jti d = (Inr \<lparr>rb_anon = 401, rb_own = 200, rb_foreign = 403, rb_roleDenied = 403,
      rb_roleAllowed = 201, rb_tampered = 401, rb_passed = True\<rparr>, cleaned ?d3)"
    using cleanState_run [OF unused] by (simp add: rbac_demo_def cmd_bind_run cmd_simps)
  moreover have "products (cleaned ?d3) = filter (\<lambda>r. p_name r \<noteq> DEMO_PRODUCT_NAME) (products d)"
    by (simp add: cleaned_def logged_in_rows demo_product_def)
  ultimately show ?thesis by blast
qed

section \<open>An example\<close>

text \<open>Tokens of three parts whose signature is a code of the claims.\<close>

definition compact_sign :: "int \<Rightarrow> (string \<times> jsval) list \<Rightarrow> unit \<Rightarrow> jwt_options \<Rightarrow> string" where
  "compact_sign now payload k opts =
     (let p = base64url (utf8_bytes (json_text (Obj (payload @ [(''iat'', Num (IntN (now div 1000))),
            (''exp'', Num (IntN (now div 1000 + jo_expiresIn opts))), (''sub'', Str (jo_subject opts)),
            (''jti'', Str (jo_jwtid opts))]))))
      in js_join ''.'' [''h'', p, base64url p])"

definition compact_verify :: "int \<Rightarrow> string \<Rightarrow> unit \<Rightarrow> string list \<Rightarrow> jsval option" where
  "compact_verify now token k algorithms =
     (let parts = js_split CHR ''.'' token
      in if length parts \<noteq> 3 \<or> parts ! 2 \<noteq> base64url (parts ! 1) then None
         else (case Option.bind (utf8_text (from_base64url (parts ! 1))) json_parse of
             Some (Obj fs) \<Rightarrow> (case obj_field fs ''exp'' of
                 Num (IntN e) \<Rightarrow> if now div 1000 < e then Some (Obj fs) else None
               | _ \<Rightarrow> None)
           | _ \<Rightarrow> None))"

definition compact_crypto :: "unit crypto" where
  "compact_crypto = sample_crypto\<lparr>cr_sign := compact_sign, cr_verify := compact_verify\<rparr>"

lemma js_split_single: "js_split d p = [x] \<Longrightarrow> x = p"
  by (induction p arbitrary: x) (auto split: if_splits list.splits)

lemma compact_parts:
  assumes "CHR ''.'' \<notin> set s" and "length (js_split CHR ''.'' (js_join ''.'' [''h'', p, s])) = 3"
  shows "js_split CHR ''.'' (js_join ''.'' [''h'', p, s]) = [''h'', p, s]"
proof -
  have eq: "js_split CHR ''.'' (js_join ''.'' [''h'', p, s]) = ''h'' # js_split CHR ''.'' p @ [s]"
    using assms(1) js_split_append [of "CHR ''.''" "''h''" "p @ CHR ''.'' # s"]
    by (simp add: js_split_two js_split_plain)
  with assms(2) obtain x where "js_split CHR ''.'' p = [x]" by (auto simp: length_Suc_conv)
  then show ?thesis using eq js_split_single by fastforce
qed

lemma compact_verify_other:
  assumes "p \<noteq> q" shows "compact_verify t' (js_join ''.'' [''h'', p, base64url q]) k a = None"
proof (cases "length (js_split CHR ''.'' (js_join ''.'' [''h'', p, base64url q])) = 3")
  case True
  from compact_parts [OF no_dot True] assms show ?thesis
    unfolding compact_verify_def Let_def by simp
qed (simp add: compact_verify_def del: js_join.simps)

lemma compact_verify_signed:
  assumes "json_plain (Obj fs)" and "obj_field fs ''exp'' = Num (IntN e)"
  shows "compact_verify t' (js_join ''.'' [''h'', base64url (utf8_bytes (json_text (Obj fs))),
      base64url (base64url (utf8_bytes (json_text (Obj fs))))]) k a =
    (if t' div 1000 < e then Some (Obj fs) else None)"
proof -
  let ?p = "base64url (utf8_bytes (json_text (Obj fs)))"
  have "js_split CHR ''.'' (js_join ''.'' [''h'', ?p, base64url ?p]) = [''h'', ?p, base64url ?p]"
    by (rule js_split_join) (use no_dot in auto)
  moreover have "Option.bind (utf8_text (from_base64url ?p)) json_parse = Some (Obj fs)"
    using json_roundtrip [OF assms(1)] by (simp only: base64url_roundtrip utf8_roundtrip Option.bind.simps)
  ultimately show ?thesis
    unfolding compact_verify_def Let_def using assms(2) by (simp del: json_text.simps json_plain.simps)
qed

definition compact_claims :: "string \<Rightarrow> string \<Rightarrow> int \<Rightarrow> jwt_options \<Rightarrow> (string \<times> jsval) list" where
  "compact_claims role fam t opts = [(''role'', Str role), (''familyId'', Str fam), (''iat'', Num (IntN (t div 1000))),
     (''exp'', Num (IntN (t div 1000 + jo_expiresIn opts))), (''sub'', Str (jo_subject opts)), (''jti'', Str (jo_jwtid opts))]"

lemma compact_signed:
  "access_claims (t div 1000) (t div 1000 + jo_expiresIn opts) role fam (jo_subject opts) (jo_jwtid opts) =
    Obj (compact_claims role fam t opts)"
  "cr_sign compact_crypto t [(''role'', Str role), (''familyId'', Str fam)] (ac_privateKey sample_config) opts =
    js_join ''.'' [''h'', base64url (utf8_bytes (json_text (Obj (compact_claims role fam t opts)))),
      base64url (base64url (utf8_bytes (json_text (Obj (compact_claims role fam t opts)))))]"
  "cr_verify compact_crypto = compact_verify"
  by (simp_all add: access_claims_def compact_claims_def compact_crypto_def compact_sign_def Let_def)

lemma compact_jwt: "jwt_library compact_crypto sample_config"
proof -
  have plain: "json_plain (Obj (compact_claims role fam t opts))"
    and expires: "obj_field (compact_claims role fam t opts) ''exp'' = Num (IntN (t div 1000 + jo_expiresIn opts))"
    for role fam t opts
    by (simp_all add: compact_claims_def)
  show ?thesis
    unfolding jwt_library_def compact_signed by (simp only: compact_verify_signed [OF plain expires] simp_thms)
qed

lemma compact_altered: "jwt_compact compact_crypto sample_config"
proof -
  have "CHR ''.'' \<notin> set ''h''" by simp
  then show ?thesis
    unfolding jwt_compact_def compact_signed using compact_verify_other no_dot by blast
qed

lemma compact_ready:
  assumes "seed compact_crypto [1, 2] empty_db = (Inr (), d)"
  shows "rbac_ready compact_crypto sample_config (\<lambda>_. uuid_1) sample_draws d"
proof -
  have scrypt: "scrypt_library compact_crypto"
    using sample_scrypt by (simp add: scrypt_library_def compact_crypto_def)
  have seller: "\<exists>u \<in> set (users d). u_id u = 2 \<and> u_email u = ''oleh@example.com'' \<and> u_role u = Seller \<and>
      credentials_ok compact_crypto DEMO_PASSWORD u"
    using seeded_account [OF wf_empty_db assms scrypt, of "SEED_USERS ! 1"]
    by (simp add: SEED_USERS_def seed_user_def demo_account_def demo_role_def)
  have rows: "refresh_tokens d = []" "products d = SEED_PRODUCTS" "orders d = SEED_ORDERS" "sq_products (seqs d) = 10"
    using assms unfolding seed_empty by (auto simp: seeded_tables_def set_credentials_def empty_db_def)
  have names: "\<forall>r \<in> set SEED_PRODUCTS. p_name r \<noteq> DEMO_PRODUCT_NAME \<and> p_id r \<le> 10"
    by (simp add: SEED_PRODUCTS_def seed_product_def DEMO_PRODUCT_NAME_def utf8_def utf8_char_def)
  have orders: "\<exists>x \<in> set SEED_ORDERS. o_id x = 1 \<and> o_user_id x = 1" "\<forall>x \<in> set SEED_ORDERS. o_id x = 2 \<longrightarrow> o_user_id x \<noteq> 1"
    by (simp_all add: SEED_ORDERS_def seed_order_def)
  have bind: "cr_bind compact_crypto (Str s) = Some s" "cr_hmac compact_crypto k s = s" for k s
    by (simp_all add: compact_crypto_def sample_crypto_def)
  show ?thesis
    using seeded_demo_user [OF assms scrypt] seller names orders pg_uuid_examples(1)
    by (fastforce simp: rbac_ready_def rbac_account_def rows bind BUYER_ID_def SELLER_ID_def DEMO_USER_ID_def DEMO_EMAIL_def
        sample_draws_def)
qed

theorem rbac_demo_passes_witness:
  "\<exists>d d' rep. seed compact_crypto [1, 2] empty_db = (Inr (), d) \<and>
     rbac_demo compact_crypto sample_config (\<lambda>_. 0) (\<lambda>_. uuid_1) sample_draws (\<lambda>_. uuid_2) d = (Inr rep, d') \<and>
     rb_passed rep \<and> rb_tampered rep = 401"
proof -
  note seeded = seed_empty [of compact_crypto "[1, 2]"]
  show ?thesis
    using seeded rbac_demo_passes [OF seed_run [OF wf_empty_db seeded, THEN conjunct1] compact_jwt compact_altered
      sample_config_ok compact_ready [OF seeded], of "\<lambda>_. uuid_2" "\<lambda>_. 0"] pg_uuid_examples(2)
    by auto
qed

end
