(* ===== verification/RealtimeDemo.thy ===== *)
theory RealtimeDemo
  imports AccessDemos
begin

text \<open>
  \<open>scripts/realtime-demo.mjs\<close>: two WebSocket clients join the rooms of orders, the status of the
  first order is changed, and the script checks which client was told. \<open>a\<close> and \<open>b\<close> are the
  sockets of the clients; connections succeed at once, and the delivery window is long enough
  for every event that was emitted. The requests of the script carry no \<open>Authorization\<close> header.
\<close>

section \<open>The script\<close>

definition ORDER_A :: int where "ORDER_A = 1"
definition ORDER_B :: int where "ORDER_B = 2"
definition USER_A :: int where "USER_A = 1"
definition USER_B :: int where "USER_B = 2"

definition roomBOrderId :: "bool \<Rightarrow> int" where
  "roomBOrderId SAME_ROOM = (if SAME_ROOM then ORDER_A else ORDER_B)"

definition roomBUserId :: "bool \<Rightarrow> int" where
  "roomBUserId SAME_ROOM = (if SAME_ROOM then USER_A else USER_B)"

definition expectedBReceived :: "bool \<Rightarrow> nat" where
  "expectedBReceived SAME_ROOM = (if SAME_ROOM then 1 else 0)"

definition connectClient :: "nat \<Rightarrow> int \<Rightarrow> (app, unit) cmd" where
  "connectClient c userId = on_snd (on_snd (cmd_write (\<lambda>g.
     g(c := Some \<lparr>ws_auth = Obj [(''userId'', Num (IntN userId))], ws_rooms = [], ws_received = []\<rparr>))))"

text \<open>A handler that throws sends no acknowledgement.\<close>

definition joinOrder :: "nat \<Rightarrow> int \<Rightarrow> string \<Rightarrow> (app, unit) cmd" where
  "joinOrder c orderId label =
     cmd_bind (cmd_read (\<lambda>(_, _, g). g c)) (\<lambda>socket. case socket of
         None \<Rightarrow> cmd_throw (JsError (label @ '' join timed out''))
       | Some client \<Rightarrow>
           cmd_bind (attempt (joinOrderRoom c client (Obj [(''orderId'', Num (IntN orderId))]))) (\<lambda>response.
           case response of
             Inl _ \<Rightarrow> cmd_throw (JsError (label @ '' join timed out''))
           | Inr (JoinError e) \<Rightarrow> cmd_throw (JsError (label @ '' join failed: '' @ e))
           | Inr (JoinOk _) \<Rightarrow> cmd_return ()))"

text \<open>\<open>Promise.all\<close>: both requests are sent whatever becomes of the first.\<close>

definition both :: "('s, unit) cmd \<Rightarrow> ('s, unit) cmd \<Rightarrow> ('s, unit) cmd" where
  "both m n = cmd_bind (attempt m) (\<lambda>r. cmd_bind (attempt n) (\<lambda>q. cmd_bind (cmd_lift r) (\<lambda>_. cmd_lift q)))"

definition getNextStatus :: "string \<Rightarrow> string" where
  "getNextStatus currentStatus =
     (let statuses = [''created'', ''paid'', ''shipped'', ''completed'', ''cancelled'']
      in case first_where (\<lambda>i. statuses ! i = currentStatus) [0..<length statuses] of
          None \<Rightarrow> ''paid''
        | Some currentIndex \<Rightarrow> statuses ! ((currentIndex + 1) mod length statuses))"

text \<open>The two requests, with the header they carry; \<open>response.ok\<close> is a status from 200 to 299.\<close>

definition fetchOrder :: "'k crypto \<Rightarrow> 'k auth_config \<Rightarrow> int \<Rightarrow> string option \<Rightarrow> int \<Rightarrow> (app, order_response) cmd" where
  "fetchOrder cr cfg now header orderId =
     cmd_bind (attempt (on_fst (getOrder cr cfg now header orderId))) (\<lambda>response. case response of
         Inr order \<Rightarrow> cmd_return order
       | Inl e \<Rightarrow> cmd_throw (JsError (''GET /orders/'' @ show_int orderId @ '' failed with '' @ show_nat (status_of e))))"

definition patchOrderStatus :: "(jsval \<Rightarrow> string) \<Rightarrow> string \<Rightarrow> int \<Rightarrow> string \<Rightarrow> (app, order_response) cmd" where
  "patchOrderStatus shown at orderId status =
     cmd_bind (attempt (updateOrderStatus shown at orderId (Obj [(''status'', Str status)]))) (\<lambda>response. case response of
         Inr order \<Rightarrow> cmd_return order
       | Inl e \<Rightarrow> cmd_throw (JsError (''PATCH /orders/'' @ show_int orderId @ ''/status failed with '' @ show_nat (status_of e))))"

text \<open>What the listener of a client has noted.\<close>

definition noted :: "nat \<Rightarrow> app \<Rightarrow> nat" where
  "noted c = (\<lambda>(_, _, g). case g c of
       None \<Rightarrow> 0
     | Some s \<Rightarrow> if \<exists>e \<in> set (ws_received s). ev_order_id e = ORDER_A then 1 else 0)"

definition disconnect :: "nat \<Rightarrow> (app, unit) cmd" where
  "disconnect c = on_snd (on_snd (cmd_write (\<lambda>g. g(c := None))))"

record realtime_report =
  rt_aReceived :: nat
  rt_bReceived :: nat
  rt_exitCode :: nat

text \<open>\<open>header\<close> is that of the request for the order; the script sends none.\<close>

definition realtime_run ::
  "'k crypto \<Rightarrow> 'k auth_config \<Rightarrow> (jsval \<Rightarrow> string) \<Rightarrow> int \<Rightarrow> string \<Rightarrow> string option \<Rightarrow> bool \<Rightarrow> nat \<Rightarrow> nat \<Rightarrow>
     (app, realtime_report) cmd" where
  "realtime_run cr cfg shown now at header SAME_ROOM a b =
     cmd_bind (connectClient a USER_A) (\<lambda>_.
     cmd_bind (connectClient b (roomBUserId SAME_ROOM)) (\<lambda>_.
     cmd_bind (attempt (
       cmd_bind (both (joinOrder a ORDER_A ''client A'') (joinOrder b (roomBOrderId SAME_ROOM) ''client B'')) (\<lambda>_.
       cmd_bind (fetchOrder cr cfg now header ORDER_A) (\<lambda>orderA.
       patchOrderStatus shown at ORDER_A (getNextStatus (status_name (rp_status orderA))))))) (\<lambda>result.
     cmd_bind (cmd_read (noted a)) (\<lambda>aReceived.
     cmd_bind (cmd_read (noted b)) (\<lambda>bReceived.
     cmd_bind (disconnect a) (\<lambda>_.
     cmd_bind (disconnect b) (\<lambda>_.
     cmd_return \<lparr>rt_aReceived = aReceived, rt_bReceived = bReceived,
       rt_exitCode = (if (\<exists>r. result = Inr r) \<and> aReceived = 1 \<and> bReceived = expectedBReceived SAME_ROOM
         then 0 else 1)\<rparr>)))))))"

definition realtime_demo ::
  "'k crypto \<Rightarrow> 'k auth_config \<Rightarrow> (jsval \<Rightarrow> string) \<Rightarrow> int \<Rightarrow> string \<Rightarrow> bool \<Rightarrow> nat \<Rightarrow> nat \<Rightarrow> (app, realtime_report) cmd" where
  "realtime_demo cr cfg shown now at SAME_ROOM a b = realtime_run cr cfg shown now at None SAME_ROOM a b"

section \<open>What comes of it\<close>

definition fresh_client :: "int \<Rightarrow> ws_socket" where
  "fresh_client u = \<lparr>ws_auth = Obj [(''userId'', Num (IntN u))], ws_rooms = [], ws_received = []\<rparr>"

lemma joinOrder_run:
  assumes "0 < i" and "0 < u" and "int8 i" and "int8 u" and "g c = Some (fresh_client u)"
  shows "joinOrder c i label (d, h, g) =
    (if \<exists>r \<in> set (orders d). o_id r = i \<and> o_user_id r = u then (Inr (), (d, h, joinRoom c (getRoomName i) g))
     else (Inl (JsError (label @ '' join failed: Order does not belong to this user'')), (d, h, g)))"
  using assms by (simp add: joinOrder_def attempt_def joinOrderRoom_def positive_int_def fresh_client_def
      cmd_bind_run cmd_simps belongsToUser_run)

lemma fetch_refused:
  "fetchOrder cr cfg now None i s = (Inl (JsError (''GET /orders/'' @ show_int i @ '' failed with 401'')), s)"
proof -
  have "getOrder cr cfg now None i d = (Inl (Unauthorized ''Access token is required''), d)" for d
    by (simp add: getOrder_def canActivate_def bearer_def cmd_bind_run cmd_simps)
  moreover have "show_nat 401 = ''401''" by code_simp
  ultimately show ?thesis
    by (cases s) (simp add: fetchOrder_def attempt_def cmd_bind_run cmd_simps)
qed

lemma demo_ids: "int8 ORDER_A" "int8 ORDER_B" "int8 USER_A" "int8 USER_B"
  "0 < ORDER_A" "0 < ORDER_B" "0 < USER_A" "0 < USER_B" "ORDER_A \<noteq> ORDER_B" "USER_A \<noteq> USER_B"
  by (simp_all add: ORDER_A_def ORDER_B_def USER_A_def USER_B_def int8_def)

lemma room_demo: "0 < roomBOrderId same" "0 < roomBUserId same" "int8 (roomBOrderId same)" "int8 (roomBUserId same)"
  by (simp_all add: roomBOrderId_def roomBUserId_def demo_ids)

text \<open>The sockets after the joins that succeeded.\<close>

definition joined :: "bool \<Rightarrow> nat \<Rightarrow> int \<Rightarrow> gateway \<Rightarrow> gateway" where
  "joined ok c i g = (if ok then joinRoom c (getRoomName i) g else g)"

definition order_of :: "db \<Rightarrow> int \<Rightarrow> int \<Rightarrow> bool" where
  "order_of d i u \<longleftrightarrow> (\<exists>r \<in> set (orders d). o_id r = i \<and> o_user_id r = u)"

lemma both_joins:
  assumes "a \<noteq> b" and "g a = Some (fresh_client USER_A)" and "g b = Some (fresh_client (roomBUserId same))"
  shows "\<exists>r. both (joinOrder a ORDER_A ''client A'') (joinOrder b (roomBOrderId same) ''client B'') (d, h, g) =
      (r, (d, h, joined (order_of d (roomBOrderId same) (roomBUserId same)) b (roomBOrderId same)
        (joined (order_of d ORDER_A USER_A) a ORDER_A g))) \<and>
    (r = Inr () \<longleftrightarrow> order_of d ORDER_A USER_A \<and> order_of d (roomBOrderId same) (roomBUserId same))"
proof -
  note A = joinOrder_run [where i = ORDER_A and u = USER_A and g = g and c = a, OF demo_ids(5,7,1,3) assms(2), of "''client A''" d h, folded order_of_def]
  have B: "joined ok a ORDER_A g b = Some (fresh_client (roomBUserId same))" for ok
    using assms(1,3) by (simp add: joined_def joinRoom_def)
  note B = joinOrder_run [where i = "roomBOrderId same" and u = "roomBUserId same" and c = b and g = "joined ok a ORDER_A g" for ok, OF room_demo B, of "''client B''" d h, folded order_of_def]
  have "joined True x i k = joinRoom x (getRoomName i) k" "joined False x i k = k" for x i k
    by (simp_all add: joined_def)
  with A B [of True] B [of False] show ?thesis
    by (cases "order_of d ORDER_A USER_A"; cases "order_of d (roomBOrderId same) (roomBUserId same)")
      (simp_all add: both_def attempt_def cmd_bind_run cmd_simps)
qed

lemma joined_at:
  "joined ok c i g c = map_option (\<lambda>s. if ok then s\<lparr>ws_rooms := getRoomName i # ws_rooms s\<rparr> else s) (g c)"
  "c' \<noteq> c \<Longrightarrow> joined ok c i g c' = g c'"
  by (cases "g c"; simp add: joined_def joinRoom_def)+

lemma joined_disconnect: "(joined ok c i g)(c := None) = g(c := None)"
  by (simp add: joined_def joinRoom_def)

lemma joined_disconnect_both:
  "a \<noteq> b \<Longrightarrow> (joined ok b i (joined ok' a j g))(a := None, b := None) = g(a := None, b := None)"
  by (simp add: joined_def joinRoom_def fun_eq_iff)

text \<open>C38: the script never passes. Whatever orders exist and whichever rooms the clients join, its
  request for the order carries no token and is refused with 401 before the status is changed:
  no client is told anything, the exit code is 1, and orders, events and the other sockets are as before.\<close>
theorem realtime_demo_fails:
  assumes "a \<noteq> b"
  shows "realtime_demo cr cfg shown now at same a b (d, h, g) =
    (Inr \<lparr>rt_aReceived = 0, rt_bReceived = 0, rt_exitCode = 1\<rparr>, (d, h, g(a := None, b := None)))"
proof -
  define g1 where "g1 = g(a \<mapsto> fresh_client USER_A, b \<mapsto> fresh_client (roomBUserId same))"
  let ?A = "order_of d ORDER_A USER_A" and ?B = "order_of d (roomBOrderId same) (roomBUserId same)"
  define g2 where "g2 = joined ?B b (roomBOrderId same) (joined ?A a ORDER_A g1)"
  have connected: "connectClient b (roomBUserId same) (d, h, g(a \<mapsto> fresh_client USER_A)) = (Inr (), (d, h, g1))"
    "connectClient a USER_A (d, h, g) = (Inr (), (d, h, g(a \<mapsto> fresh_client USER_A)))"
    by (simp_all add: connectClient_def fresh_client_def g1_def cmd_simps)
  obtain r where joins: "both (joinOrder a ORDER_A ''client A'') (joinOrder b (roomBOrderId same) ''client B'') (d, h, g1) =
      (r, (d, h, g2))"
    using both_joins [of a b g1 same d h] assms unfolding g2_def by (auto simp: g1_def)
  have "noted a (d, h, g2) = 0" "noted b (d, h, g2) = 0"
    using assms by (simp_all add: noted_def g2_def joined_at g1_def fresh_client_def)
  moreover have "g2(a := None, b := None) = g(a := None, b := None)"
    using assms unfolding g2_def joined_disconnect_both [OF assms] by (simp add: g1_def fun_eq_iff)
  ultimately show ?thesis
    by (cases r) (simp_all add: realtime_demo_def realtime_run_def cmd_bind_run cmd_simps connected joins attempt_def
        fetch_refused disconnect_def)
qed

theorem realtime_demo_fails_witness:
  "realtime_demo sample_crypto sample_config (\<lambda>_. ''x'') 0 ''now'' True 0 1 (empty_db, init_hub, \<lambda>_. None) =
    (Inr \<lparr>rt_aReceived = 0, rt_bReceived = 0, rt_exitCode = 1\<rparr>, (empty_db, init_hub, \<lambda>_. None))"
  using realtime_demo_fails [of 0 1 sample_crypto sample_config "\<lambda>_. ''x''" 0 "''now''" True empty_db init_hub "\<lambda>_. None"]
  by (simp add: fun_upd_idem)

text \<open>
  With a header that the guard admits for the owner of the first order, the same script passes in
  both of its modes: the client in the room of the order is told of its new status, and the other
  one only if it joined that room too.
\<close>

lemma next_status: "status_of_name (Str (getNextStatus (status_name s))) =
    Some (case s of Created \<Rightarrow> Paid | Paid \<Rightarrow> Shipped | Shipped \<Rightarrow> Completed | Completed \<Rightarrow> Cancelled | Cancelled \<Rightarrow> Created)"
proof -
  have "getNextStatus ''created'' = ''paid''" "getNextStatus ''paid'' = ''shipped''" "getNextStatus ''shipped'' = ''completed''"
    "getNextStatus ''completed'' = ''cancelled''" "getNextStatus ''cancelled'' = ''created''"
    by code_simp+
  then show ?thesis unfolding status_of_name_Some by (cases s) simp_all
qed

lemma room_name_inject: "getRoomName i = getRoomName j \<longleftrightarrow> i = j"
  by (simp add: getRoomName_def)

lemma deliver_at:
  "gatewayDeliver e g c = map_option (\<lambda>s. if getRoomName (ev_order_id e) \<in> set (ws_rooms s)
     then s\<lparr>ws_received := ws_received s @ [e]\<rparr> else s) (g c)"
  by (simp add: gatewayDeliver_def)

lemma patch_run:
  assumes "order_of d ORDER_A USER_A"
  shows "\<exists>r d' h' e. patchOrderStatus shown at ORDER_A (getNextStatus (status_name s)) (d, h, g) = (Inr r, (d', h', gatewayDeliver e g)) \<and>
    ev_order_id e = ORDER_A"
proof -
  obtain st where st: "status_of_name (Str (getNextStatus (status_name s))) = Some st" using next_status by blast
  obtain x where x: "first_where (\<lambda>r. o_id r = ORDER_A) (orders d) = Some x"
    using assms by (cases "first_where (\<lambda>r. o_id r = ORDER_A) (orders d)") (auto simp: order_of_def)
  have "ev_order_id (fst (hubEmit ORDER_A st at h)) = ORDER_A"
    by (simp add: hubEmit_def emitStatusChanged_def Let_def)
  then show ?thesis
    using updateStatus_run [OF st, of shown at ORDER_A d h g] x demo_ids(1)
    by (auto simp: patchOrderStatus_def updateOrderStatus_def attempt_def cmd_bind_run cmd_simps)
qed

lemma realtime_with_token:
  assumes "a \<noteq> b" and "getOrder cr cfg now header ORDER_A d = (Inr order, d)"
    and "order_of d ORDER_A USER_A" and "order_of d (roomBOrderId same) (roomBUserId same)"
  shows "\<exists>d' h' e. realtime_run cr cfg shown now at header same a b (d, h, g) =
    (Inr \<lparr>rt_aReceived = 1, rt_bReceived = expectedBReceived same, rt_exitCode = 0\<rparr>,
      (d', h', (gatewayDeliver e g)(a := None, b := None)))"
proof -
  define g1 where "g1 = g(a \<mapsto> fresh_client USER_A, b \<mapsto> fresh_client (roomBUserId same))"
  define g2 where "g2 = joined True b (roomBOrderId same) (joined True a ORDER_A g1)"
  have connected: "connectClient b (roomBUserId same) (d, h, g(a \<mapsto> fresh_client USER_A)) = (Inr (), (d, h, g1))"
    "connectClient a USER_A (d, h, g) = (Inr (), (d, h, g(a \<mapsto> fresh_client USER_A)))"
    by (simp_all add: connectClient_def fresh_client_def g1_def cmd_simps)
  have joins: "both (joinOrder a ORDER_A ''client A'') (joinOrder b (roomBOrderId same) ''client B'') (d, h, g1) = (Inr (), (d, h, g2))"
    using both_joins [of a b g1 same d h] assms unfolding g2_def by (auto simp: g1_def)
  have fetched: "fetchOrder cr cfg now header ORDER_A (d, h, g2) = (Inr order, (d, h, g2))"
    using assms(2) by (simp add: fetchOrder_def attempt_def cmd_bind_run cmd_simps)
  obtain r d' h' e where patched: "patchOrderStatus shown at ORDER_A (getNextStatus (status_name (rp_status order))) (d, h, g2) =
      (Inr r, (d', h', gatewayDeliver e g2))" "ev_order_id e = ORDER_A"
    using patch_run [OF assms(3)] by blast
  have "noted a (d', h', gatewayDeliver e g2) = 1" "noted b (d', h', gatewayDeliver e g2) = expectedBReceived same"
    using assms(1) patched(2) demo_ids(9)
    by (simp_all add: noted_def deliver_at g2_def joined_at g1_def fresh_client_def expectedBReceived_def roomBOrderId_def
        room_name_inject)
  moreover have "(gatewayDeliver e g2)(a := None, b := None) = (gatewayDeliver e g)(a := None, b := None)"
    using assms(1) by (auto simp: fun_eq_iff deliver_at g2_def joined_at g1_def)
  ultimately show ?thesis
    using connected joins fetched patched(1)
    by (auto simp: realtime_run_def cmd_bind_run cmd_simps attempt_def disconnect_def)
qed

end
