(* ===== verification/StorageLogic.thy ===== *)
theory StorageLogic
  imports Storage "HOL-Library.AList"
begin

text \<open>
  What the demonstrations of files rely on: the documented behaviour of the S3 service, stated
  over a view of its state (stored objects, uploads in progress with their parts), rules for
  commands that succeed and change that view, and a service in memory that behaves so.
\<close>

section \<open>The service seen from outside\<close>

record stored_object =
  so_body :: "byte list"
  so_etag :: string
  so_contentType :: "string option"
  so_cacheControl :: "string option"

record bucket_view =
  bv_objects :: "string \<Rightarrow> stored_object option"
  bv_uploads :: "string \<times> string \<Rightarrow> (int \<Rightarrow> (byte list \<times> string) option) option"

text \<open>A \<open>PUT\<close> from another process: an HTTP status, a failed request, or no process.\<close>

datatype put_outcome = HttpStatus nat | FetchFailed string | SpawnFailed string

text \<open>The command succeeds with a response that satisfies \<open>P\<close> and leaves the view \<open>v\<close>.\<close>

definition responds ::
  "'s s3 \<Rightarrow> ('s \<Rightarrow> bucket_view) \<Rightarrow> s3_command \<Rightarrow> 's \<Rightarrow> (s3_response \<Rightarrow> bool) \<Rightarrow> bucket_view \<Rightarrow> bool" where
  "responds s3 view c s P v \<longleftrightarrow> (case s3_send s3 c s of (Inr r, s') \<Rightarrow> P r \<and> view s' = v | (Inl _, _) \<Rightarrow> False)"

definition refuses :: "'s s3 \<Rightarrow> ('s \<Rightarrow> bucket_view) \<Rightarrow> s3_command \<Rightarrow> 's \<Rightarrow> (err \<Rightarrow> bool) \<Rightarrow> bool" where
  "refuses s3 view c s P \<longleftrightarrow> (case s3_send s3 c s of (Inl e, s') \<Rightarrow> P e \<and> view s' = view s | (Inr _, _) \<Rightarrow> False)"

text \<open>Making the bucket ready touches no object, and the bucket is there or can be created.\<close>

definition bucket_laws :: "'s s3 \<Rightarrow> string \<Rightarrow> ('s \<Rightarrow> bucket_view) \<Rightarrow> bool" where
  "bucket_laws s3 b view \<longleftrightarrow> (\<forall>s.
     (\<forall>c \<in> {HeadBucket b, CreateBucket b, PutPublicAccessBlock b}. view (snd (s3_send s3 c s)) = view s) \<and>
     ((\<exists>r. fst (s3_send s3 (HeadBucket b) s) = Inr r) \<or>
      (\<exists>r. fst (s3_send s3 (CreateBucket b) (snd (s3_send s3 (HeadBucket b) s))) = Inr r)))"

text \<open>Objects: a body that was put is got, \<open>HEAD\<close> tells its size and tag, a missing one is 404.\<close>

definition object_laws :: "'s s3 \<Rightarrow> string \<Rightarrow> (err \<Rightarrow> nat option) \<Rightarrow> ('s \<Rightarrow> bucket_view) \<Rightarrow> bool" where
  "object_laws s3 b code view \<longleftrightarrow> (\<forall>s k.
     responds s3 view (DeleteObject b k) s (\<lambda>_. True) (view s\<lparr>bv_objects := (bv_objects (view s))(k := None)\<rparr>) \<and>
     (\<forall>body ct cc. \<exists>t. responds s3 view (PutObjectBody b k body ct cc) s (\<lambda>_. True)
        (view s\<lparr>bv_objects := (bv_objects (view s))(k \<mapsto>
           \<lparr>so_body = body, so_etag = t, so_contentType = Some ct, so_cacheControl = Some cc\<rparr>)\<rparr>)) \<and>
     (case bv_objects (view s) k of
        None \<Rightarrow> refuses s3 view (HeadObject b k) s (\<lambda>e. code e = Some 404) \<and> refuses s3 view (GetObject b k) s (\<lambda>_. True)
      | Some x \<Rightarrow>
          responds s3 view (HeadObject b k) s
            (\<lambda>r. s3_ContentLength r = Some (int (length (so_body x))) \<and> s3_ETag r = Some (so_etag x)) (view s) \<and>
          responds s3 view (GetObject b k) s
            (\<lambda>r. s3_Body r = Some (so_body x) \<and> s3_ContentType r = so_contentType x \<and> s3_CacheControl r = so_cacheControl x)
            (view s)))"

text \<open>
  Uploads in parts: a new upload has a new identifier and no parts, the listings name what is in
  progress and (up to a thousand) the parts, and parts in ascending order, all but the last of at
  least five mebibytes, complete to one object whose entity tag ends in their number.
\<close>

definition upload_laws :: "'s s3 \<Rightarrow> string \<Rightarrow> ('s \<Rightarrow> bucket_view) \<Rightarrow> bool" where
  "upload_laws s3 b view \<longleftrightarrow> (\<forall>s.
     (\<exists>us. distinct us \<and> (\<forall>x \<in> set us. bv_uploads (view s) x \<noteq> None) \<and>
        responds s3 view (ListMultipartUploads b) s
          (\<lambda>r. s3_Uploads r = Some (map (\<lambda>(k, u). (Some k, Some u)) us) \<or> us = [] \<and> s3_Uploads r = None) (view s)) \<and>
     (\<forall>k ct. \<exists>u. u \<noteq> [] \<and> bv_uploads (view s) (k, u) = None \<and>
        responds s3 view (CreateMultipart b k ct) s (\<lambda>r. s3_UploadId r = Some u)
          (view s\<lparr>bv_uploads := (bv_uploads (view s))((k, u) \<mapsto> Map.empty)\<rparr>)) \<and>
     (\<forall>k u ps. bv_uploads (view s) (k, u) = Some ps \<longrightarrow>
        responds s3 view (AbortMultipart b k u) s (\<lambda>_. True)
          (view s\<lparr>bv_uploads := (bv_uploads (view s))((k, u) := None)\<rparr>) \<and>
        (finite (dom ps) \<and> card (dom ps) \<le> 1000 \<longrightarrow>
           (\<exists>ns. distinct ns \<and> set ns = dom ps \<and>
              responds s3 view (ListParts b k u) s
                (\<lambda>r. s3_Parts r = Some (map (\<lambda>n. \<lparr>sp_PartNumber = Some n, sp_ETag = Some (snd (the (ps n))),
                       sp_Size = Some (int (length (fst (the (ps n)))))\<rparr>) ns) \<or> ns = [] \<and> s3_Parts r = None) (view s))) \<and>
        (\<forall>pl. pl \<noteq> [] \<and> sorted_wrt (<) (map fst pl) \<and> (\<forall>(n, e) \<in> set pl. \<exists>body. ps n = Some (body, e)) \<and>
           (\<forall>(n, e) \<in> set (butlast pl). MIN_PART_SIZE \<le> int (length (fst (the (ps n))))) \<longrightarrow>
           (\<exists>h ct cc. let t = CHR 0x22 # h @ ''-'' @ show_nat (length pl) @ [CHR 0x22] in
              responds s3 view (CompleteMultipart b k u pl) s (\<lambda>r. s3_ETag r = Some t)
                (view s\<lparr>bv_objects := (bv_objects (view s))(k \<mapsto>
                     \<lparr>so_body = concat (map (\<lambda>(n, _). fst (the (ps n))) pl), so_etag = t, so_contentType = ct, so_cacheControl = cc\<rparr>),
                   bv_uploads := (bv_uploads (view s))((k, u) := None)\<rparr>)))))"

text \<open>A signed part URL admits a \<open>PUT\<close> of that part without credentials.\<close>

definition part_url_laws :: "'s s3 \<Rightarrow> string \<Rightarrow> (string \<Rightarrow> byte list \<Rightarrow> 's \<Rightarrow> put_outcome \<times> 's) \<Rightarrow> ('s \<Rightarrow> bucket_view) \<Rightarrow> bool" where
  "part_url_laws s3 b put view \<longleftrightarrow> (\<forall>k u n. \<exists>url. s3_presign s3 (UploadPart b k u n) 300 = Inr url \<and>
     (\<forall>s ps body. bv_uploads (view s) (k, u) = Some ps \<and> 1 \<le> n \<and> n \<le> MAX_PARTS \<longrightarrow>
        (\<exists>s' t. put url body s = (HttpStatus 200, s') \<and> t \<noteq> [] \<and>
           view s' = view s\<lparr>bv_uploads := (bv_uploads (view s))((k, u) \<mapsto> ps(n \<mapsto> (body, t)))\<rparr>)))"

section \<open>Commands that succeed\<close>

text \<open>From any state that \<open>p\<close> sees as \<open>v\<close>, \<open>m\<close> returns a value and leaves what \<open>Q\<close> says.\<close>

definition yields :: "('s \<Rightarrow> 'v) \<Rightarrow> ('s, 'a) cmd \<Rightarrow> 'v \<Rightarrow> ('a \<Rightarrow> 'v \<Rightarrow> bool) \<Rightarrow> bool" where
  "yields p m v Q \<longleftrightarrow> (\<forall>s. p s = v \<longrightarrow>
     (case m s of (Inr a, s') \<Rightarrow> Q a (p s') | (Inl _, _) \<Rightarrow> False))"

abbreviation seen :: "('s \<Rightarrow> bucket_view) \<Rightarrow> 's storage \<Rightarrow> bucket_view" where
  "seen view \<equiv> (\<lambda>s. view (st_service s))"

lemma yields_result:
  assumes "yields p m (p s) Q"
  obtains a s' where "m s = (Inr a, s')" "Q a (p s')"
proof (cases "m s")
  case (Pair r s')
  with assms [unfolded yields_def, rule_format, of s] that show ?thesis by (cases r) auto
qed

lemma yields_run:
  assumes "p s = v" and "yields p m v Q"
  obtains a s' where "m s = (Inr a, s')" "Q a (p s')"
  using yields_result [of p m s Q] assms that by metis

lemma yields_return: "Q a v \<Longrightarrow> yields p (cmd_return a) v Q"
  by (simp add: yields_def cmd_simps)

lemma yields_lift: "r = Inr a \<Longrightarrow> Q a v \<Longrightarrow> yields p (cmd_lift r) v Q"
  by (simp add: yields_def cmd_simps)

lemma yields_bind:
  assumes "yields p m v P" and "\<And>a w. P a w \<Longrightarrow> yields p (f a) w Q"
  shows "yields p (cmd_bind m f) v Q"
  using assms by (fastforce simp: yields_def cmd_bind_run split: prod.splits sum.splits)

lemma yields_weaken: "yields p m v P \<Longrightarrow> (\<And>a w. P a w \<Longrightarrow> Q a w) \<Longrightarrow> yields p m v Q"
  by (fastforce simp: yields_def split: prod.splits sum.splits)

lemma yields_try: "yields p m v Q \<Longrightarrow> yields p (cmd_try m h) v Q"
  by (fastforce simp: yields_def cmd_try_def split: prod.splits sum.splits)

lemma yields_send_some:
  assumes "\<And>s. view s = v \<Longrightarrow> \<exists>P w. responds s3 view c s P w \<and> (\<forall>r. P r \<longrightarrow> Q r w)"
  shows "yields (seen view) (send s3 c) v Q"
  unfolding yields_def
proof (intro allI impI)
  fix s :: "'a storage" assume "view (st_service s) = v"
  from assms [OF this] obtain P w where "responds s3 view c (st_service s) P w" "\<forall>r. P r \<longrightarrow> Q r w" by blast
  then show "case send s3 c s of (Inr a, s') \<Rightarrow> Q a (view (st_service s')) | (Inl _, _) \<Rightarrow> False"
    by (auto simp: responds_def send_def split: prod.splits sum.splits)
qed

lemma yields_send:
  "(\<And>s. view s = v \<Longrightarrow> responds s3 view c s P w) \<Longrightarrow> yields (seen view) (send s3 c) v (\<lambda>r w'. P r \<and> w' = w)"
  by (rule yields_send_some) blast

lemma yields_refused:
  assumes "\<And>s. view s = v \<Longrightarrow> refuses s3 view c s E" and "\<And>e. E e \<Longrightarrow> yields (seen view) (h e) v Q"
  shows "yields (seen view) (cmd_try (cmd_bind (send s3 c) f) h) v Q"
  unfolding yields_def
proof (intro allI impI)
  fix s :: "'a storage" assume v: "view (st_service s) = v"
  then obtain e t where e: "s3_send s3 c (st_service s) = (Inl e, t)" "E e" "view t = v"
    using assms(1) [OF v] by (auto simp: refuses_def split: prod.splits sum.splits)
  then show "case cmd_try (cmd_bind (send s3 c) f) h s of (Inr a, s') \<Rightarrow> Q a (view (st_service s')) | (Inl _, _) \<Rightarrow> False"
    using assms(2) [OF e(2), unfolded yields_def, rule_format, of "s\<lparr>st_service := t\<rparr>"]
    by (simp add: cmd_try_def cmd_bind_run send_def)
qed

text \<open>Beside another part of the state.\<close>

abbreviation beside :: "('s \<Rightarrow> bucket_view) \<Rightarrow> 'x \<times> 's storage \<Rightarrow> 'x \<times> bucket_view" where
  "beside view \<equiv> (\<lambda>(x, s). (x, view (st_service s)))"

lemma yields_storage:
  assumes "yields (seen view) m v Q"
  shows "yields (beside view) (on_snd m) (x, v) (\<lambda>a w. \<exists>u. w = (x, u) \<and> Q a u)"
  unfolding yields_def
proof (intro allI impI)
  fix st assume "beside view st = (x, v)"
  then obtain s where s: "st = (x, s)" "view (st_service s) = v" by (cases st) auto
  with assms have "yields (seen view) m (seen view s) Q" by simp
  then obtain a s' where "m s = (Inr a, s')" "Q a (view (st_service s'))" by (rule yields_result)
  then show "case on_snd m st of (Inr a, s') \<Rightarrow> \<exists>u. beside view s' = (x, u) \<and> Q a u | (Inl _, _) \<Rightarrow> False"
    by (simp add: s on_snd_def)
qed

lemma yields_db:
  assumes "m d = (Inr a, d')"
  shows "yields (beside view) (on_fst m) (d, v) (\<lambda>b w. b = a \<and> w = (d', v))"
  using assms by (auto simp: yields_def on_fst_def)

lemma yields_value: "r = Inr a \<Longrightarrow> yields p (cmd_lift r) v (\<lambda>b w. b = a \<and> w = v)"
  by (simp add: yields_lift)

text \<open>A loop, with an invariant over the elements still to come.\<close>

lemma yields_fold:
  assumes "I xs b v" and "\<And>x ys b v. I (x # ys) b v \<Longrightarrow> yields p (f x b) v (I ys)"
    and "\<And>b v. I [] b v \<Longrightarrow> Q b v"
  shows "yields p (cmd_fold f xs b) v Q"
  using assms(1)
proof (induction xs arbitrary: b v)
  case Nil
  then show ?case using assms(3) by (simp add: yields_return)
next
  case (Cons x xs)
  then show ?case by (auto intro: yields_bind [OF assms(2)])
qed

lemma client_run:
  fixes s :: "'a storage"
  assumes "getStorageConfig env = Inr config"
  obtains c where "getStorageClient env s = (Inr c, s\<lparr>st_client := Some c\<rparr>)"
  using assms that by (cases "st_client s") (auto simp: getStorageClient_def cmd_bind_run cmd_simps Let_def)

lemma yields_client:
  assumes "getStorageConfig env = Inr config" and "\<And>c. yields (seen view) (f c) v Q"
  shows "yields (seen view) (cmd_bind (getStorageClient env) f) v Q"
  unfolding yields_def
proof (intro allI impI)
  fix s :: "'a storage" assume v: "view (st_service s) = v"
  obtain c where c: "getStorageClient env s = (Inr c, s\<lparr>st_client := Some c\<rparr>)" by (rule client_run [OF assms(1)])
  have "view (st_service (s\<lparr>st_client := Some c\<rparr>)) = v" using v by simp
  then show "case cmd_bind (getStorageClient env) f s of (Inr a, s') \<Rightarrow> Q a (view (st_service s')) | (Inl _, _) \<Rightarrow> False"
    using assms(2) [of c, unfolded yields_def] by (simp add: cmd_bind_run c)
qed

lemma yields_bucket:
  assumes "getStorageConfig env = Inr config" and "yields (seen view) (f (sc_bucket config)) v Q"
  shows "yields (seen view) (with_bucket env f) v Q"
  unfolding with_bucket_def
  by (rule yields_client [OF assms(1)], rule yields_bind [where P = "\<lambda>a w. a = config \<and> w = v"])
    (use assms in \<open>auto intro: yields_lift\<close>)

lemma yields_ensure:
  assumes "getStorageConfig env = Inr config" and "bucket_laws s3 (sc_bucket config) view"
  shows "yields (seen view) (ensureStorageBucket s3 env) v (\<lambda>_ w. w = v)"
  unfolding yields_def
proof (intro allI impI)
  fix s :: "'a storage" assume v: "view (st_service s) = v"
  let ?b = "sc_bucket config"
  note laws = assms(2) [unfolded bucket_laws_def, rule_format]
  obtain c where c: "getStorageClient env s = (Inr c, s\<lparr>st_client := Some c\<rparr>)" by (rule client_run [OF assms(1)])
  obtain h t where h: "s3_send s3 (HeadBucket ?b) (st_service s) = (h, t)" by (rule prod.exhaust)
  obtain h' t' where h': "s3_send s3 (CreateBucket ?b) t = (h', t')" by (rule prod.exhaust)
  have views: "view t = v" "view t' = v" "view (snd (s3_send s3 (PutPublicAccessBlock ?b) x)) = view x" for x
    using laws [of "st_service s"] laws [of t] laws [of x] v h h' by auto
  have "(\<exists>r. h = Inr r) \<or> (\<exists>r. h' = Inr r)" using laws [of "st_service s"] h h' by auto
  then show "case ensureStorageBucket s3 env s of (Inr a, s') \<Rightarrow> view (st_service s') = v | (Inl _, _) \<Rightarrow> False"
    using views v by (auto simp: ensureStorageBucket_def cmd_bind_run cmd_simps assms(1) c cmd_try_def send_def h h'
        split: prod.splits sum.splits) (metis snd_conv)+
qed

section \<open>The laws as rules\<close>

lemma law_delete:
  assumes "object_laws s3 b code view" and "view s = v"
  shows "responds s3 view (DeleteObject b k) s (\<lambda>_. True) (v\<lparr>bv_objects := (bv_objects v)(k := None)\<rparr>)"
  using assms(1) [unfolded object_laws_def, THEN spec [where x = s], THEN spec [where x = k]] assms(2) by simp

lemma law_head:
  assumes "object_laws s3 b code view" and "view s = v" and "bv_objects v k = Some x"
  shows "responds s3 view (HeadObject b k) s
    (\<lambda>r. s3_ContentLength r = Some (int (length (so_body x))) \<and> s3_ETag r = Some (so_etag x)) v"
  using assms(1) [unfolded object_laws_def, THEN spec [where x = s], THEN spec [where x = k]] assms(2,3) by simp

lemma law_head_missing:
  assumes "object_laws s3 b code view" and "view s = v" and "bv_objects v k = None"
  shows "refuses s3 view (HeadObject b k) s (\<lambda>e. code e = Some 404)"
  using assms(1) [unfolded object_laws_def, THEN spec [where x = s], THEN spec [where x = k]] assms(2,3) by simp

lemma law_abort:
  assumes "upload_laws s3 b view" and "view s = v" and "bv_uploads v (k, u) = Some ps"
  shows "responds s3 view (AbortMultipart b k u) s (\<lambda>_. True) (v\<lparr>bv_uploads := (bv_uploads v)((k, u) := None)\<rparr>)"
  using assms(1) [unfolded upload_laws_def, THEN spec [where x = s], THEN conjunct2, THEN conjunct2, rule_format, of k u ps, THEN conjunct1]
    assms(2,3) by simp

lemma yields_abort:
  assumes "getStorageConfig env = Inr config" and "upload_laws s3 (sc_bucket config) view" and "bv_uploads v (k, u) = Some ps"
  shows "yields (seen view) (abortMultipartUpload s3 env k u) v (\<lambda>_ w. w = v\<lparr>bv_uploads := (bv_uploads v)((k, u) := None)\<rparr>)"
  unfolding abortMultipartUpload_def
  by (rule yields_bucket [OF assms(1)], rule yields_bind [OF yields_send [OF law_abort [OF assms(2) _ assms(3)]]])
    (auto intro: yields_return)

lemma yields_create_upload:
  assumes "getStorageConfig env = Inr config" and "bucket_laws s3 (sc_bucket config) view" and "upload_laws s3 (sc_bucket config) view"
  shows "yields (seen view) (createMultipartUpload s3 env k ct) v (\<lambda>u w. bv_uploads v (k, u) = None \<and>
    w = v\<lparr>bv_uploads := (bv_uploads v)((k, u) \<mapsto> Map.empty)\<rparr>)"
proof -
  let ?w = "\<lambda>u. v\<lparr>bv_uploads := (bv_uploads v)((k, u) \<mapsto> Map.empty)\<rparr>"
  have sent: "yields (seen view) (send s3 (CreateMultipart (sc_bucket config) k ct)) v
      (\<lambda>r w. \<exists>u. u \<noteq> [] \<and> bv_uploads v (k, u) = None \<and> s3_UploadId r = Some u \<and> w = ?w u)"
  proof (rule yields_send_some)
    fix s assume "view s = v"
    with assms(3) [unfolded upload_laws_def, THEN spec [where x = s], THEN conjunct2, THEN conjunct1, THEN spec [where x = k], THEN spec [where x = ct]]
    obtain u where "u \<noteq> []" "bv_uploads v (k, u) = None"
      "responds s3 view (CreateMultipart (sc_bucket config) k ct) s (\<lambda>r. s3_UploadId r = Some u) (?w u)" by auto
    then show "\<exists>P w. responds s3 view (CreateMultipart (sc_bucket config) k ct) s P w \<and>
        (\<forall>r. P r \<longrightarrow> (\<exists>u. u \<noteq> [] \<and> bv_uploads v (k, u) = None \<and> s3_UploadId r = Some u \<and> w = ?w u))" by blast
  qed
  show ?thesis
    unfolding createMultipartUpload_def
    by (intro yields_bind [OF yields_ensure [OF assms(1,2)]] yields_bucket [OF assms(1)], hypsubst, rule yields_bind [OF sent],
        elim exE conjE, simp only: option.case if_False, rule yields_return, simp)
qed

lemma yields_part_url:
  assumes "getStorageConfig env = Inr config" and "s3_presign s3 (UploadPart (sc_bucket config) k u n) 300 = Inr url"
  shows "yields (seen view) (createPartUrl s3 env k u n None) v (\<lambda>a w. a = url \<and> w = v)"
  unfolding createPartUrl_def
  by (rule yields_bucket [OF assms(1)]) (use assms(2) in \<open>auto intro: yields_lift\<close>)

lemma yields_list_parts:
  assumes "getStorageConfig env = Inr config" and "upload_laws s3 (sc_bucket config) view"
    and "bv_uploads v (k, u) = Some ps" and "finite (dom ps)" and "card (dom ps) \<le> 1000"
    and "\<And>n. n \<in> dom ps \<Longrightarrow> snd (the (ps n)) \<noteq> []"
  shows "yields (seen view) (listUploadedParts s3 env k u) v (\<lambda>l w. w = v \<and> distinct (map up_partNumber l) \<and>
    up_partNumber ` set l = dom ps \<and> (\<forall>x \<in> set l. up_etag x = snd (the (ps (up_partNumber x)))))"
proof -
  let ?part = "\<lambda>n. \<lparr>sp_PartNumber = Some n, sp_ETag = Some (snd (the (ps n))), sp_Size = Some (int (length (fst (the (ps n)))))\<rparr>"
  have sent: "yields (seen view) (send s3 (ListParts (sc_bucket config) k u)) v (\<lambda>r w. w = v \<and> (\<exists>ns. distinct ns \<and> set ns = dom ps \<and>
      (s3_Parts r = Some (map ?part ns) \<or> ns = [] \<and> s3_Parts r = None)))"
  proof (rule yields_send_some)
    fix s assume "view s = v"
    with assms(2) [unfolded upload_laws_def, THEN spec [where x = s], THEN conjunct2, THEN conjunct2, rule_format, of k u ps,
        THEN conjunct2, THEN conjunct1, rule_format] assms(3-5)
    obtain ns where "distinct ns" "set ns = dom ps"
      "responds s3 view (ListParts (sc_bucket config) k u) s (\<lambda>r. s3_Parts r = Some (map ?part ns) \<or> ns = [] \<and> s3_Parts r = None) v"
      by auto
    then show "\<exists>P w. responds s3 view (ListParts (sc_bucket config) k u) s P w \<and>
        (\<forall>r. P r \<longrightarrow> w = v \<and> (\<exists>ns. distinct ns \<and> set ns = dom ps \<and>
           (s3_Parts r = Some (map ?part ns) \<or> ns = [] \<and> s3_Parts r = None)))" by blast
  qed
  have "listed_parts r = map (to_uploaded \<circ> ?part) ns"
    if "set ns = dom ps" "s3_Parts r = Some (map ?part ns) \<or> ns = [] \<and> s3_Parts r = None" for r ns
  proof -
    have "filter usable_part (map ?part ns) = map ?part ns"
      using assms(6) that(1) by (intro filter_True) (auto simp: usable_part_def)
    then show ?thesis using that(2) by (auto simp: listed_parts_def)
  qed
  then have listed: "yields (seen view) (cmd_return (listed_parts r)) v (\<lambda>l w. w = v \<and> distinct (map up_partNumber l) \<and>
      up_partNumber ` set l = dom ps \<and> (\<forall>x \<in> set l. up_etag x = snd (the (ps (up_partNumber x)))))"
    if "distinct ns" "set ns = dom ps" "s3_Parts r = Some (map ?part ns) \<or> ns = [] \<and> s3_Parts r = None" for r ns
    using that by (intro yields_return) (auto simp: to_uploaded_def comp_def image_image)
  show ?thesis
    unfolding listUploadedParts_def
    by (rule yields_bucket [OF assms(1)], rule yields_bind [OF sent]) (use listed in blast)
qed

text \<open>Completing sends every part, in order, and stores their concatenation.\<close>

definition part_tag :: "string \<Rightarrow> nat \<Rightarrow> string" where
  "part_tag h n = CHR 0x22 # h @ ''-'' @ show_nat n @ [CHR 0x22]"

definition parts_fit :: "(int \<Rightarrow> (byte list \<times> string) option) \<Rightarrow> bool" where
  "parts_fit ps \<longleftrightarrow> finite (dom ps) \<and> dom ps \<noteq> {} \<and> card (dom ps) \<le> 1000 \<and> (\<forall>n \<in> dom ps. snd (the (ps n)) \<noteq> []) \<and>
     (\<forall>n \<in> set (butlast (sorted_list_of_set (dom ps))). MIN_PART_SIZE \<le> int (length (fst (the (ps n)))))"

lemma law_complete:
  assumes "upload_laws s3 b view" and "view s = v" and "bv_uploads v (k, u) = Some ps" and "parts_fit ps"
    and "pl = map (\<lambda>n. (n, snd (the (ps n)))) (sorted_list_of_set (dom ps))"
  shows "\<exists>h x. so_etag x = part_tag h (card (dom ps)) \<and>
    so_body x = concat (map (\<lambda>n. fst (the (ps n))) (sorted_list_of_set (dom ps))) \<and>
    responds s3 view (CompleteMultipart b k u pl) s (\<lambda>r. s3_ETag r = Some (so_etag x))
      (v\<lparr>bv_objects := (bv_objects v)(k \<mapsto> x), bv_uploads := (bv_uploads v)((k, u) := None)\<rparr>)"
proof -
  have fin: "finite (dom ps)" "dom ps \<noteq> {}" using assms(4) by (simp_all add: parts_fit_def)
  have fst_pl: "map fst pl = sorted_list_of_set (dom ps)" by (simp add: assms(5) comp_def)
  have "pl \<noteq> []" using fin by (simp add: assms(5))
  moreover have "sorted_wrt (<) (map fst pl)" unfolding fst_pl by (rule strict_sorted_list_of_set)
  moreover have "\<forall>(n, e) \<in> set pl. \<exists>body. ps n = Some (body, e)"
    using fin by (auto simp: assms(5))
  moreover have "\<forall>(n, e) \<in> set (butlast pl). MIN_PART_SIZE \<le> int (length (fst (the (ps n))))"
    using assms(4) by (auto simp: assms(5) parts_fit_def map_butlast [symmetric])
  ultimately obtain h ct cc where r: "let t = CHR 0x22 # h @ ''-'' @ show_nat (length pl) @ [CHR 0x22] in
      responds s3 view (CompleteMultipart b k u pl) s (\<lambda>r. s3_ETag r = Some t)
        (v\<lparr>bv_objects := (bv_objects v)(k \<mapsto>
             \<lparr>so_body = concat (map (\<lambda>(n, _). fst (the (ps n))) pl), so_etag = t, so_contentType = ct, so_cacheControl = cc\<rparr>),
           bv_uploads := (bv_uploads v)((k, u) := None)\<rparr>)"
    using assms(1) [unfolded upload_laws_def, THEN spec [where x = s], THEN conjunct2, THEN conjunct2, rule_format, of k u ps,
        THEN conjunct2, THEN conjunct2, rule_format, of pl] assms(2,3) by auto
  have "length pl = card (dom ps)" "map (\<lambda>(n, _). fst (the (ps n))) pl = map (\<lambda>n. fst (the (ps n))) (sorted_list_of_set (dom ps))"
    by (simp_all add: assms(5) comp_def)
  with r show ?thesis
    unfolding part_tag_def Let_def by (metis stored_object.select_convs(1,2))
qed

lemma sorted_parts:
  assumes "distinct (map up_partNumber l)" and "up_partNumber ` set l = D"
    and "\<forall>x \<in> set l. up_etag x = f (up_partNumber x)"
  shows "map (\<lambda>p. (up_partNumber p, up_etag p)) (sort_key up_partNumber l) = map (\<lambda>n. (n, f n)) (sorted_list_of_set D)"
proof -
  have "sorted (map up_partNumber (sort_key up_partNumber l))" "distinct (map up_partNumber (sort_key up_partNumber l))"
    using assms(1) by (simp_all add: distinct_map)
  then have "map up_partNumber (sort_key up_partNumber l) = sorted_list_of_set D"
    using assms(2) sorted_list_of_set.idem_if_sorted_distinct by fastforce
  then have "map (\<lambda>n. (n, f n)) (sorted_list_of_set D) = map ((\<lambda>n. (n, f n)) \<circ> up_partNumber) (sort_key up_partNumber l)"
    by (metis map_map)
  also have "\<dots> = map (\<lambda>p. (up_partNumber p, up_etag p)) (sort_key up_partNumber l)"
    using assms(3) by simp
  finally show ?thesis by simp
qed

lemma yields_complete:
  assumes "getStorageConfig env = Inr config" and "upload_laws s3 (sc_bucket config) view"
    and "bv_uploads v (k, u) = Some ps" and "parts_fit ps"
  shows "yields (seen view) (completeMultipartUpload s3 env k u) v (\<lambda>t w. \<exists>h x. t = so_etag x \<and> so_etag x = part_tag h (card (dom ps)) \<and>
    so_body x = concat (map (\<lambda>n. fst (the (ps n))) (sorted_list_of_set (dom ps))) \<and>
    w = v\<lparr>bv_objects := (bv_objects v)(k \<mapsto> x), bv_uploads := (bv_uploads v)((k, u) := None)\<rparr>)"
proof -
  let ?pl = "map (\<lambda>n. (n, snd (the (ps n)))) (sorted_list_of_set (dom ps))"
  let ?w = "\<lambda>x. v\<lparr>bv_objects := (bv_objects v)(k \<mapsto> x), bv_uploads := (bv_uploads v)((k, u) := None)\<rparr>"
  have fit: "finite (dom ps)" "dom ps \<noteq> {}" "card (dom ps) \<le> 1000" "\<And>n. n \<in> dom ps \<Longrightarrow> snd (the (ps n)) \<noteq> []"
    using assms(4) by (auto simp: parts_fit_def)
  have sent: "yields (seen view) (send s3 (CompleteMultipart (sc_bucket config) k u ?pl)) v (\<lambda>r w. \<exists>h x. s3_ETag r = Some (so_etag x) \<and>
      so_etag x = part_tag h (card (dom ps)) \<and>
      so_body x = concat (map (\<lambda>n. fst (the (ps n))) (sorted_list_of_set (dom ps))) \<and> w = ?w x)"
    by (rule yields_send_some) (use law_complete [OF assms(2) _ assms(3,4) refl] in blast)
  show ?thesis
    unfolding completeMultipartUpload_def
  proof (rule yields_bucket [OF assms(1)], rule yields_bind [OF yields_list_parts [OF assms(1-3) fit(1,3,4)]])
    fix l w
    assume l: "w = v \<and> distinct (map up_partNumber l) \<and> up_partNumber ` set l = dom ps \<and>
      (\<forall>x \<in> set l. up_etag x = snd (the (ps (up_partNumber x))))"
    then have pl: "map (\<lambda>p. (up_partNumber p, up_etag p)) (sort_key up_partNumber l) = ?pl"
      by (intro sorted_parts) auto
    have "l \<noteq> []" using l fit(2) by (metis empty_set image_empty)
    then show "yields (seen view) (if l = [] then cmd_throw (JsError ''Multipart upload has no uploaded parts'')
       else cmd_bind (send s3 (CompleteMultipart (sc_bucket config) k u
         (map (\<lambda>p. (up_partNumber p, up_etag p)) (sort_key up_partNumber l)))) (\<lambda>response.
       cmd_return (case s3_ETag response of None \<Rightarrow> [] | Some e \<Rightarrow> e))) w (\<lambda>t w. \<exists>h x. t = so_etag x \<and>
         so_etag x = part_tag h (card (dom ps)) \<and>
         so_body x = concat (map (\<lambda>n. fst (the (ps n))) (sorted_list_of_set (dom ps))) \<and> w = ?w x)"
      unfolding pl using l by (auto intro!: yields_bind [OF sent] yields_return) metis
  qed
qed

text \<open>Cleaning up leaves the objects alone.\<close>

lemma yields_cleanup:
  assumes "getStorageConfig env = Inr config" and "bucket_laws s3 (sc_bucket config) view" and "upload_laws s3 (sc_bucket config) view"
  shows "yields (seen view) (cleanupMultipartUploads s3 env) v (\<lambda>_ w. bv_objects w = bv_objects v)"
proof -
  have sent: "yields (seen view) (send s3 (ListMultipartUploads (sc_bucket config))) v (\<lambda>r w. w = v \<and> (\<exists>us. distinct us \<and>
      (\<forall>x \<in> set us. bv_uploads v x \<noteq> None) \<and>
      (s3_Uploads r = Some (map (\<lambda>(k, u). (Some k, Some u)) us) \<or> us = [] \<and> s3_Uploads r = None)))"
    by (rule yields_send_some)
      (use assms(3) [unfolded upload_laws_def, THEN spec, THEN conjunct1] in blast)
  have loop: "yields (seen view) (cmd_fold (cleanup_one s3 env) (map (\<lambda>(k, u). (Some k, Some u)) us) ()) v (\<lambda>_ w. bv_objects w = bv_objects v)"
    if "distinct us" "\<forall>x \<in> set us. bv_uploads v x \<noteq> None" for us
  proof (rule yields_fold [where I = "\<lambda>xs _ w. bv_objects w = bv_objects v \<and> (\<exists>us. xs = map (\<lambda>(k, u). (Some k, Some u)) us \<and>
      distinct us \<and> (\<forall>x \<in> set us. bv_uploads w x \<noteq> None))"])
    fix x ys b and w :: bucket_view
    assume "bv_objects w = bv_objects v \<and> (\<exists>us. x # ys = map (\<lambda>(k, u). (Some k, Some u)) us \<and>
      distinct us \<and> (\<forall>x \<in> set us. bv_uploads w x \<noteq> None))"
    then obtain k u us ps where i: "bv_objects w = bv_objects v" "x = (Some k, Some u)" "ys = map (\<lambda>(k, u). (Some k, Some u)) us"
      "distinct us" "(k, u) \<notin> set us" "\<forall>x \<in> set us. bv_uploads w x \<noteq> None" "bv_uploads w (k, u) = Some ps" by auto
    show "yields (seen view) (cleanup_one s3 env x b) w (\<lambda>_ w. bv_objects w = bv_objects v \<and>
      (\<exists>us. ys = map (\<lambda>(k, u). (Some k, Some u)) us \<and> distinct us \<and> (\<forall>x \<in> set us. bv_uploads w x \<noteq> None)))"
      unfolding cleanup_one_def i(2) prod.case option.case
      using i by (auto intro!: yields_return yields_weaken [OF yields_abort [OF assms(1,3) i(7)]])
  qed (use that in auto)
  show ?thesis
    unfolding cleanupMultipartUploads_def
  proof (rule yields_bind [OF yields_ensure [OF assms(1,2)]], rule yields_bucket [OF assms(1)])
    fix w assume "w = v"
    then show "yields (seen view) (cmd_bind (send s3 (ListMultipartUploads (sc_bucket config))) (\<lambda>response.
      cmd_fold (cleanup_one s3 env) (case s3_Uploads response of None \<Rightarrow> [] | Some us \<Rightarrow> us) ())) w (\<lambda>_ w. bv_objects w = bv_objects v)"
      using loop loop [of "[]"] by (auto intro!: yields_bind [OF sent])
  qed
qed

section \<open>A storage in memory\<close>

text \<open>An instance of the laws: objects and uploads in lists, tags that tell nothing apart.\<close>

record memory =
  mm_objects :: "(string \<times> stored_object) list"
  mm_uploads :: "((string \<times> string) \<times> (int \<times> byte list \<times> string) list) list"

definition mem_view :: "memory \<Rightarrow> bucket_view" where
  "mem_view m = \<lparr>bv_objects = map_of (mm_objects m), bv_uploads = (\<lambda>x. map_option map_of (map_of (mm_uploads m) x))\<rparr>"

definition mem_fresh :: "memory \<Rightarrow> string" where
  "mem_fresh m = replicate (Suc (sum_list (map (\<lambda>((k, u), _). length u) (mm_uploads m)))) CHR ''u''"

definition mem_head :: "stored_object \<Rightarrow> s3_response" where
  "mem_head x = no_response\<lparr>s3_ContentLength := Some (int (length (so_body x))), s3_ETag := Some (so_etag x),
     s3_ContentType := so_contentType x, s3_CacheControl := so_cacheControl x\<rparr>"

definition mem_send :: "s3_command \<Rightarrow> (memory, s3_response) cmd" where
  "mem_send c m = (case c of
       HeadObject _ k \<Rightarrow> (case map_of (mm_objects m) k of None \<Rightarrow> (Inl (NotFound ''NotFound''), m) | Some x \<Rightarrow> (Inr (mem_head x), m))
     | GetObject _ k \<Rightarrow> (case map_of (mm_objects m) k of None \<Rightarrow> (Inl (NotFound ''NoSuchKey''), m)
         | Some x \<Rightarrow> (Inr ((mem_head x)\<lparr>s3_Body := Some (so_body x)\<rparr>), m))
     | DeleteObject _ k \<Rightarrow> (Inr no_response, m\<lparr>mm_objects := AList.delete k (mm_objects m)\<rparr>)
     | PutObjectBody _ k body ct cc \<Rightarrow> (Inr no_response, m\<lparr>mm_objects := AList.update k
         \<lparr>so_body = body, so_etag = ''tag'', so_contentType = Some ct, so_cacheControl = Some cc\<rparr> (mm_objects m)\<rparr>)
     | CreateMultipart _ k ct \<Rightarrow> (Inr (no_response\<lparr>s3_UploadId := Some (mem_fresh m)\<rparr>),
         m\<lparr>mm_uploads := AList.update (k, mem_fresh m) [] (mm_uploads m)\<rparr>)
     | AbortMultipart _ k u \<Rightarrow> (Inr no_response, m\<lparr>mm_uploads := AList.delete (k, u) (mm_uploads m)\<rparr>)
     | ListMultipartUploads _ \<Rightarrow>
         (Inr (no_response\<lparr>s3_Uploads := Some (map (\<lambda>(k, u). (Some k, Some u)) (remdups (map fst (mm_uploads m))))\<rparr>), m)
     | ListParts _ k u \<Rightarrow> (case map_of (mm_uploads m) (k, u) of None \<Rightarrow> (Inl (NotFound ''NoSuchUpload''), m)
         | Some ps \<Rightarrow> (Inr (no_response\<lparr>s3_Parts := Some (map (\<lambda>n. \<lparr>sp_PartNumber = Some n, sp_ETag = Some (snd (the (map_of ps n))),
             sp_Size = Some (int (length (fst (the (map_of ps n)))))\<rparr>) (remdups (map fst ps)))\<rparr>), m))
     | CompleteMultipart _ k u pl \<Rightarrow> (case map_of (mm_uploads m) (k, u) of None \<Rightarrow> (Inl (NotFound ''NoSuchUpload''), m)
         | Some ps \<Rightarrow> (Inr (no_response\<lparr>s3_ETag := Some (part_tag ''tag'' (length pl))\<rparr>),
             m\<lparr>mm_objects := AList.update k \<lparr>so_body = concat (map (\<lambda>(n, _). fst (the (map_of ps n))) pl),
                  so_etag = part_tag ''tag'' (length pl), so_contentType = None, so_cacheControl = None\<rparr> (mm_objects m),
               mm_uploads := AList.delete (k, u) (mm_uploads m)\<rparr>))
     | _ \<Rightarrow> (Inr no_response, m))"

definition mem_presign :: "s3_command \<Rightarrow> int \<Rightarrow> err + string" where
  "mem_presign c ttl = (case c of
       UploadPart _ k u n \<Rightarrow> Inr (encode_part k @ encode_part u @ encode_part (show_int n))
     | _ \<Rightarrow> Inr [])"

definition mem_put :: "string \<Rightarrow> byte list \<Rightarrow> memory \<Rightarrow> put_outcome \<times> memory" where
  "mem_put url body m =
     (let (k, r) = decode_part url; (u, q) = decode_part r; (n, _) = decode_part q
      in case (map_of (mm_uploads m) (k, u), number_of_string n) of
          (Some ps, IntN i) \<Rightarrow> (HttpStatus 200, m\<lparr>mm_uploads := AList.update (k, u) (AList.update i (body, ''tag'') ps) (mm_uploads m)\<rparr>)
        | _ \<Rightarrow> (HttpStatus 404, m))"

definition memory_s3 :: "memory s3" where
  "memory_s3 = \<lparr>s3_send = mem_send, s3_presign = mem_presign\<rparr>"

lemma memory_s3_sel [simp]: "s3_send memory_s3 = mem_send" "s3_presign memory_s3 = mem_presign"
  by (simp_all add: memory_s3_def)

lemma mem_fresh_new: "map_of (mm_uploads m) (k, mem_fresh m) = None"
proof -
  have "length u \<le> sum_list (map (\<lambda>((k, u), _). length u) xs)" if "((k, u), ps) \<in> set xs"
    for u ps and xs :: "((string \<times> string) \<times> (int \<times> byte list \<times> string) list) list"
    using that by (induction xs) auto
  then show ?thesis
    by (fastforce simp: map_of_eq_None_iff mem_fresh_def)
qed

lemma mem_fresh_nonempty: "mem_fresh m \<noteq> []"
  by (simp add: mem_fresh_def)

lemma mem_bucket: "bucket_laws memory_s3 b mem_view"
  by (simp add: bucket_laws_def mem_send_def)

lemma mem_objects: "object_laws memory_s3 b (Some \<circ> status_of) mem_view"
  unfolding object_laws_def
  by (auto simp: responds_def refuses_def mem_send_def mem_view_def mem_head_def no_response_def delete_conv' update_conv'
      split: option.split)

lemma mem_uploads: "upload_laws memory_s3 b mem_view"
  unfolding upload_laws_def
proof (intro allI conjI impI, goal_cases)
  case (1 m)
  show ?case
    by (rule exI [of _ "remdups (map fst (mm_uploads m))"])
      (auto simp: responds_def mem_send_def mem_view_def no_response_def map_of_eq_None_iff)
next
  case (2 m k ct)
  show ?case
    by (rule exI [of _ "mem_fresh m"])
      (auto simp: responds_def mem_send_def mem_view_def no_response_def mem_fresh_new mem_fresh_nonempty update_conv' fun_eq_iff)
next
  case (3 m k u ps)
  then show ?case by (auto simp: responds_def mem_send_def mem_view_def delete_conv' fun_eq_iff)
next
  case (4 m k u ps)
  then obtain l where l: "map_of (mm_uploads m) (k, u) = Some l" "ps = map_of l" by (auto simp: mem_view_def)
  show ?case
    by (rule exI [of _ "remdups (map fst l)"])
      (auto simp: responds_def mem_send_def mem_view_def no_response_def l dom_map_of_conv_image_fst)
next
  case (5 m k u ps pl)
  then obtain l where l: "map_of (mm_uploads m) (k, u) = Some l" "ps = map_of l" by (auto simp: mem_view_def)
  show ?case
    by (rule exI [of _ "''tag''"], rule exI [of _ None], rule exI [of _ None])
      (auto simp: responds_def mem_send_def mem_view_def no_response_def l part_tag_def update_conv' delete_conv' fun_eq_iff)
qed

lemma mem_put_run:
  assumes "map_of (mm_uploads m) (k, u) = Some ps"
  shows "mem_put (encode_part k @ encode_part u @ encode_part (show_int n)) body m =
    (HttpStatus 200, m\<lparr>mm_uploads := AList.update (k, u) (AList.update n (body, ''tag'') ps) (mm_uploads m)\<rparr>)"
  using assms decode_encode [of "show_int n" "[]"] by (simp add: mem_put_def number_of_show_int)

lemma mem_part_urls: "part_url_laws memory_s3 b mem_put mem_view"
  unfolding part_url_laws_def
proof (intro allI exI conjI impI)
  fix k u n m ps body
  show "s3_presign memory_s3 (UploadPart b k u n) 300 = Inr (encode_part k @ encode_part u @ encode_part (show_int n))"
    by (simp add: mem_presign_def)
  assume "bv_uploads (mem_view m) (k, u) = Some ps \<and> 1 \<le> n \<and> n \<le> MAX_PARTS"
  then obtain l where l: "map_of (mm_uploads m) (k, u) = Some l" "ps = map_of l" by (auto simp: mem_view_def)
  show "mem_put (encode_part k @ encode_part u @ encode_part (show_int n)) body m =
      (HttpStatus 200, m\<lparr>mm_uploads := AList.update (k, u) (AList.update n (body, ''tag'') (the (map_of (mm_uploads m) (k, u)))) (mm_uploads m)\<rparr>)"
    using mem_put_run [OF l(1)] l(1) by simp
  show "''tag'' \<noteq> []" by simp
  show "mem_view (m\<lparr>mm_uploads := AList.update (k, u) (AList.update n (body, ''tag'') (the (map_of (mm_uploads m) (k, u)))) (mm_uploads m)\<rparr>) =
      mem_view m\<lparr>bv_uploads := (bv_uploads (mem_view m))((k, u) \<mapsto> ps(n \<mapsto> (body, ''tag'')))\<rparr>"
    by (simp add: mem_view_def l update_conv' fun_eq_iff)
qed

end
