(* ===== verification/MultipartDemo.thy ===== *)
theory MultipartDemo
  imports StorageLogic
begin

text \<open>
  \<open>src/demo-multipart.ts\<close>: an upload in parts is interrupted after two of three parts, resumed with
  what the listing says is missing, and completed. \<open>put\<close> is the \<open>PUT\<close> of the child process
  that has no credentials, \<open>code\<close> is \<open>error.$metadata?.httpStatusCode\<close>.
\<close>

section \<open>The script\<close>

definition KEY :: string where "KEY = ''multipart/hw26-demo.bin''"

text \<open>The child prints the status and exits with 0 if it is \<open>ok\<close>, from 200 to 299.\<close>

definition put_failed :: "string \<Rightarrow> string \<Rightarrow> err" where
  "put_failed stdout stderr = JsError (js_join '' '' [''UploadPart failed'', ''exit=1'', ''stdout='' @ stdout, ''stderr='' @ stderr])"

definition put_result :: "put_outcome \<Rightarrow> err + nat" where
  "put_result outcome = (case outcome of
       SpawnFailed m \<Rightarrow> Inl (JsError (''UploadPart process failed: '' @ m))
     | FetchFailed m \<Rightarrow> Inl (put_failed [] (js_trim m))
     | HttpStatus n \<Rightarrow> if 200 \<le> n \<and> n \<le> 299 then Inr n else Inl (put_failed (show_nat n) []))"

definition credentiallessPut ::
  "(string \<Rightarrow> byte list \<Rightarrow> 's \<Rightarrow> put_outcome \<times> 's) \<Rightarrow> string \<Rightarrow> byte list \<Rightarrow> ('s storage, nat) cmd" where
  "credentiallessPut put url body = (\<lambda>s. case put url body (st_service s) of
     (outcome, t) \<Rightarrow> (put_result outcome, s\<lparr>st_service := t\<rparr>))"

definition deleteDemoObject :: "'s s3 \<Rightarrow> environment \<Rightarrow> ('s storage, unit) cmd" where
  "deleteDemoObject s3 env = with_bucket env (\<lambda>bucket.
     cmd_try (cmd_bind (send s3 (DeleteObject bucket KEY)) (\<lambda>_. cmd_return ())) (\<lambda>_. cmd_return ()))"

definition clean :: "'s s3 \<Rightarrow> environment \<Rightarrow> ('s storage, unit) cmd" where
  "clean s3 env =
     cmd_bind (ensureStorageBucket s3 env) (\<lambda>_.
     cmd_bind (cleanupMultipartUploads s3 env) (\<lambda>_.
     deleteDemoObject s3 env))"

definition getHeadStatus :: "'s s3 \<Rightarrow> environment \<Rightarrow> (err \<Rightarrow> nat option) \<Rightarrow> ('s storage, nat) cmd" where
  "getHeadStatus s3 env code = with_bucket env (\<lambda>bucket.
     cmd_try (cmd_bind (send s3 (HeadObject bucket KEY)) (\<lambda>_. cmd_return 200))
       (\<lambda>e. cmd_return (case code e of None \<Rightarrow> 500 | Some n \<Rightarrow> n)))"

definition part1 :: "byte list" where
  "part1 = replicate (nat (calculatePartSize (15 * 1024 * 1024))) 0x41"

definition part2 :: "byte list" where
  "part2 = replicate (nat (calculatePartSize (15 * 1024 * 1024))) 0x42"

definition part3 :: "byte list" where
  "part3 = replicate (1024 * 1024) 0x43"

definition allParts :: "(int \<times> byte list) list" where
  "allParts = [(1, part1), (2, part2), (3, part3)]"

definition put_part ::
  "(string \<Rightarrow> byte list \<Rightarrow> 's \<Rightarrow> put_outcome \<times> 's) \<Rightarrow> int \<Rightarrow> string \<Rightarrow> byte list \<Rightarrow> ('s storage, unit) cmd" where
  "put_part put n url body =
     cmd_bind (credentiallessPut put url body) (\<lambda>status.
     if status \<noteq> 200 then cmd_throw (JsError (''Part '' @ show_int n @ '' returned '' @ show_nat status)) else cmd_return ())"

definition resume_part ::
  "'s s3 \<Rightarrow> environment \<Rightarrow> (string \<Rightarrow> byte list \<Rightarrow> 's \<Rightarrow> put_outcome \<times> 's) \<Rightarrow> string \<Rightarrow> int set \<Rightarrow>
     int \<times> byte list \<Rightarrow> nat \<Rightarrow> ('s storage, nat) cmd" where
  "resume_part s3 env put uploadId uploadedNumbers part resumedParts =
     (case part of (n, body) \<Rightarrow>
        if n \<in> uploadedNumbers then cmd_return resumedParts
        else cmd_bind (createPartUrl s3 env KEY uploadId n None) (\<lambda>url.
             cmd_bind (put_part put n url body) (\<lambda>_. cmd_return (resumedParts + 1))))"

text \<open>\<open>replaceAll('"', '')\<close> and \<open>/-\d+$/\<close>\<close>

definition strip_quotes :: "string \<Rightarrow> string" where
  "strip_quotes s = filter (\<lambda>c. c \<noteq> CHR 0x22) s"

definition multipart_tag :: "string \<Rightarrow> bool" where
  "multipart_tag t = (let ds = takeWhile is_digit (rev t)
     in ds \<noteq> [] \<and> (case drop (length ds) (rev t) of c # _ \<Rightarrow> c = CHR ''-'' | [] \<Rightarrow> False))"

record multipart_report =
  mp_headBeforeComplete :: nat
  mp_resumedParts :: nat
  mp_sizeMatch :: nat
  mp_etagMultipart :: nat
  mp_passed :: bool

definition multipart_verdict :: "nat \<Rightarrow> nat \<Rightarrow> string \<Rightarrow> s3_response \<Rightarrow> multipart_report" where
  "multipart_verdict headBeforeComplete resumedParts etag head =
     (let actualSize = (case s3_ContentLength head of None \<Rightarrow> 0 | Some n \<Rightarrow> n);
          sizeMatch = (if actualSize = int (length part1 + length part2 + length part3) then 1 else 0);
          finalEtag = strip_quotes (case s3_ETag head of None \<Rightarrow> etag | Some t \<Rightarrow> t);
          etagMultipart = (if multipart_tag finalEtag then 1 else 0)
      in \<lparr>mp_headBeforeComplete = headBeforeComplete, mp_resumedParts = resumedParts,
          mp_sizeMatch = sizeMatch, mp_etagMultipart = etagMultipart,
          mp_passed = (headBeforeComplete = 404 \<and> resumedParts = 1 \<and> sizeMatch = 1 \<and> etagMultipart = 1)\<rparr>)"

text \<open>The upload that stops after two parts, and what a client makes of it later.\<close>

definition interrupted_upload ::
  "'s s3 \<Rightarrow> environment \<Rightarrow> (string \<Rightarrow> byte list \<Rightarrow> 's \<Rightarrow> put_outcome \<times> 's) \<Rightarrow> ('s storage, string) cmd" where
  "interrupted_upload s3 env put =
     cmd_bind (createMultipartUpload s3 env KEY ''application/octet-stream'') (\<lambda>uploadId.
     cmd_bind (createPartUrl s3 env KEY uploadId 1 None) (\<lambda>url1.
     cmd_bind (createPartUrl s3 env KEY uploadId 2 None) (\<lambda>url2.
     cmd_bind (put_part put 1 url1 part1) (\<lambda>_.
     cmd_bind (put_part put 2 url2 part2) (\<lambda>_. cmd_return uploadId)))))"

definition resumed_upload ::
  "'s s3 \<Rightarrow> environment \<Rightarrow> (err \<Rightarrow> nat option) \<Rightarrow> (string \<Rightarrow> byte list \<Rightarrow> 's \<Rightarrow> put_outcome \<times> 's) \<Rightarrow> string \<Rightarrow>
     ('s storage, multipart_report) cmd" where
  "resumed_upload s3 env code put uploadId =
     cmd_bind (getHeadStatus s3 env code) (\<lambda>headBeforeComplete.
     cmd_bind (listUploadedParts s3 env KEY uploadId) (\<lambda>alreadyUploaded.
     cmd_bind (cmd_fold (resume_part s3 env put uploadId (up_partNumber ` set alreadyUploaded)) allParts 0) (\<lambda>resumedParts.
     cmd_bind (completeMultipartUpload s3 env KEY uploadId) (\<lambda>etag.
     cmd_bind (with_bucket env (\<lambda>bucket. send s3 (HeadObject bucket KEY))) (\<lambda>head.
     cmd_return (multipart_verdict headBeforeComplete resumedParts etag head))))))"

definition multipart_run ::
  "'s s3 \<Rightarrow> environment \<Rightarrow> (err \<Rightarrow> nat option) \<Rightarrow> (string \<Rightarrow> byte list \<Rightarrow> 's \<Rightarrow> put_outcome \<times> 's) \<Rightarrow>
     ('s storage, multipart_report) cmd" where
  "multipart_run s3 env code put = cmd_bind (interrupted_upload s3 env put) (resumed_upload s3 env code put)"

definition multipart_demo ::
  "'s s3 \<Rightarrow> environment \<Rightarrow> (err \<Rightarrow> nat option) \<Rightarrow> (string \<Rightarrow> byte list \<Rightarrow> 's \<Rightarrow> put_outcome \<times> 's) \<Rightarrow>
     ('s storage, multipart_report) cmd" where
  "multipart_demo s3 env code put =
     cmd_bind (clean s3 env) (\<lambda>_ s.
     case multipart_run s3 env code put s of
       (r, s') \<Rightarrow> cmd_bind (clean s3 env) (\<lambda>_. cmd_lift r) s')"

section \<open>Its steps\<close>

definition multipart_laws ::
  "'s s3 \<Rightarrow> string \<Rightarrow> (err \<Rightarrow> nat option) \<Rightarrow> (string \<Rightarrow> byte list \<Rightarrow> 's \<Rightarrow> put_outcome \<times> 's) \<Rightarrow> ('s \<Rightarrow> bucket_view) \<Rightarrow> bool" where
  "multipart_laws s3 b code put view \<longleftrightarrow>
     bucket_laws s3 b view \<and> object_laws s3 b code view \<and> upload_laws s3 b view \<and> part_url_laws s3 b put view"

lemma part_url:
  assumes "getStorageConfig env = Inr config" and "part_url_laws s3 (sc_bucket config) put view"
  shows "\<exists>url. (\<forall>v. yields (seen view) (createPartUrl s3 env k u n None) v (\<lambda>a w. a = url \<and> w = v)) \<and>
    (\<forall>v ps body. bv_uploads v (k, u) = Some ps \<and> 1 \<le> n \<and> n \<le> MAX_PARTS \<longrightarrow>
       yields (seen view) (put_part put n url body) v (\<lambda>_ w. \<exists>t. t \<noteq> [] \<and>
         w = v\<lparr>bv_uploads := (bv_uploads v)((k, u) \<mapsto> ps(n \<mapsto> (body, t)))\<rparr>))"
proof -
  obtain url where url: "s3_presign s3 (UploadPart (sc_bucket config) k u n) 300 = Inr url"
    and put: "\<And>s ps body. bv_uploads (view s) (k, u) = Some ps \<Longrightarrow> 1 \<le> n \<Longrightarrow> n \<le> MAX_PARTS \<Longrightarrow>
      \<exists>s' t. put url body s = (HttpStatus 200, s') \<and> t \<noteq> [] \<and>
        view s' = view s\<lparr>bv_uploads := (bv_uploads (view s))((k, u) \<mapsto> ps(n \<mapsto> (body, t)))\<rparr>"
    using assms(2) unfolding part_url_laws_def by metis
  have "yields (seen view) (put_part put n url body) v (\<lambda>_ w. \<exists>t. t \<noteq> [] \<and>
      w = v\<lparr>bv_uploads := (bv_uploads v)((k, u) \<mapsto> ps(n \<mapsto> (body, t)))\<rparr>)"
    if part: "bv_uploads v (k, u) = Some ps \<and> 1 \<le> n \<and> n \<le> MAX_PARTS" for v ps body
    unfolding yields_def
  proof (intro allI impI)
    fix s :: "'a storage" assume v: "view (st_service s) = v"
    then obtain s' t where "put url body (st_service s) = (HttpStatus 200, s')" "t \<noteq> []"
      "view s' = v\<lparr>bv_uploads := (bv_uploads v)((k, u) \<mapsto> ps(n \<mapsto> (body, t)))\<rparr>"
      using put [of "st_service s" ps body, unfolded v] part by blast
    then show "case put_part put n url body s of (Inr a, s') \<Rightarrow>
        \<exists>t. t \<noteq> [] \<and> view (st_service s') = v\<lparr>bv_uploads := (bv_uploads v)((k, u) \<mapsto> ps(n \<mapsto> (body, t)))\<rparr> | (Inl _, _) \<Rightarrow> False"
      by (auto simp: put_part_def credentiallessPut_def put_result_def cmd_bind_run cmd_simps)
  qed
  with yields_part_url [of env config s3 k u n url view, OF assms(1) url] show ?thesis by blast
qed

text \<open>Resuming uploads exactly the parts that are not there, and counts them.\<close>

definition resumed :: "int set \<Rightarrow> (int \<times> byte list) list \<Rightarrow> (int \<Rightarrow> (byte list \<times> string) option) \<Rightarrow>
    (int \<Rightarrow> (byte list \<times> string) option) \<Rightarrow> bool" where
  "resumed U xs ps ps' \<longleftrightarrow> (\<forall>n. if n \<in> U \<or> n \<notin> fst ` set xs then ps' n = ps n
     else \<exists>t. t \<noteq> [] \<and> ps' n = Some (the (map_of xs n), t))"

lemma resumed_skip: "n \<in> U \<Longrightarrow> resumed U ((n, body) # xs) ps ps' = resumed U xs ps ps'"
  unfolding resumed_def by (intro iff_allI) auto

lemma resumed_put:
  assumes "n \<notin> U" and "n \<notin> fst ` set xs" and "t \<noteq> []" and "resumed U xs (ps(n \<mapsto> (body, t))) ps'"
  shows "resumed U ((n, body) # xs) ps ps'"
  unfolding resumed_def
proof
  fix m
  show "if m \<in> U \<or> m \<notin> fst ` set ((n, body) # xs) then ps' m = ps m
      else \<exists>t. t \<noteq> [] \<and> ps' m = Some (the (map_of ((n, body) # xs) m), t)"
    using assms(1-3) assms(4) [unfolded resumed_def, THEN spec [where x = m]]
    by (cases "m = n") (auto split: if_splits)
qed

lemma yields_resume:
  assumes "getStorageConfig env = Inr config" and "part_url_laws s3 (sc_bucket config) put view"
    and "bv_uploads v (KEY, u) = Some ps" and "distinct (map fst xs)" and "\<forall>(n, _) \<in> set xs. 1 \<le> n \<and> n \<le> MAX_PARTS"
  shows "yields (seen view) (cmd_fold (resume_part s3 env put u U) xs c) v (\<lambda>c' w. c' = c + length (filter (\<lambda>(n, _). n \<notin> U) xs) \<and>
    (\<exists>ps'. w = v\<lparr>bv_uploads := (bv_uploads v)((KEY, u) \<mapsto> ps')\<rparr> \<and> resumed U xs ps ps'))"
  using assms(3-5)
proof (induction xs arbitrary: c v ps)
  case Nil
  then have "(bv_uploads v)((KEY, u) \<mapsto> ps) = bv_uploads v" by (simp only: fun_upd_idem)
  then have "v\<lparr>bv_uploads := (bv_uploads v)((KEY, u) \<mapsto> ps)\<rparr> = v" by (cases v) (simp del: fun_upd_apply)
  moreover have "resumed U [] ps ps" by (simp add: resumed_def)
  ultimately show ?case
    unfolding cmd_fold.simps by (intro yields_return) (auto intro!: exI [of _ ps] simp del: fun_upd_apply)
next
  case (Cons x xs)
  obtain n body where x: "x = (n, body)" by (rule prod.exhaust)
  have prems: "distinct (map fst xs)" "\<forall>(n, _) \<in> set xs. 1 \<le> n \<and> n \<le> MAX_PARTS" "n \<notin> fst ` set xs"
    using Cons.prems x by auto
  show ?case
  proof (cases "n \<in> U")
    case True
    have step: "yields (seen view) (resume_part s3 env put u U x c) v (\<lambda>a w. a = c \<and> w = v)"
      unfolding resume_part_def x prod.case if_P [OF True] by (rule yields_return) simp
    have "length (filter (\<lambda>(n, _). n \<notin> U) (x # xs)) = length (filter (\<lambda>(n, _). n \<notin> U) xs)"
      using True by (simp add: x)
    then show ?thesis
      unfolding cmd_fold.simps x resumed_skip [OF True]
      using Cons.IH [OF Cons.prems(1) prems(1,2), of c] by (auto intro!: yields_bind [OF step [unfolded x]] simp del: fun_upd_apply)
  next
    case False
    from part_url [OF assms(1,2), of KEY u n] obtain url where
      url: "\<And>v. yields (seen view) (createPartUrl s3 env KEY u n None) v (\<lambda>a w. a = url \<and> w = v)"
      and put: "yields (seen view) (put_part put n url body) v (\<lambda>_ w. \<exists>t. t \<noteq> [] \<and>
         w = v\<lparr>bv_uploads := (bv_uploads v)((KEY, u) \<mapsto> ps(n \<mapsto> (body, t)))\<rparr>)"
      using Cons.prems(1,3) x by fastforce
    have step: "yields (seen view) (resume_part s3 env put u U x c) v (\<lambda>c' w. c' = c + 1 \<and> (\<exists>t. t \<noteq> [] \<and>
         w = v\<lparr>bv_uploads := (bv_uploads v)((KEY, u) \<mapsto> ps(n \<mapsto> (body, t)))\<rparr>))"
      unfolding resume_part_def x prod.case if_not_P [OF False]
      by (rule yields_bind [OF url], elim conjE, hypsubst, rule yields_bind [OF put]) (auto intro: yields_return)
    have rest: "yields (seen view) (cmd_fold (resume_part s3 env put u U) xs (c + 1)) w (\<lambda>c' w'. c' = c + length (filter (\<lambda>(n, _). n \<notin> U) (x # xs)) \<and>
      (\<exists>ps'. w' = v\<lparr>bv_uploads := (bv_uploads v)((KEY, u) \<mapsto> ps')\<rparr> \<and> resumed U (x # xs) ps ps'))"
      if t: "t \<noteq> []" and w: "w = v\<lparr>bv_uploads := (bv_uploads v)((KEY, u) \<mapsto> ps(n \<mapsto> (body, t)))\<rparr>" for w t
    proof -
      have "bv_uploads w (KEY, u) = Some (ps(n \<mapsto> (body, t)))" by (simp add: w)
      note rest = Cons.IH [OF this prems(1,2), of "c + 1"]
      have "length (filter (\<lambda>(n, _). n \<notin> U) (x # xs)) = 1 + length (filter (\<lambda>(n, _). n \<notin> U) xs)"
        using False by (simp add: x)
      moreover have "w\<lparr>bv_uploads := (bv_uploads w)((KEY, u) \<mapsto> ps')\<rparr> = v\<lparr>bv_uploads := (bv_uploads v)((KEY, u) \<mapsto> ps')\<rparr>" for ps'
        by (simp add: w)
      ultimately show ?thesis
        using resumed_put [OF False prems(3) t] unfolding x
        by (intro yields_weaken [OF rest]) (auto simp del: fun_upd_apply)
    qed
    show ?thesis
      unfolding cmd_fold.simps by (rule yields_bind [OF step], elim conjE exE, hypsubst) (rule rest; simp)
  qed
qed

lemma yields_delete:
  assumes "getStorageConfig env = Inr config" and "object_laws s3 (sc_bucket config) code view"
  shows "yields (seen view) (deleteDemoObject s3 env) v (\<lambda>_ w. w = v\<lparr>bv_objects := (bv_objects v)(KEY := None)\<rparr>)"
  unfolding deleteDemoObject_def
  by (rule yields_bucket [OF assms(1)], rule yields_try, rule yields_bind [OF yields_send [OF law_delete [OF assms(2)]]])
    (auto intro: yields_return)

lemma yields_clean:
  assumes "getStorageConfig env = Inr config" and "multipart_laws s3 (sc_bucket config) code put view"
  shows "yields (seen view) (clean s3 env) v (\<lambda>_ w. bv_objects w = (bv_objects v)(KEY := None))"
proof -
  have laws: "bucket_laws s3 (sc_bucket config) view" "object_laws s3 (sc_bucket config) code view" "upload_laws s3 (sc_bucket config) view"
    using assms(2) by (simp_all add: multipart_laws_def)
  show ?thesis
    unfolding clean_def
    by (rule yields_bind [OF yields_ensure [OF assms(1) laws(1)]], hypsubst,
        rule yields_bind [OF yields_cleanup [OF assms(1) laws(1,3)]], rule yields_weaken [OF yields_delete [OF assms(1) laws(2)]]) simp
qed

lemma yields_missing:
  assumes "getStorageConfig env = Inr config" and "object_laws s3 (sc_bucket config) code view" and "bv_objects v KEY = None"
  shows "yields (seen view) (getHeadStatus s3 env code) v (\<lambda>n w. n = 404 \<and> w = v)"
  unfolding getHeadStatus_def
  by (rule yields_bucket [OF assms(1)], rule yields_refused [OF law_head_missing [OF assms(2) _ assms(3)]])
    (auto intro: yields_return)

lemma yields_head:
  assumes "getStorageConfig env = Inr config" and "object_laws s3 (sc_bucket config) code view" and "bv_objects v KEY = Some x"
  shows "yields (seen view) (with_bucket env (\<lambda>bucket. send s3 (HeadObject bucket KEY))) v
    (\<lambda>r w. (s3_ContentLength r = Some (int (length (so_body x))) \<and> s3_ETag r = Some (so_etag x)) \<and> w = v)"
  by (rule yields_bucket [OF assms(1)], rule yields_send [OF law_head [OF assms(2) _ assms(3)]])

lemma tag_multipart: "multipart_tag (strip_quotes (part_tag h n))"
proof -
  have "takeWhile is_digit (rev (show_nat n) @ ''-'' @ c) = rev (show_nat n)" for c
    using show_nat_digits [of n] by (subst takeWhile_append2) (auto simp: is_digit_def digit_val_def)
  moreover have "filter (\<lambda>c. c \<noteq> CHR 0x22) (show_nat n) = show_nat n"
    using show_nat_digits [of n] by (intro filter_True) (auto simp: is_digit_def digit_val_def)
  ultimately show ?thesis
    by (simp add: multipart_tag_def strip_quotes_def part_tag_def Let_def)
qed

lemma parts_length: "length part1 = 5242880" "length part2 = 5242880" "length part3 = 1048576"
  by (simp_all add: part1_def part2_def part3_def calculatePartSize_def MIN_PART_SIZE_def MAX_PARTS_def div_ceil_def)

lemma three_parts: "sorted_list_of_set {1, 2, 3 :: int} = [1, 2, 3]"
  by simp

text \<open>The parts after resuming are the three of the script, whatever their tags.\<close>

lemma all_parts_fit:
  assumes "t1 \<noteq> []" and "t2 \<noteq> []" and "resumed {1, 2} allParts [1 \<mapsto> (part1, t1), 2 \<mapsto> (part2, t2)] ps"
  shows "dom ps = {1, 2, 3}" and "parts_fit ps" and
    "concat (map (\<lambda>n. fst (the (ps n))) (sorted_list_of_set (dom ps))) = part1 @ part2 @ part3"
proof -
  note r = assms(3) [unfolded resumed_def allParts_def, THEN spec]
  have at: "ps 1 = Some (part1, t1)" "ps 2 = Some (part2, t2)" "\<exists>t. t \<noteq> [] \<and> ps 3 = Some (part3, t)"
    using r [of 1] r [of 2] r [of 3] by simp_all
  have other: "ps n = None" if "n \<noteq> 1" "n \<noteq> 2" "n \<noteq> 3" for n using r [of n] that by simp
  show dom: "dom ps = {1, 2, 3}" using at other by fastforce
  show "parts_fit ps"
    using at assms(1,2) parts_length unfolding parts_fit_def dom three_parts by (auto simp: MIN_PART_SIZE_def)
  show "concat (map (\<lambda>n. fst (the (ps n))) (sorted_list_of_set (dom ps))) = part1 @ part2 @ part3"
    using at unfolding dom three_parts by auto
qed

section \<open>The demonstration passes\<close>

definition with_parts :: "bucket_view \<Rightarrow> string \<Rightarrow> (int \<Rightarrow> (byte list \<times> string) option) \<Rightarrow> bucket_view" where
  "with_parts v u ps = v\<lparr>bv_uploads := (bv_uploads v)((KEY, u) \<mapsto> ps)\<rparr>"

lemma with_parts_rows: "bv_uploads (with_parts v u ps) (KEY, u) = Some ps" "bv_objects (with_parts v u ps) = bv_objects v"
  by (simp_all add: with_parts_def)

lemma with_parts_again: "(with_parts v u ps)\<lparr>bv_uploads := (bv_uploads (with_parts v u ps))((KEY, u) \<mapsto> qs)\<rparr> = with_parts v u qs"
  by (simp add: with_parts_def)

lemma key_url:
  assumes "getStorageConfig env = Inr config" and "part_url_laws s3 (sc_bucket config) put view" and "1 \<le> n \<and> n \<le> MAX_PARTS"
  shows "\<exists>url. (\<forall>v. yields (seen view) (createPartUrl s3 env KEY u n None) v (\<lambda>a w. a = url \<and> w = v)) \<and>
    (\<forall>v ps body. yields (seen view) (put_part put n url body) (with_parts v u ps)
      (\<lambda>_ w. \<exists>t. t \<noteq> [] \<and> w = with_parts v u (ps(n \<mapsto> (body, t)))))"
proof -
  obtain url where url: "\<forall>v. yields (seen view) (createPartUrl s3 env KEY u n None) v (\<lambda>a w. a = url \<and> w = v)"
    and put: "\<forall>v ps body. bv_uploads v (KEY, u) = Some ps \<and> 1 \<le> n \<and> n \<le> MAX_PARTS \<longrightarrow>
       yields (seen view) (put_part put n url body) v (\<lambda>_ w. \<exists>t. t \<noteq> [] \<and>
         w = v\<lparr>bv_uploads := (bv_uploads v)((KEY, u) \<mapsto> ps(n \<mapsto> (body, t)))\<rparr>)"
    using part_url [OF assms(1,2), of KEY u n] by blast
  have "yields (seen view) (put_part put n url body) (with_parts v u ps)
      (\<lambda>_ w. \<exists>t. t \<noteq> [] \<and> w = with_parts v u (ps(n \<mapsto> (body, t))))" for v ps body
    using put [THEN spec [where x = "with_parts v u ps"], THEN spec [where x = ps], THEN spec [where x = body], THEN mp,
        OF conjI [OF with_parts_rows(1) assms(3)]]
    unfolding with_parts_again .
  with url show ?thesis by blast
qed

lemma yields_interrupted:
  assumes "getStorageConfig env = Inr config" and "multipart_laws s3 (sc_bucket config) code put view"
  shows "yields (seen view) (interrupted_upload s3 env put) v (\<lambda>u w. bv_uploads v (KEY, u) = None \<and>
    (\<exists>t1 t2. t1 \<noteq> [] \<and> t2 \<noteq> [] \<and> w = with_parts v u [1 \<mapsto> (part1, t1), 2 \<mapsto> (part2, t2)]))"
proof -
  have laws: "bucket_laws s3 (sc_bucket config) view" "upload_laws s3 (sc_bucket config) view" "part_url_laws s3 (sc_bucket config) put view"
    using assms(2) by (simp_all add: multipart_laws_def)
  have parts: "1 \<le> (1 :: int) \<and> 1 \<le> MAX_PARTS" "1 \<le> (2 :: int) \<and> 2 \<le> MAX_PARTS" by (simp_all add: MAX_PARTS_def)
  show ?thesis
    unfolding interrupted_upload_def
  proof (rule yields_bind [OF yields_create_upload [OF assms(1) laws(1,2)]], elim conjE, hypsubst, fold with_parts_def)
    fix u assume new: "bv_uploads v (KEY, u) = None"
    from key_url [OF assms(1) laws(3) parts(1), of u] obtain url1 where
      url1: "\<And>v. yields (seen view) (createPartUrl s3 env KEY u 1 None) v (\<lambda>a w. a = url1 \<and> w = v)"
      and put1: "\<And>v ps body. yields (seen view) (put_part put 1 url1 body) (with_parts v u ps)
        (\<lambda>_ w. \<exists>t. t \<noteq> [] \<and> w = with_parts v u (ps(1 \<mapsto> (body, t))))" by blast
    from key_url [OF assms(1) laws(3) parts(2), of u] obtain url2 where
      url2: "\<And>v. yields (seen view) (createPartUrl s3 env KEY u 2 None) v (\<lambda>a w. a = url2 \<and> w = v)"
      and put2: "\<And>v ps body. yields (seen view) (put_part put 2 url2 body) (with_parts v u ps)
        (\<lambda>_ w. \<exists>t. t \<noteq> [] \<and> w = with_parts v u (ps(2 \<mapsto> (body, t))))" by blast
    show "yields (seen view) (cmd_bind (createPartUrl s3 env KEY u 1 None) (\<lambda>url1.
     cmd_bind (createPartUrl s3 env KEY u 2 None) (\<lambda>url2.
     cmd_bind (put_part put 1 url1 part1) (\<lambda>_.
     cmd_bind (put_part put 2 url2 part2) (\<lambda>_. cmd_return u))))) (with_parts v u Map.empty) (\<lambda>u w. bv_uploads v (KEY, u) = None \<and>
    (\<exists>t1 t2. t1 \<noteq> [] \<and> t2 \<noteq> [] \<and> w = with_parts v u [1 \<mapsto> (part1, t1), 2 \<mapsto> (part2, t2)]))"
      apply (rule yields_bind [OF url1], elim conjE, hypsubst)
      apply (rule yields_bind [OF url2], elim conjE, hypsubst)
      apply (rule yields_bind [OF put1], elim exE conjE, hypsubst)
      apply (rule yields_bind [OF put2], elim exE conjE, hypsubst)
      apply (rule yields_return)
      using new by blast
  qed
qed

lemma verdict_passes:
  assumes "so_body x = part1 @ part2 @ part3" and "so_etag x = part_tag h n"
    and "s3_ContentLength head = Some (int (length (so_body x)))" and "s3_ETag head = Some (so_etag x)"
  shows "multipart_verdict 404 1 t head = \<lparr>mp_headBeforeComplete = 404, mp_resumedParts = 1, mp_sizeMatch = 1,
    mp_etagMultipart = 1, mp_passed = True\<rparr>"
  using assms by (simp add: multipart_verdict_def tag_multipart)

definition demo_object :: "stored_object \<Rightarrow> bool" where
  "demo_object x \<longleftrightarrow> so_body x = part1 @ part2 @ part3"

lemma yields_finished:
  assumes "getStorageConfig env = Inr config" and "multipart_laws s3 (sc_bucket config) code put view"
    and "bv_uploads v (KEY, u) = None" and "parts_fit ps"
    and "concat (map (\<lambda>n. fst (the (ps n))) (sorted_list_of_set (dom ps))) = part1 @ part2 @ part3"
  shows "yields (seen view) (cmd_bind (completeMultipartUpload s3 env KEY u) (\<lambda>etag.
      cmd_bind (with_bucket env (\<lambda>bucket. send s3 (HeadObject bucket KEY))) (\<lambda>head.
      cmd_return (multipart_verdict 404 1 etag head)))) (with_parts v u ps)
    (\<lambda>r w. r = \<lparr>mp_headBeforeComplete = 404, mp_resumedParts = 1, mp_sizeMatch = 1, mp_etagMultipart = 1, mp_passed = True\<rparr> \<and>
      (\<exists>x. demo_object x \<and> w = v\<lparr>bv_objects := (bv_objects v)(KEY \<mapsto> x)\<rparr>))"
proof -
  have laws: "object_laws s3 (sc_bucket config) code view" "upload_laws s3 (sc_bucket config) view"
    using assms(2) by (simp_all add: multipart_laws_def)
  have gone: "(bv_uploads (with_parts v u ps))((KEY, u) := None) = bv_uploads v"
    using assms(3) by (simp add: with_parts_def fun_upd_idem)
  have after: "(with_parts v u ps)\<lparr>bv_objects := (bv_objects (with_parts v u ps))(KEY \<mapsto> x),
      bv_uploads := (bv_uploads (with_parts v u ps))((KEY, u) := None)\<rparr> = v\<lparr>bv_objects := (bv_objects v)(KEY \<mapsto> x)\<rparr>" for x
    unfolding gone by (cases v) (simp add: with_parts_def)
  show ?thesis
  proof (rule yields_bind [OF yields_complete [OF assms(1) laws(2) with_parts_rows(1) assms(4)]], elim exE conjE, hypsubst, unfold after)
    fix h and x :: stored_object
    assume x: "so_etag x = part_tag h (card (dom ps))"
      "so_body x = concat (map (\<lambda>n. fst (the (ps n))) (sorted_list_of_set (dom ps)))"
    have body: "so_body x = part1 @ part2 @ part3" using x(2) assms(5) by simp
    have stored: "bv_objects (v\<lparr>bv_objects := (bv_objects v)(KEY \<mapsto> x)\<rparr>) KEY = Some x" by simp
    show "yields (seen view) (cmd_bind (with_bucket env (\<lambda>bucket. send s3 (HeadObject bucket KEY))) (\<lambda>head.
      cmd_return (multipart_verdict 404 1 (so_etag x) head))) (v\<lparr>bv_objects := (bv_objects v)(KEY \<mapsto> x)\<rparr>)
      (\<lambda>r w. r = \<lparr>mp_headBeforeComplete = 404, mp_resumedParts = 1, mp_sizeMatch = 1, mp_etagMultipart = 1, mp_passed = True\<rparr> \<and>
        (\<exists>x. demo_object x \<and> w = v\<lparr>bv_objects := (bv_objects v)(KEY \<mapsto> x)\<rparr>))"
      apply (rule yields_bind [OF yields_head [OF assms(1) laws(1) stored]], elim conjE, hypsubst)
      apply (rule yields_return)
      using verdict_passes [OF body x(1)] body by (auto simp: demo_object_def)
  qed
qed

lemma yields_resumed:
  assumes "getStorageConfig env = Inr config" and "multipart_laws s3 (sc_bucket config) code put view" and "bv_objects v KEY = None"
    and "t1 \<noteq> []" and "t2 \<noteq> []" and "bv_uploads v (KEY, u) = None"
  shows "yields (seen view) (resumed_upload s3 env code put u) (with_parts v u [1 \<mapsto> (part1, t1), 2 \<mapsto> (part2, t2)])
    (\<lambda>r w. r = \<lparr>mp_headBeforeComplete = 404, mp_resumedParts = 1, mp_sizeMatch = 1, mp_etagMultipart = 1, mp_passed = True\<rparr> \<and>
      (\<exists>x. demo_object x \<and> w = v\<lparr>bv_objects := (bv_objects v)(KEY \<mapsto> x)\<rparr>))"
proof -
  have laws: "object_laws s3 (sc_bucket config) code view" "upload_laws s3 (sc_bucket config) view" "part_url_laws s3 (sc_bucket config) put view"
    using assms(2) by (simp_all add: multipart_laws_def)
  let ?ps = "[1 \<mapsto> (part1, t1), 2 \<mapsto> (part2, t2)] :: int \<Rightarrow> (byte list \<times> string) option"
  have dom: "dom ?ps = {1, 2}" by (auto split: if_splits)
  have ps: "finite (dom ?ps)" "card (dom ?ps) \<le> 1000" "\<And>n. n \<in> dom ?ps \<Longrightarrow> snd (the (?ps n)) \<noteq> []"
    using assms(4,5) unfolding dom by auto
  have missing: "bv_objects (with_parts v u ?ps) KEY = None" using assms(3) by (simp only: with_parts_rows)
  have all: "distinct (map fst allParts)" "\<forall>(n, _) \<in> set allParts. 1 \<le> n \<and> n \<le> MAX_PARTS"
    "length (filter (\<lambda>(n, _). n \<notin> {1, 2}) allParts) = 1"
    by (simp_all add: allParts_def MAX_PARTS_def)
  show ?thesis
    unfolding resumed_upload_def
    apply (rule yields_bind [OF yields_missing [OF assms(1) laws(1) missing]], elim conjE, hypsubst)
    apply (rule yields_bind [OF yields_list_parts [OF assms(1) laws(2) with_parts_rows(1) ps]], assumption, elim conjE, hypsubst, simp only: dom)
    apply (rule yields_bind [OF yields_resume [OF assms(1) laws(3) with_parts_rows(1) all(1,2)]], elim conjE exE,
        simp only: all(3) add_0 with_parts_again)
    apply (rule yields_finished [OF assms(1,2,6)])
    using all_parts_fit(2,3) [OF assms(4,5)] by blast+
qed

text \<open>C39: with any storage that behaves as documented, whatever it holds, the demonstration passes: the
  object does not exist before the upload is completed, exactly one of the three parts is uploaded
  again after the interruption, and the completed object is the concatenation of the three
  parts in order. In the end the object is gone and every other object is as it was.\<close>
theorem multipart_demo_passes:
  assumes "getStorageConfig env = Inr config" and "multipart_laws s3 (sc_bucket config) code put view"
    and "rep = \<lparr>mp_headBeforeComplete = 404, mp_resumedParts = 1, mp_sizeMatch = 1, mp_etagMultipart = 1, mp_passed = True\<rparr>"
  shows "\<exists>s0 s1 s2 x. clean s3 env s = (Inr (), s0) \<and> multipart_run s3 env code put s0 = (Inr rep, s1) \<and>
    bv_objects (view (st_service s1)) KEY = Some x \<and> so_body x = part1 @ part2 @ part3 \<and>
    multipart_demo s3 env code put s = (Inr rep, s2) \<and>
    bv_objects (view (st_service s2)) = (bv_objects (view (st_service s)))(KEY := None)"
proof -
  obtain s0 where 0: "clean s3 env s = (Inr (), s0)"
    "bv_objects (view (st_service s0)) = (bv_objects (view (st_service s)))(KEY := None)"
    by (rule yields_result [OF yields_clean [OF assms(1,2)], of s]) auto
  have "bv_objects (view (st_service s0)) KEY = None" by (simp add: 0)
  then have "yields (seen view) (multipart_run s3 env code put) (view (st_service s0)) (\<lambda>r w. r = rep \<and>
      (\<exists>x. demo_object x \<and> w = (view (st_service s0))\<lparr>bv_objects := (bv_objects (view (st_service s0)))(KEY \<mapsto> x)\<rparr>))"
    unfolding multipart_run_def
    using yields_resumed [OF assms(1,2)] by (intro yields_bind [OF yields_interrupted [OF assms(1,2)]]) (auto simp: assms(3))
  then obtain s1 x where 1: "multipart_run s3 env code put s0 = (Inr rep, s1)" "demo_object x"
    "view (st_service s1) = (view (st_service s0))\<lparr>bv_objects := (bv_objects (view (st_service s0)))(KEY \<mapsto> x)\<rparr>"
    by (rule yields_result) blast
  obtain s2 where 2: "clean s3 env s1 = (Inr (), s2)"
    "bv_objects (view (st_service s2)) = (bv_objects (view (st_service s1)))(KEY := None)"
    by (rule yields_result [OF yields_clean [OF assms(1,2)], of s1]) auto
  have "multipart_demo s3 env code put s = (Inr rep, s2)"
    using 0(1) 1(1) 2(1) by (simp add: multipart_demo_def cmd_bind_run cmd_simps)
  with 0 1 2 show ?thesis by (auto simp: demo_object_def)
qed

lemma memory_multipart: "multipart_laws memory_s3 b (Some \<circ> status_of) mem_put mem_view"
  by (simp add: multipart_laws_def mem_bucket mem_objects mem_uploads mem_part_urls)

theorem multipart_demo_passes_witness:
  "\<exists>s2 rep. multipart_demo memory_s3 sample_env (Some \<circ> status_of) mem_put
      \<lparr>st_client = None, st_initialized = False, st_service = \<lparr>mm_objects = [], mm_uploads = [((''k'', ''u''), [])]\<rparr>\<rparr> = (Inr rep, s2) \<and>
    mp_passed rep \<and> mp_resumedParts rep = 1"
  using multipart_demo_passes [OF sample_env_config memory_multipart refl,
    of "\<lparr>st_client = None, st_initialized = False, st_service = \<lparr>mm_objects = [], mm_uploads = [((''k'', ''u''), [])]\<rparr>\<rparr>"]
  by auto

end
