(* ===== verification/CdnDemo.thy ===== *)
theory CdnDemo
  imports Edge StorageLogic Json
begin

text \<open>
  \<open>src/demo-cdn.ts\<close>: a private object under a content-hashed name is refused by the storage, served
  by the edge server, first from the storage and then from its memory, and new content gets a new
  name. \<open>fetch_direct\<close> is a request without credentials to the storage, \<open>listen\<close> says whether the
  port is free, and \<open>sha256_hex\<close> is the digest.
\<close>

section \<open>The script\<close>

definition PREFIX :: string where "PREFIX = ''cdn''"

definition EDGE_ORIGIN :: string where "EDGE_ORIGIN = ''http://127.0.0.1:32128''"

text \<open>\<open>encodeURIComponent\<close>\<close>

definition uri_plain :: "char \<Rightarrow> bool" where
  "uri_plain c \<longleftrightarrow> (let n = (of_char c :: nat) in 48 \<le> n \<and> n \<le> 57 \<or> 65 \<le> n \<and> n \<le> 90 \<or> 97 \<le> n \<and> n \<le> 122) \<or>
     c \<in> set ''-_.!~*()'' \<or> c = CHR 0x27"

definition uri_hex :: "nat \<Rightarrow> char" where
  "uri_hex d = char_of (if d < 10 then 48 + d else 55 + d)"

definition encodeURIComponent :: "string \<Rightarrow> string" where
  "encodeURIComponent s = concat (map (\<lambda>c. if uri_plain c then [c]
     else concat (map (\<lambda>b. [CHR ''%'', uri_hex (of_char b div 16), uri_hex (of_char b mod 16)]) (utf8_unit c))) s)"

definition encoded_path :: "string \<Rightarrow> string" where
  "encoded_path key = js_join ''/'' (map encodeURIComponent (js_split CHR ''/'' key))"

definition storageObjectUrl :: "environment \<Rightarrow> string \<Rightarrow> err + string" where
  "storageObjectUrl env key = (case getStorageConfig env of
       Inl e \<Rightarrow> Inl e
     | Inr config \<Rightarrow> (case sc_endpoint config of
           None \<Rightarrow> Inl (JsError ''STORAGE_ENDPOINT is required for local CDN demo'')
         | Some e \<Rightarrow>
             let endpoint = rev (dropWhile (\<lambda>c. c = CHR ''/'') (rev e))
             in Inr (endpoint @ ''/'' @ encodeURIComponent (sc_bucket config) @ ''/'' @ encoded_path key)))"

definition edgeObjectUrl :: "string \<Rightarrow> string" where
  "edgeObjectUrl key = EDGE_ORIGIN @ ''/'' @ encoded_path key"

definition uploadAsset :: "'s s3 \<Rightarrow> environment \<Rightarrow> string \<Rightarrow> byte list \<Rightarrow> ('s storage, unit) cmd" where
  "uploadAsset s3 env key body =
     cmd_bind (ensureStorageBucket s3 env) (\<lambda>_.
     with_bucket env (\<lambda>bucket.
     cmd_bind (send s3 (PutObjectBody bucket key body ''text/css; charset=utf-8'' ''public, max-age=31536000, immutable''))
       (\<lambda>_. cmd_return ())))"

definition deleteAsset :: "'s s3 \<Rightarrow> environment \<Rightarrow> string \<Rightarrow> ('s storage, unit) cmd" where
  "deleteAsset s3 env key = with_bucket env (\<lambda>bucket.
     cmd_try (cmd_bind (send s3 (DeleteObject bucket key)) (\<lambda>_. cmd_return ())) (\<lambda>_. cmd_return ()))"

definition startServer :: "bool \<Rightarrow> ('s, unit) cmd" where
  "startServer listen = (if listen then cmd_return () else cmd_throw (JsError ''EADDRINUSE''))"

definition text_bytes :: "string \<Rightarrow> byte list" where
  "text_bytes s = map of_char (utf8_bytes s)"

definition firstContent :: "byte list" where
  "firstContent = text_bytes (js_join [CHR 0x0A] [''body {'', ''  color: red;'', ''}'', []])"

definition secondContent :: "byte list" where
  "secondContent = text_bytes (js_join [CHR 0x0A] [''body {'', ''  color: blue;'', ''}'', []])"

text \<open>A \<open>GET\<close> to the edge server names the path of the URL.\<close>

definition fetch_edge ::
  "(string \<Rightarrow> string option) \<Rightarrow> (string \<Rightarrow> string option) \<Rightarrow> 's s3 \<Rightarrow> environment \<Rightarrow> string \<Rightarrow> ('s edge, edge_response) cmd" where
  "fetch_edge pathname decode s3 env url = (\<lambda>st.
     case handleRequest pathname decode s3 env
       \<lparr>rq_method = ''GET'', rq_url = Some (drop (length EDGE_ORIGIN) url)\<rparr> st of (r, st') \<Rightarrow> (Inr r, st'))"

fun edge_status :: "edge_response \<Rightarrow> nat" where
  "edge_status (Served _ _) = 200"
| "edge_status (Refused n _) = n"

fun edge_body :: "edge_response \<Rightarrow> byte list" where
  "edge_body (Served x _) = co_body x"
| "edge_body (Refused _ t) = text_bytes t"

fun x_cache :: "edge_response \<Rightarrow> string option" where
  "x_cache (Served _ hit) = Some (if hit then ''HIT'' else ''MISS'')"
| "x_cache (Refused _ _) = None"

record cdn_report =
  cd_direct :: nat
  cd_edgeMiss :: nat
  cd_edgeHit :: nat
  cd_cacheHit :: nat
  cd_newName :: nat
  cd_newUrl :: nat
  cd_contentChanged :: nat
  cd_passed :: bool

definition cdn_verdict :: "string \<Rightarrow> string \<Rightarrow> nat \<Rightarrow> edge_response \<Rightarrow> edge_response \<Rightarrow> edge_response \<Rightarrow> cdn_report" where
  "cdn_verdict firstName secondName direct firstEdge secondEdge new =
     (let edgeMiss = edge_status firstEdge;
          edgeHit = edge_status secondEdge;
          cacheHit = (if x_cache firstEdge = Some ''MISS'' \<and> x_cache secondEdge = Some ''HIT'' \<and>
            edge_body firstEdge = firstContent \<and> edge_body secondEdge = firstContent then 1 else 0);
          newName = (if firstName \<noteq> secondName then 1 else 0);
          contentChanged = (if edge_body new \<noteq> edge_body firstEdge \<and> edge_body new = secondContent then 1 else 0)
      in \<lparr>cd_direct = direct, cd_edgeMiss = edgeMiss, cd_edgeHit = edgeHit, cd_cacheHit = cacheHit, cd_newName = newName,
          cd_newUrl = edge_status new, cd_contentChanged = contentChanged,
          cd_passed = (direct = 403 \<and> edgeMiss = 200 \<and> edgeHit = 200 \<and> cacheHit = 1 \<and> newName = 1 \<and>
            edge_status new = 200 \<and> contentChanged = 1)\<rparr>)"

definition asset_name :: "(byte list \<Rightarrow> string) \<Rightarrow> byte list \<Rightarrow> string" where
  "asset_name sha256_hex content = createContentHashedName sha256_hex ''app.css'' content"

definition asset_key :: "(byte list \<Rightarrow> string) \<Rightarrow> byte list \<Rightarrow> string" where
  "asset_key sha256_hex content = PREFIX @ ''/'' @ asset_name sha256_hex content"

definition cdn_run ::
  "(string \<Rightarrow> string option) \<Rightarrow> (string \<Rightarrow> string option) \<Rightarrow> (byte list \<Rightarrow> string) \<Rightarrow> (string \<Rightarrow> ('s, nat) cmd) \<Rightarrow> bool \<Rightarrow>
     's s3 \<Rightarrow> environment \<Rightarrow> ('s edge, cdn_report) cmd" where
  "cdn_run pathname decode sha256_hex fetch_direct listen s3 env =
     (let firstKey = asset_key sha256_hex firstContent; secondKey = asset_key sha256_hex secondContent in
     cmd_bind (on_snd (deleteAsset s3 env firstKey)) (\<lambda>_.
     cmd_bind (on_snd (deleteAsset s3 env secondKey)) (\<lambda>_.
     cmd_bind (on_snd (uploadAsset s3 env firstKey firstContent)) (\<lambda>_.
     cmd_bind (cmd_lift (storageObjectUrl env firstKey)) (\<lambda>url.
     cmd_bind (on_snd (\<lambda>s. case fetch_direct url (st_service s) of (r, t) \<Rightarrow> (r, s\<lparr>st_service := t\<rparr>))) (\<lambda>direct.
     cmd_bind (startServer listen) (\<lambda>_.
     cmd_bind (fetch_edge pathname decode s3 env (edgeObjectUrl firstKey)) (\<lambda>firstEdge.
     cmd_bind (fetch_edge pathname decode s3 env (edgeObjectUrl firstKey)) (\<lambda>secondEdge.
     cmd_bind (on_snd (uploadAsset s3 env secondKey secondContent)) (\<lambda>_.
     cmd_bind (fetch_edge pathname decode s3 env (edgeObjectUrl secondKey)) (\<lambda>new.
     cmd_return (cdn_verdict (asset_name sha256_hex firstContent) (asset_name sha256_hex secondContent)
       direct firstEdge secondEdge new))))))))))))"

text \<open>The \<open>finally\<close> block forgets the cache and deletes both objects.\<close>

definition cdn_demo ::
  "(string \<Rightarrow> string option) \<Rightarrow> (string \<Rightarrow> string option) \<Rightarrow> (byte list \<Rightarrow> string) \<Rightarrow> (string \<Rightarrow> ('s, nat) cmd) \<Rightarrow> bool \<Rightarrow>
     's s3 \<Rightarrow> environment \<Rightarrow> ('s edge, cdn_report) cmd" where
  "cdn_demo pathname decode sha256_hex fetch_direct listen s3 env =
     cmd_bind (on_snd (ensureStorageBucket s3 env)) (\<lambda>_.
     cmd_bind (cmd_write clearEdgeCache) (\<lambda>_ st.
     case cdn_run pathname decode sha256_hex fetch_direct listen s3 env st of
       (r, st') \<Rightarrow>
         cmd_bind (cmd_write clearEdgeCache) (\<lambda>_.
         cmd_bind (on_snd (deleteAsset s3 env (asset_key sha256_hex firstContent))) (\<lambda>_.
         cmd_bind (on_snd (deleteAsset s3 env (asset_key sha256_hex secondContent))) (\<lambda>_.
         cmd_lift r))) st'))"

section \<open>What it relies on\<close>

text \<open>URL functions leave plain paths as they are.\<close>

definition url_laws :: "(string \<Rightarrow> string option) \<Rightarrow> (string \<Rightarrow> string option) \<Rightarrow> bool" where
  "url_laws pathname decode \<longleftrightarrow>
     (\<forall>s. (\<forall>c \<in> set s. uri_plain c) \<longrightarrow> decode s = Some s) \<and>
     (\<forall>ps. ps \<noteq> [] \<and> (\<forall>p \<in> set ps. p \<notin> {[], ''.'', ''..''} \<and> (\<forall>c \<in> set p. uri_plain c)) \<longrightarrow>
        pathname (''/'' @ js_join ''/'' ps) = Some (''/'' @ js_join ''/'' ps))"

text \<open>The digest is written in hexadecimal, and those of the two contents differ early.\<close>

definition digest_laws :: "(byte list \<Rightarrow> string) \<Rightarrow> bool" where
  "digest_laws sha256_hex \<longleftrightarrow> (\<forall>b. \<forall>c \<in> set (sha256_hex b). \<exists>d < 16. c = hex_char d) \<and>
     take 8 (sha256_hex firstContent) \<noteq> take 8 (sha256_hex secondContent)"

text \<open>The bucket is private.\<close>

definition private_laws :: "environment \<Rightarrow> (string \<Rightarrow> ('s, nat) cmd) \<Rightarrow> ('s \<Rightarrow> bucket_view) \<Rightarrow> bool" where
  "private_laws env fetch_direct view \<longleftrightarrow> (\<forall>k url s. storageObjectUrl env k = Inr url \<longrightarrow>
     fst (fetch_direct url s) = Inr 403 \<and> view (snd (fetch_direct url s)) = view s)"

section \<open>Names and paths\<close>

lemma uri_plain_safe: "uri_plain c \<Longrightarrow> c \<noteq> CHR ''/''"
proof
  assume "uri_plain c" "c = CHR ''/''"
  moreover have "\<not> uri_plain CHR ''/''" by code_simp
  ultimately show False by simp
qed

lemma uri_plain_hex:
  assumes "d < 16" shows "uri_plain (hex_char d)"
proof -
  have "(of_char (hex_char d) :: nat) = (if d < 10 then 48 + d else 87 + d)"
    using assms by (simp add: hex_char_def)
  then show ?thesis using assms by (simp add: uri_plain_def)
qed

lemma encode_plain: "\<forall>c \<in> set s. uri_plain c \<Longrightarrow> encodeURIComponent s = s"
  by (induction s) (simp_all add: encodeURIComponent_def)

lemma asset_name_text: "asset_name sha256_hex content = ''app.'' @ take 8 (sha256_hex content) @ ''.css''"
proof -
  have "path_base ''app.css'' = ''app.css''" "split_ext ''app.css'' = (''app'', ''.css'')" by code_simp+
  then show ?thesis by (simp add: asset_name_def createContentHashedName_def Let_def)
qed

lemma asset_name_plain:
  assumes "digest_laws sha256_hex" shows "\<forall>c \<in> set (asset_name sha256_hex content). uri_plain c"
proof -
  have "\<forall>c \<in> set (take 8 (sha256_hex content)). uri_plain c"
    using assms uri_plain_hex by (fastforce simp: digest_laws_def dest: in_set_takeD)
  moreover have "\<forall>c \<in> set (''app.'' @ ''.css''). uri_plain c" by code_simp
  ultimately show ?thesis by (auto simp: asset_name_text)
qed

lemma asset_key_path:
  assumes "digest_laws sha256_hex"
  shows "js_split CHR ''/'' (asset_key sha256_hex content) = [''cdn'', asset_name sha256_hex content]"
    and "encoded_path (asset_key sha256_hex content) = asset_key sha256_hex content"
proof -
  have key: "asset_key sha256_hex content = js_join ''/'' [''cdn'', asset_name sha256_hex content]"
    by (simp add: asset_key_def PREFIX_def)
  have "CHR ''/'' \<notin> set (asset_name sha256_hex content)"
    using asset_name_plain [OF assms] uri_plain_safe by blast
  then show split: "js_split CHR ''/'' (asset_key sha256_hex content) = [''cdn'', asset_name sha256_hex content]"
    unfolding key by (intro js_split_join) auto
  have "encodeURIComponent ''cdn'' = ''cdn''" by (rule encode_plain) code_simp
  then show "encoded_path (asset_key sha256_hex content) = asset_key sha256_hex content"
    unfolding encoded_path_def split by (simp add: key encode_plain [OF asset_name_plain [OF assms]])
qed

lemma asset_keys_differ:
  "digest_laws sha256_hex \<Longrightarrow> asset_name sha256_hex firstContent \<noteq> asset_name sha256_hex secondContent \<and>
     asset_key sha256_hex firstContent \<noteq> asset_key sha256_hex secondContent"
  by (simp add: asset_key_def asset_name_text digest_laws_def)

lemma contents_differ: "firstContent \<noteq> secondContent"
proof -
  have "length firstContent \<noteq> length secondContent" by code_simp
  then show ?thesis by auto
qed

text \<open>The edge server finds the key in the URL.\<close>

lemma asset_request:
  assumes "url_laws pathname decode" and "digest_laws sha256_hex"
  shows "fetch_edge pathname decode s3 env (edgeObjectUrl (asset_key sha256_hex content)) st =
    (let key = asset_key sha256_hex content in case loadObject s3 env key st of
        (Inl _, st') \<Rightarrow> (Inr (Refused 404 ''Not Found''), st')
      | (Inr obj, st') \<Rightarrow> (Inr (Served obj (fst st key \<noteq> None)), st'))"
proof -
  let ?key = "asset_key sha256_hex content"
  have key: "?key = js_join ''/'' [''cdn'', asset_name sha256_hex content]"
    by (simp add: asset_key_def PREFIX_def)
  have plain: "\<forall>c \<in> set ''cdn''. uri_plain c" by code_simp
  have "asset_name sha256_hex content \<notin> {[], ''.'', ''..''}" by (simp add: asset_name_text)
  then have "pathname (''/'' @ ?key) = Some (''/'' @ ?key)"
    unfolding key
    by (intro assms(1) [unfolded url_laws_def, THEN conjunct2, rule_format])
      (use plain asset_name_plain [OF assms(2), of content] in auto)
  moreover have "drop (length EDGE_ORIGIN) (edgeObjectUrl ?key) = ''/'' @ ?key"
    by (simp add: edgeObjectUrl_def asset_key_path(2) [OF assms(2)])
  moreover have "dropWhile (\<lambda>c. c = CHR ''/'') (''/'' @ ?key) = ?key" "?key \<noteq> []" by (simp_all add: key)
  moreover have "decode_key decode ?key = Some ?key"
    using assms(1) plain asset_name_plain [OF assms(2)]
    unfolding decode_key_def asset_key_path(1) [OF assms(2)] url_laws_def by (simp add: key)
  ultimately show ?thesis
    by (simp add: fetch_edge_def handleRequest_def encoded_key_def Let_def split: prod.split sum.split)
qed

section \<open>Its steps\<close>

lemma yields_then:
  assumes "yields (seen view) m v P" and "\<And>a w. P a w \<Longrightarrow> yields (beside view) (f a) (cache, w) Q"
  shows "yields (beside view) (cmd_bind (on_snd m) f) (cache, v) Q"
  by (rule yields_bind [OF yields_storage [OF assms(1)]]) (use assms(2) in force)

definition asset_object :: "byte list \<Rightarrow> stored_object \<Rightarrow> bool" where
  "asset_object body x \<longleftrightarrow> so_body x = body \<and> so_contentType x = Some ''text/css; charset=utf-8'' \<and>
     so_cacheControl x = Some ''public, max-age=31536000, immutable''"

definition asset_cached :: "byte list \<Rightarrow> cached_object" where
  "asset_cached body = \<lparr>co_body = body, co_contentType = ''text/css; charset=utf-8'',
     co_cacheControl = ''public, max-age=31536000, immutable''\<rparr>"

lemma yields_upload:
  assumes "getStorageConfig env = Inr config" and "bucket_laws s3 (sc_bucket config) view" and "object_laws s3 (sc_bucket config) code view"
  shows "yields (seen view) (uploadAsset s3 env k body) v (\<lambda>_ w. \<exists>x. asset_object body x \<and>
    w = v\<lparr>bv_objects := (bv_objects v)(k \<mapsto> x)\<rparr>)"
proof -
  have sent: "yields (seen view) (send s3 (PutObjectBody (sc_bucket config) k body ''text/css; charset=utf-8'' ''public, max-age=31536000, immutable'')) v
      (\<lambda>_ w. \<exists>x. asset_object body x \<and> w = v\<lparr>bv_objects := (bv_objects v)(k \<mapsto> x)\<rparr>)"
  proof (rule yields_send_some)
    fix s assume "view s = v"
    with assms(3) [unfolded object_laws_def, THEN spec [where x = s], THEN spec [where x = k], THEN conjunct2, THEN conjunct1,
        rule_format, of body "''text/css; charset=utf-8''" "''public, max-age=31536000, immutable''"]
    show "\<exists>P w. responds s3 view (PutObjectBody (sc_bucket config) k body ''text/css; charset=utf-8'' ''public, max-age=31536000, immutable'') s P w \<and>
        (\<forall>r. P r \<longrightarrow> (\<exists>x. asset_object body x \<and> w = v\<lparr>bv_objects := (bv_objects v)(k \<mapsto> x)\<rparr>))"
      unfolding asset_object_def by (metis stored_object.select_convs(1,3,4))
  qed
  show ?thesis
    unfolding uploadAsset_def
    by (rule yields_bind [OF yields_ensure [OF assms(1,2)]], hypsubst, rule yields_bucket [OF assms(1)],
        rule yields_bind [OF sent], rule yields_return)
qed

lemma yields_delete_asset:
  assumes "getStorageConfig env = Inr config" and "object_laws s3 (sc_bucket config) code view"
  shows "yields (seen view) (deleteAsset s3 env k) v (\<lambda>_ w. w = v\<lparr>bv_objects := (bv_objects v)(k := None)\<rparr>)"
  unfolding deleteAsset_def
  by (rule yields_bucket [OF assms(1)], rule yields_try, rule yields_bind [OF yields_send [OF law_delete [OF assms(2)]]])
    (auto intro: yields_return)

lemma law_get:
  assumes "object_laws s3 b code view" and "view s = v" and "bv_objects v k = Some x"
  shows "responds s3 view (GetObject b k) s
    (\<lambda>r. s3_Body r = Some (so_body x) \<and> s3_ContentType r = so_contentType x \<and> s3_CacheControl r = so_cacheControl x) v"
  using assms(1) [unfolded object_laws_def, THEN spec [where x = s], THEN spec [where x = k]] assms(2,3) by simp

lemma yields_fetch_object:
  assumes "getStorageConfig env = Inr config" and "object_laws s3 (sc_bucket config) code view"
    and "bv_objects v k = Some x" and "asset_object body x"
  shows "yields (seen view) (fetch_object s3 env k) v (\<lambda>a w. a = asset_cached body \<and> w = v)"
  unfolding fetch_object_def
  by (rule yields_bucket [OF assms(1)], rule yields_bind [OF yields_send [OF law_get [OF assms(2) _ assms(3)]]])
    (use assms(4) in \<open>auto simp: to_object_def asset_object_def asset_cached_def intro!: yields_lift\<close>)

lemma yields_miss:
  assumes "getStorageConfig env = Inr config" and "object_laws s3 (sc_bucket config) code view"
    and "url_laws pathname decode" and "digest_laws sha256_hex" and "k = asset_key sha256_hex content"
    and "bv_objects v k = Some x" and "asset_object body x" and "cache k = None"
  shows "yields (beside view) (fetch_edge pathname decode s3 env (edgeObjectUrl k)) (cache, v)
    (\<lambda>r w. r = Served (asset_cached body) False \<and> w = (cache(k \<mapsto> asset_cached body), v))"
  unfolding yields_def
proof (intro allI impI)
  fix st assume "beside view st = (cache, v)"
  then obtain s where s: "st = (cache, s)" "view (st_service s) = v" by (cases st) auto
  have "yields (seen view) (fetch_object s3 env k) (seen view s) (\<lambda>a w. a = asset_cached body \<and> w = v)"
    using yields_fetch_object [OF assms(1,2,6,7)] s(2) by simp
  then obtain s' where "fetch_object s3 env k s = (Inr (asset_cached body), s')" "view (st_service s') = v"
    by (rule yields_result) auto
  then show "case fetch_edge pathname decode s3 env (edgeObjectUrl k) st of
      (Inr r, st') \<Rightarrow> r = Served (asset_cached body) False \<and> beside view st' = (cache(k \<mapsto> asset_cached body), v) | (Inl _, _) \<Rightarrow> False"
    using assms(8) unfolding assms(5) asset_request [OF assms(3,4)] s(1)
    by (simp add: loadObject_def cmd_bind_run cmd_simps Let_def)
qed

lemma yields_hit:
  assumes "url_laws pathname decode" and "digest_laws sha256_hex" and "k = asset_key sha256_hex content" and "cache k = Some obj"
  shows "yields (beside view) (fetch_edge pathname decode s3 env (edgeObjectUrl k)) (cache, v)
    (\<lambda>r w. r = Served obj True \<and> w = (cache, v))"
  unfolding yields_def
proof (intro allI impI)
  fix st assume "beside view st = (cache, v)"
  then obtain s where s: "st = (cache, s)" "view (st_service s) = v" by (cases st) auto
  then show "case fetch_edge pathname decode s3 env (edgeObjectUrl k) st of
      (Inr r, st') \<Rightarrow> r = Served obj True \<and> beside view st' = (cache, v) | (Inl _, _) \<Rightarrow> False"
    using assms(4) unfolding assms(3) asset_request [OF assms(1,2)]
    by (simp add: loadObject_def cmd_bind_run cmd_simps Let_def)
qed

lemma yields_direct:
  assumes "private_laws env fetch_direct view" and "storageObjectUrl env k = Inr url"
  shows "yields (seen view) (\<lambda>s. case fetch_direct url (st_service s) of (r, t) \<Rightarrow> (r, s\<lparr>st_service := t\<rparr>)) v
    (\<lambda>a w. a = 403 \<and> w = v)"
  unfolding yields_def
proof (intro allI impI)
  fix s :: "'a storage" assume "view (st_service s) = v"
  then show "case (case fetch_direct url (st_service s) of (r, t) \<Rightarrow> (r, s\<lparr>st_service := t\<rparr>)) of
      (Inr a, s') \<Rightarrow> a = 403 \<and> view (st_service s') = v | (Inl _, _) \<Rightarrow> False"
    using assms(1) [unfolded private_laws_def, rule_format, OF assms(2), of "st_service s"] by (auto split: prod.split)
qed

section \<open>The demonstration passes\<close>

lemma verdict_cdn:
  assumes "digest_laws sha256_hex"
  shows "cdn_verdict (asset_name sha256_hex firstContent) (asset_name sha256_hex secondContent) 403
      (Served (asset_cached firstContent) False) (Served (asset_cached firstContent) True) (Served (asset_cached secondContent) False) =
    \<lparr>cd_direct = 403, cd_edgeMiss = 200, cd_edgeHit = 200, cd_cacheHit = 1, cd_newName = 1, cd_newUrl = 200,
     cd_contentChanged = 1, cd_passed = True\<rparr>"
  using asset_keys_differ [OF assms] contents_differ by (simp add: cdn_verdict_def asset_cached_def Let_def)

definition cdn_passes :: "bucket_view \<Rightarrow> string \<Rightarrow> string \<Rightarrow> cdn_report \<Rightarrow> (string \<Rightarrow> cached_object option) \<times> bucket_view \<Rightarrow> bool" where
  "cdn_passes v k1 k2 r w \<longleftrightarrow> r = \<lparr>cd_direct = 403, cd_edgeMiss = 200, cd_edgeHit = 200, cd_cacheHit = 1, cd_newName = 1,
       cd_newUrl = 200, cd_contentChanged = 1, cd_passed = True\<rparr> \<and>
     (bv_objects (snd w))(k1 := None, k2 := None) = (bv_objects v)(k1 := None, k2 := None)"

lemma yields_cdn_run:
  assumes "getStorageConfig env = Inr config" and "sc_endpoint config = Some e"
    and "bucket_laws s3 (sc_bucket config) view" and "object_laws s3 (sc_bucket config) code view"
    and "url_laws pathname decode" and "digest_laws sha256_hex" and "private_laws env fetch_direct view"
    and "k1 = asset_key sha256_hex firstContent" and "k2 = asset_key sha256_hex secondContent"
  shows "yields (beside view) (cdn_run pathname decode sha256_hex fetch_direct True s3 env) (\<lambda>_. None, v)
    (cdn_passes v k1 k2)"
proof -
  have differ: "k1 \<noteq> k2" using asset_keys_differ [OF assms(6)] assms(8,9) by simp
  obtain url where url: "storageObjectUrl env k1 = Inr url" using assms(1,2) by (simp add: storageObjectUrl_def Let_def)
  note delete = yields_then [OF yields_delete_asset [OF assms(1,4)]] and upload = yields_then [OF yields_upload [OF assms(1,3,4)]]
  have served: "yields (beside view) (cmd_bind (fetch_edge pathname decode s3 env (edgeObjectUrl k1)) (\<lambda>firstEdge.
      cmd_bind (fetch_edge pathname decode s3 env (edgeObjectUrl k1)) (\<lambda>secondEdge.
      cmd_bind (on_snd (uploadAsset s3 env k2 secondContent)) (\<lambda>_.
      cmd_bind (fetch_edge pathname decode s3 env (edgeObjectUrl k2)) (\<lambda>new.
      cmd_return (cdn_verdict (asset_name sha256_hex firstContent) (asset_name sha256_hex secondContent)
        403 firstEdge secondEdge new)))))) (\<lambda>_. None, w) (cdn_passes v k1 k2)"
    if x: "asset_object firstContent x" and w: "bv_objects w = (bv_objects v)(k1 \<mapsto> x, k2 := None)" for x w
  proof -
    let ?cache = "(\<lambda>_. None)(k1 \<mapsto> asset_cached firstContent)"
    have stored: "bv_objects w k1 = Some x" using differ by (simp add: w)
    have cached: "?cache k1 = Some (asset_cached firstContent)" "?cache k2 = None" using differ by simp_all
    note miss1 = yields_miss [where content = firstContent and cache = "\<lambda>_. None" and k = k1, OF assms(1,4-6,8) stored x refl]
    note hit1 = yields_hit [where content = firstContent and cache = ?cache and k = k1, OF assms(5,6,8) cached(1)]
    note miss2 = yields_miss [where content = secondContent and cache = ?cache and k = k2, OF assms(1,4-6,9) _ _ cached(2)]
    have last: "yields (beside view) (cmd_bind (fetch_edge pathname decode s3 env (edgeObjectUrl k2)) (\<lambda>new.
        cmd_return (cdn_verdict (asset_name sha256_hex firstContent) (asset_name sha256_hex secondContent)
          403 (Served (asset_cached firstContent) False) (Served (asset_cached firstContent) True) new))) (?cache, u) (cdn_passes v k1 k2)"
      if "asset_object secondContent x2" and "u = w\<lparr>bv_objects := (bv_objects w)(k2 \<mapsto> x2)\<rparr>" for x2 u
      by (rule yields_bind [OF miss2 [where x = x2]], simp add: that, rule that, rule yields_return)
        (use verdict_cdn [OF assms(6)] that w differ in \<open>auto simp: cdn_passes_def fun_eq_iff\<close>)
    show ?thesis
      by (rule yields_bind [OF miss1], elim conjE, simp only:, rule yields_bind [OF hit1], elim conjE, simp only:,
          rule upload, elim exE conjE, rule last)
  qed
  show ?thesis
    unfolding cdn_run_def Let_def assms(8,9) [symmetric] startServer_def
    by (rule delete, hypsubst, rule delete, hypsubst, rule upload, elim exE conjE,
        rule yields_bind [OF yields_lift [where Q = "\<lambda>a w'. a = url \<and> w' = _", OF url]], simp, elim conjE, simp only:,
        rule yields_then [OF yields_direct [OF assms(7) url]], elim conjE, simp only: if_True cmd_bind_return,
        rule served, assumption) (use differ in \<open>auto simp: fun_eq_iff\<close>)
qed

text \<open>With a private storage that behaves as documented, whatever it and the edge cache hold, the
  demonstration passes: the storage itself answers 403, the edge server answers 200 twice with the
  stored bytes, first as a miss and then as a hit, and the changed content has a new name under
  which the edge server serves it at once. Afterwards the cache is empty and every other object is as it was.\<close>
theorem cdn_demo_passes:
  assumes "getStorageConfig env = Inr config" and "sc_endpoint config = Some e"
    and "bucket_laws s3 (sc_bucket config) view" and "object_laws s3 (sc_bucket config) code view"
    and "url_laws pathname decode" and "digest_laws sha256_hex" and "private_laws env fetch_direct view"
  shows "\<exists>s'. cdn_demo pathname decode sha256_hex fetch_direct True s3 env (cache, s) =
      (Inr \<lparr>cd_direct = 403, cd_edgeMiss = 200, cd_edgeHit = 200, cd_cacheHit = 1, cd_newName = 1, cd_newUrl = 200,
         cd_contentChanged = 1, cd_passed = True\<rparr>, (\<lambda>_. None, s')) \<and>
    bv_objects (view (st_service s')) = (bv_objects (view (st_service s)))
      (asset_key sha256_hex firstContent := None, asset_key sha256_hex secondContent := None)"
proof -
  define k1 where "k1 = asset_key sha256_hex firstContent"
  define k2 where "k2 = asset_key sha256_hex secondContent"
  obtain s0 where 0: "ensureStorageBucket s3 env s = (Inr (), s0)" "view (st_service s0) = view (st_service s)"
    by (rule yields_result [OF yields_ensure [OF assms(1,3)], of s]) auto
  note run = yields_cdn_run [OF assms k1_def k2_def]
  have "yields (beside view) (cdn_run pathname decode sha256_hex fetch_direct True s3 env) (beside view (\<lambda>_. None, s0))
      (cdn_passes (view (st_service s)) k1 k2)" using run by (simp add: 0(2))
  then obtain r c1 s1 where 1: "cdn_run pathname decode sha256_hex fetch_direct True s3 env (\<lambda>_. None, s0) = (Inr r, (c1, s1))"
    "cdn_passes (view (st_service s)) k1 k2 r (c1, view (st_service s1))"
    by (rule yields_result) (metis (mono_tags, lifting) case_prod_conv surj_pair)
  obtain s2 where 2: "deleteAsset s3 env k1 s1 = (Inr (), s2)"
    "view (st_service s2) = (view (st_service s1))\<lparr>bv_objects := (bv_objects (view (st_service s1)))(k1 := None)\<rparr>"
    by (rule yields_result [OF yields_delete_asset [OF assms(1,4)], where s = s1]) auto
  obtain s3' where 3: "deleteAsset s3 env k2 s2 = (Inr (), s3')"
    "view (st_service s3') = (view (st_service s2))\<lparr>bv_objects := (bv_objects (view (st_service s2)))(k2 := None)\<rparr>"
    by (rule yields_result [OF yields_delete_asset [OF assms(1,4)], where s = s2]) auto
  have "cdn_demo pathname decode sha256_hex fetch_direct True s3 env (cache, s) = (Inr r, (\<lambda>_. None, s3'))"
    using 0(1) 1(1) 2(1) 3(1) by (simp add: cdn_demo_def cmd_bind_run cmd_simps clearEdgeCache_def flip: k1_def k2_def)
  with 1(2) 2(2) 3(2) show ?thesis by (auto simp: cdn_passes_def simp flip: k1_def k2_def)
qed

definition cdn_env :: environment where
  "cdn_env = sample_env(''STORAGE_ENDPOINT'' \<mapsto> ''http://s3/'')"

definition sample_digest :: "byte list \<Rightarrow> string" where
  "sample_digest b = replicate 8 (hex_char (if b = firstContent then 0 else 1))"

lemma sample_digest_laws: "digest_laws sample_digest"
proof -
  have "hex_char 0 \<noteq> hex_char 1" by code_simp
  moreover have "\<exists>d < 16. hex_char 0 = hex_char d" "\<exists>d < 16. hex_char 1 = hex_char d"
    by (rule exI [of _ 0], simp) (rule exI [of _ 1], simp)
  ultimately show ?thesis using contents_differ by (simp add: digest_laws_def sample_digest_def)
qed

theorem cdn_demo_passes_witness:
  "\<exists>s' rep. cdn_demo Some Some sample_digest (\<lambda>_ m. (Inr 403, m)) True memory_s3 cdn_env
      (\<lambda>_. None, \<lparr>st_client = None, st_initialized = False, st_service = \<lparr>mm_objects = [], mm_uploads = []\<rparr>\<rparr>) = (Inr rep, s') \<and>
    cd_passed rep"
proof -
  have config: "getStorageConfig cdn_env = Inr (sample_config_storage\<lparr>sc_endpoint := Some ''http://s3/''\<rparr>)"
    by (simp add: getStorageConfig_def cdn_env_def sample_env_def requireEnv_def env_or_none_def sample_config_storage_def)
  have laws: "url_laws Some Some" "private_laws cdn_env (\<lambda>_ m. (Inr 403, m)) mem_view"
    by (simp_all add: url_laws_def private_laws_def)
  show ?thesis
    using cdn_demo_passes [OF config _ mem_bucket mem_objects laws(1) sample_digest_laws laws(2), of "''http://s3/''" "\<lambda>_. None"
        "\<lparr>st_client = None, st_initialized = False, st_service = \<lparr>mm_objects = [], mm_uploads = []\<rparr>\<rparr>"]
    by fastforce
qed

end
