(* ===== verification/QueueDemo.thy ===== *)
theory QueueDemo
  imports Auth
begin

text \<open>
  \<open>src/redis/queue.ts\<close> and \<open>src/demo-queue.ts\<close>: connections to the queue's Redis, and a job that
  fails twice, a scheduled job and the worker that handles both. The queue is that of BullMQ: its
  operations are a record of arguments, and the jobs it hands to the worker before each poll of
  \<open>waitFor\<close> are a list of lists, as long as there are polls before the deadline.
\<close>

section \<open>Connections\<close>

record redis_options =
  ro_url :: string
  ro_maxRetriesPerRequest :: "nat option"

definition getQueueRedis :: "(string \<Rightarrow> string option) \<Rightarrow> err + redis_options" where
  "getQueueRedis env = (case requireEnv env ''REDIS_QUEUE_URL'' of
       Inl e \<Rightarrow> Inl e
     | Inr url \<Rightarrow> Inr \<lparr>ro_url = url, ro_maxRetriesPerRequest = Some 2\<rparr>)"

definition getQueueWorkerRedis :: "(string \<Rightarrow> string option) \<Rightarrow> err + redis_options" where
  "getQueueWorkerRedis env = (case requireEnv env ''REDIS_QUEUE_URL'' of
       Inl e \<Rightarrow> Inl e
     | Inr url \<Rightarrow> Inr \<lparr>ro_url = url, ro_maxRetriesPerRequest = None\<rparr>)"

section \<open>The library\<close>

record job_options =
  jb_jobId :: string
  jb_attempts :: nat
  jb_backoffType :: string
  jb_backoffDelay :: nat
  jb_backoffJitter :: jsnum
  jb_removeOnCompleteAge :: nat
  jb_removeOnFail :: bool

record queue_job =
  qj_name :: string
  qj_id :: string

record 'q bullmq =
  bq_obliterate :: "('q, unit) cmd"
  bq_config_policy :: "('q, string list option) cmd"
  bq_add :: "string \<Rightarrow> job_options \<Rightarrow> ('q, unit) cmd"
  bq_getJobs :: "string list \<Rightarrow> ('q, string list) cmd"
  bq_upsertJobScheduler :: "string \<Rightarrow> nat \<Rightarrow> string \<Rightarrow> ('q, unit) cmd"
  bq_getJobSchedulers :: "('q, string list) cmd"
  bq_removeJobScheduler :: "string \<Rightarrow> ('q, unit) cmd"

section \<open>The script\<close>

definition JOB_ID :: string where "JOB_ID = ''hw23-deduplicated-job''"
definition SCHEDULER_ID :: string where "SCHEDULER_ID = ''hw23-demo-scheduler''"

definition retriable_options :: job_options where
  "retriable_options = \<lparr>jb_jobId = JOB_ID, jb_attempts = 3, jb_backoffType = ''exponential'', jb_backoffDelay = 100,
     jb_backoffJitter = FracN 5 1,
     jb_removeOnCompleteAge = 3600, jb_removeOnFail = False\<rparr>"

record queue_counts =
  qc_attempts :: nat
  qc_completed :: nat
  qc_scheduledRuns :: nat

text \<open>The handler of the worker; an error makes the attempt fail.\<close>

definition on_job :: "queue_job \<Rightarrow> (queue_counts, unit) cmd" where
  "on_job job =
     (if qj_name job = ''scheduled-job''
      then cmd_write (\<lambda>c. c\<lparr>qc_scheduledRuns := qc_scheduledRuns c + 1\<rparr>)
      else if qj_id job = JOB_ID
      then cmd_bind (cmd_write (\<lambda>c. c\<lparr>qc_attempts := qc_attempts c + 1\<rparr>)) (\<lambda>_.
           cmd_bind (cmd_read qc_attempts) (\<lambda>attempts.
           if attempts < 3 then cmd_throw (JsError (''Intentional failure '' @ show_nat attempts))
           else cmd_write (\<lambda>c. c\<lparr>qc_completed := qc_completed c + 1\<rparr>)))
      else cmd_return ())"

definition handled :: "queue_job list \<Rightarrow> queue_counts \<Rightarrow> queue_counts" where
  "handled jobs c = fold (\<lambda>j c. snd (on_job j c)) jobs c"

fun waitForJobs :: "(queue_counts \<Rightarrow> bool) \<Rightarrow> queue_job list list \<Rightarrow> (queue_counts, unit) cmd" where
  "waitForJobs predicate [] c = (Inl (JsError ''Timed out waiting for BullMQ demo''), c)"
| "waitForJobs predicate (jobs # polls) c =
     (let c' = handled jobs c in if predicate c' then (Inr (), c') else waitForJobs predicate polls c')"

definition all_seen :: "queue_counts \<Rightarrow> bool" where
  "all_seen c \<longleftrightarrow> qc_completed c = 1 \<and> 3 \<le> qc_attempts c \<and> 2 \<le> qc_scheduledRuns c"

definition policy_text :: "string list option \<Rightarrow> string" where
  "policy_text reply = (case reply of Some (_ # p # _) \<Rightarrow> p | _ \<Rightarrow> [])"

record queue_report =
  qr_queueNoeviction :: nat
  qr_counts :: queue_counts
  qr_added :: nat
  qr_queued :: nat
  qr_schedulers :: nat
  qr_passed :: bool

definition queue_run :: "'q bullmq \<Rightarrow> queue_job list list \<Rightarrow> ('q, queue_report) cmd" where
  "queue_run bq polls =
     cmd_bind (bq_obliterate bq) (\<lambda>_.
     cmd_bind (bq_config_policy bq) (\<lambda>policyResult.
     let queueNoeviction = (if policy_text policyResult = ''noeviction'' then 1 else 0) in
     cmd_bind (bq_add bq ''retriable-job'' retriable_options) (\<lambda>_.
     cmd_bind (bq_add bq ''retriable-job'' retriable_options) (\<lambda>_.
     let added = 2 in
     cmd_bind (bq_getJobs bq [''waiting'', ''delayed'', ''active'', ''completed'', ''failed'']) (\<lambda>deduplicatedJobs.
     let queued = length (filter (\<lambda>i. i = JOB_ID) deduplicatedJobs) in
     cmd_bind (bq_upsertJobScheduler bq SCHEDULER_ID 500 ''scheduled-job'') (\<lambda>_.
     cmd_bind (bq_getJobSchedulers bq) (\<lambda>jobSchedulers.
     let schedulers = length jobSchedulers in
     (case waitForJobs all_seen polls \<lparr>qc_attempts = 0, qc_completed = 0, qc_scheduledRuns = 0\<rparr> of
        (Inl e, _) \<Rightarrow> cmd_throw e
      | (Inr _, c) \<Rightarrow> cmd_return \<lparr>qr_queueNoeviction = queueNoeviction, qr_counts = c, qr_added = added,
          qr_queued = queued, qr_schedulers = schedulers,
          qr_passed = (queueNoeviction = 1 \<and> 3 \<le> qc_attempts c \<and> qc_completed c = 1 \<and> added = 2 \<and> queued = 1 \<and>
            1 \<le> schedulers \<and> 2 \<le> qc_scheduledRuns c)\<rparr>))))))))"

text \<open>Errors are printed; the exit code is 0 exactly if the checks passed. The scheduler is removed.\<close>

definition queue_demo :: "'q bullmq \<Rightarrow> queue_job list list \<Rightarrow> 'q \<Rightarrow> (queue_report option \<times> nat) \<times> 'q" where
  "queue_demo bq polls q = (case queue_run bq polls q of
     (r, q') \<Rightarrow> ((case r of Inl _ \<Rightarrow> (None, 1) | Inr rep \<Rightarrow> (Some rep, if qr_passed rep then 0 else 1)),
       snd (bq_removeJobScheduler bq SCHEDULER_ID q')))"

section \<open>What it relies on\<close>

text \<open>
  Adding a job under an identifier that exists adds nothing, and a scheduler is listed from its
  insertion to its removal; \<open>ids\<close> and \<open>schedulers\<close> read the state of the queue.
\<close>

definition queue_laws :: "'q bullmq \<Rightarrow> ('q \<Rightarrow> string list) \<Rightarrow> ('q \<Rightarrow> string list) \<Rightarrow> string list option \<Rightarrow> bool" where
  "queue_laws bq ids schedulers policy \<longleftrightarrow> (\<forall>q.
     (\<exists>q'. bq_obliterate bq q = (Inr (), q') \<and> ids q' = []) \<and>
     bq_config_policy bq q = (Inr policy, q) \<and>
     (\<forall>name opts. \<exists>q'. bq_add bq name opts q = (Inr (), q') \<and>
        ids q' = (if jb_jobId opts \<in> set (ids q) then ids q else ids q @ [jb_jobId opts])) \<and>
     bq_getJobs bq [''waiting'', ''delayed'', ''active'', ''completed'', ''failed''] q = (Inr (ids q), q) \<and>
     (\<forall>i every name. \<exists>q'. bq_upsertJobScheduler bq i every name q = (Inr (), q') \<and> i \<in> set (schedulers q')) \<and>
     bq_getJobSchedulers bq q = (Inr (schedulers q), q) \<and>
     (\<forall>i. i \<notin> set (schedulers (snd (bq_removeJobScheduler bq i q)))))"

text \<open>A job is handed over again as long as it fails, three times at most (\<open>attempts: 3\<close>).\<close>

definition is_retriable :: "queue_job \<Rightarrow> bool" where
  "is_retriable j \<longleftrightarrow> qj_name j \<noteq> ''scheduled-job'' \<and> qj_id j = JOB_ID"

fun retried :: "nat \<Rightarrow> bool \<Rightarrow> queue_job list \<Rightarrow> queue_counts \<Rightarrow> bool" where
  "retried made finished [] c = True"
| "retried made finished (j # js) c =
     (case on_job j c of (r, c') \<Rightarrow>
        if is_retriable j then \<not> finished \<and> made < jb_attempts retriable_options \<and> retried (made + 1) (r = Inr ()) js c'
        else retried made finished js c')"

definition retries :: "queue_job list \<Rightarrow> nat" where
  "retries js = length (filter is_retriable js)"

definition schedules :: "queue_job list \<Rightarrow> nat" where
  "schedules js = length (filter (\<lambda>j. qj_name j = ''scheduled-job'') js)"

section \<open>What the handler counts\<close>

lemma on_job_run:
  "snd (on_job j c) =
    (if qj_name j = ''scheduled-job'' then c\<lparr>qc_scheduledRuns := qc_scheduledRuns c + 1\<rparr>
     else if qj_id j = JOB_ID then (if qc_attempts c < 2 then c\<lparr>qc_attempts := qc_attempts c + 1\<rparr>
       else c\<lparr>qc_attempts := qc_attempts c + 1, qc_completed := qc_completed c + 1\<rparr>)
     else c)"
  by (simp add: on_job_def cmd_bind_run cmd_simps)

definition job_counts :: "nat \<Rightarrow> nat \<Rightarrow> queue_counts" where
  "job_counts k m = \<lparr>qc_attempts = k, qc_completed = k - 2, qc_scheduledRuns = m\<rparr>"

lemma job_counts_sel: "qc_attempts (job_counts k m) = k" "qc_completed (job_counts k m) = k - 2" "qc_scheduledRuns (job_counts k m) = m"
  by (simp_all add: job_counts_def)

text \<open>The job completes with its third attempt, and with every one after it.\<close>

lemma handled_counts: "handled js (job_counts k m) = job_counts (k + retries js) (m + schedules js)"
proof (induction js arbitrary: k m)
  case (Cons j js)
  have "snd (on_job j (job_counts k m)) = job_counts (k + retries [j]) (m + schedules [j])"
    by (auto simp: on_job_run job_counts_def retries_def schedules_def is_retriable_def)
  with Cons.IH show ?case
    by (auto simp: handled_def retries_def schedules_def)
qed (simp add: handled_def retries_def schedules_def)

lemma retried_bound: "retried made finished js c \<Longrightarrow> made \<le> 3 \<Longrightarrow> made + retries js \<le> 3"
proof (induction made finished js c rule: retried.induct)
  case (2 made finished j js c)
  then show ?case
    by (cases "on_job j c") (auto simp: retries_def retriable_options_def split: if_splits)
qed (simp add: retries_def)

lemma handled_append: "handled (xs @ ys) c = handled ys (handled xs c)"
  by (simp add: handled_def)

text \<open>The wait ends at a poll that finds the predicate true, if the last one does.\<close>

lemma waitForJobs_ends:
  assumes "polls \<noteq> []" and "predicate (handled (concat polls) c)"
  shows "\<exists>n. waitForJobs predicate polls c = (Inr (), handled (concat (take n polls)) c) \<and>
    predicate (handled (concat (take n polls)) c)"
  using assms
proof (induction polls arbitrary: c)
  case (Cons jobs polls)
  show ?case
  proof (cases "predicate (handled jobs c)")
    case True
    then show ?thesis by (intro exI [of _ 1]) (simp add: Let_def)
  next
    case False
    then have "polls \<noteq> []" using Cons.prems(2) by (cases polls) auto
    moreover have "predicate (handled (concat polls) (handled jobs c))"
      using Cons.prems(2) by (simp add: handled_append)
    ultimately obtain n where "waitForJobs predicate polls (handled jobs c) = (Inr (), handled (concat (take n polls)) (handled jobs c))"
      "predicate (handled (concat (take n polls)) (handled jobs c))"
      using Cons.IH by blast
    with False show ?thesis by (intro exI [of _ "Suc n"]) (simp add: handled_append Let_def)
  qed
qed simp

lemma concat_take: "concat polls = concat (take n polls) @ concat (drop n polls)"
  by (simp flip: concat_append)

text \<open>However the deliveries fall between the polls, when the queue hands the job over as long as it
  fails and the scheduler ran twice before the deadline, the demonstration counts three attempts, one
  completion and one queued job for two insertions; its exit code is 0 exactly if Redis runs with the
  policy \<open>noeviction\<close>. It leaves no scheduler behind.\<close>
theorem queue_demo_counts:
  assumes "queue_laws bq ids schedulers policy" and "retried 0 False (concat polls) (job_counts 0 0)"
    and "3 \<le> retries (concat polls)" and "2 \<le> schedules (concat polls)"
  shows "\<exists>rep q'. queue_demo bq polls q = ((Some rep, if policy_text policy = ''noeviction'' then 0 else 1), q') \<and>
    qc_attempts (qr_counts rep) = 3 \<and> qc_completed (qr_counts rep) = 1 \<and> 2 \<le> qc_scheduledRuns (qr_counts rep) \<and>
    qr_added rep = 2 \<and> qr_queued rep = 1 \<and> 1 \<le> qr_schedulers rep \<and> SCHEDULER_ID \<notin> set (schedulers q')"
proof -
  note laws = assms(1) [unfolded queue_laws_def, rule_format]
  obtain q1 where q1: "bq_obliterate bq q = (Inr (), q1)" "ids q1 = []" using laws by blast
  have policy: "bq_config_policy bq q1 = (Inr policy, q1)" using laws by blast
  have add: "\<exists>q'. bq_add bq name opts q = (Inr (), q') \<and>
      ids q' = (if jb_jobId opts \<in> set (ids q) then ids q else ids q @ [jb_jobId opts])" for name opts q
    using laws by blast
  have job: "jb_jobId retriable_options = JOB_ID" by (simp add: retriable_options_def)
  obtain q2 where q2: "bq_add bq ''retriable-job'' retriable_options q1 = (Inr (), q2)" "ids q2 = [JOB_ID]"
    using add [where q = q1 and opts = retriable_options and name = "''retriable-job''"] q1(2) unfolding job by auto
  obtain q3 where q3: "bq_add bq ''retriable-job'' retriable_options q2 = (Inr (), q3)" "ids q3 = [JOB_ID]"
    using add [where q = q2 and opts = retriable_options and name = "''retriable-job''"] q2(2) unfolding job by auto
  have jobs: "bq_getJobs bq [''waiting'', ''delayed'', ''active'', ''completed'', ''failed''] q3 = (Inr [JOB_ID], q3)"
    using laws [of q3] q3(2) by metis
  obtain q4 where q4: "bq_upsertJobScheduler bq SCHEDULER_ID 500 ''scheduled-job'' q3 = (Inr (), q4)" "SCHEDULER_ID \<in> set (schedulers q4)"
    using laws [of q3] by blast
  have listed: "bq_getJobSchedulers bq q4 = (Inr (schedulers q4), q4)" using laws by blast
  have three: "retries (concat polls) \<le> 3" using retried_bound [OF assms(2)] by simp
  have "all_seen (handled (concat polls) (job_counts 0 0))"
    using three assms(3,4) by (simp add: handled_counts all_seen_def job_counts_sel)
  moreover have "polls \<noteq> []" using assms(3) by (auto simp: retries_def)
  ultimately obtain n where wait: "waitForJobs all_seen polls (job_counts 0 0) = (Inr (), handled (concat (take n polls)) (job_counts 0 0))"
    "all_seen (handled (concat (take n polls)) (job_counts 0 0))"
    using waitForJobs_ends by blast
  let ?c = "handled (concat (take n polls)) (job_counts 0 0)"
  have "retries (concat (take n polls)) \<le> 3"
    using three by (subst (asm) concat_take [of polls n]) (simp add: retries_def)
  then have c: "qc_attempts ?c = 3" "qc_completed ?c = 1" "2 \<le> qc_scheduledRuns ?c"
    using wait(2) by (auto simp: handled_counts all_seen_def job_counts_sel)
  have "1 \<le> length (schedulers q4)" using q4(2) by (cases "schedulers q4") auto
  moreover have "\<lparr>qc_attempts = 0, qc_completed = 0, qc_scheduledRuns = 0\<rparr> = job_counts 0 0" by (simp add: job_counts_def)
  ultimately show ?thesis
    using c wait(1) laws [of q4]
    by (auto simp: queue_demo_def queue_run_def cmd_bind_run cmd_simps q1(1) policy q2(1) q3(1) jobs q4(1) listed Let_def)
qed

section \<open>An example\<close>

text \<open>A queue that is a list of identifiers and a list of schedulers.\<close>

definition list_queue :: "(string list \<times> string list) bullmq" where
  "list_queue = \<lparr>bq_obliterate = cmd_write (\<lambda>_. ([], [])),
     bq_config_policy = cmd_return (Some [''maxmemory-policy'', ''noeviction'']),
     bq_add = (\<lambda>_ opts. cmd_write (\<lambda>(js, ss). (if jb_jobId opts \<in> set js then js else js @ [jb_jobId opts], ss))),
     bq_getJobs = (\<lambda>_. cmd_read fst),
     bq_upsertJobScheduler = (\<lambda>i _ _. cmd_write (\<lambda>(js, ss). (js, i # ss))),
     bq_getJobSchedulers = cmd_read snd,
     bq_removeJobScheduler = (\<lambda>i. cmd_write (\<lambda>(js, ss). (js, filter (\<lambda>x. x \<noteq> i) ss)))\<rparr>"

lemma list_queue_laws: "queue_laws list_queue fst snd (Some [''maxmemory-policy'', ''noeviction''])"
  by (auto simp: queue_laws_def list_queue_def cmd_simps)

theorem queue_demo_counts_witness:
  "\<exists>rep q'. queue_demo list_queue [[], [\<lparr>qj_name = ''retriable-job'', qj_id = JOB_ID\<rparr>, \<lparr>qj_name = ''scheduled-job'', qj_id = ''s1''\<rparr>],
      [\<lparr>qj_name = ''retriable-job'', qj_id = JOB_ID\<rparr>], [\<lparr>qj_name = ''scheduled-job'', qj_id = ''s2''\<rparr>],
      [\<lparr>qj_name = ''retriable-job'', qj_id = JOB_ID\<rparr>]] ([''old''], []) = ((Some rep, 0), q') \<and>
    qc_attempts (qr_counts rep) = 3"
proof -
  let ?polls = "[[], [\<lparr>qj_name = ''retriable-job'', qj_id = JOB_ID\<rparr>, \<lparr>qj_name = ''scheduled-job'', qj_id = ''s1''\<rparr>],
      [\<lparr>qj_name = ''retriable-job'', qj_id = JOB_ID\<rparr>], [\<lparr>qj_name = ''scheduled-job'', qj_id = ''s2''\<rparr>],
      [\<lparr>qj_name = ''retriable-job'', qj_id = JOB_ID\<rparr>]]"
  have "retried 0 False (concat ?polls) (job_counts 0 0)"
    by (simp add: on_job_def is_retriable_def retriable_options_def job_counts_def cmd_bind_run cmd_simps)
  moreover have "3 \<le> retries (concat ?polls)" "2 \<le> schedules (concat ?polls)"
    by (simp_all add: retries_def schedules_def is_retriable_def)
  ultimately show ?thesis
    using queue_demo_counts [OF list_queue_laws, of ?polls "([''old''], [])"]
    by (auto simp: policy_text_def)
qed

end
