(* ===== verification/UploadDemo.thy ===== *)
theory UploadDemo
  imports AccessDemos Files StorageLogic "HOL-Library.Sublist"
begin

text \<open>
  \<open>src/demo-upload.ts\<close>: a file is announced under a name that tries to leave its folder, put with the
  signed URL while no server runs, and committed at a second server; then a commit without an
  upload, a changed URL and a URL past its time. The servers run one after the other in the
  process of the script, so they share the variables of the storage module. \<open>now i\<close> is the time of request \<open>i\<close>,
  \<open>elapsed i\<close> the milliseconds between signing and the \<open>PUT\<close> number \<open>i\<close>, \<open>probe i\<close> the answer of the
  \<open>isPortOpen\<close> number \<open>i\<close> and \<open>listens i\<close> whether server \<open>i\<close> can listen.
\<close>

section \<open>The script\<close>

text \<open>\<open>getStorageClient\<close> and \<open>getStorageConfig\<close> stand before the loop, outside its \<open>try\<close>.\<close>

definition discard_object :: "'s s3 \<Rightarrow> string \<Rightarrow> string \<Rightarrow> unit \<Rightarrow> ('s storage, unit) cmd" where
  "discard_object s3 bucket key _ =
     cmd_try (cmd_bind (send s3 (DeleteObject bucket key)) (\<lambda>_. cmd_return ())) (\<lambda>_. cmd_return ())"

definition own_keys :: "db \<Rightarrow> string list" where
  "own_keys d = map f_object_key (filter (\<lambda>r. f_owner_id r = DEMO_USER_ID) (files d))"

definition forget_files :: "db \<Rightarrow> db" where
  "forget_files d = files_update (filter (\<lambda>r. f_owner_id r \<noteq> DEMO_USER_ID)) d"

definition cleanDemoState :: "'s s3 \<Rightarrow> environment \<Rightarrow> ('s file_state, unit) cmd" where
  "cleanDemoState s3 env =
     cmd_bind (on_fst (cmd_read own_keys)) (\<lambda>keys.
     cmd_bind (on_snd (with_bucket env (\<lambda>bucket. cmd_fold (discard_object s3 bucket) keys ()))) (\<lambda>_.
     cmd_bind (on_fst (cmd_write forget_files)) (\<lambda>_.
     on_fst (cmd_write cleanAuthState))))"

text \<open>The requests, as the server answers them; \<open>createIntent\<close> and \<open>commit\<close> stand behind the guard.\<close>

definition intent_request ::
  "'k crypto \<Rightarrow> 'k auth_config \<Rightarrow> 's s3 \<Rightarrow> environment \<Rightarrow> int \<Rightarrow> string \<Rightarrow> string \<Rightarrow> string option \<Rightarrow> jsval \<Rightarrow>
     ('s file_state, upload_intent) cmd" where
  "intent_request cr cfg s3 env now fileId keyId header body =
     cmd_bind (on_fst (canActivate cr cfg now header)) (\<lambda>user.
     createIntent (cr_bind cr) s3 env fileId keyId (Some user) body)"

definition commit_request ::
  "'k crypto \<Rightarrow> 'k auth_config \<Rightarrow> 's s3 \<Rightarrow> environment \<Rightarrow> int \<Rightarrow> string option \<Rightarrow> jsval \<Rightarrow> ('s file_state, commit_response) cmd" where
  "commit_request cr cfg s3 env now header body =
     cmd_bind (on_fst (canActivate cr cfg now header)) (\<lambda>user. commit s3 env (Some user) body)"

definition login_request ::
  "'k crypto \<Rightarrow> 'k auth_config \<Rightarrow> int \<Rightarrow> string \<Rightarrow> string \<Rightarrow> string \<Rightarrow> (db, auth_response) cmd" where
  "login_request cr cfg now fam tok jti =
     cmd_bind (attempt (loginHandler cr cfg now fam tok jti (login_body DEMO_EMAIL))) (\<lambda>response.
     case response of
       Inr auth \<Rightarrow> cmd_return auth
     | Inl e \<Rightarrow> cmd_throw (JsError (''Login failed: '' @ show_nat (status_of e))))"

definition intent_input :: "string \<Rightarrow> nat \<Rightarrow> jsval" where
  "intent_input filename n = Obj [(''filename'', Str filename), (''contentType'', Str ''image/png''), (''size'', Num (IntN (int n)))]"

definition request_intent ::
  "'k crypto \<Rightarrow> 'k auth_config \<Rightarrow> 's s3 \<Rightarrow> environment \<Rightarrow> int \<Rightarrow> string \<Rightarrow> string \<Rightarrow> string \<Rightarrow> jsval \<Rightarrow>
     ('s file_state, err + upload_intent) cmd" where
  "request_intent cr cfg s3 env now fileId keyId accessToken input =
     attempt (intent_request cr cfg s3 env now fileId keyId (authorization (Str accessToken)) input)"

definition request_commit ::
  "'k crypto \<Rightarrow> 'k auth_config \<Rightarrow> 's s3 \<Rightarrow> environment \<Rightarrow> int \<Rightarrow> string \<Rightarrow> jsval \<Rightarrow> ('s file_state, nat) cmd" where
  "request_commit cr cfg s3 env now accessToken fileId =
     cmd_bind (attempt (commit_request cr cfg s3 env now (authorization (Str accessToken)) (Obj [(''fileId'', fileId)]))) (\<lambda>response.
     cmd_return (response_status 200 response))"

text \<open>
  The child prints the status on success and nothing to \<open>stdout\<close> when \<open>fetch\<close> fails; its
  exit code is not read.
\<close>

definition child_status :: "string \<Rightarrow> string \<Rightarrow> err + int" where
  "child_status stdout stderr = (case number_of_string (js_trim stdout) of
       IntN n \<Rightarrow> Inr n
     | _ \<Rightarrow> Inl (JsError (''Credentialless PUT failed: '' @ stderr)))"

definition child_result :: "put_outcome \<Rightarrow> err + int" where
  "child_result outcome = (case outcome of
       SpawnFailed m \<Rightarrow> Inl (JsError m)
     | FetchFailed m \<Rightarrow> child_status [] (m @ [CHR 0x0A])
     | HttpStatus n \<Rightarrow> child_status (show_nat n @ [CHR 0x0A]) [])"

type_synonym 's http_put = "string \<Rightarrow> byte list \<Rightarrow> string \<Rightarrow> int \<Rightarrow> 's \<Rightarrow> put_outcome \<times> 's"

definition child_put :: "'s http_put \<Rightarrow> string \<Rightarrow> byte list \<Rightarrow> string \<Rightarrow> int \<Rightarrow> ('s file_state, int) cmd" where
  "child_put put url body contentType elapsed = on_snd (\<lambda>s. case put url body contentType elapsed (st_service s) of
     (outcome, t) \<Rightarrow> (child_result outcome, s\<lparr>st_service := t\<rparr>))"

text \<open>\<open>new URL(s).pathname\<close>, or \<open>None\<close> where \<open>s\<close> is no URL, and a URL with another path.\<close>

record url_functions =
  uf_pathname :: "string \<Rightarrow> string option"
  uf_with_pathname :: "string \<Rightarrow> string \<Rightarrow> string"

definition tamperUrl :: "url_functions \<Rightarrow> string \<Rightarrow> err + string" where
  "tamperUrl uf signedUrl = (case uf_pathname uf signedUrl of
       None \<Rightarrow> Inl (JsError ''Invalid URL'')
     | Some pathname \<Rightarrow>
         let parts = js_split CHR ''/'' pathname
         in if last parts = [] then Inl (JsError ''Unable to tamper presigned URL'')
            else Inr (uf_with_pathname uf signedUrl (js_join ''/'' (butlast parts @ [last parts @ ''-tampered'']))))"

text \<open>\<open>/^uploads\/1\/[0-9a-f-]+\.png$/i\<close>\<close>

definition ascii_lower :: "char \<Rightarrow> char" where
  "ascii_lower c = (let n = of_char c :: nat in if 65 \<le> n \<and> n \<le> 90 then char_of (n + 32) else c)"

definition key_pattern :: "string \<Rightarrow> bool" where
  "key_pattern key \<longleftrightarrow> (let k = map ascii_lower key; middle = take (length k - 14) (drop 10 k)
     in 14 < length k \<and> take 10 k = ''uploads/1/'' \<and> drop (length k - 4) k = ''.png'' \<and>
        (\<forall>c \<in> set middle. c \<in> set ''0123456789abcdef-''))"

definition keyFromServer :: "jsval \<Rightarrow> nat" where
  "keyFromServer v = (let key = js_text v in
     if key_pattern key \<and> \<not> sublist ''..'' key \<and> \<not> sublist ''etc'' key \<and> \<not> sublist ''passwd'' key then 1 else 0)"

record upload_report =
  ud_intent :: nat
  ud_keyFromServer :: nat
  ud_apiAlive :: nat
  ud_putOffline :: int
  ud_commit :: nat
  ud_commitWithoutBytes :: nat
  ud_tampered :: int
  ud_expired :: int
  ud_passed :: bool

definition upload_verdict :: "nat \<Rightarrow> nat \<Rightarrow> bool \<Rightarrow> int \<Rightarrow> nat \<Rightarrow> nat \<Rightarrow> int \<Rightarrow> int \<Rightarrow> upload_report" where
  "upload_verdict intent key alive putOffline committed without tampered expired =
     (let apiAlive = (if alive then 1 else 0)
      in \<lparr>ud_intent = intent, ud_keyFromServer = key, ud_apiAlive = apiAlive, ud_putOffline = putOffline, ud_commit = committed,
          ud_commitWithoutBytes = without, ud_tampered = tampered, ud_expired = expired,
          ud_passed = (intent = 200 \<and> key = 1 \<and> apiAlive = (0 :: nat) \<and> putOffline = 200 \<and> committed = 200 \<and>
            400 \<le> without \<and> without < 500 \<and> tampered = 403 \<and> expired = 403)\<rparr>)"

definition demo_bytes :: "byte list" where
  "demo_bytes = map of_char ''hw26-presigned-upload-demo''"

definition with_ttl :: "environment \<Rightarrow> string \<Rightarrow> environment" where
  "with_ttl env ttl = env(''UPLOAD_PRESIGNED_TTL_SECONDS'' \<mapsto> ttl)"

definition free_port :: "nat \<Rightarrow> bool \<Rightarrow> ('s, unit) cmd" where
  "free_port port open = (if open then cmd_throw (JsError (''Port '' @ show_nat port @ '' is already in use'')) else cmd_return ())"

definition server_listens :: "bool \<Rightarrow> ('s, unit) cmd" where
  "server_listens ok = (if ok then cmd_return () else cmd_throw (JsError ''EADDRINUSE''))"

text \<open>What surrounds the requests: their times and random values, and the network.\<close>

record upload_world =
  uw_now :: "nat \<Rightarrow> int"
  uw_elapsed :: "nat \<Rightarrow> int"
  uw_fam :: string
  uw_tok :: string
  uw_jti :: string
  uw_fileId :: "nat \<Rightarrow> string"
  uw_keyId :: "nat \<Rightarrow> string"
  uw_probe :: "nat \<Rightarrow> bool"
  uw_listens :: "nat \<Rightarrow> bool"

text \<open>The first server announces the file, and the bytes arrive while it is stopped.\<close>

definition offline_upload ::
  "'k crypto \<Rightarrow> 'k auth_config \<Rightarrow> 's s3 \<Rightarrow> environment \<Rightarrow> 's http_put \<Rightarrow> upload_world \<Rightarrow>
     ('s file_state, string \<times> (err + upload_intent) \<times> int) cmd" where
  "offline_upload cr cfg s3 env put w =
     cmd_bind (free_port 32126 (uw_probe w 0)) (\<lambda>_.
     cmd_bind (free_port 32127 (uw_probe w 1)) (\<lambda>_.
     cmd_bind (server_listens (uw_listens w 0)) (\<lambda>_.
     cmd_bind (on_fst (login_request cr cfg (uw_now w 0) (uw_fam w) (uw_tok w) (uw_jti w))) (\<lambda>auth.
     cmd_bind (request_intent cr cfg s3 env (uw_now w 1) (uw_fileId w 0) (uw_keyId w 0) (ar_accessToken auth)
       (intent_input ''../../etc/passwd'' (length demo_bytes))) (\<lambda>intentResult.
     cmd_bind (child_put put (js_text (body_field ui_uploadUrl intentResult)) demo_bytes ''image/png'' (uw_elapsed w 0)) (\<lambda>putOffline.
     cmd_return (ar_accessToken auth, intentResult, putOffline)))))))"

text \<open>The second server commits it, and refuses what was not uploaded.\<close>

definition online_checks ::
  "'k crypto \<Rightarrow> 'k auth_config \<Rightarrow> 's s3 \<Rightarrow> environment \<Rightarrow> url_functions \<Rightarrow> 's http_put \<Rightarrow> upload_world \<Rightarrow>
     string \<times> (err + upload_intent) \<times> int \<Rightarrow> ('s file_state, upload_report) cmd" where
  "online_checks cr cfg s3 env uf put w first = (case first of (accessToken, intentResult, putOffline) \<Rightarrow>
     cmd_bind (server_listens (uw_listens w 1)) (\<lambda>_.
     cmd_bind (request_commit cr cfg s3 (with_ttl env ''300'') (uw_now w 2) accessToken (body_field ui_fileId intentResult)) (\<lambda>commitStatus.
     cmd_bind (request_intent cr cfg s3 (with_ttl env ''300'') (uw_now w 3) (uw_fileId w 1) (uw_keyId w 1) accessToken
       (intent_input ''never-uploaded.png'' (length demo_bytes))) (\<lambda>noBytesIntent.
     cmd_bind (request_commit cr cfg s3 (with_ttl env ''300'') (uw_now w 4) accessToken (body_field ui_fileId noBytesIntent)) (\<lambda>commitWithoutBytes.
     cmd_bind (cmd_lift (tamperUrl uf (js_text (body_field ui_uploadUrl noBytesIntent)))) (\<lambda>tamperedUrl.
     cmd_bind (child_put put tamperedUrl demo_bytes ''image/png'' (uw_elapsed w 1)) (\<lambda>tampered.
     cmd_bind (request_intent cr cfg s3 (with_ttl env ''1'') (uw_now w 5) (uw_fileId w 2) (uw_keyId w 2) accessToken
       (intent_input ''expired.png'' (length demo_bytes))) (\<lambda>expiredIntent.
     cmd_bind (child_put put (js_text (body_field ui_uploadUrl expiredIntent)) demo_bytes ''image/png'' (uw_elapsed w 2)) (\<lambda>expired.
     cmd_return (upload_verdict (response_status 200 intentResult) (keyFromServer (body_field ui_key intentResult)) (uw_probe w 2)
       putOffline commitStatus commitWithoutBytes tampered expired))))))))))"

definition upload_demo ::
  "'k crypto \<Rightarrow> 'k auth_config \<Rightarrow> 's s3 \<Rightarrow> environment \<Rightarrow> url_functions \<Rightarrow> 's http_put \<Rightarrow> upload_world \<Rightarrow>
     ('s file_state, upload_report) cmd" where
  "upload_demo cr cfg s3 env uf put w =
     cmd_bind (cleanDemoState s3 env) (\<lambda>_ st.
     case cmd_bind (offline_upload cr cfg s3 (with_ttl env ''300'') put w) (online_checks cr cfg s3 env uf put w) st of
       (r, st') \<Rightarrow> cmd_bind (cleanDemoState s3 env) (\<lambda>_. cmd_lift r) st')"

section \<open>The script's own functions\<close>

text \<open>A failed request gives the status 0, for \<open>Number('')\<close> is 0: the error for output that is no
  number is never raised.\<close>

lemma failed_put_is_zero: "child_result (FetchFailed m) = Inr 0"
  by (simp add: child_result_def child_status_def js_trim_def number_of_string_def Let_def)

lemma trim_newline:
  assumes "s \<noteq> []" and "\<not> js_space (hd s)"
  shows "js_trim (s @ [CHR 0x0A]) = js_trim s"
proof -
  have "js_space CHR 0x0A" by (simp add: js_space_def)
  moreover have "dropWhile js_space s = s" "dropWhile js_space (s @ [CHR 0x0A]) = s @ [CHR 0x0A]"
    using assms by (cases s; simp)+
  ultimately show ?thesis by (simp add: js_trim_def)
qed

lemma put_status_read: "child_result (HttpStatus n) = Inr (int n)"
proof -
  have "\<not> js_space (hd (show_nat n))"
    using show_nat_digits [of n] is_digit_not_space hd_in_set [of "show_nat n"] by auto
  then have trim: "js_trim (show_nat n @ [CHR 0x0A]) = js_trim (show_nat n)" by (intro trim_newline) simp_all
  have shown: "show_nat n = show_int (int n)" by (simp add: show_int_def)
  show ?thesis by (simp add: child_result_def child_status_def trim) (simp add: shown number_of_show_int)
qed

lemma js_split_longer: "js_join [d] (butlast (js_split d p) @ [last (js_split d p) @ x]) = p @ x"
proof (induction p)
  case (Cons c p)
  obtain q qs where "js_split d p = q # qs" by (cases "js_split d p") auto
  with Cons show ?case by (auto simp: js_join_head)
qed simp

lemma tamper_path:
  assumes "uf_pathname uf url = Some (pre @ CHR ''/'' # q)" and "q \<noteq> []" and "CHR ''/'' \<notin> set q"
  shows "tamperUrl uf url = Inr (uf_with_pathname uf url ((pre @ CHR ''/'' # q) @ ''-tampered''))"
proof -
  have "last (js_split CHR ''/'' (pre @ CHR ''/'' # q)) = q" using assms(3) by (simp add: js_split_two js_split_plain)
  with js_split_longer [of "CHR ''/''" "pre @ CHR ''/'' # q" "''-tampered''"] show ?thesis
    using assms(1,2) by (simp add: tamperUrl_def Let_def)
qed

definition demo_key :: "string \<Rightarrow> string" where
  "demo_key keyId = object_key (IntN DEMO_USER_ID) keyId ''png''"

text \<open>How \<open>randomUUID\<close> writes an identifier.\<close>

definition random_uuid :: "string \<Rightarrow> bool" where
  "random_uuid k \<longleftrightarrow> length k = 36 \<and> (\<forall>c \<in> set k. c \<in> set ''0123456789abcdef-'')"

lemma demo_key_text: "demo_key k = ''uploads/1/'' @ k @ ''.png''"
proof -
  have "show_int 1 = ''1''" by code_simp
  then show ?thesis by (simp add: demo_key_def object_key_def num_text_def DEMO_USER_ID_def)
qed

lemma demo_key_inject: "demo_key j = demo_key k \<longleftrightarrow> j = k"
  by (simp add: demo_key_text)

lemma demo_key_checked:
  assumes "random_uuid k"
  shows "keyFromServer (Str (demo_key k)) = 1"
proof -
  have chars: "c \<in> set ''0123456789abcdef-''" if "c \<in> set k" for c using assms that by (simp add: random_uuid_def)
  have "\<forall>c \<in> set ''0123456789abcdef-''. ascii_lower c = c \<and> c \<noteq> CHR ''.'' \<and> c \<noteq> CHR ''t'' \<and> c \<noteq> CHR ''w''" by code_simp
  with chars have plain: "ascii_lower c = c \<and> c \<noteq> CHR ''.'' \<and> c \<noteq> CHR ''t'' \<and> c \<noteq> CHR ''w''" if "c \<in> set k" for c
    using that by blast
  have "map ascii_lower ''uploads/1/'' = ''uploads/1/''" "map ascii_lower ''.png'' = ''.png''" by code_simp+
  moreover have "map ascii_lower k = k" using plain by (simp add: map_idI)
  ultimately have lower: "map ascii_lower (demo_key k) = demo_key k" by (simp only: demo_key_text map_append)
  have "length k = 36" using assms by (simp add: random_uuid_def)
  then have pattern: "key_pattern (demo_key k)"
    using chars unfolding key_pattern_def Let_def lower by (simp add: demo_key_text)
  have dots: "\<not> sublist ''..'' (demo_key k)"
  proof
    assume "sublist ''..'' (demo_key k)"
    then obtain a b where "demo_key k = a @ ''..'' @ b" by (auto simp: sublist_def)
    then have "2 \<le> count_list (demo_key k) CHR ''.''" by (simp add: count_list_append)
    moreover have "count_list k CHR ''.'' = 0" using plain by (metis count_notin)
    ultimately show False by (simp add: demo_key_text count_list_append)
  qed
  have "CHR ''t'' \<notin> set (demo_key k)" "CHR ''w'' \<notin> set (demo_key k)" using plain by (auto simp: demo_key_text)
  then have "\<not> sublist ''etc'' (demo_key k)" "\<not> sublist ''passwd'' (demo_key k)"
    using set_mono_sublist by fastforce+
  with pattern dots show ?thesis by (simp add: keyFromServer_def Let_def)
qed

section \<open>Its steps\<close>

text \<open>A command that fails on what is seen as \<open>v\<close>, and changes nothing of it.\<close>

definition fails_at :: "('s \<Rightarrow> 'v) \<Rightarrow> ('s, 'a) cmd \<Rightarrow> 'v \<Rightarrow> err \<Rightarrow> bool" where
  "fails_at p m v e \<longleftrightarrow> (\<forall>s. p s = v \<longrightarrow> (\<exists>s'. m s = (Inl e, s') \<and> p s' = v))"

lemma fails_throw: "fails_at p (cmd_throw e) v e"
  by (simp add: fails_at_def cmd_simps)

lemma fails_after:
  assumes "yields p m v (\<lambda>a w. w = v \<and> P a)" and "\<And>a. P a \<Longrightarrow> fails_at p (f a) v e"
  shows "fails_at p (cmd_bind m f) v e"
  unfolding fails_at_def
proof (intro allI impI)
  fix s assume v: "p s = v"
  obtain a s' where a: "m s = (Inr a, s')" "p s' = v" "P a"
    by (rule yields_result [OF assms(1) [folded v]]) (auto simp: v)
  from assms(2) [OF a(3), unfolded fails_at_def, rule_format, OF a(2)] a(1)
  show "\<exists>s'. cmd_bind m f s = (Inl e, s') \<and> p s' = v" by (auto simp: cmd_bind_run)
qed

lemma fails_bind: "fails_at p m v e \<Longrightarrow> fails_at p (cmd_bind m f) v e"
  unfolding fails_at_def
proof (intro allI impI)
  fix s assume "\<forall>s. p s = v \<longrightarrow> (\<exists>s'. m s = (Inl e, s') \<and> p s' = v)" and "p s = v"
  then obtain s' where "m s = (Inl e, s')" "p s' = v" by blast
  then show "\<exists>s'. cmd_bind m f s = (Inl e, s') \<and> p s' = v" by (simp add: cmd_bind_run)
qed

lemma fails_storage: "fails_at (seen view) m v e \<Longrightarrow> fails_at (beside view) (on_snd m) (x, v) e"
  by (auto simp: fails_at_def on_snd_def)

lemma yields_attempt:
  assumes "yields p m v (\<lambda>a. Q (Inr a))"
  shows "yields p (attempt m) v Q"
  unfolding yields_def
proof (intro allI impI)
  fix s assume v: "p s = v"
  obtain a s' where "m s = (Inr a, s')" "Q (Inr a) (p s')" by (rule yields_result [OF assms [folded v]])
  then show "case attempt m s of (Inl _, _) \<Rightarrow> False | (Inr a, s') \<Rightarrow> Q a (p s')" by (simp add: attempt_def)
qed

lemma attempt_fails:
  assumes "fails_at p m v e" and "Q (Inl e) v"
  shows "yields p (attempt m) v Q"
  unfolding yields_def
proof (intro allI impI)
  fix s assume "p s = v"
  with assms(1) obtain s' where "m s = (Inl e, s')" "p s' = v" unfolding fails_at_def by blast
  with assms(2) show "case attempt m s of (Inl _, _) \<Rightarrow> False | (Inr a, s') \<Rightarrow> Q a (p s')" by (simp add: attempt_def)
qed

text \<open>The cleaning deletes the objects and rows of the account.\<close>

lemma yields_discard:
  assumes "object_laws s3 b code view"
  shows "yields (seen view) (discard_object s3 b k u) v (\<lambda>_ w. w = v\<lparr>bv_objects := (bv_objects v)(k := None)\<rparr>)"
  unfolding discard_object_def
  by (rule yields_try, rule yields_bind [OF yields_send [OF law_delete [OF assms]]]) (auto intro: yields_return)

definition without_keys :: "string set \<Rightarrow> bucket_view \<Rightarrow> bucket_view" where
  "without_keys K v = v\<lparr>bv_objects := bv_objects v |` (- K)\<rparr>"

lemma without_keys_objects: "bv_objects (without_keys K v) = bv_objects v |` (- K)"
  by (simp add: without_keys_def)

lemma yields_discard_all:
  assumes "object_laws s3 b code view"
  shows "yields (seen view) (cmd_fold (discard_object s3 b) ks ()) v (\<lambda>_ w. w = without_keys (set ks) v)"
proof (induction ks arbitrary: v)
  case Nil
  have "without_keys (set []) v = v" by (simp add: without_keys_def restrict_map_def)
  then show ?case by (simp add: yields_return)
next
  case (Cons k ks)
  have "without_keys (set ks) (v\<lparr>bv_objects := (bv_objects v)(k := None)\<rparr>) = without_keys (set (k # ks)) v"
    by (auto simp: without_keys_def fun_eq_iff restrict_map_def)
  with Cons [of "v\<lparr>bv_objects := (bv_objects v)(k := None)\<rparr>"] show ?case
    by (auto intro: yields_bind [OF yields_discard [OF assms]])
qed

definition tidied :: "db \<Rightarrow> db" where
  "tidied d = cleanAuthState (forget_files d)"

lemma yields_clean_demo:
  assumes "getStorageConfig env = Inr config" and "object_laws s3 (sc_bucket config) code view"
  shows "yields (beside view) (cleanDemoState s3 env) (d, v) (\<lambda>_ w. w = (tidied d, without_keys (set (own_keys d)) v))"
proof -
  have all: "yields (seen view) (with_bucket env (\<lambda>bucket. cmd_fold (discard_object s3 bucket) (own_keys d) ())) v
      (\<lambda>_ w. w = without_keys (set (own_keys d)) v)"
    by (rule yields_bucket [OF assms(1)], rule yields_discard_all [OF assms(2)])
  show ?thesis
  unfolding cleanDemoState_def
  apply (rule yields_bind [OF yields_db], simp add: cmd_simps, elim conjE, hypsubst)
  apply (rule yields_bind [OF yields_storage [OF all]], elim exE conjE, hypsubst)
  apply (rule yields_bind [OF yields_db], simp add: cmd_simps, elim conjE, hypsubst)
  apply (rule yields_weaken [OF yields_db], simp add: cmd_simps, simp add: tidied_def)
  done
qed

text \<open>The guard admits the token of the login as long as nothing is denied.\<close>

lemma session_guard:
  assumes "jwt_library cr cfg" and "config_ok cfg" and "pg_uuid j = Some j" and "t' div 1000 < t div 1000 + 600" and "denylist d = []"
  shows "canActivate cr cfg t' (authorization (Str (signAccessToken cr cfg t j u role fam))) d = (Inr (issued_claims t j u role fam), d)"
  unfolding authorization_def jsval.case guard_issued [OF assms(1-3)]
  using assms(4,5) by (simp add: denied_def)

lemma issued_subject: "to_number (opt_prop (issued_claims t j u role fam) ''sub'') = IntN u"
  by (simp add: number_of_show_int)

lemma yields_guarded:
  assumes "canActivate cr cfg t header d = (Inr claims, d)" and "yields (beside view) (f claims) (d, v) Q"
  shows "yields (beside view) (cmd_bind (on_fst (canActivate cr cfg t header)) f) (d, v) Q"
  by (rule yields_bind, rule yields_db, rule assms(1)) (use assms(2) in auto)

lemma fails_guarded:
  assumes "canActivate cr cfg t header d = (Inr claims, d)" and "fails_at (beside view) (f claims) (d, v) e"
  shows "fails_at (beside view) (cmd_bind (on_fst (canActivate cr cfg t header)) f) (d, v) e"
  by (rule fails_after [where P = "\<lambda>a. a = claims"], rule yields_weaken, rule yields_db, rule assms(1)) (use assms(2) in auto)

text \<open>The bucket is ready and known.\<close>

lemma yields_ready:
  assumes "getStorageConfig env = Inr config" and "bucket_laws s3 (sc_bucket config) view"
  shows "yields (beside view) (on_snd (ensureStorageBucket s3 env)) (d, v) (\<lambda>_ w. w = (d, v))"
  by (rule yields_weaken [OF yields_storage [OF yields_ensure [OF assms]]]) auto

lemma yields_bucket_name:
  assumes "getStorageConfig env = Inr config"
  shows "yields (beside view) (on_snd (with_bucket env cmd_return)) (d, v) (\<lambda>a w. w = (d, v) \<and> a = sc_bucket config)"
  by (rule yields_weaken [OF yields_storage [OF yields_bucket [OF assms, where Q = "\<lambda>a w. a = sc_bucket config \<and> w = v"]]])
    (auto intro: yields_return)

text \<open>An announced file.\<close>

definition pending_file :: "string \<Rightarrow> string \<Rightarrow> nat \<Rightarrow> file_row" where
  "pending_file fileId keyId n = \<lparr>f_id = fileId, f_owner_id = DEMO_USER_ID, f_object_key = demo_key keyId,
     f_content_type = ''image/png'', f_status = FilePending, f_expected_size = Some (int n), f_actual_size = None, f_upload_id = None\<rparr>"

definition announced :: "string \<Rightarrow> string \<Rightarrow> nat \<Rightarrow> db \<Rightarrow> db" where
  "announced fileId keyId n d = files_update (\<lambda>rs. rs @ [pending_file fileId keyId n]) d"

definition fresh_file :: "string \<Rightarrow> string \<Rightarrow> db \<Rightarrow> bool" where
  "fresh_file fileId keyId d \<longleftrightarrow> pg_uuid fileId = Some fileId \<and> random_uuid keyId \<and>
     fileId \<notin> f_id ` set (files d) \<and> demo_key keyId \<notin> f_object_key ` set (files d) \<and> DEMO_USER_ID \<in> u_id ` set (users d)"

lemma insert_announced:
  assumes "fresh_file fileId keyId d" and "int8 (int n)"
  shows "insert_file fileId (IntN DEMO_USER_ID) (demo_key keyId) (Some ''image/png'') (Some (int n)) d =
    (Inr (pending_file fileId keyId n), announced fileId keyId n d)"
proof -
  have "length (demo_key keyId) = 50" using assms(1) by (simp add: demo_key_text fresh_file_def random_uuid_def)
  with assms show ?thesis
    by (simp add: insert_file_def cmd_bind_run cmd_simps uuid_param_def param_int_IntN demo_user_id varchar_def
        files_constraints_def fresh_file_def pending_file_def announced_def)
qed

lemma yields_intent:
  assumes "canActivate cr cfg t header d = (Inr claims, d)" and "to_number (opt_prop claims ''sub'') = IntN DEMO_USER_ID"
    and "header = authorization (Str token)"
    and "getStorageConfig env = Inr config" and "bucket_laws s3 (sc_bucket config) view"
    and "cr_bind cr (Str ''image/png'') = Some ''image/png''" and "fresh_file fileId keyId d" and "int8 (int n)"
    and "getPresignedUploadTtlSeconds env = Inr ttl"
    and "s3_presign s3 (PutObject (sc_bucket config) (demo_key keyId) ''image/png'') ttl = Inr url"
  shows "yields (beside view) (request_intent cr cfg s3 env t fileId keyId token (intent_input name n)) (d, v)
    (\<lambda>r w. r = Inr \<lparr>ui_fileId = fileId, ui_key = demo_key keyId, ui_uploadUrl = url, ui_expiresIn = ttl\<rparr> \<and>
       w = (announced fileId keyId n d, v))"
proof -
  have png: "isAllowedContentType (Str ''image/png'')" "extensionForContentType (Str ''image/png'') = ''png''"
    by (simp_all add: isAllowedContentType_def extensionForContentType_def FILE_TYPES_def)
  have input: "get_prop (intent_input name n) ''contentType'' = Inr (Str ''image/png'')"
    "opt_prop (intent_input name n) ''size'' = Num (IntN (int n))" "\<not> size_refused (Num (IntN (int n)))"
    by (simp_all add: intent_input_def size_refused_def)
  have intent: "yields (beside view) (createUploadIntent (cr_bind cr) s3 env fileId keyId (IntN DEMO_USER_ID) (intent_input name n)) (d, v)
    (\<lambda>r w. r = \<lparr>ui_fileId = fileId, ui_key = demo_key keyId, ui_uploadUrl = url, ui_expiresIn = ttl\<rparr> \<and> w = (announced fileId keyId n d, v))"
    unfolding createUploadIntent_def input
    apply (rule yields_bind [OF yields_ready [OF assms(4,5)]], hypsubst)
    apply (rule yields_bind [OF yields_value [OF refl]], elim conjE, hypsubst)
    apply (simp only: png input(3) not_True_eq_False not_False_eq_True if_False Let_def assms(6) integer_of.simps flip: demo_key_def)
    apply (rule yields_bind [OF yields_db], rule insert_announced [OF assms(7,8)], elim conjE, hypsubst)
    apply (rule yields_bind [OF yields_bucket_name [OF assms(4)]], elim conjE, hypsubst)
    apply (rule yields_bind [OF yields_value [OF assms(9)]], elim conjE, hypsubst)
    apply (rule yields_bind [OF yields_value], simp add: assms(10), elim conjE, hypsubst)
    apply (rule yields_return, simp)
    done
  show ?thesis
    unfolding request_intent_def intent_request_def
    by (rule yields_attempt, rule yields_guarded [OF assms(1) [unfolded assms(3)]])
      (simp add: createIntent_def assms(2) yields_weaken [OF intent])
qed

text \<open>A commit reads the size the storage reports.\<close>

lemma yields_length:
  assumes "object_laws s3 b code view" and "bv_objects v k = Some x"
  shows "yields (seen view) (content_length s3 b k) v (\<lambda>n w. n = int (length (so_body x)) \<and> w = v)"
  unfolding content_length_def
  by (rule yields_bind, rule yields_try, rule yields_send, rule law_head [OF assms(1) _ assms(2)])
    (auto intro: yields_return)

lemma fails_length:
  assumes "object_laws s3 b code view" and "bv_objects v k = None"
  shows "fails_at (seen view) (content_length s3 b k) v (Conflict ''Object has not been uploaded'')"
  unfolding content_length_def
proof (rule fails_bind, unfold fails_at_def, intro allI impI)
  fix s :: "'a storage" assume v: "view (st_service s) = v"
  from law_head_missing [OF assms(1) v assms(2)] obtain e t where "s3_send s3 (HeadObject b k) (st_service s) = (Inl e, t)" "view t = v"
    using v by (auto simp: refuses_def split: prod.splits sum.splits)
  then show "\<exists>s'. cmd_try (send s3 (HeadObject b k)) (\<lambda>_. cmd_throw (Conflict ''Object has not been uploaded'')) s =
      (Inl (Conflict ''Object has not been uploaded''), s') \<and> view (st_service s') = v"
    by (simp add: cmd_try_def send_def cmd_simps)
qed

definition committed :: "string \<Rightarrow> nat \<Rightarrow> db \<Rightarrow> db" where
  "committed fileId n d = files_update (update_where (\<lambda>r. f_id r = fileId) (complete_row (int n))) d"

lemma find_announced:
  assumes "pg_uuid fileId = Some fileId" and "first_where (\<lambda>r. f_id r = fileId) (files d) = Some f"
  shows "find_file (Str fileId) d = (Inr (Some f), d)"
  using assms by (simp add: find_file_run uuid_param_def)

lemma pending_fields:
  "f_id (pending_file fileId keyId n) = fileId" "f_owner_id (pending_file fileId keyId n) = DEMO_USER_ID"
  "f_object_key (pending_file fileId keyId n) = demo_key keyId" "f_status (pending_file fileId keyId n) = FilePending"
  "f_expected_size (pending_file fileId keyId n) = Some (int n)"
  by (simp_all add: pending_file_def)

lemma yields_commit:
  assumes "canActivate cr cfg t (authorization (Str token)) d = (Inr claims, d)" and "to_number (opt_prop claims ''sub'') = IntN DEMO_USER_ID"
    and "getStorageConfig env = Inr config" and "bucket_laws s3 (sc_bucket config) view" and "object_laws s3 (sc_bucket config) code view"
    and "pg_uuid fileId = Some fileId" and "first_where (\<lambda>r. f_id r = fileId) (files d) = Some (pending_file fileId keyId n)"
    and "bv_objects v (demo_key keyId) = Some x" and "length (so_body x) = n" and "int8 (int n)"
  shows "yields (beside view) (request_commit cr cfg s3 env t token (Str fileId)) (d, v)
    (\<lambda>r w. r = 200 \<and> w = (committed fileId n d, v))"
proof -
  have size: "complete_file fileId (int n) d = (Inr (), committed fileId n d)"
    using assms(10) by (simp add: complete_file_run committed_def)
  have "yields (beside view) (commitUpload s3 env (IntN DEMO_USER_ID) (Str fileId)) (d, v)
    (\<lambda>r w. r = \<lparr>cm_fileId = fileId, cm_key = demo_key keyId, cm_size = int n\<rparr> \<and> w = (committed fileId n d, v))"
    unfolding commitUpload_def
    apply (rule yields_bind [OF yields_ready [OF assms(3,4)]], hypsubst)
    apply (rule yields_bind, rule yields_db, rule find_announced [OF assms(6,7)], elim conjE, hypsubst)
    apply (simp only: option.case pending_fields simp_thms if_False file_status.distinct)
    apply (rule yields_bind [OF yields_bucket_name [OF assms(3)]], elim conjE, hypsubst)
    apply (rule yields_bind, rule yields_storage, rule yields_length [OF assms(5,8)], elim exE conjE, hypsubst)
    apply (simp only: assms(9) option.distinct not_True_eq_False simp_thms if_False)
    apply (rule yields_bind, rule yields_db, rule size, elim conjE, hypsubst)
    apply (rule yields_return, simp)
    done
  then have "yields (beside view) (commit_request cr cfg s3 env t (authorization (Str token)) (Obj [(''fileId'', Str fileId)])) (d, v)
    (\<lambda>r w. r = \<lparr>cm_fileId = fileId, cm_key = demo_key keyId, cm_size = int n\<rparr> \<and> w = (committed fileId n d, v))"
    unfolding commit_request_def
    by (intro yields_guarded [OF assms(1)]) (simp add: Files.commit_def assms(2) cmd_bind_lift_Inr)
  then show ?thesis
    unfolding request_commit_def
    by (intro yields_bind [OF yields_attempt [where Q = "\<lambda>r w. (\<exists>a. r = Inr a) \<and> w = (committed fileId n d, v)"]])
      (auto intro: yields_return yields_weaken)
qed

lemma yields_commit_missing:
  assumes "canActivate cr cfg t (authorization (Str token)) d = (Inr claims, d)" and "to_number (opt_prop claims ''sub'') = IntN DEMO_USER_ID"
    and "getStorageConfig env = Inr config" and "bucket_laws s3 (sc_bucket config) view" and "object_laws s3 (sc_bucket config) code view"
    and "pg_uuid fileId = Some fileId" and "first_where (\<lambda>r. f_id r = fileId) (files d) = Some (pending_file fileId keyId n)"
    and "bv_objects v (demo_key keyId) = None"
  shows "yields (beside view) (request_commit cr cfg s3 env t token (Str fileId)) (d, v) (\<lambda>r w. r = 409 \<and> w = (d, v))"
proof -
  have "fails_at (beside view) (commitUpload s3 env (IntN DEMO_USER_ID) (Str fileId)) (d, v) (Conflict ''Object has not been uploaded'')"
    unfolding commitUpload_def
    apply (rule fails_after [where P = "\<lambda>_. True"], rule yields_weaken [OF yields_ready [OF assms(3,4)]], simp)
    apply (rule fails_after [where P = "\<lambda>a. a = Some (pending_file fileId keyId n)"], rule yields_weaken, rule yields_db,
        rule find_announced [OF assms(6,7)], simp, hypsubst)
    apply (simp only: option.case pending_fields simp_thms if_False file_status.distinct)
    apply (rule fails_after [OF yields_bucket_name [OF assms(3)]], hypsubst)
    apply (rule fails_bind, rule fails_storage, rule fails_length [OF assms(5,8)])
    done
  then have "fails_at (beside view) (commit_request cr cfg s3 env t (authorization (Str token)) (Obj [(''fileId'', Str fileId)])) (d, v)
      (Conflict ''Object has not been uploaded'')"
    unfolding commit_request_def
    by (intro fails_guarded [OF assms(1)]) (simp add: Files.commit_def assms(2) cmd_bind_lift_Inr)
  then show ?thesis
    unfolding request_commit_def
    by (intro yields_bind [OF attempt_fails [where Q = "\<lambda>r w. r = Inl (Conflict ''Object has not been uploaded'') \<and> w = (d, v)"]])
      (auto intro: yields_return)
qed

section \<open>Signed addresses\<close>

text \<open>
  A signed \<open>PUT\<close> stores the body until its time is over (give or take the second to which the
  service keeps its dates), and is refused afterwards; the path is signed, too.
\<close>

definition signed_put_laws ::
  "'s s3 \<Rightarrow> string \<Rightarrow> url_functions \<Rightarrow> 's http_put \<Rightarrow> ('s \<Rightarrow> bucket_view) \<Rightarrow> bool" where
  "signed_put_laws s3 b uf put view \<longleftrightarrow> (\<forall>k ct ttl. k \<noteq> [] \<and> last k \<noteq> CHR ''/'' \<and> 0 < ttl \<and> ttl \<le> 604800 \<longrightarrow>
     (\<exists>url pre q. s3_presign s3 (PutObject b k ct) ttl = Inr url \<and>
        uf_pathname uf url = Some (pre @ CHR ''/'' # q) \<and> q \<noteq> [] \<and> CHR ''/'' \<notin> set q \<and>
        (\<forall>s body elapsed.
           (0 \<le> elapsed \<and> elapsed \<le> (ttl - 1) * 1000 \<longrightarrow> (\<exists>s' x. put url body ct elapsed s = (HttpStatus 200, s') \<and>
              so_body x = body \<and> view s' = view s\<lparr>bv_objects := (bv_objects (view s))(k \<mapsto> x)\<rparr>)) \<and>
           ((ttl + 1) * 1000 \<le> elapsed \<longrightarrow> (\<exists>s'. put url body ct elapsed s = (HttpStatus 403, s') \<and> view s' = view s)) \<and>
           (\<exists>s'. put (uf_with_pathname uf url ((pre @ CHR ''/'' # q) @ ''-tampered'')) body ct elapsed s = (HttpStatus 403, s') \<and>
              view s' = view s))))"

lemma yields_put:
  assumes "\<And>s. view s = v \<Longrightarrow> \<exists>s'. put url body ct elapsed s = (HttpStatus n, s') \<and> Q (view s')"
  shows "yields (beside view) (child_put put url body ct elapsed) (d, v) (\<lambda>a w. \<exists>u. a = int n \<and> w = (d, u) \<and> Q u)"
  unfolding yields_def
proof (intro allI impI)
  fix st assume "beside view st = (d, v)"
  then obtain s where s: "st = (d, s)" "view (st_service s) = v" by (cases st) auto
  from assms [OF s(2)] obtain t where "put url body ct elapsed (st_service s) = (HttpStatus n, t)" "Q (view t)" by blast
  then show "case child_put put url body ct elapsed st of (Inl _, _) \<Rightarrow> False
      | (Inr a, s') \<Rightarrow> \<exists>u. a = int n \<and> beside view s' = (d, u) \<and> Q u"
    by (simp add: child_put_def s on_snd_run put_status_read)
qed

definition signed_put ::
  "'s s3 \<Rightarrow> string \<Rightarrow> 's http_put \<Rightarrow> url_functions \<Rightarrow> ('s \<Rightarrow> bucket_view) \<Rightarrow> string \<Rightarrow> int \<Rightarrow> string \<Rightarrow> bool" where
  "signed_put s3 b put uf view k ttl url \<longleftrightarrow> s3_presign s3 (PutObject b k ''image/png'') ttl = Inr url \<and>
     (\<forall>d v body elapsed. 0 \<le> elapsed \<and> elapsed \<le> (ttl - 1) * 1000 \<longrightarrow>
        yields (beside view) (child_put put url body ''image/png'' elapsed) (d, v)
          (\<lambda>a w. a = 200 \<and> (\<exists>x. so_body x = body \<and> w = (d, v\<lparr>bv_objects := (bv_objects v)(k \<mapsto> x)\<rparr>)))) \<and>
     (\<forall>d v body elapsed. (ttl + 1) * 1000 \<le> elapsed \<longrightarrow>
        yields (beside view) (child_put put url body ''image/png'' elapsed) (d, v) (\<lambda>a w. a = 403 \<and> w = (d, v))) \<and>
     (\<exists>tampered. tamperUrl uf url = Inr tampered \<and> (\<forall>d v body elapsed.
        yields (beside view) (child_put put tampered body ''image/png'' elapsed) (d, v) (\<lambda>a w. a = 403 \<and> w = (d, v))))"

lemma signed_put_exists:
  assumes "signed_put_laws s3 b uf put view" and "0 < ttl" and "ttl \<le> 604800"
  shows "\<exists>url. signed_put s3 b put uf view (demo_key keyId) ttl url"
proof -
  have "demo_key keyId \<noteq> [] \<and> last (demo_key keyId) \<noteq> CHR ''/'' \<and> 0 < ttl \<and> ttl \<le> 604800"
    using assms(2,3) by (simp add: demo_key_text)
  with assms(1) [unfolded signed_put_laws_def, rule_format, of "demo_key keyId" ttl "''image/png''"]
  obtain url pre q where url: "s3_presign s3 (PutObject b (demo_key keyId) ''image/png'') ttl = Inr url"
    "uf_pathname uf url = Some (pre @ CHR ''/'' # q)" "q \<noteq> []" "CHR ''/'' \<notin> set q"
    and put: "\<And>s body elapsed. 0 \<le> elapsed \<and> elapsed \<le> (ttl - 1) * 1000 \<Longrightarrow> \<exists>s' x. put url body ''image/png'' elapsed s = (HttpStatus 200, s') \<and>
              so_body x = body \<and> view s' = view s\<lparr>bv_objects := (bv_objects (view s))(demo_key keyId \<mapsto> x)\<rparr>"
    and late: "\<And>s body elapsed. (ttl + 1) * 1000 \<le> elapsed \<Longrightarrow> \<exists>s'. put url body ''image/png'' elapsed s = (HttpStatus 403, s') \<and> view s' = view s"
    and path: "\<And>s body elapsed. \<exists>s'. put (uf_with_pathname uf url ((pre @ CHR ''/'' # q) @ ''-tampered'')) body ''image/png'' elapsed s =
      (HttpStatus 403, s') \<and> view s' = view s" by blast
  have 1: "yields (beside view) (child_put put url body ''image/png'' elapsed) (d, v)
          (\<lambda>a w. a = 200 \<and> (\<exists>x. so_body x = body \<and> w = (d, v\<lparr>bv_objects := (bv_objects v)(demo_key keyId \<mapsto> x)\<rparr>)))"
    if "0 \<le> elapsed \<and> elapsed \<le> (ttl - 1) * 1000" for d v body elapsed
    by (rule yields_weaken [OF yields_put [where n = 200 and
        Q = "\<lambda>u. \<exists>x. so_body x = body \<and> u = v\<lparr>bv_objects := (bv_objects v)(demo_key keyId \<mapsto> x)\<rparr>"]])
      (use put [OF that] in blast, auto)
  have 2: "yields (beside view) (child_put put url body ''image/png'' elapsed) (d, v) (\<lambda>a w. a = 403 \<and> w = (d, v))"
    if "(ttl + 1) * 1000 \<le> elapsed" for d v body elapsed
    by (rule yields_weaken [OF yields_put [where n = 403 and Q = "\<lambda>u. u = v"]]) (use late [OF that] in auto)
  have 3: "yields (beside view) (child_put put (uf_with_pathname uf url ((pre @ CHR ''/'' # q) @ ''-tampered'')) body ''image/png'' elapsed) (d, v)
      (\<lambda>a w. a = 403 \<and> w = (d, v))" for d v body elapsed
    by (rule yields_weaken [OF yields_put [where n = 403 and Q = "\<lambda>u. u = v"]]) (use path in auto)
  show ?thesis
    unfolding signed_put_def using url(1) 1 2 3 tamper_path [OF url(2-4)] by blast
qed

section \<open>The demonstration passes\<close>

text \<open>
  The account has its password, the random values are new, the account's second file has no object yet, and
  the requests and waits take the time they are written for.
\<close>

definition upload_ready :: "'k crypto \<Rightarrow> 'k auth_config \<Rightarrow> upload_world \<Rightarrow> db \<Rightarrow> bucket_view \<Rightarrow> bool" where
  "upload_ready cr cfg w d v \<longleftrightarrow>
     (\<exists>u \<in> set (users d). u_id u = DEMO_USER_ID \<and> u_email u = DEMO_EMAIL \<and> credentials_ok cr DEMO_PASSWORD u) \<and>
     cr_bind cr (Str DEMO_EMAIL) = Some DEMO_EMAIL \<and> cr_bind cr (Str ''image/png'') = Some ''image/png'' \<and>
     pg_uuid (uw_fam w) = Some (uw_fam w) \<and> pg_uuid (uw_jti w) = Some (uw_jti w) \<and>
     (\<forall>r \<in> set (refresh_tokens d). rt_id r \<le> sq_refresh (seqs d)) \<and> length (rt_hash cr cfg (uw_tok w)) \<le> 128 \<and>
     rt_hash cr cfg (uw_tok w) \<notin> rt_token_hash ` set (refresh_tokens d) \<and>
     (\<forall>i < 3. pg_uuid (uw_fileId w i) = Some (uw_fileId w i) \<and> random_uuid (uw_keyId w i) \<and>
        uw_fileId w i \<notin> f_id ` set (files d) \<and> demo_key (uw_keyId w i) \<notin> f_object_key ` set (files d)) \<and>
     inj_on (uw_fileId w) {..<3} \<and> inj_on (uw_keyId w) {..<3} \<and> bv_objects v (demo_key (uw_keyId w 1)) = None"

definition upload_paced :: "upload_world \<Rightarrow> bool" where
  "upload_paced w \<longleftrightarrow> (\<forall>i. uw_now w 0 \<le> uw_now w i \<and> uw_now w i < uw_now w 0 + 590000) \<and>
     0 \<le> uw_elapsed w 0 \<and> uw_elapsed w 0 \<le> 299000 \<and> 2200 \<le> uw_elapsed w 2 \<and> (\<forall>i. \<not> uw_probe w i \<and> uw_listens w i)"

lemma with_ttl_config: "getStorageConfig (with_ttl env t) = getStorageConfig env"
proof -
  have same: "requireEnv (with_ttl env t) n = requireEnv env n" "env_or_none (with_ttl env t) n = env_or_none env n"
    "with_ttl env t n = env n" if "n \<noteq> ''UPLOAD_PRESIGNED_TTL_SECONDS''" for n
    using that by (simp_all add: with_ttl_def requireEnv_def env_or_none_def)
  show ?thesis by (simp add: getStorageConfig_def same cong del: sum.case_cong_weak)
qed

lemma with_ttl_seconds:
  "getPresignedUploadTtlSeconds (with_ttl env ''300'') = Inr 300" "getPresignedUploadTtlSeconds (with_ttl env ''1'') = Inr 1"
proof -
  have "number_of_string ''300'' = IntN 300" "number_of_string ''1'' = IntN 1" by code_simp+
  then show "getPresignedUploadTtlSeconds (with_ttl env ''300'') = Inr 300" "getPresignedUploadTtlSeconds (with_ttl env ''1'') = Inr 1"
    by (simp_all add: getPresignedUploadTtlSeconds_def with_ttl_def env_or_none_def)
qed

lemma forget_files_wf: "wf_db d \<Longrightarrow> wf_db (forget_files d)"
  by (auto simp: wf_db_def ids_defs forget_files_def files_ok_def distinct_map intro: inj_on_subset)

lemma tidied_fields:
  "users (tidied d) = users d" "files (tidied d) = filter (\<lambda>r. f_owner_id r \<noteq> DEMO_USER_ID) (files d)"
  "refresh_tokens (tidied d) = filter (\<lambda>r. rt_user_id r \<noteq> DEMO_USER_ID) (refresh_tokens d)"
  "denylist (tidied d) = []" "seqs (tidied d) = seqs d"
  by (simp_all add: tidied_def cleanAuthState_def forget_files_def)

text \<open>The database of the session: only its files change from here on.\<close>

definition session_db :: "upload_world \<Rightarrow> db \<Rightarrow> db \<Rightarrow> bool" where
  "session_db w d ds \<longleftrightarrow> users ds = users d \<and> files ds = filter (\<lambda>r. f_owner_id r \<noteq> DEMO_USER_ID) (files d) \<and> denylist ds = []"

lemma login_step:
  assumes "wf_db d" and "upload_ready cr cfg w d v"
  shows "\<exists>role ds. session_db w d ds \<and> login_request cr cfg t (uw_fam w) (uw_tok w) (uw_jti w) (tidied d) =
    (Inr \<lparr>ar_accessToken = signAccessToken cr cfg t (uw_jti w) DEMO_USER_ID role (uw_fam w), ar_refreshToken = uw_tok w\<rparr>, ds)"
proof -
  obtain u where u: "u \<in> set (users (tidied d))" "u_id u = DEMO_USER_ID" "u_email u = DEMO_EMAIL" "credentials_ok cr DEMO_PASSWORD u"
    using assms(2) by (auto simp: upload_ready_def tidied_fields)
  have wf: "wf_db (tidied d)" unfolding tidied_def by (rule clean_wf [OF forget_files_wf [OF assms(1)]])
  have "loginHandler cr cfg t (uw_fam w) (uw_tok w) (uw_jti w) (login_body DEMO_EMAIL) (tidied d) =
      (Inr \<lparr>ar_accessToken = signAccessToken cr cfg t (uw_jti w) (u_id u) (u_role u) (uw_fam w), ar_refreshToken = uw_tok w\<rparr>,
       after_entry (refresh_entry (rt_hash cr cfg (uw_tok w)) (uw_fam w) (u_id u) (t + ac_refreshTokenTtlSeconds cfg * 1000) (tidied d)) (tidied d))"
    by (rule account_login [OF wf u(1,3,4)])
      (use assms(2) u(2) demo_user_id in \<open>auto simp: upload_ready_def tidied_fields\<close>)
  then show ?thesis
    by (auto simp: login_request_def cmd_bind_run cmd_simps attempt_def u(2) session_db_def after_entry_def tidied_fields)
qed

definition session_token :: "'k crypto \<Rightarrow> 'k auth_config \<Rightarrow> upload_world \<Rightarrow> user_role \<Rightarrow> string" where
  "session_token cr cfg w role = signAccessToken cr cfg (uw_now w 0) (uw_jti w) DEMO_USER_ID role (uw_fam w)"

lemma paced_guard:
  assumes "jwt_library cr cfg" and "config_ok cfg" and "upload_ready cr cfg w d0 v0" and "upload_paced w" and "denylist d = []"
  shows "canActivate cr cfg (uw_now w i) (authorization (Str (session_token cr cfg w role))) d =
    (Inr (issued_claims (uw_now w 0) (uw_jti w) DEMO_USER_ID role (uw_fam w)), d)"
  unfolding session_token_def
  by (rule session_guard [OF assms(1,2) _ _ assms(5)])
    (use assms(3,4) within_ten_minutes [of "uw_now w" i 0] in \<open>simp_all add: upload_ready_def upload_paced_def\<close>)

abbreviation demo_size :: nat where
  "demo_size \<equiv> length demo_bytes"

lemma demo_size_fits: "int8 (int demo_size)"
  by (simp add: demo_bytes_def int8_def)

lemma announced_fields:
  "files (announced i k n d) = files d @ [pending_file i k n]" "users (announced i k n d) = users d" "denylist (announced i k n d) = denylist d"
  by (simp_all add: announced_def)

lemma committed_fields: "users (committed i n d) = users d" "denylist (committed i n d) = denylist d"
  by (simp_all add: committed_def)

lemma committed_files:
  assumes "i \<notin> f_id ` set (files d)"
  shows "files (committed i n (announced i k m d)) = files d @ [complete_row (int n) (pending_file i k m)]"
  using assms by (auto simp: committed_def announced_def pending_fields intro!: update_where_id)

lemma find_pending:
  assumes "i \<notin> f_id ` set (files d)"
  shows "first_where (\<lambda>r. f_id r = i) (files (announced i k n d)) = Some (pending_file i k n)"
proof -
  have "first_where (\<lambda>r. f_id r = i) (files d) = None" using assms unfolding first_where_None by (metis image_eqI)
  then show ?thesis by (simp add: announced_fields first_where_append pending_fields del: first_where_None)
qed

text \<open>The three files of the session are new, one after the other.\<close>

lemma fresh_announced: "fresh_file i k d \<Longrightarrow> i \<noteq> j \<Longrightarrow> k \<noteq> l \<Longrightarrow> fresh_file i k (announced j l n d)"
  by (simp add: fresh_file_def announced_fields pending_fields demo_key_inject)

lemma fresh_committed: "fresh_file i k d \<Longrightarrow> fresh_file i k (committed j n d)"
  by (simp add: fresh_file_def committed_def image_update_where complete_row_def)

lemma session_fresh:
  assumes "upload_ready cr cfg w d v" and "session_db w d ds" and "i < 3"
  shows "fresh_file (uw_fileId w i) (uw_keyId w i) ds"
proof -
  have new: "pg_uuid (uw_fileId w i) = Some (uw_fileId w i)" "random_uuid (uw_keyId w i)"
    "uw_fileId w i \<notin> f_id ` set (files d)" "demo_key (uw_keyId w i) \<notin> f_object_key ` set (files d)"
    using assms(1,3) unfolding upload_ready_def by blast+
  obtain u where "u \<in> set (users d)" "u_id u = DEMO_USER_ID" using assms(1) unfolding upload_ready_def by blast
  then have "DEMO_USER_ID \<in> u_id ` set (users ds)" using assms(2) by (force simp: session_db_def)
  moreover have "set (files ds) \<subseteq> set (files d)" using assms(2) by (auto simp: session_db_def)
  ultimately show ?thesis using new unfolding fresh_file_def by (meson image_mono subsetD)
qed

lemma session_distinct:
  assumes "upload_ready cr cfg w d v" and "i < 3" and "j < 3" and "i \<noteq> j"
  shows "uw_fileId w i \<noteq> uw_fileId w j" and "uw_keyId w i \<noteq> uw_keyId w j"
  using assms by (auto simp: upload_ready_def dest: inj_onD)

lemma yields_offline:
  assumes "jwt_library cr cfg" and "config_ok cfg" and "wf_db d" and "upload_ready cr cfg w d v" and "upload_paced w"
    and "getStorageConfig env = Inr config" and "bucket_laws s3 (sc_bucket config) view"
    and "signed_put_laws s3 (sc_bucket config) uf put view"
  shows "yields (beside view) (offline_upload cr cfg s3 (with_ttl env ''300'') put w) (tidied d, u)
    (\<lambda>r st. \<exists>role url ds x. session_db w d ds \<and> so_body x = demo_bytes \<and> r = (session_token cr cfg w role,
        Inr \<lparr>ui_fileId = uw_fileId w 0, ui_key = demo_key (uw_keyId w 0), ui_uploadUrl = url, ui_expiresIn = 300\<rparr>, 200) \<and>
      st = (announced (uw_fileId w 0) (uw_keyId w 0) demo_size ds, u\<lparr>bv_objects := (bv_objects u)(demo_key (uw_keyId w 0) \<mapsto> x)\<rparr>))"
proof -
  obtain role ds where ds: "session_db w d ds" and login: "login_request cr cfg (uw_now w 0) (uw_fam w) (uw_tok w) (uw_jti w) (tidied d) =
      (Inr \<lparr>ar_accessToken = session_token cr cfg w role, ar_refreshToken = uw_tok w\<rparr>, ds)"
    using login_step [OF assms(3,4), of "uw_now w 0"] unfolding session_token_def by blast
  obtain url where url: "signed_put s3 (sc_bucket config) put uf view (demo_key (uw_keyId w 0)) 300 url"
    using signed_put_exists [OF assms(8), of 300] by auto
  then have sign: "s3_presign s3 (PutObject (sc_bucket config) (demo_key (uw_keyId w 0)) ''image/png'') 300 = Inr url"
    by (simp add: signed_put_def)
  have put: "yields (beside view) (child_put put url demo_bytes ''image/png'' (uw_elapsed w 0)) (e, u)
      (\<lambda>a st. a = 200 \<and> (\<exists>x. so_body x = demo_bytes \<and> st = (e, u\<lparr>bv_objects := (bv_objects u)(demo_key (uw_keyId w 0) \<mapsto> x)\<rparr>)))" for e
    using url assms(5) unfolding signed_put_def upload_paced_def by auto
  have png: "cr_bind cr (Str ''image/png'') = Some ''image/png''" using assms(4) by (simp add: upload_ready_def)
  have none: "denylist ds = []" using ds by (simp add: session_db_def)
  have free: "\<not> uw_probe w i" "uw_listens w i" for i using assms(5) by (simp_all add: upload_paced_def)
  have config: "getStorageConfig (with_ttl env ''300'') = Inr config" using assms(6) by (simp add: with_ttl_config)
  note intent = yields_intent [OF paced_guard [OF assms(1,2,4,5) none] issued_subject refl config assms(7) png
      session_fresh [OF assms(4) ds] demo_size_fits with_ttl_seconds(1) sign]
  show ?thesis
    unfolding offline_upload_def free_port_def server_listens_def
    apply (simp only: free if_True if_False cmd_bind_return)
    apply (rule yields_bind, rule yields_db, rule login, elim conjE, hypsubst, simp only: auth_response.select_convs)
    apply (rule yields_bind, rule intent, simp, elim conjE, hypsubst, simp only: body_field_def sum.case upload_intent.select_convs js_text.simps)
    apply (rule yields_bind, rule put, elim conjE exE, hypsubst)
    apply (rule yields_return)
    using ds by blast
qed

text \<open>The files after the session.\<close>

definition after_session :: "upload_world \<Rightarrow> db \<Rightarrow> db" where
  "after_session w ds = announced (uw_fileId w 2) (uw_keyId w 2) demo_size (announced (uw_fileId w 1) (uw_keyId w 1) demo_size
     (committed (uw_fileId w 0) demo_size (announced (uw_fileId w 0) (uw_keyId w 0) demo_size ds)))"

definition passing_report :: upload_report where
  "passing_report = \<lparr>ud_intent = 200, ud_keyFromServer = 1, ud_apiAlive = 0, ud_putOffline = 200, ud_commit = 200,
     ud_commitWithoutBytes = 409, ud_tampered = 403, ud_expired = 403, ud_passed = True\<rparr>"

lemma yields_online:
  assumes "jwt_library cr cfg" and "config_ok cfg" and "upload_ready cr cfg w d v" and "upload_paced w"
    and "getStorageConfig env = Inr config" and "bucket_laws s3 (sc_bucket config) view" and "object_laws s3 (sc_bucket config) code view"
    and "signed_put_laws s3 (sc_bucket config) uf put view" and "session_db w d ds"
    and "bv_objects u (demo_key (uw_keyId w 0)) = Some x" and "so_body x = demo_bytes" and "bv_objects u (demo_key (uw_keyId w 1)) = None"
  shows "yields (beside view) (online_checks cr cfg s3 env uf put w (session_token cr cfg w role,
      Inr \<lparr>ui_fileId = uw_fileId w 0, ui_key = demo_key (uw_keyId w 0), ui_uploadUrl = url, ui_expiresIn = 300\<rparr>, 200))
    (announced (uw_fileId w 0) (uw_keyId w 0) demo_size ds, u) (\<lambda>r st. r = passing_report \<and> st = (after_session w ds, u))"
proof -
  let ?d1 = "announced (uw_fileId w 0) (uw_keyId w 0) demo_size ds"
  let ?d2 = "committed (uw_fileId w 0) demo_size ?d1"
  let ?d3 = "announced (uw_fileId w 1) (uw_keyId w 1) demo_size ?d2"
  obtain url1 where signed1: "signed_put s3 (sc_bucket config) put uf view (demo_key (uw_keyId w 1)) 300 url1"
    using signed_put_exists [OF assms(8), of 300 "uw_keyId w 1"] by auto
  obtain url2 where signed2: "signed_put s3 (sc_bucket config) put uf view (demo_key (uw_keyId w 2)) 1 url2"
    using signed_put_exists [OF assms(8), of 1 "uw_keyId w 2"] by auto
  obtain tampered where url1: "s3_presign s3 (PutObject (sc_bucket config) (demo_key (uw_keyId w 1)) ''image/png'') 300 = Inr url1"
      "tamperUrl uf url1 = Inr tampered"
    and put1: "\<And>e. yields (beside view) (child_put put tampered demo_bytes ''image/png'' (uw_elapsed w 1)) (e, u) (\<lambda>a st. a = 403 \<and> st = (e, u))"
    using signed1 unfolding signed_put_def by blast
  have url2: "s3_presign s3 (PutObject (sc_bucket config) (demo_key (uw_keyId w 2)) ''image/png'') 1 = Inr url2"
    and put2: "\<And>e. yields (beside view) (child_put put url2 demo_bytes ''image/png'' (uw_elapsed w 2)) (e, u) (\<lambda>a st. a = 403 \<and> st = (e, u))"
    using signed2 assms(4) unfolding signed_put_def upload_paced_def by auto
  have png: "cr_bind cr (Str ''image/png'') = Some ''image/png''" using assms(3) by (simp add: upload_ready_def)
  have free: "\<not> uw_probe w i" "uw_listens w i" for i using assms(4) by (simp_all add: upload_paced_def)
  have config: "getStorageConfig (with_ttl env t) = Inr config" for t using assms(5) by (simp add: with_ttl_config)
  have none: "denylist ?d1 = []" "denylist ?d2 = []" "denylist ?d3 = []"
    using assms(9) by (simp_all add: session_db_def announced_fields committed_fields)
  note fresh = session_fresh [OF assms(3,9)] and apart = session_distinct [OF assms(3)]
  have new1: "fresh_file (uw_fileId w 1) (uw_keyId w 1) ?d2"
    by (intro fresh_committed fresh_announced fresh apart) simp_all
  have new2: "fresh_file (uw_fileId w 2) (uw_keyId w 2) ?d3"
    by (intro fresh_announced fresh_committed fresh apart) simp_all
  have ids: "pg_uuid (uw_fileId w 0) = Some (uw_fileId w 0)" "uw_fileId w 0 \<notin> f_id ` set (files ds)" "random_uuid (uw_keyId w 0)"
    "pg_uuid (uw_fileId w 1) = Some (uw_fileId w 1)" "uw_fileId w 1 \<notin> f_id ` set (files ?d2)"
    using fresh [of 0] new1 by (simp_all add: fresh_file_def)
  have len: "length (so_body x) = demo_size" by (simp add: assms(11))
  note guard = paced_guard [OF assms(1-4)]
  note first = yields_commit [OF guard [OF none(1)] issued_subject config assms(6,7) ids(1) find_pending [OF ids(2)] assms(10) len demo_size_fits]
    and announce1 = yields_intent [OF guard [OF none(2)] issued_subject refl config assms(6) png new1 demo_size_fits with_ttl_seconds(1) url1(1)]
    and missing = yields_commit_missing [OF guard [OF none(3)] issued_subject config assms(6,7) ids(4) find_pending [OF ids(5)] assms(12)]
    and announce2 = yields_intent [OF guard [OF none(3)] issued_subject refl config assms(6) png new2 demo_size_fits with_ttl_seconds(2) url2]
  show ?thesis
    unfolding online_checks_def prod.case server_listens_def
    apply (simp only: free if_True cmd_bind_return body_field_def sum.case upload_intent.select_convs js_text.simps)
    apply (rule yields_bind, rule first, elim conjE, hypsubst)
    apply (rule yields_bind, rule announce1, elim conjE, hypsubst, simp only: sum.case upload_intent.select_convs js_text.simps)
    apply (rule yields_bind, rule missing, elim conjE, hypsubst)
    apply (rule yields_bind, rule yields_value, rule url1(2), elim conjE, hypsubst)
    apply (rule yields_bind, rule put1, elim conjE, hypsubst)
    apply (rule yields_bind, rule announce2, elim conjE, hypsubst, simp only: sum.case upload_intent.select_convs js_text.simps)
    apply (rule yields_bind, rule put2, elim conjE, hypsubst)
    apply (rule yields_return)
    using demo_key_checked [OF ids(3)] by (simp add: upload_verdict_def passing_report_def free after_session_def)
qed

lemma after_session_files:
  assumes "upload_ready cr cfg w d v" and "session_db w d ds"
  shows "users (tidied (after_session w ds)) = users ds" and "files (tidied (after_session w ds)) = files ds"
    and "own_keys (after_session w ds) = map (\<lambda>i. demo_key (uw_keyId w i)) [0, 1, 2]"
proof -
  have others: "filter (\<lambda>r. f_owner_id r \<noteq> DEMO_USER_ID) (files ds) = files ds" "filter (\<lambda>r. f_owner_id r = DEMO_USER_ID) (files ds) = []"
    using assms(2) by (auto simp: session_db_def filter_empty_conv)
  have "uw_fileId w 0 \<notin> f_id ` set (files ds)" using session_fresh [OF assms, of 0] by (simp add: fresh_file_def)
  then have rows: "files (after_session w ds) = files ds @ [complete_row (int demo_size) (pending_file (uw_fileId w 0) (uw_keyId w 0) demo_size),
      pending_file (uw_fileId w 1) (uw_keyId w 1) demo_size, pending_file (uw_fileId w 2) (uw_keyId w 2) demo_size]"
    by (simp add: after_session_def announced_fields committed_files)
  show "users (tidied (after_session w ds)) = users ds"
    by (simp add: tidied_fields after_session_def announced_fields committed_fields)
  show "files (tidied (after_session w ds)) = files ds"
    by (simp add: tidied_fields rows others complete_row_def pending_fields del: One_nat_def)
  show "own_keys (after_session w ds) = map (\<lambda>i. demo_key (uw_keyId w i)) [0, 1, 2]"
    by (simp add: own_keys_def rows others complete_row_def pending_fields del: One_nat_def)
qed


section \<open>An instance\<close>

text \<open>
  The storage in memory with addresses that spell out what they sign: the time to live, the key and the
  type, before the path.
\<close>

definition signed_url :: "int \<Rightarrow> string \<Rightarrow> string \<Rightarrow> string \<Rightarrow> string" where
  "signed_url ttl k ct path = encode_part (show_int ttl) @ encode_part k @ encode_part ct @ path"

definition read_url :: "string \<Rightarrow> string \<times> string \<times> string \<times> string" where
  "read_url url = (let (t, r) = decode_part url; (k, q) = decode_part r; (ct, p) = decode_part q in (t, k, ct, p))"

lemma read_signed: "read_url (signed_url ttl k ct path) = (show_int ttl, k, ct, path)"
  by (simp add: read_url_def signed_url_def)

definition signing_s3 :: "memory s3" where
  "signing_s3 = \<lparr>s3_send = mem_send, s3_presign = (\<lambda>c ttl. case c of
     PutObject _ k ct \<Rightarrow> Inr (signed_url ttl k ct (CHR ''/'' # k)) | _ \<Rightarrow> Inr [])\<rparr>"

definition signed_paths :: url_functions where
  "signed_paths = \<lparr>uf_pathname = (\<lambda>url. case read_url url of (t, k, ct, p) \<Rightarrow> Some p),
     uf_with_pathname = (\<lambda>url path. case read_url url of (t, k, ct, p) \<Rightarrow> encode_part t @ encode_part k @ encode_part ct @ path)\<rparr>"

definition memory_put :: "memory http_put" where
  "memory_put url body ct elapsed m = (case read_url url of (t, k, c, p) \<Rightarrow>
     (case number_of_string t of
        IntN ttl \<Rightarrow> if p = CHR ''/'' # k \<and> c = ct \<and> elapsed < ttl * 1000
          then (HttpStatus 200, m\<lparr>mm_objects := AList.update k
            \<lparr>so_body = body, so_etag = ''tag'', so_contentType = Some ct, so_cacheControl = None\<rparr> (mm_objects m)\<rparr>)
          else (HttpStatus 403, m)
      | _ \<Rightarrow> (HttpStatus 403, m)))"

lemma memory_signed_laws: "signed_put_laws signing_s3 b signed_paths memory_put mem_view"
  unfolding signed_put_laws_def
proof (intro allI impI, elim conjE)
  fix k ct :: string and ttl :: int
  assume k: "k \<noteq> []" "last k \<noteq> CHR ''/''" and ttl: "0 < ttl"
  let ?url = "signed_url ttl k ct (CHR ''/'' # k)"
  obtain pre q where path: "CHR ''/'' # k = pre @ CHR ''/'' # q" "CHR ''/'' \<notin> set q"
    using split_list_last [of "CHR ''/''" "CHR ''/'' # k"] by auto
  then have "q \<noteq> []" using k by (metis last.simps last_snoc)
  have other: "uf_with_pathname signed_paths ?url (p @ ''-tampered'') = signed_url ttl k ct (p @ ''-tampered'')" for p
    by (simp add: signed_paths_def read_signed) (simp add: signed_url_def)
  have put: "memory_put (signed_url ttl k ct p) body ct elapsed m = (if p = CHR ''/'' # k \<and> elapsed < ttl * 1000
      then (HttpStatus 200, m\<lparr>mm_objects := AList.update k
        \<lparr>so_body = body, so_etag = ''tag'', so_contentType = Some ct, so_cacheControl = None\<rparr> (mm_objects m)\<rparr>)
      else (HttpStatus 403, m))" for p body elapsed m
    by (simp add: memory_put_def read_signed number_of_show_int)
  show "\<exists>url pre q. s3_presign signing_s3 (PutObject b k ct) ttl = Inr url \<and>
        uf_pathname signed_paths url = Some (pre @ CHR ''/'' # q) \<and> q \<noteq> [] \<and> CHR ''/'' \<notin> set q \<and>
        (\<forall>s body elapsed.
           (0 \<le> elapsed \<and> elapsed \<le> (ttl - 1) * 1000 \<longrightarrow> (\<exists>s' x. memory_put url body ct elapsed s = (HttpStatus 200, s') \<and>
              so_body x = body \<and> mem_view s' = mem_view s\<lparr>bv_objects := (bv_objects (mem_view s))(k \<mapsto> x)\<rparr>)) \<and>
           ((ttl + 1) * 1000 \<le> elapsed \<longrightarrow> (\<exists>s'. memory_put url body ct elapsed s = (HttpStatus 403, s') \<and> mem_view s' = mem_view s)) \<and>
           (\<exists>s'. memory_put (uf_with_pathname signed_paths url ((pre @ CHR ''/'' # q) @ ''-tampered'')) body ct elapsed s = (HttpStatus 403, s') \<and>
              mem_view s' = mem_view s))"
  proof (rule exI [of _ ?url], rule exI [of _ pre], rule exI [of _ q], intro conjI allI impI)
    show "s3_presign signing_s3 (PutObject b k ct) ttl = Inr ?url" by (simp add: signing_s3_def)
    show "uf_pathname signed_paths ?url = Some (pre @ CHR ''/'' # q)" by (simp add: signed_paths_def read_signed path(1))
  next
    fix m body and elapsed :: int
    show "\<exists>s'. memory_put (uf_with_pathname signed_paths ?url ((pre @ CHR ''/'' # q) @ ''-tampered'')) body ct elapsed m = (HttpStatus 403, s') \<and>
        mem_view s' = mem_view m"
      unfolding other put using path(1) by simp
    show "\<exists>s'. memory_put ?url body ct elapsed m = (HttpStatus 403, s') \<and> mem_view s' = mem_view m" if "(ttl + 1) * 1000 \<le> elapsed"
      using that unfolding put by simp
    show "\<exists>s' x. memory_put ?url body ct elapsed m = (HttpStatus 200, s') \<and> so_body x = body \<and>
        mem_view s' = mem_view m\<lparr>bv_objects := (bv_objects (mem_view m))(k \<mapsto> x)\<rparr>" if "0 \<le> elapsed \<and> elapsed \<le> (ttl - 1) * 1000"
      using that unfolding put by (auto simp: mem_view_def update_conv' fun_eq_iff)
  qed (fact \<open>q \<noteq> []\<close> path(2))+
qed

lemma signing_bucket: "bucket_laws signing_s3 b mem_view"
  using mem_bucket [of b] by (simp add: bucket_laws_def signing_s3_def)

lemma signing_objects: "object_laws signing_s3 b (Some \<circ> status_of) mem_view"
  using mem_objects [of b] by (simp add: object_laws_def responds_def refuses_def signing_s3_def cong: option.case_cong)

definition uuid_3 :: string where "uuid_3 = ''33333333-3333-4333-8333-333333333333''"

definition upload_ids :: "nat \<Rightarrow> string" where
  "upload_ids i = [uuid_1, uuid_2, uuid_3] ! i"

definition sample_world :: upload_world where
  "sample_world = \<lparr>uw_now = (\<lambda>_. 0), uw_elapsed = (\<lambda>i. if i = 2 then 2200 else 0), uw_fam = uuid_1, uw_tok = ''t'', uw_jti = uuid_2,
     uw_fileId = upload_ids, uw_keyId = upload_ids, uw_probe = (\<lambda>_. False), uw_listens = (\<lambda>_. True)\<rparr>"

lemma upload_ids_ok: "\<forall>i < 3. pg_uuid (upload_ids i) = Some (upload_ids i) \<and> random_uuid (upload_ids i)"
proof -
  have "pg_uuid uuid_3 = Some uuid_3" "random_uuid uuid_1" "random_uuid uuid_2" "random_uuid uuid_3" by code_simp+
  with pg_uuid_examples show ?thesis by (simp add: upload_ids_def numeral_3_eq_3 All_less_Suc)
qed

lemma upload_ids_inj: "inj_on upload_ids {..<3}"
proof -
  have "distinct [uuid_1, uuid_2, uuid_3]" by (simp add: uuid_1_def uuid_2_def uuid_3_def)
  then show ?thesis unfolding inj_on_def upload_ids_def by (metis distinct_conv_nth lessThan_iff length_Cons list.size(3) numeral_3_eq_3)
qed

lemma sample_upload_ready:
  assumes "seed sample_crypto [1, 2] empty_db = (Inr (), d)" and "bv_objects v = Map.empty"
  shows "upload_ready sample_crypto sample_config sample_world d v"
proof -
  have rows: "refresh_tokens d = []" "files d = []"
    using assms(1) unfolding seed_empty by (auto simp: seeded_tables_def set_credentials_def empty_db_def)
  have hash: "length (rt_hash sample_crypto sample_config ''t'') \<le> 128" by (simp add: sample_crypto_def)
  have bind: "cr_bind sample_crypto (Str s) = Some s" for s by (simp add: sample_crypto_def)
  show ?thesis
    using seeded_demo_user [OF assms(1) sample_scrypt] upload_ids_ok upload_ids_inj pg_uuid_examples hash
    unfolding upload_ready_def by (simp add: sample_world_def rows assms(2) bind) blast
qed


end
