(* ===== verification/Startup.thy ===== *)
theory Startup
  imports Auth
begin

text \<open>
  What happens before the first request: \<open>src/config/env.schema.ts\<close>, \<open>database.service.ts\<close>,
  \<open>data-source.ts\<close>, \<open>main.ts\<close>, and the connection check of \<open>app.controller.ts\<close> on the table of \<open>init.sql\<close>.
  The validation library, URL parsing, percent-decoding and the file system are arguments.
\<close>

section \<open>The environment of the server\<close>

record env_config =
  en_PORT :: int
  en_DB_URL :: string
  en_DB_PASSWORD_FILE :: string

text \<open>An issue of the validation library: a path and a message.\<close>

type_synonym env_issue = "string list \<times> string"

definition env_issue_text :: "env_issue \<Rightarrow> string" where
  "env_issue_text issue = (case issue of (path, message) \<Rightarrow> js_join ''.'' path @ '': '' @ message)"

definition validateEnv :: "('e \<Rightarrow> env_issue list + env_config) \<Rightarrow> 'e \<Rightarrow> err + env_config" where
  "validateEnv safeParse config = (case safeParse config of
       Inl issues \<Rightarrow> Inl (JsError (''Environment validation failed:'' @ [CHR 0x0A] @ js_join [CHR 0x0A] (map env_issue_text issues)))
     | Inr env \<Rightarrow> Inr env)"

text \<open>\<open>url.port || 5432\<close>; a password in the URL wins over the file.\<close>

record parsed_url =
  pu_hostname :: string
  pu_port :: string
  pu_username :: string
  pu_password :: string
  pu_pathname :: string

record pool_options =
  po_host :: string
  po_port :: jsnum
  po_user :: string
  po_database :: string
  po_password :: string

definition or_error :: "err \<Rightarrow> 'a option \<Rightarrow> err + 'a" where
  "or_error e v = (case v of None \<Rightarrow> Inl e | Some a \<Rightarrow> Inr a)"

definition databasePool ::
  "(string \<Rightarrow> parsed_url option) \<Rightarrow> (string \<Rightarrow> string option) \<Rightarrow> (string \<Rightarrow> string option) \<Rightarrow> env_config \<Rightarrow> ('s, pool_options) cmd" where
  "databasePool parseUrl decode readFile config =
     cmd_bind (cmd_lift (or_error TypeError (parseUrl (en_DB_URL config)))) (\<lambda>url.
     cmd_bind (cmd_lift (if pu_password url \<noteq> [] then or_error (JsError ''URI malformed'') (decode (pu_password url))
       else map_sum id js_trim (or_error (JsError ''ENOENT'') (readFile (en_DB_PASSWORD_FILE config))))) (\<lambda>password.
     cmd_bind (cmd_lift (or_error (JsError ''URI malformed'') (decode (pu_username url)))) (\<lambda>user.
     cmd_return \<lparr>po_host = pu_hostname url,
       po_port = (if pu_port url \<noteq> [] then number_of_string (pu_port url) else IntN 5432),
       po_user = user, po_database = drop 1 (pu_pathname url), po_password = password\<rparr>)))"

section \<open>The environment of the scripts\<close>

definition getRequiredEnv :: "(string \<Rightarrow> string option) \<Rightarrow> string \<Rightarrow> err + string" where
  "getRequiredEnv env name = (case env name of
       Some v \<Rightarrow> if v \<noteq> [] then Inr v else Inl (JsError (name @ '' is required''))
     | None \<Rightarrow> Inl (JsError (name @ '' is required'')))"

definition getPort :: "(string \<Rightarrow> string option) \<Rightarrow> err + int" where
  "getPort env = (case getRequiredEnv env ''DB_PORT'' of
       Inl e \<Rightarrow> Inl e
     | Inr v \<Rightarrow> (case number_of_string v of
           IntN port \<Rightarrow> if port \<le> 0 then Inl (JsError ''DB_PORT must be a positive integer'') else Inr port
         | _ \<Rightarrow> Inl (JsError ''DB_PORT must be a positive integer'')))"

record source_options =
  ds_host :: string
  ds_port :: int
  ds_username :: string
  ds_password :: string
  ds_database :: string

definition dataSource :: "(string \<Rightarrow> string option) \<Rightarrow> ('s, source_options) cmd" where
  "dataSource env =
     cmd_bind (cmd_lift (getRequiredEnv env ''DB_HOST'')) (\<lambda>host.
     cmd_bind (cmd_lift (getPort env)) (\<lambda>port.
     cmd_bind (cmd_lift (getRequiredEnv env ''DB_USER'')) (\<lambda>username.
     cmd_bind (cmd_lift (getRequiredEnv env ''DB_PASSWORD'')) (\<lambda>password.
     cmd_bind (cmd_lift (getRequiredEnv env ''DB_NAME'')) (\<lambda>database.
     cmd_return \<lparr>ds_host = host, ds_port = port, ds_username = username, ds_password = password, ds_database = database\<rparr>)))))"

section \<open>Start and connection check\<close>

text \<open>\<open>process.env.PORT ?? 3000\<close>: the text as it is, not the validated number. \<open>create\<close> is the framework.\<close>

definition listen_port :: "(string \<Rightarrow> string option) \<Rightarrow> jsval" where
  "listen_port env = (case env ''PORT'' of None \<Rightarrow> Num (IntN 3000) | Some p \<Rightarrow> Str p)"

definition bootstrap ::
  "(string \<Rightarrow> string) \<Rightarrow> (string \<Rightarrow> 'k option) \<Rightarrow> (string \<Rightarrow> 'k option) \<Rightarrow> err + unit \<Rightarrow> (string \<Rightarrow> string option) \<Rightarrow>
     ('k auth_config option, jsval) cmd" where
  "bootstrap decode privateKey publicKey create env =
     cmd_bind (getAuthConfig decode privateKey publicKey env) (\<lambda>_.
     cmd_bind (cmd_lift create) (\<lambda>_. cmd_return (listen_port env)))"

definition getRoot :: jsval where
  "getRoot = Obj [(''message'', Str ''Marketplace API'')]"

text \<open>The rows of \<open>health_check\<close>, in the order in which the database returns them.\<close>

definition checkConnection :: "(string list, string option) cmd" where
  "checkConnection = cmd_read (\<lambda>rows. case rows of [] \<Rightarrow> None | r # _ \<Rightarrow> Some r)"

definition getDatabaseCheck :: "(string list, jsval) cmd" where
  "getDatabaseCheck = cmd_bind checkConnection (\<lambda>result. case result of
       None \<Rightarrow> cmd_throw TypeError
     | Some message \<Rightarrow> cmd_return (Obj [(''status'', Str ''ok''), (''database'', Str message)]))"

text \<open>The row has a new identifier each time, so that nothing conflicts.\<close>

definition init_sql :: "string list \<Rightarrow> string list" where
  "init_sql rows = rows @ [''database is working'']"

section \<open>What they promise\<close>

lemma getRequiredEnv_Inr: "getRequiredEnv env n = Inr v \<longleftrightarrow> env n = Some v \<and> v \<noteq> []"
  by (auto simp: getRequiredEnv_def split: option.split)

lemma getRequiredEnv_Inl: "getRequiredEnv env n = Inl e \<longleftrightarrow> env n \<in> {None, Some []} \<and> e = JsError (n @ '' is required'')"
  by (auto simp: getRequiredEnv_def split: option.split)

lemma getPort_Inr: "getPort env = Inr p \<longleftrightarrow> (\<exists>v. env ''DB_PORT'' = Some v \<and> number_of_string v = IntN p \<and> 0 < p)"
proof -
  have "number_of_string [] = IntN 0" by (simp add: number_of_string_def js_trim_def)
  then show ?thesis
    by (auto simp: getPort_def getRequiredEnv_Inr getRequiredEnv_def split: option.split jsnum.split sum.split)
qed

lemma getPort_Inl: "getPort env = Inl e \<Longrightarrow> e \<in> {JsError ''DB_PORT is required'', JsError ''DB_PORT must be a positive integer''}"
  by (auto simp: getPort_def getRequiredEnv_Inl split: sum.splits jsnum.splits if_splits)

text \<open>The scripts connect exactly when every variable has a value and the port is positive; otherwise the
  error names a variable.\<close>

lemma dataSource_Inr:
  "dataSource env s = (Inr opts, s') \<longleftrightarrow> s' = s \<and> env ''DB_HOST'' = Some (ds_host opts) \<and> ds_host opts \<noteq> [] \<and>
     (\<exists>v. env ''DB_PORT'' = Some v \<and> number_of_string v = IntN (ds_port opts)) \<and> 0 < ds_port opts \<and>
     env ''DB_USER'' = Some (ds_username opts) \<and> ds_username opts \<noteq> [] \<and>
     env ''DB_PASSWORD'' = Some (ds_password opts) \<and> ds_password opts \<noteq> [] \<and>
     env ''DB_NAME'' = Some (ds_database opts) \<and> ds_database opts \<noteq> []"
  by (cases opts) (auto simp: dataSource_def cmd_bind_Inr_iff cmd_simps getRequiredEnv_Inr getPort_Inr)

lemma dataSource_Inl:
  assumes "dataSource env s = (Inl e, s')"
  shows "\<exists>n \<in> {''DB_HOST'', ''DB_PORT'', ''DB_USER'', ''DB_PASSWORD'', ''DB_NAME''}.
    e \<in> {JsError (n @ '' is required''), JsError (n @ '' must be a positive integer'')}"
proof -
  have req: "e = JsError (n @ '' is required'')" if "getRequiredEnv env n = Inl e" for n
    using that unfolding getRequiredEnv_Inl by blast
  from assms consider n where "n \<in> {''DB_HOST'', ''DB_USER'', ''DB_PASSWORD'', ''DB_NAME''}" "getRequiredEnv env n = Inl e" | "getPort env = Inl e"
    unfolding dataSource_def cmd_bind_Inl_iff cmd_lift_run cmd_return_run prod.inject sum.distinct by blast
  then show ?thesis
  proof cases
    case (1 n)
    with req [OF 1(2)] show ?thesis by blast
  next
    case 2
    from getPort_Inl [OF this] have "e \<in> {JsError (''DB_PORT'' @ '' is required''), JsError (''DB_PORT'' @ '' must be a positive integer'')}"
      by simp
    then show ?thesis by blast
  qed
qed

text \<open>The server starts only with all four secrets, and the check answers once the script has run, however often.\<close>

lemma bootstrap_configured:
  assumes "bootstrap decode privateKey publicKey create env None = (Inr port, cached)"
  shows "\<forall>n \<in> {''JWT_KID'', ''JWT_PRIVATE_KEY'', ''JWT_PUBLIC_KEY'', ''REFRESH_TOKEN_PEPPER''}. \<exists>v. env n = Some v \<and> v \<noteq> []"
  using assms
  by (auto simp: bootstrap_def getAuthConfig_def cmd_bind_Inr_iff cmd_simps decodePem_def requireEnv_def
      split: sum.splits option.splits if_splits)

lemma database_check:
  assumes "set rows \<subseteq> {''database is working''}"
  shows "fst (getDatabaseCheck rows) = (if rows = [] then Inl TypeError
    else Inr (Obj [(''status'', Str ''ok''), (''database'', Str ''database is working'')]))"
  using assms by (cases rows) (auto simp: getDatabaseCheck_def checkConnection_def cmd_bind_run cmd_simps)

lemma init_sql_repeated: "(init_sql ^^ n) [] = replicate n ''database is working''"
  by (induction n) (simp_all add: init_sql_def replicate_append_same)

end
