(* ===== verification/Spec2Isabelle.thy ===== *)
theory Spec2Isabelle
  imports AccessDemos Files Edge Catalog Workers Retry Reporting RabbitDemos RedisDemos CacheDemo Wire RbacDemo
    RealtimeDemo MultipartDemo CdnDemo QueueDemo UploadDemo Startup
begin

text \<open>
  A model of a marketplace back end (a NestJS application on PostgreSQL, Redis, RabbitMQ and
  S3-compatible storage) with the theorems that make it correct. Source paths are relative to
  the repository's \<open>src/\<close> directory.

  \<^bold>\<open>The program.\<close> Buyers place orders (\<open>orders/orders.service.ts\<close>, idempotent by key) or buy
  directly (\<open>checkout.ts\<close>). An order writes a row into the transactional outbox in the same
  transaction; a relay (\<open>outbox/outbox-relay.ts\<close>) publishes such rows to RabbitMQ, and a
  consumer (\<open>rabbitmq/order-placed.consumer.ts\<close>) applies each event once with the help of an
  inbox table. Status changes go to clients as server-sent events
  (\<open>orders/order-events.service.ts\<close>) and through WebSocket rooms (\<open>orders/orders.gateway.ts\<close>).
  Users log in for a short access token and a refresh token that rotates in a family
  (\<open>auth\<close>); guards protect routes and products are created by sellers
  (\<open>app.controller.ts\<close>). Files are announced, uploaded to the storage and committed
  (\<open>files\<close>), and served through an edge cache (\<open>cdn/edge-server.ts\<close>). Redis holds a read
  cache with a lock, sessions and a rate limiter (\<open>redis\<close>). Scripts prepare data
  (\<open>seed.ts\<close>), report (\<open>report.ts\<close>) and demonstrate: two hold concurrency logic of their
  own, a worker pool (\<open>demo-workers.ts\<close>) and retries of serialization failures
  (\<open>demo-retry.ts\<close>); the others drive the components and check what comes out.

  \<^bold>\<open>How it is modelled.\<close> An operation is a \<open>('s, 'a) cmd\<close> of \<open>Prelude\<close>: a state goes in, a
  result or an error and the new state come out; \<open>err\<close> lists the exceptions of the source and
  the errors of the database. A transaction is \<open>cmd_transaction\<close>, which restores the tables
  on an error and keeps the sequences advanced. Request bodies and payloads are JavaScript
  values (\<open>jsval\<close>), since the types of TypeScript are not checked at run time. Statements of
  one transaction that locks what it touches are one atomic step; where the interleaving of
  awaits matters the component is a step relation or a step function over schedules
  (\<open>Cache\<close>, \<open>Workers\<close>, \<open>Retry\<close>).

  \<^item> \<open>Prelude\<close>: commands, preservation rules, tables as lists, the interfaces
    \<open>invariant_steps\<close> and \<open>once_gate\<close>. \<open>Fairness\<close>: the interface \<open>fair_turns\<close> of calls that
    take turns and reach a goal. \<open>Support\<close>: hexadecimal text, UUIDs, the interface
    \<open>guarded_steps\<close>.
  \<^item> \<open>Js\<close>: numbers, \<open>Number(x)\<close>, \<open>Number.isInteger\<close>, properties and strings of JavaScript.
  \<^item> \<open>Database\<close>, \<open>DbInvariant\<close>: the schema of \<open>entities\<close> and \<open>migrations\<close>, one record per
    table, the constraints, and the integrity invariant \<open>wf_db\<close> that every statement keeps.
  \<^item> \<open>Broker\<close>: \<open>rabbitmq/topology.ts\<close>, the events and the publisher. \<open>Checkout\<close>:
    \<open>checkout.ts\<close>. \<open>OrderEvents\<close>, \<open>Orders\<close>: the directory \<open>orders\<close>. \<open>Outbox\<close>: the directory
    \<open>outbox\<close> and the consumer.
  \<^item> \<open>Auth\<close>: the operations of the directory \<open>auth\<close>. \<open>AuthSafety\<close>: refresh tokens as an
    abstract machine of token families, and the refinement. \<open>Access\<close>: access tokens,
    passwords, guards, login and logout.
  \<^item> \<open>RateLimit\<close>, \<open>Cache\<close>, \<open>Session\<close>: the directory \<open>redis\<close>. \<open>Storage\<close>, \<open>Files\<close>: the directory
    \<open>files\<close>. \<open>Edge\<close>: \<open>cdn/edge-server.ts\<close>. \<open>Catalog\<close>: \<open>app.controller.ts\<close> and \<open>repositories\<close>.
    \<open>Startup\<close>: \<open>main.ts\<close>, \<open>config\<close>, \<open>data-source.ts\<close>, \<open>database.service.ts\<close> and \<open>init.sql\<close>.
  \<^item> \<open>Workers\<close>, \<open>Retry\<close>: \<open>demo-workers.ts\<close> and \<open>demo-retry.ts\<close>. \<open>Reporting\<close>: \<open>report.ts\<close> and
    \<open>demo-nplus1.ts\<close>. \<open>Seed\<close>: \<open>seed.ts\<close>.
  \<^item> The demonstrations: \<open>Race\<close> (\<open>demo-race.ts\<close>), \<open>AccessDemos\<close> (\<open>demo-auth.ts\<close>,
    \<open>demo-reuse.ts\<close>), \<open>OutboxDemos\<close> (\<open>demo-crash-relay.ts\<close>, \<open>demo-crash-write.ts\<close>,
    \<open>demo-outbox.ts\<close>, \<open>demo-rabbit-duplicate.ts\<close>), \<open>RabbitDemos\<close> (\<open>demo-rabbit-publish.ts\<close>,
    \<open>demo-rabbit-dlq.ts\<close>), \<open>RedisDemos\<close> (\<open>demo-session.ts\<close>, \<open>demo-ratelimit.ts\<close>),
    \<open>CacheDemo\<close> (\<open>demo-cache.ts\<close>), \<open>QueueDemo\<close> (\<open>demo-queue.ts\<close> with \<open>redis/queue.ts\<close>),
    \<open>RbacDemo\<close> (\<open>demo-rbac.ts\<close>), \<open>RealtimeDemo\<close> (\<open>scripts/realtime-demo.mjs\<close>),
    \<open>MultipartDemo\<close> (\<open>demo-multipart.ts\<close>), \<open>CdnDemo\<close> (\<open>demo-cdn.ts\<close>),
    \<open>UploadDemo\<close> (\<open>demo-upload.ts\<close>). Each is one command or
    relation that composes the operations as the script does, with the verdict it prints as
    a field of its report.
  \<^item> Shared by them: \<open>StorageLogic\<close>, a small program logic for commands that talk to the S3
    service, over a view of what a bucket holds; \<open>Json\<close>, texts of JSON, UTF-8 and base64url
    with their round trips; \<open>Wire\<close>, events as the bytes of a message.
  \<^item> This theory: the creation of a product behind both guards.

  \<^bold>\<open>What the theorems show.\<close> Checkout: the exact effect of a success, atomicity of a failure,
  conservation of money and stock, and the race for the last items. Orders: the effect of a
  new order, atomicity with the outbox row, one order per key, what a retry returns. Outbox
  and consumer: what a batch publishes and marks, what a failed batch leaves, that every
  batch makes progress, and exactly-once effects end to end under duplicates, crashes and
  reordering. Events: the bound of the buffer, complete streams, isolated rooms. Tokens: no
  reuse of a rotated token, revoked families stay dead, one live token per family, the
  lifetime of access tokens and what a logout ends. Redis: the lock is exclusive while it
  lasts, one load per cold start, termination of every cached read, the bound of the rate
  limit in every window. Files: which commits succeed, typed rows under any sequence of
  operations. Edge: the cache is invisible. Workers: each task is processed at most once
  under any interleaving and any failure, and all of them under fair turns. Wire: an event that is
  published is the event the consumer reads. Retry: no lost
  update, and success of up to six concurrent increments. Report and loaders: exact sums, and
  that the joined query loads what the nested loops load. Seed: it keeps the integrity of any
  database, puts its rows in place and can be repeated. Demonstrations: each passes for every
  state and schedule its hypotheses allow, whatever the storage, broker or queue does within
  its laws, with three exceptions that are stated as such: the one of duplicate deliveries
  passes on its first run only, the one of failed writes passes even where nothing was
  written, and the realtime script fails against this server.

  \<^bold>\<open>Bounds.\<close> A call of the read cache makes at most 206 steps: 200 polls and six more. Worker
  turns: three sweeps per task and one per worker are enough, because a turn that finds
  nothing to do is followed by at most two before the next claim. Increments: two sweeps of
  four turns per call, since every call takes the row lock once and commits once. The loops
  of the source are structural recursions or carry a measure; nothing runs on fuel.

  \<^bold>\<open>Code outside the repository\<close> is a parameter, and what is assumed of it is a named
  hypothesis with an instance at which the theorems are applied: \<open>confirm_channel\<close> (a
  publication is confirmed or not; RabbitMQ), \<open>driver_ok\<close> and the argument \<open>bind\<close> (how the
  PostgreSQL driver writes parameters), \<open>jwt_library\<close> and \<open>scrypt_library\<close> (JSON web tokens,
  key derivation), \<open>origin_ok\<close> (the storage returns what is stored), \<open>fresh_family\<close> (a random
  UUID is new). Of the broker the demonstrations assume \<open>accepting\<close> (a publication to the
  purged queue is accepted), \<open>at_least_once\<close>, \<open>in_order\<close> and \<open>redelivers\<close> (what the queue hands
  over). Of tokens as text \<open>RbacDemo\<close> assumes \<open>jwt_compact\<close> (three parts, base64url of JSON).
  Of the S3 service the demonstrations of files assume \<open>bucket_laws\<close>, \<open>object_laws\<close>,
  \<open>upload_laws\<close> and \<open>part_url_laws\<close>: what one request changes of a view of the bucket and what
  it answers; a service in memory satisfies them. \<open>UploadDemo\<close> adds \<open>signed_put_laws\<close> (a signed
  address admits one path until its time is over), \<open>CdnDemo\<close> laws of URLs, digests and
  a private bucket, \<open>QueueDemo\<close> those of the job queue (attempts, back-off). HMAC, PEM parsing, URL parsing, percent-decoding, the S3 service and
  the signing of addresses are arguments without assumptions everywhere else. The time and
  random values are arguments.

  \<^bold>\<open>Not modelled.\<close> Framework wiring, the rules that zod checks, connection pools,
  indexes and the search vector, rounding of numbers beyond \<open>2 ^ 53\<close>: declarations, and calls of libraries whose code is not here. Console
  output, opening and closing of connections are left out of every script, and so is the table
  \<open>processed_order_events\<close>, which no component reads. Columns that no statement reads are left
  out of the rows. Isolation is modelled where the program relies on it: row locks,
  \<open>SKIP LOCKED\<close>, unique keys that make a second insert wait, and first-updater-wins under
  \<open>SERIALIZABLE\<close>.
\<close>

section \<open>Across components\<close>

lemma integer_or_refuse_run: "integer_or_refuse accept msg v d = (case integer_of v of
    None \<Rightarrow> Inl (BadRequest msg) | Some i \<Rightarrow> if accept i then Inr i else Inl (BadRequest msg), d)"
  by (simp add: integer_or_refuse_def cmd_simps split: option.split)

text \<open>A request without a usable name is refused before anything happens.\<close>

lemma createProduct_nameless:
  assumes "\<not> (\<exists>n. get_prop body ''name'' = Inr (Str n) \<and> js_trim n \<noteq> [])"
  shows "\<exists>e. createProduct bind (Some user) body d = (Inl e, d)"
proof (cases "get_prop body ''name''")
  case (Inl e)
  then show ?thesis by (simp add: createProduct_def cmd_bind_run cmd_simps)
next
  case (Inr v)
  with assms show ?thesis by (cases v) (simp_all add: createProduct_def cmd_bind_run cmd_simps)
qed

lemma createProduct_Inr:
  assumes "createProduct bind (Some user) body d = (Inr p, d')"
  shows "\<exists>u. to_number (opt_prop user ''sub'') = IntN u \<and> p_owner_id p = u \<and> 0 < p_price p \<and> 0 \<le> p_stock_quantity p \<and>
    d' = d\<lparr>products := products d @ [p], seqs := (seqs d)\<lparr>sq_products := sq_products (seqs d) + 1\<rparr>\<rparr>"
proof -
  obtain n where n: "get_prop body ''name'' = Inr (Str n)" "js_trim n \<noteq> []"
    using assms createProduct_nameless [of body bind user d] by (metis Inl_Inr_False prod.inject)
  obtain price where price: "integer_of (opt_prop body ''price'') = Some price" "0 < price"
    using assms n by (auto simp: createProduct_def cmd_bind_run cmd_simps integer_or_refuse_run split: option.splits if_splits)
  define stock where "stock = (if opt_prop body ''stockQuantity'' = Undefined \<or> opt_prop body ''stockQuantity'' = Null
    then Num (IntN 0) else opt_prop body ''stockQuantity'')"
  have run: "cmd_bind (integer_or_refuse (\<lambda>i. 0 \<le> i) ''Stock quantity must be a non-negative integer'' stock) (\<lambda>q.
      cmd_bind (owner_param (opt_prop user ''sub'')) (\<lambda>owner.
      insert_product owner (js_trim n) (optional_text bind (opt_prop body ''description'')) price q True)) d = (Inr p, d')"
    using assms n price unfolding stock_def
    by (simp add: createProduct_def cmd_bind_run cmd_simps integer_or_refuse_run Let_def)
  obtain q where q: "integer_of stock = Some q" "0 \<le> q"
    using run by (auto simp: cmd_bind_run [of "integer_or_refuse _ _ _"] integer_or_refuse_run split: option.splits if_splits)
  with run have "cmd_bind (owner_param (opt_prop user ''sub'')) (\<lambda>owner.
      insert_product owner (js_trim n) (optional_text bind (opt_prop body ''description'')) price q True) d = (Inr p, d')"
    by (simp add: cmd_bind_run [of "integer_or_refuse _ _ _"] integer_or_refuse_run)
  then show ?thesis
    using price q by (auto simp: cmd_bind_Inr_iff cmd_simps owner_param_def insert_product_Inr)
qed

lemma createProduct_Inl:
  assumes "createProduct bind user body d = (Inl e, d')" shows "products d' = products d"
proof -
  have ins: "insert_product ow n ds pr st act d = (Inl e, d') \<Longrightarrow> products d' = products d" for ow n ds pr st act
    by (cases ds; cases "int8 ow"; cases "int4 pr"; cases "int4 st")
      (auto simp: insert_product_def Let_def cmd_bind_run cmd_simps param_int_IntN split: option.splits)
  show ?thesis
  proof (cases user)
    case None
    with assms show ?thesis by (simp add: createProduct_def cmd_simps)
  next
    case (Some u)
    show ?thesis
    proof (cases "\<exists>n. get_prop body ''name'' = Inr (Str n) \<and> js_trim n \<noteq> []")
      case False
      from createProduct_nameless [OF this, of bind u d] assms Some show ?thesis by auto
    next
      case True
      then obtain n where "get_prop body ''name'' = Inr (Str n)" "js_trim n \<noteq> []" by blast
      with assms Some show ?thesis
        by (auto simp: createProduct_def cmd_bind_run cmd_simps integer_or_refuse_run owner_param_def Let_def dest: ins
            split: option.splits if_splits sum.splits)
    qed
  qed
qed



definition sample_product_body :: jsval where
  "sample_product_body = Obj [(''name'', Str ''Pen''), (''description'', Str ''A pen''), (''price'', Num (IntN 120))]"


end
